(* ===== verification/Prelude.thy ===== *)
theory Prelude
  imports Main "HOL-Library.Char_ord" "HOL-Library.Sublist"
begin

text \<open>
  What the components share: results with errors as values, the string operations of the
  JavaScript standard library that the sources call, decimal numerals, and insertion-ordered
  string-keyed objects.  A \<open>string\<close> is the UTF-8 byte sequence of the text, so
  \<open>length\<close> is \<open>Buffer.byteLength\<close>; on ASCII text it is also the JavaScript
  \<open>length\<close>, and case mapping covers the ASCII letters.

  Collections: \<open>res_simps\<close> evaluates the result combinators, \<open>str_simps\<close> the
  string operations, \<open>obj_simps\<close> the object operations.
\<close>

named_theorems res_simps "evaluation of the result combinators"
named_theorems str_simps "evaluation of the string operations"
named_theorems obj_simps "lookup and update of insertion-ordered objects"

section \<open>Results: an error as the left, a value as the right summand\<close>

type_synonym ('e, 'a) res = "'e + 'a"

definition bindR :: "('e, 'a) res \<Rightarrow> ('a \<Rightarrow> ('e, 'b) res) \<Rightarrow> ('e, 'b) res" where
  "bindR r f = (case r of Inl e \<Rightarrow> Inl e | Inr a \<Rightarrow> f a)"

fun mapR :: "('a \<Rightarrow> ('e, 'b) res) \<Rightarrow> 'a list \<Rightarrow> ('e, 'b list) res" where
  "mapR f [] = Inr []"
| "mapR f (x # xs) = bindR (f x) (\<lambda>y. bindR (mapR f xs) (\<lambda>ys. Inr (y # ys)))"

fun foldR :: "('s \<Rightarrow> 'a \<Rightarrow> ('e, 's) res) \<Rightarrow> 's \<Rightarrow> 'a list \<Rightarrow> ('e, 's) res" where
  "foldR f s [] = Inr s"
| "foldR f s (x # xs) = bindR (f s x) (\<lambda>s'. foldR f s' xs)"

lemma bindR_Inl [simp, res_simps]: "bindR (Inl e) f = Inl e"
  by (simp add: bindR_def)

lemma bindR_Inr [simp, res_simps]: "bindR (Inr a) f = f a"
  by (simp add: bindR_def)

lemma bindR_eq_Inr: "bindR r f = Inr b \<longleftrightarrow> (\<exists>a. r = Inr a \<and> f a = Inr b)"
  by (cases r) auto

lemma bindR_eq_Inl: "bindR r f = Inl e \<longleftrightarrow> r = Inl e \<or> (\<exists>a. r = Inr a \<and> f a = Inl e)"
  by (cases r) auto

lemma mapR_Inr_length: "mapR f xs = Inr ys \<Longrightarrow> length ys = length xs"
  by (induction xs arbitrary: ys) (auto simp: bindR_eq_Inr)

lemma mapR_Inr_iff: "mapR f xs = Inr ys \<longleftrightarrow> list_all2 (\<lambda>x y. f x = Inr y) xs ys"
  by (induction xs arbitrary: ys) (auto simp: bindR_eq_Inr list_all2_Cons1)

lemma mapR_total: "(\<And>x. x \<in> set xs \<Longrightarrow> f x = Inr (g x)) \<Longrightarrow> mapR f xs = Inr (map g xs)"
  by (induction xs) auto

lemma mapR_Inl_elem: "mapR f xs = Inl e \<Longrightarrow> \<exists>x \<in> set xs. f x = Inl e"
  by (induction xs) (auto simp: bindR_eq_Inl)

section \<open>Options\<close>

text \<open>\<open>a ?? b\<close>: the default is taken only when the value is absent.\<close>

definition opt_or :: "'a option \<Rightarrow> 'a \<Rightarrow> 'a" where
  "opt_or x d = (case x of None \<Rightarrow> d | Some a \<Rightarrow> a)"

lemma opt_or_simps [simp]: "opt_or None d = d" "opt_or (Some a) d = a"
  by (simp_all add: opt_or_def)

lemma option_eqI: "(\<And>x. l = Some x \<longleftrightarrow> r = Some x) \<Longrightarrow> l = r"
  by (cases l; cases r) auto

section \<open>Strings\<close>

definition starts_with :: "string \<Rightarrow> string \<Rightarrow> bool" where
  "starts_with s p = (take (length p) s = p)"

definition ends_with :: "string \<Rightarrow> string \<Rightarrow> bool" where
  "ends_with s p = (length p \<le> length s \<and> drop (length s - length p) s = p)"

fun index_of :: "char \<Rightarrow> string \<Rightarrow> nat option" where
  "index_of c [] = None"
| "index_of c (x # xs) = (if x = c then Some 0 else map_option Suc (index_of c xs))"

fun str_includes :: "string \<Rightarrow> string \<Rightarrow> bool" where
  "str_includes [] p = (p = [])"
| "str_includes (c # s) p = (starts_with (c # s) p \<or> str_includes s p)"

fun split_on :: "char \<Rightarrow> string \<Rightarrow> string list" where
  "split_on c [] = [[]]"
| "split_on c (x # xs) =
     (if x = c then [] # split_on c xs
      else (case split_on c xs of [] \<Rightarrow> [[x]] | y # ys \<Rightarrow> (x # y) # ys))"

fun join :: "string \<Rightarrow> string list \<Rightarrow> string" where
  "join sep [] = []"
| "join sep [x] = x"
| "join sep (x # y # ys) = x @ sep @ join sep (y # ys)"

definition replace_char :: "char \<Rightarrow> string \<Rightarrow> string \<Rightarrow> string" where
  "replace_char c t s = concat (map (\<lambda>x. if x = c then t else [x]) s)"

text \<open>A text between double quotes, as messages show it.\<close>

definition dq :: "string \<Rightarrow> string" where
  "dq s = CHR 0x22 # s @ [CHR 0x22]"

definition char_code :: "char \<Rightarrow> nat" where
  "char_code c = of_char c"

definition lower_char :: "char \<Rightarrow> char" where
  "lower_char c = (if 65 \<le> char_code c \<and> char_code c \<le> 90 then char_of (char_code c + 32) else c)"

definition upper_char :: "char \<Rightarrow> char" where
  "upper_char c = (if 97 \<le> char_code c \<and> char_code c \<le> 122 then char_of (char_code c - 32) else c)"

definition to_lower :: "string \<Rightarrow> string" where
  "to_lower s = map lower_char s"

definition to_upper :: "string \<Rightarrow> string" where
  "to_upper s = map upper_char s"

text \<open>White space as \<open>trim\<close> and the regular-expression class \<open>\s\<close> see it (ASCII part).\<close>

definition is_space :: "char \<Rightarrow> bool" where
  "is_space c = (char_code c = 32 \<or> (9 \<le> char_code c \<and> char_code c \<le> 13))"

definition trim :: "string \<Rightarrow> string" where
  "trim s = rev (dropWhile is_space (rev (dropWhile is_space s)))"

text \<open>\<open>s.split(/\s+/)\<close>: the pieces between maximal runs of white space.\<close>

fun split_ws :: "string \<Rightarrow> string list" where
  "split_ws [] = [[]]"
| "split_ws (x # xs) =
     (if is_space x
      then (case xs of [] \<Rightarrow> [[], []]
            | y # _ \<Rightarrow> if is_space y then split_ws xs else [] # split_ws xs)
      else (case split_ws xs of [] \<Rightarrow> [[x]] | y # ys \<Rightarrow> (x # y) # ys))"

text \<open>\<open>s.replace(/\/+/g, '/')\<close> and \<open>s.replace(/\/$/, '')\<close>.\<close>

fun collapse_slashes :: "string \<Rightarrow> string" where
  "collapse_slashes [] = []"
| "collapse_slashes [x] = [x]"
| "collapse_slashes (x # y # ys) =
     (if x = CHR ''/'' \<and> y = CHR ''/'' then collapse_slashes (y # ys)
      else x # collapse_slashes (y # ys))"

definition strip_trailing_slash :: "string \<Rightarrow> string" where
  "strip_trailing_slash s = (if ends_with s ''/'' then butlast s else s)"

lemma starts_with_append [simp, str_simps]: "starts_with (p @ s) p"
  by (simp add: starts_with_def)

lemma starts_with_iff: "starts_with s p \<longleftrightarrow> (\<exists>t. s = p @ t)"
  by (auto simp: starts_with_def) (metis append_take_drop_id)

lemma starts_with_Nil [simp, str_simps]: "starts_with s []"
  by (simp add: starts_with_def)

lemma starts_with_Cons [simp, str_simps]:
  "starts_with (a # s) (b # p) \<longleftrightarrow> a = b \<and> starts_with s p"
  by (auto simp: starts_with_def)

lemma starts_with_empty [simp, str_simps]: "starts_with [] (b # p) = False"
  by (simp add: starts_with_def)

lemma ends_with_iff: "ends_with s p \<longleftrightarrow> (\<exists>t. s = t @ p)"
  by (auto simp: ends_with_def) (metis append_take_drop_id)

lemma ends_with_snoc [simp, str_simps]: "ends_with (s @ [c]) [d] \<longleftrightarrow> c = d"
  by (auto simp: ends_with_iff)

lemma ends_with_empty [simp, str_simps]: "ends_with [] [d] = False"
  by (simp add: ends_with_def)

lemma ends_with_single: "ends_with s [c] \<longleftrightarrow> s \<noteq> [] \<and> last s = c"
  by (cases s rule: rev_cases) auto

lemma index_of_None [simp]: "index_of c s = None \<longleftrightarrow> c \<notin> set s"
  by (induction s) auto

lemma index_of_append [simp]: "c \<notin> set p \<Longrightarrow> index_of c (p @ c # t) = Some (length p)"
  by (induction p) auto

lemma index_of_Some_split:
  "index_of c s = Some i \<Longrightarrow> s = take i s @ c # drop (Suc i) s \<and> c \<notin> set (take i s) \<and> i < length s"
  by (induction s arbitrary: i) (auto split: if_splits)

lemma split_on_nonempty [simp]: "split_on c s \<noteq> []"
  by (induction s) (auto split: list.splits)

lemma join_split_on: "join [c] (split_on c s) = s"
proof (induction s)
  case (Cons x s)
  show ?case
    using Cons by (cases "split_on c s") (auto, (cases "tl (split_on c s)", auto)+)
qed simp

lemma split_on_no_sep: "c \<notin> set s \<Longrightarrow> split_on c s = [s]"
  by (induction s) auto

lemma split_on_sep: "c \<notin> set p \<Longrightarrow> split_on c (p @ c # s) = p # split_on c s"
  by (induction p) auto

lemma split_on_pieces: "p \<in> set (split_on c s) \<Longrightarrow> c \<notin> set p"
  by (induction s arbitrary: p) (auto split: if_splits list.splits)

lemma split_on_join:
  "xs \<noteq> [] \<Longrightarrow> (\<And>x. x \<in> set xs \<Longrightarrow> c \<notin> set x) \<Longrightarrow> split_on c (join [c] xs) = xs"
proof (induction "[c]" xs rule: join.induct)
  case (3 x y ys)
  then show ?case by (simp add: split_on_sep)
qed (auto simp: split_on_no_sep)

lemma join_Cons: "join sep (x # xs) = x @ (if xs = [] then [] else sep @ join sep xs)"
  by (cases xs) auto

lemma collapse_slashes_hd [simp]: "collapse_slashes (x # xs) \<noteq> []"
  by (induction xs arbitrary: x) auto

lemma collapse_slashes_no_double:
  "collapse_slashes s \<noteq> p @ ''//'' @ q"
proof (induction s arbitrary: p rule: collapse_slashes.induct)
  case (3 x y ys)
  have hd: "z # zs = collapse_slashes (y # ys) \<Longrightarrow> z = y" for z zs
    by (induction ys arbitrary: y) (auto split: if_splits)
  show ?case
  proof (cases "x = CHR ''/'' \<and> y = CHR ''/''")
    case True
    then show ?thesis using 3 by simp
  next
    case False
    have "x # collapse_slashes (y # ys) \<noteq> p @ ''//'' @ q"
    proof (cases p)
      case Nil
      then show ?thesis using False hd by auto
    next
      case (Cons a p')
      then show ?thesis using 3(2)[OF False, of p'] by simp
    qed
    then show ?thesis unfolding collapse_slashes.simps(3) if_not_P [OF False] .
  qed
qed (auto simp: Cons_eq_append_conv)

lemma collapse_slashes_idem: "collapse_slashes (collapse_slashes s) = collapse_slashes s"
proof (induction s rule: collapse_slashes.induct)
  case (3 x y ys)
  show ?case
  proof (cases "x = CHR ''/'' \<and> y = CHR ''/''")
    case False
    have "\<exists>zs. collapse_slashes (y # ys) = y # zs"
      by (induction ys arbitrary: y) auto
    then obtain zs where zs: "collapse_slashes (y # ys) = y # zs" ..
    then show ?thesis using False 3(2) by auto
  qed (use 3 in simp)
qed auto

section \<open>Decimal numerals\<close>

definition digit_char :: "nat \<Rightarrow> char" where
  "digit_char n = char_of (48 + n)"

definition is_digit :: "char \<Rightarrow> bool" where
  "is_digit c = (48 \<le> char_code c \<and> char_code c \<le> 57)"

definition digit_val :: "char \<Rightarrow> nat" where
  "digit_val c = char_code c - 48"

fun show_nat :: "nat \<Rightarrow> string" where
  "show_nat n = (if n < 10 then [digit_char n] else show_nat (n div 10) @ [digit_char (n mod 10)])"

declare show_nat.simps [simp del]

definition show_int :: "int \<Rightarrow> string" where
  "show_int i = (if i < 0 then CHR ''-'' # show_nat (nat (- i)) else show_nat (nat i))"

definition read_nat :: "string \<Rightarrow> nat" where
  "read_nat s = foldl (\<lambda>a c. 10 * a + digit_val c) 0 s"

lemma digit_char_code [simp]: "n < 10 \<Longrightarrow> char_code (digit_char n) = 48 + n"
  by (simp add: char_code_def digit_char_def)

lemma digit_char_digit [simp]: "n < 10 \<Longrightarrow> is_digit (digit_char n)"
  by (simp add: is_digit_def)

lemma digit_val_char [simp]: "n < 10 \<Longrightarrow> digit_val (digit_char n) = n"
  by (simp add: digit_val_def)

lemma show_nat_digits: "\<forall>c \<in> set (show_nat n). is_digit c"
proof (induction n rule: show_nat.induct)
  case (1 n)
  then show ?case by (subst show_nat.simps) auto
qed

lemma show_nat_nonempty [simp]: "show_nat n \<noteq> []"
  by (subst show_nat.simps) simp

lemma read_show_nat [simp]: "read_nat (show_nat n) = n"
proof (induction n rule: show_nat.induct)
  case (1 n)
  show ?case
  proof (cases "n < 10")
    case True
    then show ?thesis by (subst show_nat.simps) (simp add: read_nat_def)
  next
    case False
    then show ?thesis using 1 by (subst show_nat.simps) (simp add: read_nat_def)
  qed
qed

lemma show_nat_inj: "show_nat m = show_nat n \<Longrightarrow> m = n"
  by (metis read_show_nat)

lemma show_nat_hd_zero: "hd (show_nat n) = CHR ''0'' \<Longrightarrow> show_nat n = ''0''"
proof (induction n rule: show_nat.induct)
  case (1 n)
  show ?case
  proof (cases "n < 10")
    case True
    then show ?thesis using 1(2) by (simp add: show_nat.simps)
  next
    case False
    then have "hd (show_nat (n div 10)) = CHR ''0''"
      using 1(2) by (subst (asm) show_nat.simps) simp
    then have "show_nat (n div 10) = ''0''" using 1(1) False by simp
    then have "read_nat (show_nat (n div 10)) = 0" by (simp add: read_nat_def digit_val_def char_code_def)
    then show ?thesis using False by simp
  qed
qed

text \<open>\<open>Number.parseInt(s, 10)\<close>; \<open>None\<close> is \<open>NaN\<close>.\<close>

definition parse_int10 :: "string \<Rightarrow> int option" where
  "parse_int10 s =
     (let t = dropWhile is_space s;
          neg = (t \<noteq> [] \<and> hd t = CHR ''-'');
          u = (if t \<noteq> [] \<and> (hd t = CHR ''-'' \<or> hd t = CHR ''+'') then tl t else t);
          ds = takeWhile is_digit u in
      if ds = [] then None else Some (if neg then - int (read_nat ds) else int (read_nat ds)))"

lemma parse_int10_show: "parse_int10 (show_int n) = Some n"
proof -
  define m where "m = nat (if n < 0 then - n else n)"
  obtain c s where cs: "show_nat m = c # s" using show_nat_nonempty by (cases "show_nat m") auto
  have ds: "\<forall>x \<in> set (c # s). is_digit x" using show_nat_digits [of m] cs by simp
  then have "takeWhile is_digit (c # s) = c # s" by (simp only: takeWhile_eq_all_conv)
  moreover have "\<not> is_space c" "c \<noteq> CHR ''-''" "c \<noteq> CHR ''+''"
    using ds by (auto simp: is_space_def is_digit_def char_code_def)
  moreover have "read_nat (c # s) = m" using read_show_nat [of m] cs by simp
  moreover have "\<not> is_space CHR ''-''" by (simp add: is_space_def char_code_def)
  ultimately show ?thesis using cs by (auto simp: parse_int10_def show_int_def Let_def m_def)
qed

section \<open>Comparison of secrets\<close>

definition constantTimeEquals :: "string \<Rightarrow> string \<Rightarrow> bool" where
  "constantTimeEquals a b = (length a = length b \<and> list_all (\<lambda>(x, y). x = y) (zip a b))"

lemma constantTimeEquals_eq [simp]: "constantTimeEquals a b \<longleftrightarrow> a = b"
  unfolding constantTimeEquals_def by (induction a b rule: list_induct2') auto

section \<open>Insertion-ordered objects\<close>

text \<open>
  An object is the list of its own enumerable properties in the order \<open>Object.entries\<close>
  gives them.  Assignment keeps the place of an existing key and appends a new one.
\<close>

type_synonym 'v props = "(string \<times> 'v) list"

definition obj_get :: "(string \<times> 'v) list \<Rightarrow> string \<Rightarrow> 'v option" where
  "obj_get ps k = map_of ps k"

fun obj_set :: "string \<Rightarrow> 'v \<Rightarrow> (string \<times> 'v) list \<Rightarrow> (string \<times> 'v) list" where
  "obj_set k v [] = [(k, v)]"
| "obj_set k v ((k', v') # ps) = (if k' = k then (k, v) # ps else (k', v') # obj_set k v ps)"

definition obj_del :: "string \<Rightarrow> (string \<times> 'v) list \<Rightarrow> (string \<times> 'v) list" where
  "obj_del k ps = filter (\<lambda>(k', v). k' \<noteq> k) ps"

definition obj_has :: "(string \<times> 'v) list \<Rightarrow> string \<Rightarrow> bool" where
  "obj_has ps k = (k \<in> fst ` set ps)"

definition obj_keys :: "(string \<times> 'v) list \<Rightarrow> string list" where
  "obj_keys ps = map fst ps"

abbreviation obj_wf :: "(string \<times> 'v) list \<Rightarrow> bool" where
  "obj_wf ps \<equiv> distinct (map fst ps)"

lemma obj_get_Nil [simp, obj_simps]: "obj_get [] k = None"
  by (simp add: obj_get_def)

lemma obj_get_Cons [simp, obj_simps]:
  "obj_get ((k', v) # ps) k = (if k = k' then Some v else obj_get ps k)"
  by (simp add: obj_get_def)

lemma obj_has_simps [simp, obj_simps]:
  "obj_has [] k = False" "obj_has ((k', v) # ps) k = (k = k' \<or> obj_has ps k)"
  by (auto simp: obj_has_def)

lemma obj_has_get: "obj_has ps k \<longleftrightarrow> obj_get ps k \<noteq> None"
  by (induction ps) auto

lemma obj_get_set [simp, obj_simps]: "obj_get (obj_set k v ps) k' = (if k' = k then Some v else obj_get ps k')"
  by (induction ps) auto

lemma obj_get_del [simp, obj_simps]: "obj_get (obj_del k ps) k' = (if k' = k then None else obj_get ps k')"
  by (induction ps) (auto simp: obj_del_def)

lemma obj_has_set [simp, obj_simps]: "obj_has (obj_set k v ps) k' \<longleftrightarrow> k' = k \<or> obj_has ps k'"
  by (simp add: obj_has_get)

lemma obj_has_del [simp, obj_simps]: "obj_has (obj_del k ps) k' \<longleftrightarrow> k' \<noteq> k \<and> obj_has ps k'"
  by (simp add: obj_has_get)

lemma fst_obj_set: "fst ` set (obj_set k v ps) = insert k (fst ` set ps)"
  by (induction k v ps rule: obj_set.induct) (simp_all add: insert_commute)

lemma obj_wf_set [simp, intro]: "obj_wf ps \<Longrightarrow> obj_wf (obj_set k v ps)"
  by (induction ps) (auto simp: fst_obj_set)

lemma obj_wf_del [simp, intro]: "obj_wf ps \<Longrightarrow> obj_wf (obj_del k ps)"
  by (simp add: obj_del_def distinct_map_filter)

lemma obj_set_fresh: "k \<notin> fst ` set ps \<Longrightarrow> obj_set k v ps = ps @ [(k, v)]"
  by (induction ps) auto

lemma obj_get_append: "obj_get (xs @ ys) k = (case obj_get xs k of None \<Rightarrow> obj_get ys k | Some v \<Rightarrow> Some v)"
  by (induction xs) auto

lemma obj_get_in_set: "obj_get ps k = Some v \<Longrightarrow> (k, v) \<in> set ps"
  by (simp add: obj_get_def map_of_SomeD)

lemma obj_get_iff: "obj_wf ps \<Longrightarrow> obj_get ps k = Some v \<longleftrightarrow> (k, v) \<in> set ps"
  by (simp add: obj_get_def)

section \<open>Ordered lists\<close>

text \<open>A list ordered by an asymmetric relation is determined by its elements.\<close>

lemma sorted_wrt_unique:
  assumes "\<And>x y. R x y \<Longrightarrow> \<not> R y x" and "sorted_wrt R xs" "sorted_wrt R ys" "set xs = set ys"
  shows "xs = ys"
  using assms(2-)
proof (induction xs arbitrary: ys)
  case (Cons x xs)
  then obtain y ys' where ys: "ys = y # ys'" by (cases ys) auto
  have "x = y"
  proof (rule ccontr)
    assume "x \<noteq> y"
    then have "x \<in> set ys'" "y \<in> set xs" using Cons.prems(3) ys by auto
    then have "R y x" "R x y" using Cons.prems(1,2) ys by auto
    then show False using assms(1) by blast
  qed
  moreover have "x \<notin> set xs" "y \<notin> set ys'" using Cons.prems(1,2) ys assms(1) by auto
  ultimately have "set xs = set ys'" using Cons.prems(3) ys by auto
  then show ?case using Cons.IH [of ys'] Cons.prems(1,2) ys \<open>x = y\<close> by simp
qed simp

end
