(* ===== verification/Regex.thy ===== *)
theory Regex
  imports Prelude
begin

text \<open>
  The regular expressions the sources build at run time: an anchored \<open>^...$\<close> pattern made of
  plain characters, backslash escapes, \<open>.\<close>, and the two capture groups \<open>([^/]+)\<close> and
  \<open>(.*)\<close>.  \<open>re_parse\<close> reads such a pattern as \<open>new RegExp\<close> does
  (\<open>None\<close> for anything else), \<open>re_exec\<close> is the greedy backtracking match with its
  captures, and \<open>re_matches\<close> says what the pattern means.
\<close>

datatype re_tok = TLit char | TAny | TSeg | TRest

text \<open>The characters that have a meaning of their own in a pattern.\<close>

definition re_special :: "char \<Rightarrow> bool" where
  "re_special c = (c \<in> set [CHR ''.'', CHR ''*'', CHR ''+'', CHR ''?'', CHR ''^'', CHR ''$'', CHR ''{'', CHR ''}'',
     CHR ''('', CHR '')'', CHR ''|'', CHR ''['', CHR '']'', CHR 0x5C])"

text \<open>The body of a pattern, up to and including the closing \<open>$\<close>.\<close>

function re_body :: "string \<Rightarrow> re_tok list option" where
  "re_body s =
     (if s = ''$'' then Some []
      else if starts_with s ''([^/]+)'' then map_option ((#) TSeg) (re_body (drop 7 s))
      else if starts_with s ''(.*)'' then map_option ((#) TRest) (re_body (drop 4 s))
      else (case s of
              [] \<Rightarrow> None
            | c # r \<Rightarrow>
                if c = CHR 0x5C then
                  (case r of [] \<Rightarrow> None
                   | d # q \<Rightarrow> if re_special d then map_option ((#) (TLit d)) (re_body q) else None)
                else if c = CHR ''.'' then map_option ((#) TAny) (re_body r)
                else if re_special c then None
                else map_option ((#) (TLit c)) (re_body r)))"
  by pat_completeness auto
termination
  by (relation "measure length") (auto simp: starts_with_iff)

declare re_body.simps [simp del]

definition re_parse :: "string \<Rightarrow> re_tok list option" where
  "re_parse s = (case s of c # r \<Rightarrow> if c = CHR ''^'' then re_body r else None | [] \<Rightarrow> None)"

definition line_end :: "char \<Rightarrow> bool" where
  "line_end c = (char_code c = 10 \<or> char_code c = 13)"

fun first_some :: "('a \<Rightarrow> 'b option) \<Rightarrow> 'a list \<Rightarrow> 'b option" where
  "first_some f [] = None"
| "first_some f (x # xs) = (case f x of Some y \<Rightarrow> Some y | None \<Rightarrow> first_some f xs)"

text \<open>A group takes the longest run it may, then shorter ones until the rest matches.\<close>

fun re_exec :: "re_tok list \<Rightarrow> string \<Rightarrow> string list option" where
  "re_exec [] s = (if s = [] then Some [] else None)"
| "re_exec (TLit c # ts) s =
     (case s of [] \<Rightarrow> None | d # r \<Rightarrow> if d = c then re_exec ts r else None)"
| "re_exec (TAny # ts) s =
     (case s of [] \<Rightarrow> None | d # r \<Rightarrow> if line_end d then None else re_exec ts r)"
| "re_exec (TSeg # ts) s =
     first_some (\<lambda>n. map_option ((#) (take n s)) (re_exec ts (drop n s)))
       (rev [1..<Suc (length (takeWhile (\<lambda>c. c \<noteq> CHR ''/'') s))])"
| "re_exec (TRest # ts) s =
     first_some (\<lambda>n. map_option ((#) (take n s)) (re_exec ts (drop n s)))
       (rev [0..<Suc (length (takeWhile (\<lambda>c. \<not> line_end c) s))])"

fun re_matches :: "re_tok list \<Rightarrow> string \<Rightarrow> string list \<Rightarrow> bool" where
  "re_matches [] s caps = (s = [] \<and> caps = [])"
| "re_matches (TLit c # ts) s caps = (\<exists>r. s = c # r \<and> re_matches ts r caps)"
| "re_matches (TAny # ts) s caps = (\<exists>d r. s = d # r \<and> \<not> line_end d \<and> re_matches ts r caps)"
| "re_matches (TSeg # ts) s caps =
     (\<exists>p r q. s = p @ r \<and> p \<noteq> [] \<and> CHR ''/'' \<notin> set p \<and> caps = p # q \<and> re_matches ts r q)"
| "re_matches (TRest # ts) s caps =
     (\<exists>p r q. s = p @ r \<and> (\<forall>c \<in> set p. \<not> line_end c) \<and> caps = p # q \<and> re_matches ts r q)"

definition re_test :: "string \<Rightarrow> string \<Rightarrow> bool" where
  "re_test pattern s = (case re_parse pattern of None \<Rightarrow> False | Some ts \<Rightarrow> re_exec ts s \<noteq> None)"

section \<open>The match is correct and complete\<close>

lemma first_some_Some: "first_some f xs = Some y \<Longrightarrow> \<exists>x \<in> set xs. f x = Some y"
  by (induction xs) (auto split: option.splits)

lemma first_some_None [simp]: "first_some f xs = None \<longleftrightarrow> (\<forall>x \<in> set xs. f x = None)"
  by (induction xs) (auto split: option.splits)

lemma take_run: "n \<le> length (takeWhile P s) \<Longrightarrow> c \<in> set (take n s) \<Longrightarrow> P c"
proof -
  assume n: "n \<le> length (takeWhile P s)" and c: "c \<in> set (take n s)"
  have "take n s = take n (takeWhile P s @ dropWhile P s)" by simp
  also have "\<dots> = take n (takeWhile P s)" using n by (simp del: takeWhile_dropWhile_id)
  finally show "P c" using c by (metis in_set_takeD set_takeWhileD)
qed

lemma run_length: "(\<forall>c \<in> set p. P c) \<Longrightarrow> length p \<le> length (takeWhile P (p @ r))"
  by (simp add: takeWhile_append2)

lemma re_exec_sound: "re_exec ts s = Some caps \<Longrightarrow> re_matches ts s caps"
proof (induction ts s arbitrary: caps rule: re_exec.induct)
  case (4 ts s)
  obtain n where n: "n \<in> set (rev [1..<Suc (length (takeWhile (\<lambda>c. c \<noteq> CHR ''/'') s))])"
      and "map_option ((#) (take n s)) (re_exec ts (drop n s)) = Some caps"
    using first_some_Some [OF 4(2) [unfolded re_exec.simps(4)]] by blast
  then obtain q where q: "re_exec ts (drop n s) = Some q" "caps = take n s # q" by auto
  have "take n s \<noteq> []" "CHR ''/'' \<notin> set (take n s)"
    using n take_run [of n "\<lambda>c. c \<noteq> CHR ''/''" s "CHR ''/''"] by (auto dest: le_trans [OF _ length_takeWhile_le])
  moreover have "re_matches ts (drop n s) q" using 4(1) q(1) by blast
  ultimately show ?case using q(2) by (auto intro!: exI [of _ "take n s"] exI [of _ "drop n s"])
next
  case (5 ts s)
  obtain n where n: "n \<in> set (rev [0..<Suc (length (takeWhile (\<lambda>c. \<not> line_end c) s))])"
      and "map_option ((#) (take n s)) (re_exec ts (drop n s)) = Some caps"
    using first_some_Some [OF 5(2) [unfolded re_exec.simps(5)]] by blast
  then obtain q where q: "re_exec ts (drop n s) = Some q" "caps = take n s # q" by auto
  have "\<forall>c \<in> set (take n s). \<not> line_end c"
    using n take_run [of n "\<lambda>c. \<not> line_end c" s] by auto
  moreover have "re_matches ts (drop n s) q" using 5(1) q(1) by blast
  ultimately show ?case using q(2) by (auto intro!: exI [of _ "take n s"] exI [of _ "drop n s"])
qed (auto split: if_splits list.splits)

lemma re_exec_complete: "re_matches ts s caps \<Longrightarrow> re_exec ts s \<noteq> None"
proof (induction ts s arbitrary: caps rule: re_exec.induct)
  case (4 ts s)
  then obtain p r q where s: "s = p @ r" "p \<noteq> []" "CHR ''/'' \<notin> set p" "re_matches ts r q" by auto
  have "length p \<le> length (takeWhile (\<lambda>c. c \<noteq> CHR ''/'') s)"
    using s by (auto intro: run_length)
  then have m: "length p \<in> set (rev [1..<Suc (length (takeWhile (\<lambda>c. c \<noteq> CHR ''/'') s))])"
    using s(2) by (cases p) auto
  have "re_exec ts (drop (length p) s) \<noteq> None" using 4(1) [of "length p" q] s by simp
  with m show ?case by (metis (mono_tags, lifting) first_some_None map_option_is_None re_exec.simps(4))
next
  case (5 ts s)
  then obtain p r q where s: "s = p @ r" "\<forall>c \<in> set p. \<not> line_end c" "re_matches ts r q" by auto
  have "length p \<le> length (takeWhile (\<lambda>c. \<not> line_end c) s)"
    using s by (auto intro: run_length)
  then have m: "length p \<in> set (rev [0..<Suc (length (takeWhile (\<lambda>c. \<not> line_end c) s))])"
    by (simp del: upt_Suc)
  have "re_exec ts (drop (length p) s) \<noteq> None" using 5(1) [of "length p" q] s by simp
  with m show ?case by (metis (mono_tags, lifting) first_some_None map_option_is_None re_exec.simps(5))
qed auto

lemma re_exec_iff: "re_exec ts s \<noteq> None \<longleftrightarrow> (\<exists>caps. re_matches ts s caps)"
  using re_exec_sound re_exec_complete by blast

lemma re_exec_lits: "re_exec (map TLit p) s = (if s = p then Some [] else None)"
  by (induction p arbitrary: s) (auto split: list.splits)

lemma re_matches_captures: "re_matches ts s caps \<Longrightarrow> length caps = length (filter (\<lambda>t. t = TSeg \<or> t = TRest) ts)"
  by (induction ts s caps rule: re_matches.induct) auto

end
