(* ===== verification/Json.thy ===== *)
theory Json
  imports Prelude
begin

text \<open>
  JavaScript values that travel over the wire and through the stores, and the part of
  \<open>JSON.stringify\<close> and \<open>JSON.parse\<close> the sources use.  Numbers are the integers:
  fractions and exponents are outside the fragment (the parser rejects them).  Objects list
  their properties in enumeration order.  \<open>stringify\<close> gives \<open>None\<close> where
  JavaScript gives \<open>undefined\<close>.
\<close>

section \<open>Values\<close>

datatype jsval =
    Undef
  | Null
  | Bool bool
  | Num int
  | Str string
  | Arr "jsval list"
  | Obj "(string \<times> jsval) list"

fun get_prop :: "jsval \<Rightarrow> string \<Rightarrow> jsval" where
  "get_prop (Obj ps) k = (case obj_get ps k of None \<Rightarrow> Undef | Some v \<Rightarrow> v)"
| "get_prop _ k = Undef"

fun truthy :: "jsval \<Rightarrow> bool" where
  "truthy Undef = False"
| "truthy Null = False"
| "truthy (Bool b) = b"
| "truthy (Num n) = (n \<noteq> 0)"
| "truthy (Str s) = (s \<noteq> [])"
| "truthy (Arr _) = True"
| "truthy (Obj _) = True"

text \<open>\<open>v ?? d\<close>.\<close>

definition nullish_or :: "jsval \<Rightarrow> jsval \<Rightarrow> jsval" where
  "nullish_or v d = (if v = Undef \<or> v = Null then d else v)"

definition is_str :: "jsval \<Rightarrow> bool" where
  "is_str v = (case v of Str _ \<Rightarrow> True | _ \<Rightarrow> False)"

definition is_num :: "jsval \<Rightarrow> bool" where
  "is_num v = (case v of Num _ \<Rightarrow> True | _ \<Rightarrow> False)"

definition is_arr :: "jsval \<Rightarrow> bool" where
  "is_arr v = (case v of Arr _ \<Rightarrow> True | _ \<Rightarrow> False)"

text \<open>\<open>typeof v === 'object' && v !== null\<close>.\<close>

definition is_object :: "jsval \<Rightarrow> bool" where
  "is_object v = (case v of Arr _ \<Rightarrow> True | Obj _ \<Rightarrow> True | _ \<Rightarrow> False)"

section \<open>JSON.stringify\<close>

text \<open>
  What a JSON text can carry: \<open>undefined\<close> properties are dropped, \<open>undefined\<close> elements
  become \<open>null\<close>.
\<close>

fun json_norm :: "jsval \<Rightarrow> jsval" where
  "json_norm Undef = Null"
| "json_norm (Arr vs) = Arr (map json_norm vs)"
| "json_norm (Obj ps) = Obj (map (\<lambda>(k, v). (k, json_norm v)) (filter (\<lambda>(k, v). v \<noteq> Undef) ps))"
| "json_norm v = v"

fun plain :: "jsval \<Rightarrow> bool" where
  "plain Undef = False"
| "plain (Arr vs) = (\<forall>v \<in> set vs. plain v)"
| "plain (Obj ps) = (obj_wf ps \<and> (\<forall>(k, v) \<in> set ps. plain v))"
| "plain _ = True"

text \<open>Objects with distinct keys throughout, as every JavaScript object has.\<close>

fun wf_js :: "jsval \<Rightarrow> bool" where
  "wf_js (Arr vs) = (\<forall>v \<in> set vs. wf_js v)"
| "wf_js (Obj ps) = (obj_wf ps \<and> (\<forall>(k, v) \<in> set ps. wf_js v))"
| "wf_js _ = True"

definition hex_digit :: "nat \<Rightarrow> char" where
  "hex_digit n = (if n < 10 then char_of (48 + n) else char_of (87 + n))"

definition esc_char :: "char \<Rightarrow> string" where
  "esc_char c =
     (let n = char_code c in
      if n = 34 then [CHR 0x5C, CHR 0x22]
      else if n = 92 then [CHR 0x5C, CHR 0x5C]
      else if n = 8 then [CHR 0x5C, CHR ''b'']
      else if n = 9 then [CHR 0x5C, CHR ''t'']
      else if n = 10 then [CHR 0x5C, CHR ''n'']
      else if n = 12 then [CHR 0x5C, CHR ''f'']
      else if n = 13 then [CHR 0x5C, CHR ''r'']
      else if n < 32 then [CHR 0x5C, CHR ''u'', CHR ''0'', CHR ''0'', hex_digit (n div 16), hex_digit (n mod 16)]
      else [c])"

definition print_str :: "string \<Rightarrow> string" where
  "print_str s = CHR 0x22 # concat (map esc_char s) @ [CHR 0x22]"

fun print_json :: "jsval \<Rightarrow> string"
and print_elems :: "jsval list \<Rightarrow> string"
and print_fields :: "(string \<times> jsval) list \<Rightarrow> string" where
  "print_json Undef = ''null''"
| "print_json Null = ''null''"
| "print_json (Bool True) = ''true''"
| "print_json (Bool False) = ''false''"
| "print_json (Num n) = show_int n"
| "print_json (Str s) = print_str s"
| "print_json (Arr vs) = CHR ''['' # print_elems vs @ '']''"
| "print_json (Obj ps) = CHR ''{'' # print_fields ps @ ''}''"
| "print_elems [] = []"
| "print_elems [v] = print_json v"
| "print_elems (v # w # vs) = print_json v @ '','' @ print_elems (w # vs)"
| "print_fields [] = []"
| "print_fields [(k, v)] = print_str k @ '':'' @ print_json v"
| "print_fields ((k, v) # q # ps) = print_str k @ '':'' @ print_json v @ '','' @ print_fields (q # ps)"

definition stringify :: "jsval \<Rightarrow> string option" where
  "stringify v = (if v = Undef then None else Some (print_json (json_norm v)))"

section \<open>JSON.parse\<close>

fun skip_ws :: "string \<Rightarrow> string" where
  "skip_ws [] = []"
| "skip_ws (c # s) = (if c \<in> set [CHR '' '', CHR 0x09, CHR 0x0A, CHR 0x0D] then skip_ws s else c # s)"

definition hex_val :: "char \<Rightarrow> nat option" where
  "hex_val c =
     (let n = char_code c in
      if 48 \<le> n \<and> n \<le> 57 then Some (n - 48)
      else if 97 \<le> n \<and> n \<le> 102 then Some (n - 87)
      else if 65 \<le> n \<and> n \<le> 70 then Some (n - 55)
      else None)"

text \<open>The UTF-8 bytes of a code unit (a surrogate is encoded on its own).\<close>

definition utf8 :: "nat \<Rightarrow> string" where
  "utf8 n =
     (if n < 128 then [char_of n]
      else if n < 2048 then [char_of (192 + n div 64), char_of (128 + n mod 64)]
      else [char_of (224 + n div 4096), char_of (128 + n div 64 mod 64), char_of (128 + n mod 64)])"

fun hex4 :: "string \<Rightarrow> (nat \<times> string) option" where
  "hex4 (a # b # c # d # r) =
     (case (hex_val a, hex_val b, hex_val c, hex_val d) of
        (Some i, Some j, Some k, Some l) \<Rightarrow> Some (4096 * i + 256 * j + 16 * k + l, r)
      | _ \<Rightarrow> None)"
| "hex4 _ = None"

definition unescape :: "char \<Rightarrow> char option" where
  "unescape c =
     (if c = CHR 0x22 then Some (CHR 0x22)
      else if c = CHR 0x5C then Some (CHR 0x5C)
      else if c = CHR ''/'' then Some (CHR ''/'')
      else if c = CHR ''b'' then Some (CHR 0x08)
      else if c = CHR ''f'' then Some (CHR 0x0C)
      else if c = CHR ''n'' then Some (CHR 0x0A)
      else if c = CHR ''r'' then Some (CHR 0x0D)
      else if c = CHR ''t'' then Some (CHR 0x09)
      else None)"

text \<open>The body of a string literal, after its opening quote.\<close>

fun parse_str :: "string \<Rightarrow> (string \<times> string) option" where
  "parse_str [] = None"
| "parse_str (c # r) =
     (if c = CHR 0x22 then Some ([], r)
      else if c = CHR 0x5C then
        (case r of
           [] \<Rightarrow> None
         | e # r' \<Rightarrow>
             if e = CHR ''u'' then
               (case r' of
                  h1 # h2 # h3 # h4 # r2 \<Rightarrow>
                    (case hex4 [h1, h2, h3, h4] of
                       None \<Rightarrow> None
                     | Some (n, _) \<Rightarrow> map_option (\<lambda>(t, q). (utf8 n @ t, q)) (parse_str r2))
                | _ \<Rightarrow> None)
             else
               (case unescape e of
                  None \<Rightarrow> None
                | Some d \<Rightarrow> map_option (\<lambda>(t, q). (d # t, q)) (parse_str r')))
      else if char_code c < 32 then None
      else map_option (\<lambda>(t, q). (c # t, q)) (parse_str r))"

definition parse_digits :: "string \<Rightarrow> (int \<times> string) option" where
  "parse_digits s =
     (let ds = takeWhile is_digit s; r = dropWhile is_digit s in
      if ds = [] \<or> (hd ds = CHR ''0'' \<and> length ds > 1) then None
      else if r \<noteq> [] \<and> hd r \<in> set ''.eE'' then None
      else Some (int (read_nat ds), r))"

definition parse_num :: "string \<Rightarrow> (int \<times> string) option" where
  "parse_num s =
     (case s of
        [] \<Rightarrow> None
      | c # r \<Rightarrow> if c = CHR ''-'' then map_option (\<lambda>(n, q). (- n, q)) (parse_digits r) else parse_digits s)"

definition keyword :: "string \<Rightarrow> string \<Rightarrow> string option" where
  "keyword w s = (if starts_with s w then Some (drop (length w) s) else None)"

lemma skip_ws_length: "length (skip_ws s) \<le> length s"
  by (induction s) auto

lemma skip_ws_Cons_less: "skip_ws s = c # r \<Longrightarrow> length r < length s"
  using skip_ws_length [of s] by simp

function parse_val :: "string \<Rightarrow> (jsval \<times> string) option"
and parse_elems :: "string \<Rightarrow> (jsval list \<times> string) option"
and parse_fields :: "string \<Rightarrow> ((string \<times> jsval) list \<times> string) option" where
  "parse_val s =
     (case skip_ws s of
        [] \<Rightarrow> None
      | c # r \<Rightarrow>
          if c = CHR ''n'' then map_option (\<lambda>q. (Null, q)) (keyword ''ull'' r)
          else if c = CHR ''t'' then map_option (\<lambda>q. (Bool True, q)) (keyword ''rue'' r)
          else if c = CHR ''f'' then map_option (\<lambda>q. (Bool False, q)) (keyword ''alse'' r)
          else if c = CHR 0x22 then map_option (\<lambda>(t, q). (Str t, q)) (parse_str r)
          else if c = CHR ''['' then
            (case skip_ws r of
               [] \<Rightarrow> None
             | d # r' \<Rightarrow> if d = CHR '']'' then Some (Arr [], r')
                        else map_option (\<lambda>(vs, q). (Arr vs, q)) (parse_elems r))
          else if c = CHR ''{'' then
            (case skip_ws r of
               [] \<Rightarrow> None
             | d # r' \<Rightarrow> if d = CHR ''}'' then Some (Obj [], r')
                        else map_option (\<lambda>(ps, q). (Obj (foldl (\<lambda>o' (k, v). obj_set k v o') [] ps), q))
                               (parse_fields r))
          else map_option (\<lambda>(n, q). (Num n, q)) (parse_num (c # r)))"
| "parse_elems s =
     (case parse_val s of
        None \<Rightarrow> None
      | Some (v, r) \<Rightarrow>
          (case skip_ws r of
             [] \<Rightarrow> None
           | c # r' \<Rightarrow>
               if c = CHR '']'' then Some ([v], r')
               else if c = CHR '','' \<and> length r' < length s then
                 map_option (\<lambda>(vs, q). (v # vs, q)) (parse_elems r')
               else None))"
| "parse_fields s =
     (case skip_ws s of
        [] \<Rightarrow> None
      | c0 # r0 \<Rightarrow>
          if c0 \<noteq> CHR 0x22 then None
          else (case parse_str r0 of
             None \<Rightarrow> None
           | Some (k, r1) \<Rightarrow>
               (case skip_ws r1 of
                  [] \<Rightarrow> None
                | c1 # r2 \<Rightarrow>
                    if c1 \<noteq> CHR '':'' \<or> \<not> length r2 < length s then None
                    else (case parse_val r2 of
                       None \<Rightarrow> None
                     | Some (v, r3) \<Rightarrow>
                         (case skip_ws r3 of
                            [] \<Rightarrow> None
                          | c3 # r4 \<Rightarrow>
                              if c3 = CHR ''}'' then Some ([(k, v)], r4)
                              else if c3 = CHR '','' \<and> length r4 < length s then
                                map_option (\<lambda>(ps, q). ((k, v) # ps, q)) (parse_fields r4)
                              else None)))))"
  by pat_completeness auto
termination
  by (relation "measure (\<lambda>x. case x of Inl s \<Rightarrow> 2 * length s | Inr (Inl s) \<Rightarrow> 2 * length s + 1
                           | Inr (Inr s) \<Rightarrow> 2 * length s + 1)")
     (auto dest: skip_ws_Cons_less)

declare parse_val.simps [simp del] parse_elems.simps [simp del] parse_fields.simps [simp del]

definition json_parse :: "string \<Rightarrow> jsval option" where
  "json_parse s =
     (case parse_val s of
        None \<Rightarrow> None
      | Some (v, r) \<Rightarrow> if skip_ws r = [] then Some v else None)"

section \<open>Parsing a printed value gives it back\<close>

lemma parse_str_step:
  "parse_str (esc_char c @ t) = map_option (\<lambda>(u, q). (c # u, q)) (parse_str t)"
proof -
  have c: "c = char_of (char_code c)" by (simp add: char_code_def)
  have named: "char_of (8 :: nat) = CHR 0x08" "char_of (9 :: nat) = CHR 0x09" "char_of (10 :: nat) = CHR 0x0A"
      "char_of (12 :: nat) = CHR 0x0C" "char_of (13 :: nat) = CHR 0x0D"
    by code_simp+
  have quotes: "char_of (34 :: nat) = CHR 0x22" "char_of (92 :: nat) = CHR 0x5C" by code_simp+
  consider "char_code c < 32" | "char_code c = 34" | "char_code c = 92"
    | "\<not> char_code c < 32" "char_code c \<noteq> 34" "char_code c \<noteq> 92" by blast
  then show ?thesis
  proof cases
    case 1
    have step: "parse_str (esc_char (char_of n) @ t) = map_option (\<lambda>(u, q). (char_of n # u, q)) (parse_str t)"
      if "n \<in> {0, 1, 2, 3, 4, 5, 6, 7, 8, 9, 10, 11, 12, 13, 14, 15, 16, 17, 18, 19,
        20, 21, 22, 23, 24, 25, 26, 27, 28, 29, 30, 31}" for n :: nat
      using that
      by (auto simp: named esc_char_def hex_digit_def char_code_def unescape_def hex_val_def utf8_def numeral_2_eq_2 [symmetric])
    from 1 have "char_code c \<in> {0, 1, 2, 3, 4, 5, 6, 7, 8, 9, 10, 11, 12, 13, 14, 15, 16, 17, 18, 19,
        20, 21, 22, 23, 24, 25, 26, 27, 28, 29, 30, 31}" unfolding insert_iff empty_iff by presburger
    from step [OF this] show ?thesis using c by simp
  next
    case 4
    then have "esc_char c = [c]" "c \<noteq> CHR 0x22" "c \<noteq> CHR 0x5C"
      by (auto simp: esc_char_def Let_def char_code_def)
    with 4 show ?thesis by simp
  next
    case 2
    then have "c = CHR 0x22" using c by (simp add: quotes)
    then show ?thesis by (simp add: esc_char_def char_code_def unescape_def)
  next
    case 3
    then have "c = CHR 0x5C" using c by (simp add: quotes)
    then show ?thesis by (simp add: esc_char_def char_code_def unescape_def)
  qed
qed

lemma parse_print_str: "parse_str (concat (map esc_char s) @ CHR 0x22 # rest) = Some (s, rest)"
  by (induction s) (simp_all add: parse_str_step)

definition num_end :: "string \<Rightarrow> bool" where
  "num_end r = (r = [] \<or> (\<not> is_digit (hd r) \<and> hd r \<notin> set ''.eE''))"

lemma parse_digits_show:
  assumes "num_end r"
  shows "parse_digits (show_nat n @ r) = Some (int n, r)"
proof -
  have d: "\<forall>c \<in> set (show_nat n). is_digit c" by (rule show_nat_digits)
  have t: "takeWhile is_digit (show_nat n @ r) = show_nat n" "dropWhile is_digit (show_nat n @ r) = r"
    using d assms by (auto simp: num_end_def takeWhile_append dropWhile_append takeWhile_eq_all_conv
        dropWhile_eq_Nil_conv split: if_splits) (cases r; auto)+
  have "\<not> (hd (show_nat n) = CHR ''0'' \<and> length (show_nat n) > 1)"
    using show_nat_hd_zero [of n] by auto
  then show ?thesis using assms unfolding parse_digits_def t by (auto simp: num_end_def)
qed

lemma show_nat_hd_digit: "is_digit (hd (show_nat n))"
  using show_nat_digits [of n] by (meson hd_in_set show_nat_nonempty)

lemma parse_num_show:
  assumes "num_end r"
  shows "parse_num (show_int n @ r) = Some (n, r)"
proof (cases "n < 0")
  case True
  then show ?thesis using parse_digits_show [OF assms] by (simp add: parse_num_def show_int_def)
next
  case False
  have "hd (show_nat (nat n)) \<noteq> CHR ''-''"
    using show_nat_hd_digit [of "nat n"] by (auto simp: is_digit_def char_code_def)
  moreover obtain c t where "show_nat (nat n) = c # t" by (meson neq_Nil_conv show_nat_nonempty)
  ultimately show ?thesis
    using False parse_digits_show [OF assms, of "nat n"] by (simp add: parse_num_def show_int_def)
qed

text \<open>How a printed value begins: never with white space or a closing bracket.\<close>

definition val_start :: "char \<Rightarrow> bool" where
  "val_start c = (c \<notin> set [CHR '' '', CHR 0x09, CHR 0x0A, CHR 0x0D, CHR '']'', CHR ''}''])"

lemma skip_ws_start [simp]: "val_start c \<Longrightarrow> skip_ws (c # s) = c # s"
  by (simp add: val_start_def)

lemma show_int_start: "\<exists>c t. show_int n = c # t \<and> (is_digit c \<or> c = CHR ''-'')"
  using show_nat_hd_digit by (auto simp: show_int_def) (metis hd_Cons_tl show_nat_nonempty)

lemma print_json_start: "\<exists>c t. print_json v = c # t \<and> val_start c"
proof (cases v)
  case (Num n)
  have "is_digit c \<or> c = CHR ''-'' \<Longrightarrow> val_start c" for c
    by (auto simp: is_digit_def val_start_def char_code_def)
  with Num show_int_start [of n] show ?thesis by auto
next
  case (Bool b)
  then show ?thesis by (cases b) (auto simp: val_start_def)
qed (auto simp: val_start_def print_str_def)

lemma foldl_obj_set_append:
  "obj_wf (ps @ qs) \<Longrightarrow> foldl (\<lambda>o' (k, v). obj_set k v o') ps qs = ps @ qs"
proof (induction qs arbitrary: ps)
  case (Cons q qs)
  obtain k v where q: "q = (k, v)" by fastforce
  have "obj_set k v ps = ps @ [(k, v)]" using Cons.prems q by (intro obj_set_fresh) auto
  then show ?case using Cons.IH [of "ps @ [(k, v)]"] Cons.prems q by simp
qed simp

lemma foldl_obj_set_wf: "obj_wf qs \<Longrightarrow> foldl (\<lambda>o' (k, v). obj_set k v o') [] qs = qs"
  using foldl_obj_set_append [of "[]" qs] by simp

lemma parse_val_num:
  assumes "num_end r"
  shows "parse_val (show_int n @ r) = Some (Num n, r)"
proof -
  obtain c t where ct: "show_int n = c # t" "is_digit c \<or> c = CHR ''-''" using show_int_start by blast
  have "c \<notin> set [CHR '' '', CHR 0x09, CHR 0x0A, CHR 0x0D, CHR ''n'', CHR ''t'', CHR ''f'', CHR 0x22, CHR ''['', CHR ''{'']"
    using ct(2) by (auto simp: is_digit_def char_code_def)
  then show ?thesis using parse_num_show [OF assms, of n] ct(1) by (simp add: parse_val.simps)
qed

lemma parse_print:
  "plain v \<Longrightarrow> num_end r \<Longrightarrow> parse_val (print_json v @ r) = Some (v, r)"
  "(\<forall>v \<in> set vs. plain v) \<Longrightarrow> vs \<noteq> [] \<Longrightarrow> parse_elems (print_elems vs @ CHR '']'' # r) = Some (vs, r)"
  "(\<forall>(k, v) \<in> set ps. plain v) \<Longrightarrow> ps \<noteq> [] \<Longrightarrow>
     parse_fields (print_fields ps @ CHR ''}'' # r) = Some (ps, r)"
proof (induction v and vs and ps arbitrary: r and r and r rule: print_json_print_elems_print_fields.induct)
  case (5 n)
  then show ?case by (simp add: parse_val_num)
next
  case (7 vs)
  show ?case
  proof (cases "vs = []")
    case False
    have "\<exists>c t. print_elems vs = c # t \<and> val_start c"
      using False print_json_start [of "hd vs"] by (cases vs rule: print_elems.cases) auto
    then obtain c t where ct: "print_elems vs = c # t" "val_start c" by blast
    then have "c \<noteq> CHR '']''" by (simp add: val_start_def)
    then show ?thesis using 7 ct False by (auto simp: parse_val.simps val_start_def)
  qed (simp add: parse_val.simps)
next
  case (8 ps)
  show ?case
  proof (cases "ps = []")
    case False
    have "\<exists>t. print_fields ps = CHR 0x22 # t"
      using False by (cases ps rule: print_fields.cases) (auto simp: print_str_def)
    then obtain t where "print_fields ps = CHR 0x22 # t" by blast
    then show ?thesis using 8 False by (auto simp: parse_val.simps foldl_obj_set_wf)
  qed (simp add: parse_val.simps)
next
  case (10 v)
  have "parse_val (print_json v @ CHR '']'' # r) = Some (v, CHR '']'' # r)"
    using 10 by (simp add: num_end_def is_digit_def char_code_def)
  then show ?case by (simp add: parse_elems.simps)
next
  case (11 v w vs)
  have "parse_val (print_json v @ CHR '','' # print_elems (w # vs) @ CHR '']'' # r)
      = Some (v, CHR '','' # print_elems (w # vs) @ CHR '']'' # r)"
    using 11 by (simp add: num_end_def is_digit_def char_code_def)
  moreover have "parse_elems (print_elems (w # vs) @ CHR '']'' # r) = Some (w # vs, r)" using 11 by simp
  ultimately show ?case by (subst parse_elems.simps) simp
next
  case (13 k v)
  have "parse_val (print_json v @ CHR ''}'' # r) = Some (v, CHR ''}'' # r)"
    using 13 by (simp add: num_end_def is_digit_def char_code_def)
  then show ?case by (subst parse_fields.simps) (simp add: print_str_def parse_print_str)
next
  case (14 k v q ps)
  have "parse_val (print_json v @ CHR '','' # print_fields (q # ps) @ CHR ''}'' # r)
      = Some (v, CHR '','' # print_fields (q # ps) @ CHR ''}'' # r)"
    using 14 by (simp add: num_end_def is_digit_def char_code_def)
  moreover have "parse_fields (print_fields (q # ps) @ CHR ''}'' # r) = Some (q # ps, r)" using 14 by simp
  ultimately show ?case
    by (subst parse_fields.simps) (simp add: print_str_def parse_print_str)
qed (simp_all add: parse_val.simps keyword_def starts_with_def print_str_def parse_print_str)

theorem json_parse_print: "plain v \<Longrightarrow> json_parse (print_json v) = Some v"
  using parse_print(1) [of v "[]"] by (simp add: json_parse_def num_end_def)

lemma obj_wf_norm:
  "obj_wf ps \<Longrightarrow> obj_wf (map (\<lambda>(k, v). (k, json_norm v)) (filter (\<lambda>(k, v). v \<noteq> Undef) ps))"
  by (induction ps) (auto simp: image_iff)

lemma plain_norm: "wf_js v \<Longrightarrow> plain (json_norm v)"
proof (induction v rule: json_norm.induct)
  case (3 ps)
  then show ?case using obj_wf_norm [of ps] by fastforce
qed auto

lemma norm_plain: "plain v \<Longrightarrow> json_norm v = v"
proof (induction v rule: json_norm.induct)
  case (2 vs)
  then show ?case by (auto intro: map_idI)
next
  case (3 ps)
  then have "filter (\<lambda>(k, v). v \<noteq> Undef) ps = ps" by (intro filter_True) auto
  moreover have "map (\<lambda>(k, v). (k, json_norm v)) ps = ps"
    using 3 by (intro map_idI) (auto, fastforce)
  ultimately show ?case by simp
qed auto

lemma plain_wf: "plain v \<Longrightarrow> wf_js v"
  by (induction v rule: plain.induct) auto

theorem json_roundtrip: "wf_js v \<Longrightarrow> v \<noteq> Undef \<Longrightarrow> map_option json_parse (stringify v) = Some (Some (json_norm v))"
  by (simp add: stringify_def json_parse_print plain_norm)

section \<open>What the parser returns is well formed\<close>

lemma wf_get_prop: "wf_js v \<Longrightarrow> wf_js (get_prop v k)"
  by (cases v) (auto split: option.splits dest!: obj_get_in_set)

lemma foldl_obj_set_plain:
  "obj_wf acc \<Longrightarrow> (\<forall>(k, v) \<in> set acc. plain v) \<Longrightarrow> (\<forall>(k, v) \<in> set ps. plain v) \<Longrightarrow>
   plain (Obj (foldl (\<lambda>o' (k, v). obj_set k v o') acc ps))"
proof (induction ps arbitrary: acc)
  case (Cons p ps)
  obtain k v where p: "p = (k, v)" by fastforce
  have "\<forall>(k, w) \<in> set (obj_set k v acc). plain w"
    using Cons.prems(2,3) p by (induction k v acc rule: obj_set.induct) (auto split: if_splits)
  then show ?case using Cons.IH [of "obj_set k v acc"] Cons.prems p by (simp add: obj_wf_set)
qed simp

lemma plain_Obj_Nil: "plain (Obj [])"
  by simp

lemma parse_plain:
  "parse_val s = Some (v, r) \<Longrightarrow> plain v"
  "parse_elems s = Some (vs, r) \<Longrightarrow> \<forall>v \<in> set vs. plain v"
  "parse_fields s = Some (ps, r) \<Longrightarrow> \<forall>(k, v) \<in> set ps. plain v"
proof (induction s and s and s arbitrary: v r and vs r and ps r rule: parse_val_parse_elems_parse_fields.induct)
  case (1 s)
  from 1(3) show ?case
    by (subst (asm) parse_val.simps)
       (auto simp: plain_Obj_Nil simp del: plain.simps(3) intro!: foldl_obj_set_plain split: list.splits if_splits dest: 1(1,2))
next
  case (2 s)
  have v: "plain w" if "parse_val s = Some (w, r')" for w r' using 2(1) that by blast
  have es: "\<forall>a \<in> set ws. plain a"
    if "parse_val s = Some (w, r1)" "skip_ws r1 = CHR '','' # r2" "length r2 < length s"
      "parse_elems r2 = Some (ws, q)" for w r1 r2 ws q
    using 2(2) [OF that(1) refl that(2) _ _ that(4)] that(3) by simp
  obtain v0 r1 where pv: "parse_val s = Some (v0, r1)"
    using 2(3) by (auto simp: parse_elems.simps [of s] split: option.splits)
  have "vs = [v0] \<or> (\<exists>r2 ws. skip_ws r1 = CHR '','' # r2 \<and> length r2 < length s \<and>
      parse_elems r2 = Some (ws, r) \<and> vs = v0 # ws)"
    using 2(3) pv by (auto simp: parse_elems.simps [of s] split: list.splits if_splits)
  then show ?case
  proof (elim disjE exE conjE)
    assume "vs = [v0]"
    then show ?case using v [OF pv] by simp
  next
    fix r2 ws
    assume "skip_ws r1 = CHR '','' # r2" "length r2 < length s" "parse_elems r2 = Some (ws, r)" "vs = v0 # ws"
    then show ?case using v [OF pv] es [OF pv] by simp
  qed
next
  case (3 s)
  have v: "plain w"
    if "skip_ws s = CHR 0x22 # r0" "parse_str r0 = Some (k, r1)" "skip_ws r1 = CHR '':'' # r2"
      "length r2 < length s" "parse_val r2 = Some (w, r3)" for r0 k r1 r2 w r3
    by (rule 3(1) [OF that(1) _ that(2) refl that(3) _ that(5)]) (use that(4) in simp_all)
  have fs: "\<forall>(k, w) \<in> set qs. plain w"
    if "skip_ws s = CHR 0x22 # r0" "parse_str r0 = Some (k, r1)" "skip_ws r1 = CHR '':'' # r2"
      "length r2 < length s" "parse_val r2 = Some (w, r3)" "skip_ws r3 = CHR '','' # r4"
      "length r4 < length s" "parse_fields r4 = Some (qs, q)" for r0 k r1 r2 w r3 r4 qs q
    by (rule 3(2) [OF that(1) _ that(2) refl that(3) _ that(5) refl that(6) _ _ that(8)])
       (use that(4,7) in simp_all)
  obtain r0 k r1 r2 w r3 where
    h: "skip_ws s = CHR 0x22 # r0" "parse_str r0 = Some (k, r1)" "skip_ws r1 = CHR '':'' # r2"
      "length r2 < length s" "parse_val r2 = Some (w, r3)"
    using 3(3) by (auto simp: parse_fields.simps [of s] split: list.splits if_splits option.splits)
  have "ps = [(k, w)] \<or> (\<exists>r4 qs. skip_ws r3 = CHR '','' # r4 \<and> length r4 < length s \<and>
      parse_fields r4 = Some (qs, r) \<and> ps = (k, w) # qs)"
    using 3(3) h by (auto simp: parse_fields.simps [of s] split: list.splits if_splits)
  then show ?case
  proof (elim disjE exE conjE)
    assume "ps = [(k, w)]"
    then show ?case using v [OF h] by simp
  next
    fix r4 qs
    assume "skip_ws r3 = CHR '','' # r4" "length r4 < length s" "parse_fields r4 = Some (qs, r)" "ps = (k, w) # qs"
    then show ?case using v [OF h] fs [OF h] by simp
  qed
qed

lemma json_parse_plain: "json_parse s = Some v \<Longrightarrow> plain v"
  by (auto simp: json_parse_def split: option.splits if_splits dest: parse_plain)

end
