(* ===== verification/Uri.thy ===== *)
theory Uri
  imports Json
begin

text \<open>
  \<open>encodeURIComponent\<close> and \<open>decodeURIComponent\<close> on UTF-8 byte strings, and the path
  constants and predicates of \<^verbatim>\<open>packages/core/src/constants.ts\<close>.  A decoding that
  throws \<open>URIError\<close> is \<open>None\<close>.
\<close>

section \<open>Percent encoding\<close>

definition uri_unreserved :: "char \<Rightarrow> bool" where
  "uri_unreserved c =
     (let n = char_code c in
      (65 \<le> n \<and> n \<le> 90) \<or> (97 \<le> n \<and> n \<le> 122) \<or> (48 \<le> n \<and> n \<le> 57) \<or>
      c \<in> set [CHR ''-'', CHR ''_'', CHR ''.'', CHR ''!'', CHR ''~'', CHR ''*'', CHR 0x27, CHR ''('', CHR '')''])"

definition upper_hex :: "nat \<Rightarrow> char" where
  "upper_hex n = (if n < 10 then char_of (48 + n) else char_of (55 + n))"

definition encode_uri_char :: "char \<Rightarrow> string" where
  "encode_uri_char c =
     (if uri_unreserved c then [c]
      else [CHR ''%'', upper_hex (char_code c div 16), upper_hex (char_code c mod 16)])"

definition encode_uri :: "string \<Rightarrow> string" where
  "encode_uri s = concat (map encode_uri_char s)"

fun hex_byte :: "string \<Rightarrow> (nat \<times> string) option" where
  "hex_byte (a # b # r) =
     (case (hex_val a, hex_val b) of (Some i, Some j) \<Rightarrow> Some (16 * i + j, r) | _ \<Rightarrow> None)"
| "hex_byte _ = None"

text \<open>The continuation bytes of a multi-byte sequence, each written as \<open>%XX\<close>.\<close>

fun uri_cont :: "nat \<Rightarrow> string \<Rightarrow> (nat list \<times> string) option" where
  "uri_cont 0 s = Some ([], s)"
| "uri_cont (Suc n) [] = None"
| "uri_cont (Suc n) (c # s) =
     (if c \<noteq> CHR ''%'' then None
      else (case hex_byte s of
              None \<Rightarrow> None
            | Some (b, r) \<Rightarrow>
                if 128 \<le> b \<and> b \<le> 191
                then map_option (\<lambda>(bs, q). (b # bs, q)) (uri_cont n r)
                else None))"

text \<open>How many continuation bytes a lead byte takes, and the range of the first of them.\<close>

definition uri_lead :: "nat \<Rightarrow> (nat \<times> nat \<times> nat) option" where
  "uri_lead b =
     (if 194 \<le> b \<and> b \<le> 223 then Some (1, 128, 191)
      else if b = 224 then Some (2, 160, 191)
      else if b = 237 then Some (2, 128, 159)
      else if 225 \<le> b \<and> b \<le> 239 then Some (2, 128, 191)
      else if b = 240 then Some (3, 144, 191)
      else if 241 \<le> b \<and> b \<le> 243 then Some (3, 128, 191)
      else if b = 244 then Some (3, 128, 143)
      else None)"

lemma hex_byte_length: "hex_byte s = Some (b, r) \<Longrightarrow> length s = length r + 2"
  by (induction s rule: hex_byte.induct) (auto split: option.splits prod.splits)

lemma uri_cont_length: "uri_cont n s = Some (bs, r) \<Longrightarrow> length r \<le> length s"
  by (induction n s arbitrary: bs r rule: uri_cont.induct)
     (force split: if_splits option.splits dest!: hex_byte_length)+

function decode_uri :: "string \<Rightarrow> string option" where
  "decode_uri [] = Some []"
| "decode_uri (c # s) =
     (if c \<noteq> CHR ''%'' then map_option ((#) c) (decode_uri s)
      else (case hex_byte s of
              None \<Rightarrow> None
            | Some (b, r) \<Rightarrow>
                if b < 128 then map_option ((#) (char_of b)) (decode_uri r)
                else (case uri_lead b of
                        None \<Rightarrow> None
                      | Some (n, lo, hi) \<Rightarrow>
                          (case uri_cont n r of
                             None \<Rightarrow> None
                           | Some (bs, q) \<Rightarrow>
                               if lo \<le> hd bs \<and> hd bs \<le> hi
                               then map_option ((@) (map char_of (b # bs))) (decode_uri q)
                               else None))))"
  by pat_completeness auto
termination
  by (relation "measure length") (auto dest!: hex_byte_length uri_cont_length)

definition ascii :: "string \<Rightarrow> bool" where
  "ascii s = (\<forall>c \<in> set s. char_code c < 128)"

lemma hex_val_upper: "n < 16 \<Longrightarrow> hex_val (upper_hex n) = Some n"
  by (auto simp: hex_val_def upper_hex_def char_code_def Let_def)

lemma decode_encode_char:
  assumes "char_code c < 128"
  shows "decode_uri (encode_uri_char c @ s) = map_option ((#) c) (decode_uri s)"
proof (cases "uri_unreserved c")
  case True
  then have "c \<noteq> CHR ''%''" by (auto simp: uri_unreserved_def char_code_def)
  with True show ?thesis by (simp add: encode_uri_char_def)
next
  case False
  have "char_code c div 16 < 16" "char_code c mod 16 < 16" using assms by auto
  moreover have "char_of (char_code c) = c" by (simp add: char_code_def)
  ultimately show ?thesis using False assms by (simp add: encode_uri_char_def hex_val_upper)
qed

lemma decode_encode_uri: "ascii s \<Longrightarrow> decode_uri (encode_uri s) = Some s"
  by (induction s) (auto simp: encode_uri_def ascii_def decode_encode_char)

lemma encode_uri_no_slash: "CHR ''/'' \<notin> set (encode_uri s)"
proof -
  have h: "upper_hex n \<noteq> CHR ''/''" if "n < 16" for n
    using that hex_val_upper [of n] by (auto simp: hex_val_def char_code_def)
  have "char_code c < 256" for c by (simp add: char_code_def)
  then have "char_code c div 16 < 16" for c by (simp add: less_mult_imp_div_less)
  then have "CHR ''/'' \<notin> set (encode_uri_char c)" for c
    using h [of "char_code c div 16"] h [of "char_code c mod 16"]
    by (auto simp: encode_uri_char_def uri_unreserved_def char_code_def)
  then show ?thesis by (auto simp: encode_uri_def)
qed

lemma encode_uri_Nil [simp]: "encode_uri s = [] \<longleftrightarrow> s = []"
  by (cases s) (auto simp: encode_uri_def encode_uri_char_def)

section \<open>Framework paths\<close>

definition BLOCKS_NAMESPACE :: string where
  "BLOCKS_NAMESPACE = ''/aws-blocks''"

definition BLOCKS_RPC_PREFIX :: string where
  "BLOCKS_RPC_PREFIX = ''/aws-blocks/api''"

definition isRpcPath :: "string \<Rightarrow> bool" where
  "isRpcPath pathname =
     (pathname = BLOCKS_RPC_PREFIX \<or> starts_with pathname (BLOCKS_RPC_PREFIX @ ''/''))"

definition rpcNamespaceFromPath :: "string \<Rightarrow> string option" where
  "rpcNamespaceFromPath pathname =
     (if \<not> starts_with pathname (BLOCKS_RPC_PREFIX @ ''/'') then None
      else (let segment = hd (split_on (CHR ''/'') (drop (length BLOCKS_RPC_PREFIX + 1) pathname)) in
            if segment = [] then None
            else Some (case decode_uri segment of Some d \<Rightarrow> d | None \<Rightarrow> segment)))"

lemma rpcNamespaceFromPath_encode:
  assumes "ascii ns" "ns \<noteq> []"
  shows "rpcNamespaceFromPath (BLOCKS_RPC_PREFIX @ ''/'' @ encode_uri ns) = Some ns"
proof -
  have "split_on (CHR ''/'') (encode_uri ns) = [encode_uri ns]"
    by (rule split_on_no_sep) (rule encode_uri_no_slash)
  then show ?thesis
    using assms starts_with_append [of "BLOCKS_RPC_PREFIX @ ''/''" "encode_uri ns"]
    by (simp add: rpcNamespaceFromPath_def decode_encode_uri)
qed

end
