(* ===== verification/Errors.thy ===== *)
theory Errors
  imports Json
begin

text \<open>
  \<^verbatim>\<open>packages/core/src/errors.ts\<close>: what a \<open>throw\<close> can carry, the
  \<open>ApiError\<close> class, and the brand that marks an error as safe to send over the wire.

  \<open>JsError\<close> is an \<open>Error\<close> object: its name and message, whether it is an instance of
  this copy's \<open>ApiError\<close> class, whether it bears \<open>BLOCKS_ERROR_BRAND\<close>, its
  \<open>status\<close> and \<open>retriable\<close> properties (\<open>Undef\<close> when absent) and its cause.
  \<open>JsThrow\<close> is a thrown value that is no \<open>Error\<close>.
\<close>

datatype thrown =
    JsError (err_name: string) (err_message: string) (err_is_api: bool) (err_brand: bool)
      (err_status: jsval) (err_retriable: jsval) (err_cause: "thrown option")
  | JsThrow jsval

definition DEFAULT_API_ERROR_NAME :: string where
  "DEFAULT_API_ERROR_NAME = ''ApiError''"

definition new_Error :: "string \<Rightarrow> thrown" where
  "new_Error msg = JsError ''Error'' msg False False Undef Undef None"

definition brandBlocksError :: "thrown \<Rightarrow> thrown" where
  "brandBlocksError e =
     (case e of JsError n m a b s r c \<Rightarrow> JsError n m a True s r c | JsThrow v \<Rightarrow> JsThrow v)"

definition new_ApiError :: "string \<Rightarrow> jsval \<Rightarrow> string option \<Rightarrow> thrown option \<Rightarrow> bool option \<Rightarrow> thrown" where
  "new_ApiError msg status name_opt cause retriable_opt =
     brandBlocksError
       (JsError (opt_or name_opt DEFAULT_API_ERROR_NAME) msg True False status
          (Bool (opt_or retriable_opt False)) cause)"

definition isBlocksError :: "thrown \<Rightarrow> string \<Rightarrow> bool" where
  "isBlocksError e name = (case e of JsError n _ _ _ _ _ _ \<Rightarrow> n = name | JsThrow _ \<Rightarrow> False)"

definition isWireSafeError :: "thrown \<Rightarrow> bool" where
  "isWireSafeError e = (case e of JsError _ _ a b _ _ _ \<Rightarrow> a \<or> b | JsThrow _ \<Rightarrow> False)"

definition isApiErrorLike :: "thrown \<Rightarrow> bool" where
  "isApiErrorLike e =
     (case e of JsError _ _ a b s _ _ \<Rightarrow> a \<or> (b \<and> is_num s) | JsThrow _ \<Rightarrow> False)"

definition set_err_name :: "string \<Rightarrow> thrown \<Rightarrow> thrown" where
  "set_err_name name e =
     (case e of JsError n m a b s r c \<Rightarrow> JsError name m a b s r c | JsThrow v \<Rightarrow> JsThrow v)"

definition blocksError :: "string \<Rightarrow> string \<Rightarrow> thrown" where
  "blocksError name message =
     brandBlocksError (set_err_name name (new_Error (name @ '': '' @ message)))"

text \<open>\<open>state?.errorName === name\<close>: the state's error name, if there is a state and it has one.\<close>

definition hasAuthError :: "string option option \<Rightarrow> string \<Rightarrow> bool" where
  "hasAuthError state name = (case state of None \<Rightarrow> False | Some en \<Rightarrow> en = Some name)"

lemmas error_defs = new_Error_def brandBlocksError_def new_ApiError_def isBlocksError_def
  isWireSafeError_def isApiErrorLike_def set_err_name_def blocksError_def

lemma new_ApiError_safe [simp]:
  "isApiErrorLike (new_ApiError m s n c r)" "isWireSafeError (new_ApiError m s n c r)"
  by (simp_all add: error_defs)

lemma new_ApiError_sel [simp]:
  "err_name (new_ApiError m s n c r) = opt_or n DEFAULT_API_ERROR_NAME"
  "err_message (new_ApiError m s n c r) = m"
  "err_status (new_ApiError m s n c r) = s"
  "err_retriable (new_ApiError m s n c r) = Bool (opt_or r False)"
  by (simp_all add: error_defs)

lemma blocksError_sel [simp]:
  "err_name (blocksError n m) = n" "err_message (blocksError n m) = n @ '': '' @ m"
  "isWireSafeError (blocksError n m)" "\<not> isApiErrorLike (blocksError n m)"
  "isBlocksError (blocksError n m) n' \<longleftrightarrow> n = n'"
  by (simp_all add: error_defs is_num_def)

lemma isBlocksError_ApiError [simp]:
  "isBlocksError (new_ApiError m s n c r) n' \<longleftrightarrow> opt_or n DEFAULT_API_ERROR_NAME = n'"
  by (simp add: error_defs)

lemma apiErrorLike_wireSafe: "isApiErrorLike e \<Longrightarrow> isWireSafeError e"
  by (cases e) (auto simp: error_defs)

end
