(* ===== verification/Rpc.thy ===== *)
theory Rpc
  imports Uri Errors
begin

text \<open>
  \<^verbatim>\<open>packages/core/src/rpc.ts\<close>: the JSON-RPC 2.0 wire format.  Requests and responses
  are JSON texts; a failed parse gives the ready-to-send response text as the left of a result,
  a decoded error is a thrown \<open>ApiError\<close>.
\<close>

section \<open>Constants and types\<close>

definition DEFAULT_ERROR_NAME :: string where
  "DEFAULT_ERROR_NAME = ''Error''"

definition VERSION :: string where
  "VERSION = ''2.0''"

definition MAX_RPC_BODY_BYTES :: nat where
  "MAX_RPC_BODY_BYTES = 10 * 1024 * 1024"

datatype RpcErrorCode = ParseError | InvalidRequest | MethodNotFound | InvalidParams | InternalError

fun rpc_code :: "RpcErrorCode \<Rightarrow> int" where
  "rpc_code ParseError = -32700"
| "rpc_code InvalidRequest = -32600"
| "rpc_code MethodNotFound = -32601"
| "rpc_code InvalidParams = -32602"
| "rpc_code InternalError = -32603"

record RpcParsedRequest =
  rq_apiNamespace :: string
  rq_method :: string
  rq_args :: "jsval list"
  rq_id :: jsval

text \<open>The text of a value that is not \<open>undefined\<close>.\<close>

definition to_json :: "jsval \<Rightarrow> string" where
  "to_json v = (case stringify v of None \<Rightarrow> ''undefined'' | Some s \<Rightarrow> s)"

fun js_to_string :: "jsval \<Rightarrow> string" where
  "js_to_string Undef = ''undefined''"
| "js_to_string Null = ''null''"
| "js_to_string (Bool b) = (if b then ''true'' else ''false'')"
| "js_to_string (Num n) = show_int n"
| "js_to_string (Str s) = s"
| "js_to_string (Arr vs) =
     join '','' (map (\<lambda>v. if v = Undef \<or> v = Null then [] else js_to_string v) vs)"
| "js_to_string (Obj _) = ''[object Object]''"

text \<open>\<open>v > 0\<close> on a decoded value: numbers, booleans, and strings of decimal digits.\<close>

definition js_positive :: "jsval \<Rightarrow> bool" where
  "js_positive v =
     (case v of
        Num n \<Rightarrow> n > 0
      | Bool b \<Rightarrow> b
      | Str s \<Rightarrow> s \<noteq> [] \<and> list_all is_digit s \<and> read_nat s > 0
      | _ \<Rightarrow> False)"

section \<open>Client: encode a request, decode a response\<close>

text \<open>\<open>_nextId\<close> is the module's counter, passed in and returned.\<close>

definition encodeRpcRequest :: "int \<Rightarrow> string \<Rightarrow> string \<Rightarrow> jsval list \<Rightarrow> string \<times> int" where
  "encodeRpcRequest nextId apiNamespace method args =
     (to_json (Obj [(''jsonrpc'', Str VERSION),
                    (''method'', Str (apiNamespace @ ''.'' @ method)),
                    (''params'', Arr args),
                    (''id'', Num nextId)]),
      nextId + 1)"

definition decodeRpcResponse :: "jsval \<Rightarrow> int option \<Rightarrow> (thrown, jsval) res" where
  "decodeRpcResponse rpc httpStatus =
     (if \<not> is_object rpc \<or> get_prop rpc ''jsonrpc'' \<noteq> Str VERSION then
        (let status = (case httpStatus of Some h \<Rightarrow> if h < 200 \<or> h > 299 then h else 502 | None \<Rightarrow> 502);
             message = (case get_prop rpc ''message'' of
                          Str m \<Rightarrow> if m \<noteq> [] then m else ''HTTP '' @ show_int status
                        | _ \<Rightarrow> ''HTTP '' @ show_int status)
         in Inl (new_ApiError message (Num status) None None None))
      else if truthy (get_prop rpc ''error'') then
        (let err = get_prop rpc ''error'';
             code = get_prop err ''code'';
             message = get_prop err ''message'';
             data = get_prop err ''data'';
             status = (if js_positive code then code else Num 500);
             name_opt = (if truthy (get_prop data ''name'') then Some (js_to_string (get_prop data ''name'')) else None);
             retriable_opt = (if get_prop data ''retriable'' = Bool True then Some True else None)
         in Inl (new_ApiError (if message = Undef then [] else js_to_string message)
                   status name_opt None retriable_opt))
      else Inr (get_prop rpc ''result''))"

section \<open>Server: errors as response texts\<close>

definition errorResponse :: "jsval \<Rightarrow> string \<Rightarrow> jsval \<Rightarrow> (string \<times> jsval) list option \<Rightarrow> string" where
  "errorResponse code message id_val data =
     to_json (Obj [(''jsonrpc'', Str VERSION),
                   (''error'', Obj ([(''code'', code), (''message'', Str message)] @
                       (case data of None \<Rightarrow> [] | Some d \<Rightarrow> [(''data'', Obj d)]))),
                   (''id'', id_val)])"

text \<open>
  \<open>+(x / 2^20).toFixed(2)\<close>: two decimals, ties upwards, without trailing zeros.
\<close>

definition show_mib :: "nat \<Rightarrow> string" where
  "show_mib bytes =
     (let n = (bytes * 200 + 1048576) div 2097152; i = n div 100; f = n mod 100 in
      show_nat i @
      (if f = 0 then []
       else if f mod 10 = 0 then CHR ''.'' # [digit_char (f div 10)]
       else CHR ''.'' # [digit_char (f div 10), digit_char (f mod 10)]))"

definition payloadTooLargeResponse :: "nat \<Rightarrow> string" where
  "payloadTooLargeResponse limitBytes =
     errorResponse (Num 413)
       (''Request body exceeds the '' @ show_nat limitBytes @ '' byte ('' @ show_mib limitBytes @ '' MiB) limit'')
       Null (Some [(''name'', Str ''PayloadTooLarge'')])"

definition successResponse :: "jsval \<Rightarrow> jsval \<Rightarrow> string" where
  "successResponse result id_val =
     to_json (Obj [(''jsonrpc'', Str VERSION), (''result'', result), (''id'', id_val)])"

definition methodNotFoundResponse :: "string \<Rightarrow> jsval \<Rightarrow> string" where
  "methodNotFoundResponse detail id_val =
     errorResponse (Num (rpc_code MethodNotFound)) (''Method not found: '' @ detail) id_val None"

subsection \<open>Which part of a caught error may cross the wire\<close>

record SanitizedError =
  san_status :: jsval
  san_message :: string
  san_name :: "string option"
  san_retriable :: bool

definition sanitizeCaughtError :: "thrown \<Rightarrow> SanitizedError" where
  "sanitizeCaughtError e =
     (case e of
        JsThrow _ \<Rightarrow> \<lparr>san_status = Num 500, san_message = ''Internal error'', san_name = None, san_retriable = False\<rparr>
      | JsError nm msg _ _ st retr _ \<Rightarrow>
          if isApiErrorLike e then
            \<lparr>san_status = st, san_message = msg,
             san_name = (if nm \<noteq> [] \<and> nm \<noteq> DEFAULT_API_ERROR_NAME then Some nm else None),
             san_retriable = truthy retr\<rparr>
          else if isWireSafeError e \<and> nm \<noteq> [] \<and> nm \<noteq> DEFAULT_ERROR_NAME then
            \<lparr>san_status = Num 500, san_message = msg, san_name = Some nm, san_retriable = False\<rparr>
          else
            \<lparr>san_status = Num 500, san_message = ''Internal error'', san_name = None, san_retriable = False\<rparr>)"

definition errorResponseFromCatch :: "thrown \<Rightarrow> jsval \<Rightarrow> string" where
  "errorResponseFromCatch e id_val =
     (let safe = sanitizeCaughtError e;
          data = (case san_name safe of Some n \<Rightarrow> [(''name'', Str n)] | None \<Rightarrow> []) @
                 (if san_retriable safe then [(''retriable'', Bool True)] else [])
      in errorResponse (san_status safe) (san_message safe) id_val (if data \<noteq> [] then Some data else None))"

definition rawRouteErrorFromCatch :: "thrown \<Rightarrow> jsval \<times> string" where
  "rawRouteErrorFromCatch e =
     (let safe = sanitizeCaughtError e in
      (san_status safe,
       to_json (Obj ([(''error'', Str (san_message safe))] @
                     (case san_name safe of Some n \<Rightarrow> [(''name'', Str n)] | None \<Rightarrow> [])))))"

section \<open>Server: parse a request\<close>

definition MAX_ECHOED_NAME_LENGTH :: nat where
  "MAX_ECHOED_NAME_LENGTH = 64"

text \<open>The UTF-8 bytes of the ellipsis and of the em dash.\<close>

definition ellipsis :: string where
  "ellipsis = [CHR 0xE2, CHR 0x80, CHR 0xA6]"

definition em_dash :: string where
  "em_dash = [CHR 0xE2, CHR 0x80, CHR 0x94]"

definition clipName :: "string \<Rightarrow> string" where
  "clipName name =
     (if length name > MAX_ECHOED_NAME_LENGTH then take MAX_ECHOED_NAME_LENGTH name @ ellipsis else name)"

definition rpcPathProblem :: "string \<Rightarrow> string \<Rightarrow> string option" where
  "rpcPathProblem pathname bodyNamespace =
     (if \<not> starts_with pathname (BLOCKS_RPC_PREFIX @ ''/'') then None
      else (let rest = strip_trailing_slash (drop (length BLOCKS_RPC_PREFIX + 1) pathname) in
        if CHR ''/'' \<in> set rest then
          Some (''an RPC call goes to '' @ BLOCKS_RPC_PREFIX @ '' or '' @ BLOCKS_RPC_PREFIX @
                ''/<namespace>, not a deeper path'')
        else (case rpcNamespaceFromPath pathname of
            None \<Rightarrow> None
          | Some pathNamespace \<Rightarrow>
              if pathNamespace \<noteq> bodyNamespace then
                Some (''the path addresses namespace '' @ [CHR 0x22] @ clipName pathNamespace @ [CHR 0x22] @
                      '' but the method is in namespace '' @ [CHR 0x22] @ clipName bodyNamespace @ [CHR 0x22])
              else None)))"

definition invalid_request :: "string \<Rightarrow> jsval \<Rightarrow> string" where
  "invalid_request message id_val =
     errorResponse (Num (rpc_code InvalidRequest)) (''Invalid Request: '' @ message) id_val
       (Some [(''name'', Str ''InvalidRequest'')])"

definition expected_jsonrpc :: string where
  "expected_jsonrpc = ''expected JSON-RPC 2.0 '' @ em_dash @
     '' {\"jsonrpc\":\"2.0\",\"method\":\"namespace.method\",\"params\":[...],\"id\":1}''"

definition parseRpcRequest :: "string \<Rightarrow> string option \<Rightarrow> (string, RpcParsedRequest) res" where
  "parseRpcRequest bodyText pathname =
     (if length bodyText > MAX_RPC_BODY_BYTES then Inl (payloadTooLargeResponse MAX_RPC_BODY_BYTES)
      else case json_parse (if bodyText = [] then ''{}'' else bodyText) of
        None \<Rightarrow> Inl (errorResponse (Num (rpc_code ParseError)) ''Parse error'' Null None)
      | Some Null \<Rightarrow> Inl (invalid_request ''body must be a JSON-RPC 2.0 object'' Null)
      | Some parsed \<Rightarrow>
          (let id_val = nullish_or (get_prop parsed ''id'') Null in
           case get_prop parsed ''method'' of
             Str m \<Rightarrow>
               if get_prop parsed ''jsonrpc'' \<noteq> Str VERSION then Inl (invalid_request expected_jsonrpc id_val)
               else (case index_of (CHR ''.'') m of
                   None \<Rightarrow> Inl (invalid_request (''method must be '' @ [CHR 0x22] @ ''namespace.method'' @ [CHR 0x22]) id_val)
                 | Some dotIndex \<Rightarrow>
                     (let apiNamespace = take dotIndex m in
                      case (case pathname of None \<Rightarrow> None | Some p \<Rightarrow> rpcPathProblem p apiNamespace) of
                        Some problem \<Rightarrow> Inl (invalid_request problem id_val)
                      | None \<Rightarrow>
                          (let request = (\<lambda>args. Inr \<lparr>rq_apiNamespace = apiNamespace,
                                 rq_method = drop (dotIndex + 1) m, rq_args = args, rq_id = id_val\<rparr>)
                           in case (case parsed of Obj ps \<Rightarrow> obj_get ps ''params'' | _ \<Rightarrow> None) of
                                None \<Rightarrow> request []
                              | Some (Arr vs) \<Rightarrow> request vs
                              | Some (Obj qs) \<Rightarrow> request (map snd qs)
                              | Some _ \<Rightarrow>
                                  Inl (errorResponse (Num (rpc_code InvalidParams))
                                         ''Invalid params: expected an array or object'' id_val
                                         (Some [(''name'', Str ''InvalidParams'')])))))
           | _ \<Rightarrow> Inl (invalid_request expected_jsonrpc id_val)))"

section \<open>Wire round trips\<close>

lemma to_json_parse:
  assumes "wf_js v" "v \<noteq> Undef"
  shows "json_parse (to_json v) = Some (json_norm v)"
  using json_roundtrip [OF assms] by (auto simp: to_json_def split: option.splits)

lemma to_json_nonempty: "v \<noteq> Undef \<Longrightarrow> to_json v \<noteq> []"
  using print_json_start [of "json_norm v"] by (auto simp: to_json_def stringify_def)

lemma json_parse_success:
  assumes "wf_js r" "wf_js i"
  shows "json_parse (successResponse r i) = Some (json_norm (Obj [(''jsonrpc'', Str VERSION), (''result'', r), (''id'', i)]))"
  using assms unfolding successResponse_def by (intro to_json_parse) auto

lemma json_parse_error:
  assumes "wf_js c" "wf_js i" "case d of None \<Rightarrow> True | Some ps \<Rightarrow> wf_js (Obj ps)"
  shows "json_parse (errorResponse c m i d) =
    Some (json_norm (Obj [(''jsonrpc'', Str VERSION),
                   (''error'', Obj ([(''code'', c), (''message'', Str m)] @
                       (case d of None \<Rightarrow> [] | Some d \<Rightarrow> [(''data'', Obj d)]))),
                   (''id'', i)]))"
  using assms unfolding errorResponse_def by (intro to_json_parse) (auto split: option.splits)

text \<open>Decoding an error envelope, whatever its data.\<close>

lemma decode_errorResponse:
  assumes "wf_js i" "case d of None \<Rightarrow> True | Some ps \<Rightarrow> wf_js (Obj ps)"
  shows "map_option (\<lambda>b. decodeRpcResponse b h) (json_parse (errorResponse (Num c) m i d)) =
    Some (Inl (new_ApiError m (if c > 0 then Num c else Num 500)
       (case d of None \<Rightarrow> None | Some ps \<Rightarrow>
          (let n = get_prop (json_norm (Obj ps)) ''name'' in if truthy n then Some (js_to_string n) else None))
       None
       (case d of None \<Rightarrow> None | Some ps \<Rightarrow>
          (if get_prop (json_norm (Obj ps)) ''retriable'' = Bool True then Some True else None))))"
  using assms
  by (subst json_parse_error)
     (auto simp: decodeRpcResponse_def VERSION_def is_object_def js_positive_def Let_def split: option.splits)

lemma decode_successResponse:
  assumes "wf_js r" "wf_js i"
  shows "map_option (\<lambda>b. decodeRpcResponse b h) (json_parse (successResponse r i)) =
     Some (Inr (if r = Undef then Undef else json_norm r))"
  using assms
  by (subst json_parse_success) (auto simp: decodeRpcResponse_def VERSION_def is_object_def)

text \<open>What a handler returns is what the client decodes: the response text of any
  well-formed result, read back with \<open>JSON.parse\<close> and \<open>decodeRpcResponse\<close>, gives the result
  itself (its JSON view; \<open>undefined\<close> stays \<open>undefined\<close>), whatever the HTTP status.\<close>

theorem response_roundtrip:
  assumes "wf_js r" "wf_js i"
  shows "map_option (\<lambda>b. decodeRpcResponse b h) (json_parse (successResponse r i)) =
     Some (Inr (if r = Undef then Undef else json_norm r))"
  using assms by (rule decode_successResponse)

lemma response_roundtrip_witness:
  "map_option (\<lambda>b. decodeRpcResponse b None)
     (json_parse (successResponse (Obj [(''n'', Num 3), (''u'', Undef)]) (Num 1))) =
   Some (Inr (Obj [(''n'', Num 3)]))"
  using response_roundtrip [of "Obj [(''n'', Num 3), (''u'', Undef)]" "Num 1" None] by simp

lemma decode_caught_api_error:
  assumes "isApiErrorLike (JsError nm msg a b (Num c) retr cause)" "c > 0" "nm \<noteq> []" "wf_js i"
  shows "map_option (\<lambda>b. decodeRpcResponse b h)
           (json_parse (errorResponseFromCatch (JsError nm msg a b (Num c) retr cause) i)) =
     Some (Inl (new_ApiError msg (Num c) (Some nm) None (Some (truthy retr))))"
  using assms
  by (auto simp: errorResponseFromCatch_def decode_errorResponse sanitizeCaughtError_def Let_def
      new_ApiError_def brandBlocksError_def)

text \<open>An \<open>ApiError\<close> (of this or of another bundled copy of core) thrown by a handler arrives
  at the client with its status, its name, its message and its retriable flag.\<close>

theorem error_roundtrip:
  assumes "isApiErrorLike (JsError nm msg a b (Num c) retr cause)" "c > 0" "nm \<noteq> []" "wf_js i"
  shows "map_option (\<lambda>b. decodeRpcResponse b h)
           (json_parse (errorResponseFromCatch (JsError nm msg a b (Num c) retr cause) i)) =
     Some (Inl (new_ApiError msg (Num c) (Some nm) None (Some (truthy retr))))"
  using assms by (rule decode_caught_api_error)

lemma error_roundtrip_witness:
  "map_option (\<lambda>b. decodeRpcResponse b None)
     (json_parse (errorResponseFromCatch (new_ApiError ''taken'' (Num 409) (Some ''Conflict'') None (Some True)) (Num 1))) =
   Some (Inl (new_ApiError ''taken'' (Num 409) (Some ''Conflict'') None (Some True)))"
  using error_roundtrip [of "''Conflict''" "''taken''" True True 409 "Bool True" None "Num 1" None]
  by (simp add: new_ApiError_def brandBlocksError_def isApiErrorLike_def)

lemma unsafe_error_response:
  assumes "\<not> isWireSafeError e"
  shows "errorResponseFromCatch e i = errorResponse (Num 500) ''Internal error'' i None \<and>
    rawRouteErrorFromCatch e = (Num 500, to_json (Obj [(''error'', Str ''Internal error'')]))"
  using assms apiErrorLike_wireSafe [of e]
  by (auto simp: errorResponseFromCatch_def rawRouteErrorFromCatch_def sanitizeCaughtError_def Let_def
      split: thrown.splits)

text \<open>C3: An error that bears no brand (a driver exception, a bare \<open>Error\<close>, a thrown non-error)
  leaves the server as the same nameless 500 whatever its name, message, status or cause, over
  JSON-RPC and over a raw route.\<close>

theorem no_leak:
  assumes "\<not> isWireSafeError e"
  shows "errorResponseFromCatch e i = errorResponse (Num 500) ''Internal error'' i None \<and>
    rawRouteErrorFromCatch e = (Num 500, to_json (Obj [(''error'', Str ''Internal error'')]))"
  using assms by (rule unsafe_error_response)

lemma no_leak_witness:
  "errorResponseFromCatch (set_err_name ''PostgresError'' (new_Error ''relation users'')) (Num 1) =
     errorResponse (Num 500) ''Internal error'' (Num 1) None"
  using no_leak [of "set_err_name ''PostgresError'' (new_Error ''relation users'')" "Num 1"]
  by (simp add: error_defs)

theorem branded_error_roundtrip:
  assumes "name \<noteq> []" "name \<noteq> ''Error''" "wf_js i"
  shows "map_option (\<lambda>b. decodeRpcResponse b h) (json_parse (errorResponseFromCatch (blocksError name msg) i)) =
     Some (Inl (new_ApiError (name @ '': '' @ msg) (Num 500) (Some name) None None))"
  using assms
  by (auto simp: errorResponseFromCatch_def decode_errorResponse sanitizeCaughtError_def Let_def
      error_defs is_num_def DEFAULT_ERROR_NAME_def)

section \<open>Parsing a request\<close>

definition rpc_path :: "string \<Rightarrow> string option \<Rightarrow> bool" where
  "rpc_path ns p = (case p of None \<Rightarrow> True
     | Some q \<Rightarrow> q = BLOCKS_RPC_PREFIX \<or> (ns \<noteq> [] \<and> ascii ns \<and> q = BLOCKS_RPC_PREFIX @ ''/'' @ encode_uri ns))"

lemma rpc_path_no_problem: "rpc_path ns (Some q) \<Longrightarrow> rpcPathProblem q ns = None"
proof -
  have 1: "drop (length BLOCKS_RPC_PREFIX + 1) (BLOCKS_RPC_PREFIX @ ''/'' @ s) = s" for s by simp
  have 2: "starts_with (BLOCKS_RPC_PREFIX @ ''/'' @ s) (BLOCKS_RPC_PREFIX @ ''/'')" for s
    using starts_with_append [of "BLOCKS_RPC_PREFIX @ ''/''" s] by simp
  have 3: "CHR ''/'' \<notin> set (strip_trailing_slash (encode_uri ns))"
    using encode_uri_no_slash [of ns] by (auto simp: strip_trailing_slash_def dest: in_set_butlastD)
  have 4: "\<not> starts_with BLOCKS_RPC_PREFIX (BLOCKS_RPC_PREFIX @ ''/'')"
    by (simp add: starts_with_def)
  assume "rpc_path ns (Some q)"
  then show ?thesis
    using 2 3 4 rpcNamespaceFromPath_encode [of ns] by (auto simp: rpc_path_def rpcPathProblem_def 1 Let_def)
qed

lemma parse_encodeRpcRequest:
  assumes "CHR ''.'' \<notin> set ns" "\<forall>v \<in> set args. wf_js v" "rpc_path ns p"
    and "length (fst (encodeRpcRequest n ns m args)) \<le> MAX_RPC_BODY_BYTES"
  shows "parseRpcRequest (fst (encodeRpcRequest n ns m args)) p =
     Inr \<lparr>rq_apiNamespace = ns, rq_method = m, rq_args = map json_norm args, rq_id = Num n\<rparr>"
proof -
  let ?v = "Obj [(''jsonrpc'', Str VERSION), (''method'', Str (ns @ ''.'' @ m)), (''params'', Arr args), (''id'', Num n)]"
  have j: "json_parse (to_json ?v) = Some (json_norm ?v)"
    using assms(2) by (intro to_json_parse) auto
  have ne: "to_json ?v \<noteq> []" by (simp add: to_json_nonempty)
  have i: "index_of (CHR ''.'') (ns @ ''.'' @ m) = Some (length ns)"
    using assms(1) by simp
  have p: "(case p of None \<Rightarrow> None | Some q \<Rightarrow> rpcPathProblem q ns) = None"
    using assms(3) rpc_path_no_problem by (auto split: option.splits)
  show ?thesis
    using assms(4) j ne i p
    by (simp add: parseRpcRequest_def encodeRpcRequest_def nullish_or_def VERSION_def)
qed

text \<open>The server reads back exactly the call the typed client encoded, on the bare endpoint and
  on the per-namespace path the client posts to.\<close>

theorem request_roundtrip:
  assumes "CHR ''.'' \<notin> set ns" "\<forall>v \<in> set args. wf_js v" "rpc_path ns p"
    and "length (fst (encodeRpcRequest n ns m args)) \<le> MAX_RPC_BODY_BYTES"
  shows "parseRpcRequest (fst (encodeRpcRequest n ns m args)) p =
     Inr \<lparr>rq_apiNamespace = ns, rq_method = m, rq_args = map json_norm args, rq_id = Num n\<rparr>"
  using assms by (rule parse_encodeRpcRequest)

lemma request_roundtrip_witness:
  "parseRpcRequest (fst (encodeRpcRequest 4 ''users'' ''get'' [Num 7])) (Some (BLOCKS_RPC_PREFIX @ ''/'' @ encode_uri ''users'')) =
     Inr \<lparr>rq_apiNamespace = ''users'', rq_method = ''get'', rq_args = [Num 7], rq_id = Num 4\<rparr>"
proof -
  have 1: "CHR ''.'' \<notin> set ''users''" by simp
  have 2: "\<forall>v \<in> set [Num 7]. wf_js v" by simp
  have 3: "rpc_path ''users'' (Some (BLOCKS_RPC_PREFIX @ ''/'' @ encode_uri ''users''))"
    by (simp add: rpc_path_def ascii_def char_code_def)
  have 4: "length (fst (encodeRpcRequest 4 ''users'' ''get'' [Num 7])) \<le> MAX_RPC_BODY_BYTES"
    by (simp add: encodeRpcRequest_def to_json_def stringify_def VERSION_def print_str_def esc_char_def
        char_code_def show_int_def show_nat.simps MAX_RPC_BODY_BYTES_def)
  show ?thesis using request_roundtrip [OF 1 2 3 4] by simp
qed

text \<open>A request accepted on a per-namespace path runs on the namespace the path names: the path
  has no deeper segment, and the namespace decoded from it, when there is one, is the body's.\<close>

theorem parse_respects_path:
  assumes "parseRpcRequest body (Some q) = Inr rq" "starts_with q (BLOCKS_RPC_PREFIX @ ''/'')"
  shows "CHR ''/'' \<notin> set (strip_trailing_slash (drop (length BLOCKS_RPC_PREFIX + 1) q)) \<and>
    rpcNamespaceFromPath q \<in> {None, Some (rq_apiNamespace rq)}"
proof -
  have "rpcPathProblem q (rq_apiNamespace rq) = None"
    using assms(1) unfolding parseRpcRequest_def
    by (auto simp: Let_def split: if_splits option.splits jsval.splits)
  then show ?thesis
    using assms(2) by (auto simp: rpcPathProblem_def Let_def split: if_splits option.splits)
qed

lemma parse_respects_path_witness:
  "rpcNamespaceFromPath (BLOCKS_RPC_PREFIX @ ''/'' @ encode_uri ''users'') \<in> {None, Some ''users''}"
proof -
  have 1: "CHR ''.'' \<notin> set ''users''" by simp
  have 2: "\<forall>v \<in> set [Num 7]. wf_js v" by simp
  have 3: "rpc_path ''users'' (Some (BLOCKS_RPC_PREFIX @ ''/'' @ encode_uri ''users''))"
    by (simp add: rpc_path_def ascii_def char_code_def)
  have 4: "length (fst (encodeRpcRequest 4 ''users'' ''get'' [Num 7])) \<le> MAX_RPC_BODY_BYTES"
    by (simp add: encodeRpcRequest_def to_json_def stringify_def VERSION_def print_str_def esc_char_def
        char_code_def show_int_def show_nat.simps MAX_RPC_BODY_BYTES_def)
  have "starts_with (BLOCKS_RPC_PREFIX @ ''/'' @ encode_uri ''users'') (BLOCKS_RPC_PREFIX @ ''/'')"
    using starts_with_append [of "BLOCKS_RPC_PREFIX @ ''/''"] by simp
  from parse_respects_path [OF parse_encodeRpcRequest [OF 1 2 3 4] this] show ?thesis by simp
qed

text \<open>A rejection: an error envelope with one of the parser's codes.\<close>

definition rpc_rejection :: "string \<Rightarrow> bool" where
  "rpc_rejection s = (\<exists>c m i d. s = errorResponse (Num c) m i d \<and> c \<in> {413, -32700, -32600, -32602} \<and> wf_js i \<and>
     (case d of None \<Rightarrow> True | Some ps \<Rightarrow> wf_js (Obj ps)))"

lemma parse_rejection: "parseRpcRequest body p = Inl s \<Longrightarrow> rpc_rejection s"
proof -
  have wf: "wf_js (nullish_or (get_prop v ''id'') Null)" if "json_parse t = Some v" for t v
    using wf_get_prop [OF plain_wf [OF json_parse_plain [OF that]]] by (auto simp: nullish_or_def)
  have inv: "wf_js i \<Longrightarrow> rpc_rejection (invalid_request m i)" for m i
    unfolding rpc_rejection_def invalid_request_def by (intro exI conjI) (rule refl, auto)
  have par: "wf_js i \<Longrightarrow> rpc_rejection (errorResponse (Num (rpc_code InvalidParams)) m i (Some [(''name'', Str t)]))" for m i t
    unfolding rpc_rejection_def by (intro exI conjI) (rule refl, auto)
  have err: "rpc_rejection (errorResponse (Num (rpc_code ParseError)) m Null None)" for m
    unfolding rpc_rejection_def by (intro exI conjI) (rule refl, auto)
  have big: "rpc_rejection (payloadTooLargeResponse n)" for n
    unfolding rpc_rejection_def payloadTooLargeResponse_def by (intro exI conjI) (rule refl, auto)
  assume "parseRpcRequest body p = Inl s"
  then show ?thesis unfolding parseRpcRequest_def Let_def
    by (auto simp: err big simp del: rpc_code.simps split: if_splits option.splits jsval.splits
        intro!: inv par dest: wf)
qed

text \<open>Every request the parser refuses is answered with an envelope the client decodes to an
  \<open>ApiError\<close> with status 413 or 500.\<close>

theorem rejection_decodes:
  assumes "parseRpcRequest body p = Inl s"
  shows "\<exists>m c n r. map_option (\<lambda>b. decodeRpcResponse b h) (json_parse s) =
    Some (Inl (new_ApiError m (Num c) n None r)) \<and> c \<in> {413, 500}"
proof -
  obtain c m i d where s: "s = errorResponse (Num c) m i d" and c: "c \<in> {413, -32700, -32600, -32602}"
      and wf: "wf_js i" "case d of None \<Rightarrow> True | Some ps \<Rightarrow> wf_js (Obj ps)"
    using parse_rejection [OF assms] unfolding rpc_rejection_def by blast
  have "(if c > 0 then Num c else Num 500) = Num (if c > 0 then c else 500)" by simp
  moreover have "(if c > 0 then c else 500) \<in> {413, 500}" using c by auto
  ultimately show ?thesis
    unfolding s decode_errorResponse [OF wf, of h c m] by (intro exI conjI) (rule arg_cong [of _ _ Some], simp, assumption)
qed

lemma rejection_decodes_witness:
  "parseRpcRequest ''{'' None = Inl (errorResponse (Num (rpc_code ParseError)) ''Parse error'' Null None) \<and>
   (\<exists>m c n r. map_option (\<lambda>b. decodeRpcResponse b None)
      (json_parse (errorResponse (Num (rpc_code ParseError)) ''Parse error'' Null None)) =
    Some (Inl (new_ApiError m (Num c) n None r)) \<and> c \<in> {413, 500})"
proof -
  have h: "parseRpcRequest ''{'' None = Inl (errorResponse (Num (rpc_code ParseError)) ''Parse error'' Null None)"
    by (simp add: parseRpcRequest_def MAX_RPC_BODY_BYTES_def json_parse_def parse_val.simps)
  show ?thesis using h rejection_decodes [OF h, of None] by blast
qed

theorem oversized_rejected:
  assumes "length body > MAX_RPC_BODY_BYTES"
  shows "\<exists>s m. parseRpcRequest body p = Inl s \<and>
     map_option (\<lambda>b. decodeRpcResponse b h) (json_parse s) =
       Some (Inl (new_ApiError m (Num 413) (Some ''PayloadTooLarge'') None None))"
  using assms
  by (auto simp: parseRpcRequest_def payloadTooLargeResponse_def decode_errorResponse Let_def
      simp del: map_option_eq_Some intro!: exI)

end
