(* ===== verification/Cors.thy ===== *)
theory Cors
  imports Regex Uri Rpc
begin

text \<open>
  \<^verbatim>\<open>packages/core/src/cors.ts\<close>: the allowlist of origins, its two channels (user
  patterns and framework literals), the lazily filled cache, and the CORS headers of a response.

  \<open>new RegExp\<close> is a parameter: a compiler from a source and its \<open>i\<close> flag (\<open>None\<close> is a
  \<open>SyntaxError\<close>) and a test.  The locale \<open>regexp_engine\<close> states what the code relies on,
  the ECMAScript meaning of the escapes and plain characters of a framework pattern; user patterns
  are whatever the engine makes of them.  It is interpreted on the fragment of theory Regex.
\<close>

section \<open>The regular-expression engine\<close>

record 'r regexp_api =
  new_RegExp :: "string \<Rightarrow> bool \<Rightarrow> 'r option"
  regexp_test :: "'r \<Rightarrow> string \<Rightarrow> bool"

fun lower_tok :: "re_tok \<Rightarrow> re_tok" where
  "lower_tok (TLit c) = TLit (lower_char c)"
| "lower_tok t = t"

definition escape_char :: "char \<Rightarrow> string" where
  "escape_char c = (if re_special c then [CHR 0x5C, c] else [c])"

definition escapeOriginToPattern :: "string \<Rightarrow> string" where
  "escapeOriginToPattern origin = ''^'' @ concat (map escape_char origin) @ ''$''"

lemma re_body_escape: "re_body (concat (map escape_char s) @ ''$'') = Some (map TLit s)"
proof (induction s)
  case Nil
  show ?case by (simp add: re_body.simps)
next
  case (Cons c s)
  have "re_body (escape_char c @ t) = map_option ((#) (TLit c)) (re_body t)" if "t \<noteq> []" for t
  proof (cases "re_special c")
    case True
    then show ?thesis by (simp add: escape_char_def re_body.simps [of "CHR 0x5C # c # t"])
  next
    case False
    then have "c \<noteq> CHR ''$''" "c \<noteq> CHR ''(''" "c \<noteq> CHR 0x5C" "c \<noteq> CHR ''.''"
      by (auto simp: re_special_def)
    then show ?thesis using False that by (simp add: escape_char_def re_body.simps [of "c # t"])
  qed
  from this [of "concat (map escape_char s) @ ''$''"] Cons show ?case by simp
qed

lemma re_parse_escape: "re_parse (escapeOriginToPattern s) = Some (map TLit s)"
  using re_body_escape by (simp add: re_parse_def escapeOriginToPattern_def)

lemma ascii_escape: "ascii (escapeOriginToPattern s) \<longleftrightarrow> ascii s"
proof -
  have "(\<forall>d \<in> set (escape_char c). char_code d < 128) \<longleftrightarrow> char_code c < 128" for c
    by (auto simp: escape_char_def char_code_def)
  then show ?thesis by (auto simp: ascii_def escapeOriginToPattern_def char_code_def)
qed

locale regexp_engine =
  fixes new_re :: "string \<Rightarrow> bool \<Rightarrow> 'r option" and test_re :: "'r \<Rightarrow> string \<Rightarrow> bool"
  assumes exact: "re_parse p = Some ts \<Longrightarrow>
      \<exists>r. new_re p False = Some r \<and> (\<forall>s. test_re r s = (re_exec ts s \<noteq> None))"
    and ignore_case: "re_parse p = Some ts \<Longrightarrow> ascii p \<Longrightarrow>
      \<exists>r. new_re p True = Some r \<and>
        (\<forall>s. ascii s \<longrightarrow> test_re r s = (re_exec (map lower_tok ts) (to_lower s) \<noteq> None))"
begin

lemma literal_exact: "\<exists>r. new_re (escapeOriginToPattern o') False = Some r \<and> (\<forall>s. test_re r s = (s = o'))"
  using exact [OF re_parse_escape, of o'] by (auto simp: re_exec_lits)

lemma literal_ignore_case:
  "ascii o' \<Longrightarrow> \<exists>r. new_re (escapeOriginToPattern o') True = Some r \<and>
     (\<forall>s. ascii s \<longrightarrow> test_re r s = (to_lower s = to_lower o'))"
proof -
  assume a: "ascii o'"
  have "map lower_tok (map TLit o') = map TLit (to_lower o')" by (simp add: to_lower_def)
  then show ?thesis
    using ignore_case [OF re_parse_escape, of o'] a by (auto simp: ascii_escape re_exec_lits)
qed

end

text \<open>The engine of theory Regex, with case folding: it knows the patterns of the framework.\<close>

definition fragment_new :: "string \<Rightarrow> bool \<Rightarrow> (bool \<times> re_tok list) option" where
  "fragment_new p i = map_option (Pair i) (re_parse p)"

definition fragment_test :: "bool \<times> re_tok list \<Rightarrow> string \<Rightarrow> bool" where
  "fragment_test r s =
     (if fst r then re_exec (map lower_tok (snd r)) (to_lower s) \<noteq> None else re_exec (snd r) s \<noteq> None)"

definition fragment_api :: "(bool \<times> re_tok list) regexp_api" where
  "fragment_api = \<lparr>new_RegExp = fragment_new, regexp_test = fragment_test\<rparr>"

interpretation fragment: regexp_engine fragment_new fragment_test
  by unfold_locales (auto simp: fragment_new_def fragment_test_def)

section \<open>The allowlist\<close>

definition CORS_MAX_AGE :: string where
  "CORS_MAX_AGE = ''7200''"

definition splitOrigins :: "string \<Rightarrow> string list" where
  "splitOrigins raw = filter (\<lambda>p. p \<noteq> []) (map trim (split_on (CHR '','') raw))"

text \<open>\<open>new RegExp(source, flags)\<close>: the error a bad pattern throws.\<close>

definition compile_re :: "'r regexp_api \<Rightarrow> string \<Rightarrow> bool \<Rightarrow> (thrown, 'r) res" where
  "compile_re api source i =
     (case new_RegExp api source i of
        Some r \<Rightarrow> Inr r
      | None \<Rightarrow> Inl (set_err_name ''SyntaxError'' (new_Error ''Invalid regular expression'')))"

definition parseCorsPatterns :: "'r regexp_api \<Rightarrow> string \<Rightarrow> (thrown, 'r list) res" where
  "parseCorsPatterns api raw =
     mapR (\<lambda>pattern.
        case compile_re api (''^(?:'' @ pattern @ '')$'') False of
          Inr r \<Rightarrow> Inr r
        | Inl _ \<Rightarrow> compile_re api (escapeOriginToPattern pattern) False) (splitOrigins raw)"

record cors_env =
  CORS_ALLOWED_ORIGINS :: "string option"
  CORS_HOSTING_ORIGINS :: "string option"

text \<open>
  The module's state: \<open>_corsPatterns\<close> (\<open>None\<close> is \<open>undefined\<close>, \<open>Some None\<close> is
  \<open>null\<close>), \<open>warnedOrigins\<close> in insertion order, and the origins warned about on the console.
\<close>

record 'r cors_state =
  corsPatterns :: "'r list option option"
  warnedOrigins :: "string list"
  console_warned :: "string list"

definition cors_init :: "'r cors_state" where
  "cors_init = \<lparr>corsPatterns = None, warnedOrigins = [], console_warned = []\<rparr>"

definition WARNED_ORIGINS_LIMIT :: nat where
  "WARNED_ORIGINS_LIMIT = 100"

definition getCorsPatterns ::
  "'r regexp_api \<Rightarrow> cors_env \<Rightarrow> 'r cors_state \<Rightarrow> (thrown, 'r list option \<times> 'r cors_state) res" where
  "getCorsPatterns api env st =
     (case corsPatterns st of
        Some cached \<Rightarrow> Inr (cached, st)
      | None \<Rightarrow>
          (let envOrigins = opt_or (CORS_ALLOWED_ORIGINS env) [];
               hostingOrigins = opt_or (CORS_HOSTING_ORIGINS env) [] in
           bindR (if envOrigins \<noteq> [] then parseCorsPatterns api envOrigins else Inr []) (\<lambda>regexPatterns.
           bindR (mapR (\<lambda>origin. compile_re api (escapeOriginToPattern origin) True)
                    (splitOrigins hostingOrigins)) (\<lambda>hostingPatterns.
           let all = regexPatterns @ hostingPatterns;
               patterns = (if all \<noteq> [] then Some all else None)
           in Inr (patterns, st\<lparr>corsPatterns := Some patterns\<rparr>)))))"

definition isOriginAllowed ::
  "'r regexp_api \<Rightarrow> cors_env \<Rightarrow> 'r cors_state \<Rightarrow> string \<Rightarrow> (thrown, bool \<times> 'r cors_state) res" where
  "isOriginAllowed api env st origin =
     bindR (getCorsPatterns api env st) (\<lambda>(patterns, st').
       Inr (case patterns of
              None \<Rightarrow> False
            | Some ps \<Rightarrow> if origin = [] then False else list_ex (\<lambda>re. regexp_test api re origin) ps, st'))"

definition warnDisallowedOriginOnce :: "'r cors_state \<Rightarrow> string \<Rightarrow> 'r cors_state" where
  "warnDisallowedOriginOnce st origin =
     (if origin \<in> set (warnedOrigins st) then st
      else (let st' = (if length (warnedOrigins st) < WARNED_ORIGINS_LIMIT
                       then st\<lparr>warnedOrigins := warnedOrigins st @ [origin]\<rparr> else st)
            in st'\<lparr>console_warned := console_warned st' @ [origin]\<rparr>))"

definition buildCorsHeaders ::
  "'r regexp_api \<Rightarrow> cors_env \<Rightarrow> 'r cors_state \<Rightarrow> string \<Rightarrow>
   (thrown, (string \<times> string) list \<times> 'r cors_state) res" where
  "buildCorsHeaders api env st origin =
     (let headers = [(''Vary'', ''Origin'')] in
      bindR (isOriginAllowed api env st origin) (\<lambda>(allowed, st').
        if allowed then
          Inr (obj_set ''Access-Control-Allow-Credentials'' ''true''
                 (obj_set ''Access-Control-Allow-Origin'' origin headers), st')
        else if origin \<noteq> [] then Inr (headers, warnDisallowedOriginOnce st' origin)
        else Inr (headers, st')))"

definition corsRejection :: "nat \<times> (string \<times> string) list \<times> string" where
  "corsRejection =
     (403, [(''Content-Type'', ''application/json''), (''Vary'', ''Origin'')],
      to_json (Obj [(''error'', Str ''Forbidden: cross-origin request rejected'')]))"

definition resetCorsPatterns :: "'r cors_state \<Rightarrow> 'r cors_state" where
  "resetCorsPatterns st = st\<lparr>corsPatterns := None, warnedOrigins := []\<rparr>"

section \<open>What the allowlist admits\<close>

lemma compile_literal:
  assumes "regexp_engine (new_RegExp api) (regexp_test api)"
  shows "\<exists>r. compile_re api (escapeOriginToPattern p) False = Inr r \<and> (\<forall>s. regexp_test api r s = (s = p))"
  using regexp_engine.literal_exact [OF assms, of p] by (auto simp: compile_re_def)

lemma parse_pattern_total:
  assumes "regexp_engine (new_RegExp api) (regexp_test api)"
  shows "\<exists>us. parseCorsPatterns api raw = Inr us \<and>
    (\<forall>s. list_ex (\<lambda>re. regexp_test api re s) us \<longleftrightarrow>
      (\<exists>p \<in> set (splitOrigins raw).
         case new_RegExp api (''^(?:'' @ p @ '')$'') False of Some r \<Rightarrow> regexp_test api r s | None \<Rightarrow> s = p))"
proof -
  define f where "f = (\<lambda>p. case compile_re api (''^(?:'' @ p @ '')$'') False of
      Inr r \<Rightarrow> Inr r | Inl _ \<Rightarrow> compile_re api (escapeOriginToPattern p) False)"
  have f: "\<exists>r. f p = Inr r \<and> (\<forall>s. regexp_test api r s = (case new_RegExp api (''^(?:'' @ p @ '')$'') False of
      Some r \<Rightarrow> regexp_test api r s | None \<Rightarrow> s = p))" for p
    using compile_literal [OF assms, of p]
    by (cases "new_RegExp api (''^(?:'' @ p @ '')$'') False") (auto simp: f_def compile_re_def)
  then obtain g where g: "\<And>p. f p = Inr (g p)"
      "\<And>p s. regexp_test api (g p) s = (case new_RegExp api (''^(?:'' @ p @ '')$'') False of
          Some r \<Rightarrow> regexp_test api r s | None \<Rightarrow> s = p)" by metis
  have "parseCorsPatterns api raw = mapR f (splitOrigins raw)"
    unfolding parseCorsPatterns_def f_def ..
  also have "\<dots> = Inr (map g (splitOrigins raw))" by (rule mapR_total) (rule g(1))
  finally show ?thesis unfolding g(2) [symmetric] by (auto simp: list_ex_iff)
qed

lemma hosting_patterns_total:
  assumes "regexp_engine (new_RegExp api) (regexp_test api)" "\<forall>h \<in> set hs. ascii h"
  shows "\<exists>ps. mapR (\<lambda>origin. compile_re api (escapeOriginToPattern origin) True) hs = Inr ps \<and>
    (\<forall>s. ascii s \<longrightarrow> list_ex (\<lambda>re. regexp_test api re s) ps \<longleftrightarrow> (\<exists>h \<in> set hs. to_lower s = to_lower h))"
  using assms(2)
proof (induction hs)
  case (Cons h hs)
  then obtain ps where ps: "mapR (\<lambda>origin. compile_re api (escapeOriginToPattern origin) True) hs = Inr ps"
      "\<forall>s. ascii s \<longrightarrow> list_ex (\<lambda>re. regexp_test api re s) ps \<longleftrightarrow> (\<exists>h \<in> set hs. to_lower s = to_lower h)" by auto
  obtain r where "compile_re api (escapeOriginToPattern h) True = Inr r"
      "\<forall>s. ascii s \<longrightarrow> regexp_test api r s = (to_lower s = to_lower h)"
    using regexp_engine.literal_ignore_case [OF assms(1), of h] Cons.prems by (auto simp: compile_re_def)
  with ps show ?case by auto
qed simp

text \<open>What the allowlist admits, on a first call: a non-empty origin that a user pattern matches in
  full, that equals a user entry which is no valid pattern, or that equals a hosting origin up to
  letter case.  Nothing in a hosting origin acts as a wildcard, and compiling never throws.\<close>

theorem allowlist_exact:
  assumes "regexp_engine (new_RegExp api) (regexp_test api)" "corsPatterns st = None"
    and "\<forall>h \<in> set (splitOrigins (opt_or (CORS_HOSTING_ORIGINS env) [])). ascii h" "ascii origin"
  shows "\<exists>st'. isOriginAllowed api env st origin = Inr (origin \<noteq> [] \<and>
      ((\<exists>p \<in> set (splitOrigins (opt_or (CORS_ALLOWED_ORIGINS env) [])).
          case new_RegExp api (''^(?:'' @ p @ '')$'') False of Some r \<Rightarrow> regexp_test api r origin | None \<Rightarrow> origin = p) \<or>
       (\<exists>h \<in> set (splitOrigins (opt_or (CORS_HOSTING_ORIGINS env) [])). to_lower origin = to_lower h)), st')"
proof -
  let ?a = "opt_or (CORS_ALLOWED_ORIGINS env) []"
  have empty: "splitOrigins [] = []" by (simp add: splitOrigins_def trim_def)
  obtain us where us: "(if ?a \<noteq> [] then parseCorsPatterns api ?a else Inr []) = Inr us"
      "\<And>s. list_ex (\<lambda>re. regexp_test api re s) us \<longleftrightarrow> (\<exists>p \<in> set (splitOrigins ?a).
         case new_RegExp api (''^(?:'' @ p @ '')$'') False of Some r \<Rightarrow> regexp_test api r s | None \<Rightarrow> s = p)"
    using parse_pattern_total [OF assms(1), of ?a] empty by (cases "?a = []") auto
  obtain ps where ps: "mapR (\<lambda>origin. compile_re api (escapeOriginToPattern origin) True)
        (splitOrigins (opt_or (CORS_HOSTING_ORIGINS env) [])) = Inr ps"
      "\<And>s. ascii s \<Longrightarrow> list_ex (\<lambda>re. regexp_test api re s) ps \<longleftrightarrow>
         (\<exists>h \<in> set (splitOrigins (opt_or (CORS_HOSTING_ORIGINS env) [])). to_lower s = to_lower h)"
    using hosting_patterns_total [OF assms(1,3)] by blast
  have "list_ex (\<lambda>re. regexp_test api re origin) (us @ ps) \<longleftrightarrow>
      (\<exists>p \<in> set (splitOrigins ?a). case new_RegExp api (''^(?:'' @ p @ '')$'') False of
          Some r \<Rightarrow> regexp_test api r origin | None \<Rightarrow> origin = p) \<or>
      (\<exists>h \<in> set (splitOrigins (opt_or (CORS_HOSTING_ORIGINS env) [])). to_lower origin = to_lower h)"
    using us(2) [of origin] ps(2) [OF assms(4)] by simp
  then show ?thesis
    unfolding isOriginAllowed_def getCorsPatterns_def assms(2) option.case Let_def us(1) bindR_Inr ps(1)
    by (cases "us @ ps = []") (auto simp del: list_ex_append)
qed

lemma allowlist_exact_witness:
  "\<exists>st'. isOriginAllowed fragment_api
      \<lparr>CORS_ALLOWED_ORIGINS = None, CORS_HOSTING_ORIGINS = Some ''https://Ab.elb.com''\<rparr> cors_init
      ''https://ab.elb.com'' = Inr (True, st')"
proof -
  have split: "splitOrigins ''https://Ab.elb.com'' = [''https://Ab.elb.com'']" "splitOrigins [] = []"
    by (simp_all add: splitOrigins_def trim_def is_space_def char_code_def)
  have e: "regexp_engine (new_RegExp fragment_api) (regexp_test fragment_api)"
    using fragment.regexp_engine_axioms by (simp add: fragment_api_def)
  have "corsPatterns cors_init = None" by (simp add: cors_init_def)
  note h = allowlist_exact [OF e this, of "\<lparr>CORS_ALLOWED_ORIGINS = None, CORS_HOSTING_ORIGINS = Some ''https://Ab.elb.com''\<rparr>"
      "''https://ab.elb.com''"]
  have "to_lower ''https://ab.elb.com'' = to_lower ''https://Ab.elb.com''" by code_simp
  then show ?thesis using h by (simp add: split ascii_def char_code_def)
qed

section \<open>What the headers reveal\<close>

lemma isOriginAllowed_caches:
  assumes "isOriginAllowed api env st origin = Inr (b, st')"
  shows "corsPatterns st' \<noteq> None" "warnedOrigins st' = warnedOrigins st" "console_warned st' = console_warned st"
    and "map_option fst (case isOriginAllowed api env' st' o' of Inr x \<Rightarrow> Some x | Inl _ \<Rightarrow> None) =
         map_option fst (case isOriginAllowed api env st o' of Inr x \<Rightarrow> Some x | Inl _ \<Rightarrow> None)"
  using assms
  by (auto simp: isOriginAllowed_def getCorsPatterns_def bindR_eq_Inr Let_def split: option.splits)

lemma warn_keeps [simp]:
  "corsPatterns (warnDisallowedOriginOnce st o') = corsPatterns st"
  by (simp add: warnDisallowedOriginOnce_def Let_def)

lemma isOriginAllowed_patterns:
  "corsPatterns st = Some ps \<Longrightarrow> isOriginAllowed api env st o' = Inr (case ps of None \<Rightarrow> False
     | Some ps \<Rightarrow> if o' = [] then False else list_ex (\<lambda>re. regexp_test api re o') ps, st)"
  by (simp add: isOriginAllowed_def getCorsPatterns_def)

text \<open>An origin is reflected only when the allowlist admits it, together with the credentials
  grant; every response carries \<open>Vary: Origin\<close>; and the decision taken by a later call, whatever the
  environment has become, is the one the first call would have taken.\<close>

theorem cors_headers_reflect:
  assumes "buildCorsHeaders api env st origin = Inr (headers, st')"
  shows "\<exists>allowed st1. isOriginAllowed api env st origin = Inr (allowed, st1) \<and>
    obj_get headers ''Vary'' = Some ''Origin'' \<and>
    obj_get headers ''Access-Control-Allow-Origin'' = (if allowed then Some origin else None) \<and>
    obj_get headers ''Access-Control-Allow-Credentials'' = (if allowed then Some ''true'' else None) \<and>
    (\<forall>env' st2 b. isOriginAllowed api env' st' origin = Inr (b, st2) \<longrightarrow> b = allowed)"
proof -
  obtain allowed st1 where a: "isOriginAllowed api env st origin = Inr (allowed, st1)"
    using assms by (auto simp: buildCorsHeaders_def bindR_eq_Inr Let_def)
  obtain ps where ps: "corsPatterns st1 = Some ps" using isOriginAllowed_caches(1) [OF a] by auto
  have st': "corsPatterns st' = Some ps" using assms a ps by (auto simp: buildCorsHeaders_def Let_def split: if_splits)
  have "isOriginAllowed api env' st1 origin = Inr (allowed, st1)" for env'
    using isOriginAllowed_caches(4) [OF a, of env' origin] a isOriginAllowed_patterns [OF ps, of api env' origin] by simp
  then have "\<forall>env' st2 b. isOriginAllowed api env' st' origin = Inr (b, st2) \<longrightarrow> b = allowed"
    using isOriginAllowed_patterns [OF ps, of api] isOriginAllowed_patterns [OF st', of api] by auto
  with a assms show ?thesis
    by (intro exI [of _ allowed] exI [of _ st1] conjI) (auto simp: buildCorsHeaders_def Let_def split: if_splits)
qed

lemma cors_headers_reflect_witness:
  "obj_get [(''Vary'', ''Origin'')] ''Access-Control-Allow-Origin'' = None \<and>
   (\<exists>st'. buildCorsHeaders fragment_api \<lparr>CORS_ALLOWED_ORIGINS = None, CORS_HOSTING_ORIGINS = None\<rparr>
      (cors_init :: (bool \<times> re_tok list) cors_state) ''https://x.com'' = Inr ([(''Vary'', ''Origin'')], st'))"
proof -
  have h: "buildCorsHeaders fragment_api \<lparr>CORS_ALLOWED_ORIGINS = None, CORS_HOSTING_ORIGINS = None\<rparr>
      (cors_init :: (bool \<times> re_tok list) cors_state) ''https://x.com'' = Inr ([(''Vary'', ''Origin'')],
      \<lparr>corsPatterns = Some None, warnedOrigins = [''https://x.com''], console_warned = [''https://x.com'']\<rparr>)"
    by (simp add: buildCorsHeaders_def isOriginAllowed_def getCorsPatterns_def cors_init_def splitOrigins_def
        trim_def warnDisallowedOriginOnce_def WARNED_ORIGINS_LIMIT_def)
  from cors_headers_reflect [OF h] h show ?thesis by auto
qed

section \<open>Warnings\<close>

inductive cors_reach :: "'r regexp_api \<Rightarrow> 'r cors_state \<Rightarrow> bool" for api where
  init: "cors_reach api cors_init"
| respond: "cors_reach api st \<Longrightarrow> buildCorsHeaders api env st origin = Inr (h, st') \<Longrightarrow> cors_reach api st'"
| reset: "cors_reach api st \<Longrightarrow> cors_reach api (resetCorsPatterns st)"

definition warned_inv :: "'r cors_state \<Rightarrow> bool" where
  "warned_inv st = (distinct (warnedOrigins st) \<and> length (warnedOrigins st) \<le> WARNED_ORIGINS_LIMIT)"

lemma warn_inv: "warned_inv st \<Longrightarrow> warned_inv (warnDisallowedOriginOnce st o')"
  by (auto simp: warned_inv_def warnDisallowedOriginOnce_def Let_def)

lemma warned_bounded: "cors_reach api st \<Longrightarrow> warned_inv st"
proof (induction rule: cors_reach.induct)
  case (respond st env origin h st')
  then obtain b st1 where "isOriginAllowed api env st origin = Inr (b, st1)"
      "st' = st1 \<or> st' = warnDisallowedOriginOnce st1 origin"
    by (auto simp: buildCorsHeaders_def bindR_eq_Inr Let_def split: if_splits)
  with isOriginAllowed_caches(2) [OF this(1)] respond.IH have "warned_inv st1"
    by (simp add: warned_inv_def)
  with \<open>st' = st1 \<or> _\<close> show ?case by (auto simp: warn_inv)
qed (simp_all add: warned_inv_def cors_init_def resetCorsPatterns_def)

text \<open>The set of remembered origins never exceeds its cap, but once it is full an origin it does
  not hold is written to the log on every request: n requests, n lines.\<close>

theorem warn_cap_floods:
  assumes "cors_reach api st" "length (warnedOrigins st) \<ge> WARNED_ORIGINS_LIMIT" "origin \<notin> set (warnedOrigins st)"
  shows "length (warnedOrigins st) = WARNED_ORIGINS_LIMIT \<and>
    (((\<lambda>s. warnDisallowedOriginOnce s origin) ^^ n) st =
      st\<lparr>console_warned := console_warned st @ replicate n origin\<rparr>)"
proof -
  have "length (warnedOrigins st) = WARNED_ORIGINS_LIMIT"
    using warned_bounded [OF assms(1)] assms(2) by (simp add: warned_inv_def)
  moreover have "((\<lambda>s. warnDisallowedOriginOnce s origin) ^^ n) st =
      st\<lparr>console_warned := console_warned st @ replicate n origin\<rparr>"
  proof (induction n)
    case (Suc n)
    then show ?case using assms(2,3)
      by (simp add: warnDisallowedOriginOnce_def replicate_append_same)
  qed simp
  ultimately show ?thesis by simp
qed

lemma fill_warned:
  assumes "distinct os" "[] \<notin> set os" "length os \<le> WARNED_ORIGINS_LIMIT"
  shows "\<exists>st. cors_reach api st \<and> corsPatterns st = (if os = [] then None else Some None) \<and> warnedOrigins st = os"
  using assms
proof (induction os rule: rev_induct)
  case Nil
  show ?case using cors_reach.init [of api] by (auto simp: cors_init_def)
next
  case (snoc x os)
  then obtain st where st: "cors_reach api st" "corsPatterns st = (if os = [] then None else Some None)" "warnedOrigins st = os"
    by auto
  have "buildCorsHeaders api \<lparr>CORS_ALLOWED_ORIGINS = None, CORS_HOSTING_ORIGINS = None\<rparr> st x =
      Inr ([(''Vary'', ''Origin'')], warnDisallowedOriginOnce (st\<lparr>corsPatterns := Some None\<rparr>) x)"
    using st(2) snoc.prems
    by (cases st; cases "os = []") (auto simp: buildCorsHeaders_def isOriginAllowed_def getCorsPatterns_def splitOrigins_def
        trim_def Let_def)
  from cors_reach.respond [OF st(1) this] show ?case
    using snoc.prems st(3) by (intro exI conjI) (auto simp: warnDisallowedOriginOnce_def Let_def)
qed

lemma warn_cap_floods_witness:
  "\<exists>st :: (bool \<times> re_tok list) cors_state. length (warnedOrigins st) = WARNED_ORIGINS_LIMIT \<and>
     console_warned (warnDisallowedOriginOnce (warnDisallowedOriginOnce st ''https://evil'') ''https://evil'') =
       console_warned st @ [''https://evil'', ''https://evil'']"
proof -
  have d: "distinct (map show_nat [0..<100])" by (simp add: distinct_map inj_on_def show_nat_inj del: upt.simps)
  have "\<not> is_digit (CHR ''h'')" by (simp add: is_digit_def char_code_def)
  then have "''https://evil'' \<noteq> show_nat i" for i using show_nat_digits [of i] by (metis list.set_intros(1))
  then have n: "[] \<notin> set (map show_nat [0..<100])" "''https://evil'' \<notin> set (map show_nat [0..<100])"
    unfolding set_map image_iff using show_nat_nonempty by metis+
  obtain st where st: "cors_reach fragment_api st" "warnedOrigins st = map show_nat [0..<100]"
    using fill_warned [OF d n(1), of fragment_api] by (auto simp: WARNED_ORIGINS_LIMIT_def)
  have "length (warnedOrigins st) \<ge> WARNED_ORIGINS_LIMIT" "''https://evil'' \<notin> set (warnedOrigins st)"
    using st(2) n(2) by (simp_all add: WARNED_ORIGINS_LIMIT_def)
  from warn_cap_floods [OF st(1) this, of 2] show ?thesis
    by (intro exI [of _ st]) (simp add: numeral_2_eq_2)
qed

end
