(* ===== verification/RawRoute.thy ===== *)
theory RawRoute
  imports Regex Rpc
begin

text \<open>
  \<^verbatim>\<open>packages/core/src/raw-route.ts\<close>: the table of raw HTTP routes.  A path pattern is
  compiled to the source of a regular expression (kept as its source; \<open>exec\<close> reads it with
  theory Regex), routes are registered into one table shared by every loaded copy of the package,
  and a request is matched against the table in registration order.
\<close>

section \<open>Paths from the scope chain\<close>

text \<open>A scope: its id and its parent, \<open>None\<close> when it has no \<open>parent\<close> property or a falsy one.\<close>

datatype scope_node = ScopeNode (scope_id: string) (scope_parent: "scope_node option")

fun derive_segments :: "scope_node \<Rightarrow> string list" where
  "derive_segments (ScopeNode i None) = []"
| "derive_segments (ScopeNode i (Some (ScopeNode j None))) = []"
| "derive_segments (ScopeNode i (Some (ScopeNode j (Some q)))) =
     derive_segments (ScopeNode j (Some q)) @ [encode_uri i]"

definition derivePathFromScope :: "scope_node \<Rightarrow> string \<Rightarrow> string" where
  "derivePathFromScope scope i = ''/'' @ join ''/'' (derive_segments scope @ [encode_uri i])"

definition resolveRoutePath :: "scope_node \<Rightarrow> string \<Rightarrow> string option \<Rightarrow> string" where
  "resolveRoutePath scope i path = (case path of Some p \<Rightarrow> p | None \<Rightarrow> derivePathFromScope scope i)"

section \<open>Path compilation\<close>

definition REGEX_SPECIAL :: "char list" where
  "REGEX_SPECIAL = [CHR ''.'', CHR ''+'', CHR ''?'', CHR ''^'', CHR ''$'', CHR ''|'', CHR ''('', CHR '')'',
     CHR ''['', CHR '']'', CHR 0x5C]"

definition BLOCKED_PARAM_NAMES :: "string list" where
  "BLOCKED_PARAM_NAMES = [''__proto__'', ''constructor'', ''prototype'']"

definition ident_start :: "char \<Rightarrow> bool" where
  "ident_start c = (let n = char_code c in (97 \<le> n \<and> n \<le> 122) \<or> (65 \<le> n \<and> n \<le> 90) \<or> n = 95)"

definition is_param_name :: "string \<Rightarrow> bool" where
  "is_param_name s = (case s of [] \<Rightarrow> False | c # r \<Rightarrow> ident_start c \<and> list_all (\<lambda>d. ident_start d \<or> is_digit d) r)"

definition quoted :: "string \<Rightarrow> string" where
  "quoted s = [CHR 0x27] @ s @ [CHR 0x27]"

definition multiple_wildcards :: "string \<Rightarrow> thrown" where
  "multiple_wildcards path = new_Error (''Path '' @ quoted path @
     '' contains multiple wildcards. Only one wildcard (*) is allowed per route, and it must be the last segment.'')"

text \<open>The loop of \<open>compilePath\<close>, on what is left of the path.\<close>

function compile_loop ::
  "string \<Rightarrow> string \<Rightarrow> string \<Rightarrow> string list \<Rightarrow> nat \<Rightarrow> (thrown, string \<times> string list) res" where
  "compile_loop path [] regexStr paramNames wildcardCount = Inr (regexStr, paramNames)"
| "compile_loop path (c # rest) regexStr paramNames wildcardCount =
     (if c = CHR ''{'' then
        (case index_of (CHR ''}'') rest of
           None \<Rightarrow> Inl (new_Error (''Unclosed '' @ quoted ''{'' @ '' in path pattern: '' @ path))
         | Some end_i \<Rightarrow>
             (let name = take end_i rest in
              if name = [] \<or> \<not> is_param_name name then
                Inl (new_Error (''Invalid parameter name '' @ quoted name @ '' in path '' @ quoted path @
                  ''. Parameter names must be valid JavaScript identifiers (start with letter or underscore, contain only letters, digits, underscores).''))
              else if name \<in> set BLOCKED_PARAM_NAMES then
                Inl (new_Error (''Parameter name '' @ quoted name @ '' is reserved and cannot be used in path '' @ quoted path @ ''.''))
              else compile_loop path (drop (Suc end_i) rest) (regexStr @ ''([^/]+)'') (paramNames @ [name]) wildcardCount))
      else if c = CHR ''}'' then
        Inl (new_Error (''Unexpected '' @ quoted ''}'' @ '' without matching '' @ quoted ''{'' @ '' in path pattern: '' @ path))
      else if c = CHR ''*'' then
        (if wildcardCount + 1 > 1 then Inl (multiple_wildcards path)
         else if rest \<noteq> [] then Inl (multiple_wildcards path)
         else compile_loop path rest (regexStr @ ''(.*)'') (paramNames @ [''*'']) (wildcardCount + 1))
      else if c \<in> set REGEX_SPECIAL then
        compile_loop path rest (regexStr @ [CHR 0x5C, c]) paramNames wildcardCount
      else compile_loop path rest (regexStr @ [c]) paramNames wildcardCount)"
  by pat_completeness auto
termination
  by (relation "measure (\<lambda>(path, s, r, n, w). length s)") auto

definition compilePath :: "string \<Rightarrow> (thrown, string \<times> string list) res" where
  "compilePath path =
     (if \<not> starts_with path ''/'' then Inl (new_Error ''Path must start with /'')
      else (let path = collapse_slashes path;
                path = (if length path > 1 \<and> ends_with path ''/'' then butlast path else path)
            in bindR (compile_loop path path [] [] 0) (\<lambda>(regexStr, paramNames).
                 Inr (''^'' @ regexStr @ ''$'', paramNames))))"

text \<open>\<open>pattern.exec(path)\<close>: the captures.\<close>

definition pattern_exec :: "string \<Rightarrow> string \<Rightarrow> string list option" where
  "pattern_exec pattern s = (case re_parse pattern of None \<Rightarrow> None | Some ts \<Rightarrow> re_exec ts s)"

section \<open>The registry\<close>

record 'h RegisteredRoute =
  route_method :: string
  route_path :: string
  route_pattern :: string
  route_paramNames :: "string list"
  route_handler :: 'h
  route_owner :: "string option"

text \<open>
  The state under the well-known global key, as any version of the package may have left it
  (\<open>routes\<close> and \<open>copies\<close> may be missing), the copies that have counted themselves, and the
  duplicate-copy warnings written (the count each reports).
\<close>

record 'h RawRouteRegistryState =
  reg_routes :: "'h RegisteredRoute list option"
  reg_locked :: bool
  reg_copies :: "nat option"

record 'h core_global =
  g_registry :: "'h RawRouteRegistryState option"
  g_counted :: "nat list"
  g_warned :: "nat list"

definition core_init :: "'h core_global" where
  "core_init = \<lparr>g_registry = None, g_counted = [], g_warned = []\<rparr>"

definition registry_of :: "'h core_global \<Rightarrow> 'h RawRouteRegistryState" where
  "registry_of g = opt_or (g_registry g) \<lparr>reg_routes = Some [], reg_locked = False, reg_copies = Some 0\<rparr>"

definition routes_of :: "'h core_global \<Rightarrow> 'h RegisteredRoute list" where
  "routes_of g = opt_or (reg_routes (registry_of g)) []"

definition copies_of :: "'h core_global \<Rightarrow> nat" where
  "copies_of g = opt_or (reg_copies (registry_of g)) 0"

text \<open>\<open>getState()\<close> called by one copy of the package.\<close>

definition getState :: "nat \<Rightarrow> 'h core_global \<Rightarrow> 'h core_global" where
  "getState copy g =
     (let st = registry_of g;
          st = st\<lparr>reg_routes := Some (opt_or (reg_routes st) [])\<rparr>;
          st = st\<lparr>reg_copies := Some (opt_or (reg_copies st) 0)\<rparr> in
      if copy \<in> set (g_counted g) then g\<lparr>g_registry := Some st\<rparr>
      else (let n = opt_or (reg_copies st) 0 + 1 in
            g\<lparr>g_registry := Some (st\<lparr>reg_copies := Some n\<rparr>),
              g_counted := copy # g_counted g,
              g_warned := (if n > 1 then g_warned g @ [n] else g_warned g)\<rparr>))"

definition getLoadedCoreCopies :: "nat \<Rightarrow> 'h core_global \<Rightarrow> nat \<times> 'h core_global" where
  "getLoadedCoreCopies copy g = (let g = getState copy g in (copies_of g, g))"

definition VALID_METHODS :: "string list" where
  "VALID_METHODS = [''GET'', ''POST'', ''PUT'', ''DELETE'', ''PATCH'', ''HEAD'', ''OPTIONS'']"

definition set_locked :: "bool \<Rightarrow> 'h core_global \<Rightarrow> 'h core_global" where
  "set_locked b g = g\<lparr>g_registry := Some ((registry_of g)\<lparr>reg_locked := b\<rparr>)\<rparr>"

definition lockRouteRegistry :: "nat \<Rightarrow> 'h core_global \<Rightarrow> 'h core_global" where
  "lockRouteRegistry copy g = set_locked True (getState copy g)"

definition unlockRouteRegistry :: "nat \<Rightarrow> 'h core_global \<Rightarrow> 'h core_global" where
  "unlockRouteRegistry copy g = set_locked False (getState copy g)"

definition normalize_route_path :: "string \<Rightarrow> string" where
  "normalize_route_path p =
     (let n = strip_trailing_slash (collapse_slashes p) in if n = [] then ''/'' else n)"

definition reserved_path :: "string \<Rightarrow> bool" where
  "reserved_path normalizedPath =
     (let lowerPath = to_lower normalizedPath in
      lowerPath = BLOCKS_NAMESPACE \<or> lowerPath = BLOCKS_RPC_PREFIX \<or>
      starts_with lowerPath (BLOCKS_RPC_PREFIX @ ''/''))"

text \<open>Returns what it throws, if it does; a throw leaves the routes as they were.\<close>

definition registerRoute ::
  "nat \<Rightarrow> string \<Rightarrow> string \<Rightarrow> string option \<Rightarrow> 'h \<Rightarrow> 'h core_global \<Rightarrow> thrown option \<times> 'h core_global" where
  "registerRoute copy meth path owner handler g0 =
     (let g = getState copy g0 in
      if reg_locked (registry_of g) then
        (Some (new_Error ''Routes must be registered during initialization. Cannot register routes after handler creation.''), g)
      else if meth \<notin> set VALID_METHODS then
        (Some (new_Error (''Invalid HTTP method: '' @ meth @ ''. Must be one of: '' @ join '', '' VALID_METHODS)), g)
      else (let normalizedPath = normalize_route_path path in
        if normalizedPath = ''/'' then
          (Some (new_Error (''Cannot register RawRoute at '' @ quoted ''/'' @ '' '' @ em_dash @
             '' root path is not supported (API Gateway proxy resource doesn'' @ [CHR 0x27] @
             ''t handle root). Use a sub-path like '' @ quoted ''/health'' @ ''.'')), g)
        else if reserved_path normalizedPath then
          (Some (new_Error (''Cannot register RawRoute at '' @ BLOCKS_NAMESPACE @ '' or '' @ BLOCKS_RPC_PREFIX @
             ''/* '' @ em_dash @ '' these paths are reserved for RPC dispatch'')), g)
        else if list_ex (\<lambda>r. route_method r = meth \<and> route_path r = normalizedPath \<and> route_owner r = owner)
                  (routes_of g) then
          (Some (set_err_name ''DuplicateRouteException''
             (new_Error (''DuplicateRouteException: '' @ meth @ '' '' @ normalizedPath @ '' is already registered''))), g)
        else (case compilePath normalizedPath of
            Inl e \<Rightarrow> (Some e, g)
          | Inr (pattern, paramNames) \<Rightarrow>
              (None, g\<lparr>g_registry := Some ((registry_of g)\<lparr>reg_routes := Some (routes_of g @
                 [\<lparr>route_method = meth, route_path = normalizedPath, route_pattern = pattern,
                   route_paramNames = paramNames, route_handler = handler, route_owner = owner\<rparr>])\<rparr>)\<rparr>))))"

definition getRegisteredRoutes :: "nat \<Rightarrow> 'h core_global \<Rightarrow> 'h RegisteredRoute list \<times> 'h core_global" where
  "getRegisteredRoutes copy g = (let g = getState copy g in (routes_of g, g))"

definition clearRouteRegistry :: "nat \<Rightarrow> 'h core_global \<Rightarrow> 'h core_global" where
  "clearRouteRegistry copy g0 =
     (let g = getState copy g0 in
      g\<lparr>g_registry := Some ((registry_of g)\<lparr>reg_routes := Some [], reg_locked := False\<rparr>)\<rparr>)"

section \<open>Matching\<close>

definition extract_param :: "string props \<Rightarrow> string \<times> string \<Rightarrow> string props" where
  "extract_param params nr =
     (let (name, raw) = nr in
      if name = ''*'' then obj_set name raw params
      else obj_set name (case decode_uri raw of Some d \<Rightarrow> d | None \<Rightarrow> raw) params)"

definition extractParams :: "'h RegisteredRoute \<Rightarrow> string list \<Rightarrow> string props" where
  "extractParams route captures = foldl extract_param [] (zip (route_paramNames route) captures)"

text \<open>One route against a request path, first as it is and then without its trailing slash.\<close>

definition route_match :: "'h RegisteredRoute \<Rightarrow> string \<Rightarrow> string \<Rightarrow> string list option" where
  "route_match route meth path =
     (if route_method route \<noteq> meth then None
      else (case pattern_exec (route_pattern route) path of
              Some m \<Rightarrow> Some m
            | None \<Rightarrow>
                if length path > 1 \<and> ends_with path ''/'' then pattern_exec (route_pattern route) (butlast path)
                else None))"

fun match_routes :: "'h RegisteredRoute list \<Rightarrow> string \<Rightarrow> string \<Rightarrow> ('h RegisteredRoute \<times> string props) option" where
  "match_routes [] meth path = None"
| "match_routes (route # rs) meth path =
     (case route_match route meth path of
        Some m \<Rightarrow> Some (route, extractParams route m)
      | None \<Rightarrow> match_routes rs meth path)"

definition matchRoute ::
  "nat \<Rightarrow> string \<Rightarrow> string \<Rightarrow> 'h core_global \<Rightarrow> ('h RegisteredRoute \<times> string props) option \<times> 'h core_global" where
  "matchRoute copy meth path g0 =
     (let g = getState copy g0 in (match_routes (routes_of g) meth (collapse_slashes path), g))"

section \<open>What a pattern means\<close>

text \<open>
  The abstract pattern: literal characters, named parameters, a final wildcard.  \<open>unparse\<close> is its
  text, \<open>fill\<close> the path it stands for when its holes hold the given values.
\<close>

datatype pat = PLit char | PParam string | PWild

fun pat_text :: "pat \<Rightarrow> string" where
  "pat_text (PLit c) = [c]"
| "pat_text (PParam n) = ''{'' @ n @ ''}''"
| "pat_text PWild = ''*''"

definition unparse :: "pat list \<Rightarrow> string" where
  "unparse ps = concat (map pat_text ps)"

fun pat_regex :: "pat \<Rightarrow> string" where
  "pat_regex (PLit c) = (if c \<in> set REGEX_SPECIAL then [CHR 0x5C, c] else [c])"
| "pat_regex (PParam n) = ''([^/]+)''"
| "pat_regex PWild = ''(.*)''"

fun pat_tok :: "pat \<Rightarrow> re_tok" where
  "pat_tok (PLit c) = TLit c"
| "pat_tok (PParam n) = TSeg"
| "pat_tok PWild = TRest"

fun pat_names :: "pat list \<Rightarrow> string list" where
  "pat_names [] = []"
| "pat_names (PLit c # ps) = pat_names ps"
| "pat_names (PParam n # ps) = n # pat_names ps"
| "pat_names (PWild # ps) = ''*'' # pat_names ps"

fun wf_pats :: "pat list \<Rightarrow> bool" where
  "wf_pats [] = True"
| "wf_pats (PLit c # ps) = (c \<notin> set ''{}*'' \<and> wf_pats ps)"
| "wf_pats (PParam n # ps) = (is_param_name n \<and> n \<notin> set BLOCKED_PARAM_NAMES \<and> wf_pats ps)"
| "wf_pats (PWild # ps) = (ps = [])"

fun fill :: "pat list \<Rightarrow> string list \<Rightarrow> string" where
  "fill [] vs = []"
| "fill (PLit c # ps) vs = c # fill ps vs"
| "fill (PParam n # ps) (v # vs) = v @ fill ps vs"
| "fill (PWild # ps) (v # vs) = v @ fill ps vs"
| "fill (_ # ps) [] = []"

text \<open>A hole of a parameter takes one non-empty segment, that of a wildcard anything on one line.\<close>

fun fits :: "pat list \<Rightarrow> string list \<Rightarrow> bool" where
  "fits [] vs = (vs = [])"
| "fits (PLit c # ps) vs = fits ps vs"
| "fits (PParam n # ps) vs = (\<exists>v us. vs = v # us \<and> v \<noteq> [] \<and> CHR ''/'' \<notin> set v \<and> fits ps us)"
| "fits (PWild # ps) vs = (\<exists>v us. vs = v # us \<and> (\<forall>c \<in> set v. \<not> line_end c) \<and> fits ps us)"

lemma param_name_no_brace: "is_param_name n \<Longrightarrow> n \<noteq> [] \<and> CHR ''}'' \<notin> set n \<and> n \<noteq> ''*''"
  by (cases n) (auto simp: is_param_name_def ident_start_def is_digit_def char_code_def list_all_iff Let_def)

lemma compile_complete:
  "wf_pats ps \<Longrightarrow> compile_loop path (unparse ps) re names 0 = Inr (re @ concat (map pat_regex ps), names @ pat_names ps)"
proof (induction ps arbitrary: re names rule: wf_pats.induct)
  case (3 n ps)
  then have n: "CHR ''}'' \<notin> set n" "n \<noteq> []" using param_name_no_brace by auto
  then show ?case using 3 by (simp add: unparse_def)
qed (auto simp: unparse_def)

lemma compile_sound:
  "compile_loop path s re names 0 = Inr r \<Longrightarrow> \<exists>ps. wf_pats ps \<and> s = unparse ps"
proof (induction "length s" arbitrary: s re names rule: less_induct)
  case less
  show ?case
  proof (cases s)
    case Nil
    then show ?thesis by (intro exI [of _ "[]"]) (simp add: unparse_def)
  next
    case (Cons c rest)
    have lit: ?thesis if "c \<notin> set ''{}*''" "\<exists>re'. compile_loop path rest re' names 0 = Inr r"
    proof -
      from that(2) obtain ps where "wf_pats ps" "rest = unparse ps" using less.hyps [of rest] Cons by auto
      then show ?thesis using that(1) Cons by (intro exI [of _ "PLit c # ps"]) (simp add: unparse_def)
    qed
    consider "c = CHR ''{''" | "c = CHR ''*''" | "c \<notin> set ''{}*''"
      using less.prems Cons by (auto split: if_splits)
    then show ?thesis
    proof cases
      case 1
      then obtain i where i: "index_of (CHR ''}'') rest = Some i"
          "compile_loop path (drop (Suc i) rest) (re @ ''([^/]+)'') (names @ [take i rest]) 0 = Inr r"
          "is_param_name (take i rest)" "take i rest \<notin> set BLOCKED_PARAM_NAMES"
        using less.prems Cons by (auto simp: Let_def split: option.splits if_splits)
      then obtain ps where "wf_pats ps" "drop (Suc i) rest = unparse ps"
        using less.hyps [OF _ i(2)] Cons by (auto simp: less_Suc_eq_le)
      then show ?thesis using i index_of_Some_split [OF i(1)] Cons 1
        by (intro exI [of _ "PParam (take i rest) # ps"]) (auto simp: unparse_def)
    next
      case 2
      then have "rest = []" using less.prems Cons by (auto split: if_splits)
      then show ?thesis using 2 Cons by (intro exI [of _ "[PWild]"]) (simp add: unparse_def)
    next
      case 3
      then show ?thesis using less.prems Cons by (intro lit) (auto split: if_splits)
    qed
  qed
qed

lemma re_body_pats: "wf_pats ps \<Longrightarrow> re_body (concat (map pat_regex ps) @ ''$'') = Some (map pat_tok ps)"
proof (induction ps rule: wf_pats.induct)
  case 1
  show ?case by (simp add: re_body.simps)
next
  case (2 c ps)
  have step: "re_body (pat_regex (PLit c) @ t) = map_option ((#) (TLit c)) (re_body t)" if "t \<noteq> []" for t
  proof (cases "c \<in> set REGEX_SPECIAL")
    case True
    then have "re_special c" by (auto simp: REGEX_SPECIAL_def re_special_def)
    then show ?thesis using True by (simp add: re_body.simps [of "CHR 0x5C # c # t"])
  next
    case False
    then have c: "\<not> re_special c" "c \<noteq> CHR ''$''" "c \<noteq> CHR ''(''" "c \<noteq> CHR 0x5C" "c \<noteq> CHR ''.''"
      using 2(2) by (auto simp: REGEX_SPECIAL_def re_special_def)
    then show ?thesis using False that by (simp add: re_body.simps [of "c # t"])
  qed
  show ?case using step [of "concat (map pat_regex ps) @ ''$''"] 2 by (simp del: pat_regex.simps)
next
  case (3 n ps)
  then show ?case by (simp add: re_body.simps [of "CHR ''('' # _"] starts_with_def)
next
  case (4 ps)
  then show ?case by (simp add: re_body.simps [of "CHR ''('' # _"] re_body.simps [of "''$''"] starts_with_def)
qed

lemma re_matches_pats:
  "re_matches (map pat_tok ps) s caps \<longleftrightarrow> fits ps caps \<and> s = fill ps caps"
  by (induction ps caps arbitrary: s rule: fill.induct) auto

lemma compilePath_pats:
  assumes "compilePath path = Inr (src, names)"
  shows "\<exists>ps. wf_pats ps \<and> names = pat_names ps \<and> re_parse src = Some (map pat_tok ps) \<and>
    unparse ps = (let p = collapse_slashes path in if length p > 1 \<and> ends_with p ''/'' then butlast p else p)"
proof -
  define q where "q = (let p = collapse_slashes path in if length p > 1 \<and> ends_with p ''/'' then butlast p else p)"
  obtain re where c: "compile_loop q q [] [] 0 = Inr (re, names)" and src: "src = ''^'' @ re @ ''$''"
    using assms by (auto simp: compilePath_def q_def bindR_eq_Inr Let_def split: if_splits)
  obtain ps where ps: "wf_pats ps" "q = unparse ps" using compile_sound [OF c] by blast
  then have "re = concat (map pat_regex ps)" "names = pat_names ps"
    using c compile_complete [OF ps(1), of q "[]" "[]"] by simp_all
  with ps re_body_pats [OF ps(1)] src show ?thesis
    by (intro exI [of _ ps]) (simp add: re_parse_def q_def)
qed

lemma pattern_exec_fill:
  assumes "re_parse src = Some (map pat_tok ps)"
  shows "pattern_exec src s = Some caps \<Longrightarrow> fits ps caps \<and> s = fill ps caps"
    and "pattern_exec src s = None \<longleftrightarrow> (\<nexists>caps. fits ps caps \<and> s = fill ps caps)"
  using assms re_exec_sound [of "map pat_tok ps" s] re_exec_iff [of "map pat_tok ps" s] re_matches_pats [of ps s]
  by (auto simp: pattern_exec_def)

text \<open>When every parameter is a whole segment, the values of the holes can be read back.\<close>

fun aligned :: "pat list \<Rightarrow> bool" where
  "aligned [] = True"
| "aligned (PLit c # ps) = aligned ps"
| "aligned (PWild # ps) = (ps = [])"
| "aligned (PParam n # ps) = ((ps = [] \<or> (\<exists>qs. ps = PLit (CHR ''/'') # qs)) \<and> aligned ps)"

lemma fill_inject:
  "aligned ps \<Longrightarrow> fits ps us \<Longrightarrow> fits ps vs \<Longrightarrow> fill ps us = fill ps vs \<Longrightarrow> us = vs"
proof (induction ps arbitrary: us vs rule: aligned.induct)
  case (4 n ps)
  obtain u us' v vs' where uv: "us = u # us'" "vs = v # vs'" "CHR ''/'' \<notin> set u" "CHR ''/'' \<notin> set v"
      "fits ps us'" "fits ps vs'" using 4(3,4) by auto
  have tw: "takeWhile (\<lambda>c. c \<noteq> CHR ''/'') (w @ fill ps ws) = w" if "CHR ''/'' \<notin> set w" "fits ps ws" for w ws
    using that 4(2) by (subst takeWhile_append2) auto
  have "u = v" using tw [of u us'] tw [of v vs'] uv 4(5) by simp
  then show ?case using 4 uv by auto
qed auto

section \<open>Matching is correct\<close>

lemma match_routes_Some:
  "match_routes rs meth path = Some (route, params) \<Longrightarrow>
   \<exists>before after caps. rs = before @ route # after \<and> (\<forall>r \<in> set before. route_match r meth path = None) \<and>
     route_match route meth path = Some caps \<and> params = extractParams route caps"
proof (induction rs)
  case (Cons r rs)
  show ?case
  proof (cases "route_match r meth path")
    case (Some m)
    then show ?thesis using Cons.prems by (intro exI [of _ "[]"] exI [of _ rs] exI [of _ m]) auto
  next
    case None
    then obtain before after caps where "rs = before @ route # after" "\<forall>r \<in> set before. route_match r meth path = None"
        "route_match route meth path = Some caps" "params = extractParams route caps"
      using Cons by auto
    then show ?thesis using None by (intro exI [of _ "r # before"] exI [of _ after] exI [of _ caps]) auto
  qed
qed simp

lemma match_routes_None:
  "match_routes rs meth path = None \<longleftrightarrow> (\<forall>r \<in> set rs. route_match r meth path = None)"
  by (induction rs) (auto split: option.splits)

lemma match_routes_first:
  "(\<forall>r \<in> set before. route_match r meth path = None) \<Longrightarrow> route_match route meth path = Some caps \<Longrightarrow>
   match_routes (before @ route # after) meth path = Some (route, extractParams route caps)"
  by (induction before) auto

text \<open>A route of the table, as registration leaves it: its pattern is that of its path.\<close>

definition route_ok :: "'h RegisteredRoute \<Rightarrow> pat list \<Rightarrow> bool" where
  "route_ok r ps = (wf_pats ps \<and> unparse ps = route_path r \<and> route_paramNames r = pat_names ps \<and>
     re_parse (route_pattern r) = Some (map pat_tok ps))"

lemma route_match_Some:
  assumes "route_ok r ps" "route_match r meth path = Some caps"
  shows "route_method r = meth \<and> fits ps caps \<and>
    (path = fill ps caps \<or> (ends_with path ''/'' \<and> butlast path = fill ps caps))"
  using assms pattern_exec_fill(1) [of "route_pattern r" ps]
  by (auto simp: route_match_def route_ok_def split: if_splits option.splits)

lemma route_match_None:
  assumes "route_ok r ps" "route_match r meth path = None" "route_method r = meth" "fits ps caps"
  shows "path \<noteq> fill ps caps"
  using assms pattern_exec_fill(2) [of "route_pattern r" ps path]
  by (auto simp: route_match_def route_ok_def split: if_splits option.splits)

section \<open>The registry, operation by operation\<close>

datatype 'h reg_op =
    OpRegister string string "string option" 'h
  | OpLock | OpUnlock | OpClear | OpMatch string string | OpRoutes | OpCopies

text \<open>One operation, called by one copy of the package.\<close>

fun run_op :: "'h core_global \<Rightarrow> nat \<times> 'h reg_op \<Rightarrow> 'h core_global" where
  "run_op g (copy, OpRegister meth path owner handler) = snd (registerRoute copy meth path owner handler g)"
| "run_op g (copy, OpLock) = lockRouteRegistry copy g"
| "run_op g (copy, OpUnlock) = unlockRouteRegistry copy g"
| "run_op g (copy, OpClear) = clearRouteRegistry copy g"
| "run_op g (copy, OpMatch meth path) = snd (matchRoute copy meth path g)"
| "run_op g (copy, OpRoutes) = snd (getRegisteredRoutes copy g)"
| "run_op g (copy, OpCopies) = snd (getLoadedCoreCopies copy g)"

abbreviation run_ops :: "'h core_global \<Rightarrow> (nat \<times> 'h reg_op) list \<Rightarrow> 'h core_global" where
  "run_ops \<equiv> foldl run_op"

lemma getState_sel [simp]:
  "routes_of (getState copy g) = routes_of g"
  "reg_locked (registry_of (getState copy g)) = reg_locked (registry_of g)"
  "copies_of (getState copy g) = copies_of g + (if copy \<in> set (g_counted g) then 0 else 1)"
  "g_counted (getState copy g) = (if copy \<in> set (g_counted g) then g_counted g else copy # g_counted g)"
  "g_warned (getState copy g) = g_warned g @
     (if copy \<in> set (g_counted g) \<or> copies_of g = 0 then [] else [copies_of g + 1])"
  by (auto simp: getState_def routes_of_def copies_of_def registry_of_def Let_def)

lemma set_locked_sel [simp]:
  "routes_of (set_locked b g) = routes_of g" "reg_locked (registry_of (set_locked b g)) = b"
  "copies_of (set_locked b g) = copies_of g" "g_counted (set_locked b g) = g_counted g" "g_warned (set_locked b g) = g_warned g"
  by (auto simp: set_locked_def routes_of_def copies_of_def registry_of_def)

lemma clear_sel [simp]:
  "routes_of (clearRouteRegistry copy g) = []" "reg_locked (registry_of (clearRouteRegistry copy g)) = False"
  "copies_of (clearRouteRegistry copy g) = copies_of (getState copy g)"
  "g_counted (clearRouteRegistry copy g) = g_counted (getState copy g)"
  "g_warned (clearRouteRegistry copy g) = g_warned (getState copy g)"
  by (simp_all add: clearRouteRegistry_def routes_of_def copies_of_def registry_of_def Let_def)

text \<open>A call either throws and leaves the table alone, or appends one route.\<close>

definition new_route :: "string \<Rightarrow> string \<Rightarrow> string option \<Rightarrow> 'h \<Rightarrow> string \<Rightarrow> string list \<Rightarrow> 'h RegisteredRoute" where
  "new_route meth path owner handler pattern names =
     \<lparr>route_method = meth, route_path = normalize_route_path path, route_pattern = pattern,
      route_paramNames = names, route_handler = handler, route_owner = owner\<rparr>"

lemma register_cases:
  assumes "registerRoute copy meth path owner handler g = (e, g')"
  shows "(e \<noteq> None \<and> g' = getState copy g) \<or>
    (\<exists>pattern names. e = None \<and> \<not> reg_locked (registry_of g) \<and> meth \<in> set VALID_METHODS \<and>
       normalize_route_path path \<noteq> ''/'' \<and> \<not> reserved_path (normalize_route_path path) \<and>
       (\<forall>r \<in> set (routes_of g). (route_method r, route_path r, route_owner r) \<noteq> (meth, normalize_route_path path, owner)) \<and>
       compilePath (normalize_route_path path) = Inr (pattern, names) \<and>
       routes_of g' = routes_of g @ [new_route meth path owner handler pattern names] \<and>
       reg_locked (registry_of g') = False \<and> copies_of g' = copies_of (getState copy g) \<and>
       g_counted g' = g_counted (getState copy g) \<and> g_warned g' = g_warned (getState copy g))"
proof (cases "e = None")
  case False
  then show ?thesis using assms
    by (auto simp: registerRoute_def Let_def split: if_splits sum.splits)
next
  case True
  have upd: "routes_of (h\<lparr>g_registry := Some ((registry_of h)\<lparr>reg_routes := Some rs\<rparr>)\<rparr>) = rs"
    "reg_locked (registry_of (h\<lparr>g_registry := Some ((registry_of h)\<lparr>reg_routes := Some rs\<rparr>)\<rparr>)) = reg_locked (registry_of h)"
    "copies_of (h\<lparr>g_registry := Some ((registry_of h)\<lparr>reg_routes := Some rs\<rparr>)\<rparr>) = copies_of h" for h :: "'a core_global" and rs
    by (simp_all add: routes_of_def copies_of_def registry_of_def)
  from True assms show ?thesis
    by (auto simp: registerRoute_def Let_def list_ex_iff upd new_route_def split: if_splits sum.splits)
qed

definition registry_inv :: "'h core_global \<Rightarrow> bool" where
  "registry_inv g =
     ((\<forall>r \<in> set (routes_of g). (\<exists>ps. route_ok r ps) \<and> route_method r \<in> set VALID_METHODS \<and>
         \<not> reserved_path (route_path r) \<and> route_path r \<noteq> ''/'' \<and> collapse_slashes (route_path r) = route_path r) \<and>
      distinct (map (\<lambda>r. (route_method r, route_path r, route_owner r)) (routes_of g)) \<and>
      distinct (g_counted g) \<and> copies_of g = length (g_counted g) \<and>
      g_warned g = [2..<Suc (copies_of g)])"

lemma collapse_id: "(\<And>p q. s \<noteq> p @ ''//'' @ q) \<Longrightarrow> collapse_slashes s = s"
proof (induction s rule: collapse_slashes.induct)
  case (3 x y ys)
  have "\<not> (x = CHR ''/'' \<and> y = CHR ''/'')" using 3(3) [of "[]" ys] by auto
  moreover have "collapse_slashes (y # ys) = y # ys"
    using 3(2) [OF calculation] 3(3) [of "x # _"] by auto
  ultimately show ?case by (simp only: collapse_slashes.simps(3) if_False)
qed auto

lemma normalized:
  assumes "q = normalize_route_path p"
  shows "collapse_slashes q = q" and "length q > 1 \<Longrightarrow> \<not> ends_with q ''/''"
proof -
  define c where "c = collapse_slashes p"
  have nd: "c \<noteq> a @ ''//'' @ b" for a b unfolding c_def by (rule collapse_slashes_no_double)
  have bl: "butlast c \<noteq> a @ ''//'' @ b" if "ends_with c ''/''" for a b
  proof
    assume h: "butlast c = a @ ''//'' @ b"
    have "c = butlast c @ ''/''" using that by (auto simp: ends_with_iff)
    then have "c = a @ ''//'' @ (b @ ''/'')" using h by simp
    then show False using nd by blast
  qed
  have q: "q = (if strip_trailing_slash c = [] then ''/'' else strip_trailing_slash c)"
    using assms by (simp add: normalize_route_path_def c_def Let_def)
  have "collapse_slashes c = c" by (rule collapse_id) (rule nd)
  moreover have "collapse_slashes (butlast c) = butlast c" if "ends_with c ''/''"
    by (rule collapse_id) (rule bl [OF that])
  ultimately show "collapse_slashes q = q"
    by (auto simp: q strip_trailing_slash_def)
  show "\<not> ends_with q ''/''" if "length q > 1"
  proof
    assume e: "ends_with q ''/''"
    have "\<exists>a b. c = a @ ''//'' @ b"
    proof (cases "ends_with c ''/''")
      case True
      then obtain t where t: "c = t @ ''/''" by (auto simp: ends_with_iff)
      then have "q = t" using q that True by (auto simp: strip_trailing_slash_def split: if_splits)
      then obtain u where "t = u @ ''/''" using e by (auto simp: ends_with_iff)
      then have "c = u @ ''//'' @ []" using t by simp
      then show ?thesis by blast
    next
      case False
      then have "q = c" using q that by (auto simp: strip_trailing_slash_def split: if_splits)
      then show ?thesis using False e by simp
    qed
    then show False using nd by blast
  qed
qed

lemma compile_normalized:
  assumes "compilePath (normalize_route_path p) = Inr (src, names)"
  shows "\<exists>ps. route_ok (new_route meth p owner handler src names) ps"
proof -
  obtain ps where ps: "wf_pats ps" "names = pat_names ps" "re_parse src = Some (map pat_tok ps)"
      "unparse ps = normalize_route_path p"
    using compilePath_pats [OF assms] normalized [OF refl, of p] by (auto simp: Let_def split: if_splits)
  then show ?thesis by (intro exI [of _ ps]) (simp add: route_ok_def new_route_def)
qed

lemma registry_inv_init: "registry_inv core_init"
  by (simp add: registry_inv_def core_init_def routes_of_def copies_of_def registry_of_def)

lemma registry_inv_getState: "registry_inv g \<Longrightarrow> registry_inv (getState copy g)"
  by (cases "g_counted g") (auto simp: registry_inv_def)

lemma registry_inv_step: "registry_inv g \<Longrightarrow> registry_inv (run_op g co)"
proof -
  assume inv: "registry_inv g"
  have same: "registry_inv h" if "registry_inv h'" "routes_of h = routes_of h'" "copies_of h = copies_of h'"
      "g_counted h = g_counted h'" "g_warned h = g_warned h'" for h h' :: "'a core_global"
    using that by (simp add: registry_inv_def)
  obtain copy op where co: "co = (copy, op)" by fastforce
  have st: "registry_inv (getState copy g)" by (rule registry_inv_getState [OF inv])
  show ?thesis
  proof (cases op)
    case (OpRegister meth path owner handler)
    obtain e g' where r: "registerRoute copy meth path owner handler g = (e, g')" by fastforce
    have "registry_inv g'" using register_cases [OF r]
    proof (elim disjE exE conjE)
      fix pattern names
      assume h: "compilePath (normalize_route_path path) = Inr (pattern, names)" "meth \<in> set VALID_METHODS"
        "normalize_route_path path \<noteq> ''/''" "\<not> reserved_path (normalize_route_path path)"
        "\<forall>r \<in> set (routes_of g). (route_method r, route_path r, route_owner r) \<noteq> (meth, normalize_route_path path, owner)"
        "routes_of g' = routes_of g @ [new_route meth path owner handler pattern names]"
        "copies_of g' = copies_of (getState copy g)" "g_counted g' = g_counted (getState copy g)"
        "g_warned g' = g_warned (getState copy g)"
      have "\<exists>ps. route_ok (new_route meth path owner handler pattern names) ps"
        by (rule compile_normalized [OF h(1)])
      moreover have "collapse_slashes (normalize_route_path path) = normalize_route_path path"
        by (rule normalized) (rule refl)
      moreover have "registry_inv (getState copy g)" by (rule st)
      ultimately show ?thesis using h(2-)
        unfolding registry_inv_def getState_sel(1)
        by (auto simp: new_route_def image_iff simp del: getState_sel(3-5))
    qed (use st in simp)
    then show ?thesis using co OpRegister r by simp
  next
    case OpClear
    then show ?thesis using st co by (auto simp: registry_inv_def simp del: getState_sel)
  qed (use st co in \<open>auto simp: lockRouteRegistry_def unlockRouteRegistry_def matchRoute_def
        getRegisteredRoutes_def getLoadedCoreCopies_def Let_def simp del: getState_sel(3-5) intro: same [OF st]\<close>)
qed

lemma registry_inv_run: "registry_inv g \<Longrightarrow> registry_inv (run_ops g ops)"
  by (induction ops arbitrary: g) (auto intro: registry_inv_step)

lemma route_ok_unparse:
  assumes "route_ok r ps" "wf_pats qs" "unparse qs = route_path r"
  shows "route_ok r qs"
proof -
  have "concat (map pat_regex qs) = concat (map pat_regex ps)" "pat_names qs = pat_names ps"
    using compile_complete [OF assms(2), of "[]" "[]" "[]"] compile_complete [of ps "[]" "[]" "[]"] assms
    by (simp_all add: route_ok_def)
  then show ?thesis using re_body_pats [OF assms(2)] re_body_pats [of ps] assms by (simp add: route_ok_def)
qed

lemma registry_route_ok:
  "registry_inv g \<Longrightarrow> r \<in> set (routes_of g) \<Longrightarrow> wf_pats qs \<Longrightarrow> unparse qs = route_path r \<Longrightarrow> route_ok r qs"
  unfolding registry_inv_def using route_ok_unparse by blast

text \<open>Whatever the copies of the package do to the shared table, in any order: every route in it is
  compiled from its own path, has a known method and a normalized path that is neither the root nor
  reserved for RPC, no two routes of one owner share method and path, and the copy counter is the
  number of distinct copies that took part, each reported once.\<close>

theorem registry_invariant: "registry_inv (run_ops core_init ops)"
  by (rule registry_inv_run) (rule registry_inv_init)

text \<open>Once the registry is locked, the table and the lock survive every operation of every copy
  except an unlock or a clear, and every attempt to register throws.\<close>

theorem locked_registry_frozen:
  assumes "reg_locked (registry_of g)" "\<forall>(c, op) \<in> set ops. op \<noteq> OpUnlock \<and> op \<noteq> OpClear"
  shows "routes_of (run_ops g ops) = routes_of g \<and> reg_locked (registry_of (run_ops g ops)) \<and>
    fst (registerRoute copy meth path owner handler (run_ops g ops)) \<noteq> None"
proof -
  have locked: "routes_of (run_ops g ops) = routes_of g \<and> reg_locked (registry_of (run_ops g ops))"
    using assms
  proof (induction ops arbitrary: g)
    case (Cons co ops)
    obtain c op where co: "co = (c, op)" by fastforce
    have "routes_of (run_op g co) = routes_of g \<and> reg_locked (registry_of (run_op g co))"
    proof (cases op)
      case (OpRegister meth path owner handler)
      obtain e g' where "registerRoute c meth path owner handler g = (e, g')" by fastforce
      with register_cases [OF this] Cons.prems(1) show ?thesis using co OpRegister by auto
    qed (use Cons.prems co in \<open>auto simp: lockRouteRegistry_def matchRoute_def getRegisteredRoutes_def
          getLoadedCoreCopies_def Let_def\<close>)
    then show ?case using Cons.IH [of "run_op g co"] Cons.prems by simp
  qed simp
  then show ?thesis by (simp add: registerRoute_def Let_def)
qed

lemma locked_registry_frozen_witness:
  "fst (registerRoute 1 ''GET'' ''/x'' None () (run_ops (lockRouteRegistry 0 core_init) [(0, OpMatch ''GET'' ''/x'')])) \<noteq> None"
proof -
  have "reg_locked (registry_of (lockRouteRegistry 0 (core_init :: unit core_global)))"
    by (simp add: lockRouteRegistry_def)
  from locked_registry_frozen [OF this, of "[(0, OpMatch ''GET'' ''/x'')]"] show ?thesis by simp
qed

text \<open>A match is right: in any state of the registry, the route found has the request's method, the
  path (collapsed, or without its trailing slash) is that route's pattern with its holes filled by
  the captures, and no earlier route of that method fits the path; when nothing is found no route
  of that method fits.\<close>

theorem match_sound:
  assumes "g = run_ops core_init ops"
  shows "case fst (matchRoute copy meth path g) of
      Some (route, params) \<Rightarrow>
        (\<exists>before after ps caps. routes_of g = before @ route # after \<and> route_method route = meth \<and>
           unparse ps = route_path route \<and> fits ps caps \<and> params = extractParams route caps \<and>
           (collapse_slashes path = fill ps caps \<or>
            (ends_with (collapse_slashes path) ''/'' \<and> butlast (collapse_slashes path) = fill ps caps)) \<and>
           (\<forall>r qs vs. r \<in> set before \<longrightarrow> route_method r = meth \<longrightarrow> wf_pats qs \<longrightarrow> unparse qs = route_path r \<longrightarrow>
              fits qs vs \<longrightarrow> collapse_slashes path \<noteq> fill qs vs))
    | None \<Rightarrow>
        (\<forall>r qs vs. r \<in> set (routes_of g) \<longrightarrow> route_method r = meth \<longrightarrow> wf_pats qs \<longrightarrow> unparse qs = route_path r \<longrightarrow>
           fits qs vs \<longrightarrow> collapse_slashes path \<noteq> fill qs vs)"
proof -
  let ?p = "collapse_slashes path"
  have inv: "registry_inv g" unfolding assms by (rule registry_inv_run) (rule registry_inv_init)
  have miss: "?p \<noteq> fill qs vs" if "r \<in> set (routes_of g)" "route_match r meth ?p = None"
      "route_method r = meth" "wf_pats qs" "unparse qs = route_path r" "fits qs vs" for r qs vs
    using route_match_None [OF registry_route_ok [OF inv that(1,4,5)] that(2,3,6)] .
  show ?thesis
  proof (cases "match_routes (routes_of g) meth ?p")
    case None
    have "route_match r meth ?p = None" if "r \<in> set (routes_of g)" for r
      using None that by (simp add: match_routes_None)
    then show ?thesis using None miss by (simp add: matchRoute_def Let_def)
  next
    case (Some rp)
    obtain route params where rp: "rp = (route, params)" by fastforce
    obtain before after caps where m: "routes_of g = before @ route # after"
        "\<forall>r \<in> set before. route_match r meth ?p = None"
        "route_match route meth ?p = Some caps" "params = extractParams route caps"
      using match_routes_Some [OF Some [unfolded rp]] by blast
    obtain ps where ps: "route_ok route ps" using inv m(1) unfolding registry_inv_def by auto
    have "unparse ps = route_path route" using ps by (simp add: route_ok_def)
    then show ?thesis using Some rp m route_match_Some [OF ps m(3)] miss
      by (simp add: matchRoute_def Let_def)
         (rule exI [of _ before], auto intro!: exI [of _ after] exI [of _ ps] exI [of _ caps])
  qed
qed

lemma match_sound_witness:
  "fst (matchRoute 0 ''GET'' ''/health/'' (run_ops core_init [(0, OpRegister ''GET'' ''/health'' None (7 :: nat))])) =
     Some (new_route ''GET'' ''/health'' None 7 ''^/health$'' [], []) \<and>
   (\<exists>ps. unparse ps = ''/health'')"
proof -
  have c: "compilePath ''/health'' = Inr (''^/health$'', [])"
    by (simp add: compilePath_def ends_with_def REGEX_SPECIAL_def)
  have l: "to_lower ''/health'' = ''/health''" by code_simp
  have "re_body (concat (map pat_regex (map PLit ''/health'')) @ ''$'') = Some (map pat_tok (map PLit ''/health''))"
    by (rule re_body_pats) simp
  then have re: "re_parse ''^/health$'' = Some (map TLit ''/health'')"
    by (simp add: REGEX_SPECIAL_def re_parse_def)
  have n: "normalize_route_path ''/health'' = ''/health''"
    by (simp add: normalize_route_path_def strip_trailing_slash_def ends_with_def)
  have "\<not> reserved_path ''/health''"
    by (simp add: reserved_path_def l BLOCKS_NAMESPACE_def BLOCKS_RPC_PREFIX_def)
  then have "routes_of (run_ops core_init [(0, OpRegister ''GET'' ''/health'' None (7 :: nat))]) =
      [new_route ''GET'' ''/health'' None 7 ''^/health$'' []]"
    by (simp add: registerRoute_def Let_def core_init_def getState_def registry_of_def routes_of_def n c
        VALID_METHODS_def new_route_def)
  then have rs: "routes_of (getState 0 (run_ops core_init [(0, OpRegister ''GET'' ''/health'' None (7 :: nat))])) =
      [new_route ''GET'' ''/health'' None 7 ''^/health$'' []]"
    unfolding getState_sel .
  have x: "pattern_exec ''^/health$'' s = (if s = ''/health'' then Some [] else None)" for s
    unfolding pattern_exec_def re option.case by (rule re_exec_lits)
  have "route_match (new_route ''GET'' ''/health'' None (7 :: nat) ''^/health$'' []) ''GET'' ''/health/'' = Some []"
    by (simp add: route_match_def new_route_def x ends_with_def)
  then have m: "fst (matchRoute 0 ''GET'' ''/health/'' (run_ops core_init [(0, OpRegister ''GET'' ''/health'' None (7 :: nat))])) =
     Some (new_route ''GET'' ''/health'' None 7 ''^/health$'' [], [])"
    unfolding matchRoute_def Let_def rs by (simp add: extractParams_def)
  show ?thesis
    using match_sound [OF refl, where ops = "[(0, OpRegister ''GET'' ''/health'' None (7 :: nat))]" and copy = 0
        and meth = "''GET''" and path = "''/health/''", unfolded m] m
    by (auto simp: new_route_def normalize_route_path_def strip_trailing_slash_def ends_with_def)
qed

section \<open>Parameters survive the URL\<close>

text \<open>The URL a caller builds: parameters percent-encoded, a wildcard as it is.\<close>

fun encode_holes :: "pat list \<Rightarrow> string list \<Rightarrow> string list" where
  "encode_holes (PLit c # ps) vs = encode_holes ps vs"
| "encode_holes (PParam n # ps) (v # vs) = encode_uri v # encode_holes ps vs"
| "encode_holes (PWild # ps) (v # vs) = v # encode_holes ps vs"
| "encode_holes _ _ = []"

fun holes_ok :: "pat list \<Rightarrow> string list \<Rightarrow> bool" where
  "holes_ok [] vs = (vs = [])"
| "holes_ok (PLit c # ps) vs = holes_ok ps vs"
| "holes_ok (PParam n # ps) vs = (\<exists>v us. vs = v # us \<and> v \<noteq> [] \<and> ascii v \<and> holes_ok ps us)"
| "holes_ok (PWild # ps) vs = (\<exists>v us. vs = v # us \<and> (\<forall>c \<in> set v. \<not> line_end c) \<and> holes_ok ps us)"

lemma fits_encode: "holes_ok ps vs \<Longrightarrow> fits ps (encode_holes ps vs)"
  by (induction ps vs rule: holes_ok.induct) (auto simp: encode_uri_no_slash)

lemma obj_get_zip_fresh: "n \<notin> set ns \<Longrightarrow> obj_get (zip ns vs) n = None"
  unfolding obj_get_def map_of_eq_None_iff by (auto dest: set_zip_leftD)

lemma extract_holes:
  "holes_ok ps vs \<Longrightarrow> wf_pats ps \<Longrightarrow> distinct (pat_names ps) \<Longrightarrow>
   obj_get (foldl extract_param acc (zip (pat_names ps) (encode_holes ps vs))) n =
     (case obj_get (zip (pat_names ps) vs) n of Some v \<Rightarrow> Some v | None \<Rightarrow> obj_get acc n)"
proof (induction ps arbitrary: acc vs)
  case (Cons p ps)
  show ?case
  proof (cases p)
    case (PLit c)
    then show ?thesis using Cons by simp
  next
    case (PParam m)
    obtain v us where vs: "vs = v # us" "ascii v" "holes_ok ps us" using Cons.prems(1) PParam by auto
    have m: "m \<noteq> ''*''" "m \<notin> set (pat_names ps)"
      using Cons.prems(2,3) PParam param_name_no_brace by auto
    have "wf_pats ps" "distinct (pat_names ps)" using Cons.prems PParam by auto
    from Cons.IH [OF vs(3) this, of "obj_set m v acc"] show ?thesis
      using m PParam vs by (auto simp: extract_param_def decode_encode_uri obj_get_zip_fresh split: option.splits)
  next
    case PWild
    then show ?thesis using Cons.prems by (auto simp: extract_param_def)
  qed
qed simp

text \<open>A URL built from a registered pattern by percent-encoding a value into every \<open>{param}\<close>
  segment is dispatched to that route, and the handler gets exactly those values back, unless an
  earlier route of the same method matches first.\<close>

theorem route_params_roundtrip:
  assumes "g = run_ops core_init ops" "registerRoute copy meth (unparse ps) owner handler g = (None, g')"
    and "normalize_route_path (unparse ps) = unparse ps" "wf_pats ps" "aligned ps" "distinct (pat_names ps)"
    and "holes_ok ps vs" "collapse_slashes (fill ps (encode_holes ps vs)) = fill ps (encode_holes ps vs)"
    and "\<forall>r \<in> set (routes_of g). route_match r meth (fill ps (encode_holes ps vs)) = None"
  shows "\<exists>route params. fst (matchRoute copy' meth (fill ps (encode_holes ps vs)) g') = Some (route, params) \<and>
    route_handler route = handler \<and> (\<forall>n. obj_get params n = obj_get (zip (pat_names ps) vs) n)"
proof -
  obtain pattern names where r: "compilePath (normalize_route_path (unparse ps)) = Inr (pattern, names)"
      "routes_of g' = routes_of g @ [new_route meth (unparse ps) owner handler pattern names]"
    using register_cases [OF assms(2)] by auto
  let ?r = "new_route meth (unparse ps) owner handler pattern names"
  let ?s = "fill ps (encode_holes ps vs)"
  obtain qs where "route_ok ?r qs" using compile_normalized [OF r(1), of meth owner handler] by blast
  then have ok: "route_ok ?r ps"
    by (rule route_ok_unparse [OF _ assms(4)]) (simp add: new_route_def assms(3))
  have fits: "fits ps (encode_holes ps vs)" by (rule fits_encode [OF assms(7)])
  have re: "re_parse (route_pattern ?r) = Some (map pat_tok ps)" using ok by (simp add: route_ok_def)
  obtain caps where caps: "pattern_exec (route_pattern ?r) ?s = Some caps"
    using pattern_exec_fill(2) [OF re, of ?s] fits by auto
  then have "caps = encode_holes ps vs"
    using pattern_exec_fill(1) [OF re caps] fits fill_inject [OF assms(5)] by metis
  then have "route_match ?r meth ?s = Some (encode_holes ps vs)"
    using caps by (simp add: route_match_def new_route_def)
  then have "match_routes (routes_of g') meth ?s = Some (?r, extractParams ?r (encode_holes ps vs))"
    unfolding r(2) by (rule match_routes_first [OF assms(9)])
  moreover have "obj_get (extractParams ?r (encode_holes ps vs)) n = obj_get (zip (pat_names ps) vs) n" for n
    using extract_holes [OF assms(7,4,6), of "[]" n] ok
    by (simp add: extractParams_def route_ok_def split: option.splits)
  ultimately show ?thesis
    by (simp add: matchRoute_def Let_def assms(8)) (simp add: new_route_def)
qed

lemma route_params_roundtrip_witness:
  "\<exists>g' route params. registerRoute 0 ''GET'' ''/u/{id}'' None (7 :: nat) core_init = (None, g') \<and>
     fst (matchRoute 0 ''GET'' ''/u/a%2Fb'' g') = Some (route, params) \<and> obj_get params ''id'' = Some ''a/b''"
proof -
  let ?ps = "[PLit (CHR ''/''), PLit (CHR ''u''), PLit (CHR ''/''), PParam ''id'']"
  have wf: "wf_pats ?ps"
    by (simp add: is_param_name_def ident_start_def char_code_def BLOCKED_PARAM_NAMES_def)
  have u: "unparse ?ps = ''/u/{id}''" by (simp add: unparse_def)
  have n: "normalize_route_path ''/u/{id}'' = ''/u/{id}''"
    by (simp add: normalize_route_path_def strip_trailing_slash_def ends_with_def)
  have "to_lower ''/u/{id}'' = ''/u/{id}''" by code_simp
  then have nr: "\<not> reserved_path ''/u/{id}''"
    by (simp add: reserved_path_def BLOCKS_NAMESPACE_def BLOCKS_RPC_PREFIX_def)
  have "\<exists>x. compilePath ''/u/{id}'' = Inr x"
    using compile_complete [OF wf, of "''/u/{id}''" "[]" "[]"] by (simp add: u compilePath_def ends_with_def)
  then obtain g' where reg: "registerRoute 0 ''GET'' (unparse ?ps) None (7 :: nat) (run_ops core_init []) = (None, g')"
    by (auto simp: u registerRoute_def Let_def core_init_def getState_def registry_of_def routes_of_def n nr VALID_METHODS_def)
  have e: "encode_holes ?ps [''a/b''] = [''a%2Fb'']"
    by code_simp
  have h: "holes_ok ?ps [''a/b'']" by (simp add: ascii_def char_code_def)
  have "\<exists>route params. fst (matchRoute 0 ''GET'' (fill ?ps (encode_holes ?ps [''a/b''])) g') = Some (route, params) \<and>
      route_handler route = 7 \<and> (\<forall>n. obj_get params n = obj_get (zip (pat_names ?ps) [''a/b'']) n)"
    by (rule route_params_roundtrip [OF refl reg _ wf _ _ h])
       (simp_all only: u n e, simp_all add: core_init_def routes_of_def registry_of_def)
  moreover have "fill ?ps (encode_holes ?ps [''a/b'']) = ''/u/a%2Fb''" unfolding e by simp
  ultimately show ?thesis using reg unfolding u by auto
qed

section \<open>Derived paths\<close>

text \<open>The ids from the root down to a scope.\<close>

fun scope_chain :: "scope_node \<Rightarrow> string list" where
  "scope_chain (ScopeNode i None) = [i]"
| "scope_chain (ScopeNode i (Some p)) = scope_chain p @ [i]"

lemma scope_chain_nonempty [simp]: "scope_chain s \<noteq> []"
  by (cases s rule: scope_chain.cases) auto

lemma derive_segments_chain: "derive_segments s = map encode_uri (drop 2 (scope_chain s))"
proof (induction s rule: derive_segments.induct)
  case (3 i j q)
  have "scope_chain q \<noteq> []" by simp
  then consider "length (scope_chain q) = 1" | "length (scope_chain q) \<ge> 2"
    by (cases "scope_chain q" rule: list.exhaust) (auto simp: Suc_le_eq)
  then show ?case using 3 by cases auto
qed auto

text \<open>A path derived from the scope chain names exactly the scopes below the root-level scope and
  then the route: splitting it at the slashes and percent-decoding gives those ids back, whatever
  (ASCII) characters they hold, slashes included.\<close>

theorem derived_path_roundtrip:
  assumes "\<forall>j \<in> set (drop 2 (scope_chain scope)). ascii j" "ascii i"
  shows "map decode_uri (split_on (CHR ''/'') (derivePathFromScope scope i)) =
    map Some ([] # drop 2 (scope_chain scope) @ [i])"
proof -
  let ?ids = "drop 2 (scope_chain scope) @ [i]"
  have "derivePathFromScope scope i = [] @ CHR ''/'' # join ''/'' (map encode_uri ?ids)"
    by (simp add: derivePathFromScope_def derive_segments_chain)
  moreover have "split_on (CHR ''/'') (join ''/'' (map encode_uri ?ids)) = map encode_uri ?ids"
    by (rule split_on_join) (auto simp: encode_uri_no_slash)
  ultimately have "split_on (CHR ''/'') (derivePathFromScope scope i) = [] # map encode_uri ?ids"
    by (simp only: split_on.simps append_Nil simp_thms if_True)
  moreover have "map decode_uri (map encode_uri ?ids) = map Some ?ids"
    using assms by (auto simp: decode_encode_uri)
  ultimately show ?thesis by simp
qed

lemma derived_path_roundtrip_witness:
  "map decode_uri (split_on (CHR ''/'') (derivePathFromScope
     (ScopeNode ''a/b'' (Some (ScopeNode ''app'' (Some (ScopeNode ''root'' None))))) ''x y'')) =
   [Some [], Some ''a/b'', Some ''x y'']"
  using derived_path_roundtrip [of "ScopeNode ''a/b'' (Some (ScopeNode ''app'' (Some (ScopeNode ''root'' None))))" "''x y''"]
  by (simp add: ascii_def char_code_def)

end
