(* ===== verification/SetCookie.thy ===== *)
theory SetCookie
  imports Prelude
begin

text \<open>
  \<^verbatim>\<open>packages/core/src/set-cookie.ts\<close>: which \<open>Set-Cookie\<close> values an RPC error response
  may carry.  Times are integers (milliseconds since the epoch); the calendar functions are those
  of ECMAScript.  \<open>Date.parse\<close>, whose free-form formats the standard leaves to the engine, is a
  parameter (\<open>None\<close> is NaN).
\<close>

section \<open>The ECMAScript calendar\<close>

definition day_from_year :: "int \<Rightarrow> int" where
  "day_from_year y = 365 * (y - 1970) + (y - 1969) div 4 - (y - 1901) div 100 + (y - 1601) div 400"

definition leap_year :: "int \<Rightarrow> bool" where
  "leap_year y = (4 dvd y \<and> (\<not> 100 dvd y \<or> 400 dvd y))"

text \<open>The first day of a month (0 to 11) within its year.\<close>

definition month_starts :: "bool \<Rightarrow> int list" where
  "month_starts leap =
     (if leap then [0, 31, 60, 91, 121, 152, 182, 213, 244, 274, 305, 335, 366]
      else [0, 31, 59, 90, 120, 151, 181, 212, 243, 273, 304, 334, 365])"

definition month_start :: "int \<Rightarrow> nat \<Rightarrow> int" where
  "month_start y m = month_starts (leap_year y) ! m"

text \<open>The number of a day; a day outside the month rolls over.\<close>

definition make_day :: "int \<Rightarrow> nat \<Rightarrow> int \<Rightarrow> int" where
  "make_day y m d = day_from_year y + month_start y m + d - 1"

text \<open>The greatest year that starts on or before a day; two steps from the estimate suffice.\<close>

definition year_from_day :: "int \<Rightarrow> int" where
  "year_from_day n =
     (let e = 1970 + (400 * n) div 146097 - 1 in
      if day_from_year (e + 2) \<le> n then e + 2 else if day_from_year (e + 1) \<le> n then e + 1 else e)"

fun month_of :: "int list \<Rightarrow> int \<Rightarrow> nat" where
  "month_of (a # b # r) n = (if n < b then 0 else Suc (month_of (b # r) n))"
| "month_of _ n = 0"

definition utc_date :: "int \<Rightarrow> int \<times> nat \<times> int" where
  "utc_date ms =
     (let n = ms div 86400000; y = year_from_day n; k = n - day_from_year y;
          m = month_of (month_starts (leap_year y)) k
      in (y, m, k - month_start y m + 1))"

text \<open>\<open>Date.UTC\<close>: a year from 0 to 99 is taken to be in the twentieth century.\<close>

definition date_utc :: "int \<Rightarrow> nat \<Rightarrow> int \<Rightarrow> int \<Rightarrow> int \<Rightarrow> int \<Rightarrow> int" where
  "date_utc year month day hour minute second =
     ((make_day (if 0 \<le> year \<and> year \<le> 99 then 1900 + year else year) month day * 24 + hour) * 3600 +
      minute * 60 + second) * 1000"

section \<open>Reading an expiry date\<close>

definition MONTHS :: "string list" where
  "MONTHS = [''Jan'', ''Feb'', ''Mar'', ''Apr'', ''May'', ''Jun'', ''Jul'', ''Aug'', ''Sep'', ''Oct'', ''Nov'', ''Dec'']"

definition DAY_NAMES :: "string list" where
  "DAY_NAMES = [''Mon'', ''Tue'', ''Wed'', ''Thu'', ''Fri'', ''Sat'', ''Sun'']"

fun list_index :: "'a list \<Rightarrow> 'a \<Rightarrow> nat option" where
  "list_index [] x = None"
| "list_index (y # ys) x = (if y = x then Some 0 else map_option Suc (list_index ys x))"

definition sub :: "string \<Rightarrow> nat \<Rightarrow> nat \<Rightarrow> string" where
  "sub s i n = take n (drop i s)"

definition digits :: "string \<Rightarrow> bool" where
  "digits s = list_all is_digit s"

definition read_num :: "string \<Rightarrow> int" where
  "read_num s = int (read_nat s)"

definition month_shape :: "string \<Rightarrow> bool" where
  "month_shape s =
     (case s of
        [a, b, c] \<Rightarrow> 65 \<le> char_code a \<and> char_code a \<le> 90 \<and> 97 \<le> char_code b \<and> char_code b \<le> 122 \<and>
          97 \<le> char_code c \<and> char_code c \<le> 122
      | _ \<Rightarrow> False)"

text \<open>The captures of \<open>IMF_FIXDATE\<close>: day, month name, year, hour, minute, second.\<close>

definition IMF_FIXDATE :: "string \<Rightarrow> (string \<times> string \<times> string \<times> string \<times> string \<times> string) option" where
  "IMF_FIXDATE v =
     (if length v = 29 \<and> sub v 0 3 \<in> set DAY_NAMES \<and> sub v 3 2 = '', '' \<and> digits (sub v 5 2) \<and> sub v 7 1 = '' '' \<and>
         month_shape (sub v 8 3) \<and>
         sub v 11 1 = '' '' \<and> digits (sub v 12 4) \<and> sub v 16 1 = '' '' \<and> digits (sub v 17 2) \<and> sub v 19 1 = '':'' \<and>
         digits (sub v 20 2) \<and> sub v 22 1 = '':'' \<and> digits (sub v 23 2) \<and> sub v 25 4 = '' GMT''
      then Some (sub v 5 2, sub v 8 3, sub v 12 4, sub v 17 2, sub v 20 2, sub v 23 2)
      else None)"

definition parseImfFixdate :: "string \<Rightarrow> int option" where
  "parseImfFixdate value =
     (case IMF_FIXDATE value of
        None \<Rightarrow> None
      | Some (dd, mon, yyyy, hh, mm, ss) \<Rightarrow>
          (let day = read_num dd; year = read_num yyyy; hour = read_num hh;
               minute = read_num mm; second = read_num ss in
           case list_index MONTHS mon of
             None \<Rightarrow> None
           | Some month \<Rightarrow>
               if hour > 23 \<or> minute > 59 \<or> second > 59 then None
               else (let ms = date_utc year month day hour minute second in
                     if utc_date ms \<noteq> (year, month, day) then None else Some ms)))"

definition MONTH_PREFIXES :: "string list" where
  "MONTH_PREFIXES = [''jan'', ''feb'', ''mar'', ''apr'', ''may'', ''jun'', ''jul'', ''aug'', ''sep'', ''oct'', ''nov'', ''dec'']"

definition date_delimiter :: "char \<Rightarrow> bool" where
  "date_delimiter c =
     (let n = char_code c in n = 9 \<or> (32 \<le> n \<and> n \<le> 47) \<or> (59 \<le> n \<and> n \<le> 64) \<or> (91 \<le> n \<and> n \<le> 96) \<or> (123 \<le> n \<and> n \<le> 126))"

fun tokens_of :: "string \<Rightarrow> string list" where
  "tokens_of [] = [[]]"
| "tokens_of (c # s) =
     (if date_delimiter c then [] # tokens_of s
      else (case tokens_of s of [] \<Rightarrow> [[c]] | t # ts \<Rightarrow> (c # t) # ts))"

text \<open>\<open>(\d{lo,hi})(?:\D|$)\<close> at the front: the digits.\<close>

definition digit_run :: "nat \<Rightarrow> nat \<Rightarrow> string \<Rightarrow> string option" where
  "digit_run lo hi s =
     (let ds = takeWhile is_digit s in if lo \<le> length ds \<and> length ds \<le> hi then Some ds else None)"

definition after_colon :: "string \<Rightarrow> string option" where
  "after_colon s = (case dropWhile is_digit s of c # r \<Rightarrow> if c = CHR '':'' then Some r else None | [] \<Rightarrow> None)"

definition time_token :: "string \<Rightarrow> (int \<times> int \<times> int) option" where
  "time_token t =
     (case (digit_run 1 2 t, after_colon t) of
        (Some h, Some r) \<Rightarrow>
          (case (digit_run 1 2 r, after_colon r) of
             (Some m, Some q) \<Rightarrow>
               (case digit_run 1 2 q of
                  Some s \<Rightarrow> Some (read_num h, read_num m, read_num s)
                | None \<Rightarrow> None)
           | _ \<Rightarrow> None)
      | _ \<Rightarrow> None)"

record date_parts =
  dp_time :: "(int \<times> int \<times> int) option"
  dp_day :: "int option"
  dp_month :: "nat option"
  dp_year :: "int option"

text \<open>One turn of the loop over the tokens.\<close>

definition date_token :: "date_parts \<Rightarrow> string \<Rightarrow> date_parts" where
  "date_token p token =
     (case (if dp_time p = None then time_token token else None) of
        Some t \<Rightarrow> p\<lparr>dp_time := Some t\<rparr>
      | None \<Rightarrow>
     (case (if dp_day p = None then digit_run 1 2 token else None) of
        Some d \<Rightarrow> p\<lparr>dp_day := Some (read_num d)\<rparr>
      | None \<Rightarrow>
     (case (if dp_month p = None then list_index MONTH_PREFIXES (to_lower (take 3 token)) else None) of
        Some m \<Rightarrow> p\<lparr>dp_month := Some m\<rparr>
      | None \<Rightarrow>
     (case (if dp_year p = None then digit_run 2 4 token else None) of
        Some y \<Rightarrow> p\<lparr>dp_year := Some (read_num y)\<rparr>
      | None \<Rightarrow> p))))"

definition no_date_parts :: date_parts where
  "no_date_parts = \<lparr>dp_time = None, dp_day = None, dp_month = None, dp_year = None\<rparr>"

definition parseCookieDate :: "string \<Rightarrow> int option" where
  "parseCookieDate value =
     (let tokens = filter (\<lambda>t. t \<noteq> []) (tokens_of value);
          p = foldl date_token no_date_parts tokens in
      case (dp_time p, dp_day p, dp_month p, dp_year p) of
        (Some (hour, minute, second), Some day, Some month, Some year0) \<Rightarrow>
          (let year = (if year0 \<ge> 70 \<and> year0 \<le> 99 then year0 + 1900
                       else if year0 \<ge> 0 \<and> year0 \<le> 69 then year0 + 2000 else year0) in
           if day < 1 \<or> day > 31 \<or> year < 1601 \<or> hour > 23 \<or> minute > 59 \<or> second > 59 then None
           else (let ms = date_utc year month day hour minute second in
                 if snd (snd (utc_date ms)) \<noteq> day then None else Some ms))
      | _ \<Rightarrow> None)"

section \<open>Deletions\<close>

definition strict_max_age :: "string \<Rightarrow> int option" where
  "strict_max_age v =
     (case v of
        [] \<Rightarrow> None
      | c # r \<Rightarrow>
          if c = CHR ''-'' then (if r \<noteq> [] \<and> digits r then Some (- read_num r) else None)
          else if digits v then Some (read_num v) else None)"

definition lenient_max_age :: "string \<Rightarrow> int option" where
  "lenient_max_age v =
     (let (neg, r) = (case v of c # r \<Rightarrow> if c = CHR ''-'' then (True, r) else if c = CHR ''+'' then (False, r) else (False, v)
                      | [] \<Rightarrow> (False, v));
          ds = takeWhile is_digit r
      in if ds = [] then None else Some (if neg then - read_num ds else read_num ds))"

definition MAX_AGE_READINGS :: "(string \<Rightarrow> int option) list" where
  "MAX_AGE_READINGS = [strict_max_age, lenient_max_age]"

definition EXPIRES_READINGS :: "(string \<Rightarrow> int option) \<Rightarrow> (string \<Rightarrow> int option) list" where
  "EXPIRES_READINGS date_parse = [parseImfFixdate, parseCookieDate, date_parse]"

text \<open>The \<open>Max-Age\<close> and \<open>Expires\<close> attributes, in order.\<close>

definition cookie_attribute :: "string \<Rightarrow> string \<times> string" where
  "cookie_attribute raw =
     (case index_of (CHR ''='') raw of
        None \<Rightarrow> (to_lower (trim raw), [])
      | Some eq \<Rightarrow> (to_lower (trim (take eq raw)), trim (drop (eq + 1) raw)))"

definition cookie_attributes :: "string \<Rightarrow> (string \<times> string) list" where
  "cookie_attributes setCookie =
     filter (\<lambda>(name, value). name = ''max-age'' \<or> name = ''expires'')
       (map cookie_attribute (tl (split_on (CHR '';'') setCookie)))"

text \<open>One turn of the inner loop: the last value a reading accepts is kept.\<close>

definition read_attribute ::
  "(string \<Rightarrow> int option) \<Rightarrow> (string \<Rightarrow> int option) \<Rightarrow> int option \<times> int option \<Rightarrow> string \<times> string \<Rightarrow> int option \<times> int option" where
  "read_attribute readMaxAge readExpires st attr =
     (let (maxAge, expires) = st; (name, value) = attr;
          parsed = (if name = ''max-age'' then readMaxAge value else readExpires value)
      in case parsed of
           None \<Rightarrow> (maxAge, expires)
         | Some n \<Rightarrow> if name = ''max-age'' then (Some n, expires) else (maxAge, Some n))"

definition reading_deletes :: "int \<Rightarrow> (string \<times> string) list \<Rightarrow> (string \<Rightarrow> int option) \<Rightarrow> (string \<Rightarrow> int option) \<Rightarrow> bool" where
  "reading_deletes now attributes readMaxAge readExpires =
     (case foldl (read_attribute readMaxAge readExpires) (None, None) attributes of
        (Some maxAge, _) \<Rightarrow> maxAge \<le> 0
      | (None, Some expires) \<Rightarrow> expires \<le> now
      | (None, None) \<Rightarrow> False)"

definition isCookieDeletion :: "(string \<Rightarrow> int option) \<Rightarrow> string \<Rightarrow> int \<Rightarrow> bool" where
  "isCookieDeletion date_parse setCookie now =
     (let attributes = cookie_attributes setCookie in
      list_all (\<lambda>readMaxAge. list_all (\<lambda>readExpires. reading_deletes now attributes readMaxAge readExpires)
        (EXPIRES_READINGS date_parse)) MAX_AGE_READINGS)"

definition errorResponseSetCookies :: "(string \<Rightarrow> int option) \<Rightarrow> string list option \<Rightarrow> int \<Rightarrow> string list" where
  "errorResponseSetCookies date_parse set_cookies now =
     filter (\<lambda>c. isCookieDeletion date_parse c now) (opt_or set_cookies [])"

section \<open>The calendar functions are inverse\<close>

definition year_length :: "int \<Rightarrow> int" where
  "year_length y = (if leap_year y then 366 else 365)"

definition month_length :: "int \<Rightarrow> nat \<Rightarrow> int" where
  "month_length y m = month_start y (Suc m) - month_start y m"

definition valid_date :: "int \<Rightarrow> nat \<Rightarrow> int \<Rightarrow> bool" where
  "valid_date y m d = (m < 12 \<and> 1 \<le> d \<and> d \<le> month_length y m)"

lemma div_succ:
  fixes a k :: int
  assumes "k > 0"
  shows "(a + 1) div k = a div k + (if k dvd a + 1 then 1 else 0)"
proof -
  have a: "a = k * (a div k) + a mod k" by simp
  have r: "0 \<le> a mod k" "a mod k < k" using assms by simp_all
  show ?thesis
  proof (cases "a mod k + 1 = k")
    case True
    then have "a + 1 = k * (a div k + 1)" using a unfolding distrib_left by linarith
    then show ?thesis using assms by simp
  next
    case False
    have e: "a + 1 = k * (a div k) + (a mod k + 1)" using a by linarith
    have "(a + 1) div k = a div k" by (rule int_div_pos_eq [OF e]) (use r False in linarith)+
    moreover have "(a + 1) mod k = a mod k + 1" by (rule int_mod_pos_eq [OF e]) (use r False in linarith)+
    ultimately show ?thesis using r by (simp add: dvd_eq_mod_eq_0)
  qed
qed

lemma day_from_year_Suc: "day_from_year (y + 1) = day_from_year y + year_length y"
proof -
  have shift: "(y + 1 - c) div k = (y - c) div k + (if k dvd y then 1 else 0)"
    if "k > 0" "k dvd c - 1" for c k :: int
    using div_succ [OF that(1), of "y - c"] dvd_diff_left_iff [OF that(2), of y]
    by (simp add: algebra_simps)
  have leap: "365 * (y + 1 - 1970) + (a + (if p then 1 else 0)) - (b + (if q then 1 else 0)) + (c + (if r then 1 else 0)) =
      365 * (y - 1970) + a - b + c + (if p \<and> (\<not> q \<or> r) then 366 else 365)"
    if "q \<Longrightarrow> p" "r \<Longrightarrow> q" for a b c :: int and p q r
    using that by (cases p; cases q; cases r; simp add: algebra_simps)
  have "(4 :: int) dvd 100" "(100 :: int) dvd 400" by simp_all
  then have d: "100 dvd y \<Longrightarrow> 4 dvd y" "400 dvd y \<Longrightarrow> 100 dvd y" using dvd_trans by blast+
  have s: "(y + 1 - 1969) div 4 = (y - 1969) div 4 + (if 4 dvd y then 1 else 0)"
    "(y + 1 - 1901) div 100 = (y - 1901) div 100 + (if 100 dvd y then 1 else 0)"
    "(y + 1 - 1601) div 400 = (y - 1601) div 400 + (if 400 dvd y then 1 else 0)"
    by (rule shift, simp, simp)+
  show ?thesis
    unfolding day_from_year_def year_length_def leap_year_def s by (rule leap [OF d])
qed

lemma day_from_year_bounds:
  "400 * day_from_year y \<le> 146097 * (y - 1970) + 600 \<and> 400 * day_from_year y \<ge> 146097 * (y - 1970) - 600"
proof -
  have arith: "400 * (365 * (y - 1970) + a - b + c) \<le> 146097 * (y - 1970) + 600 \<and>
      400 * (365 * (y - 1970) + a - b + c) \<ge> 146097 * (y - 1970) - 600"
    if "4 * a + a' = y - 1969" "100 * b + b' = y - 1901" "400 * c + c' = y - 1601"
      "0 \<le> a'" "a' < 4" "0 \<le> b'" "b' < 100" "0 \<le> c'" "c' < 400" for a b c a' b' c' :: int
    using that by (simp add: algebra_simps)
  show ?thesis unfolding day_from_year_def
    by (rule arith [of _ "(y - 1969) mod 4" _ "(y - 1901) mod 100" _ "(y - 1601) mod 400"]) simp_all
qed

lemma year_from_day_correct:
  "day_from_year (year_from_day n) \<le> n \<and> n < day_from_year (year_from_day n + 1)"
proof -
  define e where "e = 1970 + (400 * n) div 146097 - 1"
  have "146097 * ((400 * n) div 146097) + (400 * n) mod 146097 = 400 * n" by (rule mult_div_mod_eq)
  moreover have "0 \<le> (400 * n) mod 146097" "(400 * n) mod 146097 < 146097" by simp_all
  ultimately have q: "146097 * (e - 1969) \<le> 400 * n" "400 * n < 146097 * (e - 1968)" by (simp_all add: e_def)
  have lo: "day_from_year e \<le> n" using conjunct1 [OF day_from_year_bounds [of e]] q by simp
  have hi: "n < day_from_year (e + 3)" using conjunct2 [OF day_from_year_bounds [of "e + 3"]] q by simp
  show ?thesis
    using lo hi unfolding year_from_day_def Let_def e_def [symmetric] by (auto simp: add.assoc)
qed

lemma day_from_year_mono: "y \<le> z \<Longrightarrow> day_from_year y \<le> day_from_year z"
proof (induction "nat (z - y)" arbitrary: z)
  case (Suc k)
  have "day_from_year y \<le> day_from_year (z - 1)" using Suc by (intro Suc(1)) auto
  then show ?case using day_from_year_Suc [of "z - 1"] by (simp add: year_length_def split: if_splits)
qed simp

lemma year_from_day_eq:
  assumes "day_from_year y \<le> n" "n < day_from_year (y + 1)"
  shows "year_from_day n = y"
proof -
  have "\<not> y + 1 \<le> year_from_day n"
    using day_from_year_mono [of "y + 1" "year_from_day n"] year_from_day_correct [of n] assms by linarith
  moreover have "\<not> year_from_day n + 1 \<le> y"
    using day_from_year_mono [of "year_from_day n + 1" y] year_from_day_correct [of n] assms by linarith
  ultimately show ?thesis by simp
qed

lemma less_12: "m < 12 \<longleftrightarrow> m \<in> {0, 1, 2, 3, 4, 5, 6, 7, 8, 9, 10, 11 :: nat}"
  unfolding insert_iff empty_iff by presburger

lemma month_of_start:
  assumes "m < 12" "month_start y m \<le> k" "k < month_start y (Suc m)"
  shows "month_of (month_starts (leap_year y)) k = m"
  using assms unfolding less_12 month_start_def month_starts_def
  by (cases "leap_year y") (elim insertE emptyE; simp)+

lemma month_of_bracket:
  "xs \<noteq> [] \<Longrightarrow> hd xs \<le> n \<Longrightarrow> n < last xs \<Longrightarrow>
   Suc (month_of xs n) < length xs \<and> xs ! month_of xs n \<le> n \<and> n < xs ! Suc (month_of xs n)"
  by (induction xs n rule: month_of.induct) auto

lemma month_of_valid:
  assumes "0 \<le> k" "k < year_length y"
  shows "month_of (month_starts (leap_year y)) k < 12"
    and "month_start y (month_of (month_starts (leap_year y)) k) \<le> k"
    and "k < month_start y (Suc (month_of (month_starts (leap_year y)) k))"
proof -
  have h: "month_starts (leap_year y) \<noteq> []" "hd (month_starts (leap_year y)) = 0"
    "last (month_starts (leap_year y)) = year_length y" "length (month_starts (leap_year y)) = 13"
    by (simp_all add: month_starts_def year_length_def)
  show "month_of (month_starts (leap_year y)) k < 12"
    "month_start y (month_of (month_starts (leap_year y)) k) \<le> k"
    "k < month_start y (Suc (month_of (month_starts (leap_year y)) k))"
    using month_of_bracket [OF h(1), of k] assms unfolding h(2,3,4) month_start_def by simp_all
qed

lemma month_end: "m < 12 \<Longrightarrow> 0 \<le> month_start y m \<and> month_start y (Suc m) \<le> year_length y"
  unfolding less_12 month_start_def month_starts_def year_length_def
  by (cases "leap_year y") (auto simp: numeral_eq_Suc)

lemma utc_date_valid: "utc_date ms = (y, m, d) \<Longrightarrow> valid_date y m d"
proof -
  assume h: "utc_date ms = (y, m, d)"
  define n where "n = ms div 86400000"
  define Y where "Y = year_from_day n"
  have "0 \<le> n - day_from_year Y" "n - day_from_year Y < year_length Y"
    using year_from_day_correct [of n] day_from_year_Suc [of Y] by (auto simp: Y_def)
  from month_of_valid [OF this] h show ?thesis
    unfolding utc_date_def Let_def n_def [symmetric] Y_def [symmetric]
    by (auto simp: valid_date_def month_length_def)
qed

lemma day_of_time:
  fixes n h mi s :: int
  assumes "0 \<le> h" "h < 24" "0 \<le> mi" "mi < 60" "0 \<le> s" "s < 60"
  shows "(((n * 24 + h) * 3600 + mi * 60 + s) * 1000) div 86400000 = n"
proof (rule int_div_pos_eq)
  show "((n * 24 + h) * 3600 + mi * 60 + s) * 1000 = 86400000 * n + (h * 3600 + mi * 60 + s) * 1000" by simp
qed (use assms in simp_all)

lemma utc_date_make_day:
  assumes "valid_date y m d"
  shows "year_from_day (make_day y m d) = y"
    and "month_of (month_starts (leap_year y)) (make_day y m d - day_from_year y) = m"
proof -
  have v: "m < 12" "1 \<le> d" "d \<le> month_start y (Suc m) - month_start y m"
    using assms by (auto simp: valid_date_def month_length_def)
  then have b: "0 \<le> month_start y m" "month_start y (Suc m) \<le> year_length y" using month_end by blast+
  show "year_from_day (make_day y m d) = y"
    using v b day_from_year_Suc [of y] by (intro year_from_day_eq) (auto simp: make_day_def)
  show "month_of (month_starts (leap_year y)) (make_day y m d - day_from_year y) = m"
    using v b by (intro month_of_start) (auto simp: make_day_def)
qed

text \<open>A date after year 99 is read back from its \<open>Date.UTC\<close> value.\<close>

lemma utc_date_utc:
  assumes "valid_date y m d" "y \<ge> 100" "0 \<le> h" "h < 24" "0 \<le> mi" "mi < 60" "0 \<le> s" "s < 60"
  shows "utc_date (date_utc y m d h mi s) = (y, m, d)"
  using utc_date_make_day [OF assms(1)] day_of_time [OF assms(3-8)] assms(2)
  by (simp add: utc_date_def date_utc_def Let_def) (simp add: make_day_def)

lemma utc_date_utc_iff:
  assumes "0 \<le> y" "0 \<le> h" "h < 24" "0 \<le> mi" "mi < 60" "0 \<le> s" "s < 60"
  shows "utc_date (date_utc y m d h mi s) = (y, m, d) \<longleftrightarrow> valid_date y m d \<and> y \<ge> 100"
proof
  assume h: "utc_date (date_utc y m d h mi s) = (y, m, d)"
  have v: "valid_date y m d" by (rule utc_date_valid [OF h])
  have "y \<ge> 100"
  proof (rule ccontr)
    assume y: "\<not> y \<ge> 100"
    let ?n = "make_day (1900 + y) m d"
    have "0 \<le> month_start (1900 + y) m" "1 \<le> d"
      using v month_end by (auto simp: valid_date_def)
    then have "day_from_year (1900 + y) \<le> ?n" by (simp add: make_day_def)
    moreover have "year_from_day ?n = y"
      using h y assms(1) day_of_time [OF assms(2-7)] by (simp add: utc_date_def date_utc_def Let_def)
    moreover have "day_from_year (y + 1) \<le> day_from_year (1900 + y)" by (rule day_from_year_mono) simp
    ultimately show False using year_from_day_correct [of ?n] by simp
  qed
  with v show "valid_date y m d \<and> y \<ge> 100" by simp
qed (use assms utc_date_utc in blast)

section \<open>The IMF date format\<close>

definition pad2 :: "nat \<Rightarrow> string" where
  "pad2 n = [digit_char (n div 10), digit_char (n mod 10)]"

definition pad4 :: "nat \<Rightarrow> string" where
  "pad4 n = pad2 (n div 100) @ pad2 (n mod 100)"

definition imf_text :: "string \<Rightarrow> nat \<Rightarrow> nat \<Rightarrow> nat \<Rightarrow> nat \<Rightarrow> nat \<Rightarrow> nat \<Rightarrow> string" where
  "imf_text wd d m y h mi s =
     wd @ '', '' @ pad2 d @ '' '' @ MONTHS ! m @ '' '' @ pad4 y @ '' '' @ pad2 h @ '':'' @ pad2 mi @ '':'' @ pad2 s @ '' GMT''"

definition epoch_ms :: "nat \<Rightarrow> nat \<Rightarrow> nat \<Rightarrow> nat \<Rightarrow> nat \<Rightarrow> nat \<Rightarrow> int" where
  "epoch_ms y m d h mi s = ((make_day (int y) m (int d) * 24 + int h) * 3600 + int mi * 60 + int s) * 1000"

lemma pad_simps [simp]:
  "length (pad2 n) = 2" "length (pad4 n) = 4"
  "n < 100 \<Longrightarrow> digits (pad2 n)" "n < 10000 \<Longrightarrow> digits (pad4 n)"
  "n < 100 \<Longrightarrow> read_nat (pad2 n) = n" "n < 10000 \<Longrightarrow> read_nat (pad4 n) = n"
proof -
  have d: "digits (pad2 n)" "read_nat (pad2 n) = n" if "n < 100" for n
    using that by (simp_all add: digits_def pad2_def read_nat_def div_less_iff_less_mult)
  have app: "read_nat (s @ pad2 k) = 100 * read_nat s + k" if "k < 100" for s k
    using that by (simp add: read_nat_def pad2_def)
  show "length (pad2 n) = 2" "length (pad4 n) = 4" by (simp_all add: pad2_def pad4_def)
  show "n < 100 \<Longrightarrow> digits (pad2 n)" "n < 100 \<Longrightarrow> read_nat (pad2 n) = n" by (rule d; assumption)+
  show "n < 10000 \<Longrightarrow> digits (pad4 n)" "n < 10000 \<Longrightarrow> read_nat (pad4 n) = n"
    using d [of "n div 100"] d [of "n mod 100"] app [of "n mod 100" "pad2 (n div 100)"]
    by (auto simp: digits_def pad4_def)
qed

lemma digit_char_val: "is_digit c \<Longrightarrow> digit_char (digit_val c) = c \<and> digit_val c < 10"
  by (auto simp: is_digit_def digit_val_def digit_char_def char_code_def)

lemma digits_pad2:
  assumes "length s = 2" "digits s"
  shows "\<exists>n < 100. s = pad2 n"
proof -
  obtain a b where s: "s = [a, b]" using assms(1) by (auto simp: length_Suc_conv numeral_2_eq_2)
  have "digit_char (digit_val a) = a" "digit_val a < 10" "digit_char (digit_val b) = b" "digit_val b < 10"
    using assms(2) s digit_char_val by (auto simp: digits_def)
  then show ?thesis using s by (intro exI [of _ "10 * digit_val a + digit_val b"]) (simp add: pad2_def)
qed

lemma digits_pad4:
  assumes "length s = 4" "digits s"
  shows "\<exists>n < 10000. s = pad4 n"
proof -
  have "length (take 2 s) = 2" "digits (take 2 s)" "length (drop 2 s) = 2" "digits (drop 2 s)"
    using assms by (auto simp: digits_def list_all_iff dest: in_set_takeD in_set_dropD)
  then obtain i j where ij: "i < 100" "take 2 s = pad2 i" "j < 100" "drop 2 s = pad2 j"
    using digits_pad2 by metis
  then have "s = pad2 i @ pad2 j" using append_take_drop_id [of 2 s] by simp
  then show ?thesis using ij by (intro exI [of _ "100 * i + j"]) (simp add: pad4_def)
qed

lemma month_names:
  assumes "m < 12"
  shows "length (MONTHS ! m) = 3" "month_shape (MONTHS ! m)" "list_index MONTHS (MONTHS ! m) = Some m"
    "list_index MONTH_PREFIXES (to_lower (MONTHS ! m)) = Some m"
proof -
  have low: "map to_lower MONTHS = MONTH_PREFIXES" by code_simp
  have nth: "list_index xs (xs ! i) = Some i" if "distinct xs" "i < length xs" for xs :: "string list" and i
    using that by (induction xs arbitrary: i) (auto simp: nth_Cons split: nat.splits)
  have len: "length MONTHS = 12" "distinct MONTHS" "distinct MONTH_PREFIXES" by (simp_all add: MONTHS_def MONTH_PREFIXES_def)
  have "list_all (\<lambda>t. length t = 3 \<and> month_shape t) MONTHS"
    by (simp add: MONTHS_def month_shape_def char_code_def)
  then show "length (MONTHS ! m) = 3" "month_shape (MONTHS ! m)" using assms len(1) by (auto simp: list_all_length)
  show "list_index MONTHS (MONTHS ! m) = Some m" using nth len assms by simp
  show "list_index MONTH_PREFIXES (to_lower (MONTHS ! m)) = Some m"
    using nth [OF len(3), of m] assms len(1) unfolding low [symmetric] by simp
qed

lemma list_index_Some: "list_index xs x = Some i \<Longrightarrow> i < length xs \<and> xs ! i = x"
  by (induction xs arbitrary: i) (auto split: if_splits)

lemma day_names: "wd \<in> set DAY_NAMES \<Longrightarrow> length wd = 3"
  by (auto simp: DAY_NAMES_def)

lemma sub_append: "length p = i \<Longrightarrow> sub (p @ s) (i + j) n = sub s j n"
  by (simp add: sub_def)

lemma sub_front: "length p = n \<Longrightarrow> sub (p @ s) 0 n = p"
  by (simp add: sub_def)

lemma sub_split: "n \<le> length (drop i v) \<Longrightarrow> drop i v = sub v i n @ drop (i + n) v"
  by (metis add.commute append_take_drop_id drop_drop sub_def)

lemma imf_fixdate_text:
  assumes "wd \<in> set DAY_NAMES" "m < 12" "d < 100" "y < 10000" "h < 100" "mi < 100" "s < 100"
  shows "IMF_FIXDATE (imf_text wd d m y h mi s) = Some (pad2 d, MONTHS ! m, pad4 y, pad2 h, pad2 mi, pad2 s)"
proof -
  obtain a b c where wd: "wd = [a, b, c]"
    using day_names [OF assms(1)] by (auto simp: length_Suc_conv numeral_eq_Suc)
  obtain e f g where mon: "MONTHS ! m = [e, f, g]"
    using month_names(1) [OF assms(2)] by (auto simp: length_Suc_conv numeral_eq_Suc)
  have "digits (pad2 d)" "digits (pad4 y)" "digits (pad2 h)" "digits (pad2 mi)" "digits (pad2 s)"
    using assms by simp_all
  moreover have "month_shape [e, f, g]" using month_names(2) [OF assms(2)] mon by simp
  ultimately show ?thesis
    using assms(1)
    unfolding IMF_FIXDATE_def imf_text_def wd mon pad4_def pad2_def sub_def by simp
qed

lemma imf_fixdate_shape:
  assumes "IMF_FIXDATE v = Some (dd, mon, yyyy, hh, mm, ss)"
  shows "\<exists>wd d y h mi s. wd \<in> set DAY_NAMES \<and> d < 100 \<and> y < 10000 \<and> h < 100 \<and> mi < 100 \<and> s < 100 \<and>
    v = wd @ '', '' @ pad2 d @ '' '' @ mon @ '' '' @ pad4 y @ '' '' @ pad2 h @ '':'' @ pad2 mi @ '':'' @ pad2 s @ '' GMT'' \<and>
    dd = pad2 d \<and> yyyy = pad4 y \<and> hh = pad2 h \<and> mm = pad2 mi \<and> ss = pad2 s"
proof -
  have l: "length v = 29" and g: "sub v 0 3 \<in> set DAY_NAMES" "sub v 3 2 = '', ''" "digits (sub v 5 2)" "sub v 7 1 = '' ''"
      "sub v 11 1 = '' ''" "digits (sub v 12 4)" "sub v 16 1 = '' ''" "digits (sub v 17 2)" "sub v 19 1 = '':''"
      "digits (sub v 20 2)" "sub v 22 1 = '':''" "digits (sub v 23 2)" "sub v 25 4 = '' GMT''"
      and r: "dd = sub v 5 2" "mon = sub v 8 3" "yyyy = sub v 12 4" "hh = sub v 17 2" "mm = sub v 20 2" "ss = sub v 23 2"
    using assms by (auto simp: IMF_FIXDATE_def split: if_splits)
  have len: "i + n \<le> 29 \<Longrightarrow> length (sub v i n) = n" for i n using l by (simp add: sub_def)
  obtain d where d: "d < 100" "sub v 5 2 = pad2 d" using digits_pad2 [OF len g(3)] by auto
  obtain y where y: "y < 10000" "sub v 12 4 = pad4 y" using digits_pad4 [OF len g(6)] by auto
  obtain h where h: "h < 100" "sub v 17 2 = pad2 h" using digits_pad2 [OF len g(8)] by auto
  obtain mi where mi: "mi < 100" "sub v 20 2 = pad2 mi" using digits_pad2 [OF len g(10)] by auto
  obtain s where s: "s < 100" "sub v 23 2 = pad2 s" using digits_pad2 [OF len g(12)] by auto
  have step: "drop i v = sub v i n @ drop (i + n) v" if "i + n \<le> 29" for i n
    using that l by (intro sub_split) simp
  have "v = sub v 0 3 @ sub v 3 2 @ sub v 5 2 @ sub v 7 1 @ sub v 8 3 @ sub v 11 1 @ sub v 12 4 @ sub v 16 1 @
      sub v 17 2 @ sub v 19 1 @ sub v 20 2 @ sub v 22 1 @ sub v 23 2 @ sub v 25 4 @ drop 29 v"
    using step [of 0 3] step [of 3 2] step [of 5 2] step [of 7 1] step [of 8 3] step [of 11 1] step [of 12 4]
      step [of 16 1] step [of 17 2] step [of 19 1] step [of 20 2] step [of 22 1] step [of 23 2] step [of 25 4]
    by simp
  then have "v = sub v 0 3 @ '', '' @ pad2 d @ '' '' @ mon @ '' '' @ pad4 y @ '' '' @ pad2 h @ '':'' @ pad2 mi @ '':'' @ pad2 s @ '' GMT''"
    using g d y h mi s r(2) l by simp
  with g(1) d y h mi s r show ?thesis by blast
qed

lemma month_length_31: "m < 12 \<Longrightarrow> month_length y m \<le> 31"
  unfolding less_12 month_length_def month_start_def month_starts_def
  by (cases "leap_year y") (elim insertE emptyE; simp)+

lemma valid_date_31: "valid_date y m d \<Longrightarrow> d \<le> 31"
  using month_length_31 [of m y] by (auto simp: valid_date_def)

lemma parseImfFixdate_text:
  assumes "wd \<in> set DAY_NAMES" "valid_date (int y) m (int d)" "100 \<le> y" "y < 10000" "h < 24" "mi < 60" "s < 60"
  shows "parseImfFixdate (imf_text wd d m y h mi s) = Some (epoch_ms y m d h mi s)"
proof -
  have m: "m < 12" and d: "d < 100"
    using assms(2) valid_date_31 [OF assms(2)] by (auto simp: valid_date_def)
  have f: "IMF_FIXDATE (imf_text wd d m y h mi s) = Some (pad2 d, MONTHS ! m, pad4 y, pad2 h, pad2 mi, pad2 s)"
    using assms m d by (intro imf_fixdate_text) auto
  have "utc_date (date_utc (int y) m (int d) (int h) (int mi) (int s)) = (int y, m, int d)"
    using assms by (intro utc_date_utc) auto
  moreover have "date_utc (int y) m (int d) (int h) (int mi) (int s) = epoch_ms y m d h mi s"
    using assms(3) by (simp add: date_utc_def epoch_ms_def)
  moreover have "read_num (pad2 d) = int d" "read_num (pad4 y) = int y" "read_num (pad2 h) = int h"
    "read_num (pad2 mi) = int mi" "read_num (pad2 s) = int s"
    using assms d by (simp_all add: read_num_def)
  ultimately show ?thesis
    using assms(5-7) month_names(3) [OF m] by (simp add: parseImfFixdate_def f)
qed

text \<open>The strict reading of \<open>Expires\<close> accepts exactly the IMF dates of existing days of the years
  100 to 9999 with an existing time of day (the day name free), and reads each as its instant.\<close>

theorem imf_fixdate_iff:
  "parseImfFixdate v = Some ms \<longleftrightarrow>
     (\<exists>wd d m y h mi s. wd \<in> set DAY_NAMES \<and> valid_date (int y) m (int d) \<and> 100 \<le> y \<and> y < 10000 \<and> h < 24 \<and> mi < 60 \<and> s < 60 \<and>
        v = imf_text wd d m y h mi s \<and> ms = epoch_ms y m d h mi s)"
proof
  assume h: "parseImfFixdate v = Some ms"
  then obtain dd mon yyyy hh mm ss where f: "IMF_FIXDATE v = Some (dd, mon, yyyy, hh, mm, ss)"
    by (auto simp: parseImfFixdate_def split: option.splits)
  obtain wd d y h' mi s where t: "wd \<in> set DAY_NAMES" "d < 100" "y < 10000" "h' < 100" "mi < 100" "s < 100"
      "v = wd @ '', '' @ pad2 d @ '' '' @ mon @ '' '' @ pad4 y @ '' '' @ pad2 h' @ '':'' @ pad2 mi @ '':'' @ pad2 s @ '' GMT''"
      "dd = pad2 d" "yyyy = pad4 y" "hh = pad2 h'" "mm = pad2 mi" "ss = pad2 s"
    using imf_fixdate_shape [OF f] by blast
  have nums: "read_num dd = int d" "read_num yyyy = int y" "read_num hh = int h'" "read_num mm = int mi" "read_num ss = int s"
    using t(2-6) unfolding t(8-12) by (simp_all add: read_num_def)
  obtain m where m: "list_index MONTHS mon = Some m" "h' \<le> 23" "mi \<le> 59" "s \<le> 59"
      "ms = date_utc (int y) m (int d) (int h') (int mi) (int s)"
      "utc_date (date_utc (int y) m (int d) (int h') (int mi) (int s)) = (int y, m, int d)"
    using h unfolding parseImfFixdate_def f nums option.case prod.case Let_def
    by (simp only: split: option.splits if_splits) auto
  have "valid_date (int y) m (int d) \<and> int y \<ge> 100"
    using utc_date_utc_iff [of "int y" "int h'" "int mi" "int s" m "int d"] m(2-4,6) by simp
  moreover from this have "ms = epoch_ms y m d h' mi s" using m(5) by (simp add: date_utc_def epoch_ms_def)
  moreover have "v = imf_text wd d m y h' mi s" using t(7) list_index_Some [OF m(1)] by (simp add: imf_text_def)
  ultimately show "\<exists>wd d m y h mi s. wd \<in> set DAY_NAMES \<and> valid_date (int y) m (int d) \<and> 100 \<le> y \<and> y < 10000 \<and>
        h < 24 \<and> mi < 60 \<and> s < 60 \<and> v = imf_text wd d m y h mi s \<and> ms = epoch_ms y m d h mi s"
    using t(1,3) m(2-4)
    by (intro exI [of _ wd] exI [of _ d] exI [of _ m] exI [of _ y] exI [of _ h'] exI [of _ mi] exI [of _ s] conjI) simp_all
next
  assume "\<exists>wd d m y h mi s. wd \<in> set DAY_NAMES \<and> valid_date (int y) m (int d) \<and> 100 \<le> y \<and> y < 10000 \<and> h < 24 \<and> mi < 60 \<and> s < 60 \<and>
        v = imf_text wd d m y h mi s \<and> ms = epoch_ms y m d h mi s"
  then obtain wd d m y h mi s where "wd \<in> set DAY_NAMES" "valid_date (int y) m (int d)" "100 \<le> y" "y < 10000" "h < 24"
      "mi < 60" "s < 60" and v: "v = imf_text wd d m y h mi s" "ms = epoch_ms y m d h mi s"
    by (elim exE conjE)
  from parseImfFixdate_text [OF this(1-7)] show "parseImfFixdate v = Some ms" unfolding v .
qed

section \<open>The cookie-date algorithm reads the same instant\<close>

lemma tokens_of_nonempty [simp]: "tokens_of s \<noteq> []"
  by (induction s) (auto split: list.splits)

lemma tokens_of_word: "\<forall>c \<in> set t. \<not> date_delimiter c \<Longrightarrow> tokens_of t = [t]"
  by (induction t) auto

lemma tokens_of_step:
  "\<forall>c \<in> set t. \<not> date_delimiter c \<Longrightarrow> date_delimiter c \<Longrightarrow> tokens_of (t @ c # r) = t # tokens_of r"
  by (induction t) auto

lemma digit_no_delimiter: "is_digit c \<Longrightarrow> \<not> date_delimiter c"
  by (auto simp: is_digit_def date_delimiter_def Let_def)

lemma pad_no_delimiter:
  "n < 100 \<Longrightarrow> \<forall>c \<in> set (pad2 n). \<not> date_delimiter c" "n < 10000 \<Longrightarrow> \<forall>c \<in> set (pad4 n). \<not> date_delimiter c"
  using pad_simps(3,4) [of n] digit_no_delimiter by (auto simp: digits_def list_all_iff)

lemma delimiters: "date_delimiter (CHR '' '')" "date_delimiter (CHR '','')" "\<not> date_delimiter (CHR '':'')"
  by (simp_all add: date_delimiter_def char_code_def)

lemma names_no_delimiter:
  "wd \<in> set DAY_NAMES \<Longrightarrow> \<forall>c \<in> set wd. \<not> date_delimiter c"
  "m < 12 \<Longrightarrow> \<forall>c \<in> set (MONTHS ! m). \<not> date_delimiter c"
proof -
  have "list_all (\<lambda>t. list_all (\<lambda>c. \<not> date_delimiter c) t) DAY_NAMES" "list_all (\<lambda>t. list_all (\<lambda>c. \<not> date_delimiter c) t) MONTHS"
    by (simp_all add: DAY_NAMES_def MONTHS_def date_delimiter_def char_code_def Let_def)
  then have n: "\<forall>wd \<in> set DAY_NAMES. \<forall>c \<in> set wd. \<not> date_delimiter c" "\<forall>mon \<in> set MONTHS. \<forall>c \<in> set mon. \<not> date_delimiter c"
    unfolding list_all_iff by blast+
  show "wd \<in> set DAY_NAMES \<Longrightarrow> \<forall>c \<in> set wd. \<not> date_delimiter c" using n(1) by blast
  assume "m < 12"
  then have "MONTHS ! m \<in> set MONTHS" by (intro nth_mem) (simp add: MONTHS_def)
  then show "\<forall>c \<in> set (MONTHS ! m). \<not> date_delimiter c" using n(2) by blast
qed

definition time_text :: "nat \<Rightarrow> nat \<Rightarrow> nat \<Rightarrow> string" where
  "time_text h mi s = pad2 h @ '':'' @ pad2 mi @ '':'' @ pad2 s"

lemma imf_tokens:
  assumes "wd \<in> set DAY_NAMES" "m < 12" "d < 100" "y < 10000" "h < 100" "mi < 100" "s < 100"
  shows "filter (\<lambda>t. t \<noteq> []) (tokens_of (imf_text wd d m y h mi s)) =
    [wd, pad2 d, MONTHS ! m, pad4 y, time_text h mi s, ''GMT'']"
proof -
  have t: "\<forall>c \<in> set (time_text h mi s). \<not> date_delimiter c"
    using assms pad_no_delimiter delimiters(3) by (auto simp: time_text_def)
  have g: "\<forall>c \<in> set ''GMT''. \<not> date_delimiter c" by (simp add: date_delimiter_def char_code_def)
  have e: "imf_text wd d m y h mi s = wd @ CHR '','' # [] @ CHR '' '' # pad2 d @ CHR '' '' # MONTHS ! m @ CHR '' '' #
      pad4 y @ CHR '' '' # time_text h mi s @ CHR '' '' # ''GMT''"
    by (simp add: imf_text_def time_text_def)
  have "tokens_of (imf_text wd d m y h mi s) = [wd, [], pad2 d, MONTHS ! m, pad4 y, time_text h mi s, ''GMT'']"
    unfolding e
    by (simp only: tokens_of_step [OF names_no_delimiter(1) [OF assms(1)] delimiters(2)]
        tokens_of_step [of "[]", OF _ delimiters(1)] tokens_of_step [OF pad_no_delimiter(1) [OF assms(3)] delimiters(1)]
        tokens_of_step [OF names_no_delimiter(2) [OF assms(2)] delimiters(1)]
        tokens_of_step [OF pad_no_delimiter(2) [OF assms(4)] delimiters(1)]
        tokens_of_step [OF t delimiters(1)] tokens_of_word [OF g] set_simps empty_iff ball_simps)
  moreover have "wd \<noteq> []" "MONTHS ! m \<noteq> []" using day_names [OF assms(1)] month_names(1) [OF assms(2)] by auto
  ultimately show ?thesis by (simp add: pad2_def pad4_def time_text_def)
qed

lemma digit_run_pad:
  "n < 100 \<Longrightarrow> r = [] \<or> \<not> is_digit (hd r) \<Longrightarrow> digit_run 1 2 (pad2 n @ r) = Some (pad2 n)"
  "n < 10000 \<Longrightarrow> digit_run 2 4 (pad4 n) = Some (pad4 n)" "n < 10000 \<Longrightarrow> digit_run 1 2 (pad4 n) = None"
proof -
  have tw: "takeWhile is_digit (t @ r) = t" if "digits t" "r = [] \<or> \<not> is_digit (hd r)" for t r
    using that by (cases r) (auto simp: digits_def list_all_iff takeWhile_append2)
  show "digit_run 1 2 (pad2 n @ r) = Some (pad2 n)" if "n < 100" "r = [] \<or> \<not> is_digit (hd r)"
    using tw [OF _ that(2), of "pad2 n"] that(1) by (simp add: digit_run_def)
  show "digit_run 2 4 (pad4 n) = Some (pad4 n)" "digit_run 1 2 (pad4 n) = None" if "n < 10000"
  proof -
    have "takeWhile is_digit (pad4 n) = pad4 n" using tw [of "pad4 n" "[]"] that by (simp del: takeWhile_eq_all_conv)
    then show "digit_run 2 4 (pad4 n) = Some (pad4 n)" "digit_run 1 2 (pad4 n) = None"
      by (simp_all only: digit_run_def Let_def pad_simps) simp_all
  qed
qed

lemma after_colon_pad: "n < 100 \<Longrightarrow> after_colon (pad2 n @ CHR '':'' # r) = Some r"
proof -
  assume "n < 100"
  then have "\<forall>c \<in> set (pad2 n). is_digit c" by (metis digits_def list_all_iff pad_simps(3))
  moreover have "\<not> is_digit (CHR '':'')" by (simp add: is_digit_def char_code_def)
  ultimately have "dropWhile is_digit (pad2 n @ CHR '':'' # r) = CHR '':'' # r" by (simp add: dropWhile_append2)
  then show ?thesis by (simp add: after_colon_def)
qed

lemma time_token_text:
  "h < 100 \<Longrightarrow> mi < 100 \<Longrightarrow> s < 100 \<Longrightarrow> time_token (time_text h mi s) = Some (int h, int mi, int s)"
proof -
  assume a: "h < 100" "mi < 100" "s < 100"
  have "\<not> is_digit (CHR '':'')" by (simp add: is_digit_def char_code_def)
  then show ?thesis using a digit_run_pad(1) [OF a(3), of "[]"]
    by (simp add: time_token_def time_text_def digit_run_pad(1) after_colon_pad read_num_def del: One_nat_def)
qed

text \<open>A token that does not begin with a digit is no time, day or year.\<close>

lemma word_token: "\<not> is_digit c \<Longrightarrow> 0 < lo \<Longrightarrow> digit_run lo hi (c # t) = None \<and> time_token (c # t) = None"
  by (simp add: digit_run_def time_token_def Let_def)

lemma digits_token: "digits t \<Longrightarrow> time_token t = None"
proof -
  assume "digits t"
  then have "dropWhile is_digit t = []" by (simp add: digits_def list_all_iff)
  then have "after_colon t = None" by (simp only: after_colon_def list.case)
  then show ?thesis by (simp add: time_token_def split: option.splits)
qed

lemma names_not_numbers:
  "wd \<in> set DAY_NAMES \<Longrightarrow> time_token wd = None \<and> digit_run 1 2 wd = None \<and> digit_run 2 4 wd = None \<and>
     list_index MONTH_PREFIXES (to_lower (take 3 wd)) = None"
  "m < 12 \<Longrightarrow> time_token (MONTHS ! m) = None \<and> digit_run 1 2 (MONTHS ! m) = None"
proof -
  have w: "list_all (\<lambda>t. t \<noteq> [] \<and> \<not> is_digit (hd t)) DAY_NAMES" "list_all (\<lambda>t. t \<noteq> [] \<and> \<not> is_digit (hd t)) MONTHS"
    by (simp_all add: DAY_NAMES_def MONTHS_def is_digit_def char_code_def)
  have i: "list_all (\<lambda>t. list_index MONTH_PREFIXES (to_lower (take 3 t)) = None) DAY_NAMES" by code_simp
  have n: "time_token t = None \<and> digit_run 1 2 t = None \<and> digit_run 2 4 t = None" if "t \<noteq> []" "\<not> is_digit (hd t)" for t
    using word_token [OF that(2), of 1 2 "tl t"] word_token [OF that(2), of 2 4 "tl t"] that(1) by simp
  show "wd \<in> set DAY_NAMES \<Longrightarrow> time_token wd = None \<and> digit_run 1 2 wd = None \<and> digit_run 2 4 wd = None \<and>
     list_index MONTH_PREFIXES (to_lower (take 3 wd)) = None"
    using w(1) i n unfolding list_all_iff by blast
  assume "m < 12"
  then have "MONTHS ! m \<in> set MONTHS" by (intro nth_mem) (simp add: MONTHS_def)
  then show "time_token (MONTHS ! m) = None \<and> digit_run 1 2 (MONTHS ! m) = None"
    using w(2) n unfolding list_all_iff by blast
qed

lemma pad4_no_month: "y < 10000 \<Longrightarrow> list_index MONTH_PREFIXES (to_lower (take 3 (pad4 y))) = None"
proof -
  assume y: "y < 10000"
  define k where "k = y div 100 div 10"
  have k: "k < 10" unfolding k_def using y by (simp add: less_mult_imp_div_less)
  have "hd (to_lower (take 3 (pad4 y))) = digit_char k"
    using k by (simp add: to_lower_def pad4_def pad2_def lower_char_def flip: k_def)
  moreover have "is_digit (digit_char k)" using k by simp
  moreover have "list_all (\<lambda>t. t \<noteq> [] \<and> \<not> is_digit (hd t)) MONTH_PREFIXES"
    by (simp add: MONTH_PREFIXES_def is_digit_def char_code_def)
  ultimately have "to_lower (take 3 (pad4 y)) \<notin> set MONTH_PREFIXES" unfolding list_all_iff by metis
  moreover have "x \<notin> set xs \<Longrightarrow> list_index xs x = None" for x :: string and xs by (induction xs) auto
  ultimately show ?thesis by blast
qed

lemma cookie_date_of_imf:
  assumes "wd \<in> set DAY_NAMES" "valid_date (int y) m (int d)" "1601 \<le> y" "y < 10000" "h < 24" "mi < 60" "s < 60"
  shows "parseCookieDate (imf_text wd d m y h mi s) = Some (epoch_ms y m d h mi s)"
proof -
  have m: "m < 12" and d: "d < 100" "1 \<le> d" "d \<le> 31"
    using assms(2) valid_date_31 [OF assms(2)] by (auto simp: valid_date_def)
  have tok: "filter (\<lambda>t. t \<noteq> []) (tokens_of (imf_text wd d m y h mi s)) =
      [wd, pad2 d, MONTHS ! m, pad4 y, time_text h mi s, ''GMT'']"
    using assms m d by (intro imf_tokens) auto
  define p1 where "p1 = \<lparr>dp_time = None, dp_day = Some (int d), dp_month = None, dp_year = None\<rparr>"
  define p2 where "p2 = p1\<lparr>dp_month := Some m\<rparr>"
  define p3 where "p3 = p2\<lparr>dp_year := Some (int y)\<rparr>"
  define p4 where "p4 = p3\<lparr>dp_time := Some (int h, int mi, int s)\<rparr>"
  have "date_token no_date_parts wd = no_date_parts"
    using names_not_numbers(1) [OF assms(1)] by (simp add: date_token_def no_date_parts_def)
  moreover have "date_token no_date_parts (pad2 d) = p1"
    using digit_run_pad(1) [OF d(1), of "[]"] digits_token [OF pad_simps(3) [OF d(1)]] d
    by (simp add: date_token_def no_date_parts_def p1_def read_num_def)
  moreover have "date_token p1 (MONTHS ! m) = p2"
    using names_not_numbers(2) [OF m] month_names(1,4) [OF m] by (simp add: date_token_def p1_def p2_def)
  moreover have "date_token p2 (pad4 y) = p3"
    using digit_run_pad(2) [of y] digits_token [of "pad4 y"] assms(4)
    by (simp add: date_token_def p1_def p2_def p3_def read_num_def)
  moreover have "date_token p3 (time_text h mi s) = p4"
    using time_token_text [of h mi s] assms by (simp add: date_token_def p1_def p2_def p3_def p4_def)
  moreover have "date_token p4 ''GMT'' = p4"
    by (simp add: date_token_def p1_def p2_def p3_def p4_def)
  ultimately have "foldl date_token no_date_parts [wd, pad2 d, MONTHS ! m, pad4 y, time_text h mi s, ''GMT''] = p4" by simp
  moreover have "utc_date (date_utc (int y) m (int d) (int h) (int mi) (int s)) = (int y, m, int d)"
    using assms by (intro utc_date_utc) auto
  moreover have "date_utc (int y) m (int d) (int h) (int mi) (int s) = epoch_ms y m d h mi s"
    using assms(3) by (simp add: date_utc_def epoch_ms_def)
  ultimately show ?thesis
    unfolding parseCookieDate_def tok Let_def using d assms(3-7)
    by (simp add: p1_def p2_def p3_def p4_def)
qed

section \<open>Which cookies an error response carries\<close>

text \<open>The last value of an attribute that a reading accepts.\<close>

definition last_valid :: "(string \<Rightarrow> int option) \<Rightarrow> string \<Rightarrow> (string \<times> string) list \<Rightarrow> int option" where
  "last_valid read name attrs =
     (case rev (List.map_filter (\<lambda>(n, v). if n = name then read v else None) attrs) of
        [] \<Rightarrow> None | x # _ \<Rightarrow> Some x)"

lemma last_valid_snoc:
  "last_valid read name (attrs @ [(n, v)]) =
     (if n = name \<and> read v \<noteq> None then read v else last_valid read name attrs)"
  by (auto simp: last_valid_def map_filter_def split: option.splits)

lemma foldl_read_attribute:
  "(\<forall>(n, v) \<in> set attrs. n = ''max-age'' \<or> n = ''expires'') \<Longrightarrow>
   foldl (read_attribute r e) (None, None) attrs = (last_valid r ''max-age'' attrs, last_valid e ''expires'' attrs)"
proof (induction attrs rule: rev_induct)
  case (snoc a attrs)
  obtain n v where a: "a = (n, v)" by fastforce
  from snoc a show ?case by (auto simp: read_attribute_def last_valid_snoc split: option.splits)
qed (simp add: last_valid_def map_filter_def)

lemma reading_deletes_iff:
  "reading_deletes now (cookie_attributes c) r e \<longleftrightarrow>
     (case last_valid r ''max-age'' (cookie_attributes c) of
        Some n \<Rightarrow> n \<le> 0
      | None \<Rightarrow> (case last_valid e ''expires'' (cookie_attributes c) of Some t \<Rightarrow> t \<le> now | None \<Rightarrow> False))"
proof -
  have "\<forall>(n, v) \<in> set (cookie_attributes c). n = ''max-age'' \<or> n = ''expires''"
    by (auto simp: cookie_attributes_def)
  from foldl_read_attribute [OF this, of r e] show ?thesis
    by (simp add: reading_deletes_def split: option.splits)
qed

text \<open>An RPC error response carries exactly those cookies that every reading deletes: for both
  readings of \<open>Max-Age\<close> and all three of \<open>Expires\<close>, the last value the reading accepts is in the
  past, \<open>Max-Age\<close> before \<open>Expires\<close>; a cookie without either never passes.\<close>

theorem error_cookies_only_deletions:
  "c \<in> set (errorResponseSetCookies date_parse (Some cookies) now) \<longleftrightarrow>
     c \<in> set cookies \<and>
     (\<forall>r \<in> {strict_max_age, lenient_max_age}. \<forall>e \<in> {parseImfFixdate, parseCookieDate, date_parse}.
        case last_valid r ''max-age'' (cookie_attributes c) of
          Some n \<Rightarrow> n \<le> 0
        | None \<Rightarrow> (case last_valid e ''expires'' (cookie_attributes c) of Some t \<Rightarrow> t \<le> now | None \<Rightarrow> False))"
  by (simp add: errorResponseSetCookies_def isCookieDeletion_def MAX_AGE_READINGS_def EXPIRES_READINGS_def
      reading_deletes_iff Let_def)

lemma error_cookies_only_deletions_witness:
  "''s=1; Max-Age=0'' \<in> set (errorResponseSetCookies (\<lambda>v. None) (Some [''s=1; Max-Age=0'', ''s=1; Path=/'']) 5)"
proof -
  have "cookie_attributes ''s=1; Max-Age=0'' = [(''max-age'', ''0'')]" by code_simp
  moreover have "strict_max_age ''0'' = Some 0" "lenient_max_age ''0'' = Some 0" by code_simp+
  ultimately show ?thesis
    by (subst error_cookies_only_deletions) (simp add: last_valid_def map_filter_def)
qed

text \<open>The only thing that counts is what follows the first semicolon.\<close>

lemma cookie_value_irrelevant:
  "CHR '';'' \<notin> set a \<Longrightarrow> CHR '';'' \<notin> set b \<Longrightarrow> cookie_attributes (a @ CHR '';'' # r) = cookie_attributes (b @ CHR '';'' # r)"
  by (simp add: cookie_attributes_def split_on_sep)

lemma no_attributes_no_deletion:
  "CHR '';'' \<notin> set c \<Longrightarrow> \<not> isCookieDeletion date_parse c now"
  by (simp add: isCookieDeletion_def MAX_AGE_READINGS_def EXPIRES_READINGS_def reading_deletes_def
      cookie_attributes_def split_on_no_sep)

lemma imf_text_chars:
  assumes "wd \<in> set DAY_NAMES" "m < 12" "d < 100" "y < 10000" "h < 100" "mi < 100" "s < 100"
  shows "CHR '';'' \<notin> set (imf_text wd d m y h mi s)" and "trim (imf_text wd d m y h mi s) = imf_text wd d m y h mi s"
proof -
  have "date_delimiter (CHR '';'')" "\<not> is_digit (CHR '';'')" by (simp_all add: date_delimiter_def is_digit_def char_code_def)
  then have "CHR '';'' \<notin> set wd" "CHR '';'' \<notin> set (MONTHS ! m)" "CHR '';'' \<notin> set (pad4 y)" "\<forall>n < 100. CHR '';'' \<notin> set (pad2 n)"
    using names_no_delimiter assms pad_no_delimiter by blast+
  then show "CHR '';'' \<notin> set (imf_text wd d m y h mi s)" using assms by (simp add: imf_text_def)
  have "list_all (\<lambda>t. t \<noteq> [] \<and> \<not> is_space (hd t)) DAY_NAMES" by (simp add: DAY_NAMES_def is_space_def char_code_def)
  then obtain a w where w: "wd = a # w" "\<not> is_space a" using assms(1) unfolding list_all_iff by (metis list.collapse)
  obtain t where t: "imf_text wd d m y h mi s = a # t @ ''T''" unfolding imf_text_def w(1) by simp
  have "\<not> is_space (CHR ''T'')" by (simp add: is_space_def char_code_def)
  then show "trim (imf_text wd d m y h mi s) = imf_text wd d m y h mi s" using w(2) unfolding trim_def t by simp
qed

text \<open>The cookie servers send to clear a session is recognised: with an \<open>Expires\<close> in the IMF
  format (a year from 1601), which \<open>Date.parse\<close> reads as the same instant, the cookie passes exactly
  when that instant is not in the future, whatever its name and value.\<close>

theorem clearing_cookie_recognised:
  assumes "CHR '';'' \<notin> set nv" "wd \<in> set DAY_NAMES" "valid_date (int y) m (int d)" "1601 \<le> y" "y < 10000"
    and "h < 24" "mi < 60" "s < 60"
    and "date_parse (imf_text wd d m y h mi s) = Some (epoch_ms y m d h mi s)"
  shows "isCookieDeletion date_parse (nv @ ''; Expires='' @ imf_text wd d m y h mi s) now \<longleftrightarrow> epoch_ms y m d h mi s \<le> now"
proof -
  let ?v = "imf_text wd d m y h mi s"
  have m: "m < 12" and d: "d < 100" using assms(3) valid_date_31 [OF assms(3)] by (auto simp: valid_date_def)
  have v: "CHR '';'' \<notin> set ?v" "trim ?v = ?v" using imf_text_chars [of wd m d y h mi s] assms m d by auto
  have strict: "parseImfFixdate ?v = Some (epoch_ms y m d h mi s)"
    using assms(4) by (intro parseImfFixdate_text [OF assms(2,3) _ assms(5-8)]) simp
  have lenient: "parseCookieDate ?v = Some (epoch_ms y m d h mi s)" by (rule cookie_date_of_imf) (use assms in auto)
  have n: "to_lower (trim '' Expires'') = ''expires''" by code_simp
  have "split_on (CHR '';'') (nv @ CHR '';'' # '' Expires='' @ ?v) = [nv, '' Expires='' @ ?v]"
    using assms(1) v(1) by (simp add: split_on_sep split_on_no_sep)
  moreover have "cookie_attribute ('' Expires='' @ ?v) = (''expires'', ?v)"
    using index_of_append [of "CHR ''=''" "'' Expires''" ?v] n v(2) by (simp add: cookie_attribute_def)
  ultimately have "cookie_attributes (nv @ ''; Expires='' @ ?v) = [(''expires'', ?v)]"
    by (simp add: cookie_attributes_def)
  then show ?thesis
    by (simp add: isCookieDeletion_def MAX_AGE_READINGS_def EXPIRES_READINGS_def reading_deletes_def read_attribute_def
        strict lenient assms(9))
qed

lemma clearing_cookie_recognised_witness:
  "isCookieDeletion (\<lambda>v. Some 0) (''session=abc'' @ ''; Expires='' @ imf_text ''Thu'' 1 0 1970 0 0 0) 1000"
proof -
  have "epoch_ms 1970 0 1 0 0 0 = 0" by code_simp
  moreover have "valid_date (int 1970) 0 (int 1)" by code_simp
  ultimately show ?thesis
    using clearing_cookie_recognised [of "''session=abc''" "''Thu''" 1970 0 1 0 0 0 "\<lambda>v. Some 0" 1000]
    by (simp add: DAY_NAMES_def)
qed

end
