(* ===== verification/ClientUserAgent.thy ===== *)
theory ClientUserAgent
  imports Prelude
begin

text \<open>
  \<^verbatim>\<open>packages/core/src/server/client-user-agent.ts\<close>: validation of the user-agent token a
  native client sends, before it is appended to the AWS user agent.  The pattern is unambiguous, so
  the match is read greedily from the left.
\<close>

definition MAX_CLIENT_USER_AGENT_BYTES :: nat where
  "MAX_CLIENT_USER_AGENT_BYTES = 128"

definition MAX_CLIENT_USER_AGENT_TOKEN_LENGTH :: nat where
  "MAX_CLIENT_USER_AGENT_TOKEN_LENGTH = 48"

definition lower_letter :: "char \<Rightarrow> bool" where
  "lower_letter c = (97 \<le> char_code c \<and> char_code c \<le> 122)"

definition ident_char :: "char \<Rightarrow> bool" where
  "ident_char c = (is_digit c \<or> lower_letter c \<or> (65 \<le> char_code c \<and> char_code c \<le> 90) \<or> c = CHR ''-'')"

text \<open>\<open>(?:c[0-9A-Za-z-]+(?:\.[0-9A-Za-z-]+)*)?\<close>: the optional part after \<open>c\<close>, and the rest.\<close>

definition dotted_part :: "char \<Rightarrow> string \<Rightarrow> (string \<times> string) option" where
  "dotted_part c s =
     (case s of
        [] \<Rightarrow> Some ([], [])
      | d # r \<Rightarrow>
          if d \<noteq> c then Some ([], s)
          else (let run = takeWhile (\<lambda>x. ident_char x \<or> x = CHR ''.'') r in
                if list_all (\<lambda>p. p \<noteq> []) (split_on (CHR ''.'') run) then Some (c # run, drop (length run) r) else None))"

text \<open>\<open>\d+\.\d+\.\d+\<close> and the rest.\<close>

definition version_core :: "string \<Rightarrow> (string \<times> string) option" where
  "version_core s =
     (let a = takeWhile is_digit s; s1 = drop (length a) s;
          b = takeWhile is_digit (tl s1); s2 = drop (length b) (tl s1);
          c = takeWhile is_digit (tl s2); s3 = drop (length c) (tl s2) in
      if a \<noteq> [] \<and> starts_with s1 ''.'' \<and> b \<noteq> [] \<and> starts_with s2 ''.'' \<and> c \<noteq> []
      then Some (a @ ''.'' @ b @ ''.'' @ c, s3) else None)"

definition CLIENT_USER_AGENT_PATTERN :: "string \<Rightarrow> (string \<times> string) option" where
  "CLIENT_USER_AGENT_PATTERN s =
     (if \<not> starts_with s ''aws-blocks-'' then None
      else (let r = drop 11 s; lang = takeWhile (\<lambda>c. lower_letter c \<or> is_digit c) r; r1 = drop (length lang) r in
        if lang = [] \<or> \<not> lower_letter (hd lang) \<or> length lang > 16 \<or> \<not> starts_with r1 ''/'' then None
        else (case version_core (tl r1) of
            None \<Rightarrow> None
          | Some (core, r2) \<Rightarrow>
              (case dotted_part (CHR ''-'') r2 of
                 None \<Rightarrow> None
               | Some (pre, r3) \<Rightarrow>
                   (case dotted_part (CHR ''+'') r3 of
                      Some (build, []) \<Rightarrow> Some (lang, core @ pre)
                    | _ \<Rightarrow> None)))))"

definition validateClientUserAgentToken :: "string option \<Rightarrow> string option" where
  "validateClientUserAgentToken raw =
     (case raw of
        None \<Rightarrow> None
      | Some s \<Rightarrow>
          if s = [] then None
          else (let first = hd (split_on (CHR '' '') (take (MAX_CLIENT_USER_AGENT_BYTES + 1) s)) in
            if length first > MAX_CLIENT_USER_AGENT_BYTES then None
            else (case CLIENT_USER_AGENT_PATTERN first of
                None \<Rightarrow> None
              | Some (lang, version) \<Rightarrow>
                  (let token = ''client/'' @ lang @ ''/'' @ version in
                   if length token \<le> MAX_CLIENT_USER_AGENT_TOKEN_LENGTH then Some token else None))))"

section \<open>What can reach the AWS user agent\<close>

lemma takeWhile_all: "\<forall>c \<in> set (takeWhile P s). P c"
  by (auto dest: set_takeWhileD)

lemma dotted_part_chars:
  "dotted_part c s = Some (p, r) \<Longrightarrow> x \<in> set p \<Longrightarrow> x = c \<or> ident_char x \<or> x = CHR ''.''"
  by (auto simp: dotted_part_def Let_def split: list.splits if_splits dest: set_takeWhileD)

lemma version_core_chars:
  "version_core s = Some (v, r) \<Longrightarrow> x \<in> set v \<Longrightarrow> is_digit x \<or> x = CHR ''.''"
  by (auto simp: version_core_def Let_def split: if_splits dest: set_takeWhileD)

text \<open>Whatever a client sends as its user agent, the token that is appended to the AWS user agent
  has the form \<open>client/<lang>/<version>\<close>, at most 48 characters, all of them letters, digits, hyphens
  and dots, so it cannot add a space, a line break or a second token.\<close>

theorem user_agent_no_injection:
  assumes "validateClientUserAgentToken raw = Some token"
  shows "\<exists>lang version. token = ''client/'' @ lang @ ''/'' @ version \<and>
    lang \<noteq> [] \<and> version \<noteq> [] \<and> length token \<le> MAX_CLIENT_USER_AGENT_TOKEN_LENGTH \<and>
    (\<forall>c \<in> set lang. lower_letter c \<or> is_digit c) \<and> (\<forall>c \<in> set version. ident_char c \<or> c = CHR ''.'')"
proof -
  obtain s where s: "raw = Some s" using assms by (auto simp: validateClientUserAgentToken_def split: option.splits)
  define first where "first = hd (split_on (CHR '' '') (take (MAX_CLIENT_USER_AGENT_BYTES + 1) s))"
  obtain lang version where p: "CLIENT_USER_AGENT_PATTERN first = Some (lang, version)"
    using assms s by (auto simp: validateClientUserAgentToken_def first_def Let_def split: option.splits if_splits)
  have t: "token = ''client/'' @ lang @ ''/'' @ version" "length token \<le> MAX_CLIENT_USER_AGENT_TOKEN_LENGTH"
    using assms s p by (auto simp: validateClientUserAgentToken_def first_def Let_def split: if_splits)
  define r where "r = drop 11 first"
  have lang: "lang = takeWhile (\<lambda>c. lower_letter c \<or> is_digit c) r" "lang \<noteq> []"
    using p by (auto simp: CLIENT_USER_AGENT_PATTERN_def r_def Let_def split: if_splits option.splits list.splits)
  obtain core r2 pre r3 where v: "version_core (tl (drop (length lang) r)) = Some (core, r2)"
      "dotted_part (CHR ''-'') r2 = Some (pre, r3)" "version = core @ pre"
    using p by (auto simp: CLIENT_USER_AGENT_PATTERN_def r_def Let_def split: if_splits option.splits list.splits)
  have "core \<noteq> []" using v(1) by (auto simp: version_core_def Let_def split: if_splits)
  moreover have "ident_char (CHR ''-'')" by (simp add: ident_char_def)
  ultimately have "\<forall>c \<in> set version. ident_char c \<or> c = CHR ''.''" "version \<noteq> []"
    using v(3) version_core_chars [OF v(1)] dotted_part_chars [OF v(2)] by (auto simp: ident_char_def)
  with t lang takeWhile_all [of "\<lambda>c. lower_letter c \<or> is_digit c" r] show ?thesis by blast
qed

lemma user_agent_no_injection_witness:
  "validateClientUserAgentToken (Some ''aws-blocks-dart/0.1.4+1 extra'') = Some ''client/dart/0.1.4'' \<and>
   (\<exists>lang version. ''client/dart/0.1.4'' = ''client/'' @ lang @ ''/'' @ version)"
proof -
  have h: "validateClientUserAgentToken (Some ''aws-blocks-dart/0.1.4+1 extra'') = Some ''client/dart/0.1.4''"
    by code_simp
  from user_agent_no_injection [OF h] h show ?thesis by blast
qed

end
