(* ===== verification/RpcDispatch.thy ===== *)
theory RpcDispatch
  imports Json
begin

text \<open>
  \<^verbatim>\<open>packages/core/src/rpc-dispatch.ts\<close>: which export of a backend module, and which
  member of what it returns, a request may call.

  A backend value is what the guards look at: its \<open>typeof\<close>, the values found under the
  namespace marker and the managed-value brand, its \<open>id\<close> and \<open>fullId\<close>, its own properties
  (each with its enumerable flag and the function it holds, if any) and the members its class
  prototypes define.  Looking a member up may end in \<open>Object.prototype\<close>: such a built-in is
  \<open>Builtin\<close>, a function of the application is \<open>Handler\<close>.
\<close>

datatype jskind = KFunction | KObject | KOther

datatype 'h callee = Handler 'h | Builtin string

record 'h bvalue =
  bv_kind :: jskind
  bv_marker :: jsval
  bv_managed :: jsval
  bv_id :: jsval
  bv_fullId :: jsval
  bv_own :: "(string \<times> bool \<times> 'h option) list"
  bv_proto :: "(string \<times> 'h option) list"

definition isApiNamespace :: "'h bvalue \<Rightarrow> bool" where
  "isApiNamespace v = (bv_kind v \<noteq> KOther \<and> is_str (bv_marker v))"

definition isScopeLike :: "'h bvalue \<Rightarrow> bool" where
  "isScopeLike v = (bv_kind v = KObject \<and> is_str (bv_id v) \<and> is_str (bv_fullId v))"

definition isManagedValue :: "'h bvalue \<Rightarrow> bool" where
  "isManagedValue v = (bv_kind v = KObject \<and> bv_managed v = Bool True)"

definition isDispatchableExport :: "string \<Rightarrow> 'h bvalue \<Rightarrow> bool" where
  "isDispatchableExport name v =
     (if starts_with name ''_'' then False
      else if isApiNamespace v then True
      else if bv_kind v = KOther then False
      else \<not> isScopeLike v \<and> \<not> isManagedValue v)"

text \<open>The backend module is the list of its own exports, \<open>None\<close> when it is no object.\<close>

definition resolveApiNamespace :: "(string \<times> 'h bvalue) list option \<Rightarrow> string \<Rightarrow> 'h bvalue option" where
  "resolveApiNamespace backend apiNamespace =
     (case backend of
        None \<Rightarrow> None
      | Some exports \<Rightarrow>
          (case obj_get exports apiNamespace of
             None \<Rightarrow> None
           | Some v \<Rightarrow> if isDispatchableExport apiNamespace v then Some v else None))"

definition object_prototype :: "string list" where
  "object_prototype =
     [''constructor'', ''__defineGetter__'', ''__defineSetter__'', ''hasOwnProperty'', ''__lookupGetter__'',
      ''__lookupSetter__'', ''isPrototypeOf'', ''propertyIsEnumerable'', ''toString'', ''valueOf'',
      ''__proto__'', ''toLocaleString'']"

text \<open>
  \<open>v[name]\<close> when it is a function: an own property hides the class prototypes, which hide
  \<open>Object.prototype\<close> (whose \<open>__proto__\<close> is an accessor, not a function).
\<close>

definition lookup_function :: "'h bvalue \<Rightarrow> string \<Rightarrow> 'h callee option" where
  "lookup_function v name =
     (case obj_get (bv_own v) name of
        Some (_, f) \<Rightarrow> map_option Handler f
      | None \<Rightarrow>
          (case obj_get (bv_proto v) name of
             Some f \<Rightarrow> map_option Handler f
           | None \<Rightarrow>
               if name \<in> set object_prototype \<and> name \<noteq> ''__proto__'' then Some (Builtin name) else None))"

definition resolveApiMethod :: "'h bvalue \<Rightarrow> string \<Rightarrow> 'h callee option" where
  "resolveApiMethod apiMethods name =
     (if bv_kind apiMethods \<noteq> KObject then None
      else if isScopeLike apiMethods then None
      else if name \<in> set object_prototype \<and> \<not> obj_has (bv_own apiMethods) name then None
      else if name = ''__proto__'' \<or> name = ''constructor'' then None
      else if (case obj_get (bv_own apiMethods) name of Some (enumerable, _) \<Rightarrow> \<not> enumerable | None \<Rightarrow> False) then None
      else lookup_function apiMethods name)"

definition dispatchableExportNames :: "(string \<times> 'h bvalue) list option \<Rightarrow> string list" where
  "dispatchableExportNames backend =
     (case backend of
        None \<Rightarrow> []
      | Some exports \<Rightarrow> map fst (filter (\<lambda>(n, v). isDispatchableExport n v) exports))"

section \<open>What a request can reach\<close>

lemma dispatchable_private: "isDispatchableExport name v \<Longrightarrow> \<not> starts_with name ''_''"
  by (simp add: isDispatchableExport_def split: if_splits)

text \<open>A request selects only a dispatchable own export: never a private name, a primitive, or a
  Building Block instance or managed value (unless it is marked as an API namespace), and the
  selectable names are exactly the ones the development error message lists.\<close>

theorem namespace_resolution:
  "resolveApiNamespace backend name = Some v \<Longrightarrow>
     \<not> starts_with name ''_'' \<and> bv_kind v \<noteq> KOther \<and>
     (isScopeLike v \<or> isManagedValue v \<longrightarrow> isApiNamespace v) \<and>
     name \<in> set (dispatchableExportNames backend)"
  by (force simp: resolveApiNamespace_def isDispatchableExport_def isApiNamespace_def
      dispatchableExportNames_def split: option.splits if_splits dest!: obj_get_in_set)

definition plain_handler_object :: "nat bvalue" where
  "plain_handler_object =
     \<lparr>bv_kind = KObject, bv_marker = Str ''api'', bv_managed = Undef, bv_id = Undef, bv_fullId = Undef,
      bv_own = [(''list'', True, Some 1), (''hidden'', False, Some 2)], bv_proto = [(''find'', Some 3)]\<rparr>"

lemma namespace_resolution_witness:
  "resolveApiNamespace (Some [(''todos'', plain_handler_object)]) ''todos'' = Some plain_handler_object \<and>
   \<not> starts_with ''todos'' ''_'' \<and> ''todos'' \<in> set (dispatchableExportNames (Some [(''todos'', plain_handler_object)]))"
proof -
  have h: "resolveApiNamespace (Some [(''todos'', plain_handler_object)]) ''todos'' = Some plain_handler_object"
    by (simp add: resolveApiNamespace_def isDispatchableExport_def isApiNamespace_def plain_handler_object_def is_str_def)
  from namespace_resolution [OF h] h show ?thesis by blast
qed

text \<open>A method call reaches only application code: a function that is an enumerable own property
  or a class-prototype member of a non-Building-Block object, and never a member of
  \<open>Object.prototype\<close>.\<close>

theorem method_resolution:
  "resolveApiMethod v name = Some f \<Longrightarrow>
     (\<exists>h. f = Handler h \<and>
        (obj_get (bv_own v) name = Some (True, Some h) \<or>
         (\<not> obj_has (bv_own v) name \<and> obj_get (bv_proto v) name = Some (Some h) \<and> name \<notin> set object_prototype))) \<and>
     bv_kind v = KObject \<and> \<not> isScopeLike v"
  by (auto simp: resolveApiMethod_def lookup_function_def obj_has_get split: if_splits option.splits)

lemma method_resolution_witness:
  "resolveApiMethod plain_handler_object ''find'' = Some (Handler 3) \<and> \<not> isScopeLike plain_handler_object"
proof -
  have h: "resolveApiMethod plain_handler_object ''find'' = Some (Handler 3)"
    by (simp add: resolveApiMethod_def plain_handler_object_def isScopeLike_def is_str_def object_prototype_def lookup_function_def)
  from method_resolution [OF h] h show ?thesis by blast
qed

end
