(* ===== verification/Dispatch.thy ===== *)
theory Dispatch
  imports Cors RawRoute SetCookie ClientUserAgent RpcDispatch
begin

text \<open>
  \<^verbatim>\<open>packages/core/src/dispatch.ts\<close>: the transport-neutral HTTP dispatcher.  The handlers
  of the application are parameters (record \<open>app\<close>): a namespace factory, an RPC method and a raw
  route each take the world and the response so far and return their outcome with both changed.
  Everything the dispatcher itself changes or reports is in \<open>dstate\<close>; \<open>d_events\<close> lists, in order,
  the calls of its callbacks and its own log lines.
\<close>

section \<open>Headers\<close>

text \<open>
  A \<open>Headers\<close> object: its entries as iteration gives them, in order of their lower-case names, and
  its \<open>Set-Cookie\<close> values.
\<close>

record headers =
  h_entries :: "(string \<times> string) list"
  h_cookies :: "string list"

fun name_less :: "string \<Rightarrow> string \<Rightarrow> bool" where
  "name_less [] [] = False"
| "name_less [] (y # ys) = True"
| "name_less (x # xs) [] = False"
| "name_less (x # xs) (y # ys) = (char_code x < char_code y \<or> (x = y \<and> name_less xs ys))"

fun insert_header :: "string \<Rightarrow> string \<Rightarrow> (string \<times> string) list \<Rightarrow> (string \<times> string) list" where
  "insert_header n v [] = [(n, v)]"
| "insert_header n v ((m, w) # hs) =
     (if n = m then (m, w @ '', '' @ v) # hs
      else if name_less n m then (n, v) # (m, w) # hs
      else (m, w) # insert_header n v hs)"

definition headers_append :: "headers \<Rightarrow> string \<times> string \<Rightarrow> headers" where
  "headers_append hs nv =
     (let (name, value) = nv; n = to_lower name in
      if n = ''set-cookie'' then hs\<lparr>h_cookies := h_cookies hs @ [value]\<rparr>
      else hs\<lparr>h_entries := insert_header n value (h_entries hs)\<rparr>)"

definition new_Headers :: "(string \<times> string) list \<Rightarrow> headers" where
  "new_Headers init = foldl headers_append \<lparr>h_entries = [], h_cookies = []\<rparr> init"

definition setCookiesOf :: "headers \<Rightarrow> string list" where
  "setCookiesOf hs = h_cookies hs"

definition withoutSetCookie :: "headers \<Rightarrow> (string \<times> string) list" where
  "withoutSetCookie hs = filter (\<lambda>(k, v). to_lower k \<noteq> ''set-cookie'') (h_entries hs)"

text \<open>\<open>{ ...a, ...b }\<close>.\<close>

definition spread :: "(string \<times> 'v) list \<Rightarrow> (string \<times> 'v) list \<Rightarrow> (string \<times> 'v) list" where
  "spread a b = foldl (\<lambda>ps (k, v). obj_set k v ps) a b"

definition NO_STORE_HEADERS :: "(string \<times> string) list" where
  "NO_STORE_HEADERS =
     [(''Cache-Control'', ''no-store, no-cache, must-revalidate, proxy-revalidate''),
      (''Pragma'', ''no-cache''), (''Expires'', ''0'')]"

definition rpcResponseHeaders :: "(string \<times> string) list \<Rightarrow> (string \<times> string) list" where
  "rpcResponseHeaders corsHeaders =
     spread (spread [(''Content-Type'', ''application/json'')] corsHeaders) NO_STORE_HEADERS"

section \<open>Requests, responses, handlers\<close>

text \<open>
  \<open>headers\<close>, \<open>url\<close> and \<open>body\<close> are factories that may throw; \<open>dq_aborted\<close> reads the signal in the
  world the handler left.
\<close>

record 'w DispatchRequest =
  dq_method :: string
  dq_path :: string
  dq_origin :: string
  dq_cookie :: string
  dq_clientUserAgent :: "string option"
  dq_headers :: "(thrown, headers) res"
  dq_url :: "(thrown, string) res"
  dq_body :: "(thrown, string) res"
  dq_aborted :: "'w \<Rightarrow> bool"
  dq_requestId :: "string option"

datatype DispatchResponseKind = CorsRejected | Preflight | NotFound | RawRouteResponse | RpcResult | RpcEnvelope

record DispatchResponse =
  dr_kind :: DispatchResponseKind
  dr_status :: jsval
  dr_headers :: "(string \<times> string) list"
  dr_cookies :: "string list"
  dr_body :: string

text \<open>What a handler sees of the request, and the response it may change.\<close>

record handler_request =
  hq_headers :: headers
  hq_body :: string
  hq_url :: string
  hq_params :: "string props"
  hq_cookie :: string
  hq_clientUserAgent :: "string option"

record handler_response =
  hr_status :: int
  hr_headers :: headers
  hr_body :: jsval

record ('w, 'h) app =
  call_namespace :: "string \<Rightarrow> handler_request \<Rightarrow> handler_response \<times> 'w \<Rightarrow> (thrown, 'h bvalue) res \<times> handler_response \<times> 'w"
  call_method :: "'h callee \<Rightarrow> jsval list \<Rightarrow> handler_response \<times> 'w \<Rightarrow> (thrown, jsval) res \<times> handler_response \<times> 'w"
  call_route :: "'h \<Rightarrow> handler_request \<Rightarrow> handler_response \<times> 'w \<Rightarrow> (thrown, unit) res \<times> handler_response \<times> 'w"

datatype handler_source = SourceRpc string string | SourceRawRoute

datatype dispatch_event =
    EvRpcError jsval string string
  | EvHandlerError handler_source thrown
  | EvNoRoute string string nat nat
  | EvParseError string
  | EvCall string string "jsval list"
  | EvResult string string jsval

record ('w, 'c, 'h) dstate =
  d_world :: 'w
  d_cors :: 'c
  d_routes :: "'h core_global"
  d_events :: "dispatch_event list"

abbreviation emit :: "dispatch_event \<Rightarrow> ('w, 'c, 'h) dstate \<Rightarrow> ('w, 'c, 'h) dstate" where
  "emit ev st \<equiv> st\<lparr>d_events := d_events st @ [ev]\<rparr>"

text \<open>A CORS policy, over a state of its own.\<close>

record 'c DispatchCorsPolicy =
  policy_rejects :: "string \<Rightarrow> 'c \<Rightarrow> (thrown, bool \<times> 'c) res"
  policy_headers :: "string \<Rightarrow> 'c \<Rightarrow> (thrown, (string \<times> string) list \<times> 'c) res"

definition ALLOWLIST_CORS_POLICY :: "'r regexp_api \<Rightarrow> cors_env \<Rightarrow> 'r cors_state DispatchCorsPolicy" where
  "ALLOWLIST_CORS_POLICY api env =
     \<lparr>policy_rejects = (\<lambda>origin st.
        bindR (getCorsPatterns api env st) (\<lambda>(patterns, st).
          if patterns \<noteq> None
          then bindR (isOriginAllowed api env st origin) (\<lambda>(allowed, st). Inr (\<not> allowed, st))
          else Inr (False, st))),
      policy_headers = (\<lambda>origin st. buildCorsHeaders api env st origin)\<rparr>"

record dispatch_options =
  opt_listApis :: bool
  opt_copy :: nat
  opt_now :: int
  opt_date_parse :: "string \<Rightarrow> int option"

definition new_response :: "(string \<times> string) list \<Rightarrow> handler_response" where
  "new_response hs = \<lparr>hr_status = 200, hr_headers = new_Headers hs, hr_body = Undef\<rparr>"

section \<open>Raw routes\<close>

definition dispatchRawRoute ::
  "('w, 'h) app \<Rightarrow> 'w DispatchRequest \<Rightarrow> string option \<Rightarrow> 'h RegisteredRoute \<Rightarrow> string props \<Rightarrow>
   (string \<times> string) list \<Rightarrow> ('w, 'c, 'h) dstate \<Rightarrow> (thrown, DispatchResponse) res \<times> ('w, 'c, 'h) dstate" where
  "dispatchRawRoute app request userAgent route params corsHeaders st =
     (case dq_headers request of
        Inl e \<Rightarrow> (Inl e, st)
      | Inr headers \<Rightarrow>
     (case dq_body request of
        Inl e \<Rightarrow> (Inl e, st)
      | Inr bodyText \<Rightarrow>
     (case dq_url request of
        Inl e \<Rightarrow> (Inl e, st)
      | Inr url \<Rightarrow>
          (let hq = \<lparr>hq_headers = headers, hq_body = bodyText, hq_url = url, hq_params = params,
                     hq_cookie = dq_cookie request, hq_clientUserAgent = userAgent\<rparr>;
               (outcome, hr, w) = call_route app (route_handler route) hq
                  (new_response (rpcResponseHeaders corsHeaders), d_world st);
               st = st\<lparr>d_world := w\<rparr>
           in case outcome of
                Inr _ \<Rightarrow>
                  (Inr \<lparr>dr_kind = RawRouteResponse, dr_status = Num (hr_status hr),
                        dr_headers = withoutSetCookie (hr_headers hr), dr_cookies = setCookiesOf (hr_headers hr),
                        dr_body = (case hr_body hr of Undef \<Rightarrow> [] | Str s \<Rightarrow> s | v \<Rightarrow> to_json v)\<rparr>, st)
              | Inl e \<Rightarrow>
                  (let (status, body) = rawRouteErrorFromCatch e in
                   (Inr \<lparr>dr_kind = RawRouteResponse, dr_status = status,
                         dr_headers = withoutSetCookie (hr_headers hr), dr_cookies = setCookiesOf (hr_headers hr),
                         dr_body = body\<rparr>, emit (EvHandlerError SourceRawRoute e) st))))))"

section \<open>RPC calls\<close>

definition rpcEnvelope :: "(string \<times> string) list \<Rightarrow> string \<Rightarrow> DispatchResponse" where
  "rpcEnvelope rpcHeaders body =
     \<lparr>dr_kind = RpcEnvelope, dr_status = Num 200, dr_headers = rpcHeaders, dr_cookies = [], dr_body = body\<rparr>"

text \<open>\<open>typeof apiHandler === 'function' ? apiHandler(context) : apiHandler\<close>.\<close>

definition namespace_methods ::
  "('w, 'h) app \<Rightarrow> 'h bvalue \<Rightarrow> string \<Rightarrow> handler_request \<Rightarrow> handler_response \<Rightarrow> 'w \<Rightarrow>
   (thrown, 'h bvalue) res \<times> handler_response \<times> 'w" where
  "namespace_methods app apiHandler ns hq hr w =
     (if bv_kind apiHandler = KFunction then call_namespace app ns hq (hr, w) else (Inr apiHandler, hr, w))"

text \<open>The \<open>try\<close> block: the response or what was thrown, and \<open>responseHeaders\<close> as it was left.\<close>

definition call_rpc ::
  "dispatch_options \<Rightarrow> ('w, 'h) app \<Rightarrow> (string \<times> 'h bvalue) list option \<Rightarrow> 'w DispatchRequest \<Rightarrow> string option \<Rightarrow>
   string \<Rightarrow> (string \<times> string) list \<Rightarrow> RpcParsedRequest \<Rightarrow> ('w, 'c, 'h) dstate \<Rightarrow>
   (thrown, DispatchResponse) res \<times> headers option \<times> ('w, 'c, 'h) dstate" where
  "call_rpc opts app backend request userAgent bodyText rpcHeaders parsed st =
     (let ns = rq_apiNamespace parsed; method = rq_method parsed; rpcId = rq_id parsed in
      case dq_headers request of
        Inl e \<Rightarrow> (Inl e, None, st)
      | Inr headers \<Rightarrow>
          (let hr = new_response rpcHeaders in
           case dq_url request of
             Inl e \<Rightarrow> (Inl e, Some (hr_headers hr), st)
           | Inr url \<Rightarrow>
               (case resolveApiNamespace backend ns of
                  None \<Rightarrow>
                    (let available = (if opt_listApis opts
                           then ''. Available: '' @ join '', '' (dispatchableExportNames backend) else []) in
                     (Inr (rpcEnvelope rpcHeaders
                        (methodNotFoundResponse (''API '' @ quoted ns @ '' not found'' @ available) rpcId)),
                      Some (hr_headers hr), emit (EvRpcError (Num 404) ns method) st))
                | Some apiHandler \<Rightarrow>
                    (let hq = \<lparr>hq_headers = headers, hq_body = bodyText, hq_url = url, hq_params = [],
                               hq_cookie = dq_cookie request, hq_clientUserAgent = userAgent\<rparr>;
                         (methods, hr, w) =
                           namespace_methods app apiHandler ns hq hr (d_world st);
                         st = st\<lparr>d_world := w\<rparr>
                     in case methods of
                          Inl e \<Rightarrow> (Inl e, Some (hr_headers hr), st)
                        | Inr apiMethods \<Rightarrow>
                            (case resolveApiMethod apiMethods method of
                               None \<Rightarrow>
                                 (Inr (rpcEnvelope rpcHeaders
                                    (methodNotFoundResponse (quoted method @ '' on API '' @ quoted ns) rpcId)),
                                  Some (hr_headers hr), emit (EvRpcError (Num 404) ns method) st)
                             | Some apiMethod \<Rightarrow>
                                 (let (outcome, hr, w) = call_method app apiMethod (rq_args parsed) (hr, d_world st);
                                      st = st\<lparr>d_world := w\<rparr>
                                  in case outcome of
                                       Inl e \<Rightarrow> (Inl e, Some (hr_headers hr), st)
                                     | Inr result \<Rightarrow>
                                         (let value = nullish_or (hr_body hr) result in
                                          (Inr \<lparr>dr_kind = RpcResult, dr_status = Num (hr_status hr),
                                                dr_headers = withoutSetCookie (hr_headers hr),
                                                dr_cookies = setCookiesOf (hr_headers hr),
                                                dr_body = successResponse value rpcId\<rparr>,
                                           Some (hr_headers hr), emit (EvResult ns method value) st))))))))"

definition dispatch_rpc ::
  "dispatch_options \<Rightarrow> ('w, 'h) app \<Rightarrow> (string \<times> 'h bvalue) list option \<Rightarrow> 'w DispatchRequest \<Rightarrow> string option \<Rightarrow>
   (string \<times> string) list \<Rightarrow> ('w, 'c, 'h) dstate \<Rightarrow> (thrown, DispatchResponse) res \<times> ('w, 'c, 'h) dstate" where
  "dispatch_rpc opts app backend request userAgent corsHeaders st =
     (let rpcHeaders = rpcResponseHeaders corsHeaders in
      case dq_body request of
        Inl e \<Rightarrow> (Inl e, st)
      | Inr bodyText \<Rightarrow>
          (case parseRpcRequest bodyText (Some (dq_path request)) of
             Inl response \<Rightarrow> (Inr (rpcEnvelope rpcHeaders response), emit (EvParseError response) st)
           | Inr parsed \<Rightarrow>
               (let st = emit (EvCall (rq_apiNamespace parsed) (rq_method parsed) (rq_args parsed)) st;
                    (outcome, responseHeaders, st) =
                      call_rpc opts app backend request userAgent bodyText rpcHeaders parsed st
                in case outcome of
                     Inr response \<Rightarrow> (Inr response, st)
                   | Inl e \<Rightarrow>
                       (let st = emit (EvHandlerError (SourceRpc (rq_apiNamespace parsed) (rq_method parsed)) e) st;
                            st = (if dq_aborted request (d_world st) then st
                                  else emit (EvRpcError (san_status (sanitizeCaughtError e))
                                         (rq_apiNamespace parsed) (rq_method parsed)) st)
                        in (Inr ((rpcEnvelope rpcHeaders (errorResponseFromCatch e (rq_id parsed)))
                              \<lparr>dr_cookies := errorResponseSetCookies (opt_date_parse opts)
                                 (map_option setCookiesOf responseHeaders) (opt_now opts)\<rparr>), st)))))"

section \<open>The dispatcher\<close>

definition not_found_response :: "(string \<times> string) list \<Rightarrow> DispatchResponse" where
  "not_found_response corsHeaders =
     \<lparr>dr_kind = NotFound, dr_status = Num 404,
      dr_headers = spread [(''Content-Type'', ''application/json'')] corsHeaders, dr_cookies = [],
      dr_body = to_json (Obj [(''error'', Str ''Not Found'')])\<rparr>"

definition dispatch_within_stores ::
  "dispatch_options \<Rightarrow> ('w, 'h) app \<Rightarrow> (string \<times> 'h bvalue) list option \<Rightarrow> 'w DispatchRequest \<Rightarrow> string option \<Rightarrow>
   (string \<times> string) list \<Rightarrow> ('w, 'c, 'h) dstate \<Rightarrow> (thrown, DispatchResponse) res \<times> ('w, 'c, 'h) dstate" where
  "dispatch_within_stores opts app backend request userAgent corsHeaders st =
     (if \<not> isRpcPath (dq_path request) then
        (let (matched, g) = matchRoute (opt_copy opts) (dq_method request) (dq_path request) (d_routes st);
             st = st\<lparr>d_routes := g\<rparr> in
         case matched of
           Some (route, params) \<Rightarrow> dispatchRawRoute app request userAgent route params corsHeaders st
         | None \<Rightarrow>
             (let (copies, g) = getLoadedCoreCopies (opt_copy opts) (d_routes st);
                  (routes, g) = getRegisteredRoutes (opt_copy opts) g in
              (Inr (not_found_response corsHeaders),
               emit (EvNoRoute (dq_method request) (dq_path request) (length routes) copies) (st\<lparr>d_routes := g\<rparr>))))
      else dispatch_rpc opts app backend request userAgent corsHeaders st)"

definition CLIENT_USER_AGENT_HEADER :: string where
  "CLIENT_USER_AGENT_HEADER = ''x-blocks-user-agent''"

definition preflight_response :: "(string \<times> string) list \<Rightarrow> DispatchResponse" where
  "preflight_response corsHeaders =
     \<lparr>dr_kind = Preflight, dr_status = Num 200,
      dr_headers = spread corsHeaders
        [(''Access-Control-Allow-Methods'', ''GET, POST, PUT, DELETE, PATCH, HEAD, OPTIONS''),
         (''Access-Control-Allow-Headers'', ''Content-Type, Authorization, '' @ CLIENT_USER_AGENT_HEADER),
         (''Access-Control-Max-Age'', CORS_MAX_AGE)],
      dr_cookies = [], dr_body = []\<rparr>"

definition rejection_response :: DispatchResponse where
  "rejection_response =
     (let (statusCode, headers, body) = corsRejection in
      \<lparr>dr_kind = CorsRejected, dr_status = Num (int statusCode), dr_headers = headers, dr_cookies = [], dr_body = body\<rparr>)"

definition dispatcher ::
  "dispatch_options \<Rightarrow> 'c DispatchCorsPolicy \<Rightarrow> ('w, 'h) app \<Rightarrow> (string \<times> 'h bvalue) list option \<Rightarrow> 'w DispatchRequest \<Rightarrow>
   ('w, 'c, 'h) dstate \<Rightarrow> (thrown, DispatchResponse) res \<times> ('w, 'c, 'h) dstate" where
  "dispatcher opts cors app backend request st =
     (let origin = dq_origin request in
      case policy_headers cors origin (d_cors st) of
        Inl e \<Rightarrow> (Inl e, st)
      | Inr (corsHeaders, c) \<Rightarrow>
          (let st = st\<lparr>d_cors := c\<rparr> in
           case (if origin \<noteq> [] then policy_rejects cors origin (d_cors st) else Inr (False, d_cors st)) of
             Inl e \<Rightarrow> (Inl e, st)
           | Inr (rejected, c) \<Rightarrow>
               (let st = st\<lparr>d_cors := c\<rparr> in
                if rejected then (Inr rejection_response, st)
                else if dq_method request = ''OPTIONS'' then (Inr (preflight_response corsHeaders), st)
                else dispatch_within_stores opts app backend request
                       (validateClientUserAgentToken (dq_clientUserAgent request)) corsHeaders st)))"

section \<open>The outcomes of an RPC call\<close>

lemma call_rpc_cases:
  assumes "call_rpc opts app backend request ua text rpcHeaders parsed st = (out, rh, st')"
  shows "(\<exists>e. out = Inl e \<and> d_events st' = d_events st) \<or>
    (\<exists>body. out = Inr (rpcEnvelope rpcHeaders body) \<and>
       d_events st' = d_events st @ [EvRpcError (Num 404) (rq_apiNamespace parsed) (rq_method parsed)]) \<or>
    (\<exists>r v. out = Inr r \<and> dr_kind r = RpcResult \<and>
       d_events st' = d_events st @ [EvResult (rq_apiNamespace parsed) (rq_method parsed) v])"
proof (cases "dq_headers request")
  case (Inl e)
  then show ?thesis using assms by (auto simp: call_rpc_def Let_def)
next
  case (Inr hs)
  show ?thesis
  proof (cases "dq_url request")
    case (Inl e)
    then show ?thesis using assms Inr by (auto simp: call_rpc_def Let_def)
  next
    case (Inr url)
    show ?thesis
    proof (cases "resolveApiNamespace backend (rq_apiNamespace parsed)")
      case None
      then show ?thesis using assms \<open>dq_headers request = Inr hs\<close> Inr by (auto simp: call_rpc_def Let_def)
    next
      case (Some v)
      define hq where "hq = \<lparr>hq_headers = hs, hq_body = text, hq_url = url, hq_params = [],
          hq_cookie = dq_cookie request, hq_clientUserAgent = ua\<rparr>"
      obtain methods hr w where m: "namespace_methods app v (rq_apiNamespace parsed) hq (new_response rpcHeaders) (d_world st) = (methods, hr, w)"
        by (metis surj_pair)
      note unf = assms [unfolded call_rpc_def Let_def \<open>dq_headers request = Inr hs\<close> Inr Some sum.case option.case
          hq_def [symmetric] m prod.case]
      show ?thesis
      proof (cases methods)
        case (Inl e)
        then show ?thesis using unf by auto
      next
        case (Inr ms)
        show ?thesis
        proof (cases "resolveApiMethod ms (rq_method parsed)")
          case None
          then show ?thesis using unf Inr by auto
        next
          case (Some f)
          then show ?thesis using unf Inr by (auto split: prod.splits sum.splits)
        qed
      qed
    qed
  qed
qed

text \<open>The outcomes of the whole RPC branch.\<close>

lemma dispatch_rpc_cases:
  assumes "dispatch_rpc opts app backend request ua corsHeaders st = (Inr r, st')"
  shows "(\<exists>body ev. r = rpcEnvelope (rpcResponseHeaders corsHeaders) body \<and> d_world st' = d_world st \<and>
       d_events st' = d_events st @ [EvParseError ev]) \<or>
    (\<exists>ns m args body. r = rpcEnvelope (rpcResponseHeaders corsHeaders) body \<and>
       d_events st' = d_events st @ [EvCall ns m args, EvRpcError (Num 404) ns m]) \<or>
    (\<exists>ns m args v. dr_kind r = RpcResult \<and> d_events st' = d_events st @ [EvCall ns m args, EvResult ns m v]) \<or>
    (\<exists>ns m args e i cookies. r = (rpcEnvelope (rpcResponseHeaders corsHeaders) (errorResponseFromCatch e i))
         \<lparr>dr_cookies := errorResponseSetCookies (opt_date_parse opts) cookies (opt_now opts)\<rparr> \<and>
       d_events st' = d_events st @ [EvCall ns m args, EvHandlerError (SourceRpc ns m) e] @
         (if dq_aborted request (d_world st') then [] else [EvRpcError (san_status (sanitizeCaughtError e)) ns m]))"
proof -
  obtain btext where btext: "dq_body request = Inr btext"
    using assms by (cases "dq_body request") (auto simp: dispatch_rpc_def Let_def)
  show ?thesis
  proof (cases "parseRpcRequest btext (Some (dq_path request))")
    case (Inl resp)
    then show ?thesis using assms btext by (auto simp: dispatch_rpc_def Let_def)
  next
    case (Inr parsed)
    define st0 where "st0 = emit (EvCall (rq_apiNamespace parsed) (rq_method parsed) (rq_args parsed)) st"
    obtain out rh st1 where c: "call_rpc opts app backend request ua btext (rpcResponseHeaders corsHeaders) parsed st0 = (out, rh, st1)"
      by (metis surj_pair)
    note unf = assms [unfolded dispatch_rpc_def Let_def btext Inr sum.case st0_def [symmetric] c prod.case]
    from call_rpc_cases [OF c] show ?thesis
    proof (elim disjE exE conjE)
      fix e
      assume h: "out = Inl e" "d_events st1 = d_events st0"
      have "r = (rpcEnvelope (rpcResponseHeaders corsHeaders) (errorResponseFromCatch e (rq_id parsed)))
          \<lparr>dr_cookies := errorResponseSetCookies (opt_date_parse opts) (map_option setCookiesOf rh) (opt_now opts)\<rparr>"
        using unf h(1) by simp
      moreover have "d_events st' = d_events st @
          [EvCall (rq_apiNamespace parsed) (rq_method parsed) (rq_args parsed),
           EvHandlerError (SourceRpc (rq_apiNamespace parsed) (rq_method parsed)) e] @
          (if dq_aborted request (d_world st') then []
           else [EvRpcError (san_status (sanitizeCaughtError e)) (rq_apiNamespace parsed) (rq_method parsed)])"
        using unf h by (cases "dq_aborted request (d_world st1)") (auto simp: st0_def)
      ultimately show ?thesis by blast
    next
      fix body
      assume h: "out = Inr (rpcEnvelope (rpcResponseHeaders corsHeaders) body)"
        "d_events st1 = d_events st0 @ [EvRpcError (Num 404) (rq_apiNamespace parsed) (rq_method parsed)]"
      then have "r = rpcEnvelope (rpcResponseHeaders corsHeaders) body" "d_events st' = d_events st @
          [EvCall (rq_apiNamespace parsed) (rq_method parsed) (rq_args parsed),
           EvRpcError (Num 404) (rq_apiNamespace parsed) (rq_method parsed)]"
        using unf by (simp_all add: st0_def)
      then show ?thesis by blast
    next
      fix r0 v
      assume h: "out = Inr r0" "dr_kind r0 = RpcResult"
        "d_events st1 = d_events st0 @ [EvResult (rq_apiNamespace parsed) (rq_method parsed) v]"
      then have "dr_kind r = RpcResult" "d_events st' = d_events st @
          [EvCall (rq_apiNamespace parsed) (rq_method parsed) (rq_args parsed),
           EvResult (rq_apiNamespace parsed) (rq_method parsed) v]"
        using unf by (simp_all add: st0_def)
      then show ?thesis by blast
    qed
  qed
qed

text \<open>The branches of the dispatcher.\<close>

lemma dispatcher_cases:
  assumes "dispatcher opts cors app backend request st = (Inr r, st')"
  obtains corsHeaders c1 c2 rejected where
    "policy_headers cors (dq_origin request) (d_cors st) = Inr (corsHeaders, c1)"
    "(if dq_origin request \<noteq> [] then policy_rejects cors (dq_origin request) c1 else Inr (False, c1)) = Inr (rejected, c2)"
    "(if rejected then r = rejection_response \<and> st' = st\<lparr>d_cors := c2\<rparr>
      else if dq_method request = ''OPTIONS'' then r = preflight_response corsHeaders \<and> st' = st\<lparr>d_cors := c2\<rparr>
      else dispatch_within_stores opts app backend request (validateClientUserAgentToken (dq_clientUserAgent request))
             corsHeaders (st\<lparr>d_cors := c2\<rparr>) = (Inr r, st'))"
proof -
  obtain corsHeaders c1 where h: "policy_headers cors (dq_origin request) (d_cors st) = Inr (corsHeaders, c1)"
    using assms by (cases "policy_headers cors (dq_origin request) (d_cors st)") (auto simp: dispatcher_def Let_def)
  define rj where "rj = (if dq_origin request \<noteq> [] then policy_rejects cors (dq_origin request) c1 else Inr (False, c1))"
  have e: "d_cors (st\<lparr>d_cors := c1\<rparr>) = c1" "st\<lparr>d_cors := c1, d_cors := c\<rparr> = st\<lparr>d_cors := c\<rparr>" for c by simp_all
  note unf = assms [unfolded dispatcher_def Let_def h sum.case prod.case e, folded rj_def]
  obtain rejected c2 where j: "rj = Inr (rejected, c2)" using unf by (cases rj) auto
  show ?thesis
    by (rule that [OF h j [unfolded rj_def]]) (use unf j in \<open>simp split: if_splits\<close>)
qed

lemma rpcEnvelope_sel [simp]:
  "dr_kind (rpcEnvelope hs b) = RpcEnvelope" "dr_status (rpcEnvelope hs b) = Num 200"
  "dr_headers (rpcEnvelope hs b) = hs" "dr_cookies (rpcEnvelope hs b) = []" "dr_body (rpcEnvelope hs b) = b"
  by (simp_all add: rpcEnvelope_def)

lemma fixed_kinds [simp]:
  "dr_kind rejection_response = CorsRejected" "dr_kind (preflight_response hs) = Preflight"
  "dr_kind (not_found_response hs) = NotFound"
  by (simp_all add: rejection_response_def corsRejection_def preflight_response_def not_found_response_def)

lemma raw_route_cases:
  assumes "dispatchRawRoute app request ua route params corsHeaders st = (Inr r, st')"
  shows "dr_kind r = RawRouteResponse \<and> (\<exists>evs. d_events st' = d_events st @ evs \<and>
    (\<forall>ev \<in> set evs. \<exists>e. ev = EvHandlerError SourceRawRoute e))"
  using assms
  by (auto simp: dispatchRawRoute_def Let_def split: sum.splits prod.splits)

text \<open>Below the preflight: an RPC path goes to RPC, any other path to its route or to a 404.\<close>

lemma within_stores_cases:
  assumes "dispatch_within_stores opts app backend request ua corsHeaders st = (Inr r, st')"
  shows "(isRpcPath (dq_path request) \<and> dispatch_rpc opts app backend request ua corsHeaders st = (Inr r, st')) \<or>
    (\<not> isRpcPath (dq_path request) \<and> r = not_found_response corsHeaders \<and> d_world st' = d_world st \<and>
       (\<exists>n k. d_events st' = d_events st @ [EvNoRoute (dq_method request) (dq_path request) n k])) \<or>
    (\<not> isRpcPath (dq_path request) \<and> dr_kind r = RawRouteResponse \<and>
       fst (matchRoute (opt_copy opts) (dq_method request) (dq_path request) (d_routes st)) \<noteq> None \<and>
       (\<exists>evs. d_events st' = d_events st @ evs \<and> (\<forall>ev \<in> set evs. \<exists>e. ev = EvHandlerError SourceRawRoute e)))"
proof (cases "isRpcPath (dq_path request)")
  case True
  then show ?thesis using assms by (simp add: dispatch_within_stores_def)
next
  case False
  obtain matched g where m: "matchRoute (opt_copy opts) (dq_method request) (dq_path request) (d_routes st) = (matched, g)"
    by fastforce
  show ?thesis
  proof (cases matched)
    case None
    then show ?thesis using assms False m
      by (auto simp: dispatch_within_stores_def Let_def split: prod.splits)
  next
    case (Some rp)
    obtain route params where rp: "rp = (route, params)" by fastforce
    have "dispatchRawRoute app request ua route params corsHeaders (st\<lparr>d_routes := g\<rparr>) = (Inr r, st')"
      using assms False m Some rp by (simp add: dispatch_within_stores_def Let_def)
    from raw_route_cases [OF this] show ?thesis using False m Some by simp
  qed
qed

text \<open>The four ends of a request.\<close>

lemma dispatcher_ends:
  assumes "dispatcher opts cors app backend request st = (Inr r, st')"
  obtains corsHeaders c1 c2 rejected ua where
    "policy_headers cors (dq_origin request) (d_cors st) = Inr (corsHeaders, c1)"
    "(if dq_origin request \<noteq> [] then policy_rejects cors (dq_origin request) c1 else Inr (False, c1)) = Inr (rejected, c2)"
    "(rejected \<and> r = rejection_response \<and> st' = st\<lparr>d_cors := c2\<rparr>) \<or>
     (\<not> rejected \<and> r = preflight_response corsHeaders \<and> st' = st\<lparr>d_cors := c2\<rparr>) \<or>
     (\<not> rejected \<and> isRpcPath (dq_path request) \<and>
        dispatch_rpc opts app backend request ua corsHeaders (st\<lparr>d_cors := c2\<rparr>) = (Inr r, st')) \<or>
     (\<not> rejected \<and> \<not> isRpcPath (dq_path request) \<and> r = not_found_response corsHeaders \<and> d_world st' = d_world st \<and>
        (\<exists>n k. d_events st' = d_events st @ [EvNoRoute (dq_method request) (dq_path request) n k])) \<or>
     (\<not> rejected \<and> \<not> isRpcPath (dq_path request) \<and> dr_kind r = RawRouteResponse \<and>
        fst (matchRoute (opt_copy opts) (dq_method request) (dq_path request) (d_routes st)) \<noteq> None \<and>
        (\<exists>evs. d_events st' = d_events st @ evs \<and> (\<forall>ev \<in> set evs. \<exists>e. ev = EvHandlerError SourceRawRoute e)))"
proof -
  obtain corsHeaders c1 c2 rejected where h: "policy_headers cors (dq_origin request) (d_cors st) = Inr (corsHeaders, c1)"
    "(if dq_origin request \<noteq> [] then policy_rejects cors (dq_origin request) c1 else Inr (False, c1)) = Inr (rejected, c2)"
    and d: "if rejected then r = rejection_response \<and> st' = st\<lparr>d_cors := c2\<rparr>
      else if dq_method request = ''OPTIONS'' then r = preflight_response corsHeaders \<and> st' = st\<lparr>d_cors := c2\<rparr>
      else dispatch_within_stores opts app backend request (validateClientUserAgentToken (dq_clientUserAgent request))
             corsHeaders (st\<lparr>d_cors := c2\<rparr>) = (Inr r, st')"
    by (rule dispatcher_cases [OF assms])
  show ?thesis
  proof (cases "rejected \<or> dq_method request = ''OPTIONS''")
    case True
    then show ?thesis using d by (intro that [OF h]) (auto split: if_splits)
  next
    case False
    then have "dispatch_within_stores opts app backend request (validateClientUserAgentToken (dq_clientUserAgent request))
        corsHeaders (st\<lparr>d_cors := c2\<rparr>) = (Inr r, st')" using d by simp
    from within_stores_cases [OF this] show ?thesis
    proof (elim disjE conjE)
      assume "isRpcPath (dq_path request)" "dispatch_rpc opts app backend request
        (validateClientUserAgentToken (dq_clientUserAgent request)) corsHeaders (st\<lparr>d_cors := c2\<rparr>) = (Inr r, st')"
      then show ?thesis using False by (intro that [OF h]) blast
    next
      assume "\<not> isRpcPath (dq_path request)" "r = not_found_response corsHeaders" "d_world st' = d_world (st\<lparr>d_cors := c2\<rparr>)"
        "\<exists>n k. d_events st' = d_events (st\<lparr>d_cors := c2\<rparr>) @ [EvNoRoute (dq_method request) (dq_path request) n k]"
      then show ?thesis using False by (intro that [OF h]) simp
    next
      assume "\<not> isRpcPath (dq_path request)" "dr_kind r = RawRouteResponse"
        "fst (matchRoute (opt_copy opts) (dq_method request) (dq_path request) (d_routes (st\<lparr>d_cors := c2\<rparr>))) \<noteq> None"
        "\<exists>evs. d_events st' = d_events (st\<lparr>d_cors := c2\<rparr>) @ evs \<and> (\<forall>ev \<in> set evs. \<exists>e. ev = EvHandlerError SourceRawRoute e)"
      then show ?thesis using False by (intro that [OF h]) simp
    qed
  qed
qed

lemma rpc_kind:
  assumes "dispatch_rpc opts app backend request ua hs st = (Inr r, st')"
  shows "dr_kind r \<in> {RpcResult, RpcEnvelope}"
  using dispatch_rpc_cases [OF assms] by (elim disjE exE conjE) simp_all

text \<open>An RPC error response never hands out a live cookie: whatever the method set before it threw,
  the response carries only cookies that every reading deletes, the fixed status 200 and exactly
  the standard headers of an RPC envelope.\<close>

theorem rpc_error_response_safe:
  assumes "dispatcher opts cors app backend request st = (Inr r, st')" "dr_kind r = RpcEnvelope"
  shows "(\<forall>c \<in> set (dr_cookies r). isCookieDeletion (opt_date_parse opts) c (opt_now opts)) \<and>
    dr_status r = Num 200 \<and>
    (\<exists>corsHeaders c. policy_headers cors (dq_origin request) (d_cors st) = Inr (corsHeaders, c) \<and>
       dr_headers r = rpcResponseHeaders corsHeaders)"
proof -
  obtain corsHeaders c1 c2 ua where h: "policy_headers cors (dq_origin request) (d_cors st) = Inr (corsHeaders, c1)"
    and "dispatch_rpc opts app backend request ua corsHeaders (st\<lparr>d_cors := c2\<rparr>) = (Inr r, st')"
    by (rule dispatcher_ends [OF assms(1)], elim disjE conjE) (use assms(2) in simp_all)
  from dispatch_rpc_cases [OF this(2)] assms(2) h show ?thesis
    by (elim disjE exE conjE) (simp_all add: errorResponseSetCookies_def)
qed

text \<open>Each request takes one branch: a refused origin gets the 403, and it, a preflight and an
  unmatched path run no application code; only a path outside the RPC subtree reaches a raw route,
  and only one inside it reaches RPC.\<close>

theorem dispatch_branches:
  assumes "dispatcher opts cors app backend request st = (Inr r, st')"
  shows "(dr_kind r \<in> {CorsRejected, Preflight, NotFound} \<longrightarrow> d_world st' = d_world st \<and> dr_cookies r = []) \<and>
    (dr_kind r = RawRouteResponse \<longrightarrow> \<not> isRpcPath (dq_path request) \<and>
       fst (matchRoute (opt_copy opts) (dq_method request) (dq_path request) (d_routes st)) \<noteq> None) \<and>
    (dr_kind r \<in> {RpcResult, RpcEnvelope} \<longrightarrow> isRpcPath (dq_path request)) \<and>
    (\<forall>hs c c'. policy_headers cors (dq_origin request) (d_cors st) = Inr (hs, c) \<longrightarrow> dq_origin request \<noteq> [] \<longrightarrow>
       policy_rejects cors (dq_origin request) c = Inr (True, c') \<longrightarrow> dr_kind r = CorsRejected \<and> dr_status r = Num 403)"
proof (rule dispatcher_ends [OF assms])
  fix hs1 c1 c2 rejected ua
  assume h: "policy_headers cors (dq_origin request) (d_cors st) = Inr (hs1, c1)"
    and j: "(if dq_origin request \<noteq> [] then policy_rejects cors (dq_origin request) c1 else Inr (False, c1)) = Inr (rejected, c2)"
    and ends: "(rejected \<and> r = rejection_response \<and> st' = st\<lparr>d_cors := c2\<rparr>) \<or>
     (\<not> rejected \<and> r = preflight_response hs1 \<and> st' = st\<lparr>d_cors := c2\<rparr>) \<or>
     (\<not> rejected \<and> isRpcPath (dq_path request) \<and>
        dispatch_rpc opts app backend request ua hs1 (st\<lparr>d_cors := c2\<rparr>) = (Inr r, st')) \<or>
     (\<not> rejected \<and> \<not> isRpcPath (dq_path request) \<and> r = not_found_response hs1 \<and> d_world st' = d_world st \<and>
        (\<exists>n k. d_events st' = d_events st @ [EvNoRoute (dq_method request) (dq_path request) n k])) \<or>
     (\<not> rejected \<and> \<not> isRpcPath (dq_path request) \<and> dr_kind r = RawRouteResponse \<and>
        fst (matchRoute (opt_copy opts) (dq_method request) (dq_path request) (d_routes st)) \<noteq> None \<and>
        (\<exists>evs. d_events st' = d_events st @ evs \<and> (\<forall>ev \<in> set evs. \<exists>e. ev = EvHandlerError SourceRawRoute e)))"
  have rej: "\<forall>hs c c'. policy_headers cors (dq_origin request) (d_cors st) = Inr (hs, c) \<longrightarrow> dq_origin request \<noteq> [] \<longrightarrow>
       policy_rejects cors (dq_origin request) c = Inr (True, c') \<longrightarrow> rejected"
    using h j by auto
  have fixed: "dr_status rejection_response = Num 403" "dr_cookies rejection_response = []"
    "dr_cookies (preflight_response hs) = []" "dr_cookies (not_found_response hs) = []" for hs
    by (simp_all add: rejection_response_def corsRejection_def preflight_response_def not_found_response_def)
  from ends rej show ?thesis
  proof (elim disjE conjE)
    assume "dispatch_rpc opts app backend request ua hs1 (st\<lparr>d_cors := c2\<rparr>) = (Inr r, st')"
      "isRpcPath (dq_path request)" "\<not> rejected"
    with rpc_kind [OF this(1)] rej show ?thesis by (elim insertE emptyE) simp_all
  qed (simp_all add: fixed)
qed

definition is_rpc_report :: "dispatch_event \<Rightarrow> bool" where
  "is_rpc_report ev = (case ev of EvRpcError _ _ _ \<Rightarrow> True | _ \<Rightarrow> False)"

text \<open>Every failed RPC call is reported exactly once and nothing else is reported: one report for
  an unknown namespace or method and for a method that throws, none for a result, for a request
  that never named a call, nor for a failure after the transport gave up on the request.\<close>

theorem rpc_failures_reported_once:
  assumes "dispatcher opts cors app backend request st = (Inr r, st')"
  shows "\<exists>evs. d_events st' = d_events st @ evs \<and>
    length (filter is_rpc_report evs) =
      (if dr_kind r = RpcEnvelope \<and> (\<nexists>b. EvParseError b \<in> set evs) \<and>
          \<not> (dq_aborted request (d_world st') \<and> (\<exists>s e. EvHandlerError s e \<in> set evs))
       then 1 else 0)"
proof -
  let ?P = "\<lambda>evs. length (filter is_rpc_report evs) =
      (if dr_kind r = RpcEnvelope \<and> (\<nexists>b. EvParseError b \<in> set evs) \<and>
          \<not> (dq_aborted request (d_world st') \<and> (\<exists>s e. EvHandlerError s e \<in> set evs)) then 1 else 0)"
  have rpc: "\<exists>evs. d_events st' = d_events st1 @ evs \<and> ?P evs"
    if "dispatch_rpc opts app backend request ua hs st1 = (Inr r, st')" for ua hs and st1 :: "('a, 'b, 'c) dstate"
    using dispatch_rpc_cases [OF that]
  proof (elim disjE exE conjE)
    fix ns m args e i cookies
    assume h: "r = rpcEnvelope (rpcResponseHeaders hs) (errorResponseFromCatch e i)
        \<lparr>dr_cookies := errorResponseSetCookies (opt_date_parse opts) cookies (opt_now opts)\<rparr>"
      and e: "d_events st' = d_events st1 @ [EvCall ns m args, EvHandlerError (SourceRpc ns m) e] @
         (if dq_aborted request (d_world st') then [] else [EvRpcError (san_status (sanitizeCaughtError e)) ns m])"
    show ?thesis using h
      by (intro exI [of _ "[EvCall ns m args, EvHandlerError (SourceRpc ns m) e] @
         (if dq_aborted request (d_world st') then [] else [EvRpcError (san_status (sanitizeCaughtError e)) ns m])"] conjI e)
         (auto simp: is_rpc_report_def)
  qed (rule exI, rule conjI, assumption, simp add: is_rpc_report_def)+
  have silent: "?P evs" if "dr_kind r \<noteq> RpcEnvelope" "\<forall>ev \<in> set evs. \<not> is_rpc_report ev" for evs
    using that by (auto simp: filter_empty_conv)
  show ?thesis
  proof (rule dispatcher_ends [OF assms], elim disjE conjE exE)
    fix hs c2 ua
    assume "dispatch_rpc opts app backend request ua hs (st\<lparr>d_cors := c2\<rparr>) = (Inr r, st')"
    from rpc [OF this] show ?thesis by simp
  next
    fix evs
    assume h: "dr_kind r = RawRouteResponse" "d_events st' = d_events st @ evs"
      "\<forall>ev \<in> set evs. \<exists>e. ev = EvHandlerError SourceRawRoute e"
    then show ?thesis by (intro exI [of _ evs] conjI silent) (auto simp: is_rpc_report_def)
  next
    fix hs n k
    assume "r = not_found_response hs" "d_events st' = d_events st @ [EvNoRoute (dq_method request) (dq_path request) n k]"
    then show ?thesis
      by (intro exI [of _ "[EvNoRoute (dq_method request) (dq_path request) n k]"] conjI silent)
         (simp_all add: is_rpc_report_def)
  qed (intro exI [of _ "[]"] conjI silent; simp)+
qed

section \<open>From client to handler and back\<close>

text \<open>The request the typed client posts for a call of \<open>ns.m\<close>, as a transport decodes it.\<close>

definition typed_call ::
  "'w DispatchRequest \<Rightarrow> int \<Rightarrow> string \<Rightarrow> string \<Rightarrow> jsval list \<Rightarrow> headers \<Rightarrow> string \<Rightarrow> bool" where
  "typed_call request n ns m args hs url =
     (dq_method request = ''POST'' \<and> dq_path request = BLOCKS_RPC_PREFIX @ ''/'' @ encode_uri ns \<and>
      dq_body request = Inr (fst (encodeRpcRequest n ns m args)) \<and>
      length (fst (encodeRpcRequest n ns m args)) \<le> MAX_RPC_BODY_BYTES \<and>
      dq_headers request = Inr hs \<and> dq_url request = Inr url \<and>
      ascii ns \<and> ns \<noteq> [] \<and> CHR ''.'' \<notin> set ns \<and> (\<forall>v \<in> set args. wf_js v))"

text \<open>The CORS policy lets the request through, with these headers.\<close>

definition admitted :: "'c DispatchCorsPolicy \<Rightarrow> string \<Rightarrow> 'c \<Rightarrow> (string \<times> string) list \<Rightarrow> bool" where
  "admitted cors origin c corsHeaders =
     (\<exists>c1 c2. policy_headers cors origin c = Inr (corsHeaders, c1) \<and>
        (if origin \<noteq> [] then policy_rejects cors origin c1 else Inr (False, c1)) = Inr (False, c2))"

definition typed_hq :: "'w DispatchRequest \<Rightarrow> int \<Rightarrow> string \<Rightarrow> string \<Rightarrow> jsval list \<Rightarrow> headers \<Rightarrow> string \<Rightarrow> handler_request" where
  "typed_hq request n ns m args hs url =
     \<lparr>hq_headers = hs, hq_body = fst (encodeRpcRequest n ns m args), hq_url = url, hq_params = [],
      hq_cookie = dq_cookie request, hq_clientUserAgent = validateClientUserAgentToken (dq_clientUserAgent request)\<rparr>"

lemma dispatcher_rpc:
  assumes "admitted cors (dq_origin request) (d_cors st) corsHeaders" "dq_method request \<noteq> ''OPTIONS''" "isRpcPath (dq_path request)"
  shows "\<exists>c. dispatcher opts cors app backend request st =
    dispatch_rpc opts app backend request (validateClientUserAgentToken (dq_clientUserAgent request)) corsHeaders (st\<lparr>d_cors := c\<rparr>)"
proof -
  obtain c1 c2 where c: "policy_headers cors (dq_origin request) (d_cors st) = Inr (corsHeaders, c1)"
      "(if dq_origin request \<noteq> [] then policy_rejects cors (dq_origin request) c1 else Inr (False, c1)) = Inr (False, c2)"
    using assms(1) by (auto simp: admitted_def)
  define rj where "rj = (if dq_origin request \<noteq> [] then policy_rejects cors (dq_origin request) c1 else Inr (False, c1))"
  have e: "d_cors (st\<lparr>d_cors := c1\<rparr>) = c1" "st\<lparr>d_cors := c1, d_cors := c\<rparr> = st\<lparr>d_cors := c\<rparr>" for c by simp_all
  have "dispatcher opts cors app backend request st =
      dispatch_within_stores opts app backend request (validateClientUserAgentToken (dq_clientUserAgent request)) corsHeaders (st\<lparr>d_cors := c2\<rparr>)"
    unfolding dispatcher_def Let_def c(1) sum.case prod.case e c(2) using assms(2) by simp
  then show ?thesis using assms(3) by (intro exI [of _ c2]) (simp add: dispatch_within_stores_def)
qed

lemma typed_call_parse:
  assumes "typed_call request n ns m args hs url"
  shows "parseRpcRequest (fst (encodeRpcRequest n ns m args)) (Some (dq_path request)) =
      Inr \<lparr>rq_apiNamespace = ns, rq_method = m, rq_args = map json_norm args, rq_id = Num n\<rparr>"
    and "isRpcPath (dq_path request)"
proof -
  have "rpc_path ns (Some (dq_path request))" using assms by (simp add: typed_call_def rpc_path_def)
  then show "parseRpcRequest (fst (encodeRpcRequest n ns m args)) (Some (dq_path request)) =
      Inr \<lparr>rq_apiNamespace = ns, rq_method = m, rq_args = map json_norm args, rq_id = Num n\<rparr>"
    using assms by (intro parse_encodeRpcRequest) (auto simp: typed_call_def)
  show "isRpcPath (dq_path request)"
    using assms starts_with_append [of "BLOCKS_RPC_PREFIX @ ''/''" "encode_uri ns"] by (simp add: typed_call_def isRpcPath_def)
qed

lemma dispatch_typed_call:
  assumes "typed_call request n ns m args hs url" "admitted cors (dq_origin request) (d_cors st) corsHeaders"
    and "resolveApiNamespace backend ns = Some v"
    and "namespace_methods app v ns (typed_hq request n ns m args hs url)
           (new_response (rpcResponseHeaders corsHeaders)) (d_world st) = (Inr methods, hr1, w1)"
    and "resolveApiMethod methods m = Some f"
    and "call_method app f (map json_norm args) (hr1, w1) = (outcome, hr2, w2)"
  shows "\<exists>r st'. dispatcher opts cors app backend request st = (Inr r, st') \<and> d_world st' = w2 \<and>
    (case outcome of
       Inr result \<Rightarrow> dr_kind r = RpcResult \<and> dr_body r = successResponse (nullish_or (hr_body hr2) result) (Num n) \<and>
         dr_cookies r = setCookiesOf (hr_headers hr2)
     | Inl e \<Rightarrow> dr_kind r = RpcEnvelope \<and> dr_body r = errorResponseFromCatch e (Num n))"
proof -
  have t: "dq_body request = Inr (fst (encodeRpcRequest n ns m args))" "dq_headers request = Inr hs" "dq_url request = Inr url"
      "dq_method request \<noteq> ''OPTIONS''" using assms(1) by (auto simp: typed_call_def)
  obtain c where d: "dispatcher opts cors app backend request st =
    dispatch_rpc opts app backend request (validateClientUserAgentToken (dq_clientUserAgent request)) corsHeaders (st\<lparr>d_cors := c\<rparr>)"
    using dispatcher_rpc [OF assms(2) t(4) typed_call_parse(2) [OF assms(1)]] by blast
  have hq: "\<lparr>hq_headers = hs, hq_body = fst (encodeRpcRequest n ns m args), hq_url = url, hq_params = [],
      hq_cookie = dq_cookie request, hq_clientUserAgent = validateClientUserAgentToken (dq_clientUserAgent request)\<rparr> =
      typed_hq request n ns m args hs url" by (simp add: typed_hq_def)
  show ?thesis
  proof (cases outcome)
    case (Inr result)
    then show ?thesis
      unfolding d dispatch_rpc_def Let_def t(1) sum.case typed_call_parse(1) [OF assms(1)] call_rpc_def
      by (simp add: t assms(3,5,6) hq assms(4))
  next
    case (Inl e)
    then show ?thesis
      unfolding d dispatch_rpc_def Let_def t(1) sum.case typed_call_parse(1) [OF assms(1)] call_rpc_def
      by (simp add: t assms(3,5,6) hq assms(4))
  qed
qed

text \<open>C1: A typed client's call reaches the method with its arguments and brings back what the method
  returned: the request it posts is dispatched to exactly one call, and the client decodes from the
  response body the JSON view of the method's value, or of what it sent instead.\<close>

theorem rpc_end_to_end:
  assumes "typed_call request n ns m args hs url" "admitted cors (dq_origin request) (d_cors st) corsHeaders"
    and "resolveApiNamespace backend ns = Some v"
    and "namespace_methods app v ns (typed_hq request n ns m args hs url)
           (new_response (rpcResponseHeaders corsHeaders)) (d_world st) = (Inr methods, hr1, w1)"
    and "resolveApiMethod methods m = Some f"
    and "call_method app f (map json_norm args) (hr1, w1) = (Inr result, hr2, w2)"
    and "value = nullish_or (hr_body hr2) result" "wf_js value"
  shows "\<exists>r st'. dispatcher opts cors app backend request st = (Inr r, st') \<and> d_world st' = w2 \<and>
    map_option (\<lambda>b. decodeRpcResponse b h) (json_parse (dr_body r)) =
      Some (Inr (if value = Undef then Undef else json_norm value))"
  using dispatch_typed_call [OF assms(1-6), of opts] decode_successResponse [OF assms(8), of "Num n" h]
  by (auto simp del: map_option_eq_Some simp: assms(7))


section \<open>A concrete backend\<close>

text \<open>One namespace, \<open>todos\<close>, whose method \<open>list\<close> sets a live cookie and answers or throws.\<close>

definition demo_app :: "(thrown, jsval) res \<Rightarrow> (nat, nat) app" where
  "demo_app outcome =
     \<lparr>call_namespace = (\<lambda>ns hq (hr, w). (Inl (new_Error ns), hr, w)),
      call_method = (\<lambda>f args (hr, w). (outcome, hr\<lparr>hr_headers := headers_append (hr_headers hr) (''Set-Cookie'', ''s=1'')\<rparr>, w + 1)),
      call_route = (\<lambda>h hq (hr, w). (Inr (), hr, w + 1))\<rparr>"

definition demo_backend :: "(string \<times> nat bvalue) list option" where
  "demo_backend = Some [(''todos'', plain_handler_object)]"

definition demo_request :: "nat DispatchRequest" where
  "demo_request =
     \<lparr>dq_method = ''POST'', dq_path = BLOCKS_RPC_PREFIX @ ''/'' @ encode_uri ''todos'', dq_origin = [], dq_cookie = [],
      dq_clientUserAgent = None, dq_headers = Inr (new_Headers []), dq_url = Inr ''https://x'',
      dq_body = Inr (fst (encodeRpcRequest 4 ''todos'' ''list'' [Num 7])), dq_aborted = (\<lambda>w. False), dq_requestId = None\<rparr>"

definition open_policy :: "unit DispatchCorsPolicy" where
  "open_policy = \<lparr>policy_rejects = (\<lambda>origin c. Inr (False, c)), policy_headers = (\<lambda>origin c. Inr ([(''Vary'', ''Origin'')], c))\<rparr>"

definition demo_options :: dispatch_options where
  "demo_options = \<lparr>opt_listApis = False, opt_copy = 0, opt_now = 0, opt_date_parse = (\<lambda>v. None)\<rparr>"

definition demo_state :: "(nat, unit, nat) dstate" where
  "demo_state = \<lparr>d_world = 0, d_cors = (), d_routes = core_init, d_events = []\<rparr>"

lemma demo_facts:
  "typed_call demo_request 4 ''todos'' ''list'' [Num 7] (new_Headers []) ''https://x''"
  "admitted open_policy (dq_origin demo_request) (d_cors demo_state) [(''Vary'', ''Origin'')]"
  "resolveApiNamespace demo_backend ''todos'' = Some plain_handler_object"
  "namespace_methods (demo_app out) plain_handler_object ''todos'' (typed_hq demo_request 4 ''todos'' ''list'' [Num 7] (new_Headers []) ''https://x'')
     (new_response hs) (d_world demo_state) = (Inr plain_handler_object, new_response hs, 0)"
  "resolveApiMethod plain_handler_object ''list'' = Some (Handler 1)"
proof -
  have "length (fst (encodeRpcRequest 4 ''todos'' ''list'' [Num 7])) \<le> MAX_RPC_BODY_BYTES"
    by (simp add: encodeRpcRequest_def to_json_def stringify_def VERSION_def print_str_def esc_char_def
        char_code_def show_int_def show_nat.simps MAX_RPC_BODY_BYTES_def)
  then show "typed_call demo_request 4 ''todos'' ''list'' [Num 7] (new_Headers []) ''https://x''"
    by (simp add: typed_call_def demo_request_def ascii_def char_code_def)
  show "admitted open_policy (dq_origin demo_request) (d_cors demo_state) [(''Vary'', ''Origin'')]"
    by (simp add: admitted_def open_policy_def demo_request_def)
  show "resolveApiNamespace demo_backend ''todos'' = Some plain_handler_object"
    by (simp add: resolveApiNamespace_def demo_backend_def isDispatchableExport_def isApiNamespace_def plain_handler_object_def is_str_def)
  show "namespace_methods (demo_app out) plain_handler_object ''todos'' (typed_hq demo_request 4 ''todos'' ''list'' [Num 7] (new_Headers []) ''https://x'')
     (new_response hs) (d_world demo_state) = (Inr plain_handler_object, new_response hs, 0)"
    by (simp add: namespace_methods_def plain_handler_object_def demo_state_def)
  show "resolveApiMethod plain_handler_object ''list'' = Some (Handler 1)"
    by (simp add: resolveApiMethod_def plain_handler_object_def isScopeLike_def is_str_def object_prototype_def lookup_function_def)
qed

definition demo_response :: "(string \<times> string) list \<Rightarrow> handler_response" where
  "demo_response hs = (new_response hs)\<lparr>hr_headers := headers_append (hr_headers (new_response hs)) (''Set-Cookie'', ''s=1'')\<rparr>"

lemma demo_call: "call_method (demo_app out) (Handler 1) args (new_response hs, 0) = (out, demo_response hs, 1)"
  by (simp add: demo_app_def demo_response_def)

lemma demo_value: "nullish_or (hr_body (demo_response hs)) v = v"
  by (simp add: demo_response_def new_response_def nullish_or_def)

lemma rpc_end_to_end_witness:
  "\<exists>r st'. dispatcher demo_options open_policy (demo_app (Inr (Num 9))) demo_backend demo_request demo_state = (Inr r, st') \<and>
    d_world st' = 1 \<and> map_option (\<lambda>b. decodeRpcResponse b None) (json_parse (dr_body r)) = Some (Inr (Num 9))"
  using rpc_end_to_end [OF demo_facts(1-5) demo_call refl, of "Num 9" demo_options None]
  by (simp add: demo_value del: map_option_eq_Some)


lemma demo_error:
  "\<exists>r st'. dispatcher demo_options open_policy (demo_app (Inl (new_Error ''secret''))) demo_backend demo_request demo_state = (Inr r, st') \<and>
    dr_kind r = RpcEnvelope"
  using dispatch_typed_call [OF demo_facts(1-5) demo_call [where out = "Inl (new_Error ''secret'')"], of demo_options] by auto

lemma rpc_error_response_safe_witness:
  "\<exists>r st'. dispatcher demo_options open_policy (demo_app (Inl (new_Error ''secret''))) demo_backend demo_request demo_state = (Inr r, st') \<and>
    (\<forall>c \<in> set (dr_cookies r). isCookieDeletion (\<lambda>v. None) c 0)"
proof -
  obtain r st' where h: "dispatcher demo_options open_policy (demo_app (Inl (new_Error ''secret''))) demo_backend demo_request demo_state = (Inr r, st')"
      "dr_kind r = RpcEnvelope" using demo_error by blast
  from rpc_error_response_safe [OF h] h show ?thesis
    by (intro exI [of _ r] exI [of _ st'] conjI) (simp_all add: demo_options_def)
qed

lemma dispatch_branches_witness:
  "\<exists>r st'. dispatcher demo_options open_policy (demo_app (Inl (new_Error ''secret''))) demo_backend demo_request demo_state = (Inr r, st') \<and>
    dr_kind r = RpcEnvelope \<and> isRpcPath (dq_path demo_request)"
proof -
  obtain r st' where h: "dispatcher demo_options open_policy (demo_app (Inl (new_Error ''secret''))) demo_backend demo_request demo_state = (Inr r, st')"
      "dr_kind r = RpcEnvelope" using demo_error by blast
  from dispatch_branches [OF h(1)] h show ?thesis by blast
qed

lemma rpc_failures_reported_once_witness:
  "\<exists>r st' evs. dispatcher demo_options open_policy (demo_app (Inl (new_Error ''secret''))) demo_backend demo_request demo_state = (Inr r, st') \<and>
    d_events st' = evs \<and> length (filter is_rpc_report evs) \<le> 1"
proof -
  obtain r st' where h: "dispatcher demo_options open_policy (demo_app (Inl (new_Error ''secret''))) demo_backend demo_request demo_state = (Inr r, st')"
      "dr_kind r = RpcEnvelope" using demo_error by blast
  from rpc_failures_reported_once [OF h(1)] obtain evs where evs: "d_events st' = d_events demo_state @ evs"
      "length (filter is_rpc_report evs) \<le> 1" by (auto split: if_splits)
  then have "length (filter is_rpc_report (d_events st')) \<le> 1" by (simp add: demo_state_def)
  with h(1) show ?thesis by blast
qed

end
