(* ===== verification/Redact.thy ===== *)
theory Redact
  imports Rpc
begin

text \<open>
  \<^verbatim>\<open>packages/core/src/redact.ts\<close>: masking of sensitive fields before logging.

  The value to log is a graph: objects and arrays live in a heap (a list indexed by address), so
  that shared and circular references are representable; the logged copy is a tree.
  \<open>seen\<close> is the path of addresses from the root to the value, as the code's \<open>WeakSet\<close> is.
\<close>

datatype rprim = PUndef | PNull | PBool bool | PNum int | PStr string

datatype rval = RPrim rprim | RRef nat

datatype rnode = NArr "rval list" | NObj "(string \<times> rval) list"

fun prim_val :: "rprim \<Rightarrow> jsval" where
  "prim_val PUndef = Undef"
| "prim_val PNull = Null"
| "prim_val (PBool b) = Bool b"
| "prim_val (PNum n) = Num n"
| "prim_val (PStr s) = Str s"

definition REDACTED :: string where
  "REDACTED = ''[REDACTED]''"

definition SENSITIVE_KEY_PARTS :: "string list" where
  "SENSITIVE_KEY_PARTS =
     [''password'', ''session'', ''token'', ''secret'', ''credential'', ''apikey'', ''authorization'']"

definition SENSITIVE_KEY_EXACT :: "string list" where
  "SENSITIVE_KEY_EXACT = [''code'']"

definition isSensitiveKey :: "string \<Rightarrow> bool" where
  "isSensitiveKey key =
     (let lower = to_lower key in
      if lower \<in> set SENSITIVE_KEY_EXACT then True
      else list_ex (\<lambda>part. str_includes lower part) SENSITIVE_KEY_PARTS)"

definition masksDefaultValue :: "(string \<times> rval) list \<Rightarrow> bool" where
  "masksDefaultValue obj =
     ((case obj_get obj ''name'' of Some (RPrim (PStr s)) \<Rightarrow> isSensitiveKey s | _ \<Rightarrow> False) \<and>
      obj_has obj ''defaultValue'')"

definition mask_value :: "rval \<Rightarrow> jsval" where
  "mask_value v =
     (if v = RPrim PNull then Null else if v = RPrim PUndef then Undef else Str REDACTED)"

function redactForLogging :: "rnode list \<Rightarrow> nat list \<Rightarrow> rval \<Rightarrow> jsval" where
  "redactForLogging heap seen (RPrim p) = prim_val p"
| "redactForLogging heap seen (RRef a) =
     (if a \<in> set seen then Str ''[Circular]''
      else if \<not> a < length heap then Undef
      else (case heap ! a of
              NArr items \<Rightarrow> Arr (map (\<lambda>item. redactForLogging heap (a # seen) item) items)
            | NObj obj \<Rightarrow>
                Obj (map (\<lambda>(key, val).
                       (key, if isSensitiveKey key \<or> (key = ''defaultValue'' \<and> masksDefaultValue obj)
                             then mask_value val
                             else redactForLogging heap (a # seen) val)) obj)))"
  by pat_completeness auto
termination
  by (relation "measure (\<lambda>(heap, seen, v). card ({..<length heap} - set seen))")
     (auto simp: card_gt_0_iff intro!: diff_less)

declare redactForLogging.simps(2) [simp del]

definition redactToJson :: "rnode list \<Rightarrow> rval \<Rightarrow> string" where
  "redactToJson heap v = to_json (redactForLogging heap [] v)"

section \<open>Nothing sensitive is left\<close>

definition masked_value :: "jsval \<Rightarrow> bool" where
  "masked_value v = (v = Str REDACTED \<or> v = Null \<or> v = Undef)"

text \<open>
  Both rules, on the logged tree: a sensitive key has a masked value, and so has the
  \<open>defaultValue\<close> of a descriptor whose \<open>name\<close> is a sensitive word.
\<close>

fun scrubbed :: "jsval \<Rightarrow> bool" where
  "scrubbed (Arr vs) = (\<forall>v \<in> set vs. scrubbed v)"
| "scrubbed (Obj ps) =
     ((\<forall>(k, v) \<in> set ps. (if isSensitiveKey k then masked_value v else scrubbed v)) \<and>
      (case obj_get ps ''name'' of
         Some (Str s) \<Rightarrow> isSensitiveKey s \<longrightarrow>
            (case obj_get ps ''defaultValue'' of Some v \<Rightarrow> masked_value v | None \<Rightarrow> True)
       | _ \<Rightarrow> True))"
| "scrubbed _ = True"

lemma masked_mask_value: "masked_value (mask_value v)"
  by (simp add: masked_value_def mask_value_def)

lemma scrubbed_mask_value: "scrubbed (mask_value v)"
  by (simp add: mask_value_def)

lemma scrubbed_prim: "scrubbed (prim_val p)"
  by (cases p) auto

lemma obj_get_map_snd: "obj_get (map (\<lambda>(k, v). (k, f k v)) ps) k = map_option (f k) (obj_get ps k)"
  by (induction ps) auto

lemma redact_name_str:
  "redactForLogging heap seen v = Str s \<Longrightarrow> v = RPrim (PStr s) \<or> s = ''[Circular]''"
proof (cases v)
  case (RPrim p)
  then show "redactForLogging heap seen v = Str s \<Longrightarrow> ?thesis" by (cases p) auto
qed (auto simp: redactForLogging.simps(2) split: if_splits rnode.splits)

lemma circular_not_sensitive: "\<not> isSensitiveKey ''[Circular]''"
  by code_simp

lemma name_not_sensitive: "\<not> isSensitiveKey ''name''"
  by code_simp

text \<open>C37: The logged copy holds no sensitive value, however deep: under every sensitive key, and under
  the \<open>defaultValue\<close> of a form-field descriptor with a sensitive \<open>name\<close>, stands the
  placeholder or an explicit null or undefined.  This holds for every graph, circular ones included,
  and the walk always ends.\<close>

theorem redact_scrubbed: "scrubbed (redactForLogging heap seen v)"
proof (induction heap seen v rule: redactForLogging.induct)
  case (1 heap seen p)
  show ?case by (simp add: scrubbed_prim)
next
  case (2 heap seen a)
  show ?case
  proof (cases "a \<in> set seen \<or> \<not> a < length heap")
    case False
    show ?thesis
    proof (cases "heap ! a")
      case (NArr items)
      then show ?thesis using 2(1) False by (auto simp: redactForLogging.simps(2))
    next
      case (NObj obj)
      define g where "g key val = (if isSensitiveKey key \<or> (key = ''defaultValue'' \<and> masksDefaultValue obj)
          then mask_value val else redactForLogging heap (a # seen) val)" for key val
      have eq: "redactForLogging heap seen (RRef a) = Obj (map (\<lambda>(key, val). (key, g key val)) obj)"
        using False NObj unfolding g_def by (simp add: redactForLogging.simps(2))
      have sub: "if isSensitiveKey k then masked_value (g k v) else scrubbed (g k v)"
        if "(k, v) \<in> set obj" for k v
        using 2(2) [OF _ _ NObj that refl] False unfolding g_def by (simp add: masked_mask_value scrubbed_mask_value)
      have desc: "case obj_get obj ''defaultValue'' of Some w \<Rightarrow> masked_value (g ''defaultValue'' w) | None \<Rightarrow> True"
        if "map_option (g ''name'') (obj_get obj ''name'') = Some (Str s)" "isSensitiveKey s" for s
      proof -
        from that(1) obtain v where v: "obj_get obj ''name'' = Some v" "redactForLogging heap (a # seen) v = Str s"
          by (auto simp: g_def name_not_sensitive)
        then have "v = RPrim (PStr s)" using redact_name_str that(2) circular_not_sensitive by blast
        then show ?thesis using v(1) that(2)
          by (auto simp: g_def masksDefaultValue_def obj_has_get masked_mask_value split: option.splits)
      qed
      show ?thesis unfolding eq scrubbed.simps obj_get_map_snd using sub desc
        by (auto split: option.splits jsval.splits)
    qed
  qed (auto simp: redactForLogging.simps(2))
qed

section \<open>Shared references are not cycles\<close>

fun children :: "rnode \<Rightarrow> rval set" where
  "children (NArr vs) = set vs"
| "children (NObj ps) = snd ` set ps"

inductive reaches :: "rnode list \<Rightarrow> rval \<Rightarrow> nat \<Rightarrow> bool" where
  here: "reaches heap (RRef a) a"
| step: "a < length heap \<Longrightarrow> c \<in> children (heap ! a) \<Longrightarrow> reaches heap c b \<Longrightarrow> reaches heap (RRef a) b"

text \<open>What is logged for a value depends on the path to it only through the addresses the value
  can reach: a reference is reported circular only when it leads back to an object still open on the
  path, so an object shared between siblings is logged in full at each place.\<close>

theorem redact_path_independent:
  "(\<And>b. reaches heap v b \<Longrightarrow> b \<in> set s1 \<longleftrightarrow> b \<in> set s2) \<Longrightarrow>
   redactForLogging heap s1 v = redactForLogging heap s2 v"
proof (induction heap s1 v arbitrary: s2 rule: redactForLogging.induct)
  case (2 heap s1 a)
  have a: "a \<in> set s1 \<longleftrightarrow> a \<in> set s2" using 2(3) [OF reaches.here] .
  have sub: "b \<in> set (a # s1) \<longleftrightarrow> b \<in> set (a # s2)"
    if "a < length heap" "c \<in> children (heap ! a)" "reaches heap c b" for b c
    using 2(3) [OF reaches.step [OF that]] by auto
  show ?case
  proof (cases "a \<in> set s1 \<or> \<not> a < length heap")
    case True
    then show ?thesis using a by (auto simp: redactForLogging.simps(2))
  next
    case False
    show ?thesis
    proof (cases "heap ! a")
      case (NArr items)
      have "redactForLogging heap (a # s1) i = redactForLogging heap (a # s2) i" if "i \<in> set items" for i
        using 2(1) [OF _ _ NArr that] sub NArr False that by auto
      then show ?thesis using a False NArr by (simp add: redactForLogging.simps(2))
    next
      case (NObj obj)
      have "redactForLogging heap (a # s1) v = redactForLogging heap (a # s2) v"
        if "(k, v) \<in> set obj" "\<not> (isSensitiveKey k \<or> (k = ''defaultValue'' \<and> masksDefaultValue obj))" for k v
        using 2(2) [OF _ _ NObj that(1) refl that(2)] sub NObj False that(1) by force
      then show ?thesis using a False NObj by (auto simp: redactForLogging.simps(2))
    qed
  qed
qed simp

inductive_simps reaches_ref: "reaches heap (RRef a) b"
inductive_simps reaches_prim: "reaches heap (RPrim p) b"

lemma redact_path_independent_witness:
  "redactForLogging [NObj [(''a'', RRef 1), (''b'', RRef 1)], NArr [RPrim (PNum 3)]] [0] (RRef 1) =
   redactForLogging [NObj [(''a'', RRef 1), (''b'', RRef 1)], NArr [RPrim (PNum 3)]] [7] (RRef 1)"
  by (rule redact_path_independent) (auto simp: reaches_ref reaches_prim)

end
