(* ===== verification/JsonPretty.thy ===== *)
theory JsonPretty
  imports Json "HOL-Library.Multiset"
begin

text \<open>
  \<open>JSON.stringify(v, null, 2)\<close>, the form the local stores write to disk, and plain objects
  filled by assignment: the order in which their properties are enumerated and the one name,
  \<open>__proto__\<close>, that assignment does not make a property of.
\<close>

section \<open>Indented printing\<close>

definition new_line :: "nat \<Rightarrow> string" where
  "new_line n = CHR 0x0A # replicate n (CHR '' '')"

fun print_pretty :: "nat \<Rightarrow> jsval \<Rightarrow> string"
and pretty_elems :: "nat \<Rightarrow> jsval list \<Rightarrow> string"
and pretty_fields :: "nat \<Rightarrow> (string \<times> jsval) list \<Rightarrow> string" where
  "print_pretty n (Arr []) = ''[]''"
| "print_pretty n (Arr (v # vs)) = CHR ''['' # pretty_elems (n + 2) (v # vs) @ new_line n @ '']''"
| "print_pretty n (Obj []) = ''{}''"
| "print_pretty n (Obj (p # ps)) = CHR ''{'' # pretty_fields (n + 2) (p # ps) @ new_line n @ ''}''"
| "print_pretty n v = print_json v"
| "pretty_elems n [] = []"
| "pretty_elems n [v] = new_line n @ print_pretty n v"
| "pretty_elems n (v # w # vs) = new_line n @ print_pretty n v @ '','' @ pretty_elems n (w # vs)"
| "pretty_fields n [] = []"
| "pretty_fields n [(k, v)] = new_line n @ print_str k @ '': '' @ print_pretty n v"
| "pretty_fields n ((k, v) # q # ps) =
     new_line n @ print_str k @ '': '' @ print_pretty n v @ '','' @ pretty_fields n (q # ps)"

definition stringify_pretty :: "jsval \<Rightarrow> string option" where
  "stringify_pretty v = (if v = Undef then None else Some (print_pretty 0 (json_norm v)))"

lemma skip_ws_replicate [simp]: "skip_ws (replicate n (CHR '' '') @ s) = skip_ws s"
  by (induction n) auto

lemma skip_ws_new_line [simp]: "skip_ws (new_line n @ s) = skip_ws s"
  by (simp add: new_line_def)

lemma parse_val_new_line [simp]: "parse_val (new_line n @ s) = parse_val s"
  by (subst (1 2) parse_val.simps) simp

lemma parse_val_space [simp]: "parse_val (CHR '' '' # s) = parse_val s"
  by (subst (1 2) parse_val.simps) simp

lemma num_end_new_line [simp]: "num_end (new_line n @ s)"
  by (simp add: num_end_def new_line_def is_digit_def char_code_def)

lemma print_pretty_start: "\<exists>c t. print_pretty n v = c # t \<and> val_start c"
proof (cases v)
  case (Arr vs)
  then show ?thesis by (cases vs) (auto simp: val_start_def)
next
  case (Obj ps)
  then show ?thesis by (cases ps) (auto simp: val_start_def)
qed (use print_json_start [of v] in auto)

lemma pretty_elems_start: "vs \<noteq> [] \<Longrightarrow> \<exists>c t. skip_ws (pretty_elems n vs @ r) = c # t \<and> c \<noteq> CHR '']''"
proof -
  assume "vs \<noteq> []"
  then obtain v ws where vs: "vs = v # ws" by (cases vs) auto
  obtain c t where ct: "print_pretty n v = c # t" "val_start c" using print_pretty_start by blast
  then have "c \<noteq> CHR '']''" by (auto simp: val_start_def)
  then show ?thesis using ct by (cases ws) (simp_all add: vs del: skip_ws.simps(2))
qed

lemma pretty_fields_start:
  "ps \<noteq> [] \<Longrightarrow> \<exists>t. skip_ws (pretty_fields n ps @ r) = CHR 0x22 # t"
  by (cases "(n, ps)" rule: pretty_fields.cases) (auto simp: print_str_def)

lemma parse_elems_step:
  assumes "parse_val s = Some (v, r)" "skip_ws r = CHR '','' # r'" "length r' < length s"
    and "parse_elems r' = Some (vs, q)"
  shows "parse_elems s = Some (v # vs, q)"
  using assms by (simp add: parse_elems.simps [of s])

lemma parse_elems_last:
  assumes "parse_val s = Some (v, r)" "skip_ws r = CHR '']'' # r'"
  shows "parse_elems s = Some ([v], r')"
  using assms by (simp add: parse_elems.simps [of s])

lemma parse_fields_step:
  assumes "skip_ws s = CHR 0x22 # concat (map esc_char k) @ CHR 0x22 # CHR '':'' # r2"
    and "parse_val r2 = Some (v, r3)" "skip_ws r3 = CHR '','' # r4" "length r4 < length s"
    and "parse_fields r4 = Some (ps, q)"
  shows "parse_fields s = Some ((k, v) # ps, q)"
proof -
  have "length r2 < length s" using assms(1) skip_ws_length [of s] by simp
  then show ?thesis using assms by (simp add: parse_fields.simps [of s] parse_print_str)
qed

lemma parse_fields_last:
  assumes "skip_ws s = CHR 0x22 # concat (map esc_char k) @ CHR 0x22 # CHR '':'' # r2"
    and "parse_val r2 = Some (v, r3)" "skip_ws r3 = CHR ''}'' # r4"
  shows "parse_fields s = Some ([(k, v)], r4)"
proof -
  have "length r2 < length s" using assms(1) skip_ws_length [of s] by simp
  then show ?thesis using assms by (simp add: parse_fields.simps [of s] parse_print_str)
qed

lemma parse_pretty:
  "plain v \<Longrightarrow> num_end r \<Longrightarrow> parse_val (print_pretty n v @ r) = Some (v, r)"
  "(\<forall>v \<in> set vs. plain v) \<Longrightarrow> vs \<noteq> [] \<Longrightarrow>
     parse_elems (pretty_elems n vs @ new_line m @ CHR '']'' # r) = Some (vs, r)"
  "(\<forall>(k, v) \<in> set ps. plain v) \<Longrightarrow> ps \<noteq> [] \<Longrightarrow>
     parse_fields (pretty_fields n ps @ new_line m @ CHR ''}'' # r) = Some (ps, r)"
proof (induction n v and n vs and n ps arbitrary: r and r m and r m
    rule: print_pretty_pretty_elems_pretty_fields.induct)
  case (2 n v vs)
  obtain c t where ct: "skip_ws (pretty_elems (n + 2) (v # vs) @ new_line n @ CHR '']'' # r) = c # t" "c \<noteq> CHR '']''"
    using pretty_elems_start by blast
  have "parse_elems (pretty_elems (n + 2) (v # vs) @ new_line n @ CHR '']'' # r) = Some (v # vs, r)"
    using 2 by simp
  with ct show ?case by (simp add: parse_val.simps del: pretty_elems.simps)
next
  case (4 n p ps)
  obtain t where t: "skip_ws (pretty_fields (n + 2) (p # ps) @ new_line n @ CHR ''}'' # r) = CHR 0x22 # t"
    using pretty_fields_start by blast
  have "parse_fields (pretty_fields (n + 2) (p # ps) @ new_line n @ CHR ''}'' # r) = Some (p # ps, r)"
    using 4 by simp
  moreover have "foldl (\<lambda>o' (k, v). obj_set k v o') [] (p # ps) = p # ps"
    using 4(2) by (intro foldl_obj_set_wf) simp
  ultimately show ?case using t
    by (simp add: parse_val.simps del: pretty_fields.simps foldl_Cons)
next
  case (7 n v)
  then have "parse_val (print_pretty n v @ new_line m @ CHR '']'' # r) = Some (v, new_line m @ CHR '']'' # r)"
    by simp
  then show ?case by - (rule parse_elems_last, auto)
next
  case (8 n v w vs)
  have "parse_val (print_pretty n v @ CHR '','' # pretty_elems n (w # vs) @ new_line m @ CHR '']'' # r)
      = Some (v, CHR '','' # pretty_elems n (w # vs) @ new_line m @ CHR '']'' # r)"
    using 8 by (simp add: num_end_def is_digit_def char_code_def)
  moreover have "parse_elems (pretty_elems n (w # vs) @ new_line m @ CHR '']'' # r) = Some (w # vs, r)"
    using 8 by simp
  ultimately show ?case
    by - (rule parse_elems_step, auto simp del: pretty_elems.simps simp: pretty_elems.simps(3))
next
  case (10 n k v)
  then have "parse_val (print_pretty n v @ new_line m @ CHR ''}'' # r) = Some (v, new_line m @ CHR ''}'' # r)"
    by simp
  then show ?case
    by (intro parse_fields_last [where ?r2.0 = "CHR '' '' # print_pretty n v @ new_line m @ CHR ''}'' # r"])
       (auto simp: print_str_def)
next
  case (11 n k v q ps)
  have "parse_val (print_pretty n v @ CHR '','' # pretty_fields n (q # ps) @ new_line m @ CHR ''}'' # r)
      = Some (v, CHR '','' # pretty_fields n (q # ps) @ new_line m @ CHR ''}'' # r)"
    using 11 by (simp add: num_end_def is_digit_def char_code_def)
  moreover have "parse_fields (pretty_fields n (q # ps) @ new_line m @ CHR ''}'' # r) = Some (q # ps, r)"
    using 11 by simp
  ultimately show ?case
    by (intro parse_fields_step [where ?r2.0 = "CHR '' '' # print_pretty n v @ CHR '','' # pretty_fields n (q # ps)
            @ new_line m @ CHR ''}'' # r"])
       (auto simp del: pretty_fields.simps simp: print_str_def pretty_fields.simps(3))
qed (use parse_print(1) in \<open>auto simp: parse_val.simps [of "CHR ''['' # CHR '']'' # r" for r]
      parse_val.simps [of "CHR ''{'' # CHR ''}'' # r" for r] num_end_def simp del: print_json.simps\<close>)

theorem json_parse_pretty: "plain v \<Longrightarrow> json_parse (print_pretty n v) = Some v"
  using parse_pretty(1) [of v "[]" n] by (simp add: json_parse_def num_end_def)

section \<open>Objects filled by assignment\<close>

text \<open>
  A canonical array index is enumerated before the other names, in ascending order; the others
  keep their order of creation.  Assigning to \<open>__proto__\<close> runs the accessor of
  \<open>Object.prototype\<close>, which makes no own property.
\<close>

definition array_index :: "string \<Rightarrow> bool" where
  "array_index k = (k \<noteq> [] \<and> list_all is_digit k \<and> show_nat (read_nat k) = k \<and> read_nat k < 2 ^ 32 - 1)"

definition enum_order :: "(string \<times> 'v) list \<Rightarrow> (string \<times> 'v) list" where
  "enum_order ps = sort_key (\<lambda>(k, v). read_nat k) (filter (\<lambda>(k, v). array_index k) ps)
                     @ filter (\<lambda>(k, v). \<not> array_index k) ps"

definition PROTO :: string where
  "PROTO = ''__proto__''"

definition assigned_props :: "(string \<times> 'v) list \<Rightarrow> (string \<times> 'v) list" where
  "assigned_props ps = enum_order (filter (\<lambda>(k, v). k \<noteq> PROTO) ps)"

lemma set_enum_order [simp]: "set (enum_order ps) = set ps"
  by (auto simp: enum_order_def)

lemma obj_wf_enum_order [simp]: "obj_wf (enum_order ps) = obj_wf ps"
proof -
  have "mset (enum_order ps) = mset ps"
    unfolding enum_order_def mset_append mset_sort mset_filter by (induction ps) auto
  then have "mset (map fst (enum_order ps)) = mset (map fst ps)" by simp
  then show ?thesis by (metis mset_eq_imp_distinct_iff)
qed

lemma obj_get_enum_order [simp]: "obj_wf ps \<Longrightarrow> obj_get (enum_order ps) k = obj_get ps k"
  by (metis obj_get_iff obj_wf_enum_order option.exhaust set_enum_order)

lemma obj_wf_assigned [simp]: "obj_wf ps \<Longrightarrow> obj_wf (assigned_props ps)"
  by (simp add: assigned_props_def distinct_map_filter)

lemma obj_get_filter_key:
  "obj_get (filter (\<lambda>(k, v). P k) ps) k = (if P k then obj_get ps k else None)"
  by (induction ps) auto

lemma obj_get_assigned:
  "obj_wf ps \<Longrightarrow> obj_get (assigned_props ps) k = (if k = PROTO then None else obj_get ps k)"
  by (simp add: assigned_props_def distinct_map_filter obj_get_filter_key [where P = "\<lambda>k. k \<noteq> PROTO"])

end
