(* ===== verification/KvStore.thy ===== *)
theory KvStore
  imports JsonPretty Errors Rpc Complex_Main
begin

text \<open>
  \<^verbatim>\<open>packages/bb-kv-store/src/index.mock.ts\<close> and \<^verbatim>\<open>ttl.ts\<close>: the local
  key-value store.  The state is the in-memory map, in insertion order, and the text of
  \<^verbatim>\<open>store.json\<close>.  What the code reads from outside is a record: the clock, the
  validator the application passes, and the message of the engine's \<open>SyntaxError\<close>.
  A \<open>scan\<close> is modelled as consumed without other operations in between.
\<close>

section \<open>Options and environment\<close>

text \<open>A value passed as a number: a finite double, a non-finite one, or no number at all, the
  last three with the text \<open>String(x)\<close> gives.\<close>

datatype number_arg = Finite rat string | NonFinite string | NotNumber string

text \<open>\<open>expiresAt\<close>: a \<open>Date\<close>, with its time in milliseconds unless it is invalid, or a number.\<close>

datatype expiry_arg = ExpiryDate "int option" | ExpiryNumber number_arg

record PutOptions =
  ifNotExists :: jsval
  ifValueEquals :: jsval
  ttlSeconds :: "number_arg option"
  expiresAt :: "expiry_arg option"

record ConditionalDeleteOptions =
  ifExists :: jsval
  del_ifValueEquals :: jsval

definition no_put_options :: PutOptions where
  "no_put_options = \<lparr>ifNotExists = Undef, ifValueEquals = Undef, ttlSeconds = None, expiresAt = None\<rparr>"

definition no_delete_options :: ConditionalDeleteOptions where
  "no_delete_options = \<lparr>ifExists = Undef, del_ifValueEquals = Undef\<rparr>"

record kv_env =
  nowEpochSeconds :: int
  kv_schema :: "(jsval \<Rightarrow> string list option) option"
  syntax_message :: "string \<Rightarrow> string"

record MockEntry =
  me_value :: string
  me_ttl :: "int option"

record kv_store =
  kv_data :: "(string \<times> MockEntry) list"
  kv_file :: "string option"

section \<open>Time to live\<close>

definition ConditionalCheckFailed :: string where
  "ConditionalCheckFailed = ''ConditionalCheckFailedException''"

definition ValidationFailed :: string where
  "ValidationFailed = ''ValidationFailedException''"

definition ItemTooLarge :: string where
  "ItemTooLarge = ''ItemTooLargeException''"

definition MAX_PLAUSIBLE_EPOCH_SECONDS :: rat where
  "MAX_PLAUSIBLE_EPOCH_SECONDS = 100000000000"

definition invalidTtl :: "string \<Rightarrow> thrown" where
  "invalidTtl message = blocksError ValidationFailed message"

definition number_text :: "number_arg \<Rightarrow> string" where
  "number_text a = (case a of Finite q t \<Rightarrow> t | NonFinite t \<Rightarrow> t | NotNumber t \<Rightarrow> t)"

definition resolveTtlEpochSeconds :: "int \<Rightarrow> PutOptions \<Rightarrow> (thrown, int option) res" where
  "resolveTtlEpochSeconds now opts =
     (case (ttlSeconds opts, expiresAt opts) of
        (None, None) \<Rightarrow> Inr None
      | (Some _, Some _) \<Rightarrow>
          Inl (invalidTtl ''put: pass either `ttlSeconds` or `expiresAt`, not both'')
      | (Some a, None) \<Rightarrow>
          (case a of
             Finite q _ \<Rightarrow> if q \<le> 0 then Inl (invalidTtl
                 (''put: `ttlSeconds` must be a finite number greater than 0 (received '' @ number_text a @ '')''))
               else Inr (Some (now + \<lceil>q\<rceil>))
           | _ \<Rightarrow> Inl (invalidTtl
                 (''put: `ttlSeconds` must be a finite number greater than 0 (received '' @ number_text a @ '')'')))
      | (None, Some (ExpiryDate ms)) \<Rightarrow>
          (case ms of None \<Rightarrow> Inl (invalidTtl ''put: `expiresAt` is an Invalid Date'')
                    | Some m \<Rightarrow> Inr (Some (m div 1000)))
      | (None, Some (ExpiryNumber a)) \<Rightarrow>
          (case a of
             Finite q _ \<Rightarrow> if q \<ge> MAX_PLAUSIBLE_EPOCH_SECONDS then Inl (invalidTtl
                 (''put: `expiresAt` looks like epoch milliseconds; DynamoDB TTL expects seconds '' @ em_dash
                    @ '' pass a Date or divide by 1000''))
               else Inr (Some \<lfloor>q\<rfloor>)
           | _ \<Rightarrow> Inl (invalidTtl
                 (''put: `expiresAt` must be a Date or a Unix epoch time in seconds (received ''
                    @ number_text a @ '')''))))"

definition isExpired :: "int option \<Rightarrow> int \<Rightarrow> bool" where
  "isExpired ttl now = (case ttl of None \<Rightarrow> False | Some t \<Rightarrow> t \<le> now)"

section \<open>Helpers\<close>

definition MAX_ITEM_BYTES :: nat where
  "MAX_ITEM_BYTES = 400 * 1024"

definition conditionalConflict :: "bool \<Rightarrow> thrown" where
  "conditionalConflict retriable =
     new_ApiError ''The conditional request failed'' (Num 409) (Some ConditionalCheckFailed)
       (Some (blocksError ConditionalCheckFailed ''The conditional request failed'')) (Some retriable)"

definition validateSchema :: "(jsval \<Rightarrow> string list option) option \<Rightarrow> jsval \<Rightarrow> (thrown, unit) res" where
  "validateSchema schema v =
     (case schema of
        None \<Rightarrow> Inr ()
      | Some validate \<Rightarrow>
          (case validate v of
             None \<Rightarrow> Inr ()
           | Some [] \<Rightarrow> Inl (set_err_name ''TypeError''
               (new_Error ''Cannot read properties of undefined (reading 'message')''))
           | Some (m # _) \<Rightarrow> Inl (blocksError ValidationFailed m)))"

definition toMockEntry :: "jsval \<Rightarrow> MockEntry option" where
  "toMockEntry stored =
     (case stored of
        Str s \<Rightarrow> Some \<lparr>me_value = s, me_ttl = None\<rparr>
      | _ \<Rightarrow>
          if \<not> truthy stored \<or> \<not> is_object stored then None
          else (case get_prop stored ''value'' of
                  Str s \<Rightarrow> (case get_prop stored ''ttl'' of
                              Num n \<Rightarrow> Some \<lparr>me_value = s, me_ttl = Some n\<rparr>
                            | _ \<Rightarrow> Some \<lparr>me_value = s, me_ttl = None\<rparr>)
                | _ \<Rightarrow> None))"

definition stored_entry :: "MockEntry \<Rightarrow> jsval" where
  "stored_entry e =
     (case me_ttl e of
        None \<Rightarrow> Str (me_value e)
      | Some t \<Rightarrow> Obj [(''value'', Str (me_value e)), (''ttl'', Num t)])"

text \<open>\<open>Object.entries\<close> of a parsed JSON value; \<open>null\<close> makes it throw.\<close>

definition object_entries :: "jsval \<Rightarrow> (string \<times> jsval) list option" where
  "object_entries v =
     (case v of
        Undef \<Rightarrow> None
      | Null \<Rightarrow> None
      | Bool _ \<Rightarrow> Some []
      | Num _ \<Rightarrow> Some []
      | Str s \<Rightarrow> Some (map (\<lambda>i. (show_nat i, Str [s ! i])) [0..<length s])
      | Arr vs \<Rightarrow> Some (map (\<lambda>i. (show_nat i, vs ! i)) [0..<length vs])
      | Obj ps \<Rightarrow> Some (enum_order ps))"

definition load_entries :: "(string \<times> jsval) list \<Rightarrow> (string \<times> MockEntry) list" where
  "load_entries es =
     foldl (\<lambda>m (k, stored). case toMockEntry stored of None \<Rightarrow> m | Some e \<Rightarrow> obj_set k e m) [] es"

definition loadFromDisk :: "string option \<Rightarrow> (string \<times> MockEntry) list" where
  "loadFromDisk file =
     (case file of
        None \<Rightarrow> []
      | Some txt \<Rightarrow>
          (case json_parse txt of
             None \<Rightarrow> []
           | Some v \<Rightarrow> (case object_entries v of None \<Rightarrow> [] | Some es \<Rightarrow> load_entries es)))"

definition flushToDisk :: "kv_store \<Rightarrow> kv_store" where
  "flushToDisk s =
     s\<lparr>kv_file := stringify_pretty (Obj (assigned_props (map (\<lambda>(k, e). (k, stored_entry e)) (kv_data s))))\<rparr>"

section \<open>Operations\<close>

text \<open>The constructor: the map is what the file holds.\<close>

definition kv_open :: "string option \<Rightarrow> kv_store" where
  "kv_open file = \<lparr>kv_data = loadFromDisk file, kv_file = file\<rparr>"

definition parse_entry :: "kv_env \<Rightarrow> string \<Rightarrow> (thrown, jsval) res" where
  "parse_entry env txt =
     (case json_parse txt of
        None \<Rightarrow> Inl (set_err_name ''SyntaxError'' (new_Error (syntax_message env txt)))
      | Some v \<Rightarrow> Inr v)"

definition kv_get :: "kv_env \<Rightarrow> string \<Rightarrow> kv_store \<Rightarrow> kv_store \<times> (thrown, jsval) res" where
  "kv_get env key s =
     (case obj_get (kv_data s) key of
        None \<Rightarrow> (s, Inr Null)
      | Some e \<Rightarrow>
          if isExpired (me_ttl e) (nowEpochSeconds env)
          then (flushToDisk (s\<lparr>kv_data := obj_del key (kv_data s)\<rparr>), Inr Null)
          else (s, parse_entry env (me_value e)))"

text \<open>The condition block of \<open>put\<close>: the conflict it throws, if any.\<close>

definition put_conflict :: "string \<Rightarrow> PutOptions \<Rightarrow> kv_store \<Rightarrow> thrown option" where
  "put_conflict key opts s =
     (let wantAbsent = (ifNotExists opts = Bool True);
          wantValue = (ifValueEquals opts \<noteq> Undef) in
      if wantAbsent \<or> wantValue then
        let exists = obj_has (kv_data s) key;
            current = (if exists then map_option me_value (obj_get (kv_data s) key) else None);
            absentOk = (wantAbsent \<and> \<not> exists);
            valueOk = (wantValue \<and> current = stringify (ifValueEquals opts)) in
        if \<not> absentOk \<and> \<not> valueOk
        then Some (conditionalConflict (ifValueEquals opts \<noteq> Undef))
        else None
      else None)"

definition kv_put :: "kv_env \<Rightarrow> string \<Rightarrow> jsval \<Rightarrow> PutOptions \<Rightarrow> kv_store \<Rightarrow> kv_store \<times> (thrown, unit) res" where
  "kv_put env key v opts s =
     (case validateSchema (kv_schema env) v of
        Inl e \<Rightarrow> (s, Inl e)
      | Inr _ \<Rightarrow>
     (case stringify v of
        None \<Rightarrow> (s, Inl (set_err_name ''TypeError'' (new_Error
          ''The \"string\" argument must be of type string or an instance of Buffer or ArrayBuffer. Received undefined'')))
      | Some serialized \<Rightarrow>
          if length serialized > MAX_ITEM_BYTES
          then (s, Inl (blocksError ItemTooLarge ''Item size has exceeded the maximum allowed size of 400 KB''))
          else
     (case resolveTtlEpochSeconds (nowEpochSeconds env) opts of
        Inl e \<Rightarrow> (s, Inl e)
      | Inr expires \<Rightarrow>
     (case put_conflict key opts s of
        Some e \<Rightarrow> (s, Inl e)
      | None \<Rightarrow>
          (flushToDisk (s\<lparr>kv_data := obj_set key \<lparr>me_value = serialized, me_ttl = expires\<rparr> (kv_data s)\<rparr>),
           Inr ())))))"

definition kv_delete :: "string \<Rightarrow> ConditionalDeleteOptions \<Rightarrow> kv_store \<Rightarrow> kv_store \<times> (thrown, unit) res" where
  "kv_delete key conds s =
     (let retriable = (del_ifValueEquals conds \<noteq> Undef \<and> \<not> truthy (ifExists conds)) in
      if truthy (ifExists conds) \<and> \<not> obj_has (kv_data s) key
      then (s, Inl (conditionalConflict retriable))
      else if del_ifValueEquals conds \<noteq> Undef
           \<and> map_option me_value (obj_get (kv_data s) key) \<noteq> stringify (del_ifValueEquals conds)
      then (s, Inl (conditionalConflict retriable))
      else (flushToDisk (s\<lparr>kv_data := obj_del key (kv_data s)\<rparr>), Inr ()))"

definition pruneExpired :: "int \<Rightarrow> kv_store \<Rightarrow> kv_store" where
  "pruneExpired now s =
     (let expired = map fst (filter (\<lambda>(k, e). isExpired (me_ttl e) now) (kv_data s)) in
      if expired = [] then s
      else flushToDisk (s\<lparr>kv_data := foldl (\<lambda>d k. obj_del k d) (kv_data s) expired\<rparr>))"

text \<open>The entries a scan yields, and the exception that ends it if a stored text does not parse.\<close>

fun kv_yield :: "kv_env \<Rightarrow> (string \<times> MockEntry) list \<Rightarrow> (string \<times> jsval) list \<times> thrown option" where
  "kv_yield env [] = ([], None)"
| "kv_yield env ((k, e) # es) =
     (case parse_entry env (me_value e) of
        Inl x \<Rightarrow> ([], Some x)
      | Inr v \<Rightarrow> (case kv_yield env es of (vs, x) \<Rightarrow> ((k, v) # vs, x)))"

definition kv_scan :: "kv_env \<Rightarrow> bool \<Rightarrow> kv_store \<Rightarrow> kv_store \<times> (string \<times> jsval) list \<times> thrown option" where
  "kv_scan env includeExpired s =
     (if includeExpired then (s, kv_yield env (kv_data s))
      else let s' = pruneExpired (nowEpochSeconds env) s in (s', kv_yield env (kv_data s')))"

section \<open>What is on disk is what is in memory\<close>

lemma toMockEntry_stored [simp]: "toMockEntry (stored_entry e) = Some e"
  by (cases e) (auto simp: toMockEntry_def stored_entry_def is_object_def split: option.splits)

lemma stored_entry_plain [simp]: "plain (stored_entry e)"
  by (auto simp: stored_entry_def split: option.splits)

lemma load_entries_stored:
  "obj_wf (acc @ es) \<Longrightarrow>
   foldl (\<lambda>m (k, stored). case toMockEntry stored of None \<Rightarrow> m | Some e \<Rightarrow> obj_set k e m) acc
     (map (\<lambda>(k, e). (k, stored_entry e)) es) = acc @ es"
proof (induction es arbitrary: acc)
  case (Cons p es)
  obtain k e where p: "p = (k, e)" by fastforce
  have "obj_set k e acc = acc @ [(k, e)]" using Cons.prems p by (intro obj_set_fresh) auto
  then show ?case using Cons.IH [of "acc @ [(k, e)]"] Cons.prems p by simp
qed simp

lemma enum_order_map:
  "enum_order (map (\<lambda>(k, e). (k, f e)) ps) = map (\<lambda>(k, e). (k, f e)) (enum_order ps)"
proof -
  have ins: "insort_key (\<lambda>(k, v). read_nat k) ((\<lambda>(k, e). (k, f e)) x) (map (\<lambda>(k, e). (k, f e)) xs)
      = map (\<lambda>(k, e). (k, f e)) (insort_key (\<lambda>(k, v). read_nat k) x xs)" for x xs
    by (induction xs) (auto split: prod.splits)
  have sort: "sort_key (\<lambda>(k, v). read_nat k) (map (\<lambda>(k, e). (k, f e)) xs)
      = map (\<lambda>(k, e). (k, f e)) (sort_key (\<lambda>(k, v). read_nat k) xs)" for xs
    by (induction xs) (simp_all add: ins)
  show ?thesis by (simp add: enum_order_def filter_map comp_def case_prod_unfold
        sort [unfolded case_prod_unfold])
qed

lemma assigned_props_map:
  "assigned_props (map (\<lambda>(k, e). (k, f e)) ps) = map (\<lambda>(k, e). (k, f e)) (assigned_props ps)"
  using enum_order_map [of f "filter (\<lambda>(k, e). k \<noteq> PROTO) ps"]
  by (simp add: assigned_props_def filter_map comp_def case_prod_unfold)

lemma map_fst_entries [simp]: "map fst (map (\<lambda>(k, e). (k, f e)) ps) = map fst ps"
  by (induction ps) auto

lemma load_flush:
  assumes "obj_wf (kv_data s)"
  shows "loadFromDisk (kv_file (flushToDisk s)) = enum_order (assigned_props (kv_data s))"
proof -
  let ?o = "Obj (map (\<lambda>(k, e). (k, stored_entry e)) (assigned_props (kv_data s)))"
  have pl: "plain ?o" using assms by (auto simp del: map_map)
  have "kv_file (flushToDisk s) = Some (print_pretty 0 ?o)"
    using norm_plain [OF pl] by (simp add: flushToDisk_def stringify_pretty_def assigned_props_map del: json_norm.simps)
  then show ?thesis
    using assms load_entries_stored [of "[]" "enum_order (assigned_props (kv_data s))"] json_parse_pretty [OF pl]
    by (simp add: loadFromDisk_def object_entries_def enum_order_map load_entries_def)
qed

definition kv_inv :: "kv_store \<Rightarrow> bool" where
  "kv_inv s = (obj_wf (kv_data s) \<and>
     (\<forall>k. k \<noteq> PROTO \<longrightarrow> obj_get (loadFromDisk (kv_file s)) k = obj_get (kv_data s) k))"

lemma kv_inv_flush: "obj_wf d \<Longrightarrow> kv_inv (flushToDisk (s\<lparr>kv_data := d\<rparr>))"
proof -
  assume d: "obj_wf d"
  have "kv_data (flushToDisk (s\<lparr>kv_data := d\<rparr>)) = d" by (simp add: flushToDisk_def)
  then show ?thesis using d by (simp add: kv_inv_def load_flush obj_get_assigned)
qed

lemma flush_data [simp]: "kv_data (flushToDisk s) = kv_data s"
  by (simp add: flushToDisk_def)

lemma load_entries_acc_wf: "obj_wf acc \<Longrightarrow> obj_wf (foldl (\<lambda>m (k, stored). case toMockEntry stored of
    None \<Rightarrow> m | Some e \<Rightarrow> obj_set k e m) acc es)"
proof (induction es arbitrary: acc)
  case (Cons x es)
  obtain k st where x: "x = (k, st)" by fastforce
  show ?case
  proof (cases "toMockEntry st")
    case None
    then show ?thesis using Cons by (simp add: x)
  next
    case (Some e)
    then show ?thesis using Cons.IH [OF obj_wf_set [OF Cons.prems]] by (simp add: x)
  qed
qed simp

lemma load_entries_wf: "obj_wf (load_entries es)"
  unfolding load_entries_def by (rule load_entries_acc_wf) simp

lemma loadFromDisk_wf: "obj_wf (loadFromDisk file)"
  by (simp add: loadFromDisk_def load_entries_wf split: option.split)

lemma kv_open_inv: "kv_inv (kv_open file)"
  by (simp add: kv_inv_def kv_open_def loadFromDisk_wf)

lemma obj_set_all:
  "\<forall>(k, v) \<in> set d. P v \<Longrightarrow> P w \<Longrightarrow> \<forall>(k, v) \<in> set (obj_set key w d). P v"
  by (induction key w d rule: obj_set.induct) (auto split: if_splits)

lemma obj_wf_dels: "obj_wf d \<Longrightarrow> obj_wf (foldl (\<lambda>d k. obj_del k d) d ks)"
  by (induction ks arbitrary: d) auto

lemma obj_get_dels: "obj_get (foldl (\<lambda>d k. obj_del k d) d ks) k = (if k \<in> set ks then None else obj_get d k)"
  by (induction ks arbitrary: d) auto

lemma dels_filter: "foldl (\<lambda>d k. obj_del k d) d ks = filter (\<lambda>(k, v). k \<notin> set ks) d"
  by (induction ks arbitrary: d) (auto simp: obj_del_def case_prod_unfold conj_commute intro!: filter_cong)

section \<open>Every operation keeps memory and disk together\<close>

lemma kv_get_cases:
  "kv_get env key s = (s', r) \<Longrightarrow>
     s' = s \<or> s' = flushToDisk (s\<lparr>kv_data := obj_del key (kv_data s)\<rparr>)"
  by (auto simp: kv_get_def split: option.splits if_splits)

lemma kv_put_cases:
  "kv_put env key v opts s = (s', r) \<Longrightarrow>
     (s' = s \<and> r \<noteq> Inr ()) \<or>
     (\<exists>txt t. stringify v = Some txt \<and> length txt \<le> MAX_ITEM_BYTES
        \<and> resolveTtlEpochSeconds (nowEpochSeconds env) opts = Inr t \<and> put_conflict key opts s = None
        \<and> r = Inr () \<and> s' = flushToDisk (s\<lparr>kv_data := obj_set key \<lparr>me_value = txt, me_ttl = t\<rparr> (kv_data s)\<rparr>))"
  by (auto simp: kv_put_def split: sum.splits option.splits if_splits)

lemma kv_delete_cases:
  "kv_delete key conds s = (s', r) \<Longrightarrow>
     (s' = s \<and> r \<noteq> Inr ()) \<or>
     (r = Inr () \<and> s' = flushToDisk (s\<lparr>kv_data := obj_del key (kv_data s)\<rparr>))"
  by (auto simp: kv_delete_def Let_def split: if_splits)

lemma pruneExpired_data:
  "kv_data (pruneExpired now s) = filter (\<lambda>(k, e). \<not> isExpired (me_ttl e) now) (kv_data s)"
  if "obj_wf (kv_data s)"
proof -
  let ?ex = "map fst (filter (\<lambda>(k, e). isExpired (me_ttl e) now) (kv_data s))"
  have "k \<in> set ?ex \<longleftrightarrow> isExpired (me_ttl e) now" if "(k, e) \<in> set (kv_data s)" for k e
  proof
    assume "k \<in> set ?ex"
    then obtain e' where "(k, e') \<in> set (kv_data s)" "isExpired (me_ttl e') now" by auto
    then show "isExpired (me_ttl e) now"
      using eq_key_imp_eq_value [OF \<open>obj_wf (kv_data s)\<close>] that by blast
  next
    assume "isExpired (me_ttl e) now"
    then have "(k, e) \<in> set (filter (\<lambda>(k, e). isExpired (me_ttl e) now) (kv_data s))" using that by simp
    then show "k \<in> set ?ex" unfolding set_map by (rule image_eqI [rotated]) simp
  qed
  then have keep: "filter (\<lambda>(k, v). k \<notin> set ?ex) (kv_data s)
      = filter (\<lambda>(k, e). \<not> isExpired (me_ttl e) now) (kv_data s)"
    by (intro filter_cong) (auto simp del: set_map)
  show ?thesis
  proof (cases "?ex = []")
    case True
    then have "pruneExpired now s = s" by (simp add: pruneExpired_def)
    then show ?thesis using keep unfolding True by simp
  next
    case False
    then show ?thesis using keep by (simp add: pruneExpired_def dels_filter del: map_is_Nil_conv)
  qed
qed

lemma pruneExpired_cases:
  "pruneExpired now s = s \<or> (\<exists>ks. pruneExpired now s
     = flushToDisk (s\<lparr>kv_data := foldl (\<lambda>d k. obj_del k d) (kv_data s) ks\<rparr>))"
  by (cases "map fst (filter (\<lambda>(k, e). isExpired (me_ttl e) now) (kv_data s)) = []")
     (simp_all add: pruneExpired_def del: map_is_Nil_conv, blast)

text \<open>
  The processes that share a store file: one is open at a time, runs the operations, and may stop
  at any point and be started again.
\<close>

inductive kv_step :: "kv_store \<Rightarrow> kv_store \<Rightarrow> bool" where
  step_get: "kv_get env key s = (s', r) \<Longrightarrow> kv_step s s'"
| step_put: "kv_put env key v opts s = (s', r) \<Longrightarrow> kv_step s s'"
| step_delete: "kv_delete key conds s = (s', r) \<Longrightarrow> kv_step s s'"
| step_scan: "kv_scan env includeExpired s = (s', items) \<Longrightarrow> kv_step s s'"
| step_restart: "kv_step s (kv_open (kv_file s))"

inductive kv_reachable :: "kv_store \<Rightarrow> bool" where
  reach_open: "kv_reachable (kv_open file)"
| reach_step: "kv_reachable s \<Longrightarrow> kv_step s s' \<Longrightarrow> kv_reachable s'"

inductive_cases kv_stepE: "kv_step s s'"

lemma kv_step_inv:
  assumes "kv_step s s'" and inv: "kv_inv s"
  shows "kv_inv s'"
proof -
  have wf: "obj_wf (kv_data s)" using inv by (simp add: kv_inv_def)
  from assms(1) show ?thesis
  proof cases
    case step_get
    then show ?thesis using kv_get_cases inv kv_inv_flush obj_wf_del [OF wf] by metis
  next
    case step_put
    then show ?thesis using kv_put_cases inv kv_inv_flush obj_wf_set [OF wf] by metis
  next
    case step_delete
    then show ?thesis using kv_delete_cases inv kv_inv_flush obj_wf_del [OF wf] by metis
  next
    case (step_scan env ie items)
    then have "s' = s \<or> s' = pruneExpired (nowEpochSeconds env) s"
      by (auto simp: kv_scan_def Let_def split: if_splits)
    then show ?thesis using pruneExpired_cases inv kv_inv_flush obj_wf_dels [OF wf] by metis
  qed (simp add: kv_open_inv)
qed

lemma kv_reachable_inv: "kv_reachable s \<Longrightarrow> kv_inv s"
  by (induction rule: kv_reachable.induct) (auto intro: kv_open_inv kv_step_inv)

text \<open>Memory and disk agree at every moment: whatever gets, puts, deletes, scans and
  restarts the store has been through since it was opened on any file, its map holds no key twice
  and a process that opens the file now sees, under every key but \<open>__proto__\<close>, exactly the
  entry (text and expiry) that the running one has.  No acknowledged write is lost and no deleted
  or expired entry comes back.\<close>

theorem kv_restart_preserves:
  assumes "kv_reachable s" and "k \<noteq> ''__proto__''"
  shows "obj_wf (kv_data s) \<and> obj_get (kv_data (kv_open (kv_file s))) k = obj_get (kv_data s) k"
  using kv_reachable_inv [OF assms(1)] assms(2) by (simp add: kv_inv_def kv_open_def PROTO_def)

lemma kv_restart_preserves_witness:
  "obj_get (kv_data (kv_open (kv_file (fst (kv_put \<lparr>nowEpochSeconds = 5, kv_schema = None, syntax_message = id\<rparr>
       ''otp'' (Bool True) no_put_options (kv_open None)))))) ''otp'' = Some \<lparr>me_value = ''true'', me_ttl = None\<rparr>"
proof -
  let ?r = "kv_put \<lparr>nowEpochSeconds = 5, kv_schema = None, syntax_message = id\<rparr> ''otp'' (Bool True)
       no_put_options (kv_open None)"
  have "kv_reachable (fst ?r)"
    by (rule reach_step [OF reach_open step_put]) (rule surjective_pairing)
  from kv_restart_preserves [OF this, of "''otp''"]
  have "obj_get (kv_data (kv_open (kv_file (fst ?r)))) ''otp'' = obj_get (kv_data (fst ?r)) ''otp''"
    by simp
  also have "\<dots> = Some \<lparr>me_value = ''true'', me_ttl = None\<rparr>"
    by (simp add: kv_put_def validateSchema_def stringify_def MAX_ITEM_BYTES_def resolveTtlEpochSeconds_def
        no_put_options_def put_conflict_def )
  finally show ?thesis .
qed

text \<open>The one name the disk format cannot hold: a \<open>put\<close> under \<open>__proto__\<close> succeeds and is
  visible to the running process, but the file it writes has no such property, so the next process
  reads \<open>null\<close>.\<close>

theorem kv_proto_lost:
  assumes "kv_reachable s" and "kv_put env ''__proto__'' v opts s = (s', Inr ())"
  shows "obj_has (kv_data s') ''__proto__'' \<and>
     kv_get env' ''__proto__'' (kv_open (kv_file s')) = (kv_open (kv_file s'), Inr Null)"
proof -
  have wf: "obj_wf (kv_data s)" using kv_reachable_inv [OF assms(1)] by (simp add: kv_inv_def)
  obtain e where s': "s' = flushToDisk (s\<lparr>kv_data := obj_set ''__proto__'' e (kv_data s)\<rparr>)"
    using kv_put_cases [OF assms(2)] by blast
  let ?d = "obj_set ''__proto__'' e (kv_data s)"
  have "obj_get (loadFromDisk (kv_file s')) ''__proto__'' = None"
    using obj_wf_set [OF wf, of "''__proto__''" e] unfolding s'
    by (subst load_flush) (simp_all add: obj_get_assigned PROTO_def)
  then show ?thesis by (simp add: kv_get_def kv_open_def s')
qed

lemma kv_proto_lost_witness:
  "\<forall>env'. kv_get env' ''__proto__'' (kv_open (kv_file (fst (kv_put
       \<lparr>nowEpochSeconds = 5, kv_schema = None, syntax_message = id\<rparr> ''__proto__'' (Bool True) no_put_options (kv_open None)))))
   = (kv_open (kv_file (fst (kv_put \<lparr>nowEpochSeconds = 5, kv_schema = None, syntax_message = id\<rparr>
       ''__proto__'' (Bool True) no_put_options (kv_open None)))), Inr Null)"
proof -
  let ?r = "kv_put \<lparr>nowEpochSeconds = 5, kv_schema = None, syntax_message = id\<rparr> ''__proto__'' (Bool True)
       no_put_options (kv_open None)"
  have "?r = (fst ?r, Inr ())"
    by (simp add: kv_put_def validateSchema_def stringify_def MAX_ITEM_BYTES_def resolveTtlEpochSeconds_def
        no_put_options_def put_conflict_def )
  from kv_proto_lost [OF reach_open this] show ?thesis by blast
qed

section \<open>What a read returns\<close>

lemma parse_entry_written:
  "wf_js v \<Longrightarrow> stringify v = Some txt \<Longrightarrow> parse_entry env txt = Inr (json_norm v)"
  by (auto simp: stringify_def parse_entry_def json_parse_print plain_norm split: if_splits)

text \<open>A successful \<open>put\<close> is what later reads return.  A read of that key gives the JSON view of
  the value until the expiry resolved from the options has come and \<open>null\<close> from that second on,
  in the running process and, unless the key is \<open>__proto__\<close>, in a process that opens the
  file afterwards; every other key is untouched.\<close>

theorem kv_put_get:
  assumes "kv_reachable s" and "wf_js v" and "kv_put env key v opts s = (s', Inr ())"
  shows "\<exists>t. resolveTtlEpochSeconds (nowEpochSeconds env) opts = Inr t
     \<and> snd (kv_get env2 key s') = Inr (if isExpired t (nowEpochSeconds env2) then Null else json_norm v)
     \<and> (key \<noteq> ''__proto__'' \<longrightarrow> snd (kv_get env2 key (kv_open (kv_file s'))) = snd (kv_get env2 key s'))
     \<and> (\<forall>k. k \<noteq> key \<longrightarrow> obj_get (kv_data s') k = obj_get (kv_data s) k)"
proof -
  obtain tx t where t: "resolveTtlEpochSeconds (nowEpochSeconds env) opts = Inr t" "stringify v = Some tx"
    and s': "s' = flushToDisk (s\<lparr>kv_data := obj_set key \<lparr>me_value = tx, me_ttl = t\<rparr> (kv_data s)\<rparr>)"
    using kv_put_cases [OF assms(3)] by blast
  have data: "kv_data s' = obj_set key \<lparr>me_value = tx, me_ttl = t\<rparr> (kv_data s)"
    by (simp add: s')
  have g: "snd (kv_get env2 key s') = Inr (if isExpired t (nowEpochSeconds env2) then Null else json_norm v)"
    using parse_entry_written [OF assms(2) t(2)] by (simp add: kv_get_def data)
  have "kv_inv s'" using kv_reachable_inv reach_step [OF assms(1) step_put [OF assms(3)]] by blast
  then have "key \<noteq> PROTO \<Longrightarrow> obj_get (kv_data (kv_open (kv_file s'))) key = obj_get (kv_data s') key"
    by (simp add: kv_inv_def kv_open_def)
  then have "key \<noteq> PROTO \<Longrightarrow> snd (kv_get env2 key (kv_open (kv_file s'))) = snd (kv_get env2 key s')"
    by (simp add: kv_get_def split: option.split)
  with t g show ?thesis by (auto simp: data PROTO_def)
qed

lemma kv_put_get_witness:
  "snd (kv_get \<lparr>nowEpochSeconds = 64, kv_schema = None, syntax_message = id\<rparr> ''otp''
     (fst (kv_put \<lparr>nowEpochSeconds = 5, kv_schema = None, syntax_message = id\<rparr> ''otp'' (Bool True)
       (no_put_options\<lparr>ttlSeconds := Some (Finite 60 ''60'')\<rparr>) (kv_open None)))) = Inr (Bool True)"
proof -
  let ?o = "no_put_options\<lparr>ttlSeconds := Some (Finite 60 ''60'')\<rparr>"
  let ?e = "\<lparr>nowEpochSeconds = 5, kv_schema = None, syntax_message = id\<rparr>"
  let ?r = "kv_put ?e ''otp'' (Bool True) ?o (kv_open None)"
  have t: "resolveTtlEpochSeconds (nowEpochSeconds ?e) ?o = Inr (Some 65)"
    by (simp add: resolveTtlEpochSeconds_def no_put_options_def)
  have "?r = (fst ?r, Inr ())"
    using t by (simp add: kv_put_def validateSchema_def stringify_def MAX_ITEM_BYTES_def
        no_put_options_def put_conflict_def )
  from kv_put_get [OF reach_open _ this, of "\<lparr>nowEpochSeconds = 64, kv_schema = None, syntax_message = id\<rparr>"]
  show ?thesis using t by (auto simp: isExpired_def)
qed

text \<open>When an item expires.  An item written with \<open>ttlSeconds\<close> \<open>q\<close> at time
  \<open>now\<close> counts as expired at second \<open>n\<close> exactly when \<open>now + q \<le> n\<close>; one
  written with \<open>expiresAt\<close> given as a \<open>Date\<close> or in seconds expires at the first whole
  second not before that instant's own second; one with neither never expires.  Every other
  combination is refused with \<open>ValidationFailedException\<close>.\<close>

theorem kv_expiry_exact:
  "resolveTtlEpochSeconds now opts = Inr t \<longleftrightarrow>
     (\<exists>q a. ttlSeconds opts = Some (Finite q a) \<and> expiresAt opts = None \<and> 0 < q
        \<and> (\<exists>e. t = Some e \<and> (\<forall>n. isExpired t n \<longleftrightarrow> rat_of_int now + q \<le> rat_of_int n))) \<or>
     (\<exists>m. ttlSeconds opts = None \<and> expiresAt opts = Some (ExpiryDate (Some m))
        \<and> (\<exists>e. t = Some e \<and> (\<forall>n. isExpired t n \<longleftrightarrow> m < 1000 * n + 1000))) \<or>
     (\<exists>q a. ttlSeconds opts = None \<and> expiresAt opts = Some (ExpiryNumber (Finite q a)) \<and> q < 100000000000
        \<and> (\<exists>e. t = Some e \<and> (\<forall>n. isExpired t n \<longleftrightarrow> q < rat_of_int n + 1))) \<or>
     (ttlSeconds opts = None \<and> expiresAt opts = None \<and> t = None)"
proof -
  have same: "(\<forall>n. isExpired (Some e) n = isExpired (Some e') n) \<longleftrightarrow> e = e'" for e e'
    by (auto simp: isExpired_def) (metis order_refl order_antisym)
  have ceil: "isExpired (Some (now + \<lceil>q\<rceil>)) n \<longleftrightarrow> rat_of_int now + q \<le> rat_of_int n" for q n
  proof -
    have "now + \<lceil>q\<rceil> \<le> n \<longleftrightarrow> \<lceil>q\<rceil> \<le> n - now" by linarith
    also have "\<dots> \<longleftrightarrow> q \<le> rat_of_int (n - now)" by (rule ceiling_le_iff)
    finally show ?thesis by (auto simp: isExpired_def)
  qed
  have flr: "isExpired (Some \<lfloor>q\<rfloor>) n \<longleftrightarrow> q < rat_of_int n + 1" for q :: rat and n
    by (auto simp: isExpired_def floor_le_iff)
  have dv: "isExpired (Some (m div 1000)) n \<longleftrightarrow> m < 1000 * n + 1000" for m n :: int
    by (auto simp: isExpired_def)
  show ?thesis
  proof (cases "ttlSeconds opts"; cases "expiresAt opts")
    fix a assume h: "ttlSeconds opts = Some a" "expiresAt opts = None"
    show ?thesis
      by (cases a) (auto simp: resolveTtlEpochSeconds_def h same ceil [symmetric])
  next
    fix x assume h: "ttlSeconds opts = None" "expiresAt opts = Some x"
    show ?thesis
    proof (cases x)
      case (ExpiryDate m)
      then show ?thesis
        by (cases m) (auto simp: resolveTtlEpochSeconds_def h same dv [symmetric])
    next
      case (ExpiryNumber a)
      then show ?thesis
        by (cases a) (auto simp: resolveTtlEpochSeconds_def h same flr [symmetric] MAX_PLAUSIBLE_EPOCH_SECONDS_def)
    qed
  qed (auto simp: resolveTtlEpochSeconds_def)
qed

lemma kv_yield_sound:
  "kv_yield env es = (items, err) \<Longrightarrow>
     (\<forall>(k, v) \<in> set items. \<exists>e. (k, e) \<in> set es \<and> json_parse (me_value e) = Some v)
     \<and> map fst items = take (length items) (map fst es)
     \<and> (err = None \<longleftrightarrow> length items = length es)"
proof (induction env es arbitrary: items err rule: kv_yield.induct)
  case (2 env k e es)
  show ?case
  proof (cases "parse_entry env (me_value e)")
    case (Inl x)
    then show ?thesis using 2(2) by auto
  next
    case (Inr v)
    obtain vs x where y: "kv_yield env es = (vs, x)" by fastforce
    then have "items = (k, v) # vs" "err = x" using 2(2) Inr by auto
    moreover have "json_parse (me_value e) = Some v"
      using Inr by (auto simp: parse_entry_def split: option.splits)
    ultimately show ?thesis using 2(1) [OF Inr y] by fastforce
  qed
qed simp

text \<open>Expired entries are never returned.  A \<open>get\<close> that finds a value found an entry
  that has not expired and returns its text parsed; a \<open>scan\<close> first drops exactly the expired
  entries, then yields the remaining keys in order, each with its own text parsed, stopping early
  only with an error.\<close>

theorem kv_reads_live:
  assumes "kv_reachable s"
  shows "(\<forall>v. snd (kv_get env key s) = Inr v \<and> v \<noteq> Null \<longrightarrow>
      (\<exists>e. obj_get (kv_data s) key = Some e \<and> \<not> isExpired (me_ttl e) (nowEpochSeconds env)
         \<and> json_parse (me_value e) = Some v))
    \<and> (case kv_scan env False s of (s', items, err) \<Rightarrow>
         kv_data s' = filter (\<lambda>(k, e). \<not> isExpired (me_ttl e) (nowEpochSeconds env)) (kv_data s)
       \<and> map fst items = take (length items) (map fst (kv_data s'))
       \<and> (\<forall>(k, v) \<in> set items. \<exists>e. (k, e) \<in> set (kv_data s) \<and> \<not> isExpired (me_ttl e) (nowEpochSeconds env)
              \<and> json_parse (me_value e) = Some v)
       \<and> (err = None \<longleftrightarrow> length items = length (kv_data s')))"
proof -
  have wf: "obj_wf (kv_data s)" using kv_reachable_inv [OF assms] by (simp add: kv_inv_def)
  let ?s' = "pruneExpired (nowEpochSeconds env) s"
  obtain items err where y: "kv_yield env (kv_data ?s') = (items, err)" by fastforce
  from kv_yield_sound [OF y] pruneExpired_data [OF wf, of "nowEpochSeconds env"] y
  have "case kv_scan env False s of (s', items, err) \<Rightarrow>
         kv_data s' = filter (\<lambda>(k, e). \<not> isExpired (me_ttl e) (nowEpochSeconds env)) (kv_data s)
       \<and> map fst items = take (length items) (map fst (kv_data s'))
       \<and> (\<forall>(k, v) \<in> set items. \<exists>e. (k, e) \<in> set (kv_data s) \<and> \<not> isExpired (me_ttl e) (nowEpochSeconds env)
              \<and> json_parse (me_value e) = Some v)
       \<and> (err = None \<longleftrightarrow> length items = length (kv_data s'))"
    by (auto simp: kv_scan_def Let_def)
  then show ?thesis
    by (auto simp: kv_get_def parse_entry_def split: option.splits if_splits)
qed

lemma kv_reads_live_witness:
  "(case kv_scan \<lparr>nowEpochSeconds = 5, kv_schema = None, syntax_message = id\<rparr> False (kv_open None) of
     (s', items, err) \<Rightarrow> map fst items = take (length items) (map fst (kv_data s')))"
  using kv_reads_live [OF reach_open, of "\<lparr>nowEpochSeconds = 5, kv_schema = None, syntax_message = id\<rparr>" "''k''" None]
  by (auto split: prod.splits)

section \<open>Conditional writes\<close>

lemma conditionalConflict_sel [simp]:
  "err_status (conditionalConflict r) = Num 409" "err_retriable (conditionalConflict r) = Bool r"
  "isBlocksError (conditionalConflict r) ''ConditionalCheckFailedException''"
  by (simp_all add: conditionalConflict_def ConditionalCheckFailed_def)

lemma put_conflict_iff:
  "put_conflict key opts s =
     (let current = map_option me_value (obj_get (kv_data s) key) in
      if (ifNotExists opts \<noteq> Bool True \<and> ifValueEquals opts = Undef)
       \<or> (ifNotExists opts = Bool True \<and> current = None)
       \<or> (ifValueEquals opts \<noteq> Undef \<and> current = stringify (ifValueEquals opts))
      then None else Some (conditionalConflict (ifValueEquals opts \<noteq> Undef)))"
  by (auto simp: put_conflict_def Let_def obj_has_get split: if_splits)

lemma put_valid:
  assumes "validateSchema (kv_schema env) v = Inr ()" "stringify v = Some tx" "length tx \<le> MAX_ITEM_BYTES"
    and "resolveTtlEpochSeconds (nowEpochSeconds env) opts = Inr t"
  shows "kv_put env key v opts s =
    (case put_conflict key opts s of
       Some e \<Rightarrow> (s, Inl e)
     | None \<Rightarrow> (flushToDisk (s\<lparr>kv_data := obj_set key \<lparr>me_value = tx, me_ttl = t\<rparr> (kv_data s)\<rparr>), Inr ()))"
  using assms by (simp add: kv_put_def)

lemma stringify_eq_iff:
  "plain v \<Longrightarrow> wf_js w \<Longrightarrow> w \<noteq> Undef \<Longrightarrow> stringify v = stringify w \<longleftrightarrow> v = json_norm w"
proof -
  assume h: "plain v" "wf_js w" "w \<noteq> Undef"
  have inj: "print_json v = print_json (json_norm w) \<longleftrightarrow> v = json_norm w"
    using json_parse_print [OF h(1)] json_parse_print [OF plain_norm [OF h(2)]] by (metis option.inject)
  have "v \<noteq> Undef" using h(1) by (cases v) simp_all
  then have "stringify v = Some (print_json v)" by (simp add: stringify_def norm_plain [OF h(1)])
  moreover have "stringify w = Some (print_json (json_norm w))" using h(3) by (simp add: stringify_def)
  ultimately show ?thesis unfolding option.inject by (simp only: option.inject inj)
qed

text \<open>Conditions of a write compose with OR, and the conflict reaches the caller of the API.
  For an acceptable value and expiry, a \<open>put\<close> stores the entry and answers success when no
  condition is set, when \<open>ifNotExists\<close> is set and the key is absent, or when
  \<open>ifValueEquals\<close> is set and the JSON text of that value is the stored one.  Otherwise the
  store is unchanged and the error, sent through the RPC layer, is decoded by the client as a 409
  with the documented name, retriable exactly when a value condition took part.\<close>

theorem kv_put_conditions:
  assumes "validateSchema (kv_schema env) v = Inr ()" "stringify v = Some tx" "length tx \<le> 409600"
    and "resolveTtlEpochSeconds (nowEpochSeconds env) opts = Inr t" and "wf_js i"
  shows "let current = map_option me_value (obj_get (kv_data s) key) in
     if (ifNotExists opts \<noteq> Bool True \<and> ifValueEquals opts = Undef)
       \<or> (ifNotExists opts = Bool True \<and> current = None)
       \<or> (ifValueEquals opts \<noteq> Undef \<and> current = stringify (ifValueEquals opts))
     then \<exists>s'. kv_put env key v opts s = (s', Inr ())
        \<and> kv_data s' = obj_set key \<lparr>me_value = tx, me_ttl = t\<rparr> (kv_data s)
     else \<exists>e. kv_put env key v opts s = (s, Inl e)
        \<and> map_option (\<lambda>b. decodeRpcResponse b h) (json_parse (errorResponseFromCatch e i)) =
            Some (Inl (new_ApiError ''The conditional request failed'' (Num 409)
              (Some ''ConditionalCheckFailedException'') None (Some (ifValueEquals opts \<noteq> Undef))))"
proof -
  have wire: "map_option (\<lambda>b. decodeRpcResponse b h) (json_parse (errorResponseFromCatch (conditionalConflict r) i)) =
            Some (Inl (new_ApiError ''The conditional request failed'' (Num 409)
              (Some ''ConditionalCheckFailedException'') None (Some r)))" for r
    unfolding conditionalConflict_def new_ApiError_def brandBlocksError_def thrown.case
    by (subst decode_caught_api_error)
       (simp_all add: assms(5) isApiErrorLike_def ConditionalCheckFailed_def new_ApiError_def brandBlocksError_def)
  have "length tx \<le> MAX_ITEM_BYTES" using assms(3) by (simp add: MAX_ITEM_BYTES_def)
  note put = put_valid [OF assms(1,2) this assms(4), of key s]
  show ?thesis unfolding put put_conflict_iff Let_def using wire by simp
qed

lemma kv_put_conditions_witness:
  "\<exists>s'. kv_put \<lparr>nowEpochSeconds = 5, kv_schema = None, syntax_message = id\<rparr> ''k'' (Bool True)
     (no_put_options\<lparr>ifNotExists := Bool True\<rparr>) (kv_open None) = (s', Inr ())"
  using kv_put_conditions [of "\<lparr>nowEpochSeconds = 5, kv_schema = None, syntax_message = id\<rparr>" "Bool True" "''true''"
      "no_put_options\<lparr>ifNotExists := Bool True\<rparr>" None "Num 1" "kv_open None" "''k''" None]
  by (auto simp: validateSchema_def stringify_def resolveTtlEpochSeconds_def no_put_options_def
      kv_open_def loadFromDisk_def Let_def)

text \<open>Compare-and-swap prevents lost updates.  After a value has been stored, two callers read
  it and each puts a new value on condition that it is unchanged.  The first one's condition holds;
  once its different value is stored, the second is refused without changing anything, with the
  retriable conflict when its own value and options are acceptable.\<close>

theorem kv_compare_and_swap:
  assumes "wf_js v0" and "kv_put env0 key v0 opts0 s0 = (s, Inr ())"
    and "kv_get env1 key s = (s, Inr old)"
    and "ifValueEquals opts1 = old" and "wf_js new1" and "json_norm new1 \<noteq> json_norm v0"
    and "kv_put env1 key new1 opts1 s = (s1, Inr ())" and "ifValueEquals opts2 = old"
  shows "old = json_norm v0 \<and> put_conflict key opts1 s = None
     \<and> (\<exists>e. kv_put env2 key new2 opts2 s1 = (s1, Inl e)
        \<and> (validateSchema (kv_schema env2) new2 = Inr () \<and> (\<exists>tx. stringify new2 = Some tx \<and> length tx \<le> 409600)
             \<and> (\<exists>t. resolveTtlEpochSeconds (nowEpochSeconds env2) opts2 = Inr t)
           \<longrightarrow> e = conditionalConflict True))"
proof -
  obtain tx0 t0 where p0: "stringify v0 = Some tx0"
    and s: "s = flushToDisk (s0\<lparr>kv_data := obj_set key \<lparr>me_value = tx0, me_ttl = t0\<rparr> (kv_data s0)\<rparr>)"
    using kv_put_cases [OF assms(2)] by blast
  have cur: "obj_get (kv_data s) key = Some \<lparr>me_value = tx0, me_ttl = t0\<rparr>" by (simp add: s)
  have "\<not> isExpired t0 (nowEpochSeconds env1)"
  proof
    assume "isExpired t0 (nowEpochSeconds env1)"
    then have "kv_data s = obj_del key (kv_data s)" using assms(3) cur
      by (auto simp: kv_get_def dest!: arg_cong [where f = kv_data])
    then have "obj_get (kv_data s) key = obj_get (obj_del key (kv_data s)) key" by simp
    then show False using cur by simp
  qed
  then have old: "old = json_norm v0"
    using assms(3) cur parse_entry_written [OF assms(1) p0, of env1] by (simp add: kv_get_def)
  have v0: "v0 \<noteq> Undef" using p0 by (auto simp: stringify_def)
  have pl: "plain old" using old assms(1) plain_norm by simp
  then have old_def: "old \<noteq> Undef" by auto
  have eq0: "stringify old = Some tx0" using p0 stringify_eq_iff [OF pl assms(1) v0] old by simp
  obtain tx1 t1 where p1: "stringify new1 = Some tx1"
    and s1: "s1 = flushToDisk (s\<lparr>kv_data := obj_set key \<lparr>me_value = tx1, me_ttl = t1\<rparr> (kv_data s)\<rparr>)"
    using kv_put_cases [OF assms(7)] by blast
  have n1: "new1 \<noteq> Undef" using p1 by (auto simp: stringify_def)
  have ne: "tx1 \<noteq> tx0" using stringify_eq_iff [OF pl assms(5) n1] p1 eq0 old assms(6) by auto
  have cur1: "obj_get (kv_data s1) key = Some \<lparr>me_value = tx1, me_ttl = t1\<rparr>" by (simp add: s1)
  have conf: "put_conflict key opts2 s1 = Some (conditionalConflict True)"
    using cur1 eq0 ne assms(8) old_def by (simp add: put_conflict_iff)
  obtain s2 r where r: "kv_put env2 key new2 opts2 s1 = (s2, r)" by fastforce
  have fail: "s2 = s1 \<and> r \<noteq> Inr ()" using kv_put_cases [OF r] conf by auto
  then obtain e where e: "r = Inl e" by (cases r) auto
  have "e = conditionalConflict True"
    if "validateSchema (kv_schema env2) new2 = Inr ()" "stringify new2 = Some tx" "length tx \<le> 409600"
      "resolveTtlEpochSeconds (nowEpochSeconds env2) opts2 = Inr t" for tx t
    using put_valid [OF that(1,2) _ that(4), of key s1] that(3) conf r e by (simp add: MAX_ITEM_BYTES_def)
  moreover have "put_conflict key opts1 s = None"
    using cur eq0 assms(4) old_def by (simp add: put_conflict_iff)
  ultimately show ?thesis using old r e fail by blast
qed

lemma kv_compare_and_swap_witness:
  fixes env opts s0 s s1
  defines "env \<equiv> \<lparr>nowEpochSeconds = 5, kv_schema = None, syntax_message = id\<rparr>"
    and "opts \<equiv> no_put_options\<lparr>ifValueEquals := Bool True\<rparr>"
    and "s0 \<equiv> kv_open None"
  defines "s \<equiv> fst (kv_put env ''k'' (Bool True) no_put_options s0)"
  defines "s1 \<equiv> fst (kv_put env ''k'' (Bool False) opts s)"
  shows "kv_put env ''k'' Null opts s1 = (s1, Inl (conditionalConflict True))"
proof -
  note ev = env_def opts_def s0_def s_def kv_put_def kv_get_def validateSchema_def stringify_def MAX_ITEM_BYTES_def
    resolveTtlEpochSeconds_def no_put_options_def put_conflict_def kv_open_def loadFromDisk_def Let_def isExpired_def
  have p0: "kv_put env ''k'' (Bool True) no_put_options s0 = (s, Inr ())" by (simp add: ev)
  have tx: "stringify (Bool True) = Some ''true''" by (simp add: stringify_def)
  have d: "obj_get (kv_data s) ''k'' = Some \<lparr>me_value = ''true'', me_ttl = None\<rparr>" by (simp add: ev)
  have g: "kv_get env ''k'' s = (s, Inr (Bool True))"
    using parse_entry_written [OF _ tx, of env] d by (simp add: kv_get_def isExpired_def)
  have p1: "kv_put env ''k'' (Bool False) opts s = (s1, Inr ())" unfolding s1_def by (simp add: ev)
  have o1: "ifValueEquals opts = Bool True" by (simp add: opts_def)
  have v: "validateSchema (kv_schema env) Null = Inr ()" "stringify Null = Some ''null''"
    "resolveTtlEpochSeconds (nowEpochSeconds env) opts = Inr None"
    by (simp_all add: ev)
  from kv_compare_and_swap [OF _ p0 g o1 _ _ p1 o1, of env Null] v show ?thesis by auto
qed

end
