(* ===== verification/DistributedTable.thy ===== *)
theory DistributedTable
  imports KvStore "HOL-Library.List_Lexorder" "HOL-Library.Product_Lexorder"
begin

text \<open>
  \<^verbatim>\<open>packages/bb-distributed-table/src/index.mock.ts\<close> and \<^verbatim>\<open>errors.ts\<close>: the
  local structured table.  The state is the map from serialized primary keys to items, in insertion
  order, and the text of \<^verbatim>\<open>data.json\<close>; items are passed by value.  The configuration
  carries what the application and the package \<^verbatim>\<open>defu\<close> supply: the schema's
  validator (issues, or the coerced value) and the deep merge.  Keys are compared as two strings (in
  byte order) or as two numbers; a file that is no list of pairs with a string key reads as empty.
\<close>

section \<open>Configuration, options and state\<close>

datatype ReadValidationMode = ReadOff | ReadCoerce | ReadStrict

record TableKeyConfig =
  partitionKey :: string
  sortKey :: "string option"

record dt_config =
  keyConfig :: TableKeyConfig
  indexes :: "(string \<times> TableKeyConfig) list"
  dt_validate :: "jsval \<Rightarrow> string list + jsval"
  readValidation :: ReadValidationMode
  mergeCoercedOverRaw :: "jsval \<Rightarrow> jsval \<Rightarrow> jsval"

record dt_write_options =
  dt_exists :: jsval
  ifFieldEquals :: jsval

definition no_write_options :: dt_write_options where
  "no_write_options = \<lparr>dt_exists = Undef, ifFieldEquals = Undef\<rparr>"

record QueryOptions =
  q_index :: string
  q_where :: jsval
  q_limit :: "int option"
  q_desc :: bool

record dt_table =
  dt_data :: "(string \<times> jsval) list"
  dt_file :: "string option"

section \<open>Errors and messages\<close>

definition InvalidQuery :: string where
  "InvalidQuery = ''InvalidQueryException''"

definition conditionalCheckFailed :: "bool \<Rightarrow> thrown option \<Rightarrow> thrown" where
  "conditionalCheckFailed retriable cause =
     new_ApiError ''The conditional request failed'' (Num 409) (Some ConditionalCheckFailed) cause (Some retriable)"

definition indexNotFound :: "string \<Rightarrow> string" where
  "indexNotFound ix = ''Index '' @ [CHR 0x27] @ ix @ [CHR 0x27] @ '' not found''"

definition whereRequired :: "string \<Rightarrow> string" where
  "whereRequired pk = ''query() requires a '' @ [CHR 0x27] @ ''where'' @ [CHR 0x27]
     @ '' clause with partition key field '' @ [CHR 0x27] @ pk @ [CHR 0x27]"

definition partitionKeyEqualsRequired :: "string \<Rightarrow> string" where
  "partitionKeyEqualsRequired pk = ''query() requires '' @ [CHR 0x27] @ pk @ '': { equals: value }'' @ [CHR 0x27]
     @ '' in the where clause (partition key must be an exact match)''"

definition multipleSortKeyConditions :: "string list \<Rightarrow> string" where
  "multipleSortKeyConditions ks = ''Only one sort key condition is allowed per query (DynamoDB limitation). ''
     @ ''Got: '' @ join '', '' ks @ ''. Use '' @ [CHR 0x22] @ ''between'' @ [CHR 0x22] @ '' for range queries.''"

definition emptyIfFieldEquals :: string where
  "emptyIfFieldEquals = ''ifFieldEquals must contain at least one field with a non-undefined value''"

definition itemTooLarge :: "nat \<Rightarrow> string" where
  "itemTooLarge n = ''Item size has exceeded the maximum allowed size of 400 KB (got '' @ show_nat n @ '' bytes)''"

text \<open>The error DynamoDB raises for an oversized item is given the block's own name and message.\<close>

definition remapItemTooLarge :: "thrown \<Rightarrow> thrown" where
  "remapItemTooLarge e =
     (case e of
        JsError n m a b s r c \<Rightarrow>
          if n = ''ValidationException'' \<and> str_includes (to_lower m) ''size has exceeded''
          then JsError ItemTooLarge
                 (ItemTooLarge @ '': Item size has exceeded the maximum allowed size of 400 KB'')
                 False True Undef Undef (Some e)
          else e
      | JsThrow v \<Rightarrow> e)"

section \<open>Comparisons\<close>

text \<open>\<open>===\<close> on values that are not the same object.\<close>

fun strict_eq :: "jsval \<Rightarrow> jsval \<Rightarrow> bool" where
  "strict_eq (Arr _) _ = False"
| "strict_eq (Obj _) _ = False"
| "strict_eq a b = (a = b)"

text \<open>\<open><\<close>: strings by their text, otherwise as numbers; a side that is \<open>NaN\<close> makes it false.\<close>

fun to_number :: "jsval \<Rightarrow> int option" where
  "to_number Null = Some 0"
| "to_number (Bool b) = Some (if b then 1 else 0)"
| "to_number (Num n) = Some n"
| "to_number (Str s) =
     (let t = trim s in
      if t = [] then Some 0
      else if list_all is_digit t then Some (int (read_nat t))
      else if hd t = CHR ''-'' \<and> tl t \<noteq> [] \<and> list_all is_digit (tl t) then Some (- int (read_nat (tl t)))
      else None)"
| "to_number _ = None"

fun str_less :: "string \<Rightarrow> string \<Rightarrow> bool" where
  "str_less _ [] = False"
| "str_less [] (_ # _) = True"
| "str_less (a # s) (b # t) = (char_code a < char_code b \<or> (a = b \<and> str_less s t))"

definition js_less :: "jsval \<Rightarrow> jsval \<Rightarrow> bool" where
  "js_less a b =
     (case (a, b) of
        (Str s, Str t) \<Rightarrow> str_less s t
      | _ \<Rightarrow> (case (to_number a, to_number b) of (Some m, Some n) \<Rightarrow> m < n | _ \<Rightarrow> False))"

definition js_leq :: "jsval \<Rightarrow> jsval \<Rightarrow> bool" where
  "js_leq a b =
     (case (a, b) of
        (Str s, Str t) \<Rightarrow> \<not> str_less t s
      | _ \<Rightarrow> (case (to_number a, to_number b) of (Some m, Some n) \<Rightarrow> m \<le> n | _ \<Rightarrow> False))"

definition arr_nth :: "jsval \<Rightarrow> nat \<Rightarrow> jsval" where
  "arr_nth v i = (case v of Arr vs \<Rightarrow> if i < length vs then vs ! i else Undef | _ \<Rightarrow> Undef)"

definition matchesSortKeyCondition :: "jsval \<Rightarrow> jsval \<Rightarrow> bool" where
  "matchesSortKeyCondition v cond =
     (if get_prop cond ''equals'' \<noteq> Undef \<and> \<not> strict_eq v (get_prop cond ''equals'') then False
      else if get_prop cond ''greaterThan'' \<noteq> Undef \<and> \<not> js_less (get_prop cond ''greaterThan'') v then False
      else if get_prop cond ''greaterThanOrEqual'' \<noteq> Undef \<and> \<not> js_leq (get_prop cond ''greaterThanOrEqual'') v then False
      else if get_prop cond ''lessThan'' \<noteq> Undef \<and> \<not> js_less v (get_prop cond ''lessThan'') then False
      else if get_prop cond ''lessThanOrEqual'' \<noteq> Undef \<and> \<not> js_leq v (get_prop cond ''lessThanOrEqual'') then False
      else if truthy (get_prop cond ''between'')
           \<and> \<not> (js_leq (arr_nth (get_prop cond ''between'') 0) v \<and> js_leq v (arr_nth (get_prop cond ''between'') 1)) then False
      else if get_prop cond ''beginsWith'' \<noteq> Undef then
        (case (v, get_prop cond ''beginsWith'') of (Str s, Str p) \<Rightarrow> starts_with s p | _ \<Rightarrow> False)
      else True)"

definition normalizeSortKeyCondition :: "jsval \<Rightarrow> (thrown, jsval) res" where
  "normalizeSortKeyCondition cond =
     (if \<not> truthy cond then Inr Undef
      else let definedKeys = (case cond of Obj ps \<Rightarrow> map fst (filter (\<lambda>(k, v). v \<noteq> Undef) ps) | _ \<Rightarrow> []) in
        if length definedKeys = 0 then Inr Undef
        else if length definedKeys > 1 then Inl (blocksError InvalidQuery (multipleSortKeyConditions definedKeys))
        else Inr cond)"

text \<open>Structural equality that does not see the order of properties.\<close>

fun deepEqual :: "jsval \<Rightarrow> jsval \<Rightarrow> bool"
and deep_elems :: "jsval list \<Rightarrow> jsval list \<Rightarrow> bool"
and deep_fields :: "(string \<times> jsval) list \<Rightarrow> (string \<times> jsval) list \<Rightarrow> bool" where
  "deepEqual (Arr vs) b = (case b of Arr ws \<Rightarrow> length vs = length ws \<and> deep_elems vs ws | _ \<Rightarrow> False)"
| "deepEqual (Obj ps) b = (case b of Obj qs \<Rightarrow> length ps = length qs \<and> deep_fields ps qs | _ \<Rightarrow> False)"
| "deepEqual a b = (a = b)"
| "deep_elems (v # vs) (w # ws) = (deepEqual v w \<and> deep_elems vs ws)"
| "deep_elems _ _ = True"
| "deep_fields [] qs = True"
| "deep_fields ((k, v) # ps) qs =
     (case obj_get qs k of None \<Rightarrow> False | Some w \<Rightarrow> deepEqual v w \<and> deep_fields ps qs)"

section \<open>Reading with the schema\<close>

definition is_plain_object :: "jsval \<Rightarrow> bool" where
  "is_plain_object v = (case v of Obj _ \<Rightarrow> True | _ \<Rightarrow> False)"

text \<open>The outcome and the warning logged, if any.\<close>

definition applyReadValidation :: "dt_config \<Rightarrow> jsval \<Rightarrow> string option \<times> (thrown, jsval) res" where
  "applyReadValidation cfg item =
     (if item = Null \<or> item = Undef \<or> readValidation cfg = ReadOff then (None, Inr item)
      else (case dt_validate cfg item of
        Inl issues \<Rightarrow>
          if readValidation cfg = ReadStrict
          then (None, Inl (blocksError ValidationFailed
                  (case issues of [] \<Rightarrow> ''stored item failed schema validation on read'' | m # _ \<Rightarrow> m)))
          else (Some (trim (''readValidation: stored item failed schema validation, returning the raw value. ''
                   @ (case issues of [] \<Rightarrow> [] | m # _ \<Rightarrow> m))), Inr item)
      | Inr value \<Rightarrow>
          if is_plain_object item \<and> is_plain_object value
          then (None, Inr (mergeCoercedOverRaw cfg value item))
          else (None, Inr value)))"

section \<open>Keys and disk\<close>

definition serializeKey :: "dt_config \<Rightarrow> jsval \<Rightarrow> string" where
  "serializeKey cfg key =
     print_json (json_norm (Arr (get_prop key (partitionKey (keyConfig cfg))
       # (case sortKey (keyConfig cfg) of None \<Rightarrow> [] | Some sk \<Rightarrow> if sk = [] then [] else [get_prop key sk]))))"

fun read_pair :: "jsval \<Rightarrow> (string \<times> jsval) option" where
  "read_pair (Arr (Str k # vs)) = Some (k, case vs of [] \<Rightarrow> Undef | v # _ \<Rightarrow> v)"
| "read_pair _ = None"

definition dt_load :: "string option \<Rightarrow> (string \<times> jsval) list" where
  "dt_load file =
     (case file of
        None \<Rightarrow> []
      | Some tx \<Rightarrow>
          (case json_parse tx of
             Some (Arr vs) \<Rightarrow>
               (if list_all (\<lambda>v. read_pair v \<noteq> None) vs
                then foldl (\<lambda>m v. case read_pair v of None \<Rightarrow> m | Some (k, x) \<Rightarrow> obj_set k x m) [] vs
                else [])
           | _ \<Rightarrow> []))"

definition dt_flush :: "dt_table \<Rightarrow> dt_table" where
  "dt_flush t = t\<lparr>dt_file := stringify_pretty (Arr (map (\<lambda>(k, v). Arr [Str k, v]) (dt_data t)))\<rparr>"

definition dt_open :: "string option \<Rightarrow> dt_table" where
  "dt_open file = \<lparr>dt_data = dt_load file, dt_file = file\<rparr>"

section \<open>Operations\<close>

definition dt_lookup :: "string \<Rightarrow> dt_table \<Rightarrow> jsval" where
  "dt_lookup k t = (case obj_get (dt_data t) k of None \<Rightarrow> Undef | Some v \<Rightarrow> v)"

definition dt_get :: "dt_config \<Rightarrow> jsval \<Rightarrow> dt_table \<Rightarrow> string option \<times> (thrown, jsval) res" where
  "dt_get cfg key t = applyReadValidation cfg (nullish_or (dt_lookup (serializeKey cfg key) t) Null)"

definition validate_item :: "dt_config \<Rightarrow> jsval \<Rightarrow> (thrown, unit) res" where
  "validate_item cfg item =
     (case dt_validate cfg item of
        Inr _ \<Rightarrow> Inr ()
      | Inl [] \<Rightarrow> Inl (set_err_name ''TypeError''
          (new_Error ''Cannot read properties of undefined (reading 'message')''))
      | Inl (m # _) \<Rightarrow> Inl (blocksError ValidationFailed m))"

definition check_size :: "jsval \<Rightarrow> (thrown, unit) res" where
  "check_size item =
     (case stringify item of
        None \<Rightarrow> Inl (set_err_name ''TypeError'' (new_Error
          ''The \"string\" argument must be of type string or an instance of Buffer or ArrayBuffer. Received undefined''))
      | Some tx \<Rightarrow> if length tx > MAX_ITEM_BYTES
          then Inl (blocksError ItemTooLarge (itemTooLarge (length tx))) else Inr ())"

definition checkFieldEquals :: "string \<Rightarrow> jsval \<Rightarrow> bool \<Rightarrow> dt_table \<Rightarrow> thrown option" where
  "checkFieldEquals keyStr flds retriable t =
     (let entries = filter (\<lambda>(k, v). v \<noteq> Undef) (opt_or (object_entries flds) []) in
      if entries = [] then Some (blocksError InvalidQuery emptyIfFieldEquals)
      else if \<not> truthy (dt_lookup keyStr t) then Some (conditionalCheckFailed retriable None)
      else if list_ex (\<lambda>(field, v). \<not> deepEqual (get_prop (dt_lookup keyStr t) field) v) entries
      then Some (conditionalCheckFailed retriable None)
      else None)"

text \<open>The conditions of \<open>put\<close> (existence must not hold) and of \<open>delete\<close> (it must).\<close>

definition write_conflict :: "bool \<Rightarrow> string \<Rightarrow> dt_write_options \<Rightarrow> dt_table \<Rightarrow> thrown option" where
  "write_conflict present keyStr opts t =
     (let retriable = (ifFieldEquals opts \<noteq> Undef \<and> \<not> truthy (dt_exists opts)) in
      if truthy (dt_exists opts) \<and> obj_has (dt_data t) keyStr \<noteq> present
      then Some (conditionalCheckFailed retriable None)
      else if truthy (ifFieldEquals opts) then checkFieldEquals keyStr (ifFieldEquals opts) retriable t
      else None)"

definition dt_put :: "dt_config \<Rightarrow> jsval \<Rightarrow> dt_write_options \<Rightarrow> dt_table \<Rightarrow> dt_table \<times> (thrown, unit) res" where
  "dt_put cfg item opts t =
     (case bindR (validate_item cfg item) (\<lambda>_. check_size item) of
        Inl e \<Rightarrow> (t, Inl e)
      | Inr _ \<Rightarrow>
          (case write_conflict False (serializeKey cfg item) opts t of
             Some e \<Rightarrow> (t, Inl e)
           | None \<Rightarrow> (dt_flush (t\<lparr>dt_data := obj_set (serializeKey cfg item) item (dt_data t)\<rparr>), Inr ())))"

definition dt_delete :: "dt_config \<Rightarrow> jsval \<Rightarrow> dt_write_options \<Rightarrow> dt_table \<Rightarrow> dt_table \<times> (thrown, unit) res" where
  "dt_delete cfg key opts t =
     (case write_conflict True (serializeKey cfg key) opts t of
        Some e \<Rightarrow> (t, Inl e)
      | None \<Rightarrow> (dt_flush (t\<lparr>dt_data := obj_del (serializeKey cfg key) (dt_data t)\<rparr>), Inr ()))"

definition dt_getBatch :: "dt_config \<Rightarrow> jsval list \<Rightarrow> dt_table \<Rightarrow> (thrown, jsval list) res" where
  "dt_getBatch cfg keys t = mapR (\<lambda>key. snd (dt_get cfg key t)) keys"

definition dt_putBatch :: "dt_config \<Rightarrow> jsval list \<Rightarrow> dt_table \<Rightarrow> dt_table \<times> (thrown, unit) res" where
  "dt_putBatch cfg items t =
     (case mapR (\<lambda>item. bindR (validate_item cfg item) (\<lambda>_. check_size item)) items of
        Inl e \<Rightarrow> (t, Inl e)
      | Inr _ \<Rightarrow> (dt_flush (t\<lparr>dt_data := foldl (\<lambda>d item. obj_set (serializeKey cfg item) item d) (dt_data t) items\<rparr>),
                 Inr ()))"

definition dt_deleteBatch :: "dt_config \<Rightarrow> jsval list \<Rightarrow> dt_table \<Rightarrow> dt_table" where
  "dt_deleteBatch cfg keys t =
     dt_flush (t\<lparr>dt_data := foldl (\<lambda>d key. obj_del (serializeKey cfg key) d) (dt_data t) keys\<rparr>)"

section \<open>Queries\<close>

definition compareByBaseKey :: "dt_config \<Rightarrow> jsval \<Rightarrow> jsval \<Rightarrow> int" where
  "compareByBaseKey cfg a b =
     (let pk = partitionKey (keyConfig cfg); ap = get_prop a pk; bp = get_prop b pk in
      if \<not> strict_eq ap bp then (if js_less ap bp then - 1 else 1)
      else (case sortKey (keyConfig cfg) of
        None \<Rightarrow> 0
      | Some sk \<Rightarrow>
          if sk = [] then 0
          else (let a' = get_prop a sk; b' = get_prop b sk in
                if \<not> strict_eq a' b' then (if js_less a' b' then - 1 else 1) else 0)))"

definition query_compare :: "dt_config \<Rightarrow> string \<Rightarrow> bool \<Rightarrow> jsval \<Rightarrow> jsval \<Rightarrow> int" where
  "query_compare cfg sk desc a b =
     (let av = get_prop a sk; bv = get_prop b sk;
          primary = (if js_less av bv then - 1 else if js_less bv av then 1 else 0 :: int) in
      (if primary \<noteq> 0 then primary else compareByBaseKey cfg a b) * (if desc then - 1 else 1))"

text \<open>\<open>items.sort(compare)\<close>: the stable sort, for a comparator that is a total order.\<close>

fun insert_by :: "('a \<Rightarrow> 'a \<Rightarrow> int) \<Rightarrow> 'a \<Rightarrow> 'a list \<Rightarrow> 'a list" where
  "insert_by cmp x [] = [x]"
| "insert_by cmp x (y # ys) = (if cmp x y \<le> 0 then x # y # ys else y # insert_by cmp x ys)"

definition sort_by :: "('a \<Rightarrow> 'a \<Rightarrow> int) \<Rightarrow> 'a list \<Rightarrow> 'a list" where
  "sort_by cmp xs = foldr (insert_by cmp) xs []"

text \<open>
  Items yielded one by one, with the warnings logged; a strict read may end the iteration with an
  error.  \<open>limit && ++count >= limit\<close>: zero means no limit.
\<close>

fun yield_items :: "dt_config \<Rightarrow> int option \<Rightarrow> int \<Rightarrow> jsval list \<Rightarrow> jsval list \<times> string list \<times> thrown option" where
  "yield_items cfg limit cnt [] = ([], [], None)"
| "yield_items cfg limit cnt (item # items) =
     (case applyReadValidation cfg item of
        (w, Inl e) \<Rightarrow> ([], [], Some e)
      | (w, Inr v) \<Rightarrow>
          let ws = (case w of None \<Rightarrow> [] | Some m \<Rightarrow> [m]) in
          if (case limit of None \<Rightarrow> False | Some l \<Rightarrow> l \<noteq> 0 \<and> cnt + 1 \<ge> l) then ([v], ws, None)
          else (case yield_items cfg limit (cnt + 1) items of (vs, ws', x) \<Rightarrow> (v # vs, ws @ ws', x)))"

definition query_items :: "dt_config \<Rightarrow> TableKeyConfig \<Rightarrow> jsval \<Rightarrow> jsval \<Rightarrow> bool \<Rightarrow> dt_table \<Rightarrow> jsval list" where
  "query_items cfg ix pkValue skCondition desc t =
     (let keep = (\<lambda>item. strict_eq (get_prop item (partitionKey ix)) pkValue
            \<and> (case sortKey ix of None \<Rightarrow> True | Some sk \<Rightarrow>
                 sk = [] \<or> \<not> truthy skCondition \<or> matchesSortKeyCondition (get_prop item sk) skCondition));
          items = filter keep (map snd (dt_data t)) in
      (case sortKey ix of
         None \<Rightarrow> items
       | Some sk \<Rightarrow> if sk = [] then items else sort_by (query_compare cfg sk desc) items))"

definition dt_query :: "dt_config \<Rightarrow> QueryOptions \<Rightarrow> dt_table \<Rightarrow> jsval list \<times> string list \<times> thrown option" where
  "dt_query cfg opts t =
     (case (if q_index opts \<noteq> [] then obj_get (indexes cfg) (q_index opts) else Some (keyConfig cfg)) of
        None \<Rightarrow> ([], [], Some (blocksError InvalidQuery (indexNotFound (q_index opts))))
      | Some ix \<Rightarrow>
          if \<not> truthy (q_where opts)
          then ([], [], Some (blocksError InvalidQuery (whereRequired (partitionKey ix))))
          else (let pkValue = get_prop (get_prop (q_where opts) (partitionKey ix)) ''equals'' in
            if pkValue = Undef
            then ([], [], Some (blocksError InvalidQuery (partitionKeyEqualsRequired (partitionKey ix))))
            else (case (case sortKey ix of None \<Rightarrow> Inr Undef | Some sk \<Rightarrow>
                      if sk = [] then Inr Undef else normalizeSortKeyCondition (get_prop (q_where opts) sk)) of
                Inl e \<Rightarrow> ([], [], Some e)
              | Inr skCondition \<Rightarrow>
                  yield_items cfg (q_limit opts) 0 (query_items cfg ix pkValue skCondition (q_desc opts) t))))"

definition dt_scan :: "dt_config \<Rightarrow> int option \<Rightarrow> dt_table \<Rightarrow> jsval list \<times> string list \<times> thrown option" where
  "dt_scan cfg limit t = yield_items cfg limit 0 (map snd (dt_data t))"

section \<open>Structural equality is equality up to the order of properties\<close>

text \<open>The reference: every object with its properties in name order.\<close>

fun canon :: "jsval \<Rightarrow> jsval" where
  "canon (Arr vs) = Arr (map canon vs)"
| "canon (Obj ps) = Obj (sort_key fst (map (\<lambda>(k, v). (k, canon v)) ps))"
| "canon v = v"

lemma sort_fields_sorted: "obj_wf ps \<Longrightarrow> sorted_wrt (\<lambda>a b. fst a < fst b) (sort_key fst ps)"
proof -
  assume wf: "obj_wf ps"
  have "mset (map fst (sort_key fst ps)) = mset (map fst ps)" by simp
  then have "distinct (map fst (sort_key fst ps))" using wf by (metis mset_eq_imp_distinct_iff)
  then have "sorted_wrt (<) (map fst (sort_key fst ps))" by (simp add: strict_sorted_iff)
  then show ?thesis by (simp add: sorted_wrt_map)
qed

lemma sort_fields_eq:
  "obj_wf ps \<Longrightarrow> obj_wf qs \<Longrightarrow> sort_key fst ps = sort_key fst qs \<longleftrightarrow> set ps = set qs"
proof
  assume "sort_key fst ps = sort_key fst qs"
  then have "set (sort_key fst ps) = set (sort_key fst qs)" by (rule arg_cong)
  then show "set ps = set qs" by simp
next
  assume h: "obj_wf ps" "obj_wf qs" "set ps = set qs"
  show "sort_key fst ps = sort_key fst qs"
    by (rule sorted_wrt_unique [where R = "\<lambda>a b. fst a < fst b"])
       (simp_all add: h(3) sort_fields_sorted h(1,2))
qed

lemma canon_fields_eq:
  assumes "obj_wf ps" "obj_wf qs"
  shows "canon (Obj ps) = canon (Obj qs) \<longleftrightarrow>
     length ps = length qs \<and> (\<forall>(k, v) \<in> set ps. \<exists>w. obj_get qs k = Some w \<and> canon v = canon w)"
proof -
  let ?f = "map (\<lambda>(k, v). (k, canon v))"
  have wf: "obj_wf (?f ps)" "obj_wf (?f qs)" using assms by (simp_all del: map_map)
  have eq: "canon (Obj ps) = canon (Obj qs) \<longleftrightarrow> set (?f ps) = set (?f qs)"
    using sort_fields_eq [OF wf] by simp
  have card: "card (set (?f ps)) = length ps" "card (set (?f qs)) = length qs"
    using wf unfolding distinct_map [of fst] by (simp_all only: distinct_card length_map)
  have sub: "set (?f ps) \<subseteq> set (?f qs) \<longleftrightarrow> (\<forall>(k, v) \<in> set ps. \<exists>w. obj_get qs k = Some w \<and> canon v = canon w)"
  proof -
    have "(k, canon v) \<in> set (?f qs) \<longleftrightarrow> (\<exists>w. obj_get qs k = Some w \<and> canon v = canon w)" for k v
      unfolding obj_get_iff [OF assms(2)] set_map image_iff by (rule iffI; elim bexE exE conjE) force+
    moreover have "set (?f ps) \<subseteq> set (?f qs) \<longleftrightarrow> (\<forall>(k, v) \<in> set ps. (k, canon v) \<in> set (?f qs))"
      unfolding set_map [of _ ps] image_subset_iff by (simp only: case_prod_unfold)
    ultimately show ?thesis by (simp only: case_prod_unfold)
  qed
  have "set (?f ps) = set (?f qs) \<longleftrightarrow> length ps = length qs \<and> set (?f ps) \<subseteq> set (?f qs)"
    by (metis List.finite_set card card_subset_eq order_refl)
  then show ?thesis unfolding eq sub .
qed

lemma deepEqual_correct:
  "wf_js a \<Longrightarrow> wf_js b \<Longrightarrow> deepEqual a b = (canon a = canon b)"
  "(\<forall>v \<in> set vs. wf_js v) \<Longrightarrow> (\<forall>w \<in> set ws. wf_js w) \<Longrightarrow> length vs = length ws \<Longrightarrow>
     deep_elems vs ws = (map canon vs = map canon ws)"
  "(\<forall>(k, v) \<in> set ps. wf_js v) \<Longrightarrow> (\<forall>(k, w) \<in> set qs. wf_js w) \<Longrightarrow>
     deep_fields ps qs = (\<forall>(k, v) \<in> set ps. \<exists>w. obj_get qs k = Some w \<and> canon v = canon w)"
proof (induction a b and vs ws and ps qs rule: deepEqual_deep_elems_deep_fields.induct)
  case (1 vs b)
  show ?case
  proof (cases b)
    case (Arr ws)
    then show ?thesis using 1 map_eq_imp_length_eq [of canon vs canon ws] by auto
  qed simp_all
next
  case (2 ps b)
  show ?case
  proof (cases b)
    case (Obj qs)
    then show ?thesis using 2 canon_fields_eq [of ps qs] by (simp del: canon.simps)
  qed simp_all
next
  case (7 k v ps qs)
  show ?case
  proof (cases "obj_get qs k")
    case (Some w)
    have "wf_js w" using Some 7(4) obj_get_in_set by fastforce
    then show ?thesis using 7 Some by auto
  qed simp
qed (auto, (case_tac b; simp)+)

section \<open>Memory and disk\<close>

lemma json_norm_idem: "wf_js v \<Longrightarrow> json_norm (json_norm v) = json_norm v"
  by (rule norm_plain [OF plain_norm])

lemma obj_get_map_filter:
  assumes "obj_wf ps"
  shows "obj_get (map (\<lambda>(k, v). (k, f v)) (filter (\<lambda>(k, v). P v) ps)) k =
     (case obj_get ps k of None \<Rightarrow> None | Some w \<Rightarrow> if P w then Some (f w) else None)" (is "?l = ?r")
proof -
  have wf: "obj_wf (map (\<lambda>(k, v). (k, f v)) (filter (\<lambda>(k, v). P v) ps))"
    using distinct_map_filter [OF assms] by (simp only: map_fst_entries)
  have "?l = Some x \<longleftrightarrow> ?r = Some x" for x
  proof -
    have "?l = Some x \<longleftrightarrow> (\<exists>w. (k, w) \<in> set ps \<and> P w \<and> x = f w)"
      unfolding obj_get_iff [OF wf] set_map set_filter image_iff by (rule iffI; elim bexE exE conjE) force+
    also have "\<dots> \<longleftrightarrow> ?r = Some x"
      unfolding obj_get_iff [OF assms, symmetric] by (cases "obj_get ps k") auto
    finally show ?thesis .
  qed
  then show ?thesis by (rule option_eqI)
qed

lemma get_prop_norm: "wf_js v \<Longrightarrow> json_norm (get_prop (json_norm v) k) = json_norm (get_prop v k)"
proof (cases v)
  case (Obj ps)
  assume wf: "wf_js v"
  then have "obj_wf ps" by (simp add: Obj)
  note get = obj_get_map_filter [OF this, of json_norm "\<lambda>v. v \<noteq> Undef" k]
  have "wf_js w" if "obj_get ps k = Some w" for w
    using wf that obj_get_in_set unfolding Obj by fastforce
  then show ?thesis using json_norm_idem get unfolding Obj by (auto split: option.splits)
qed simp_all

lemma serializeKey_norm: "wf_js v \<Longrightarrow> serializeKey cfg (json_norm v) = serializeKey cfg v"
  by (simp add: serializeKey_def get_prop_norm split: option.split)

lemma load_pairs:
  "obj_wf (acc @ es) \<Longrightarrow>
   foldl (\<lambda>m v. case read_pair v of None \<Rightarrow> m | Some (k, x) \<Rightarrow> obj_set k x m) acc
     (map (\<lambda>(k, v). Arr [Str k, v]) es) = acc @ es"
proof (induction es arbitrary: acc)
  case (Cons p es)
  obtain k e where p: "p = (k, e)" by fastforce
  have "obj_set k e acc = acc @ [(k, e)]" using Cons.prems p by (intro obj_set_fresh) auto
  then show ?case using Cons.IH [of "acc @ [(k, e)]"] Cons.prems p by simp
qed simp

lemma dt_load_flush:
  assumes "obj_wf (dt_data t)" "\<forall>(k, v) \<in> set (dt_data t). wf_js v"
  shows "dt_load (dt_file (dt_flush t)) = map (\<lambda>(k, v). (k, json_norm v)) (dt_data t)"
proof -
  let ?n = "map (\<lambda>(k, v). (k, json_norm v)) (dt_data t)"
  let ?a = "Arr (map (\<lambda>(k, v). Arr [Str k, v]) ?n)"
  have "json_norm (Arr (map (\<lambda>(k, v). Arr [Str k, v]) (dt_data t))) = ?a" by (auto simp: comp_def)
  then have fl: "dt_file (dt_flush t) = Some (print_pretty 0 ?a)"
    by (simp add: dt_flush_def stringify_pretty_def del: json_norm.simps map_map)
  have pl: "plain ?a" using assms(2) plain_norm by fastforce
  have "obj_wf ?n" using assms(1) by (simp del: map_map)
  then have "foldl (\<lambda>m v. case read_pair v of None \<Rightarrow> m | Some (k, x) \<Rightarrow> obj_set k x m) []
     (map (\<lambda>(k, v). Arr [Str k, v]) ?n) = ?n"
    using load_pairs [of "[]" ?n] by (simp del: map_map)
  then show ?thesis unfolding dt_load_def fl option.case json_parse_pretty [OF pl] jsval.case
    by (auto simp: list_all_iff)
qed

definition dt_inv :: "dt_config \<Rightarrow> dt_table \<Rightarrow> bool" where
  "dt_inv cfg t = (obj_wf (dt_data t)
     \<and> (\<forall>(k, v) \<in> set (dt_data t). wf_js v \<and> k = serializeKey cfg v)
     \<and> dt_load (dt_file t) = map (\<lambda>(k, v). (k, json_norm v)) (dt_data t))"

lemma dt_flush_data [simp]: "dt_data (dt_flush t) = dt_data t"
  by (simp add: dt_flush_def)

lemma dt_inv_flush:
  assumes "obj_wf d" "\<forall>(k, v) \<in> set d. wf_js v \<and> k = serializeKey cfg v"
  shows "dt_inv cfg (dt_flush (t\<lparr>dt_data := d\<rparr>))"
proof -
  have "dt_load (dt_file (dt_flush (t\<lparr>dt_data := d\<rparr>))) = map (\<lambda>(k, v). (k, json_norm v)) d"
    by (subst dt_load_flush) (use assms in auto)
  then show ?thesis using assms by (simp add: dt_inv_def)
qed

lemma keyed_set:
  "\<forall>(k, v) \<in> set d. wf_js v \<and> k = serializeKey cfg v \<Longrightarrow> wf_js item \<Longrightarrow>
   \<forall>(k, v) \<in> set (obj_set (serializeKey cfg item) item d). wf_js v \<and> k = serializeKey cfg v"
  by (induction "serializeKey cfg item" item d rule: obj_set.induct) (auto split: if_splits)

lemma keyed_puts:
  assumes "\<forall>item \<in> set items. wf_js item"
    and "obj_wf d" "\<forall>(k, v) \<in> set d. wf_js v \<and> k = serializeKey cfg v"
  shows "obj_wf (foldl (\<lambda>d item. obj_set (serializeKey cfg item) item d) d items)
     \<and> (\<forall>(k, v) \<in> set (foldl (\<lambda>d item. obj_set (serializeKey cfg item) item d) d items).
          wf_js v \<and> k = serializeKey cfg v)"
  using assms
proof (induction items arbitrary: d)
  case (Cons item items)
  then show ?case
    using Cons.IH [OF _ obj_wf_set [OF Cons.prems(2)] keyed_set [OF Cons.prems(3), of item]]
    unfolding foldl_Cons by simp
qed simp

lemma keyed_dels:
  "foldl (\<lambda>d key. obj_del (f key) d) d keys = filter (\<lambda>(k, v). k \<notin> f ` set keys) d"
  by (induction keys arbitrary: d) (auto simp: obj_del_def case_prod_unfold conj_commute intro!: filter_cong)

lemma dt_put_cases:
  "dt_put cfg item opts t = (t', r) \<Longrightarrow>
     (t' = t \<and> r \<noteq> Inr ()) \<or>
     (r = Inr () \<and> write_conflict False (serializeKey cfg item) opts t = None
      \<and> t' = dt_flush (t\<lparr>dt_data := obj_set (serializeKey cfg item) item (dt_data t)\<rparr>))"
  by (auto simp: dt_put_def split: sum.splits option.splits)

lemma dt_delete_cases:
  "dt_delete cfg key opts t = (t', r) \<Longrightarrow>
     (t' = t \<and> r \<noteq> Inr ()) \<or>
     (r = Inr () \<and> t' = dt_flush (t\<lparr>dt_data := obj_del (serializeKey cfg key) (dt_data t)\<rparr>))"
  by (auto simp: dt_delete_def split: option.splits)

lemma dt_putBatch_cases:
  "dt_putBatch cfg items t = (t', r) \<Longrightarrow>
     (t' = t \<and> r \<noteq> Inr ()) \<or>
     (r = Inr () \<and> t' = dt_flush (t\<lparr>dt_data := foldl (\<lambda>d item. obj_set (serializeKey cfg item) item d) (dt_data t) items\<rparr>))"
  by (auto simp: dt_putBatch_def split: sum.splits)

inductive dt_step :: "dt_config \<Rightarrow> dt_table \<Rightarrow> dt_table \<Rightarrow> bool" for cfg where
  put: "wf_js item \<Longrightarrow> dt_put cfg item opts t = (t', r) \<Longrightarrow> dt_step cfg t t'"
| delete: "dt_delete cfg key opts t = (t', r) \<Longrightarrow> dt_step cfg t t'"
| putBatch: "\<forall>item \<in> set items. wf_js item \<Longrightarrow> dt_putBatch cfg items t = (t', r) \<Longrightarrow> dt_step cfg t t'"
| deleteBatch: "dt_step cfg t (dt_deleteBatch cfg keys t)"
| restart: "dt_step cfg t (dt_open (dt_file t))"

inductive dt_reachable :: "dt_config \<Rightarrow> dt_table \<Rightarrow> bool" for cfg where
  start: "dt_reachable cfg (dt_open None)"
| step: "dt_reachable cfg t \<Longrightarrow> dt_step cfg t t' \<Longrightarrow> dt_reachable cfg t'"

lemma dt_step_inv:
  assumes "dt_step cfg t t'" and inv: "dt_inv cfg t"
  shows "dt_inv cfg t'"
proof -
  have wf: "obj_wf (dt_data t)" "\<forall>(k, v) \<in> set (dt_data t). wf_js v \<and> k = serializeKey cfg v"
    using inv by (simp_all add: dt_inv_def)
  from assms(1) show ?thesis
  proof cases
    case (put item opts r)
    from dt_put_cases [OF put(2)] show ?thesis
      using inv dt_inv_flush [OF obj_wf_set [OF wf(1)] keyed_set [OF wf(2) put(1)]] by auto
  next
    case (delete key opts r)
    have "\<forall>(k, v) \<in> set (obj_del (serializeKey cfg key) (dt_data t)). wf_js v \<and> k = serializeKey cfg v"
      using wf(2) by (auto simp: obj_del_def)
    with dt_delete_cases [OF delete] show ?thesis
      using inv dt_inv_flush [OF obj_wf_del [OF wf(1)]] by auto
  next
    case (putBatch items r)
    from dt_putBatch_cases [OF putBatch(2)] show ?thesis
      using inv dt_inv_flush keyed_puts [OF putBatch(1) wf] by auto
  next
    case (deleteBatch keys)
    have "obj_wf (filter (\<lambda>(k, v). k \<notin> serializeKey cfg ` set keys) (dt_data t))"
      using wf(1) by (rule distinct_map_filter)
    then show ?thesis unfolding deleteBatch dt_deleteBatch_def keyed_dels
      by (rule dt_inv_flush) (use wf(2) in auto)
  next
    case restart
    have n: "dt_load (dt_file t) = map (\<lambda>(k, v). (k, json_norm v)) (dt_data t)"
      using inv by (simp add: dt_inv_def)
    have "\<forall>(k, v) \<in> set (dt_load (dt_file t)). wf_js v \<and> k = serializeKey cfg v \<and> json_norm v = v"
      unfolding n using wf(2) by (auto simp: serializeKey_norm json_norm_idem intro: plain_wf [OF plain_norm])
    moreover from this have "map (\<lambda>(k, v). (k, json_norm v)) (dt_load (dt_file t)) = dt_load (dt_file t)"
      by (intro map_idI) auto
    moreover have "obj_wf (dt_load (dt_file t))" unfolding n using wf(1) by (simp del: map_map)
    ultimately show ?thesis unfolding restart dt_inv_def dt_open_def by auto
  qed
qed

lemma dt_reachable_inv: "dt_reachable cfg t \<Longrightarrow> dt_inv cfg t"
proof (induction rule: dt_reachable.induct)
  case start
  then show ?case by (simp add: dt_inv_def dt_open_def dt_load_def)
next
  case (step t t')
  then show ?case using dt_step_inv by blast
qed

text \<open>What a process that opens the file reads is what the running one has: after any sequence of
  puts, deletes, batches and restarts, every item is stored under the serialized primary key of its
  own attributes, no key twice, and the file holds, in the same order, the JSON view of every item.\<close>

theorem dt_restart_preserves:
  assumes "dt_reachable cfg t"
  shows "obj_wf (dt_data t) \<and> (\<forall>(k, v) \<in> set (dt_data t). k = serializeKey cfg v)
     \<and> dt_data (dt_open (dt_file t)) = map (\<lambda>(k, v). (k, json_norm v)) (dt_data t)"
  using dt_reachable_inv [OF assms] by (auto simp: dt_inv_def dt_open_def)

section \<open>Keys are linearly ordered\<close>

datatype key_val = KNum int | KStr string

instantiation key_val :: linorder
begin

fun less_eq_key_val :: "key_val \<Rightarrow> key_val \<Rightarrow> bool" where
  "less_eq_key_val (KNum m) (KNum n) = (m \<le> n)"
| "less_eq_key_val (KNum m) (KStr t) = True"
| "less_eq_key_val (KStr s) (KNum n) = False"
| "less_eq_key_val (KStr s) (KStr t) = (s \<le> t)"

definition less_key_val :: "key_val \<Rightarrow> key_val \<Rightarrow> bool" where
  "less_key_val a b = (a \<le> b \<and> \<not> b \<le> a)"

instance
proof
  fix a b c :: key_val
  show "a < b \<longleftrightarrow> a \<le> b \<and> \<not> b \<le> a" by (rule less_key_val_def)
  show "a \<le> a" by (cases a) auto
  show "a \<le> b \<Longrightarrow> b \<le> c \<Longrightarrow> a \<le> c" by (cases a; cases b; cases c) auto
  show "a \<le> b \<Longrightarrow> b \<le> a \<Longrightarrow> a = b" by (cases a; cases b) auto
  show "a \<le> b \<or> b \<le> a" by (cases a; cases b) auto
qed

end

lemma key_val_less [simp]:
  "KNum m < KNum n \<longleftrightarrow> m < n" "KStr s < KStr t \<longleftrightarrow> s < t"
  by (auto simp: less_key_val_def)

definition key_of :: "jsval \<Rightarrow> key_val" where
  "key_of v = (case v of Num n \<Rightarrow> KNum n | Str s \<Rightarrow> KStr s | _ \<Rightarrow> KNum 0)"

text \<open>The values of a key attribute, all strings or all numbers.\<close>

definition same_kind :: "jsval set \<Rightarrow> bool" where
  "same_kind V = ((\<forall>v \<in> V. is_num v) \<or> (\<forall>v \<in> V. is_str v))"

lemma str_less_iff: "str_less s t \<longleftrightarrow> s < t"
  by (induction s t rule: str_less.induct) (auto simp: less_char_def char_code_def)

lemma same_kind_compare:
  assumes "same_kind V" "a \<in> V" "b \<in> V"
  shows "js_less a b \<longleftrightarrow> key_of a < key_of b" "strict_eq a b \<longleftrightarrow> key_of a = key_of b" "strict_eq a b \<longleftrightarrow> a = b"
proof -
  have "(\<exists>m n. a = Num m \<and> b = Num n) \<or> (\<exists>s t. a = Str s \<and> b = Str t)"
    using assms by (cases a; cases b) (auto simp: same_kind_def is_num_def is_str_def)
  then show "js_less a b \<longleftrightarrow> key_of a < key_of b" "strict_eq a b \<longleftrightarrow> key_of a = key_of b" "strict_eq a b \<longleftrightarrow> a = b"
    by (auto simp: js_less_def key_of_def str_less_iff)
qed

definition base_sort_key :: "dt_config \<Rightarrow> string option" where
  "base_sort_key cfg = (case sortKey (keyConfig cfg) of None \<Rightarrow> None | Some sk \<Rightarrow> if sk = [] then None else Some sk)"

text \<open>The place of an item in the order of an index: sort key, then base-table key.\<close>

definition index_rank :: "dt_config \<Rightarrow> string \<Rightarrow> jsval \<Rightarrow> key_val \<times> key_val \<times> key_val" where
  "index_rank cfg sk v = (key_of (get_prop v sk), key_of (get_prop v (partitionKey (keyConfig cfg))),
     (case base_sort_key cfg of None \<Rightarrow> KNum 0 | Some bk \<Rightarrow> key_of (get_prop v bk)))"

definition typed_items :: "dt_config \<Rightarrow> string \<Rightarrow> jsval set \<Rightarrow> bool" where
  "typed_items cfg sk V = (same_kind ((\<lambda>v. get_prop v sk) ` V)
     \<and> same_kind ((\<lambda>v. get_prop v (partitionKey (keyConfig cfg))) ` V)
     \<and> (case base_sort_key cfg of None \<Rightarrow> True | Some bk \<Rightarrow> same_kind ((\<lambda>v. get_prop v bk) ` V)))"

lemma query_compare_rank:
  assumes "typed_items cfg sk V" "a \<in> V" "b \<in> V"
  shows "query_compare cfg sk desc a b \<le> 0 \<longleftrightarrow>
     (if desc then index_rank cfg sk b \<le> index_rank cfg sk a else index_rank cfg sk a \<le> index_rank cfg sk b)"
proof -
  have "same_kind ((\<lambda>v. get_prop v sk) ` V)" using assms(1) by (simp add: typed_items_def)
  note sk = same_kind_compare [OF this imageI [OF assms(2)] imageI [OF assms(3)]]
    same_kind_compare [OF this imageI [OF assms(3)] imageI [OF assms(2)]]
  have "same_kind ((\<lambda>v. get_prop v (partitionKey (keyConfig cfg))) ` V)" using assms(1) by (simp add: typed_items_def)
  note pk = same_kind_compare [OF this imageI [OF assms(2)] imageI [OF assms(3)]]
  show ?thesis
  proof (cases "base_sort_key cfg")
    case None
    then show ?thesis
      by (auto simp: query_compare_def compareByBaseKey_def index_rank_def sk pk(1,2) base_sort_key_def Let_def
          split: option.splits if_splits)
  next
    case (Some bk)
    then have "same_kind ((\<lambda>v. get_prop v bk) ` V)" using assms(1) by (simp add: typed_items_def)
    note bk = same_kind_compare [OF this imageI [OF assms(2)] imageI [OF assms(3)]]
    have "sortKey (keyConfig cfg) = Some bk" "bk \<noteq> []"
      using Some by (auto simp: base_sort_key_def split: option.splits if_splits)
    then show ?thesis
      by (auto simp: query_compare_def compareByBaseKey_def index_rank_def sk pk(1,2) bk(1,2) Some Let_def)
  qed
qed

section \<open>Sorting\<close>

lemma mset_insert_by [simp]: "mset (insert_by cmp x ys) = add_mset x (mset ys)"
  by (induction ys) auto

lemma mset_sort_by [simp]: "mset (sort_by cmp xs) = mset xs"
  by (induction xs) (auto simp: sort_by_def)

lemma set_insert_by [simp]: "set (insert_by cmp x ys) = insert x (set ys)"
  by (metis mset_insert_by set_mset_add_mset_insert set_mset_mset)

lemma set_sort_by [simp]: "set (sort_by cmp xs) = set xs"
  by (metis mset_sort_by set_mset_mset)

lemma distinct_sort_by: "distinct (sort_by cmp xs) = distinct xs"
  by (rule mset_eq_imp_distinct_iff) simp

lemma sorted_insert_by:
  assumes "\<And>a b. a \<in> V \<Longrightarrow> b \<in> V \<Longrightarrow> cmp a b \<le> 0 \<longleftrightarrow> R a b"
    and "\<And>a b c. R a b \<Longrightarrow> R b c \<Longrightarrow> R a c" "\<And>a b. R a b \<or> R b a"
    and "insert x (set ys) \<subseteq> V" "sorted_wrt R ys"
  shows "sorted_wrt R (insert_by cmp x ys)"
  using assms(4,5)
proof (induction ys)
  case (Cons y ys)
  then show ?case using assms(1) [of x y] assms(2) [of x y] assms(3) [of x y] by auto
qed simp

lemma sorted_sort_by:
  assumes "\<And>a b. a \<in> V \<Longrightarrow> b \<in> V \<Longrightarrow> cmp a b \<le> 0 \<longleftrightarrow> R a b"
    and "\<And>a b c. R a b \<Longrightarrow> R b c \<Longrightarrow> R a c" "\<And>a b. R a b \<or> R b a"
  shows "set xs \<subseteq> V \<Longrightarrow> sorted_wrt R (sort_by cmp xs)"
proof (induction xs)
  case (Cons x xs)
  have "set (sort_by cmp xs) \<subseteq> V" using Cons.prems by simp
  moreover have "sort_by cmp (x # xs) = insert_by cmp x (sort_by cmp xs)" by (simp add: sort_by_def)
  ultimately show ?case
    using sorted_insert_by [where V = V and cmp = cmp and R = R, OF assms] Cons by simp
qed (simp add: sort_by_def)

lemma sorted_wrt_strict:
  "sorted_wrt R xs \<Longrightarrow> distinct xs \<Longrightarrow> (\<And>a b. a \<in> set xs \<Longrightarrow> b \<in> set xs \<Longrightarrow> a \<noteq> b \<Longrightarrow> R a b \<Longrightarrow> S a b) \<Longrightarrow>
   sorted_wrt S xs"
  by (induction xs) auto

section \<open>What a query returns\<close>

definition take_limit :: "int option \<Rightarrow> 'a list \<Rightarrow> 'a list" where
  "take_limit limit xs = (case limit of None \<Rightarrow> xs | Some l \<Rightarrow> if l = 0 then xs else take (nat (max 1 l)) xs)"

lemma yield_items_off_aux:
  assumes "readValidation cfg = ReadOff" "0 \<le> cnt" "\<And>l. limit = Some l \<Longrightarrow> l \<noteq> 0 \<Longrightarrow> cnt < max 1 l"
  shows "yield_items cfg limit cnt xs =
     ((case limit of None \<Rightarrow> xs | Some l \<Rightarrow> if l = 0 then xs else take (nat (max 1 l - cnt)) xs), [], None)"
  using assms(2,3)
proof (induction xs arbitrary: cnt)
  case (Cons x xs)
  have v: "applyReadValidation cfg x = (None, Inr x)" using assms(1) by (simp add: applyReadValidation_def)
  show ?case
  proof (cases limit)
    case None
    then show ?thesis using Cons v by simp
  next
    case (Some l)
    show ?thesis
    proof (cases "l \<noteq> 0 \<and> cnt + 1 \<ge> l")
      case True
      then have "max 1 l - cnt = 1" using Cons.prems(1) Cons.prems(2) [OF Some] by auto
      then show ?thesis using True Some v by simp
    next
      case False
      then have "l = 0 \<or> cnt + 1 < max 1 l" using Cons.prems by auto
      moreover have "l \<noteq> 0 \<Longrightarrow> nat (max 1 l - cnt) = Suc (nat (max 1 l - (cnt + 1)))"
        using False Cons.prems by auto
      ultimately show ?thesis using Cons.IH [of "cnt + 1"] Cons.prems False Some v by auto
    qed
  qed
qed (simp split: option.split)

lemma yield_items_off: "readValidation cfg = ReadOff \<Longrightarrow> yield_items cfg limit 0 xs = (take_limit limit xs, [], None)"
  using yield_items_off_aux [of cfg 0 limit xs] by (auto simp: take_limit_def split: option.split)

lemma stored_keys_distinct:
  "dt_inv cfg t \<Longrightarrow> distinct (map (serializeKey cfg) (map snd (dt_data t)))"
proof -
  assume inv: "dt_inv cfg t"
  then have eq: "map (serializeKey cfg) (map snd (dt_data t)) = map fst (dt_data t)"
    unfolding map_map by (intro map_cong) (auto simp: dt_inv_def comp_def)
  show ?thesis unfolding eq using inv by (simp add: dt_inv_def)
qed

lemma index_rank_inj:
  assumes inv: "dt_inv cfg t" and ty: "typed_items cfg sk (snd ` set (dt_data t))"
    and ab: "a \<in> snd ` set (dt_data t)" "b \<in> snd ` set (dt_data t)" and eq: "index_rank cfg sk a = index_rank cfg sk b"
  shows "a = b"
proof -
  let ?V = "snd ` set (dt_data t)"
  let ?pk = "partitionKey (keyConfig cfg)"
  have "same_kind ((\<lambda>v. get_prop v ?pk) ` ?V)" using ty by (simp add: typed_items_def)
  from same_kind_compare [OF this imageI [OF ab(1)] imageI [OF ab(2)]] eq
  have pk: "get_prop a ?pk = get_prop b ?pk" by (simp add: index_rank_def)
  have bk: "get_prop a k = get_prop b k" if k: "base_sort_key cfg = Some k" for k
  proof -
    have "same_kind ((\<lambda>v. get_prop v k) ` ?V)" using ty k by (simp add: typed_items_def)
    from same_kind_compare [OF this imageI [OF ab(1)] imageI [OF ab(2)]] eq k
    show ?thesis by (simp add: index_rank_def)
  qed
  have key: "serializeKey cfg v = print_json (json_norm (Arr (get_prop v ?pk
      # (case base_sort_key cfg of None \<Rightarrow> [] | Some k \<Rightarrow> [get_prop v k]))))" for v
    by (simp add: serializeKey_def base_sort_key_def split: option.split)
  have "serializeKey cfg a = serializeKey cfg b"
    unfolding key using pk bk by (cases "base_sort_key cfg") simp_all
  moreover have "inj_on (serializeKey cfg) ?V"
    using stored_keys_distinct [OF inv] unfolding distinct_map by simp
  ultimately show ?thesis using ab by (meson inj_onD)
qed

definition index_before :: "dt_config \<Rightarrow> string \<Rightarrow> bool \<Rightarrow> jsval \<Rightarrow> jsval \<Rightarrow> bool" where
  "index_before cfg sk desc a b =
     (if desc then index_rank cfg sk b < index_rank cfg sk a else index_rank cfg sk a < index_rank cfg sk b)"

lemma query_items_spec:
  assumes inv: "dt_inv cfg t" and ix: "sortKey ix = Some sk" "sk \<noteq> []"
    and ty: "typed_items cfg sk (snd ` set (dt_data t))"
  shows "set (query_items cfg ix pkv cond desc t) =
      {v \<in> snd ` set (dt_data t). strict_eq (get_prop v (partitionKey ix)) pkv
         \<and> (truthy cond \<longrightarrow> matchesSortKeyCondition (get_prop v sk) cond)}"
    and "sorted_wrt (index_before cfg sk desc) (query_items cfg ix pkv cond desc t)"
proof -
  let ?q = "query_items cfg ix pkv cond desc t"
  let ?V = "snd ` set (dt_data t)"
  let ?R = "\<lambda>a b. if desc then index_rank cfg sk b \<le> index_rank cfg sk a
                    else index_rank cfg sk a \<le> index_rank cfg sk b"
  show st: "set ?q = {v \<in> ?V. strict_eq (get_prop v (partitionKey ix)) pkv
         \<and> (truthy cond \<longrightarrow> matchesSortKeyCondition (get_prop v sk) cond)}"
    using ix by (auto simp: query_items_def)
  have "distinct (map snd (dt_data t))" using stored_keys_distinct [OF inv] unfolding distinct_map [of "serializeKey cfg"] by blast
  then have d: "distinct ?q" using ix by (simp add: query_items_def Let_def distinct_sort_by)
  have "sorted_wrt ?R ?q"
    unfolding query_items_def Let_def ix(1) option.case using ix(2)
    by (simp only: if_False) (rule sorted_sort_by [where V = ?V, OF query_compare_rank [OF ty]], auto)
  then show "sorted_wrt (index_before cfg sk desc) ?q"
  proof (rule sorted_wrt_strict [OF _ d])
    fix a b assume ab: "a \<in> set ?q" "b \<in> set ?q" "a \<noteq> b" "?R a b"
    have "a \<in> ?V" "b \<in> ?V" using ab(1,2) unfolding st by simp_all
    with index_rank_inj [OF inv ty this] ab(3) have "index_rank cfg sk a \<noteq> index_rank cfg sk b" by metis
    then show "index_before cfg sk desc a b" using ab(4) by (auto simp: index_before_def split: if_splits)
  qed
qed

lemma index_before_asym: "index_before cfg sk desc a b \<Longrightarrow> \<not> index_before cfg sk desc b a"
  by (auto simp: index_before_def split: if_splits)

text \<open>C19: A query is exact and does not depend on the history of the table.  For an index with a sort
  key over items whose key attributes are all strings or all numbers, the query yields, in strict
  index order (sort key, ties by the base-table key, all reversed for \<open>desc\<close>) and up to the
  limit, exactly the stored items whose partition key equals the value and whose sort key meets the
  condition; and any other reachable table that stores the same items gives the same answer,
  whatever the order the items were written in.\<close>

theorem dt_query_exact:
  assumes "dt_reachable cfg t"
    and "(if q_index opts \<noteq> [] then obj_get (indexes cfg) (q_index opts) else Some (keyConfig cfg)) = Some ix"
    and "sortKey ix = Some sk" "sk \<noteq> []" and "truthy (q_where opts)"
    and "get_prop (get_prop (q_where opts) (partitionKey ix)) ''equals'' = pkv" "pkv \<noteq> Undef"
    and "normalizeSortKeyCondition (get_prop (q_where opts) sk) = Inr cond"
    and "typed_items cfg sk (snd ` set (dt_data t))"
  shows "\<exists>items. set items = {v \<in> snd ` set (dt_data t). strict_eq (get_prop v (partitionKey ix)) pkv
            \<and> (truthy cond \<longrightarrow> matchesSortKeyCondition (get_prop v sk) cond)}
     \<and> sorted_wrt (index_before cfg sk (q_desc opts)) items
     \<and> dt_query cfg opts t = yield_items cfg (q_limit opts) 0 items
     \<and> (readValidation cfg = ReadOff \<longrightarrow> dt_query cfg opts t = (take_limit (q_limit opts) items, [], None))
     \<and> (\<forall>t'. dt_reachable cfg t' \<and> set (dt_data t') = set (dt_data t) \<longrightarrow> dt_query cfg opts t' = dt_query cfg opts t)"
proof -
  let ?q = "\<lambda>t. query_items cfg ix pkv cond (q_desc opts) t"
  have run: "dt_query cfg opts t = yield_items cfg (q_limit opts) 0 (?q t)" for t
    using assms(2-8) by (simp add: dt_query_def)
  note spec = query_items_spec [OF dt_reachable_inv assms(3,4)]
  have "dt_query cfg opts t' = dt_query cfg opts t"
    if t': "dt_reachable cfg t'" "set (dt_data t') = set (dt_data t)" for t'
  proof -
    have ty: "typed_items cfg sk (snd ` set (dt_data t'))" using assms(9) t'(2) by simp
    have "set (?q t') = set (?q t)" unfolding spec(1) [OF assms(1,9)] spec(1) [OF t'(1) ty] t'(2) ..
    from sorted_wrt_unique [OF index_before_asym spec(2) [OF t'(1) ty] spec(2) [OF assms(1,9)] this]
    show ?thesis by (simp add: run)
  qed
  then show ?thesis
    using spec [OF assms(1,9)] by (intro exI [of _ "?q t"]) (simp add: run yield_items_off)
qed

definition demo_cfg :: dt_config where
  "demo_cfg = \<lparr>keyConfig = \<lparr>partitionKey = ''u'', sortKey = Some ''n''\<rparr>, indexes = [],
     dt_validate = Inr, readValidation = ReadOff, mergeCoercedOverRaw = (\<lambda>v raw. v)\<rparr>"

definition demo_item :: "bool \<Rightarrow> jsval" where
  "demo_item b = Obj [(''u'', Str []), (''n'', Num (if b then 1 else 0))]"

lemma demo_put:
  "dt_put demo_cfg (demo_item b) no_write_options t =
     (dt_flush (t\<lparr>dt_data := obj_set (serializeKey demo_cfg (demo_item b)) (demo_item b) (dt_data t)\<rparr>), Inr ())"
  by (simp add: dt_put_def validate_item_def check_size_def stringify_def demo_cfg_def demo_item_def MAX_ITEM_BYTES_def
      print_str_def esc_char_def char_code_def show_int_def show_nat.simps write_conflict_def no_write_options_def)

lemma demo_reachable: "dt_reachable demo_cfg (fst (dt_put demo_cfg (demo_item b) no_write_options (dt_open None)))"
  by (rule dt_reachable.step [OF dt_reachable.start dt_step.put]) (simp_all add: demo_item_def prod_eq_iff)

lemma dt_query_exact_witness:
  "dt_query demo_cfg \<lparr>q_index = [], q_where = Obj [(''u'', Obj [(''equals'', Str [])])], q_limit = None, q_desc = True\<rparr>
     (fst (dt_put demo_cfg (demo_item True) no_write_options (dt_open None))) = ([demo_item True], [], None)"
proof -
  let ?o = "\<lparr>q_index = [], q_where = Obj [(''u'', Obj [(''equals'', Str [])])], q_limit = None, q_desc = True\<rparr>"
  let ?t = "fst (dt_put demo_cfg (demo_item True) no_write_options (dt_open None))"
  have r: "dt_reachable demo_cfg ?t"
    by (rule demo_reachable)
  have d: "snd ` set (dt_data ?t) = {demo_item True}"
    by (simp add: demo_put dt_open_def dt_load_def)
  have ty: "typed_items demo_cfg ''n'' (snd ` set (dt_data ?t))"
    unfolding d by (simp add: typed_items_def base_sort_key_def demo_cfg_def same_kind_def demo_item_def is_num_def is_str_def)
  have h: "(if q_index ?o \<noteq> [] then obj_get (indexes demo_cfg) (q_index ?o) else Some (keyConfig demo_cfg))
        = Some (keyConfig demo_cfg)"
      "sortKey (keyConfig demo_cfg) = Some ''n''" "''n'' \<noteq> []" "truthy (q_where ?o)"
      "get_prop (get_prop (q_where ?o) (partitionKey (keyConfig demo_cfg))) ''equals'' = Str []" "Str [] \<noteq> Undef"
      "normalizeSortKeyCondition (get_prop (q_where ?o) ''n'') = Inr Undef"
      "readValidation demo_cfg = ReadOff" "partitionKey (keyConfig demo_cfg) = ''u''"
    by (simp_all add: demo_cfg_def normalizeSortKeyCondition_def)
  note q = dt_query_exact [OF r, of ?o, OF h(1-7) ty]
  obtain items where i: "set items = {v \<in> snd ` set (dt_data ?t). strict_eq (get_prop v (partitionKey (keyConfig demo_cfg))) (Str [])
            \<and> (truthy Undef \<longrightarrow> matchesSortKeyCondition (get_prop v ''n'') Undef)}"
      "sorted_wrt (index_before demo_cfg ''n'' (q_desc ?o)) items"
      "readValidation demo_cfg = ReadOff \<longrightarrow> dt_query demo_cfg ?o ?t = (take_limit (q_limit ?o) items, [], None)"
    by (rule exE [OF q], elim conjE, rule that)
  have "set items = set [demo_item True]" unfolding i(1) d h(9) by (auto simp: demo_item_def)
  from sorted_wrt_unique [OF index_before_asym i(2) _ this] have "items = [demo_item True]" by simp
  then show ?thesis using i(3) unfolding h(8) by (simp add: take_limit_def)
qed

section \<open>Conditions of writes\<close>

text \<open>Conditions compare values as DynamoDB does: on JavaScript values with distinct property names
  \<open>deepEqual\<close> holds exactly when both have the same normal form, every object sorted by name;
  so it is an equivalence that sees the order of array elements and not that of properties.\<close>

theorem deepEqual_canonical:
  assumes "wf_js a" "wf_js b"
  shows "deepEqual a b \<longleftrightarrow> canon a = canon b"
  using assms by (rule deepEqual_correct(1))

lemma deepEqual_canonical_witness:
  "deepEqual (Obj [(''x'', Num 1), (''y'', Null)]) (Obj [(''y'', Null), (''x'', Num 1)])"
  using deepEqual_canonical [of "Obj [(''x'', Num 1), (''y'', Null)]" "Obj [(''y'', Null), (''x'', Num 1)]"]
  by (simp add: less_char_def)

text \<open>What a write with \<open>ifFieldEquals\<close> must answer, from the item stored under its key.\<close>

definition write_verdict :: "bool \<Rightarrow> bool \<Rightarrow> (string \<times> jsval) list \<Rightarrow> jsval \<Rightarrow> thrown option" where
  "write_verdict present existence fs stored =
     (let given = filter (\<lambda>(k, v). v \<noteq> Undef) fs;
          conflict = conditionalCheckFailed (\<not> existence) None in
      if existence \<and> (stored \<noteq> Undef) \<noteq> present then Some conflict
      else if given = [] then Some (blocksError InvalidQuery emptyIfFieldEquals)
      else if stored \<noteq> Undef \<and> (\<forall>(k, v) \<in> set given. canon (get_prop stored k) = canon v) then None
      else Some conflict)"

lemma write_conflict_verdict:
  assumes "dt_inv cfg t" and "ifFieldEquals opts = Obj fs" "wf_js (Obj fs)"
    and "dt_lookup k t = Undef \<and> \<not> obj_has (dt_data t) k \<or> truthy (dt_lookup k t) \<and> obj_has (dt_data t) k"
  shows "write_conflict present k opts t = write_verdict present (truthy (dt_exists opts)) fs (dt_lookup k t)"
proof -
  let ?v = "dt_lookup k t"
  have wfv: "wf_js ?v"
    using assms(1) unfolding dt_lookup_def dt_inv_def by (auto split: option.split dest!: obj_get_in_set)
  have has: "obj_has (dt_data t) k \<longleftrightarrow> ?v \<noteq> Undef" "truthy ?v \<longleftrightarrow> ?v \<noteq> Undef" using assms(4) by auto
  have ents: "opt_or (object_entries (Obj fs)) [] = enum_order fs" by (simp add: object_entries_def)
  have nil: "filter (\<lambda>(k, v). v \<noteq> Undef) (enum_order fs) = [] \<longleftrightarrow> filter (\<lambda>(k, v). v \<noteq> Undef) fs = []"
    by (simp add: filter_empty_conv)
  have deep: "deepEqual (get_prop ?v f) w \<longleftrightarrow> canon (get_prop ?v f) = canon w" if "(f, w) \<in> set fs" for f w
    using deepEqual_correct(1) [OF wf_get_prop [OF wfv]] assms(3) that by auto
  have ex: "list_ex (\<lambda>(f, w). \<not> deepEqual (get_prop ?v f) w) (filter (\<lambda>(k, v). v \<noteq> Undef) (enum_order fs))
      \<longleftrightarrow> \<not> (\<forall>(f, w) \<in> set (filter (\<lambda>(k, v). v \<noteq> Undef) fs). canon (get_prop ?v f) = canon w)"
    using deep by (auto simp: list_ex_iff)
  show ?thesis
    unfolding write_conflict_def checkFieldEquals_def write_verdict_def Let_def assms(2) ents nil ex has by simp
qed



lemma dt_restart_preserves_witness:
  "dt_data (dt_open (dt_file (fst (dt_put demo_cfg (demo_item True) no_write_options (dt_open None))))) =
     [(serializeKey demo_cfg (demo_item True), demo_item True)]"
proof -
  have d: "dt_data (fst (dt_put demo_cfg (demo_item True) no_write_options (dt_open None))) =
      [(serializeKey demo_cfg (demo_item True), demo_item True)]"
    by (simp add: demo_put dt_open_def dt_load_def)
  have "json_norm (demo_item True) = demo_item True" by (simp add: demo_item_def)
  then show ?thesis
    unfolding dt_restart_preserves [OF demo_reachable, THEN conjunct2, THEN conjunct2] d by simp
qed

end
