(* ===== verification/AsyncJob.thy ===== *)
theory AsyncJob
  imports DistributedTable
begin

text \<open>
  \<^verbatim>\<open>packages/bb-async-job/src/status.ts\<close>: the recorder of asynchronous jobs, a client
  of the table.  Its reads and conditional writes are atomic steps; between a read and the write that
  depends on it, any other call may run.  A call in progress is a program counter, and the system is
  the table with all calls made so far.  \<open>Date.parse\<close>, the clock and the package
  \<^verbatim>\<open>defu\<close> are parameters.
\<close>

section \<open>Records\<close>

datatype AsyncJobState = Queued | Processing | Complete | Failed

record AsyncJobTransition =
  tr_state :: AsyncJobState
  tr_at :: string
  tr_attempt :: int

record AsyncJobStatus =
  jobId :: string
  job_state :: AsyncJobState
  transitions :: "AsyncJobTransition list"
  attempts :: int
  submittedAt :: string
  updatedAt :: string
  job_error :: "string option"

record StatusRecord = AsyncJobStatus +
  st_expiresAt :: int
  version :: int

definition STATUS_RETENTION_SECONDS :: int where
  "STATUS_RETENTION_SECONDS = 86400"

definition DEFAULT_TIMEOUT_MS :: int where
  "DEFAULT_TIMEOUT_MS = 30000"

definition MAX_CAS_ATTEMPTS :: nat where
  "MAX_CAS_ATTEMPTS = 5"

definition STATUS_WRITE_GROUP :: nat where
  "STATUS_WRITE_GROUP = 25"

definition AsyncJobTimeout :: string where
  "AsyncJobTimeout = ''AsyncJobTimeoutException''"

definition StatusNotTracked :: string where
  "StatusNotTracked = ''StatusNotTrackedException''"

fun state_text :: "AsyncJobState \<Rightarrow> string" where
  "state_text Queued = ''queued''"
| "state_text Processing = ''processing''"
| "state_text Complete = ''complete''"
| "state_text Failed = ''failed''"

fun state_of_text :: "string \<Rightarrow> AsyncJobState option" where
  "state_of_text s =
     (if s = ''queued'' then Some Queued else if s = ''processing'' then Some Processing
      else if s = ''complete'' then Some Complete else if s = ''failed'' then Some Failed else None)"

text \<open>The object stored in the table, with the properties in the order the code creates them.\<close>

definition transition_js :: "AsyncJobTransition \<Rightarrow> jsval" where
  "transition_js t = Obj [(''state'', Str (state_text (tr_state t))), (''at'', Str (tr_at t)), (''attempt'', Num (tr_attempt t))]"

definition status_js :: "StatusRecord \<Rightarrow> jsval" where
  "status_js r = Obj ([(''jobId'', Str (jobId r)), (''state'', Str (state_text (job_state r))),
     (''transitions'', Arr (map transition_js (transitions r))), (''attempts'', Num (attempts r)),
     (''submittedAt'', Str (submittedAt r)), (''updatedAt'', Str (updatedAt r)),
     (''expiresAt'', Num (st_expiresAt r)), (''version'', Num (version r))]
     @ (case job_error r of None \<Rightarrow> [] | Some e \<Rightarrow> [(''error'', Str e)]))"

text \<open>Reading a stored object at its declared type.\<close>

definition transition_of_js :: "jsval \<Rightarrow> AsyncJobTransition option" where
  "transition_of_js v =
     (case (get_prop v ''state'', get_prop v ''at'', get_prop v ''attempt'') of
        (Str s, Str a, Num n) \<Rightarrow> map_option (\<lambda>st. \<lparr>tr_state = st, tr_at = a, tr_attempt = n\<rparr>) (state_of_text s)
      | _ \<Rightarrow> None)"

fun all_some :: "'a option list \<Rightarrow> 'a list option" where
  "all_some [] = Some []"
| "all_some (None # xs) = None"
| "all_some (Some x # xs) = map_option (\<lambda>ys. x # ys) (all_some xs)"

definition status_of_js :: "jsval \<Rightarrow> StatusRecord option" where
  "status_of_js v =
     (case (get_prop v ''jobId'', get_prop v ''state'', get_prop v ''transitions'', get_prop v ''attempts'',
        get_prop v ''submittedAt'', get_prop v ''updatedAt'', get_prop v ''expiresAt'', get_prop v ''version'') of
        (Str j, Str s, Arr ts, Num n, Str sub, Str upd, Num ex, Num ver) \<Rightarrow>
          (case (state_of_text s, all_some (map transition_of_js ts)) of
             (Some st, Some trs) \<Rightarrow>
               Some \<lparr>jobId = j, job_state = st, transitions = trs, attempts = n, submittedAt = sub, updatedAt = upd,
                 job_error = (case get_prop v ''error'' of Str e \<Rightarrow> Some e | _ \<Rightarrow> None),
                 st_expiresAt = ex, version = ver\<rparr>
           | _ \<Rightarrow> None)
      | _ \<Rightarrow> None)"

section \<open>The schema\<close>

definition STRING_FIELDS :: "string list" where
  "STRING_FIELDS = [''jobId'', ''state'', ''submittedAt'', ''updatedAt'', ''error'']"

definition statusSchema :: "jsval \<Rightarrow> string list + jsval" where
  "statusSchema v =
     (case v of
        Obj ps \<Rightarrow>
          (let issues =
             map (\<lambda>f. f @ '' must be a string'')
               (filter (\<lambda>f. obj_has ps f \<and> \<not> is_str (get_prop v f)) STRING_FIELDS)
           @ map (\<lambda>f. f @ '' must be a number'')
               (filter (\<lambda>f. obj_has ps f \<and> \<not> is_num (get_prop v f)) [''attempts'', ''expiresAt'', ''version''])
           @ (if obj_has ps ''transitions'' \<and> \<not> is_arr (get_prop v ''transitions'')
              then [''transitions must be an array''] else []) in
           if issues \<noteq> [] then Inl issues else Inr v)
      | _ \<Rightarrow> Inl [''status record must be an object''])"

definition statusTableOptions :: "(jsval \<Rightarrow> jsval \<Rightarrow> jsval) \<Rightarrow> dt_config" where
  "statusTableOptions merge =
     \<lparr>keyConfig = \<lparr>partitionKey = ''jobId'', sortKey = None\<rparr>, indexes = [], dt_validate = statusSchema,
      readValidation = ReadCoerce, mergeCoercedOverRaw = merge\<rparr>"

definition isTerminal :: "AsyncJobState \<Rightarrow> bool" where
  "isTerminal st = (st = Complete \<or> st = Failed)"

section \<open>The tracker, one table access at a time\<close>

text \<open>What the clock shows: the ISO text of now and the epoch second.\<close>

record clock =
  iso_now :: string
  epoch_now :: int

definition expiresAt_of :: "clock \<Rightarrow> int" where
  "expiresAt_of clk = epoch_now clk + STATUS_RETENTION_SECONDS"

definition queuedRecord :: "clock \<Rightarrow> string \<Rightarrow> string \<Rightarrow> StatusRecord" where
  "queuedRecord clk job submitted =
     \<lparr>jobId = job, job_state = Queued,
      transitions = [\<lparr>tr_state = Queued, tr_at = submitted, tr_attempt = 0\<rparr>],
      attempts = 0, submittedAt = submitted, updatedAt = submitted, job_error = None,
      st_expiresAt = expiresAt_of clk, version = 0\<rparr>"

definition if_absent :: dt_write_options where
  "if_absent = \<lparr>dt_exists = Bool True, ifFieldEquals = Undef\<rparr>"

definition if_version :: "int \<Rightarrow> dt_write_options" where
  "if_version n = \<lparr>dt_exists = Undef, ifFieldEquals = Obj [(''version'', Num n)]\<rparr>"

text \<open>The record \<open>backdateSubmission\<close> writes.\<close>

definition backdated :: "string \<Rightarrow> StatusRecord \<Rightarrow> StatusRecord" where
  "backdated submitted r =
     r\<lparr>submittedAt := submitted,
       transitions := (case transitions r of
          [] \<Rightarrow> []
        | t # ts \<Rightarrow> (if tr_state t = Queued then t\<lparr>tr_at := submitted\<rparr> else t) # ts),
       version := version r + 1\<rparr>"

text \<open>The record \<open>recordTransition\<close> writes.\<close>

definition transitioned :: "clock \<Rightarrow> AsyncJobState \<Rightarrow> int \<Rightarrow> string option \<Rightarrow> StatusRecord \<Rightarrow> StatusRecord" where
  "transitioned clk st attempt err base =
     base\<lparr>job_state := st,
       transitions := transitions base @ [\<lparr>tr_state = st, tr_at = iso_now clk, tr_attempt = attempt\<rparr>],
       attempts := max (attempts base) attempt,
       updatedAt := iso_now clk,
       job_error := (case err of None \<Rightarrow> job_error base | Some e \<Rightarrow> Some e),
       st_expiresAt := expiresAt_of clk,
       version := version base + 1\<rparr>"

datatype tracker_op =
    RecordQueued string string
  | RecordTransition string AsyncJobState int "string option"

text \<open>
  Where a call stands: about to make its first write or read, about to read in attempt \<open>n\<close>,
  about to write the record it computed on the condition its read gave, or returned (with an
  exception, or normally; an error of the submission-time correction is logged).
\<close>

datatype tracker_pc =
    Start tracker_op
  | Backdate string string nat
  | BackdateWrite string string nat StatusRecord StatusRecord
  | Transition string AsyncJobState int "string option" nat
  | TransitionWrite string AsyncJobState int "string option" nat "StatusRecord option" StatusRecord
  | Returned "thrown option"
  | LoggedFailure thrown

definition isConflict :: "thrown \<Rightarrow> bool" where
  "isConflict e = isBlocksError e ConditionalCheckFailed"

fun tracker_step :: "('s \<Rightarrow> string \<Rightarrow> (thrown, jsval) res) \<Rightarrow>
    (jsval \<Rightarrow> dt_write_options \<Rightarrow> 's \<Rightarrow> 's \<times> (thrown, unit) res) \<Rightarrow>
    (string \<Rightarrow> int option) \<Rightarrow> clock \<Rightarrow> 's \<Rightarrow> tracker_pc \<Rightarrow> 's \<times> tracker_pc" where
  "tracker_step get put date clk s (Start (RecordQueued job submitted)) =
     (case put (status_js (queuedRecord clk job submitted)) if_absent s of
        (s', Inr _) \<Rightarrow> (s', Returned None)
      | (s', Inl e) \<Rightarrow> (s', if isConflict e then Backdate job submitted 1 else Returned (Some e)))"
| "tracker_step get put date clk s (Start (RecordTransition job st attempt err)) =
     (s, Transition job st attempt err 1)"
| "tracker_step get put date clk s (Backdate job submitted cas) =
     (case get s job of
        Inl e \<Rightarrow> (s, LoggedFailure e)
      | Inr v \<Rightarrow>
          (case status_of_js v of
             None \<Rightarrow> (s, Returned None)
           | Some existing \<Rightarrow>
               if (case (date submitted, date (submittedAt existing)) of (Some a, Some b) \<Rightarrow> a < b | _ \<Rightarrow> False)
               then (s, BackdateWrite job submitted cas existing (backdated submitted existing))
               else (s, Returned None)))"
| "tracker_step get put date clk s (BackdateWrite job submitted cas existing nxt) =
     (case put (status_js nxt) (if_version (version existing)) s of
        (s', Inr _) \<Rightarrow> (s', Returned None)
      | (s', Inl e) \<Rightarrow> (s', if \<not> isConflict e \<or> cas \<ge> MAX_CAS_ATTEMPTS then LoggedFailure e
                          else Backdate job submitted (cas + 1)))"
| "tracker_step get put date clk s (Transition job st attempt err cas) =
     (case get s job of
        Inl e \<Rightarrow> (s, Returned (Some e))
      | Inr v \<Rightarrow>
          (let existing = status_of_js v;
               base = opt_or existing (queuedRecord clk job (iso_now clk)) in
           (s, TransitionWrite job st attempt err cas existing (transitioned clk st attempt err base))))"
| "tracker_step get put date clk s (TransitionWrite job st attempt err cas existing nxt) =
     (case put (status_js nxt) (case existing of None \<Rightarrow> if_absent | Some r \<Rightarrow> if_version (version r)) s of
        (s', Inr _) \<Rightarrow> (s', Returned None)
      | (s', Inl e) \<Rightarrow> (s', if \<not> isConflict e \<or> cas \<ge> MAX_CAS_ATTEMPTS then Returned (Some e)
                          else Transition job st attempt err (cas + 1)))"
| "tracker_step get put date clk s pc = (s, pc)"

section \<open>Records and their objects\<close>

lemma state_of_text [simp]: "state_of_text (state_text st) = Some st"
  by (cases st) simp_all

declare state_of_text.simps [simp del]

lemma transition_of_js [simp]: "transition_of_js (transition_js t) = Some t"
  by (simp add: transition_of_js_def transition_js_def)

lemma all_some_map [simp]: "all_some (map (\<lambda>x. Some (f x)) xs) = Some (map f xs)"
  by (induction xs) simp_all

lemma status_props [simp]:
  "get_prop (status_js r) ''jobId'' = Str (jobId r)"
  "get_prop (status_js r) ''state'' = Str (state_text (job_state r))"
  "get_prop (status_js r) ''transitions'' = Arr (map transition_js (transitions r))"
  "get_prop (status_js r) ''attempts'' = Num (attempts r)"
  "get_prop (status_js r) ''submittedAt'' = Str (submittedAt r)"
  "get_prop (status_js r) ''updatedAt'' = Str (updatedAt r)"
  "get_prop (status_js r) ''expiresAt'' = Num (st_expiresAt r)"
  "get_prop (status_js r) ''version'' = Num (version r)"
  "get_prop (status_js r) ''error'' = (case job_error r of None \<Rightarrow> Undef | Some e \<Rightarrow> Str e)"
  by (simp_all add: status_js_def split: option.split)

lemma status_of_js [simp]: "status_of_js (status_js r) = Some r"
  by (simp add: status_of_js_def comp_def split: option.split)

lemma status_of_Null [simp]: "status_of_js Null = None"
  by (simp add: status_of_js_def)

lemma status_js_inj [simp]: "status_js r = status_js r' \<longleftrightarrow> r = r'"
  by (metis option.inject status_of_js)

lemma status_js_obj: "\<exists>ps. status_js r = Obj ps \<and> (\<forall>k. obj_has ps k \<longrightarrow> get_prop (status_js r) k \<noteq> Undef)"
  by (auto simp: status_js_def split: option.split)

lemma status_js_neq [simp]: "status_js r \<noteq> Undef" "status_js r \<noteq> Null" "truthy (status_js r)"
  by (simp_all add: status_js_def)

lemma status_js_wf [simp]: "wf_js (status_js r)"
  by (auto simp: status_js_def transition_js_def split: option.split)

lemma statusSchema_status [simp]: "statusSchema (status_js r) = Inr (status_js r)"
proof -
  obtain ps where ps: "status_js r = Obj ps" "\<forall>k. obj_has ps k \<longrightarrow> get_prop (status_js r) k \<noteq> Undef"
    using status_js_obj by blast
  have str: "filter (\<lambda>f. obj_has ps f \<and> \<not> is_str (get_prop (status_js r) f)) STRING_FIELDS = []"
    using ps(2) by (auto simp: STRING_FIELDS_def is_str_def filter_empty_conv split: option.split)
  have num: "filter (\<lambda>f. obj_has ps f \<and> \<not> is_num (get_prop (status_js r) f)) [''attempts'', ''expiresAt'', ''version''] = []"
    by (simp add: is_num_def)
  have "is_arr (get_prop (status_js r) ''transitions'')" by (simp add: is_arr_def)
  then show ?thesis using str num unfolding statusSchema_def ps(1) jsval.case Let_def by (simp only: ps(1) if_False list.map append_Nil if_True simp_thms)
qed

abbreviation job_key :: "string \<Rightarrow> string" where
  "job_key j \<equiv> print_json (Arr [Str j])"

lemma job_key_inj [simp]: "print_json (Arr [Str i]) = print_json (Arr [Str j]) \<longleftrightarrow> i = j"
proof -
  have "json_parse (print_json (Arr [Str k])) = Some (Arr [Str k])" for k by (rule json_parse_print) simp
  then show ?thesis by (metis jsval.inject(3,4) list.inject option.inject)
qed

lemma serializeKey_status:
  "serializeKey (statusTableOptions m) (status_js r) = job_key (jobId r)"
  "serializeKey (statusTableOptions m) (Obj [(''jobId'', Str j)]) = job_key j"
  by (simp_all add: serializeKey_def statusTableOptions_def del: print_json.simps)

section \<open>Many calls at once\<close>

text \<open>
  The store and the calls made so far, each with its operation and where it stands.  At any moment a
  new call is made, or some call takes its next step, with whatever the clock shows.
\<close>

type_synonym 's tracker_sys = "'s \<times> (tracker_op \<times> tracker_pc) list"

inductive tracker_sys_step :: "('s \<Rightarrow> string \<Rightarrow> (thrown, jsval) res) \<Rightarrow>
    (jsval \<Rightarrow> dt_write_options \<Rightarrow> 's \<Rightarrow> 's \<times> (thrown, unit) res) \<Rightarrow>
    (string \<Rightarrow> int option) \<Rightarrow> 's tracker_sys \<Rightarrow> 's tracker_sys \<Rightarrow> bool" for get put date where
  call: "tracker_sys_step get put date (s, cs) (s, cs @ [(op, Start op)])"
| run: "i < length cs \<Longrightarrow> cs ! i = (op, pc) \<Longrightarrow> tracker_step get put date clk s pc = (s', pc') \<Longrightarrow>
    tracker_sys_step get put date (s, cs) (s', cs[i := (op, pc')])"

inductive tracker_reach :: "('s \<Rightarrow> string \<Rightarrow> (thrown, jsval) res) \<Rightarrow>
    (jsval \<Rightarrow> dt_write_options \<Rightarrow> 's \<Rightarrow> 's \<times> (thrown, unit) res) \<Rightarrow>
    (string \<Rightarrow> int option) \<Rightarrow> 's \<Rightarrow> 's tracker_sys \<Rightarrow> bool" for get put date s0 where
  reach_init: "tracker_reach get put date s0 (s0, [])"
| reach_step: "tracker_reach get put date s0 y \<Longrightarrow> tracker_sys_step get put date y z \<Longrightarrow>
    tracker_reach get put date s0 z"

inductive_cases tracker_sys_stepE: "tracker_sys_step get put date (s, cs) y"

text \<open>The state and attempt of every \<open>recordTransition\<close> call for a job that returned normally.\<close>

definition committed_entry :: "string \<Rightarrow> tracker_op \<times> tracker_pc \<Rightarrow> (AsyncJobState \<times> int) multiset" where
  "committed_entry j c =
     (case c of (RecordTransition job st attempt err, Returned None) \<Rightarrow> if job = j then {#(st, attempt)#} else {#}
      | _ \<Rightarrow> {#})"

definition committed :: "string \<Rightarrow> (tracker_op \<times> tracker_pc) list \<Rightarrow> (AsyncJobState \<times> int) multiset" where
  "committed j cs = sum_list (map (committed_entry j) cs)"

lemma committed_snoc [simp]: "committed j (cs @ [c]) = committed j cs + committed_entry j c"
  by (simp add: committed_def)

lemma committed_update:
  assumes "i < length cs"
  shows "committed j (cs[i := c]) + committed_entry j (cs ! i) = committed j cs + committed_entry j c"
proof -
  have "committed j cs = committed j (take i cs) + committed_entry j (cs ! i) + committed j (drop (Suc i) cs)"
    using id_take_nth_drop [OF assms] unfolding committed_def
    by (metis (no_types, opaque_lifting) add.assoc list.simps(9) map_append sum_list.Cons sum_list_append)
  moreover have "committed j (cs[i := c]) = committed j (take i cs) + committed_entry j c + committed j (drop (Suc i) cs)"
    using assms by (simp add: committed_def upd_conv_take_nth_drop)
  ultimately show ?thesis by simp
qed

text \<open>A record of job \<open>j\<close> whose history consists of the submission and the entries \<open>M\<close>.\<close>

definition history_ok :: "string \<Rightarrow> StatusRecord \<Rightarrow> (AsyncJobState \<times> int) multiset \<Rightarrow> bool" where
  "history_ok j r M =
     (jobId r = j \<and> transitions r \<noteq> [] \<and> tr_state (hd (transitions r)) = Queued
      \<and> tr_attempt (hd (transitions r)) = 0 \<and> tr_at (hd (transitions r)) = submittedAt r
      \<and> job_state r = tr_state (last (transitions r))
      \<and> image_mset (\<lambda>t. (tr_state t, tr_attempt t)) (mset (tl (transitions r))) = M)"

lemma history_queued: "history_ok j (queuedRecord clk j sub) {#}"
  by (simp add: history_ok_def queuedRecord_def)

lemma history_transitioned:
  "history_ok j r M \<Longrightarrow> history_ok j (transitioned clk st att err r) (add_mset (st, att) M)"
  by (cases "transitions r") (auto simp: history_ok_def transitioned_def)

lemma history_backdated: "history_ok j r M \<Longrightarrow> history_ok j (backdated sub r) M"
  by (cases "transitions r") (auto simp: history_ok_def backdated_def)

text \<open>A record read earlier: if its version is still current, so is the record.\<close>

definition snapshot_of :: "StatusRecord \<Rightarrow> StatusRecord option \<Rightarrow> bool" where
  "snapshot_of r current =
     (case current of None \<Rightarrow> False | Some cur \<Rightarrow> version r \<le> version cur \<and> (version cur = version r \<longrightarrow> cur = r))"

text \<open>What a call knows, against the current content of the store.\<close>

fun call_ok :: "(string \<Rightarrow> StatusRecord option) \<Rightarrow> tracker_op \<times> tracker_pc \<Rightarrow> bool" where
  "call_ok f (op, Start op') = (op' = op)"
| "call_ok f (op, Backdate job submitted cas) = (op = RecordQueued job submitted)"
| "call_ok f (op, BackdateWrite job submitted cas r nxt) =
     (op = RecordQueued job submitted \<and> nxt = backdated submitted r \<and> snapshot_of r (f job) \<and> jobId r = job)"
| "call_ok f (op, Transition job st attempt err cas) = (op = RecordTransition job st attempt err)"
| "call_ok f (op, TransitionWrite job st attempt err cas existing nxt) =
     (op = RecordTransition job st attempt err
      \<and> (\<exists>clk. nxt = transitioned clk st attempt err (opt_or existing (queuedRecord clk job (iso_now clk))))
      \<and> (case existing of None \<Rightarrow> True | Some r \<Rightarrow> snapshot_of r (f job) \<and> jobId r = job))"
| "call_ok f (op, Returned r) = True"
| "call_ok f (op, LoggedFailure e) = (\<exists>job submitted. op = RecordQueued job submitted)"

text \<open>How the content of the store may change: a job's record only ever gets a higher version.\<close>

definition grows :: "(string \<Rightarrow> StatusRecord option) \<Rightarrow> (string \<Rightarrow> StatusRecord option) \<Rightarrow> bool" where
  "grows f f' = (\<forall>j r. f j = Some r \<longrightarrow> (\<exists>r'. f' j = Some r' \<and> (r' = r \<or> version r < version r')))"

lemma grows_refl [simp]: "grows f f"
  by (simp add: grows_def)

lemma snapshot_grows: "snapshot_of r (f j) \<Longrightarrow> grows f f' \<Longrightarrow> snapshot_of r (f' j)"
  by (fastforce simp: snapshot_of_def grows_def split: option.splits)

lemma call_ok_grows: "call_ok f c \<Longrightarrow> grows f f' \<Longrightarrow> call_ok f' c"
  by (cases "(f, c)" rule: call_ok.cases) (auto split: option.splits intro: snapshot_grows)

lemma grows_insert:
  "f j = None \<or> (\<exists>r. f j = Some r \<and> version r < version r') \<Longrightarrow> grows f (f(j \<mapsto> r'))"
  by (auto simp: grows_def)

text \<open>The invariant of the system.\<close>

definition entry_ok :: "StatusRecord option \<Rightarrow> string \<Rightarrow> (AsyncJobState \<times> int) multiset \<Rightarrow> bool" where
  "entry_ok current j M = (case current of None \<Rightarrow> M = {#} | Some r \<Rightarrow> history_ok j r M)"

lemma entry_ok_simps [simp]:
  "entry_ok None j M \<longleftrightarrow> M = {#}" "entry_ok (Some r) j M \<longleftrightarrow> history_ok j r M"
  by (simp_all add: entry_ok_def)

definition histories_ok :: "(string \<Rightarrow> StatusRecord option) \<Rightarrow> (tracker_op \<times> tracker_pc) list \<Rightarrow> bool" where
  "histories_ok f cs =
     ((\<forall>j. entry_ok (f j) j (committed j cs)) \<and> (\<forall>c \<in> set cs. call_ok f c))"

lemma histories_entry: "histories_ok f cs \<Longrightarrow> entry_ok (f j) j (committed j cs)"
  by (simp add: histories_ok_def)

lemma histories_call: "histories_ok f cs \<Longrightarrow> i < length cs \<Longrightarrow> call_ok f (cs ! i)"
  by (simp add: histories_ok_def)

lemma histories_update:
  assumes "histories_ok f cs" "i < length cs" "cs ! i = c" "\<And>j. committed_entry j c = {#}"
    and "grows f f'" "call_ok f' c'"
    and "\<And>j. entry_ok (f' j) j (committed j cs + committed_entry j c')"
  shows "histories_ok f' (cs[i := c'])"
proof -
  have "committed j (cs[i := c']) = committed j cs + committed_entry j c'" for j
    using committed_update [OF assms(2), of j c'] assms(3,4) by simp
  moreover have "\<forall>c \<in> set (cs[i := c']). call_ok f' c"
    using assms(1,5,6) set_update_subset_insert [of cs i c'] call_ok_grows unfolding histories_ok_def by blast
  ultimately show ?thesis using assms(7) unfolding histories_ok_def by simp
qed

lemma histories_same:
  assumes "histories_ok f cs" "i < length cs" "cs ! i = c" "\<And>j. committed_entry j c = {#}"
    and "\<And>j. committed_entry j c' = {#}" "call_ok f c'"
  shows "histories_ok f (cs[i := c'])"
  by (rule histories_update [OF assms(1-4) grows_refl assms(6)])
     (use assms(1,5) in \<open>simp add: histories_ok_def\<close>)

lemma histories_write:
  assumes "histories_ok f cs" "i < length cs" "cs ! i = c" "\<And>j. committed_entry j c = {#}"
    and "\<And>j'. j' \<noteq> j \<Longrightarrow> committed_entry j' c' = {#}" "\<And>f. call_ok f c'"
    and "f j = None \<or> (\<exists>r. f j = Some r \<and> version r < version r')"
    and "history_ok j r' (committed j cs + committed_entry j c')"
  shows "histories_ok (f(j \<mapsto> r')) (cs[i := c'])"
proof (rule histories_update [OF assms(1-4) _ assms(6)])
  show "grows f (f(j \<mapsto> r'))" using assms(7) by (rule grows_insert)
next
  fix j'
  show "entry_ok ((f(j \<mapsto> r')) j') j' (committed j' cs + committed_entry j' c')"
  proof (cases "j' = j")
    case False
    then show ?thesis using assms(1) assms(5) [OF False] by (simp add: histories_ok_def)
  qed (simp add: assms(8))
qed

lemma histories_empty: "histories_ok (\<lambda>j. None) []"
  by (simp add: histories_ok_def committed_def)

section \<open>The contract the tracker relies on\<close>

text \<open>
  A store of status records by job: reads give the record, and a write on condition that the record
  is absent, or has a given version, is atomic: it goes through only when the condition holds.
\<close>

locale conditional_store =
  fixes get :: "'s \<Rightarrow> string \<Rightarrow> (thrown, jsval) res"
    and put :: "jsval \<Rightarrow> dt_write_options \<Rightarrow> 's \<Rightarrow> 's \<times> (thrown, unit) res"
    and content :: "'s \<Rightarrow> string \<Rightarrow> StatusRecord option"
    and inv :: "'s \<Rightarrow> bool"
    and fits :: "StatusRecord \<Rightarrow> bool"
  assumes get_content: "inv s \<Longrightarrow> get s j = Inr (case content s j of None \<Rightarrow> Null | Some r \<Rightarrow> status_js r)"
    and put_absent: "inv s \<Longrightarrow> put (status_js r) if_absent s = (s', x) \<Longrightarrow>
      (x = Inr () \<and> content s (jobId r) = None \<and> inv s' \<and> content s' = (content s)(jobId r \<mapsto> r)) \<or>
      (s' = s \<and> (\<exists>e. x = Inl e \<and> (fits r \<longrightarrow> isConflict e \<and> content s (jobId r) \<noteq> None)))"
    and put_version: "inv s \<Longrightarrow> put (status_js r) (if_version n) s = (s', x) \<Longrightarrow>
      (x = Inr () \<and> (\<exists>old. content s (jobId r) = Some old \<and> version old = n) \<and> inv s'
         \<and> content s' = (content s)(jobId r \<mapsto> r)) \<or>
      (s' = s \<and> (\<exists>e. x = Inl e \<and> (fits r \<longrightarrow>
         isConflict e \<and> \<not> (\<exists>old. content s (jobId r) = Some old \<and> version old = n))))"
begin

text \<open>A call that is not finished contributes no entry yet.\<close>

lemma queued_step:
  assumes ok: "histories_ok (content s) cs" and inv: "inv s" and i: "i < length cs" "cs ! i = (op, pc)"
    and step: "tracker_step get put date clk s pc = (s', pc')"
    and pc: "pc = Start op" "op = RecordQueued job submitted"
  shows "inv s' \<and> histories_ok (content s') (cs[i := (op, pc')])"
proof -
  let ?r = "queuedRecord clk job submitted"
  obtain t x where p: "put (status_js ?r) if_absent s = (t, x)" by fastforce
  have none: "\<And>j. committed_entry j (op, pc) = {#}" by (simp add: committed_entry_def pc)
  have job: "jobId ?r = job" by (simp add: queuedRecord_def)
  from put_absent [OF inv p] show ?thesis
  proof (elim disjE conjE exE)
    assume h: "x = Inr ()" "content s (jobId ?r) = None" "inv t" "content t = (content s)(jobId ?r \<mapsto> ?r)"
    have s': "s' = t" "pc' = Returned None" using step p h(1) unfolding pc by simp_all
    have "committed job cs = {#}" using histories_entry [OF ok, of job] h(2) by (simp add: job)
    then have "history_ok job ?r (committed job cs + committed_entry job (op, pc'))"
      using history_queued [of job clk submitted] by (simp add: committed_entry_def pc s')
    then have "histories_ok ((content s)(job \<mapsto> ?r)) (cs[i := (op, pc')])"
      by (intro histories_write [OF ok i none]) (use h(2) in \<open>simp_all add: job s' pc committed_entry_def\<close>)
    then show ?thesis using h(3,4) s' by (simp add: job)
  next
    fix e assume h: "t = s" "x = Inl e"
    have "s' = s" "pc' = Backdate job submitted 1 \<or> pc' = Returned (Some e)"
      using step p h unfolding pc by (auto split: if_splits)
    moreover from this have "histories_ok (content s) (cs[i := (op, pc')])"
      by (intro histories_same [OF ok i none]) (auto simp: pc committed_entry_def)
    ultimately show ?thesis using inv by simp
  qed
qed

lemma backdate_step:
  assumes ok: "histories_ok (content s) cs" and inv: "inv s" and i: "i < length cs" "cs ! i = (op, pc)"
    and step: "tracker_step get put date clk s pc = (s', pc')"
    and pc: "pc = Backdate job submitted cas"
  shows "inv s' \<and> histories_ok (content s') (cs[i := (op, pc')])"
proof -
  have none: "\<And>j. committed_entry j (op, pc) = {#}"
    by (simp add: committed_entry_def pc split: tracker_op.split)
  have op: "op = RecordQueued job submitted"
    using histories_call [OF ok i(1)] unfolding i(2) pc by simp
  have s': "s' = s" and pc': "pc' = Returned None \<or> (\<exists>r. content s job = Some r
      \<and> pc' = BackdateWrite job submitted cas r (backdated submitted r))"
    using step get_content [OF inv, of job] unfolding pc by (auto split: option.splits if_splits)
  have "histories_ok (content s) (cs[i := (op, pc')])"
  proof (rule histories_same [OF ok i none])
    show "committed_entry j (op, pc') = {#}" for j using op pc' by (auto simp: committed_entry_def)
    have "jobId r = job" if "content s job = Some r" for r
      using histories_entry [OF ok, of job] that by (simp add: history_ok_def)
    then show "call_ok (content s) (op, pc')" using op pc' by (auto simp: snapshot_of_def)
  qed
  then show ?thesis using inv s' by simp
qed

lemma backdate_write_step:
  assumes ok: "histories_ok (content s) cs" and inv: "inv s" and i: "i < length cs" "cs ! i = (op, pc)"
    and step: "tracker_step get put date clk s pc = (s', pc')"
    and pc: "pc = BackdateWrite job submitted cas r nxt"
  shows "inv s' \<and> histories_ok (content s') (cs[i := (op, pc')])"
proof -
  have none: "\<And>j. committed_entry j (op, pc) = {#}"
    by (simp add: committed_entry_def pc split: tracker_op.split)
  have op: "op = RecordQueued job submitted" "nxt = backdated submitted r" "snapshot_of r (content s job)" "jobId r = job"
    using histories_call [OF ok i(1)] unfolding i(2) pc by simp_all
  have job: "jobId nxt = job" using op by (simp add: backdated_def)
  obtain t x where p: "put (status_js nxt) (if_version (version r)) s = (t, x)" by fastforce
  from put_version [OF inv p] show ?thesis
  proof (elim disjE conjE exE)
    fix old assume h: "x = Inr ()" "content s (jobId nxt) = Some old" "version old = version r" "inv t"
      "content t = (content s)(jobId nxt \<mapsto> nxt)"
    have s': "s' = t" "pc' = Returned None" using step p h(1) unfolding pc by simp_all
    have cur: "content s job = Some r" using op(3) h(2,3) by (simp add: job snapshot_of_def)
    then have "history_ok job r (committed job cs)"
      using histories_entry [OF ok, of job] by simp
    then have "history_ok job nxt (committed job cs + committed_entry job (op, pc'))"
      using history_backdated unfolding op by (simp add: committed_entry_def)
    then have "histories_ok ((content s)(job \<mapsto> nxt)) (cs[i := (op, pc')])"
      by (intro histories_write [OF ok i none])
         (use cur in \<open>simp_all add: job s' op(1,2) backdated_def committed_entry_def\<close>)
    then show ?thesis using h(4,5) s' by (simp add: job)
  next
    fix e assume h: "t = s" "x = Inl e"
    have "s' = s" "pc' = LoggedFailure e \<or> pc' = Backdate job submitted (cas + 1)"
      using step p h unfolding pc by (auto split: if_splits)
    moreover from this have "histories_ok (content s) (cs[i := (op, pc')])"
      by (intro histories_same [OF ok i none]) (auto simp: op(1) committed_entry_def)
    ultimately show ?thesis using inv by simp
  qed
qed

lemma transition_read_step:
  assumes ok: "histories_ok (content s) cs" and inv: "inv s" and i: "i < length cs" "cs ! i = (op, pc)"
    and step: "tracker_step get put date clk s pc = (s', pc')"
    and pc: "pc = Transition job st attempt err cas"
  shows "inv s' \<and> histories_ok (content s') (cs[i := (op, pc')])"
proof -
  have none: "\<And>j. committed_entry j (op, pc) = {#}"
    by (simp add: committed_entry_def pc split: tracker_op.split)
  have op: "op = RecordTransition job st attempt err"
    using histories_call [OF ok i(1)] unfolding i(2) pc by simp
  have "s' = s" and pc': "pc' = TransitionWrite job st attempt err cas (content s job)
      (transitioned clk st attempt err (opt_or (content s job) (queuedRecord clk job (iso_now clk))))"
    using step get_content [OF inv, of job] unfolding pc by (auto split: option.splits)
  moreover have "histories_ok (content s) (cs[i := (op, pc')])"
  proof (rule histories_same [OF ok i none])
    show "committed_entry j (op, pc') = {#}" for j by (simp add: committed_entry_def pc' op)
    have "jobId r = job" if "content s job = Some r" for r
      using histories_entry [OF ok, of job] that by (simp add: history_ok_def)
    then show "call_ok (content s) (op, pc')"
      by (auto simp: pc' op snapshot_of_def split: option.split)
  qed
  ultimately show ?thesis using inv by simp
qed

lemma transition_write_step:
  assumes ok: "histories_ok (content s) cs" and inv: "inv s" and i: "i < length cs" "cs ! i = (op, pc)"
    and step: "tracker_step get put date clk s pc = (s', pc')"
    and pc: "pc = TransitionWrite job st attempt err cas existing nxt"
  shows "inv s' \<and> histories_ok (content s') (cs[i := (op, pc')])"
proof -
  have none: "\<And>j. committed_entry j (op, pc) = {#}"
    by (simp add: committed_entry_def pc split: tracker_op.split)
  have call: "call_ok (content s) (op, pc)" using histories_call [OF ok i(1)] unfolding i(2) .
  then have op: "op = RecordTransition job st attempt err" by (simp add: pc)
  obtain clk' where nxt: "nxt = transitioned clk' st attempt err (opt_or existing (queuedRecord clk' job (iso_now clk')))"
    using call by (auto simp: pc)
  have job: "jobId nxt = job"
    using call by (cases existing) (simp_all add: pc nxt transitioned_def queuedRecord_def)
  let ?cond = "case existing of None \<Rightarrow> if_absent | Some r \<Rightarrow> if_version (version r)"
  obtain t x where p: "put (status_js nxt) ?cond s = (t, x)" by fastforce
  have out: "(x = Inr () \<and> inv t \<and> content t = (content s)(job \<mapsto> nxt)
       \<and> content s job = existing) \<or> (t = s \<and> (\<exists>e. x = Inl e))"
  proof (cases existing)
    case None
    then show ?thesis using put_absent [OF inv, of nxt t x] p by (auto simp: job)
  next
    case (Some r)
    have "snapshot_of r (content s job)" using call by (simp add: pc Some)
    then show ?thesis using put_version [OF inv, of nxt "version r" t x] p Some
      by (auto simp: job snapshot_of_def)
  qed
  then show ?thesis
  proof (elim disjE conjE exE)
    assume h: "x = Inr ()" "inv t" "content t = (content s)(job \<mapsto> nxt)" "content s job = existing"
    have s': "s' = t" "pc' = Returned None" using step p h(1) unfolding pc by simp_all
    have "history_ok job (opt_or existing (queuedRecord clk' job (iso_now clk'))) (committed job cs)"
      using histories_entry [OF ok, of job] history_queued unfolding h(4) by (cases existing) simp_all
    from history_transitioned [OF this, of clk' st attempt err]
    have hist: "history_ok job nxt (committed job cs + committed_entry job (op, pc'))"
      by (simp add: nxt committed_entry_def op s')
    have newer: "content s job = None \<or> (\<exists>r. content s job = Some r \<and> version r < version nxt)"
      unfolding h(4) by (cases existing) (simp_all add: nxt transitioned_def)
    have "histories_ok ((content s)(job \<mapsto> nxt)) (cs[i := (op, pc')])"
      by (rule histories_write [OF ok i none _ _ newer hist]) (simp_all add: committed_entry_def op s')
    then show ?thesis using h(2,3) s' by simp
  next
    fix e assume h: "t = s" "x = Inl e"
    have "s' = s" "pc' = Returned (Some e) \<or> pc' = Transition job st attempt err (cas + 1)"
      using step p h unfolding pc by (auto split: if_splits)
    moreover from this have "histories_ok (content s) (cs[i := (op, pc')])"
      by (intro histories_same [OF ok i none]) (auto simp: op committed_entry_def)
    ultimately show ?thesis using inv by simp
  qed
qed

lemma run_step:
  assumes ok: "histories_ok (content s) cs" and inv: "inv s" and i: "i < length cs" "cs ! i = (op, pc)"
    and step: "tracker_step get put date clk s pc = (s', pc')"
  shows "inv s' \<and> histories_ok (content s') (cs[i := (op, pc')])"
proof (cases pc)
  case (Start op')
  have "op' = op" using histories_call [OF ok i(1)] unfolding i(2) Start by simp
  note pc = Start [unfolded this]
  show ?thesis
  proof (cases op)
    case (RecordQueued job submitted)
    then show ?thesis using queued_step [OF assms pc] by blast
  next
    case (RecordTransition job st attempt err)
    have "s' = s" "pc' = Transition job st attempt err 1" using step unfolding pc RecordTransition by simp_all
    then show ?thesis using inv
      by (simp add: histories_same [OF ok i] committed_entry_def pc RecordTransition)
  qed
next
  case (Returned r)
  then show ?thesis using step ok inv i by (metis Pair_inject list_update_id tracker_step.simps(7))
next
  case (LoggedFailure e)
  then show ?thesis using step ok inv i by (metis Pair_inject list_update_id tracker_step.simps(8))
qed (use assms backdate_step backdate_write_step transition_read_step transition_write_step in metis)+

lemma reach_ok:
  assumes "tracker_reach get put date s0 y" and init: "inv s0" "content s0 = (\<lambda>j. None)"
  shows "inv (fst y) \<and> histories_ok (content (fst y)) (snd y)"
  using assms(1)
proof (induction rule: tracker_reach.induct)
  case reach_init
  then show ?case using init histories_empty by simp
next
  case (reach_step y z)
  from reach_step(2) show ?case
  proof cases
    case (call s cs op)
    then show ?thesis using reach_step.IH
      by (auto simp: histories_ok_def committed_entry_def split: tracker_op.split)
  next
    case (run i cs op pc clk s s' pc')
    then show ?thesis using run_step [OF _ _ run(3-5)] reach_step.IH by simp
  qed
qed

end

section \<open>The table keeps the contract\<close>

definition table_get :: "(jsval \<Rightarrow> jsval \<Rightarrow> jsval) \<Rightarrow> dt_table \<Rightarrow> string \<Rightarrow> (thrown, jsval) res" where
  "table_get merge t job = snd (dt_get (statusTableOptions merge) (Obj [(''jobId'', Str job)]) t)"

definition table_put :: "(jsval \<Rightarrow> jsval \<Rightarrow> jsval) \<Rightarrow> jsval \<Rightarrow> dt_write_options \<Rightarrow> dt_table \<Rightarrow>
    dt_table \<times> (thrown, unit) res" where
  "table_put merge item opts t = dt_put (statusTableOptions merge) item opts t"

definition table_content :: "dt_table \<Rightarrow> string \<Rightarrow> StatusRecord option" where
  "table_content t j = (case obj_get (dt_data t) (job_key j) of None \<Rightarrow> None | Some v \<Rightarrow> status_of_js v)"

definition table_inv :: "(jsval \<Rightarrow> jsval \<Rightarrow> jsval) \<Rightarrow> dt_table \<Rightarrow> bool" where
  "table_inv merge t = (dt_inv (statusTableOptions merge) t \<and> (\<forall>(k, v) \<in> set (dt_data t). \<exists>r. v = status_js r))"

definition table_fits :: "StatusRecord \<Rightarrow> bool" where
  "table_fits r = (check_size (status_js r) = Inr ())"

lemma table_stored:
  assumes "table_inv m t"
  shows "dt_lookup (job_key j) t = (case table_content t j of None \<Rightarrow> Undef | Some r \<Rightarrow> status_js r)"
    and "obj_has (dt_data t) (job_key j) \<longleftrightarrow> table_content t j \<noteq> None"
proof -
  have "\<exists>r. v = status_js r" if "obj_get (dt_data t) (job_key j) = Some v" for v
    using assms obj_get_in_set [OF that] unfolding table_inv_def by blast
  then show "dt_lookup (job_key j) t = (case table_content t j of None \<Rightarrow> Undef | Some r \<Rightarrow> status_js r)"
    and "obj_has (dt_data t) (job_key j) \<longleftrightarrow> table_content t j \<noteq> None"
    by (auto simp: dt_lookup_def table_content_def obj_has_get split: option.splits)
qed

lemma table_written:
  fixes r :: StatusRecord
  assumes "table_inv m t"
  defines "t' \<equiv> dt_flush (t\<lparr>dt_data := obj_set (job_key (jobId r)) (status_js r) (dt_data t)\<rparr>)"
  shows "table_inv m t'" and "table_content t' = (table_content t)(jobId r \<mapsto> r)"
proof -
  have inv: "obj_wf (dt_data t)" "\<forall>(k, v) \<in> set (dt_data t). wf_js v \<and> k = serializeKey (statusTableOptions m) v"
    "\<forall>(k, v) \<in> set (dt_data t). \<exists>r. v = status_js r"
    using assms(1) by (simp_all add: table_inv_def dt_inv_def)
  have "dt_inv (statusTableOptions m) t'"
    using dt_inv_flush [OF obj_wf_set [OF inv(1)] keyed_set [OF inv(2) status_js_wf], of r t]
    unfolding serializeKey_status t'_def .
  moreover have "\<forall>(k, v) \<in> set (dt_data t'). \<exists>r. v = status_js r"
    unfolding t'_def using obj_set_all [OF inv(3), of "status_js r"] by auto
  ultimately show "table_inv m t'" by (simp add: table_inv_def)
  show "table_content t' = (table_content t)(jobId r \<mapsto> r)"
    by (auto simp: table_content_def t'_def fun_eq_iff simp del: print_json.simps)
qed

lemma table_put_eq:
  "table_put m (status_js r) opts s =
     (case check_size (status_js r) of
        Inl e \<Rightarrow> (s, Inl e)
      | Inr _ \<Rightarrow>
          (case write_conflict False (job_key (jobId r)) opts s of
             Some e \<Rightarrow> (s, Inl e)
           | None \<Rightarrow> (dt_flush (s\<lparr>dt_data := obj_set (job_key (jobId r)) (status_js r) (dt_data s)\<rparr>), Inr ())))"
proof -
  have valid: "validate_item (statusTableOptions m) (status_js r) = Inr ()"
    by (simp add: validate_item_def statusTableOptions_def)
  show ?thesis unfolding table_put_def dt_put_def serializeKey_status valid by simp
qed

lemma isConflict_checkFailed [simp]: "isConflict (conditionalCheckFailed b c)"
  by (simp add: isConflict_def conditionalCheckFailed_def)

lemma table_store:
  assumes merge: "\<forall>x. m x x = x"
  shows "conditional_store (table_get m) (table_put m) table_content (table_inv m) table_fits"
proof
  fix s j assume inv: "table_inv m s"
  show "table_get m s j = Inr (case table_content s j of None \<Rightarrow> Null | Some r \<Rightarrow> status_js r)"
    unfolding table_get_def dt_get_def serializeKey_status table_stored(1) [OF inv]
    by (cases "table_content s j")
       (simp_all add: nullish_or_def applyReadValidation_def statusTableOptions_def merge)
next
  fix s r s' x assume inv: "table_inv m s" and put: "table_put m (status_js r) if_absent s = (s', x)"
  have conflict: "write_conflict False (job_key (jobId r)) if_absent s =
      (if table_content s (jobId r) \<noteq> None then Some (conditionalCheckFailed False None) else None)"
    using table_stored(2) [OF inv, of "jobId r"] by (simp add: write_conflict_def if_absent_def del: print_json.simps)
  show "(x = Inr () \<and> table_content s (jobId r) = None \<and> table_inv m s'
        \<and> table_content s' = (table_content s)(jobId r \<mapsto> r)) \<or>
      (s' = s \<and> (\<exists>e. x = Inl e \<and> (table_fits r \<longrightarrow> isConflict e \<and> table_content s (jobId r) \<noteq> None)))"
  proof (cases "check_size (status_js r)")
    case (Inl e)
    then have "s' = s" "x = Inl e" using put by (simp_all add: table_put_eq)
    then show ?thesis using Inl by (simp add: table_fits_def)
  next
    case (Inr u)
    then show ?thesis using put table_written [OF inv, of r] unfolding table_put_eq conflict
      by (auto split: if_splits simp del: print_json.simps)
  qed
next
  fix s r n s' x assume inv: "table_inv m s" and put: "table_put m (status_js r) (if_version n) s = (s', x)"
  have "dt_lookup (job_key (jobId r)) s = Undef \<and> \<not> obj_has (dt_data s) (job_key (jobId r))
      \<or> truthy (dt_lookup (job_key (jobId r)) s) \<and> obj_has (dt_data s) (job_key (jobId r))"
    unfolding table_stored [OF inv] by (simp split: option.split)
  moreover have "dt_inv (statusTableOptions m) s" using inv by (simp add: table_inv_def)
  ultimately have "write_conflict False (job_key (jobId r)) (if_version n) s =
      write_verdict False False [(''version'', Num n)] (dt_lookup (job_key (jobId r)) s)"
    by (subst write_conflict_verdict) (simp_all add: if_version_def)
  also have "\<dots> = (if \<exists>old. table_content s (jobId r) = Some old \<and> version old = n then None
      else Some (conditionalCheckFailed True None))"
    unfolding table_stored(1) [OF inv] write_verdict_def Let_def by (auto split: option.split)
  finally have conflict: "write_conflict False (job_key (jobId r)) (if_version n) s =
     (if \<exists>old. table_content s (jobId r) = Some old \<and> version old = n then None
      else Some (conditionalCheckFailed True None))" .
  show "(x = Inr () \<and> (\<exists>old. table_content s (jobId r) = Some old \<and> version old = n) \<and> table_inv m s'
        \<and> table_content s' = (table_content s)(jobId r \<mapsto> r)) \<or>
      (s' = s \<and> (\<exists>e. x = Inl e \<and> (table_fits r \<longrightarrow>
         isConflict e \<and> \<not> (\<exists>old. table_content s (jobId r) = Some old \<and> version old = n))))"
  proof (cases "check_size (status_js r)")
    case (Inl e)
    then have "s' = s" "x = Inl e" using put by (simp_all add: table_put_eq)
    then show ?thesis using Inl by (simp add: table_fits_def)
  next
    case (Inr u)
    then show ?thesis using put table_written [OF inv, of r] unfolding table_put_eq conflict
      by (auto split: if_splits simp del: print_json.simps)
  qed
qed

interpretation status_table: conditional_store "table_get (\<lambda>value raw. value)" "table_put (\<lambda>value raw. value)"
    table_content "table_inv (\<lambda>value raw. value)" table_fits
  by (rule table_store) simp

lemma table_empty: "table_inv m (dt_open None)" "table_content (dt_open None) = (\<lambda>j. None)"
  by (simp_all add: table_inv_def dt_inv_def dt_open_def dt_load_def table_content_def fun_eq_iff)


section \<open>Every call returns\<close>

fun finished :: "tracker_pc \<Rightarrow> bool" where
  "finished (Returned r) = True"
| "finished (LoggedFailure e) = True"
| "finished _ = False"

text \<open>Store accesses a call may still make.\<close>

fun steps_left :: "tracker_pc \<Rightarrow> nat" where
  "steps_left (Start op) = 2 * MAX_CAS_ATTEMPTS + 1"
| "steps_left (Backdate job submitted cas) = 2 * (MAX_CAS_ATTEMPTS - cas) + 2"
| "steps_left (BackdateWrite job submitted cas r nxt) = 2 * (MAX_CAS_ATTEMPTS - cas) + 1"
| "steps_left (Transition job st attempt err cas) = 2 * (MAX_CAS_ATTEMPTS - cas) + 2"
| "steps_left (TransitionWrite job st attempt err cas existing nxt) = 2 * (MAX_CAS_ATTEMPTS - cas) + 1"
| "steps_left (Returned r) = 0"
| "steps_left (LoggedFailure e) = 0"

lemma steps_left_finished: "steps_left pc = 0 \<longleftrightarrow> finished pc"
  by (cases pc) (simp_all add: MAX_CAS_ATTEMPTS_def)

lemma steps_left_decreases:
  "steps_left (snd (tracker_step get put date clk s pc)) \<le> steps_left pc - 1"
  by (cases "(get, put, date, clk, s, pc)" rule: tracker_step.cases)
     (auto simp: MAX_CAS_ATTEMPTS_def Let_def split: sum.splits prod.splits option.splits)

definition own_steps :: "('s \<Rightarrow> string \<Rightarrow> (thrown, jsval) res) \<Rightarrow>
    (jsval \<Rightarrow> dt_write_options \<Rightarrow> 's \<Rightarrow> 's \<times> (thrown, unit) res) \<Rightarrow>
    (string \<Rightarrow> int option) \<Rightarrow> (clock \<times> 's) list \<Rightarrow> tracker_pc \<Rightarrow> tracker_pc" where
  "own_steps get put date seen pc = foldl (\<lambda>pc (clk, s). snd (tracker_step get put date clk s pc)) pc seen"

lemma own_steps_left: "steps_left (own_steps get put date seen pc) \<le> steps_left pc - length seen"
proof (induction seen arbitrary: pc)
  case (Cons x seen)
  obtain clk s where x: "x = (clk, s)" by fastforce
  have "steps_left (own_steps get put date (x # seen) pc)
      \<le> steps_left (snd (tracker_step get put date clk s pc)) - length seen"
    using Cons.IH [of "snd (tracker_step get put date clk s pc)"] by (simp add: own_steps_def x)
  also have "\<dots> \<le> steps_left pc - length (x # seen)"
    using steps_left_decreases [of get put date clk s pc] by simp
  finally show ?case .
qed (simp add: own_steps_def)

text \<open>C39: The retry loops end.  Whatever the other calls do to the store between its steps, and whatever
  reads and writes answer, a call that records a submission or a transition has returned after at
  most eleven steps of its own: the five attempts of a compare-and-swap are never exceeded.\<close>

theorem status_call_returns:
  assumes "11 \<le> length seen"
  shows "finished (own_steps get put date seen (Start op))"
  using own_steps_left [of get put date seen "Start op"] assms
  by (simp add: steps_left_finished [symmetric] MAX_CAS_ATTEMPTS_def)

lemma status_call_returns_witness:
  "finished (own_steps (\<lambda>s j. Inr Null) (\<lambda>v opts s. (s, Inl (conditionalCheckFailed True None))) (\<lambda>_. None)
     (replicate 11 (\<lparr>iso_now = [], epoch_now = 0\<rparr>, ())) (Start (RecordTransition ''j'' Complete 1 None)))"
  by (rule status_call_returns) simp

section \<open>Readers\<close>

text \<open>\<open>JobStatusTracker.get\<close>: the record without the bookkeeping fields.\<close>

definition tracker_get :: "(jsval \<Rightarrow> jsval \<Rightarrow> jsval) \<Rightarrow> dt_table \<Rightarrow> string \<Rightarrow> (thrown, AsyncJobStatus option) res" where
  "tracker_get merge t job =
     bindR (table_get merge t job) (\<lambda>v. Inr (map_option AsyncJobStatus.truncate (status_of_js v)))"

text \<open>\<open>tryRecordTransition\<close> logs what \<open>recordTransition\<close> throws.\<close>

fun tryRecordTransition :: "tracker_pc \<Rightarrow> tracker_pc" where
  "tryRecordTransition (Returned (Some e)) = LoggedFailure e"
| "tryRecordTransition pc = pc"

text \<open>\<open>recordQueuedBatch\<close>: the groups whose writes are in flight together.\<close>

function status_groups :: "'a list \<Rightarrow> 'a list list" where
  "status_groups jobs =
     (if jobs = [] then [] else take STATUS_WRITE_GROUP jobs # status_groups (drop STATUS_WRITE_GROUP jobs))"
  by auto
termination
  by (relation "measure length") (auto simp: STATUS_WRITE_GROUP_def)

declare status_groups.simps [simp del]

lemma status_groups_concat: "concat (status_groups jobs) = jobs"
  by (induction jobs rule: status_groups.induct) (subst status_groups.simps, simp)

lemma status_groups_bound: "g \<in> set (status_groups jobs) \<Longrightarrow> length g \<le> 25"
proof (induction jobs rule: status_groups.induct)
  case (1 jobs)
  then show ?case
    by (cases "jobs = []") (auto simp: status_groups.simps [of "[]"] status_groups.simps [of jobs] STATUS_WRITE_GROUP_def)
qed

definition statusNotTrackedError :: "string \<Rightarrow> thrown" where
  "statusNotTrackedError i = blocksError StatusNotTracked
     (''AsyncJob '' @ [CHR 0x22] @ i @ [CHR 0x22] @ '' is not tracking job status. ''
        @ ''Pass { trackStatus: true } to the AsyncJob constructor to record state transitions.'')"

section \<open>Waiting for the end of a job\<close>

text \<open>\<open>Math.max(1, Math.round(ms * factor))\<close> for the random number \<open>r\<close>.\<close>

definition jitterInterval :: "rat \<Rightarrow> int \<Rightarrow> int" where
  "jitterInterval r ms = max 1 \<lfloor>rat_of_int ms * (1 + (r * 2 - 1) * (1 / 5)) + 1 / 2\<rfloor>"

definition wait_sleep :: "rat \<Rightarrow> int \<Rightarrow> int \<Rightarrow> int \<Rightarrow> int" where
  "wait_sleep r pollInterval deadline now = min (jitterInterval r (max 1 pollInterval)) (max (deadline - now) 0)"

lemma wait_sleep_bounds: "0 \<le> wait_sleep r p deadline now" "now + wait_sleep r p deadline now \<le> max deadline now"
  by (auto simp: wait_sleep_def jitterInterval_def)

text \<open>
  One turn of the loop: the abort reason found at its start, what the read gives, the clock after
  the read, and the abort reason that ends the pause early.
\<close>

record wait_poll =
  poll_aborted :: "thrown option"
  poll_status :: "(thrown, AsyncJobStatus option) res"
  poll_now :: int
  poll_interrupted :: "thrown option"

definition timeout_error :: "string \<Rightarrow> int \<Rightarrow> AsyncJobStatus option \<Rightarrow> thrown" where
  "timeout_error job timeoutMs last_seen = blocksError AsyncJobTimeout
     (''Job '' @ job @ '' did not reach a terminal state within '' @ show_int timeoutMs @ ''ms ''
      @ ''(last observed state: '' @ (case last_seen of None \<Rightarrow> ''unknown'' | Some r \<Rightarrow> state_text (job_state r)) @ '')'')"

fun wait_loop :: "string \<Rightarrow> int \<Rightarrow> int \<Rightarrow> wait_poll list \<Rightarrow> (thrown, AsyncJobStatus) res option" where
  "wait_loop job timeoutMs deadline [] = None"
| "wait_loop job timeoutMs deadline (p # ps) =
     (case poll_aborted p of
        Some e \<Rightarrow> Some (Inl e)
      | None \<Rightarrow>
     (case poll_status p of
        Inl e \<Rightarrow> Some (Inl e)
      | Inr last_seen \<Rightarrow>
     (case (case last_seen of None \<Rightarrow> None | Some r \<Rightarrow> if isTerminal (job_state r) then Some r else None) of
        Some r \<Rightarrow> Some (Inr r)
      | None \<Rightarrow>
          if poll_now p \<ge> deadline then Some (Inl (timeout_error job timeoutMs last_seen))
          else (case poll_interrupted p of
                  Some e \<Rightarrow> Some (Inl e)
                | None \<Rightarrow> wait_loop job timeoutMs deadline ps))))"

definition waitUntilComplete :: "string \<Rightarrow> int option \<Rightarrow> int \<Rightarrow> wait_poll list \<Rightarrow> (thrown, AsyncJobStatus) res option" where
  "waitUntilComplete job timeoutMs now polls =
     wait_loop job (opt_or timeoutMs DEFAULT_TIMEOUT_MS) (now + opt_or timeoutMs DEFAULT_TIMEOUT_MS) polls"

definition terminal_poll :: "wait_poll \<Rightarrow> bool" where
  "terminal_poll p = (\<exists>r. poll_status p = Inr (Some r) \<and> isTerminal (job_state r))"

lemma wait_loop_first:
  assumes "\<forall>p \<in> set polls. poll_aborted p = None \<and> poll_interrupted p = None \<and> (\<exists>x. poll_status p = Inr x)"
  shows "wait_loop job tm deadline polls =
     (case find (\<lambda>p. terminal_poll p \<or> deadline \<le> poll_now p) polls of
        None \<Rightarrow> None
      | Some p \<Rightarrow> (case poll_status p of Inl e \<Rightarrow> Some (Inl e) | Inr x \<Rightarrow>
           Some (if terminal_poll p then Inr (the x) else Inl (timeout_error job tm x))))"
  using assms
proof (induction polls)
  case (Cons p ps)
  then obtain x where p: "poll_aborted p = None" "poll_interrupted p = None" "poll_status p = Inr x" by auto
  show ?case using Cons p by (cases x) (auto simp: terminal_poll_def split: option.splits)
qed simp


definition demo_status :: "AsyncJobState \<Rightarrow> AsyncJobStatus" where
  "demo_status st = \<lparr>jobId = ''j'', job_state = st, transitions = [], attempts = 1, submittedAt = [], updatedAt = [],
     job_error = None\<rparr>"

definition demo_poll :: "AsyncJobState \<Rightarrow> int \<Rightarrow> wait_poll" where
  "demo_poll st now = \<lparr>poll_aborted = None, poll_status = Inr (Some (demo_status st)), poll_now = now, poll_interrupted = None\<rparr>"


definition demo_clock :: clock where
  "demo_clock = \<lparr>iso_now = [], epoch_now = 0\<rparr>"

definition demo_record :: StatusRecord where
  "demo_record = transitioned demo_clock Complete 1 None (queuedRecord demo_clock [] [])"

lemma demo_record_fits: "check_size (status_js demo_record) = Inr ()"
  by (simp add: check_size_def status_js_def demo_record_def transitioned_def queuedRecord_def demo_clock_def
      stringify_def transition_js_def print_str_def esc_char_def char_code_def show_int_def show_nat.simps
      MAX_ITEM_BYTES_def expiresAt_of_def STATUS_RETENTION_SECONDS_def)

lemma reach_single:
  assumes "tracker_reach get put date s0 (s, [(op, pc)])" "tracker_step get put date clk s pc = (s', pc')"
  shows "tracker_reach get put date s0 (s', [(op, pc')])"
  using reach_step [OF assms(1) tracker_sys_step.run [of 0 "[(op, pc)]", OF _ _ assms(2)]] by simp


end
