(* ===== verification/AuthStore.thy ===== *)
theory AuthStore
  imports KvStore
begin

text \<open>
  The interface between \<^verbatim>\<open>packages/bb-auth-basic\<close> and its two \<open>KVStore\<close>s of
  strings.  The auth code is written against a record of the store's operations; three locales say what
  it may rely on: a store whose conditional writes are atomic and whose reads may be stale
  (\<open>cas_store\<close>), one whose reads are current (\<open>consistent_store\<close>), and one that does not fail
  (\<open>reliable_store\<close>).  The local key-value store satisfies all three.
\<close>

record 's store_api =
  store_get :: "int \<Rightarrow> string \<Rightarrow> 's \<Rightarrow> 's \<times> (thrown, jsval) res"
  store_put :: "int \<Rightarrow> string \<Rightarrow> jsval \<Rightarrow> PutOptions \<Rightarrow> 's \<Rightarrow> 's \<times> (thrown, unit) res"
  store_delete :: "string \<Rightarrow> ConditionalDeleteOptions \<Rightarrow> 's \<Rightarrow> 's \<times> (thrown, unit) res"

text \<open>An entry: its string and the second it expires at.\<close>

type_synonym entry = "(string \<times> int option) option"

definition lost_race :: "thrown \<Rightarrow> bool" where
  "lost_race e = isBlocksError e ConditionalCheckFailed"

definition put_allowed :: "entry \<Rightarrow> PutOptions \<Rightarrow> bool" where
  "put_allowed cur opts =
     ((ifNotExists opts \<noteq> Bool True \<and> ifValueEquals opts = Undef)
      \<or> (ifNotExists opts = Bool True \<and> cur = None)
      \<or> (case cur of None \<Rightarrow> False | Some (x, t) \<Rightarrow> ifValueEquals opts = Str x))"

definition delete_allowed :: "entry \<Rightarrow> ConditionalDeleteOptions \<Rightarrow> bool" where
  "delete_allowed cur conds =
     ((truthy (ifExists conds) \<longrightarrow> cur \<noteq> None)
      \<and> (del_ifValueEquals conds = Undef \<or> (case cur of None \<Rightarrow> False | Some (x, t) \<Rightarrow> del_ifValueEquals conds = Str x)))"

definition live :: "int \<Rightarrow> entry \<Rightarrow> jsval" where
  "live now cur = (case cur of None \<Rightarrow> Null | Some (x, t) \<Rightarrow> if isExpired t now then Null else Str x)"

text \<open>A read may drop expired entries.\<close>

definition reaped :: "int \<Rightarrow> (string \<Rightarrow> entry) \<Rightarrow> (string \<Rightarrow> entry) \<Rightarrow> bool" where
  "reaped now f g = (\<forall>k. g k = f k \<or> (g k = None \<and> (\<exists>x t. f k = Some (x, t) \<and> isExpired t now)))"

lemma reaped_refl [simp]: "reaped now f f"
  by (simp add: reaped_def)

lemma reaped_live [simp]: "reaped now f g \<Longrightarrow> now \<le> now' \<Longrightarrow> live now' (g k) = live now' (f k)"
  by (force simp: reaped_def live_def isExpired_def split: option.splits dest: spec [of _ k])

lemma reaped_None: "reaped now f g \<Longrightarrow> f k = None \<Longrightarrow> g k = None"
  by (force simp: reaped_def dest: spec [of _ k])

lemma reaped_Some: "reaped now f g \<Longrightarrow> g k = Some e \<Longrightarrow> f k = Some e"
  by (force simp: reaped_def dest: spec [of _ k])

section \<open>The contracts\<close>

locale cas_store =
  fixes api :: "'s store_api"
    and content :: "'s \<Rightarrow> string \<Rightarrow> entry"
    and inv :: "'s \<Rightarrow> bool"
  assumes get_law: "inv s \<Longrightarrow> store_get api now k s = (s', r) \<Longrightarrow> inv s' \<and> reaped now (content s) (content s')"
    and put_done: "inv s \<Longrightarrow> store_put api now k (Str x) opts s = (s', Inr ()) \<Longrightarrow>
      inv s' \<and> put_allowed (content s k) opts
      \<and> (\<exists>t. resolveTtlEpochSeconds now opts = Inr t \<and> content s' = (content s)(k \<mapsto> (x, t)))"
    and put_failed: "inv s \<Longrightarrow> store_put api now k (Str x) opts s = (s', Inl e) \<Longrightarrow>
      inv s' \<and> content s' = content s \<and> (lost_race e \<longrightarrow> \<not> put_allowed (content s k) opts)"
    and delete_done: "inv s \<Longrightarrow> store_delete api k conds s = (s', Inr ()) \<Longrightarrow>
      inv s' \<and> delete_allowed (content s k) conds \<and> content s' = (content s)(k := None)"
    and delete_failed: "inv s \<Longrightarrow> store_delete api k conds s = (s', Inl e) \<Longrightarrow>
      inv s' \<and> content s' = content s \<and> (lost_race e \<longrightarrow> \<not> delete_allowed (content s k) conds)"

locale consistent_store = cas_store api content inv
  for api :: "'s store_api" and content :: "'s \<Rightarrow> string \<Rightarrow> entry" and inv :: "'s \<Rightarrow> bool" +
  assumes get_reads: "inv s \<Longrightarrow> store_get api now k s = (s', Inr v) \<Longrightarrow> v = live now (content s k)"

locale reliable_store = consistent_store api content inv
  for api :: "'s store_api" and content :: "'s \<Rightarrow> string \<Rightarrow> entry" and inv :: "'s \<Rightarrow> bool" +
  fixes fits :: "string \<Rightarrow> bool"
  assumes get_works: "inv s \<Longrightarrow> snd (store_get api now k s) = Inr (live now (content s k))"
    and put_works: "inv s \<Longrightarrow> fits x \<Longrightarrow> resolveTtlEpochSeconds now opts = Inr t \<Longrightarrow>
      put_allowed (content s k) opts \<Longrightarrow> snd (store_put api now k (Str x) opts s) = Inr ()"
    and put_refuses: "inv s \<Longrightarrow> fits x \<Longrightarrow> resolveTtlEpochSeconds now opts = Inr t \<Longrightarrow>
      \<not> put_allowed (content s k) opts \<Longrightarrow> \<exists>e. lost_race e \<and> snd (store_put api now k (Str x) opts s) = Inl e"
    and delete_works: "inv s \<Longrightarrow> delete_allowed (content s k) conds \<Longrightarrow> snd (store_delete api k conds s) = Inr ()"

context reliable_store begin

lemma get_run:
  assumes "inv s"
  obtains s' where "store_get api now k s = (s', Inr (live now (content s k)))" "inv s'" "reaped now (content s) (content s')"
  using get_works [OF assms, of now k] get_law [OF assms, of now k] by (metis prod.collapse)

lemma put_run:
  assumes "inv s" "fits x" "resolveTtlEpochSeconds now opts = Inr t" "put_allowed (content s k) opts"
  obtains s' where "store_put api now k (Str x) opts s = (s', Inr ())" "inv s'" "content s' = (content s)(k \<mapsto> (x, t))"
  using put_works [OF assms] put_done [OF assms(1), of now k x opts] assms(3) by (metis prod.collapse sum.inject(2))

lemma delete_run:
  assumes "inv s" "delete_allowed (content s k) conds"
  obtains s' where "store_delete api k conds s = (s', Inr ())" "inv s'" "content s' = (content s)(k := None)"
  using delete_works [OF assms] delete_done [OF assms(1), of k conds] by (metis prod.collapse)

end

section \<open>The local key-value store\<close>

definition mock_env :: "(string \<Rightarrow> string) \<Rightarrow> int \<Rightarrow> kv_env" where
  "mock_env syn now = \<lparr>nowEpochSeconds = now, kv_schema = None, syntax_message = syn\<rparr>"

definition mock_store :: "(string \<Rightarrow> string) \<Rightarrow> kv_store store_api" where
  "mock_store syn =
     \<lparr>store_get = (\<lambda>now k s. kv_get (mock_env syn now) k s),
      store_put = (\<lambda>now k v opts s. kv_put (mock_env syn now) k v opts s),
      store_delete = kv_delete\<rparr>"

definition text_of_entry :: "MockEntry \<Rightarrow> string" where
  "text_of_entry e = (case json_parse (me_value e) of Some (Str x) \<Rightarrow> x | _ \<Rightarrow> [])"

definition mock_content :: "kv_store \<Rightarrow> string \<Rightarrow> entry" where
  "mock_content s k = map_option (\<lambda>e. (text_of_entry e, me_ttl e)) (obj_get (kv_data s) k)"

definition mock_inv :: "kv_store \<Rightarrow> bool" where
  "mock_inv s = (\<forall>(k, e) \<in> set (kv_data s). \<exists>x. me_value e = print_json (Str x))"

definition mock_fits :: "string \<Rightarrow> bool" where
  "mock_fits x = (length (print_json (Str x)) \<le> MAX_ITEM_BYTES)"

lemma parse_print_Str [simp]: "json_parse (print_json (Str x)) = Some (Str x)"
  by (rule json_parse_print) simp

lemma print_Str_inj [simp]: "print_json (Str x) = print_json (Str y) \<longleftrightarrow> x = y"
  using parse_print_Str [of x] parse_print_Str [of y] by (metis jsval.inject(3) option.inject)

lemma esc_char_length: "length (esc_char c) \<le> 6"
  by (simp add: esc_char_def Let_def)

lemma print_str_length: "length (print_str s) \<le> 6 * length s + 2"
proof -
  have "length (concat (map esc_char s)) \<le> 6 * length s"
    by (induction s) (use esc_char_length in \<open>auto intro: add_mono\<close>)
  then show ?thesis by (simp add: print_str_def)
qed

lemma mock_fits_short: "length x \<le> 60000 \<Longrightarrow> mock_fits x"
  using print_str_length [of x] by (simp add: mock_fits_def MAX_ITEM_BYTES_def)

lemma stringify_Str [simp]: "stringify (Str x) = Some (print_json (Str x))"
  by (simp add: stringify_def)

lemma mock_inv_get:
  assumes "mock_inv s" "obj_get (kv_data s) k = Some e"
  obtains x where "me_value e = print_json (Str x)" "text_of_entry e = x"
  using assms by (fastforce simp: mock_inv_def text_of_entry_def simp del: print_json.simps dest: obj_get_in_set)

lemma mock_inv_set: "mock_inv s \<Longrightarrow> mock_inv (flushToDisk (s\<lparr>kv_data := obj_set k \<lparr>me_value = print_json (Str x), me_ttl = t\<rparr> (kv_data s)\<rparr>))"
proof -
  assume i: "mock_inv s"
  have "set (obj_set k v d) \<subseteq> insert (k, v) (set d)" for v :: MockEntry and d
    by (induction k v d rule: obj_set.induct) auto
  then show ?thesis using i by (fastforce simp: mock_inv_def simp del: print_json.simps)
qed

lemma mock_inv_del: "mock_inv s \<Longrightarrow> mock_inv (flushToDisk (s\<lparr>kv_data := obj_del k (kv_data s)\<rparr>))"
  by (auto simp: mock_inv_def obj_del_def)

lemma mock_content_set: "mock_content (flushToDisk (s\<lparr>kv_data := obj_set k \<lparr>me_value = print_json (Str x), me_ttl = t\<rparr> (kv_data s)\<rparr>))
    = (mock_content s)(k \<mapsto> (x, t))"
  by (simp add: mock_content_def text_of_entry_def fun_eq_iff del: print_json.simps)

lemma mock_empty [simp]: "mock_inv (kv_open None)" "mock_content (kv_open None) k = None"
  by (simp_all add: mock_inv_def mock_content_def kv_open_def loadFromDisk_def)

lemma mock_content_del: "mock_content (flushToDisk (s\<lparr>kv_data := obj_del k (kv_data s)\<rparr>)) = (mock_content s)(k := None)"
  by (simp add: mock_content_def fun_eq_iff)

lemma mock_get:
  assumes "mock_inv s"
  shows "store_get (mock_store syn) now k s =
    ((if live now (mock_content s k) = Null \<and> mock_content s k \<noteq> None
      then flushToDisk (s\<lparr>kv_data := obj_del k (kv_data s)\<rparr>) else s),
     Inr (live now (mock_content s k)))"
proof (cases "obj_get (kv_data s) k")
  case None
  then show ?thesis by (simp add: mock_store_def kv_get_def mock_content_def live_def)
next
  case (Some e)
  obtain x where x: "me_value e = print_json (Str x)" "text_of_entry e = x" using mock_inv_get [OF assms Some] .
  have p: "parse_entry env (me_value e) = Inr (Str x)" for env
    unfolding parse_entry_def x(1) parse_print_Str by simp
  show ?thesis using x(2)
    by (simp add: mock_store_def kv_get_def mock_content_def live_def Some p mock_env_def del: print_json.simps)
qed

lemma stringify_eq_Str [simp]: "stringify v = Some (print_json (Str x)) \<longleftrightarrow> v = Str x"
proof (cases v)
  case (Num n)
  then show ?thesis using show_int_start [of n] by (auto simp: stringify_def print_str_def is_digit_def char_code_def)
next
  case (Str y)
  then show ?thesis by (simp del: print_json.simps)
next
  case (Bool b)
  then show ?thesis by (cases b) (simp_all add: stringify_def print_str_def)
qed (simp_all add: stringify_def print_str_def)

lemma mock_put_allowed:
  assumes "mock_inv s"
  shows "put_conflict k opts s =
    (if put_allowed (mock_content s k) opts then None else Some (conditionalConflict (ifValueEquals opts \<noteq> Undef)))"
proof (cases "obj_get (kv_data s) k")
  case None
  then show ?thesis by (auto simp: put_conflict_iff put_allowed_def mock_content_def stringify_def)
next
  case (Some e)
  obtain x where x: "me_value e = print_json (Str x)" "text_of_entry e = x" using mock_inv_get [OF assms Some] .
  then have "(Some (me_value e) = stringify (ifValueEquals opts)) = (ifValueEquals opts = Str x)"
    using stringify_eq_Str [of "ifValueEquals opts" x] by (metis)
  then show ?thesis
    using x(2) by (auto simp: put_conflict_iff put_allowed_def mock_content_def Some)
qed

lemma mock_put:
  assumes "mock_inv s"
  shows "store_put (mock_store syn) now k (Str x) opts s =
    (if \<not> mock_fits x then (s, Inl (blocksError ItemTooLarge ''Item size has exceeded the maximum allowed size of 400 KB''))
     else (case resolveTtlEpochSeconds now opts of
        Inl e \<Rightarrow> (s, Inl e)
      | Inr t \<Rightarrow> if put_allowed (mock_content s k) opts
          then (flushToDisk (s\<lparr>kv_data := obj_set k \<lparr>me_value = print_json (Str x), me_ttl = t\<rparr> (kv_data s)\<rparr>), Inr ())
          else (s, Inl (conditionalConflict (ifValueEquals opts \<noteq> Undef)))))"
  using mock_put_allowed [OF assms, of k opts]
  by (auto simp: mock_store_def kv_put_def mock_env_def validateSchema_def mock_fits_def
      simp del: print_json.simps split: sum.splits)

lemma mock_delete:
  assumes "mock_inv s"
  shows "\<exists>r. store_delete (mock_store syn) k conds s =
    (if delete_allowed (mock_content s k) conds
     then (flushToDisk (s\<lparr>kv_data := obj_del k (kv_data s)\<rparr>), Inr ()) else (s, Inl (conditionalConflict r)))"
proof (cases "obj_get (kv_data s) k")
  case None
  then show ?thesis
    by (auto simp: mock_store_def kv_delete_def delete_allowed_def mock_content_def obj_has_get stringify_def Let_def)
next
  case (Some e)
  obtain x where x: "me_value e = print_json (Str x)" "text_of_entry e = x" using mock_inv_get [OF assms Some] .
  then have "(Some (me_value e) = stringify (del_ifValueEquals conds)) = (del_ifValueEquals conds = Str x)"
    using stringify_eq_Str [of "del_ifValueEquals conds" x] by metis
  then show ?thesis
    using x(2) by (auto simp: mock_store_def kv_delete_def delete_allowed_def mock_content_def obj_has_get Some Let_def)
qed

lemma ttl_no_race: "resolveTtlEpochSeconds now opts = Inl e \<Longrightarrow> \<not> lost_race e"
  by (auto simp: resolveTtlEpochSeconds_def lost_race_def invalidTtl_def ConditionalCheckFailed_def ValidationFailed_def
      split: option.splits expiry_arg.splits number_arg.splits if_splits)

lemma conflict_lost_race [simp]: "lost_race (conditionalConflict r)"
  by (simp add: lost_race_def ConditionalCheckFailed_def)

lemma too_large_no_race [simp]: "\<not> lost_race (blocksError ItemTooLarge m)"
  by (simp add: lost_race_def ItemTooLarge_def ConditionalCheckFailed_def)

lemma reaped_drop: "f k = Some (x, t) \<Longrightarrow> isExpired t now \<Longrightarrow> reaped now f (f(k := None))"
  by (simp add: reaped_def)

interpretation mock: reliable_store "mock_store syn" mock_content mock_inv mock_fits
proof unfold_locales
  fix s :: kv_store and now k s' r
  assume i: "mock_inv s" and g: "store_get (mock_store syn) now k s = (s', r)"
  show "mock_inv s' \<and> reaped now (mock_content s) (mock_content s')"
    using g i unfolding mock_get [OF i]
    by (auto simp: mock_inv_del mock_content_del live_def intro: reaped_drop split: if_splits option.splits)
next
  fix s :: kv_store and now k x opts s'
  assume i: "mock_inv s" and p: "store_put (mock_store syn) now k (Str x) opts s = (s', Inr ())"
  show "mock_inv s' \<and> put_allowed (mock_content s k) opts
      \<and> (\<exists>t. resolveTtlEpochSeconds now opts = Inr t \<and> mock_content s' = (mock_content s)(k \<mapsto> (x, t)))"
    using p unfolding mock_put [OF i]
    by (auto simp: mock_inv_set [OF i] mock_content_set simp del: print_json.simps split: if_splits sum.splits)
next
  fix s :: kv_store and now k x opts s' e
  assume i: "mock_inv s" and p: "store_put (mock_store syn) now k (Str x) opts s = (s', Inl e)"
  show "mock_inv s' \<and> mock_content s' = mock_content s \<and> (lost_race e \<longrightarrow> \<not> put_allowed (mock_content s k) opts)"
    using p i ttl_no_race unfolding mock_put [OF i]
    by (auto simp del: print_json.simps split: if_splits sum.splits)
next
  fix s :: kv_store and k conds s'
  assume i: "mock_inv s" and d: "store_delete (mock_store syn) k conds s = (s', Inr ())"
  show "mock_inv s' \<and> delete_allowed (mock_content s k) conds \<and> mock_content s' = (mock_content s)(k := None)"
    using d mock_delete [OF i, of syn k conds] by (auto simp: mock_inv_del [OF i] mock_content_del split: if_splits)
next
  fix s :: kv_store and k conds s' e
  assume i: "mock_inv s" and d: "store_delete (mock_store syn) k conds s = (s', Inl e)"
  show "mock_inv s' \<and> mock_content s' = mock_content s \<and> (lost_race e \<longrightarrow> \<not> delete_allowed (mock_content s k) conds)"
    using d i mock_delete [OF i, of syn k conds] by (auto split: if_splits)
next
  fix s :: kv_store and now k s' v
  assume i: "mock_inv s" and g: "store_get (mock_store syn) now k s = (s', Inr v)"
  show "v = live now (mock_content s k)" using g unfolding mock_get [OF i] by simp
next
  fix s :: kv_store and now k
  assume i: "mock_inv s"
  show "snd (store_get (mock_store syn) now k s) = Inr (live now (mock_content s k))" unfolding mock_get [OF i] by simp
next
  fix s :: kv_store and now k x opts t
  assume i: "mock_inv s" and h: "mock_fits x" "resolveTtlEpochSeconds now opts = Inr t"
  show "put_allowed (mock_content s k) opts \<Longrightarrow> snd (store_put (mock_store syn) now k (Str x) opts s) = Inr ()"
    using h unfolding mock_put [OF i] by simp
  show "\<not> put_allowed (mock_content s k) opts \<Longrightarrow>
    \<exists>e. lost_race e \<and> snd (store_put (mock_store syn) now k (Str x) opts s) = Inl e"
    using h unfolding mock_put [OF i] by auto
next
  fix s :: kv_store and k conds
  assume i: "mock_inv s" "delete_allowed (mock_content s k) conds"
  then show "snd (store_delete (mock_store syn) k conds s) = Inr ()"
    using mock_delete [OF i(1), of syn k conds] by auto
qed

end
