(* ===== verification/AuthCodes.thy ===== *)
theory AuthCodes
  imports AuthStore
begin

text \<open>
  The verification codes of \<^verbatim>\<open>packages/bb-auth-basic/src/index.ts\<close>:
  \<open>generateCode\<close>, \<open>verifyCode\<close> and \<open>deleteCodeIfUnchanged\<close>.  A call of
  \<open>verifyCode\<close> advances one store access at a time, so that any number of calls, issuances and
  other uses of the same store can come in between; \<open>verifyCode\<close> itself is the run of one call
  alone.  The HMAC, the secret and the message of a \<open>SyntaxError\<close> are parameters.
\<close>

section \<open>Rows\<close>

definition CODE_TTL :: int where
  "CODE_TTL = 600"

definition MAX_CODE_ATTEMPTS :: int where
  "MAX_CODE_ATTEMPTS = 5"

definition InvalidCode :: string where
  "InvalidCode = ''InvalidCodeException''"

definition invalid_code :: thrown where
  "invalid_code = new_ApiError ''Invalid or expired code'' (Num 400) (Some InvalidCode) None None"

record code_env =
  hmac_hex :: "string \<Rightarrow> string \<Rightarrow> string"
  secret :: "(thrown, string) res"
  syntax_text :: "string \<Rightarrow> string"

definition code_key :: "string \<Rightarrow> string \<Rightarrow> string" where
  "code_key purpose username = purpose @ '':'' @ username"

definition code_message :: "string \<Rightarrow> string \<Rightarrow> string \<Rightarrow> string" where
  "code_message purpose username code = purpose @ '':'' @ username @ '':'' @ code"

record code_row =
  row_hmac :: string
  row_expires :: int
  row_attempts :: int

definition row_text :: "code_row \<Rightarrow> string" where
  "row_text r = print_json (Obj [(''hmac'', Str (row_hmac r)), (''expires'', Num (row_expires r)),
     (''attempts'', Num (row_attempts r))])"

text \<open>\<open>JSON.parse\<close> of a row, at its declared type; the count of an old row is absent.\<close>

definition read_row :: "string \<Rightarrow> code_row option" where
  "read_row raw =
     (case json_parse raw of
        None \<Rightarrow> None
      | Some v \<Rightarrow>
          (case (get_prop v ''hmac'', get_prop v ''expires'', get_prop v ''attempts'') of
             (Str h, Num e, Num n) \<Rightarrow> Some \<lparr>row_hmac = h, row_expires = e, row_attempts = n\<rparr>
           | (Str h, Num e, Undef) \<Rightarrow> Some \<lparr>row_hmac = h, row_expires = e, row_attempts = 0\<rparr>
           | _ \<Rightarrow> None))"

definition bad_row :: "'a code_env_scheme \<Rightarrow> string \<Rightarrow> thrown" where
  "bad_row env raw = set_err_name ''SyntaxError'' (new_Error (syntax_text env raw))"

definition put_until :: "int \<Rightarrow> PutOptions" where
  "put_until t = no_put_options\<lparr>expiresAt := Some (ExpiryNumber (Finite (rat_of_int t) (show_int t)))\<rparr>"

section \<open>Issuing a code\<close>

text \<open>\<open>n\<close> is the number \<open>crypto.randomInt\<close> gives, \<open>now\<close> the clock in milliseconds.\<close>

definition generateCode :: "'s store_api \<Rightarrow> 'a code_env_scheme \<Rightarrow> int \<Rightarrow> nat \<Rightarrow> string \<Rightarrow> string \<Rightarrow> 's \<Rightarrow>
    's \<times> (thrown, string) res" where
  "generateCode api env now n purpose username s =
     (case secret env of
        Inl e \<Rightarrow> (s, Inl e)
      | Inr sec \<Rightarrow>
          let code = show_nat n;
              row = \<lparr>row_hmac = hmac_hex env sec (code_message purpose username code),
                     row_expires = now + CODE_TTL * 1000, row_attempts = 0\<rparr> in
          (case store_put api (now div 1000) (code_key purpose username) (Str (row_text row))
                  (put_until (now div 1000 + CODE_TTL)) s of
             (s', Inl e) \<Rightarrow> (s', Inl e)
           | (s', Inr _) \<Rightarrow> (s', Inr code)))"

section \<open>Verifying a code\<close>

text \<open>Where a call stands: before its read; before the delete of a row that is spent; before the
  write that reserves an attempt; before the comparison; before the delete that consumes the row; before
  the read after a lost delete; or returned.\<close>

datatype code_pc =
    CodeStart string string string
  | CodeSpent string string string
  | CodeReserve string string string string code_row
  | CodeReserved string string string code_row
  | CodeDelete string string string string string
  | CodeReread string string string string
  | CodeReturned "thrown option"

definition if_unchanged :: "string \<Rightarrow> ConditionalDeleteOptions" where
  "if_unchanged raw = no_delete_options\<lparr>del_ifValueEquals := Str raw\<rparr>"

definition deleteCodeIfUnchanged :: "'s store_api \<Rightarrow> string \<Rightarrow> string \<Rightarrow> 's \<Rightarrow> 's \<times> (thrown, unit) res" where
  "deleteCodeIfUnchanged api key expected s =
     (case store_delete api key (if_unchanged expected) s of
        (s', Inr _) \<Rightarrow> (s', Inr ())
      | (s', Inl e) \<Rightarrow> (s', if lost_race e then Inr () else Inl e))"

definition reserved_row :: "code_row \<Rightarrow> code_row" where
  "reserved_row r = r\<lparr>row_attempts := row_attempts r + 1\<rparr>"

fun verify_step :: "'s store_api \<Rightarrow> 'a code_env_scheme \<Rightarrow> int \<Rightarrow> 's \<Rightarrow> code_pc \<Rightarrow> 's \<times> code_pc" where
  "verify_step api env now s (CodeStart p u c) =
     (case store_get api (now div 1000) (code_key p u) s of
        (s', Inl e) \<Rightarrow> (s', CodeReturned (Some e))
      | (s', Inr v) \<Rightarrow>
          (if \<not> truthy v then (s', CodeReturned (Some invalid_code))
           else (let raw = (case v of Str x \<Rightarrow> x | _ \<Rightarrow> []) in
             (case read_row raw of
                None \<Rightarrow> (s', CodeReturned (Some (bad_row env raw)))
              | Some r \<Rightarrow>
                  if now > row_expires r \<or> row_attempts r \<ge> MAX_CODE_ATTEMPTS then (s', CodeSpent p u raw)
                  else (s', CodeReserve p u c raw r)))))"
| "verify_step api env now s (CodeSpent p u raw) =
     (case deleteCodeIfUnchanged api (code_key p u) raw s of
        (s', Inl e) \<Rightarrow> (s', CodeReturned (Some e))
      | (s', Inr _) \<Rightarrow> (s', CodeReturned (Some invalid_code)))"
| "verify_step api env now s (CodeReserve p u c raw r) =
     (case store_put api (now div 1000) (code_key p u) (Str (row_text (reserved_row r)))
             ((put_until (row_expires r div 1000))\<lparr>ifValueEquals := Str raw\<rparr>) s of
        (s', Inr _) \<Rightarrow> (s', CodeReserved p u c (reserved_row r))
      | (s', Inl e) \<Rightarrow> (s', CodeReturned (Some (if lost_race e then invalid_code else e))))"
| "verify_step api env now s (CodeReserved p u c r) =
     (case secret env of
        Inl e \<Rightarrow> (s, CodeReturned (Some e))
      | Inr sec \<Rightarrow>
          if \<not> constantTimeEquals (row_hmac r) (hmac_hex env sec (code_message p u c))
          then (s, CodeReturned (Some invalid_code))
          else (s, CodeDelete p u c (row_hmac r) (row_text r)))"
| "verify_step api env now s (CodeDelete p u c h current) =
     (case store_delete api (code_key p u) (if_unchanged current) s of
        (s', Inr _) \<Rightarrow> (s', CodeReturned None)
      | (s', Inl e) \<Rightarrow> (s', if lost_race e then CodeReread p u c h else CodeReturned (Some e)))"
| "verify_step api env now s (CodeReread p u c h) =
     (case store_get api (now div 1000) (code_key p u) s of
        (s', Inl e) \<Rightarrow> (s', CodeReturned (Some e))
      | (s', Inr v) \<Rightarrow>
          (if \<not> truthy v then (s', CodeReturned (Some invalid_code))
           else (let raw = (case v of Str x \<Rightarrow> x | _ \<Rightarrow> []) in
             (case read_row raw of
                None \<Rightarrow> (s', CodeReturned (Some (bad_row env raw)))
              | Some r \<Rightarrow>
                  if row_hmac r \<noteq> h then (s', CodeReturned (Some invalid_code))
                  else (s', CodeDelete p u c h raw)))))"
| "verify_step api env now s (CodeReturned r) = (s, CodeReturned r)"

text \<open>A call that runs alone; \<open>None\<close> would be a call that has not returned after the given steps.\<close>

fun run_code :: "nat \<Rightarrow> 's store_api \<Rightarrow> 'a code_env_scheme \<Rightarrow> int \<Rightarrow> 's \<Rightarrow> code_pc \<Rightarrow> ('s \<times> (thrown, unit) res) option" where
  "run_code n api env now s (CodeReturned r) = Some (s, case r of None \<Rightarrow> Inr () | Some e \<Rightarrow> Inl e)"
| "run_code 0 api env now s pc = None"
| "run_code (Suc n) api env now s pc = (case verify_step api env now s pc of (s', pc') \<Rightarrow> run_code n api env now s' pc')"

definition verifyCode :: "'s store_api \<Rightarrow> 'a code_env_scheme \<Rightarrow> int \<Rightarrow> string \<Rightarrow> string \<Rightarrow> string \<Rightarrow> 's \<Rightarrow>
    ('s \<times> (thrown, unit) res) option" where
  "verifyCode api env now purpose username code s = run_code 4 api env now s (CodeStart purpose username code)"

section \<open>Rows and their texts\<close>

lemma read_row_text [simp]: "read_row (row_text r) = Some r"
proof -
  let ?v = "Obj [(''hmac'', Str (row_hmac r)), (''expires'', Num (row_expires r)), (''attempts'', Num (row_attempts r))]"
  have "json_parse (print_json ?v) = Some ?v" by (rule json_parse_print) simp
  then show ?thesis by (simp add: read_row_def row_text_def del: print_json.simps)
qed

lemma resolve_put_until [simp]:
  "ttlSeconds opts = None \<Longrightarrow> expiresAt opts = expiresAt (put_until t) \<Longrightarrow> rat_of_int t < MAX_PLAUSIBLE_EPOCH_SECONDS \<Longrightarrow>
     resolveTtlEpochSeconds now opts = Inr (Some t)"
  by (simp add: resolveTtlEpochSeconds_def put_until_def)

lemma put_until_sel [simp]:
  "ifNotExists (put_until t) = Undef" "ifValueEquals (put_until t) = Undef" "ttlSeconds (put_until t) = None"
  by (simp_all add: put_until_def no_put_options_def)

lemma if_unchanged_allowed [simp]: "delete_allowed cur (if_unchanged raw) \<longleftrightarrow> (\<exists>t. cur = Some (raw, t))"
  by (auto simp: delete_allowed_def if_unchanged_def no_delete_options_def split: option.splits)

lemma put_unchanged_allowed [simp]:
  "put_allowed cur ((put_until t)\<lparr>ifValueEquals := Str raw\<rparr>) \<longleftrightarrow> (\<exists>t. cur = Some (raw, t))"
  by (auto simp: put_allowed_def split: option.splits)

lemma put_until_allowed [simp]: "put_allowed cur (put_until t)"
  by (simp add: put_allowed_def)

section \<open>Many calls at once\<close>

text \<open>
  The store with every call made so far.  Codes are numbered per key in the order they are issued;
  \<open>cs_guesses\<close> records for each reserved attempt (the only way to a comparison) the key and the
  number of the code current at that moment, and \<open>cs_uses\<close> the same for each call that succeeded.
\<close>

record 's code_sys =
  cs_store :: 's
  cs_calls :: "code_pc list"
  cs_issued :: "string \<Rightarrow> nat"
  cs_guesses :: "(string \<times> nat) list"
  cs_uses :: "(string \<times> nat) list"

definition code_purpose :: "string \<Rightarrow> bool" where
  "code_purpose p = (p = ''signup'' \<or> p = ''reset'')"

definition is_code_key :: "string \<Rightarrow> bool" where
  "is_code_key k = (\<exists>p u. code_purpose p \<and> k = code_key p u)"

definition log_guess :: "code_pc \<Rightarrow> code_pc \<Rightarrow> (string \<Rightarrow> nat) \<Rightarrow> (string \<times> nat) list" where
  "log_guess pc pc' issued =
     (case (pc, pc') of
        (CodeReserve p u c raw r, CodeReserved _ _ _ _) \<Rightarrow> [(code_key p u, issued (code_key p u))]
      | _ \<Rightarrow> [])"

definition log_use :: "code_pc \<Rightarrow> code_pc \<Rightarrow> (string \<Rightarrow> nat) \<Rightarrow> (string \<times> nat) list" where
  "log_use pc pc' issued =
     (case (pc, pc') of
        (CodeDelete p u c h cur, CodeReturned None) \<Rightarrow> [(code_key p u, issued (code_key p u))]
      | _ \<Rightarrow> [])"

inductive code_sys_step :: "'s store_api \<Rightarrow> 'a code_env_scheme \<Rightarrow> 's code_sys \<Rightarrow> 's code_sys \<Rightarrow> bool" for api env where
  issue: "code_purpose p \<Longrightarrow> generateCode api env now n p u (cs_store y) = (s', Inr c) \<Longrightarrow>
    code_sys_step api env y (y\<lparr>cs_store := s', cs_issued := (cs_issued y)(code_key p u := Suc (cs_issued y (code_key p u)))\<rparr>)"
| issue_failed: "code_purpose p \<Longrightarrow> generateCode api env now n p u (cs_store y) = (s', Inl e) \<Longrightarrow>
    code_sys_step api env y (y\<lparr>cs_store := s'\<rparr>)"
| call: "code_purpose p \<Longrightarrow> code_sys_step api env y (y\<lparr>cs_calls := cs_calls y @ [CodeStart p u c]\<rparr>)"
| run: "i < length (cs_calls y) \<Longrightarrow> cs_calls y ! i = pc \<Longrightarrow> verify_step api env now (cs_store y) pc = (s', pc') \<Longrightarrow>
    code_sys_step api env y (y\<lparr>cs_store := s', cs_calls := (cs_calls y)[i := pc'],
      cs_guesses := log_guess pc pc' (cs_issued y) @ cs_guesses y, cs_uses := log_use pc pc' (cs_issued y) @ cs_uses y\<rparr>)"
| other_get: "store_get api now k (cs_store y) = (s', r) \<Longrightarrow> code_sys_step api env y (y\<lparr>cs_store := s'\<rparr>)"
| other_put: "\<not> is_code_key k \<Longrightarrow> store_put api now k (Str x) opts (cs_store y) = (s', r') \<Longrightarrow>
    code_sys_step api env y (y\<lparr>cs_store := s'\<rparr>)"
| other_delete: "\<not> is_code_key k \<Longrightarrow> store_delete api k conds (cs_store y) = (s', r') \<Longrightarrow>
    code_sys_step api env y (y\<lparr>cs_store := s'\<rparr>)"

inductive code_sys_reach :: "'s store_api \<Rightarrow> 'a code_env_scheme \<Rightarrow> 's \<Rightarrow> 's code_sys \<Rightarrow> bool" for api env s where
  code_start: "code_sys_reach api env s
    \<lparr>cs_store = s, cs_calls = [], cs_issued = (\<lambda>k. 0), cs_guesses = [], cs_uses = []\<rparr>"
| code_more: "code_sys_reach api env s y \<Longrightarrow> code_sys_step api env y z \<Longrightarrow> code_sys_reach api env s z"

text \<open>What each call knows when it stands somewhere.\<close>

fun call_knows :: "'a code_env_scheme \<Rightarrow> code_pc \<Rightarrow> bool" where
  "call_knows env (CodeStart p u c) = code_purpose p"
| "call_knows env (CodeSpent p u raw) = code_purpose p"
| "call_knows env (CodeReserve p u c raw r) =
     (code_purpose p \<and> read_row raw = Some r \<and> row_attempts r < MAX_CODE_ATTEMPTS)"
| "call_knows env (CodeReserved p u c r) = code_purpose p"
| "call_knows env (CodeDelete p u c h cur) =
     (code_purpose p \<and> (\<exists>sec r. secret env = Inr sec \<and> h = hmac_hex env sec (code_message p u c)
        \<and> read_row cur = Some r \<and> row_hmac r = h))"
| "call_knows env (CodeReread p u c h) =
     (code_purpose p \<and> (\<exists>sec. secret env = Inr sec \<and> h = hmac_hex env sec (code_message p u c)))"
| "call_knows env (CodeReturned r) = True"

lemma verify_step_knows: "call_knows env pc \<Longrightarrow> verify_step api env now s pc = (s', pc') \<Longrightarrow> call_knows env pc'"
  by (cases pc) (auto split: prod.splits sum.splits if_splits option.splits simp: Let_def)

text \<open>The codes of one key: its row, the number of its current code, and how many guesses and uses the
  codes have had.\<close>

definition key_ok :: "entry \<Rightarrow> nat \<Rightarrow> (nat \<Rightarrow> nat) \<Rightarrow> (nat \<Rightarrow> nat) \<Rightarrow> bool" where
  "key_ok row current guesses uses =
     ((\<forall>i. guesses i \<le> 5 \<and> uses i \<le> 1 \<and> (current < i \<longrightarrow> guesses i = 0 \<and> uses i = 0))
      \<and> (case row of None \<Rightarrow> True | Some (raw, t) \<Rightarrow>
           uses current = 0 \<and> (\<forall>r. read_row raw = Some r \<longrightarrow> int (guesses current) \<le> row_attempts r)))"

lemma key_ok_dropped: "key_ok row n g v \<Longrightarrow> key_ok None n g v"
  by (simp add: key_ok_def)

lemma key_ok_issued: "key_ok row n g v \<Longrightarrow> row_attempts r = 0 \<Longrightarrow> key_ok (Some (row_text r, t)) (Suc n) g v"
  by (auto simp: key_ok_def)

lemma key_ok_reserved:
  "key_ok (Some (raw, t)) n g v \<Longrightarrow> read_row raw = Some r \<Longrightarrow> row_attempts r < MAX_CODE_ATTEMPTS \<Longrightarrow>
   key_ok (Some (row_text (reserved_row r), t')) n (g(n := Suc (g n))) v"
  by (auto simp: key_ok_def reserved_row_def MAX_CODE_ATTEMPTS_def)

lemma key_ok_used: "key_ok (Some (raw, t)) n g v \<Longrightarrow> key_ok None n g (v(n := Suc (v n)))"
  by (auto simp: key_ok_def)

lemma key_ok_read: "(row' = row \<or> row' = None) \<Longrightarrow> key_ok row n g v \<Longrightarrow> key_ok row' n g v"
  using key_ok_dropped by blast

definition tally :: "(string \<times> nat) list \<Rightarrow> string \<Rightarrow> nat \<Rightarrow> nat" where
  "tally l k i = count_list l (k, i)"

lemma tally_Nil [simp]: "tally [] = (\<lambda>k i. 0)"
  by (simp add: tally_def fun_eq_iff)

lemma tally_Cons: "tally ((k, i) # l) k' = (if k' = k then (tally l k)(i := Suc (tally l k i)) else tally l k')"
  by (auto simp: tally_def fun_eq_iff)

context cas_store begin

definition sys_ok :: "'a code_env_scheme \<Rightarrow> 's code_sys \<Rightarrow> bool" where
  "sys_ok env y = (inv (cs_store y) \<and> (\<forall>pc \<in> set (cs_calls y). call_knows env pc)
     \<and> (\<forall>k. is_code_key k \<longrightarrow>
          key_ok (content (cs_store y) k) (cs_issued y k) (tally (cs_guesses y) k) (tally (cs_uses y) k)))"

lemma put_cas:
  assumes "inv s" "store_put api now k (Str x) ((put_until t)\<lparr>ifValueEquals := Str raw\<rparr>) s = (s', Inr ())"
  obtains t0 t' where "inv s'" "content s k = Some (raw, t0)" "content s' = (content s)(k \<mapsto> (x, t'))"
  using put_done [OF assms] that by auto

lemma delete_cas:
  assumes "inv s" "store_delete api k (if_unchanged raw) s = (s', Inr ())"
  obtains t where "inv s'" "content s k = Some (raw, t)" "content s' = (content s)(k := None)"
  using delete_done [OF assms] that by auto

lemma get_keeps:
  assumes "inv s" "store_get api now k s = (s', r)" "key_ok (content s k') n g v"
  shows "key_ok (content s' k') n g v"
  using get_law [OF assms(1,2)] assms(3) by (auto simp: reaped_def intro: key_ok_read dest: spec [of _ k'])

text \<open>What a step of a call does to the keys.\<close>

lemma verify_step_keys:
  assumes "inv s" "call_knows env pc" "verify_step api env now s pc = (s', pc')"
    and "\<And>k. is_code_key k \<Longrightarrow> key_ok (content s k) (n k) (tally g k) (tally v k)"
  shows "inv s' \<and> (\<forall>k. is_code_key k \<longrightarrow> key_ok (content s' k) (n k) (tally (log_guess pc pc' n @ g) k) (tally (log_use pc pc' n @ v) k))"
proof (cases pc)
  case (CodeStart p u c)
  obtain r where g: "store_get api (now div 1000) (code_key p u) s = (s', r)"
    and "log_guess pc pc' n = []" "log_use pc pc' n = []"
    using assms(3) CodeStart
    by (auto simp: log_guess_def log_use_def Let_def split: prod.splits sum.splits option.splits if_splits)
  then show ?thesis using get_keeps [OF assms(1) g] get_law [OF assms(1) g] assms(4) by simp
next
  case (CodeSpent p u raw)
  obtain r where d: "store_delete api (code_key p u) (if_unchanged raw) s = (s', r)"
    and l: "log_guess pc pc' n = []" "log_use pc pc' n = []"
    using assms(3) CodeSpent
    by (auto simp: log_guess_def log_use_def deleteCodeIfUnchanged_def split: prod.splits sum.splits if_splits)
  show ?thesis
  proof (cases r)
    case (Inl e)
    then show ?thesis using delete_failed [OF assms(1) d [unfolded Inl]] assms(4) l by simp
  next
    case (Inr x)
    then show ?thesis using delete_done [OF assms(1)] d assms(4) l by (auto intro: key_ok_dropped [OF assms(4)])
  qed
next
  case (CodeReserve p u c raw r)
  let ?k = "code_key p u"
  obtain q where q: "store_put api (now div 1000) ?k (Str (row_text (reserved_row r)))
      ((put_until (row_expires r div 1000))\<lparr>ifValueEquals := Str raw\<rparr>) s = (s', q)"
    by (cases "store_put api (now div 1000) ?k (Str (row_text (reserved_row r)))
      ((put_until (row_expires r div 1000))\<lparr>ifValueEquals := Str raw\<rparr>) s") (use assms(3) CodeReserve in \<open>auto split: sum.splits\<close>)
  show ?thesis
  proof (cases q)
    case (Inl e)
    then have "log_guess pc pc' n = []" "log_use pc pc' n = []"
      using assms(3) CodeReserve q by (auto simp: log_guess_def log_use_def)
    then show ?thesis using put_failed [OF assms(1) q [unfolded Inl]] assms(4) by simp
  next
    case (Inr x)
    then have l: "log_guess pc pc' n = [(?k, n ?k)]" "log_use pc pc' n = []"
      using assms(3) CodeReserve q by (auto simp: log_guess_def log_use_def)
    from q Inr obtain t t' where t: "content s ?k = Some (raw, t)" "content s' = (content s)(?k \<mapsto> (row_text (reserved_row r), t'))" "inv s'"
      using put_cas [OF assms(1)] by (metis (full_types) old.unit.exhaust)
    have k: "is_code_key ?k" using assms(2) CodeReserve by (auto simp: is_code_key_def)
    have "key_ok (Some (row_text (reserved_row r), t')) (n ?k) ((tally g ?k)(n ?k := Suc (tally g ?k (n ?k)))) (tally v ?k)"
      using assms(2) assms(4) [OF k] CodeReserve t(1) by (auto intro: key_ok_reserved)
    then show ?thesis using assms(4) t(2,3) l by (simp add: tally_Cons)
  qed
next
  case (CodeDelete p u c h cur)
  let ?k = "code_key p u"
  obtain r where d: "store_delete api ?k (if_unchanged cur) s = (s', r)"
    using assms(3) CodeDelete by (auto split: prod.splits sum.splits)
  show ?thesis
  proof (cases r)
    case (Inl e)
    then have "log_guess pc pc' n = []" "log_use pc pc' n = []"
      using assms(3) CodeDelete d by (auto simp: log_guess_def log_use_def)
    then show ?thesis using delete_failed [OF assms(1) d [unfolded Inl]] assms(4) by simp
  next
    case (Inr x)
    then have l: "log_guess pc pc' n = []" "log_use pc pc' n = [(?k, n ?k)]"
      using assms(3) CodeDelete d by (auto simp: log_guess_def log_use_def)
    from d Inr obtain t where t: "content s ?k = Some (cur, t)" "content s' = (content s)(?k := None)" "inv s'"
      using delete_cas [OF assms(1)] by (metis (full_types) old.unit.exhaust)
    have k: "is_code_key ?k" using assms(2) CodeDelete by (auto simp: is_code_key_def)
    have "key_ok None (n ?k) (tally g ?k) ((tally v ?k)(n ?k := Suc (tally v ?k (n ?k))))"
      using assms(4) [OF k] t(1) key_ok_used by simp
    then show ?thesis using assms(4) t(2,3) l by (simp add: tally_Cons)
  qed
next
  case (CodeReread p u c h)
  obtain r where g: "store_get api (now div 1000) (code_key p u) s = (s', r)"
    and "log_guess pc pc' n = []" "log_use pc pc' n = []"
    using assms(3) CodeReread
    by (auto simp: log_guess_def log_use_def Let_def split: prod.splits sum.splits option.splits if_splits)
  then show ?thesis using get_keeps [OF assms(1) g] get_law [OF assms(1) g] assms(4) by simp
qed (use assms in \<open>auto simp: log_guess_def log_use_def Let_def split: sum.splits if_splits\<close>)

lemma generate_keeps:
  assumes "inv s" "generateCode api env now n p u s = (s', r)"
  shows "inv s' \<and> (case r of Inl e \<Rightarrow> content s' = content s
    | Inr c \<Rightarrow> \<exists>row t sec. secret env = Inr sec \<and> row_attempts row = 0 \<and> row_expires row = now + CODE_TTL * 1000
        \<and> row_hmac row = hmac_hex env sec (code_message p u c)
        \<and> content s' = (content s)(code_key p u \<mapsto> (row_text row, t)))"
proof (cases "secret env")
  case (Inl e)
  then have "s' = s \<and> r = Inl e" using assms(2) by (simp add: generateCode_def)
  then show ?thesis using assms(1) by simp
next
  case (Inr sec)
  let ?row = "\<lparr>row_hmac = hmac_hex env sec (code_message p u (show_nat n)),
    row_expires = now + CODE_TTL * 1000, row_attempts = 0\<rparr>"
  let ?put = "store_put api (now div 1000) (code_key p u) (Str (row_text ?row)) (put_until (now div 1000 + CODE_TTL)) s"
  obtain q where q: "?put = (s', q)"
    by (cases ?put) (use assms(2) Inr in \<open>auto simp: generateCode_def Let_def split: sum.splits\<close>)
  show ?thesis
  proof (cases q)
    case (Inl e)
    have "r = Inl e" using assms(2) q Inl \<open>secret env = Inr sec\<close> by (simp add: generateCode_def Let_def)
    then show ?thesis using put_failed [OF assms(1) q [unfolded Inl]] by simp
  next
    case (Inr x)
    then have r: "r = Inr (show_nat n)" using assms(2) q \<open>secret env = Inr sec\<close> by (simp add: generateCode_def Let_def)
    obtain t where "content s' = (content s)(code_key p u \<mapsto> (row_text ?row, t))" "inv s'"
      using put_done [OF assms(1)] q Inr by fastforce
    then show ?thesis using r \<open>secret env = Inr sec\<close> by (auto intro!: exI [of _ ?row])
  qed
qed

lemma code_sys_step_ok:
  assumes "code_sys_step api env y z" "sys_ok env y"
  shows "sys_ok env z"
  using assms(1)
proof cases
  case (issue p now n u s' c)
  have i: "inv (cs_store y)" using assms(2) by (simp add: sys_ok_def)
  obtain row t where row: "row_attempts row = 0" "content s' = (content (cs_store y))(code_key p u \<mapsto> (row_text row, t))" "inv s'"
    using generate_keeps [OF i issue(3)] by auto
  have "is_code_key (code_key p u)" using issue(2) by (auto simp: is_code_key_def)
  then have "key_ok (Some (row_text row, t)) (Suc (cs_issued y (code_key p u)))
      (tally (cs_guesses y) (code_key p u)) (tally (cs_uses y) (code_key p u))"
    using assms(2) by (intro key_ok_issued [OF _ row(1)]) (auto simp: sys_ok_def)
  then show ?thesis using assms(2) row issue(1) by (simp add: sys_ok_def)
next
  case (issue_failed p now n u s' e)
  then show ?thesis using assms(2) generate_keeps [of "cs_store y"] by (fastforce simp: sys_ok_def)
next
  case (call p u c)
  then show ?thesis using assms(2) by (simp add: sys_ok_def)
next
  case (run i pc now s' pc')
  have k: "inv (cs_store y)" "call_knows env pc" using assms(2) run by (auto simp: sys_ok_def)
  have "call_knows env pc'" using verify_step_knows [OF k(2) run(4)] .
  then have calls: "\<forall>c \<in> set ((cs_calls y)[i := pc']). call_knows env c"
    using assms(2) set_update_subset_insert [of "cs_calls y" i pc'] by (auto simp: sys_ok_def)
  show ?thesis using verify_step_keys [OF k run(4), of "cs_issued y" "cs_guesses y" "cs_uses y"] assms(2) calls run(1)
    by (simp add: sys_ok_def)
next
  case (other_get now k s' r)
  have i: "inv (cs_store y)" using assms(2) by (simp add: sys_ok_def)
  show ?thesis using get_law [OF i other_get(2)] get_keeps [OF i other_get(2)] assms(2) other_get(1) by (simp add: sys_ok_def)
next
  case (other_put k now x opts s' r')
  have i: "inv (cs_store y)" using assms(2) by (simp add: sys_ok_def)
  have "inv s' \<and> (\<forall>k'. k' \<noteq> k \<longrightarrow> content s' k' = content (cs_store y) k')"
    using put_done [OF i] put_failed [OF i] other_put(3) by (cases r') fastforce+
  then show ?thesis using assms(2) other_put(1,2) by (auto simp: sys_ok_def)
next
  case (other_delete k conds s' r')
  have i: "inv (cs_store y)" using assms(2) by (simp add: sys_ok_def)
  have "inv s' \<and> (\<forall>k'. k' \<noteq> k \<longrightarrow> content s' k' = content (cs_store y) k')"
    using delete_done [OF i] delete_failed [OF i] other_delete(3) by (cases r') fastforce+
  then show ?thesis using assms(2) other_delete(1,2) by (auto simp: sys_ok_def)
qed

text \<open>A store whose rows have not counted anything yet.\<close>

definition fresh_rows :: "'s \<Rightarrow> bool" where
  "fresh_rows s = (inv s \<and> (\<forall>k raw t r. is_code_key k \<and> content s k = Some (raw, t) \<and> read_row raw = Some r \<longrightarrow> 0 \<le> row_attempts r))"

lemma code_sys_ok:
  assumes "code_sys_reach api env s y" "fresh_rows s"
  shows "sys_ok env y"
  using assms
proof (induction rule: code_sys_reach.induct)
  case code_start
  then show ?case by (auto simp: sys_ok_def fresh_rows_def key_ok_def split: option.split)
next
  case (code_more y z)
  then show ?case using code_sys_step_ok by blast
qed

lemma guess_limit:
  assumes "code_sys_reach api env s y" "fresh_rows s" "is_code_key k"
  shows "tally (cs_guesses y) k i \<le> 5" "tally (cs_uses y) k i \<le> 1"
  using code_sys_ok [OF assms(1,2)] assms(3) by (auto simp: sys_ok_def key_ok_def)

text \<open>A call that succeeds finds the code it was given in the row it deletes.\<close>

lemma success_is_right:
  assumes "code_sys_reach api env s y" "fresh_rows s" "i < length (cs_calls y)" "cs_calls y ! i = CodeDelete p u c h cur"
    and "verify_step api env now (cs_store y) (cs_calls y ! i) = (s', CodeReturned None)"
  shows "(\<exists>sec r t. secret env = Inr sec \<and> content (cs_store y) (code_key p u) = Some (cur, t) \<and> read_row cur = Some r
       \<and> row_hmac r = hmac_hex env sec (code_message p u c))
     \<and> content s' (code_key p u) = None"
proof -
  have ok: "inv (cs_store y)" "call_knows env (CodeDelete p u c h cur)"
    using code_sys_ok [OF assms(1,2)] assms(3,4) nth_mem [OF assms(3)] by (auto simp: sys_ok_def simp del: call_knows.simps)
  have d: "store_delete api (code_key p u) (if_unchanged cur) (cs_store y) = (s', Inr ())"
    using assms(4,5) by (auto split: prod.splits sum.splits if_splits)
  show ?thesis using delete_done [OF ok(1) d] ok(2) by auto
qed

text \<open>A call that runs alone returns: it drops expired entries at most, and changes its own key.\<close>

definition only_key :: "int \<Rightarrow> string \<Rightarrow> 's \<Rightarrow> 's \<Rightarrow> bool" where
  "only_key now key s s' = (inv s' \<and> (\<exists>f x. reaped now (content s) f \<and> content s' = f(key := x)))"

lemma only_key_same: "inv s' \<Longrightarrow> reaped now (content s) (content s') \<Longrightarrow> only_key now key s s'"
  unfolding only_key_def by (metis fun_upd_triv)

lemma only_key_set: "only_key now key s s' \<Longrightarrow> inv s'' \<Longrightarrow> content s'' = (content s')(key := x) \<Longrightarrow> only_key now key s s''"
  unfolding only_key_def by (metis fun_upd_upd)

lemma run_delete:
  assumes "inv s" "content s (code_key p u) = Some (cur, t)"
  shows "\<exists>s' r. run_code (Suc n) api env now s (CodeDelete p u c h cur) = Some (s', r)
    \<and> inv s' \<and> (\<exists>x. content s' = (content s)(code_key p u := x))"
proof -
  obtain s' r where d: "store_delete api (code_key p u) (if_unchanged cur) s = (s', r)" by fastforce
  show ?thesis
  proof (cases r)
    case (Inl e)
    have "inv s'" "content s' = content s" "\<not> lost_race e"
      using delete_failed [OF assms(1) d [unfolded Inl]] assms(2) by auto
    then show ?thesis using d Inl by (auto intro!: exI [of _ "content s (code_key p u)"])
  next
    case (Inr x)
    then show ?thesis using delete_done [OF assms(1)] d by auto
  qed
qed

lemma run_reserve:
  assumes "inv s"
  shows "\<exists>s' r'. run_code 3 api env now s (CodeReserve p u c raw r) = Some (s', r')
    \<and> inv s' \<and> (\<exists>x. content s' = (content s)(code_key p u := x))"
proof -
  let ?put = "store_put api (now div 1000) (code_key p u) (Str (row_text (reserved_row r)))
    ((put_until (row_expires r div 1000))\<lparr>ifValueEquals := Str raw\<rparr>) s"
  obtain s1 q where q: "?put = (s1, q)" by fastforce
  show ?thesis
  proof (cases q)
    case (Inl e)
    then show ?thesis using put_failed [OF assms q [unfolded Inl]] q
      by (auto simp: numeral_3_eq_3 intro!: exI [of _ "content s (code_key p u)"])
  next
    case (Inr x)
    from q Inr obtain t where t: "inv s1" "content s1 = (content s)(code_key p u \<mapsto> (row_text (reserved_row r), t))"
      using put_cas [OF assms] by (metis (full_types) old.unit.exhaust)
    then have k: "content s1 (code_key p u) = Some (row_text (reserved_row r), t)" by simp
    obtain pc where pc: "verify_step api env now s1 (CodeReserved p u c (reserved_row r)) = (s1, pc)"
      and cases: "(\<exists>z. pc = CodeReturned z) \<or> (\<exists>h. pc = CodeDelete p u c h (row_text (reserved_row r)))"
      by (cases "secret env"; cases "\<exists>sec. secret env = Inr sec \<and> row_hmac (reserved_row r) = hmac_hex env sec (code_message p u c)") auto
    have step: "run_code 3 api env now s (CodeReserve p u c raw r) = run_code 1 api env now s1 pc"
      using q Inr pc by (simp add: numeral_3_eq_3 del: verify_step.simps(4))
    from cases show ?thesis
    proof
      assume "\<exists>z. pc = CodeReturned z"
      then show ?thesis using step t by auto
    next
      assume "\<exists>h. pc = CodeDelete p u c h (row_text (reserved_row r))"
      then obtain h where h: "pc = CodeDelete p u c h (row_text (reserved_row r))" by blast
      obtain s2 r2 x where "run_code (Suc 0) api env now s1 pc = Some (s2, r2)" "inv s2" "content s2 = (content s1)(code_key p u := x)"
        using run_delete [OF t(1) k, of 0 env now c h] h by blast
      then show ?thesis using step t(2) by auto
    qed
  qed
qed

lemma verify_start:
  assumes "store_get api (now div 1000) (code_key p u) s = (s1, q)"
  shows "\<exists>pc. verify_step api env now s (CodeStart p u c) = (s1, pc)
    \<and> ((\<exists>z. pc = CodeReturned z) \<or> (\<exists>raw. pc = CodeSpent p u raw) \<or> (\<exists>raw r. pc = CodeReserve p u c raw r))"
proof (cases q)
  case (Inr v)
  then show ?thesis using assms by (cases "read_row (case v of Str x \<Rightarrow> x | _ \<Rightarrow> [])") (simp_all add: Let_def)
qed (use assms in simp)

lemma verifyCode_returns:
  assumes "inv s"
  shows "\<exists>s' r. verifyCode api env now p u c s = Some (s', r) \<and> only_key (now div 1000) (code_key p u) s s'"
proof -
  obtain s1 q where g: "store_get api (now div 1000) (code_key p u) s = (s1, q)" by fastforce
  have s1: "inv s1" "reaped (now div 1000) (content s) (content s1)" using get_law [OF assms g] by auto
  obtain pc where pc: "verify_step api env now s (CodeStart p u c) = (s1, pc)"
    and "(\<exists>z. pc = CodeReturned z) \<or> (\<exists>raw. pc = CodeSpent p u raw) \<or> (\<exists>raw r. pc = CodeReserve p u c raw r)"
    using verify_start [OF g] by blast
  note this(2)
  moreover have "verifyCode api env now p u c s = run_code 3 api env now s1 pc"
    using pc by (simp add: verifyCode_def numeral_3_eq_3 eval_nat_numeral del: verify_step.simps)
  moreover have "\<exists>s' r. run_code 3 api env now s1 (CodeSpent p u raw) = Some (s', r) \<and> only_key (now div 1000) (code_key p u) s s'" for raw
  proof -
    obtain s2 z where d: "store_delete api (code_key p u) (if_unchanged raw) s1 = (s2, z)" by fastforce
    have "inv s2 \<and> (\<exists>x. content s2 = (content s1)(code_key p u := x))"
    proof (cases z)
      case (Inl e)
      then show ?thesis using delete_failed [OF s1(1) d [unfolded Inl]] by (auto intro!: exI [of _ "content s1 (code_key p u)"])
    next
      case (Inr x)
      then show ?thesis using delete_done [OF s1(1)] d by auto
    qed
    then have "only_key (now div 1000) (code_key p u) s s2" using s1(2) by (auto simp: only_key_def)
    then show ?thesis using d by (cases z) (auto simp: numeral_3_eq_3 deleteCodeIfUnchanged_def split: if_splits)
  qed
  moreover have "\<exists>s' r'. run_code 3 api env now s1 (CodeReserve p u c raw r) = Some (s', r') \<and> only_key (now div 1000) (code_key p u) s s'" for raw r
    using run_reserve [OF s1(1), of env now p u c raw r] s1(2) by (auto simp: only_key_def)
  moreover have "only_key (now div 1000) (code_key p u) s s1" using s1 by (rule only_key_same)
  ultimately show ?thesis by auto
qed

end

context reliable_store begin

text \<open>The right code, in time and undisturbed, is accepted.\<close>

lemma right_code_steps:
  assumes "inv s" "content s (code_key p u) = Some (row_text r, t)" "\<not> isExpired t (now div 1000)"
    and "now \<le> row_expires r" "row_attempts r < MAX_CODE_ATTEMPTS" "secret env = Inr sec"
    and "row_hmac r = hmac_hex env sec (code_message p u c)"
    and "fits (row_text (reserved_row r))" "rat_of_int (row_expires r div 1000) < MAX_PLAUSIBLE_EPOCH_SECONDS"
  obtains s1 s2 s3 where "verify_step api env now s (CodeStart p u c) = (s1, CodeReserve p u c (row_text r) r)"
    and "verify_step api env now s1 (CodeReserve p u c (row_text r) r) = (s2, CodeReserved p u c (reserved_row r))"
    and "verify_step api env now s2 (CodeReserved p u c (reserved_row r)) =
        (s2, CodeDelete p u c (row_hmac r) (row_text (reserved_row r)))"
    and "verify_step api env now s2 (CodeDelete p u c (row_hmac r) (row_text (reserved_row r))) = (s3, CodeReturned None)"
    and "only_key (now div 1000) (code_key p u) s s3" "content s3 (code_key p u) = None"
proof -
  let ?k = "code_key p u"
  obtain s1 where s1: "store_get api (now div 1000) ?k s = (s1, Inr (live (now div 1000) (content s ?k)))"
      "inv s1" "reaped (now div 1000) (content s) (content s1)" using get_run [OF assms(1)] .
  have raw: "live (now div 1000) (content s ?k) = Str (row_text r)" using assms(2,3) by (simp add: live_def)
  have k1: "content s1 ?k = Some (row_text r, t)"
    using s1(3) assms(2,3) by (auto simp: reaped_def dest: spec [of _ ?k])
  have "row_text r \<noteq> []" by (simp add: row_text_def)
  then have start: "verify_step api env now s (CodeStart p u c) = (s1, CodeReserve p u c (row_text r) r)"
    using s1(1) raw assms(4,5) by simp
  have allowed: "put_allowed (content s1 ?k) ((put_until (row_expires r div 1000))\<lparr>ifValueEquals := Str (row_text r)\<rparr>)"
    using k1 by simp
  have ttl: "resolveTtlEpochSeconds (now div 1000) ((put_until (row_expires r div 1000))\<lparr>ifValueEquals := Str (row_text r)\<rparr>)
      = Inr (Some (row_expires r div 1000))" using assms(9) by (intro resolve_put_until) simp_all
  obtain s2 where s2: "store_put api (now div 1000) ?k (Str (row_text (reserved_row r)))
        ((put_until (row_expires r div 1000))\<lparr>ifValueEquals := Str (row_text r)\<rparr>) s1 = (s2, Inr ())"
      "inv s2" "content s2 = (content s1)(?k \<mapsto> (row_text (reserved_row r), Some (row_expires r div 1000)))"
    using put_run [OF s1(2) assms(8) ttl allowed] .
  have "delete_allowed (content s2 ?k) (if_unchanged (row_text (reserved_row r)))" using s2(3) by simp
  then obtain s3 where s3: "store_delete api ?k (if_unchanged (row_text (reserved_row r))) s2 = (s3, Inr ())"
      "inv s3" "content s3 = (content s2)(?k := None)" using delete_run [OF s2(2)] by blast
  have "only_key (now div 1000) ?k s s3"
    using only_key_set [OF only_key_set [OF only_key_same [OF s1(2,3)] s2(2,3)] s3(2,3)] .
  moreover have "verify_step api env now s1 (CodeReserve p u c (row_text r) r) = (s2, CodeReserved p u c (reserved_row r))"
    using s2(1) by simp
  moreover have "verify_step api env now s2 (CodeReserved p u c (reserved_row r)) =
      (s2, CodeDelete p u c (row_hmac r) (row_text (reserved_row r)))"
    using assms(6,7) by (simp add: reserved_row_def)
  moreover have "verify_step api env now s2 (CodeDelete p u c (row_hmac r) (row_text (reserved_row r))) = (s3, CodeReturned None)"
    using s3(1) by simp
  ultimately show ?thesis using that start s3(3) by simp
qed

lemma verifyCode_right:
  assumes "inv s" "content s (code_key p u) = Some (row_text r, t)" "\<not> isExpired t (now div 1000)"
    and "now \<le> row_expires r" "row_attempts r < MAX_CODE_ATTEMPTS" "secret env = Inr sec"
    and "row_hmac r = hmac_hex env sec (code_message p u c)"
    and "fits (row_text (reserved_row r))" "rat_of_int (row_expires r div 1000) < MAX_PLAUSIBLE_EPOCH_SECONDS"
  obtains s' where "verifyCode api env now p u c s = Some (s', Inr ())" "only_key (now div 1000) (code_key p u) s s'"
    and "content s' (code_key p u) = None"
proof -
  obtain s1 s2 s3 where st: "verify_step api env now s (CodeStart p u c) = (s1, CodeReserve p u c (row_text r) r)"
    "verify_step api env now s1 (CodeReserve p u c (row_text r) r) = (s2, CodeReserved p u c (reserved_row r))"
    "verify_step api env now s2 (CodeReserved p u c (reserved_row r)) =
        (s2, CodeDelete p u c (row_hmac r) (row_text (reserved_row r)))"
    "verify_step api env now s2 (CodeDelete p u c (row_hmac r) (row_text (reserved_row r))) = (s3, CodeReturned None)"
    "only_key (now div 1000) (code_key p u) s s3" "content s3 (code_key p u) = None"
    using right_code_steps [OF assms] .
  have "verifyCode api env now p u c s = Some (s3, Inr ())"
    by (simp add: verifyCode_def st(1-4) numeral_eq_Suc del: verify_step.simps)
  then show ?thesis using that st(5,6) by blast
qed

end

section \<open>Limits, for the local store\<close>

lemma mock_fresh: "mock_inv s \<Longrightarrow> (\<And>k. is_code_key k \<Longrightarrow> mock_content s k = None) \<Longrightarrow> mock.fresh_rows s"
  unfolding mock.fresh_rows_def by (metis option.distinct(1))


text \<open>Runs of the system, as functions.\<close>

definition sys_start :: "'s \<Rightarrow> 's code_sys" where
  "sys_start s = \<lparr>cs_store = s, cs_calls = [], cs_issued = (\<lambda>k. 0), cs_guesses = [], cs_uses = []\<rparr>"

definition sys_issue :: "'s store_api \<Rightarrow> 'a code_env_scheme \<Rightarrow> int \<Rightarrow> nat \<Rightarrow> string \<Rightarrow> 's code_sys \<Rightarrow> 's code_sys" where
  "sys_issue api env now n u y =
     (case generateCode api env now n ''reset'' u (cs_store y) of
        (s', Inr c) \<Rightarrow> y\<lparr>cs_store := s', cs_issued := (cs_issued y)(code_key ''reset'' u := Suc (cs_issued y (code_key ''reset'' u)))\<rparr>
      | (s', Inl e) \<Rightarrow> y\<lparr>cs_store := s'\<rparr>)"

definition sys_call :: "string \<Rightarrow> string \<Rightarrow> 's code_sys \<Rightarrow> 's code_sys" where
  "sys_call u c y = y\<lparr>cs_calls := cs_calls y @ [CodeStart ''reset'' u c]\<rparr>"

definition sys_run :: "'s store_api \<Rightarrow> 'a code_env_scheme \<Rightarrow> int \<Rightarrow> nat \<Rightarrow> 's code_sys \<Rightarrow> 's code_sys" where
  "sys_run api env now i y =
     (if i < length (cs_calls y) then
        (case verify_step api env now (cs_store y) (cs_calls y ! i) of (s', pc') \<Rightarrow>
           y\<lparr>cs_store := s', cs_calls := (cs_calls y)[i := pc'],
             cs_guesses := log_guess (cs_calls y ! i) pc' (cs_issued y) @ cs_guesses y,
             cs_uses := log_use (cs_calls y ! i) pc' (cs_issued y) @ cs_uses y\<rparr>)
      else y)"

lemma sys_reach:
  "code_sys_reach api env s (sys_start s)"
  "code_sys_reach api env s y \<Longrightarrow> code_sys_reach api env s (sys_issue api env now n u y)"
  "code_sys_reach api env s y \<Longrightarrow> code_sys_reach api env s (sys_call u c y)"
  "code_sys_reach api env s y \<Longrightarrow> code_sys_reach api env s (sys_run api env now i y)"
proof -
  show "code_sys_reach api env s (sys_start s)" unfolding sys_start_def by (rule code_start)
  assume y: "code_sys_reach api env s y"
  have p: "code_purpose ''reset''" by (simp add: code_purpose_def)
  show "code_sys_reach api env s (sys_issue api env now n u y)"
    by (auto simp: sys_issue_def split: prod.split sum.split
        intro: code_more [OF y code_sys_step.issue [OF p]] code_more [OF y code_sys_step.issue_failed [OF p]])
  show "code_sys_reach api env s (sys_call u c y)"
    unfolding sys_call_def by (rule code_more [OF y code_sys_step.call [OF p]])
  show "code_sys_reach api env s (sys_run api env now i y)"
    by (auto simp: sys_run_def y split: prod.split intro: code_more [OF y code_sys_step.run])
qed

definition demo_code_env :: code_env where
  "demo_code_env = \<lparr>hmac_hex = (\<lambda>k m. k @ m), secret = Inr ''k'', syntax_text = (\<lambda>s. s)\<rparr>"

text \<open>A wrong guess at the code 123456, then a right one up to the delete that consumes the row.\<close>

definition demo_guesses :: "kv_store code_sys" where
  "demo_guesses =
     (let api = mock_store (\<lambda>s. s); run = sys_run api demo_code_env 1000;
          y0 = sys_issue api demo_code_env 0 123456 ''bob'' (sys_start (kv_open None));
          y1 = sys_call ''bob'' ''123456'' (sys_call ''bob'' ''999999'' y0) in
      run 1 (run 1 (run 1 (run 0 (run 0 (run 0 y1))))))"

lemma demo_guesses_reach: "code_sys_reach (mock_store (\<lambda>s. s)) demo_code_env (kv_open None) demo_guesses"
  unfolding demo_guesses_def Let_def by (intro sys_reach)



lemma row_text_length:
  "length (row_text r) \<le> 40 + 6 * length (row_hmac r) + length (show_int (row_expires r)) + length (show_int (row_attempts r))"
  using print_str_length [of "row_hmac r"] by (simp add: row_text_def print_str_def esc_char_def char_code_def)


end
