(* ===== verification/RuntimeConfig.thy ===== *)
theory RuntimeConfig
  imports KvStore
begin

text \<open>
  \<^verbatim>\<open>packages/core/src/common/config.ts\<close> and \<^verbatim>\<open>runtime-guard.ts\<close>: the
  configuration file a deployed process reads once from S3, and what the process is told to be.  The
  module state is the cache and whether a load is in flight; the environment variables are passed in.
  A load is two steps, the start of the fetch and its end, so that other calls may come in between.
  What S3 answers is a parameter.  Keys are own properties: a key that names a member of
  \<open>Object.prototype\<close> is outside the model.
\<close>

section \<open>Module state\<close>

type_synonym process_env = "(string \<times> string) list"

record config_module =
  configCache :: jsval
  configLoadPromise :: bool

definition resetConfigCache :: config_module where
  "resetConfigCache = \<lparr>configCache = Null, configLoadPromise = False\<rparr>"

definition BLOCKS_CONFIG_BUCKET :: string where
  "BLOCKS_CONFIG_BUCKET = ''BLOCKS_CONFIG_BUCKET''"

definition BLOCKS_CONFIG_KEY :: string where
  "BLOCKS_CONFIG_KEY = ''BLOCKS_CONFIG_KEY''"

text \<open>The truthy value of an environment variable.\<close>

definition env_set :: "process_env \<Rightarrow> string \<Rightarrow> string option" where
  "env_set env k = (case obj_get env k of Some (c # s) \<Rightarrow> Some (c # s) | _ \<Rightarrow> None)"

section \<open>Loading\<close>

text \<open>What a fetch ends with: the text of the file, or an error (is it "not found", its message).\<close>

datatype fetch_outcome = Body string | FetchFailed bool string

definition defaultS3Fetcher :: "string option + bool \<times> string \<Rightarrow> fetch_outcome" where
  "defaultS3Fetcher response =
     (case response of
        Inr (not_found, message) \<Rightarrow> FetchFailed not_found message
      | Inl body \<Rightarrow>
          (case body of
             None \<Rightarrow> FetchFailed False ''Empty config file''
           | Some s \<Rightarrow> if s = [] then FetchFailed False ''Empty config file'' else Body s))"

text \<open>How a call of \<open>ensureConfigLoaded\<close> begins.\<close>

datatype load_start = Resolved jsval | Joined | Fetching string string

definition ensureConfigLoaded :: "process_env \<Rightarrow> config_module \<Rightarrow> config_module \<times> load_start" where
  "ensureConfigLoaded env m =
     (if truthy (configCache m) then (m, Resolved (configCache m))
      else if configLoadPromise m then (m, Joined)
      else (case (env_set env BLOCKS_CONFIG_BUCKET, env_set env BLOCKS_CONFIG_KEY) of
        (Some bucket, Some key) \<Rightarrow> (m\<lparr>configLoadPromise := True\<rparr>, Fetching bucket key)
      | _ \<Rightarrow> (m\<lparr>configCache := Obj []\<rparr>, Resolved (Obj []))))"

definition load_failed :: "string \<Rightarrow> string \<Rightarrow> string \<Rightarrow> thrown" where
  "load_failed bucket key msg =
     new_Error (''[Blocks] Failed to load config from S3 ('' @ bucket @ ''/'' @ key @ ''): '' @ msg)"

definition not_an_object :: thrown where
  "not_an_object = new_Error ''[Blocks] Config file must be a JSON object''"

text \<open>
  The rest of \<open>loadConfigFromS3\<close> once the fetch has ended, and what every call that waits for it
  gets; \<open>syn\<close> is the message of the engine's \<open>SyntaxError\<close>.
\<close>

definition loadConfigFromS3 :: "(string \<Rightarrow> string) \<Rightarrow> string \<Rightarrow> string \<Rightarrow> fetch_outcome \<Rightarrow> config_module \<Rightarrow>
    config_module \<times> (thrown, jsval) res" where
  "loadConfigFromS3 syn bucket key outcome m =
     (case outcome of
        FetchFailed not_found message \<Rightarrow>
          (m\<lparr>configLoadPromise := False\<rparr>,
           if not_found then Inr (Obj []) else Inl (load_failed bucket key message))
      | Body body \<Rightarrow>
          (case json_parse body of
             None \<Rightarrow> (m\<lparr>configLoadPromise := False\<rparr>, Inl (load_failed bucket key (syn body)))
           | Some v \<Rightarrow>
               (\<lparr>configCache = v, configLoadPromise = False\<rparr>,
                case v of Obj _ \<Rightarrow> Inr v | _ \<Rightarrow> Inl not_an_object)))"

section \<open>Reading\<close>

definition getConfig :: "process_env \<Rightarrow> jsval \<Rightarrow> string \<Rightarrow> jsval" where
  "getConfig env config key =
     (case obj_get env key of
        Some v \<Rightarrow> Str v
      | None \<Rightarrow> nullish_or (get_prop config key) (Str []))"

definition getConfigSync :: "process_env \<Rightarrow> config_module \<Rightarrow> string \<Rightarrow> jsval" where
  "getConfigSync env m key =
     (case obj_get env key of
        Some v \<Rightarrow> Str v
      | None \<Rightarrow> if truthy (configCache m) then nullish_or (get_prop (configCache m) key) (Str []) else Str [])"

definition getCachedConfigValue :: "config_module \<Rightarrow> string \<Rightarrow> string option" where
  "getCachedConfigValue m key =
     (case configCache m of
        Obj ps \<Rightarrow> map_option js_to_string (obj_get ps key)
      | _ \<Rightarrow> None)"

definition isConfigResolved :: "config_module \<Rightarrow> bool" where
  "isConfigResolved m = (configCache m \<noteq> Null)"

text \<open>The variables after the configuration has been copied into them, and the names reported.\<close>

fun inject_entries :: "process_env \<Rightarrow> (string \<times> jsval) list \<Rightarrow> process_env \<times> string list" where
  "inject_entries env [] = (env, [])"
| "inject_entries env ((key, v) # es) =
     (case obj_get env key of
        None \<Rightarrow> inject_entries (obj_set key (js_to_string v) env) es
      | Some existing \<Rightarrow>
          (case inject_entries env es of (env', shadowed) \<Rightarrow>
             (env', if existing \<noteq> js_to_string v then key # shadowed else shadowed)))"

definition shadow_warning :: "string list \<Rightarrow> string" where
  "shadow_warning ks =
     ''[Blocks config] Ignored '' @ show_nat (length ks) @ '' config entr'' @ (if length ks = 1 then ''y'' else ''ies'')
     @ '' because an environment variable of the same name is already set ''
     @ ''(environment variables take precedence over registerConfig): '' @ join '', '' ks"

definition loadConfigToProcessEnv :: "process_env \<Rightarrow> jsval \<Rightarrow> process_env \<times> string option" where
  "loadConfigToProcessEnv env config =
     (case inject_entries env (opt_or (object_entries config) []) of
        (env', shadowed) \<Rightarrow> (env', if shadowed = [] then None else Some (shadow_warning shadowed)))"

definition sanitizeConfigKey :: "string \<Rightarrow> string" where
  "sanitizeConfigKey ident =
     map (\<lambda>c. if (65 \<le> char_code c \<and> char_code c \<le> 90) \<or> is_digit c then c else CHR ''_'') (to_upper ident)"

section \<open>The deployment type\<close>

datatype DeploymentType = Local | Sandbox | Production

definition isDeployedEnv :: "process_env \<Rightarrow> bool" where
  "isDeployedEnv env = (env_set env BLOCKS_CONFIG_BUCKET \<noteq> None \<and> env_set env BLOCKS_CONFIG_KEY \<noteq> None)"

definition getDeploymentType :: "process_env \<Rightarrow> config_module \<Rightarrow> DeploymentType" where
  "getDeploymentType env m =
     (let deployed = isDeployedEnv env;
          v = (if deployed then getCachedConfigValue m ''BLOCKS_DEPLOYMENT_TYPE''
               else obj_get env ''BLOCKS_DEPLOYMENT_TYPE'') in
      if v = Some ''sandbox'' then Sandbox
      else if v = Some ''production'' then Production
      else if deployed then Production else Local)"

definition mock_loaded :: "string \<Rightarrow> thrown" where
  "mock_loaded bbName =
     new_Error (''A Building Block mock entry (first detected: '' @ bbName @ '') was loaded in a deployed environment.''
       @ [CHR 10, CHR 10]
       @ ''This artifact was bundled without the `aws-runtime` export condition, so module resolution ''
       @ ''fell back to the `default` (mock) entries. Every Building Block resolved this way runs an ''
       @ ''in-memory stub instead of the real AWS-backed implementation; the one named above is just the ''
       @ ''first whose guard ran.'' @ [CHR 10, CHR 10]
       @ ''Fix: resolve the aws-runtime condition, e.g.'' @ [CHR 10]
       @ ''  esbuild --conditions=aws-runtime ...'' @ [CHR 10]
       @ ''  or conditions: ['' @ [CHR 0x27] @ ''aws-runtime'' @ [CHR 0x27] @ '', '' @ [CHR 0x27] @ ''module'' @ [CHR 0x27]
       @ ''] in esbuild build() options'' @ [CHR 10]
       @ ''  or, for unbundled Node, node --conditions=aws-runtime ... / NODE_OPTIONS=--conditions=aws-runtime''
       @ [CHR 10, CHR 10]
       @ ''See https://github.com/aws-devtools-labs/aws-blocks/blob/main/docs/guides/extending-with-existing-aws-resources.md'')"

definition assertNotMockInDeployedEnv :: "process_env \<Rightarrow> string \<Rightarrow> (thrown, unit) res" where
  "assertNotMockInDeployedEnv env bbName = (if isDeployedEnv env then Inl (mock_loaded bbName) else Inr ())"

section \<open>One fetch at a time\<close>

text \<open>
  The module with the fetches in flight and the number started so far.  Any call may come at any
  time, in any environment.
\<close>

inductive config_step :: "(string \<Rightarrow> string) \<Rightarrow> config_module \<times> nat \<times> nat \<Rightarrow> config_module \<times> nat \<times> nat \<Rightarrow> bool" for syn where
  begin_fetch: "ensureConfigLoaded env m = (m', Fetching b k) \<Longrightarrow> config_step syn (m, i, n) (m', Suc i, Suc n)"
| begin_ready: "ensureConfigLoaded env m = (m', Resolved v) \<Longrightarrow> config_step syn (m, i, n) (m', i, n)"
| begin_joined: "ensureConfigLoaded env m = (m', Joined) \<Longrightarrow> config_step syn (m, i, n) (m', i, n)"
| end_fetch: "i > 0 \<Longrightarrow> loadConfigFromS3 syn b k outcome m = (m', r) \<Longrightarrow> config_step syn (m, i, n) (m', i - 1, n)"

inductive_cases config_stepE: "config_step syn (m, i, n) y"

inductive config_reach :: "(string \<Rightarrow> string) \<Rightarrow> config_module \<times> nat \<times> nat \<Rightarrow> config_module \<times> nat \<times> nat \<Rightarrow> bool"
  for syn x where
  reach_start: "config_reach syn x x"
| reach_step: "config_reach syn x y \<Longrightarrow> config_step syn y z \<Longrightarrow> config_reach syn x z"

lemma ensure_cases:
  "ensureConfigLoaded env m = (m', r) \<Longrightarrow>
     (r = Resolved (configCache m) \<and> m' = m \<and> truthy (configCache m))
   \<or> (r = Joined \<and> m' = m \<and> configLoadPromise m)
   \<or> ((\<exists>b k. r = Fetching b k) \<and> m' = m\<lparr>configLoadPromise := True\<rparr> \<and> \<not> configLoadPromise m \<and> \<not> truthy (configCache m))
   \<or> (r = Resolved (Obj []) \<and> m' = m\<lparr>configCache := Obj []\<rparr> \<and> \<not> configLoadPromise m \<and> \<not> truthy (configCache m))"
  by (auto simp: ensureConfigLoaded_def split: if_splits option.splits)

lemma load_promise: "loadConfigFromS3 syn b k outcome m = (m', r) \<Longrightarrow> \<not> configLoadPromise m'"
  by (auto simp: loadConfigFromS3_def split: fetch_outcome.splits option.splits)

lemma load_keeps_cache:
  "truthy (configCache m) \<Longrightarrow> \<not> configLoadPromise m \<Longrightarrow> config_step syn (m, 0, n) y \<Longrightarrow> y = (m, 0, n)"
  by (erule config_stepE) (auto dest!: ensure_cases)

lemma config_inflight:
  "config_reach syn (resetConfigCache, 0, 0) y \<Longrightarrow>
   fst (snd y) = (if configLoadPromise (fst y) then 1 else 0)"
proof (induction rule: config_reach.induct)
  case (reach_step y z)
  obtain m i n where y: "y = (m, i, n)" using prod_cases3 by blast
  have i: "i = (if configLoadPromise m then 1 else 0)" using reach_step.IH y by simp
  have "config_step syn (m, i, n) z" using reach_step.hyps(2) y by simp
  then show ?case
    by (rule config_stepE) (use i in \<open>auto dest!: ensure_cases dest: load_promise split: if_splits\<close>)
qed (simp add: resetConfigCache_def)

lemma config_reach_cached:
  "config_reach syn x y \<Longrightarrow> x = (m, 0, n) \<Longrightarrow> truthy (configCache m) \<Longrightarrow> \<not> configLoadPromise m \<Longrightarrow> y = x"
  by (induction rule: config_reach.induct) (auto dest: load_keeps_cache)

text \<open>One load at a time, and only until one succeeds: whatever calls and fetches interleave, in
  whatever environments, at most one fetch is in flight, namely when the module holds its promise; and
  once a configuration is cached and no fetch is in flight, no call changes the module or starts a
  fetch ever again.\<close>

theorem config_single_fetch:
  assumes "config_reach syn (resetConfigCache, 0, 0) (m, i, n)"
  shows "i \<le> 1 \<and> (i = 1 \<longleftrightarrow> configLoadPromise m)
    \<and> (truthy (configCache m) \<and> i = 0 \<longrightarrow> (\<forall>y. config_reach syn (m, i, n) y \<longrightarrow> y = (m, i, n)))"
proof -
  have i: "i = (if configLoadPromise m then 1 else 0)" using config_inflight [OF assms] by simp
  then show ?thesis using config_reach_cached [of syn "(m, 0, n)" _ m n] by auto
qed

lemma config_single_fetch_witness:
  "let m = \<lparr>configCache = Obj [(''K'', Str ''v'')], configLoadPromise = False\<rparr> in
   (1::nat) \<le> 1 \<and> (\<forall>y. config_reach (\<lambda>_. []) (m, 0, 1) y \<longrightarrow> y = (m, 0, 1))"
proof -
  let ?env = "[(BLOCKS_CONFIG_BUCKET, ''b''), (BLOCKS_CONFIG_KEY, ''k'')]"
  let ?loading = "\<lparr>configCache = Null, configLoadPromise = True\<rparr>"
  let ?v = "Obj [(''K'', Str ''v'')]"
  let ?m = "\<lparr>configCache = ?v, configLoadPromise = False\<rparr>"
  have "config_step (\<lambda>_. []) (resetConfigCache, 0, 0) (?loading, Suc 0, Suc 0)"
    by (rule config_step.begin_fetch [of ?env _ _ "''b''" "''k''"])
      code_simp
  moreover have "config_step (\<lambda>_. []) (?loading, Suc 0, Suc 0) (?m, Suc 0 - 1, Suc 0)"
    by (rule config_step.end_fetch [of _ _ "''b''" "''k''" "Body (print_json ?v)" _ _ "Inr ?v"])
      (simp_all only: loadConfigFromS3_def fetch_outcome.case, simp_all add: json_parse_print del: print_json.simps)
  ultimately have r: "config_reach (\<lambda>_. []) (resetConfigCache, 0, 0) (?m, 0, 1)"
    using config_reach.reach_step [OF config_reach.reach_step [OF config_reach.reach_start]] by fastforce
  show ?thesis using config_single_fetch [OF r] by simp
qed

text \<open>A configuration file that is no JSON object is refused only once: the load that reads it
  fails, but the value stays in the cache, so every later call succeeds with it and no call or fetch
  ever replaces it.\<close>

theorem config_bad_file_kept:
  assumes "json_parse body = Some v" "truthy v" "\<And>ps. v \<noteq> Obj ps"
    and "loadConfigFromS3 syn b k (Body body) m = (m', r)"
  shows "r = Inl not_an_object
    \<and> (\<forall>env. ensureConfigLoaded env m' = (m', Resolved v)) \<and> isConfigResolved m'
    \<and> (\<forall>y. config_reach syn (m', 0, n) y \<longrightarrow> y = (m', 0, n))"
proof -
  have m': "m' = \<lparr>configCache = v, configLoadPromise = False\<rparr>" and r: "r = Inl not_an_object"
    using assms by (auto simp: loadConfigFromS3_def split: jsval.splits)
  have "v \<noteq> Null" using assms(2) by auto
  then show ?thesis using m' r assms(2) config_reach_cached [of syn "(m', 0, n)" _ m' n]
    by (auto simp: ensureConfigLoaded_def isConfigResolved_def)
qed

lemma config_bad_file_kept_witness:
  "snd (loadConfigFromS3 (\<lambda>_. []) ''b'' ''k'' (Body ''[1]'') resetConfigCache) = Inl not_an_object
   \<and> isConfigResolved (fst (loadConfigFromS3 (\<lambda>_. []) ''b'' ''k'' (Body ''[1]'') resetConfigCache))"
proof -
  have p: "json_parse ''[1]'' = Some (Arr [Num 1])" by code_simp
  show ?thesis
    using config_bad_file_kept [of "''[1]''" "Arr [Num 1]" "\<lambda>_. []" "''b''" "''k''" resetConfigCache, OF p _ _ prod.collapse [symmetric]]
    by simp
qed

section \<open>Copying into the environment\<close>

lemma obj_get_None_iff: "obj_get ps k = None \<longleftrightarrow> k \<notin> fst ` set ps"
  by (simp add: obj_get_def map_of_eq_None_iff)

lemma inject_entries_get:
  "distinct (map fst es) \<Longrightarrow> obj_get (fst (inject_entries env es)) k =
     (case obj_get env k of Some v \<Rightarrow> Some v | None \<Rightarrow> map_option js_to_string (obj_get es k))"
proof (induction env es rule: inject_entries.induct)
  case (2 env key v es)
  have fresh: "obj_get es key = None" using 2(3) by (simp add: obj_get_None_iff)
  show ?case
  proof (cases "obj_get env key")
    case None
    then show ?thesis using 2(1) [OF None] 2(3) fresh by (auto split: option.splits)
  next
    case (Some old)
    then show ?thesis using 2(2) [OF Some] 2(3) fresh by (auto split: option.splits prod.splits)
  qed
qed (simp split: option.split)

lemma inject_entries_shadowed:
  "distinct (map fst es) \<Longrightarrow> k \<in> set (snd (inject_entries env es)) \<longleftrightarrow>
     (\<exists>v old. obj_get es k = Some v \<and> obj_get env k = Some old \<and> old \<noteq> js_to_string v)"
proof (induction env es rule: inject_entries.induct)
  case (2 env key v es)
  have fresh: "obj_get es key = None" using 2(3) by (simp add: obj_get_None_iff)
  show ?case
  proof (cases "obj_get env key")
    case None
    then show ?thesis using 2(1) [OF None] 2(3) fresh by auto
  next
    case (Some old)
    then show ?thesis using 2(2) [OF Some] 2(3) fresh by (cases "k = key") (auto split: prod.splits)
  qed
qed simp

text \<open>Copying the configuration into the environment gives each variable that was not set the
  configured value and leaves every other variable alone, so that reading a string-valued key gives what
  it gave before; a warning is logged exactly when some variable already had a different value.\<close>

theorem config_injection_exact:
  assumes "obj_wf ps" "loadConfigToProcessEnv env (Obj ps) = (env', warning)"
  shows "(\<forall>k. obj_get env' k = (case obj_get env k of Some v \<Rightarrow> Some v | None \<Rightarrow> map_option js_to_string (obj_get ps k)))
    \<and> (\<forall>k p. (\<forall>v. obj_get ps k = Some v \<longrightarrow> is_str v) \<longrightarrow>
          getConfigSync env' \<lparr>configCache = Obj ps, configLoadPromise = p\<rparr> k
        = getConfigSync env \<lparr>configCache = Obj ps, configLoadPromise = p\<rparr> k)
    \<and> (warning = None \<longleftrightarrow> (\<forall>k v old. obj_get ps k = Some v \<and> obj_get env k = Some old \<longrightarrow> old = js_to_string v))"
proof -
  have wf: "distinct (map fst (enum_order ps))" using assms(1) by simp
  have env': "env' = fst (inject_entries env (enum_order ps))"
    and w: "warning = None \<longleftrightarrow> snd (inject_entries env (enum_order ps)) = []"
    using assms(2) by (auto simp: loadConfigToProcessEnv_def object_entries_def split: prod.splits if_splits)
  have get: "obj_get env' k = (case obj_get env k of Some v \<Rightarrow> Some v | None \<Rightarrow> map_option js_to_string (obj_get ps k))" for k
    unfolding env' inject_entries_get [OF wf] obj_get_enum_order [OF assms(1)] ..
  have str: "getConfigSync env' \<lparr>configCache = Obj ps, configLoadPromise = p\<rparr> k
        = getConfigSync env \<lparr>configCache = Obj ps, configLoadPromise = p\<rparr> k"
    if val: "\<forall>v. obj_get ps k = Some v \<longrightarrow> is_str v" for k p
  proof (cases "obj_get ps k")
    case None
    then show ?thesis by (simp add: getConfigSync_def get split: option.split)
  next
    case (Some v)
    then obtain t where "v = Str t" using val [rule_format, OF Some] by (cases v) (simp_all add: is_str_def)
    then show ?thesis using Some by (simp add: getConfigSync_def get nullish_or_def split: option.split)
  qed
  have "warning = None \<longleftrightarrow> (\<forall>k. k \<notin> set (snd (inject_entries env (enum_order ps))))" using w by (cases "snd (inject_entries env (enum_order ps))") auto
  then have "warning = None \<longleftrightarrow> (\<forall>k v old. obj_get ps k = Some v \<and> obj_get env k = Some old \<longrightarrow> old = js_to_string v)"
    unfolding inject_entries_shadowed [OF wf] obj_get_enum_order [OF assms(1)] by auto
  then show ?thesis using get str by blast
qed

lemma config_injection_exact_witness:
  "obj_get (fst (loadConfigToProcessEnv [(''A'', ''1'')] (Obj [(''A'', Str ''2''), (''B'', Str ''3'')]))) ''B'' = Some ''3''
   \<and> snd (loadConfigToProcessEnv [(''A'', ''1'')] (Obj [(''A'', Str ''2''), (''B'', Str ''3'')])) \<noteq> None"
  using config_injection_exact [of "[(''A'', Str ''2''), (''B'', Str ''3'')]" "[(''A'', ''1'')]", OF _ prod.collapse [symmetric]]
  by auto

end
