(* ===== verification/AuthCookies.thy ===== *)
theory AuthCookies
  imports RuntimeConfig Dispatch
begin

text \<open>
  \<^verbatim>\<open>packages/auth-common/src/cookies.ts\<close>: the security attributes every session cookie of
  the auth blocks gets.  A request is its \<open>Headers\<close>.
\<close>

record CookieSecurityInput =
  ci_crossDomain :: bool
  isLocalhost :: bool
  plainHttpOrigin :: "bool option"

datatype same_site = Lax | NoSite

record CookieSecurityAttributes =
  sameSite :: same_site
  secure :: bool
  partitioned :: bool

definition resolveCookieSecurity :: "CookieSecurityInput \<Rightarrow> CookieSecurityAttributes" where
  "resolveCookieSecurity i =
     (let plainHttp = (isLocalhost i \<or> plainHttpOrigin i = Some True) in
      if ci_crossDomain i
      then \<lparr>sameSite = NoSite, secure = True, partitioned = (\<not> isLocalhost i)\<rparr>
      else \<lparr>sameSite = Lax, secure = (\<not> plainHttp), partitioned = False\<rparr>)"

definition buildCookieSecurityAttrs :: "CookieSecurityInput \<Rightarrow> string" where
  "buildCookieSecurityAttrs i =
     (let a = resolveCookieSecurity i in
      join ''; '' ([''SameSite='' @ (case sameSite a of Lax \<Rightarrow> ''Lax'' | NoSite \<Rightarrow> ''None'')]
        @ (if secure a then [''Secure''] else []) @ (if partitioned a then [''Partitioned''] else [])))"

definition headers_get :: "headers \<Rightarrow> string \<Rightarrow> string option" where
  "headers_get hs name = obj_get (h_entries hs) name"

text \<open>
  The test of \<open>isLoopbackRequest\<close>: an optional scheme, a loopback host, an optional port, an optional
  slash, and nothing else.
\<close>

definition LOOPBACK_HOSTS :: "string list" where
  "LOOPBACK_HOSTS = [''localhost'', ''127.0.0.1'', ''[::1]'']"

definition strip_scheme :: "string \<Rightarrow> string" where
  "strip_scheme s =
     (if starts_with s ''https://'' then drop 8 s else if starts_with s ''http://'' then drop 7 s else s)"

definition port_tail :: "string \<Rightarrow> bool" where
  "port_tail s =
     (case s of
        [] \<Rightarrow> True
      | c # cs \<Rightarrow>
          if c = CHR '':'' then takeWhile is_digit cs \<noteq> [] \<and> dropWhile is_digit cs \<in> {[], ''/''} else s = ''/'')"

definition isLoopbackRequest :: "headers \<Rightarrow> bool" where
  "isLoopbackRequest hs =
     (let origin = opt_or (headers_get hs ''origin'') (opt_or (headers_get hs ''host'') []);
          s = strip_scheme origin in
      list_ex (\<lambda>h. starts_with s h \<and> port_tail (drop (length h) s)) LOOPBACK_HOSTS)"

definition isLocalDevRequest :: "process_env \<Rightarrow> config_module \<Rightarrow> headers \<Rightarrow> bool" where
  "isLocalDevRequest env m hs = (getDeploymentType env m = Local \<and> isLoopbackRequest hs)"

definition isInsecurePublicOrigin :: "process_env \<Rightarrow> bool" where
  "isInsecurePublicOrigin env =
     (case obj_get env ''BLOCKS_PUBLIC_ORIGIN'' of None \<Rightarrow> False | Some origin \<Rightarrow> starts_with origin ''http://'')"

text \<open>The attributes a block asks for, for a request in a process.\<close>

definition session_security :: "bool \<Rightarrow> process_env \<Rightarrow> config_module \<Rightarrow> headers \<Rightarrow> string" where
  "session_security cross env m hs =
     buildCookieSecurityAttrs \<lparr>ci_crossDomain = cross, isLocalhost = isLocalDevRequest env m hs,
       plainHttpOrigin = Some (isInsecurePublicOrigin env)\<rparr>"

lemma deployed_not_local: "isDeployedEnv env \<Longrightarrow> getDeploymentType env m \<noteq> Local"
  by (simp add: getDeploymentType_def Let_def)

text \<open>On deployed compute no request header weakens a session cookie: whatever the headers say, and
  whatever the environment claims the deployment type to be, a cross-domain cookie is
  \<open>SameSite=None; Secure; Partitioned\<close> and a same-origin one is \<open>Lax\<close> and \<open>Secure\<close> unless the front
  door itself is configured as plain HTTP.\<close>

theorem deployed_cookie_secure:
  assumes "isDeployedEnv env"
  shows "session_security cross (obj_set ''BLOCKS_DEPLOYMENT_TYPE'' v env) m hs =
     (if cross then ''SameSite=None; Secure; Partitioned''
      else if isInsecurePublicOrigin env then ''SameSite=Lax'' else ''SameSite=Lax; Secure'')"
proof -
  let ?env = "obj_set ''BLOCKS_DEPLOYMENT_TYPE'' v env"
  have "isDeployedEnv ?env"
    using assms by (simp add: isDeployedEnv_def env_set_def BLOCKS_CONFIG_BUCKET_def BLOCKS_CONFIG_KEY_def)
  then have "\<not> isLocalDevRequest ?env m hs" using deployed_not_local by (simp add: isLocalDevRequest_def)
  moreover have "isInsecurePublicOrigin ?env = isInsecurePublicOrigin env" by (simp add: isInsecurePublicOrigin_def)
  ultimately show ?thesis
    by (simp add: session_security_def buildCookieSecurityAttrs_def resolveCookieSecurity_def)
qed

lemma deployed_cookie_secure_witness:
  "session_security False (obj_set ''BLOCKS_DEPLOYMENT_TYPE'' ''local''
       [(BLOCKS_CONFIG_BUCKET, ''b''), (BLOCKS_CONFIG_KEY, ''k'')]) resetConfigCache
     (new_Headers [(''Origin'', ''http://localhost:3000'')]) = ''SameSite=Lax; Secure''"
proof -
  have "isDeployedEnv [(BLOCKS_CONFIG_BUCKET, ''b''), (BLOCKS_CONFIG_KEY, ''k'')]" by code_simp
  then show ?thesis
    using deployed_cookie_secure [of "[(BLOCKS_CONFIG_BUCKET, ''b''), (BLOCKS_CONFIG_KEY, ''k'')]" False "''local''"]
    by (simp add: isInsecurePublicOrigin_def BLOCKS_CONFIG_BUCKET_def BLOCKS_CONFIG_KEY_def)
qed

end
