(* ===== verification/AuthWorld.thy ===== *)
theory AuthWorld
  imports AuthCodes AuthCookies
begin

text \<open>
  The setting of \<^verbatim>\<open>packages/bb-auth-basic/src/index.ts\<close>: what an instance is configured
  with, what a call finds outside, and the state its methods change.  A method is a function of the
  state; it gives \<open>None\<close> if it does not return, else the new state with its value or what it throws.
  \<open>bcryptjs\<close> and \<open>jsonwebtoken\<close> are parameters; one call reads the clock once.
\<close>

section \<open>Configuration and surroundings\<close>

record PasswordPolicy =
  minLength :: "nat option"
  requireUppercase :: bool
  requireLowercase :: bool
  requireDigits :: bool
  requireSpecialChars :: bool

record LockoutPolicy =
  maxAttempts :: int
  windowSeconds :: rat
  lockoutSeconds :: rat

text \<open>The claims signed into a token, and what a verified token gives back.\<close>

record session_claims =
  cl_username :: string
  cl_ep :: int
  cl_exp :: int
  cl_issuer :: string
  cl_jti :: string

record session_payload =
  pl_username :: string
  pl_jti :: "string option"
  pl_exp :: "int option"
  pl_ep :: "int option"

record auth_env = code_env +
  fullId :: string
  sessionDuration :: int
  passwordPolicy :: PasswordPolicy
  codeDelivery :: "(string \<Rightarrow> string \<Rightarrow> thrown option) option"
  crossDomain :: bool
  lockout :: "LockoutPolicy option"
  metrics :: bool
  bcrypt_hash :: "nat \<Rightarrow> string \<Rightarrow> string"
  bcrypt_compare :: "string \<Rightarrow> string \<Rightarrow> bool"
  jwt_sign :: "string \<Rightarrow> session_claims \<Rightarrow> string"
  jwt_verify :: "string \<Rightarrow> string \<Rightarrow> int \<Rightarrow> string \<Rightarrow> session_payload option"
  iso_date :: "int \<Rightarrow> string"

text \<open>One call: the clock, the request, the process, and the random values it draws.\<close>

record auth_call =
  now_ms :: int
  request_headers :: headers
  proc_env :: process_env
  proc_config :: config_module
  random_code :: nat
  random_salt :: nat
  random_uuid :: string

definition now_s :: "auth_call \<Rightarrow> int" where
  "now_s c = now_ms c div 1000"

datatype auth_event =
    Metric string
  | LogError string thrown
  | PasswordChecked string
  | CodeSent string string

record 's auth_world =
  users :: 's
  codes :: 's
  set_cookie :: "string option"
  auth_events :: "auth_event list"

section \<open>Methods\<close>

type_synonym ('s, 'a) auth = "'s auth_world \<Rightarrow> ('s auth_world \<times> (thrown, 'a) res) option"

definition returnM :: "'a \<Rightarrow> ('s, 'a) auth" where
  "returnM a w = Some (w, Inr a)"

definition throwM :: "thrown \<Rightarrow> ('s, 'a) auth" where
  "throwM e w = Some (w, Inl e)"

definition bindM :: "('s, 'a) auth \<Rightarrow> ('a \<Rightarrow> ('s, 'b) auth) \<Rightarrow> ('s, 'b) auth" where
  "bindM m f w =
     (case m w of None \<Rightarrow> None | Some (w', Inl e) \<Rightarrow> Some (w', Inl e) | Some (w', Inr a) \<Rightarrow> f a w')"

text \<open>\<open>try m catch (e) h\<close> and \<open>try m finally f\<close>, where \<open>f\<close> does not throw.\<close>

definition catchM :: "('s, 'a) auth \<Rightarrow> (thrown \<Rightarrow> ('s, 'a) auth) \<Rightarrow> ('s, 'a) auth" where
  "catchM m h w =
     (case m w of None \<Rightarrow> None | Some (w', Inl e) \<Rightarrow> h e w' | Some (w', Inr a) \<Rightarrow> Some (w', Inr a))"

definition finallyM :: "('s, 'a) auth \<Rightarrow> ('s auth_world \<Rightarrow> 's auth_world) \<Rightarrow> ('s, 'a) auth" where
  "finallyM m f w = (case m w of None \<Rightarrow> None | Some (w', r) \<Rightarrow> Some (f w', r))"

definition liftM :: "(thrown, 'a) res \<Rightarrow> ('s, 'a) auth" where
  "liftM r w = Some (w, r)"

definition eventM :: "auth_event \<Rightarrow> ('s, unit) auth" where
  "eventM e w = Some (w\<lparr>auth_events := auth_events w @ [e]\<rparr>, Inr ())"

definition on_users :: "('s \<Rightarrow> 's \<times> (thrown, 'a) res) \<Rightarrow> ('s, 'a) auth" where
  "on_users f w = (case f (users w) of (s', r) \<Rightarrow> Some (w\<lparr>users := s'\<rparr>, r))"

definition on_codes :: "('s \<Rightarrow> 's \<times> (thrown, 'a) res) \<Rightarrow> ('s, 'a) auth" where
  "on_codes f w = (case f (codes w) of (s', r) \<Rightarrow> Some (w\<lparr>codes := s'\<rparr>, r))"

named_theorems auth_simps "evaluation of the auth methods"

lemma auth_combinators [auth_simps]:
  "bindM (returnM a) f = f a" "bindM (throwM e) f = throwM e" "bindM (liftM (Inr a)) f = f a"
  "bindM (liftM (Inl e)) f = throwM e" "returnM a w = Some (w, Inr a)" "throwM e w = Some (w, Inl e)"
  "liftM r w = Some (w, r)" "eventM x w = Some (w\<lparr>auth_events := auth_events w @ [x]\<rparr>, Inr ())"
  by (simp_all add: bindM_def returnM_def throwM_def liftM_def eventM_def fun_eq_iff)

lemma bindM_Some [auth_simps]: "m w = Some (w', Inr a) \<Longrightarrow> bindM m f w = f a w'"
  by (simp add: bindM_def)

lemma bindM_fail [auth_simps]: "m w = Some (w', Inl e) \<Longrightarrow> bindM m f w = Some (w', Inl e)"
  by (simp add: bindM_def)

lemma catchM_Some [auth_simps]: "m w = Some (w', Inr a) \<Longrightarrow> catchM m h w = Some (w', Inr a)"
  by (simp add: catchM_def)

lemma catchM_fail [auth_simps]: "m w = Some (w', Inl e) \<Longrightarrow> catchM m h w = h e w'"
  by (simp add: catchM_def)

lemma finallyM_Some [auth_simps]: "m w = Some (w', r) \<Longrightarrow> finallyM m f w = Some (f w', r)"
  by (simp add: finallyM_def)

lemma bindM_event [auth_simps]: "bindM (eventM x) f w = f () (w\<lparr>auth_events := auth_events w @ [x]\<rparr>)"
  by (simp add: bindM_def eventM_def)

lemma bindM_result:
  "bindM m f w = Some (w'', r) \<Longrightarrow>
     (\<exists>w' a. m w = Some (w', Inr a) \<and> f a w' = Some (w'', r)) \<or> (\<exists>e. m w = Some (w'', Inl e) \<and> r = Inl e)"
  by (auto simp: bindM_def split: option.splits sum.splits)

section \<open>The secret\<close>

text \<open>
  \<open>getSecret\<close> keeps the first promise it gets, so every later call sees how that one settled;
  \<open>secret\<close> of the environment is that outcome.
\<close>

definition getSecret :: "(thrown, string) res option \<Rightarrow> (thrown, string) res \<Rightarrow> (thrown, string) res option \<times> (thrown, string) res" where
  "getSecret secretPromise setting =
     (case secretPromise of Some p \<Rightarrow> (Some p, p) | None \<Rightarrow> (Some setting, setting))"

lemma getSecret_sticky: "getSecret p x = (p', r) \<Longrightarrow> getSecret p' y = (p', r)"
  by (auto simp: getSecret_def split: option.splits)

section \<open>Lockout options\<close>

record lockout_options =
  lo_maxAttempts :: "number_arg option"
  lo_windowSeconds :: "number_arg option"
  lo_lockoutSeconds :: "number_arg option"

definition positive_number :: "string \<Rightarrow> number_arg \<Rightarrow> (thrown, rat) res" where
  "positive_number name a =
     (case a of
        Finite q _ \<Rightarrow> if q > 0 then Inr q
          else Inl (new_Error (''AuthBasic: lockout.'' @ name @ '' must be a positive number, got '' @ number_text a))
      | _ \<Rightarrow> Inl (new_Error (''AuthBasic: lockout.'' @ name @ '' must be a positive number, got '' @ number_text a)))"

definition positive_integer :: "number_arg \<Rightarrow> (thrown, int) res" where
  "positive_integer a =
     (case a of
        Finite q _ \<Rightarrow> if q = rat_of_int \<lfloor>q\<rfloor> \<and> q \<ge> 1 then Inr \<lfloor>q\<rfloor>
          else Inl (new_Error (''AuthBasic: lockout.maxAttempts must be a positive integer, got '' @ number_text a))
      | _ \<Rightarrow> Inl (new_Error (''AuthBasic: lockout.maxAttempts must be a positive integer, got '' @ number_text a)))"

definition resolve_lockout :: "lockout_options option \<Rightarrow> (thrown, LockoutPolicy option) res" where
  "resolve_lockout opts =
     (case opts of
        None \<Rightarrow> Inr None
      | Some lo \<Rightarrow>
          bindR (positive_integer (opt_or (lo_maxAttempts lo) (Finite 5 ''5''))) (\<lambda>m.
          bindR (positive_number ''windowSeconds'' (opt_or (lo_windowSeconds lo) (Finite 900 ''900''))) (\<lambda>win.
          bindR (positive_number ''lockoutSeconds'' (opt_or (lo_lockoutSeconds lo) (Finite 900 ''900''))) (\<lambda>l.
            Inr (Some \<lparr>maxAttempts = m, windowSeconds = win, lockoutSeconds = l\<rparr>)))))"

lemma resolve_lockout_valid:
  "resolve_lockout opts = Inr (Some p) \<Longrightarrow> 1 \<le> maxAttempts p \<and> 0 < windowSeconds p \<and> 0 < lockoutSeconds p"
  by (auto simp: resolve_lockout_def positive_integer_def positive_number_def bindR_eq_Inr
      split: option.splits number_arg.splits if_splits)

end
