(* ===== verification/AuthLockout.thy ===== *)
theory AuthLockout
  imports AuthWorld
begin

text \<open>
  Sign-in throttling of \<^verbatim>\<open>packages/bb-auth-basic/src/index.ts\<close>: the failure counter kept
  per user name, and when it locks the account.  Times are milliseconds; the row's own expiry is in
  whole seconds, which the lemmas account for.
\<close>

section \<open>Rows\<close>

definition AccountLocked :: string where
  "AccountLocked = ''AccountLockedException''"

definition account_locked :: thrown where
  "account_locked = new_ApiError ''Too many failed sign-in attempts; try again later'' (Num 429) (Some AccountLocked) None None"

definition lockoutKey :: "string \<Rightarrow> string" where
  "lockoutKey username = ''lockout:'' @ username"

record lockout_row =
  lk_count :: int
  firstFailAt :: int
  lockedAt :: "int option"

definition lockout_text :: "lockout_row \<Rightarrow> string" where
  "lockout_text r = print_json (Obj ([(''count'', Num (lk_count r)), (''firstFailAt'', Num (firstFailAt r))]
     @ (case lockedAt r of None \<Rightarrow> [] | Some t \<Rightarrow> [(''lockedAt'', Num t)])))"

text \<open>The row a stored value stands for; anything unreadable counts as none.\<close>

definition lockout_of :: "jsval \<Rightarrow> lockout_row option" where
  "lockout_of v =
     (if \<not> truthy v then None
      else (case json_parse (case v of Str x \<Rightarrow> x | _ \<Rightarrow> []) of
        None \<Rightarrow> None
      | Some p \<Rightarrow>
          (case (get_prop p ''count'', get_prop p ''firstFailAt'') of
             (Num n, Num f) \<Rightarrow> Some \<lparr>lk_count = n, firstFailAt = f,
                lockedAt = (case get_prop p ''lockedAt'' of Num l \<Rightarrow> Some l | _ \<Rightarrow> None)\<rparr>
           | _ \<Rightarrow> None)))"

section \<open>Methods\<close>

definition emitSignInMetric :: "auth_env \<Rightarrow> string \<Rightarrow> ('s, unit) auth" where
  "emitSignInMetric env name = (if metrics env then eventM (Metric name) else returnM ())"

definition readLockout :: "'s store_api \<Rightarrow> auth_call \<Rightarrow> string \<Rightarrow> ('s, lockout_row option) auth" where
  "readLockout api c username =
     bindM (on_codes (store_get api (now_s c) (lockoutKey username))) (\<lambda>v. returnM (lockout_of v))"

definition lock_expires :: "LockoutPolicy \<Rightarrow> lockout_row \<Rightarrow> rat" where
  "lock_expires p r = rat_of_int (opt_or (lockedAt r) (firstFailAt r)) + lockoutSeconds p * 1000"

definition is_locked :: "LockoutPolicy \<Rightarrow> int \<Rightarrow> lockout_row option \<Rightarrow> bool" where
  "is_locked p now row =
     (case row of None \<Rightarrow> False
      | Some r \<Rightarrow> \<not> lk_count r < maxAttempts p \<and> rat_of_int now < lock_expires p r)"

definition assertNotLockedOut :: "'s store_api \<Rightarrow> auth_env \<Rightarrow> auth_call \<Rightarrow> string \<Rightarrow> ('s, unit) auth" where
  "assertNotLockedOut api env c username =
     (case lockout env of
        None \<Rightarrow> returnM ()
      | Some p \<Rightarrow>
          bindM (readLockout api c username) (\<lambda>row.
            if is_locked p (now_ms c) row
            then bindM (emitSignInMetric env ''SignInLocked'') (\<lambda>_. throwM account_locked)
            else returnM ()))"

text \<open>The row written after a failure at \<open>now\<close>.\<close>

definition failed_row :: "LockoutPolicy \<Rightarrow> int \<Rightarrow> lockout_row option \<Rightarrow> lockout_row" where
  "failed_row p now existing =
     (let fresh = \<lparr>lk_count = 1, firstFailAt = now, lockedAt = None\<rparr>;
          nxt = (case existing of
             None \<Rightarrow> fresh
           | Some r \<Rightarrow>
               if rat_of_int (now - firstFailAt r) < windowSeconds p * 1000
               then \<lparr>lk_count = lk_count r + 1, firstFailAt = firstFailAt r, lockedAt = lockedAt r\<rparr>
               else fresh) in
      if lk_count nxt \<ge> maxAttempts p \<and> lockedAt nxt = None then nxt\<lparr>lockedAt := Some now\<rparr> else nxt)"

definition put_for :: "rat \<Rightarrow> PutOptions" where
  "put_for q = no_put_options\<lparr>ttlSeconds := Some (Finite q [])\<rparr>"

definition recordFailedSignIn :: "'s store_api \<Rightarrow> auth_env \<Rightarrow> auth_call \<Rightarrow> string \<Rightarrow> ('s, unit) auth" where
  "recordFailedSignIn api env c username =
     (case lockout env of
        None \<Rightarrow> returnM ()
      | Some p \<Rightarrow>
          bindM (readLockout api c username) (\<lambda>existing.
            catchM (on_codes (store_put api (now_s c) (lockoutKey username)
                      (Str (lockout_text (failed_row p (now_ms c) existing)))
                      (put_for (max (windowSeconds p) (lockoutSeconds p)))))
              (\<lambda>e. eventM (LogError ''AuthBasic: failed to record sign-in throttle counter'' e))))"

definition clearLockout :: "'s store_api \<Rightarrow> auth_env \<Rightarrow> string \<Rightarrow> ('s, unit) auth" where
  "clearLockout api env username =
     (if lockout env = None then returnM ()
      else catchM (on_codes (store_delete api (lockoutKey username) no_delete_options))
        (\<lambda>e. eventM (LogError ''AuthBasic: failed to clear sign-in throttle counter'' e)))"

section \<open>Rows and their texts\<close>

lemma lockout_of_text [simp]: "lockout_of (Str (lockout_text r)) = Some r"
proof -
  let ?v = "Obj ([(''count'', Num (lk_count r)), (''firstFailAt'', Num (firstFailAt r))]
     @ (case lockedAt r of None \<Rightarrow> [] | Some t \<Rightarrow> [(''lockedAt'', Num t)]))"
  have "json_parse (print_json ?v) = Some ?v" by (rule json_parse_print) (auto split: option.split)
  moreover have "lockout_text r \<noteq> []" by (simp add: lockout_text_def)
  ultimately show ?thesis
    by (cases "lockedAt r") (simp_all add: lockout_of_def lockout_text_def del: print_json.simps)
qed

lemma lockout_of_Null [simp]: "lockout_of Null = None"
  by (simp add: lockout_of_def)

lemma put_for_sel [simp]: "put_allowed cur (put_for q)"
  "0 < q \<Longrightarrow> resolveTtlEpochSeconds now (put_for q) = Inr (Some (now + \<lceil>q\<rceil>))"
  by (simp_all add: put_for_def put_allowed_def no_put_options_def resolveTtlEpochSeconds_def)

text \<open>A row kept for \<open>q\<close> seconds from \<open>t\<close> is still there a second before they are over.\<close>

lemma row_outlives:
  assumes "rat_of_int now + 1000 \<le> rat_of_int t + q * 1000"
  shows "now div 1000 < t div 1000 + \<lceil>q\<rceil>"
proof -
  have "rat_of_int t < rat_of_int (t div 1000) * 1000 + 1000"
    using mod_less_divisor [of 1000 "nat t"] div_mult_mod_eq [of t 1000] pos_mod_bound [of 1000 t]
    by (metis (mono_tags) add_strict_left_mono of_int_add of_int_less_iff of_int_mult of_int_numeral zero_less_numeral)
  moreover have "rat_of_int (now div 1000) * 1000 \<le> rat_of_int now"
    using div_mult_mod_eq [of now 1000] pos_mod_sign [of 1000 now]
    by (metis (mono_tags) add_increasing2 le_add_same_cancel1 of_int_le_iff of_int_mult of_int_numeral zero_less_numeral)
  moreover have "q * 1000 \<le> rat_of_int \<lceil>q\<rceil> * 1000" by simp
  ultimately have "rat_of_int (now div 1000) * 1000 < (rat_of_int (t div 1000) + rat_of_int \<lceil>q\<rceil>) * 1000"
    using assms unfolding distrib_right by linarith
  then have "rat_of_int (now div 1000) < rat_of_int (t div 1000 + \<lceil>q\<rceil>)" by simp
  then show ?thesis by (simp only: of_int_less_iff)
qed

section \<open>How the counter evolves\<close>

text \<open>What a method that only reads the codes leaves alone.\<close>

definition same_but_codes :: "'s auth_world \<Rightarrow> 's auth_world \<Rightarrow> bool" where
  "same_but_codes w w' = (users w' = users w \<and> set_cookie w' = set_cookie w)"

definition log_errors :: "'s auth_world \<Rightarrow> (string \<times> thrown) list" where
  "log_errors w = concat (map (\<lambda>x. case x of LogError m e \<Rightarrow> [(m, e)] | _ \<Rightarrow> []) (auth_events w))"

definition kept_seconds :: "LockoutPolicy \<Rightarrow> rat" where
  "kept_seconds p = max (windowSeconds p) (lockoutSeconds p)"

definition counter :: "int \<Rightarrow> entry \<Rightarrow> lockout_row option" where
  "counter now e = lockout_of (live now e)"

lemma counter_Some:
  "counter now (Some (lockout_text r, Some t)) = (if t \<le> now then None else Some r)"
  by (simp add: counter_def live_def isExpired_def)

context consistent_store begin

lemma readLockout_result:
  assumes "inv (codes w)" "readLockout api c u w = Some (w', r)"
  shows "inv (codes w') \<and> reaped (now_s c) (content (codes w)) (content (codes w')) \<and> same_but_codes w w'
    \<and> auth_events w' = auth_events w
    \<and> (\<forall>row. r = Inr row \<longrightarrow> row = counter (now_s c) (content (codes w) (lockoutKey u)))"
proof -
  obtain s' q where g: "store_get api (now_s c) (lockoutKey u) (codes w) = (s', q)" by fastforce
  have "inv s'" "reaped (now_s c) (content (codes w)) (content s')" using get_law [OF assms(1) g] by auto
  moreover have "q = Inr v \<Longrightarrow> v = live (now_s c) (content (codes w) (lockoutKey u))" for v
    using get_reads [OF assms(1)] g by blast
  ultimately show ?thesis
    using assms(2) g by (cases q) (auto simp: readLockout_def on_codes_def bindM_def returnM_def same_but_codes_def counter_def)
qed

lemma recordFailedSignIn_result:
  assumes "inv (codes w)" "lockout env = Some p" "0 < windowSeconds p"
    and "recordFailedSignIn api env c u w = Some (w', Inr ())" "log_errors w' = []"
  shows "inv (codes w') \<and> same_but_codes w w' \<and> auth_events w' = auth_events w
    \<and> content (codes w') (lockoutKey u) =
        Some (lockout_text (failed_row p (now_ms c) (counter (now_s c) (content (codes w) (lockoutKey u)))),
              Some (now_s c + \<lceil>kept_seconds p\<rceil>))"
proof -
  have pos: "0 < kept_seconds p" using assms(3) by (simp add: kept_seconds_def)
  obtain w1 row where r: "readLockout api c u w = Some (w1, Inr row)"
    and put: "catchM (on_codes (store_put api (now_s c) (lockoutKey u) (Str (lockout_text (failed_row p (now_ms c) row)))
        (put_for (kept_seconds p)))) (\<lambda>e. eventM (LogError ''AuthBasic: failed to record sign-in throttle counter'' e)) w1 = Some (w', Inr ())"
    using assms(2,4) by (auto simp: recordFailedSignIn_def kept_seconds_def bindM_def split: option.splits sum.splits)
  note w1 = readLockout_result [OF assms(1) r]
  obtain s' q where q: "store_put api (now_s c) (lockoutKey u) (Str (lockout_text (failed_row p (now_ms c) row)))
        (put_for (kept_seconds p)) (codes w1) = (s', q)" by fastforce
  show ?thesis
  proof (cases q)
    case (Inl e)
    then have "log_errors w' \<noteq> []" using put q by (auto simp: catchM_def on_codes_def eventM_def log_errors_def)
    then show ?thesis using assms(5) by simp
  next
    case (Inr x)
    then have "w' = w1\<lparr>codes := s'\<rparr>" using put q by (simp add: catchM_def on_codes_def)
    moreover obtain t where "inv s'" "resolveTtlEpochSeconds (now_s c) (put_for (kept_seconds p)) = Inr t"
        "content s' = (content (codes w1))(lockoutKey u \<mapsto> (lockout_text (failed_row p (now_ms c) row), t))"
      using put_done [of "codes w1"] w1 q Inr by fastforce
    ultimately show ?thesis using w1 pos by (auto simp: same_but_codes_def)
  qed
qed

lemma assertNotLockedOut_result:
  assumes "inv (codes w)" "assertNotLockedOut api env c u w = Some (w', r)"
  shows "inv (codes w') \<and> reaped (now_s c) (content (codes w)) (content (codes w')) \<and> same_but_codes w w'
    \<and> (case lockout env of None \<Rightarrow> w' = w \<and> r = Inr ()
       | Some p \<Rightarrow> (r = Inr () \<longrightarrow> \<not> is_locked p (now_ms c) (counter (now_s c) (content (codes w) (lockoutKey u)))))
    \<and> (r = Inr () \<longrightarrow> auth_events w' = auth_events w)"
proof (cases "lockout env")
  case None
  then show ?thesis using assms by (simp add: assertNotLockedOut_def returnM_def same_but_codes_def)
next
  case (Some p)
  obtain w1 q where q: "readLockout api c u w = Some (w1, q)"
    using assms(2) Some by (auto simp: assertNotLockedOut_def bindM_def split: option.splits)
  note w1 = readLockout_result [OF assms(1) q]
  show ?thesis
  proof (cases q)
    case (Inl e)
    then show ?thesis using assms(2) Some q w1 by (auto simp: assertNotLockedOut_def bindM_def)
  next
    case (Inr row)
    then show ?thesis using assms(2) Some q w1
      by (auto simp: assertNotLockedOut_def bindM_def emitSignInMetric_def eventM_def returnM_def throwM_def same_but_codes_def
          split: if_splits)
  qed
qed

end

section \<open>Counting failures\<close>

lemma failed_row_within:
  assumes "rat_of_int (now - firstFailAt r) < windowSeconds p * 1000"
  shows "failed_row p now (Some r) = \<lparr>lk_count = lk_count r + 1, firstFailAt = firstFailAt r,
    lockedAt = (if lk_count r + 1 \<ge> maxAttempts p \<and> lockedAt r = None then Some now else lockedAt r)\<rparr>"
  using assms by (simp add: failed_row_def Let_def)

lemma failed_row_first:
  "failed_row p now None = \<lparr>lk_count = 1, firstFailAt = now, lockedAt = (if 1 \<ge> maxAttempts p then Some now else None)\<rparr>"
  by (simp add: failed_row_def Let_def)

text \<open>After a run of failures inside the window the count is their number, and the account is locked
  since the failure that reached the limit.\<close>

definition counted :: "LockoutPolicy \<Rightarrow> int list \<Rightarrow> lockout_row \<Rightarrow> bool" where
  "counted p ts r = (ts \<noteq> [] \<and> lk_count r = int (length ts) \<and> firstFailAt r = hd ts
     \<and> lockedAt r = (if maxAttempts p \<le> int (length ts) then Some (ts ! (nat (maxAttempts p) - 1)) else None))"

lemma counted_first: "1 \<le> maxAttempts p \<Longrightarrow> counted p [t] (failed_row p t None)"
  by (auto simp: counted_def failed_row_first)

lemma counted_next:
  assumes "1 \<le> maxAttempts p" "counted p ts r" "rat_of_int (t - hd ts) < windowSeconds p * 1000"
  shows "counted p (ts @ [t]) (failed_row p t (Some r))"
proof -
  have "rat_of_int (t - firstFailAt r) < windowSeconds p * 1000" using assms(2,3) by (simp add: counted_def)
  from failed_row_within [OF this] assms(1,2) show ?thesis
    by (auto simp: counted_def nth_append nat_less_iff intro: arg_cong [of _ _ "nth ts"])
qed

end
