(* ===== verification/AuthSession.thy ===== *)
theory AuthSession
  imports AuthLockout
begin

text \<open>
  Sessions of \<^verbatim>\<open>packages/bb-auth-basic/src/index.ts\<close>: the cookie, the signed token in it,
  the revocation list, the session epoch that a password reset moves, and the user records.
\<close>

section \<open>Names, keys and markers\<close>

definition SessionExpired :: string where
  "SessionExpired = ''SessionExpiredException''"

definition SessionRevoked :: string where
  "SessionRevoked = ''SessionRevokedException''"

definition SignOutIncomplete :: string where
  "SignOutIncomplete = ''SignOutIncompleteException''"

definition REVOKED_MARKER :: string where
  "REVOKED_MARKER = ''1''"

definition MAX_EPOCH_BUMP_ATTEMPTS :: nat where
  "MAX_EPOCH_BUMP_ATTEMPTS = 3"

definition revokedKey :: "string \<Rightarrow> string" where
  "revokedKey jti = ''revoked:'' @ jti"

definition epochKey :: "string \<Rightarrow> string" where
  "epochKey username = ''epoch:'' @ username"

section \<open>User records\<close>

record UserRecord =
  ur_hash :: string
  ur_createdAt :: string
  unconfirmed :: bool

record AuthBasicUser =
  userId :: string
  username :: string
  createdAt :: string

definition user_text :: "UserRecord \<Rightarrow> string" where
  "user_text r = print_json (Obj ([(''hash'', Str (ur_hash r)), (''createdAt'', Str (ur_createdAt r))]
     @ (if unconfirmed r then [(''unconfirmed'', Bool True)] else [])))"

definition text_prop :: "jsval \<Rightarrow> string \<Rightarrow> string" where
  "text_prop v k = (case get_prop v k of Str s \<Rightarrow> s | _ \<Rightarrow> [])"

text \<open>The record a stored value stands for: a JSON object of the shape the block writes, or the bare
  hash of an old account.\<close>

definition read_user :: "auth_env \<Rightarrow> jsval \<Rightarrow> (thrown, UserRecord option) res" where
  "read_user env v =
     (if \<not> truthy v then Inr None
      else let raw = (case v of Str x \<Rightarrow> x | _ \<Rightarrow> []) in
        if starts_with raw ''{''
        then (case json_parse raw of
                None \<Rightarrow> Inl (bad_row env raw)
              | Some p \<Rightarrow> Inr (Some \<lparr>ur_hash = text_prop p ''hash'', ur_createdAt = text_prop p ''createdAt'',
                  unconfirmed = truthy (get_prop p ''unconfirmed'')\<rparr>))
        else Inr (Some \<lparr>ur_hash = raw, ur_createdAt = iso_date env 0, unconfirmed = False\<rparr>))"

text \<open>What \<open>JSON.stringify\<close> writes of a record reads back as that record.\<close>

lemma user_text_nonempty [simp]: "user_text r \<noteq> []" "starts_with (user_text r) ''{''"
  by (simp_all add: user_text_def)

lemma read_user_text [simp]: "read_user env (Str (user_text r)) = Inr (Some r)"
proof -
  let ?v = "Obj ([(''hash'', Str (ur_hash r)), (''createdAt'', Str (ur_createdAt r))]
     @ (if unconfirmed r then [(''unconfirmed'', Bool True)] else []))"
  have "json_parse (user_text r) = Some ?v" unfolding user_text_def by (rule json_parse_print) simp
  moreover have "truthy (Str (user_text r))" by simp
  ultimately show ?thesis unfolding read_user_def by (simp add: text_prop_def)
qed

definition getUserRecord :: "'s store_api \<Rightarrow> auth_env \<Rightarrow> auth_call \<Rightarrow> string \<Rightarrow> ('s, UserRecord option) auth" where
  "getUserRecord api env c name =
     bindM (on_users (store_get api (now_s c) name)) (\<lambda>v. liftM (read_user env v))"

definition toAuthBasicUser :: "string \<Rightarrow> UserRecord \<Rightarrow> AuthBasicUser" where
  "toAuthBasicUser name r = \<lparr>userId = name, username = name, createdAt = ur_createdAt r\<rparr>"

section \<open>The session epoch\<close>

definition MAX_SAFE_INTEGER :: int where
  "MAX_SAFE_INTEGER = 9007199254740991"

definition parseSessionEpoch :: "string option \<Rightarrow> int" where
  "parseSessionEpoch raw =
     (case raw of
        None \<Rightarrow> 0
      | Some s \<Rightarrow>
          (case parse_int10 s of
             None \<Rightarrow> 0
           | Some n \<Rightarrow> if n \<le> MAX_SAFE_INTEGER \<and> n \<ge> 0 then n else 0))"

text \<open>\<open>raw\<close>: the string read, or \<open>null\<close>.\<close>

definition raw_of :: "jsval \<Rightarrow> string option" where
  "raw_of v = (case v of Str s \<Rightarrow> Some s | _ \<Rightarrow> None)"

definition readSessionEpoch :: "'s store_api \<Rightarrow> auth_call \<Rightarrow> string \<Rightarrow> ('s, int) auth" where
  "readSessionEpoch api c name =
     bindM (on_codes (store_get api (now_s c) (epochKey name))) (\<lambda>v. returnM (parseSessionEpoch (raw_of v)))"

definition bump_options :: "string option \<Rightarrow> PutOptions" where
  "bump_options raw = (case raw of None \<Rightarrow> no_put_options\<lparr>ifNotExists := Bool True\<rparr>
     | Some s \<Rightarrow> no_put_options\<lparr>ifValueEquals := Str s\<rparr>)"

definition bump_once :: "'s store_api \<Rightarrow> auth_call \<Rightarrow> string \<Rightarrow> ('s, unit) auth" where
  "bump_once api c name =
     bindM (on_codes (store_get api (now_s c) (epochKey name))) (\<lambda>v.
       on_codes (store_put api (now_s c) (epochKey name) (Str (show_int (parseSessionEpoch (raw_of v) + 1)))
         (bump_options (raw_of v))))"

primrec bump_loop :: "nat \<Rightarrow> 's store_api \<Rightarrow> auth_call \<Rightarrow> string \<Rightarrow> thrown \<Rightarrow> ('s, unit) auth" where
  "bump_loop 0 api c name lastError = throwM lastError"
| "bump_loop (Suc n) api c name lastError = catchM (bump_once api c name) (\<lambda>e. bump_loop n api c name e)"

definition bumpSessionEpoch :: "'s store_api \<Rightarrow> auth_call \<Rightarrow> string \<Rightarrow> ('s, unit) auth" where
  "bumpSessionEpoch api c name = bump_loop MAX_EPOCH_BUMP_ATTEMPTS api c name (JsThrow Undef)"

section \<open>The cookie and the token in it\<close>

definition escapeRegex :: "string \<Rightarrow> string" where
  "escapeRegex s = concat (map (\<lambda>c. if c \<in> set [CHR ''.'', CHR ''*'', CHR ''+'', CHR ''?'', CHR ''^'', CHR ''$'', CHR ''{'', CHR ''}'',
     CHR ''('', CHR '')'', CHR ''|'', CHR ''['', CHR '']'', CHR 0x5C] then [CHR 0x5C, c] else [c]) s)"

definition cookieName :: "auth_env \<Rightarrow> string" where
  "cookieName env = ''auth_'' @ fullId env"

definition issuer :: "auth_env \<Rightarrow> string" where
  "issuer env = ''bb-auth-basic:'' @ fullId env"

text \<open>The match of \<open>(?:^|;\s*)NAME=([^;]+)\<close> for a literal name without leading white space.\<close>

definition cookie_segment :: "string \<Rightarrow> string \<Rightarrow> string option" where
  "cookie_segment name seg =
     (let p = name @ ''='' in
      if starts_with seg p \<and> drop (length p) seg \<noteq> [] then Some (drop (length p) seg) else None)"

definition cookie_value :: "string \<Rightarrow> string \<Rightarrow> string option" where
  "cookie_value name cookies =
     (case split_on (CHR '';'') cookies of
        [] \<Rightarrow> None
      | seg # segs \<Rightarrow> first_some (cookie_segment name) (seg # map (dropWhile is_space) segs))"

record session =
  se_username :: string
  se_jti :: "string option"
  se_exp :: int
  se_ep :: int

definition parseSessionToken :: "auth_env \<Rightarrow> auth_call \<Rightarrow> (thrown, session option) res" where
  "parseSessionToken env c =
     (case secret env of
        Inl e \<Rightarrow> Inl e
      | Inr sec \<Rightarrow>
          (case cookie_value (cookieName env) (opt_or (headers_get (request_headers c) ''cookie'') []) of
             None \<Rightarrow> Inr None
           | Some token \<Rightarrow>
               (case jwt_verify env sec (issuer env) (now_s c) token of
                  None \<Rightarrow> Inr None
                | Some p \<Rightarrow>
                    (case pl_exp p of
                       None \<Rightarrow> Inr None
                     | Some ex \<Rightarrow> Inr (Some \<lparr>se_username = pl_username p, se_jti = pl_jti p, se_exp = ex,
                         se_ep = opt_or (pl_ep p) 0\<rparr>)))))"

definition call_security :: "auth_env \<Rightarrow> auth_call \<Rightarrow> string" where
  "call_security env c = session_security (crossDomain env) (proc_env c) (proc_config c) (request_headers c)"

definition new_claims :: "auth_env \<Rightarrow> auth_call \<Rightarrow> string \<Rightarrow> int \<Rightarrow> session_claims" where
  "new_claims env c name epoch =
     \<lparr>cl_username = name, cl_ep = epoch, cl_exp = now_s c + sessionDuration env, cl_issuer = issuer env,
      cl_jti = random_uuid c\<rparr>"

definition session_cookie :: "auth_env \<Rightarrow> auth_call \<Rightarrow> string \<Rightarrow> string" where
  "session_cookie env c token = cookieName env @ ''='' @ token @ ''; HttpOnly; '' @ call_security env c
     @ ''; Max-Age='' @ show_int (sessionDuration env) @ ''; Path=/''"

definition setCookie :: "'s store_api \<Rightarrow> auth_env \<Rightarrow> auth_call \<Rightarrow> string \<Rightarrow> ('s, unit) auth" where
  "setCookie api env c name =
     bindM (liftM (secret env)) (\<lambda>sec.
     bindM (readSessionEpoch api c name) (\<lambda>epoch.
       (\<lambda>w. Some (w\<lparr>set_cookie := Some (session_cookie env c (jwt_sign env sec (new_claims env c name epoch)))\<rparr>, Inr ()))))"

definition clearCookie :: "auth_env \<Rightarrow> auth_call \<Rightarrow> 's auth_world \<Rightarrow> 's auth_world" where
  "clearCookie env c w = w\<lparr>set_cookie := Some (cookieName env @ ''=; Max-Age=0; Path=/; '' @ call_security env c)\<rparr>"

section \<open>Who is signed in\<close>

datatype session_reason = Absent | Revoked

definition isRevoked :: "'s store_api \<Rightarrow> auth_call \<Rightarrow> string \<Rightarrow> ('s, bool) auth" where
  "isRevoked api c jti =
     bindM (on_codes (store_get api (now_s c) (revokedKey jti))) (\<lambda>v. returnM (v = Str REVOKED_MARKER))"

definition present :: "string option \<Rightarrow> bool" where
  "present s = (s \<noteq> None \<and> s \<noteq> Some [])"

definition resolveSession :: "'s store_api \<Rightarrow> auth_env \<Rightarrow> auth_call \<Rightarrow> ('s, session_reason + AuthBasicUser) auth" where
  "resolveSession api env c =
     bindM (liftM (parseSessionToken env c)) (\<lambda>payload.
       case payload of
         None \<Rightarrow> returnM (Inl Absent)
       | Some se \<Rightarrow>
           bindM (if present (se_jti se) then isRevoked api c (the (se_jti se)) else returnM False) (\<lambda>revoked.
           bindM (readSessionEpoch api c (se_username se)) (\<lambda>currentEpoch.
           bindM (getUserRecord api env c (se_username se)) (\<lambda>user.
             if revoked then returnM (Inl Revoked)
             else if se_ep se < currentEpoch then returnM (Inl Revoked)
             else (case user of
                     None \<Rightarrow> returnM (Inl Absent)
                   | Some r \<Rightarrow> if unconfirmed r then returnM (Inl Absent)
                               else returnM (Inr (toAuthBasicUser (se_username se) r)))))))"

definition getUserFromCookie :: "'s store_api \<Rightarrow> auth_env \<Rightarrow> auth_call \<Rightarrow> ('s, AuthBasicUser option) auth" where
  "getUserFromCookie api env c =
     bindM (resolveSession api env c) (\<lambda>r. returnM (case r of Inl _ \<Rightarrow> None | Inr u \<Rightarrow> Some u))"

definition requireAuth :: "'s store_api \<Rightarrow> auth_env \<Rightarrow> auth_call \<Rightarrow> ('s, AuthBasicUser) auth" where
  "requireAuth api env c =
     bindM (resolveSession api env c) (\<lambda>r.
       case r of
         Inr u \<Rightarrow> returnM u
       | Inl reason \<Rightarrow> throwM (new_ApiError ''Authentication required'' (Num 401)
           (Some (if reason = Revoked then SessionRevoked else SessionExpired)) None None))"

definition checkAuth :: "'s store_api \<Rightarrow> auth_env \<Rightarrow> auth_call \<Rightarrow> ('s, bool) auth" where
  "checkAuth api env c = bindM (getUserFromCookie api env c) (\<lambda>u. returnM (u \<noteq> None))"

section \<open>Signing out\<close>

definition throwInvalidationIncomplete :: "string \<Rightarrow> string \<Rightarrow> thrown \<Rightarrow> ('s, 'a) auth" where
  "throwInvalidationIncomplete logMessage clientMessage err =
     bindM (eventM (LogError logMessage err)) (\<lambda>_.
       throwM (new_ApiError clientMessage (Num 503) (Some SignOutIncomplete) None None))"

definition revokeCurrentToken :: "'s store_api \<Rightarrow> auth_env \<Rightarrow> auth_call \<Rightarrow> ('s, unit) auth" where
  "revokeCurrentToken api env c =
     bindM (liftM (parseSessionToken env c)) (\<lambda>payload.
       case payload of
         None \<Rightarrow> returnM ()
       | Some se \<Rightarrow>
           if \<not> present (se_jti se) then returnM ()
           else catchM (on_codes (store_put api (now_s c) (revokedKey (the (se_jti se))) (Str REVOKED_MARKER)
                          (put_until (se_exp se))))
             (\<lambda>e. throwInvalidationIncomplete ''AuthBasic: failed to record session revocation on sign-out''
                ''Sign-out could not be completed; please retry'' e))"

end
