(* ===== verification/AuthBasic.thy ===== *)
theory AuthBasic
  imports AuthSession
begin

text \<open>
  The public methods of \<^verbatim>\<open>packages/bb-auth-basic/src/index.ts\<close>: sign-up, sign-in, sign-out,
  password reset, and the state-machine API the Authenticator component talks to.
\<close>

section \<open>Errors and password policy\<close>

definition InvalidCredentials :: string where
  "InvalidCredentials = ''InvalidCredentialsException''"

definition UserAlreadyExists :: string where
  "UserAlreadyExists = ''UserAlreadyExistsException''"

definition InvalidPassword :: string where
  "InvalidPassword = ''InvalidPasswordException''"

definition invalid_credentials :: thrown where
  "invalid_credentials = new_ApiError ''Invalid username or password'' (Num 401) (Some InvalidCredentials) None None"

definition is_upper :: "char \<Rightarrow> bool" where
  "is_upper c = (65 \<le> char_code c \<and> char_code c \<le> 90)"

definition is_lower :: "char \<Rightarrow> bool" where
  "is_lower c = (97 \<le> char_code c \<and> char_code c \<le> 122)"

definition password_errors :: "PasswordPolicy \<Rightarrow> string \<Rightarrow> string list" where
  "password_errors p pw =
     (let minLen = opt_or (minLength p) 8 in
        (if length pw < minLen then [''at least '' @ show_nat minLen @ '' characters''] else [])
      @ (if requireUppercase p \<and> \<not> list_ex is_upper pw then [''an uppercase letter''] else [])
      @ (if requireLowercase p \<and> \<not> list_ex is_lower pw then [''a lowercase letter''] else [])
      @ (if requireDigits p \<and> \<not> list_ex is_digit pw then [''a digit''] else [])
      @ (if requireSpecialChars p \<and> \<not> list_ex (\<lambda>c. \<not> (is_upper c \<or> is_lower c \<or> is_digit c)) pw
         then [''a special character''] else []))"

definition validatePassword :: "auth_env \<Rightarrow> string \<Rightarrow> (thrown, unit) res" where
  "validatePassword env pw =
     (let errors = password_errors (passwordPolicy env) pw in
      if errors \<noteq> [] then Inl (new_ApiError (''Password must contain '' @ join '', '' errors) (Num 400) (Some InvalidPassword) None None)
      else Inr ())"

section \<open>Codes, as methods\<close>

definition generateCodeM :: "'s store_api \<Rightarrow> auth_env \<Rightarrow> auth_call \<Rightarrow> string \<Rightarrow> string \<Rightarrow> ('s, string) auth" where
  "generateCodeM api env c purpose name = on_codes (generateCode api env (now_ms c) (random_code c) purpose name)"

definition verifyCodeM :: "'s store_api \<Rightarrow> auth_env \<Rightarrow> auth_call \<Rightarrow> string \<Rightarrow> string \<Rightarrow> string \<Rightarrow> ('s, unit) auth" where
  "verifyCodeM api env c purpose name code w =
     (case verifyCode api env (now_ms c) purpose name code (codes w) of
        None \<Rightarrow> None
      | Some (s', r) \<Rightarrow> Some (w\<lparr>codes := s'\<rparr>, r))"

text \<open>Handing a code to the delivery callback of the application.\<close>

definition deliver :: "(string \<Rightarrow> string \<Rightarrow> thrown option) \<Rightarrow> string \<Rightarrow> string \<Rightarrow> ('s, unit) auth" where
  "deliver f name code =
     bindM (eventM (CodeSent name code)) (\<lambda>_. case f name code of None \<Rightarrow> returnM () | Some e \<Rightarrow> throwM e)"

section \<open>Public methods\<close>

definition new_user :: "auth_env \<Rightarrow> auth_call \<Rightarrow> string \<Rightarrow> UserRecord" where
  "new_user env c pw =
     \<lparr>ur_hash = bcrypt_hash env (random_salt c) pw, ur_createdAt = iso_date env (now_ms c), unconfirmed = (codeDelivery env \<noteq> None)\<rparr>"

definition put_new :: PutOptions where
  "put_new = no_put_options\<lparr>ifNotExists := Bool True\<rparr>"

definition signUp :: "'s store_api \<Rightarrow> auth_env \<Rightarrow> auth_call \<Rightarrow> string \<Rightarrow> string \<Rightarrow> ('s, unit) auth" where
  "signUp api env c name pw =
     bindM (liftM (validatePassword env pw)) (\<lambda>_.
     bindM (catchM (on_users (store_put api (now_s c) name (Str (user_text (new_user env c pw))) put_new))
              (\<lambda>_. throwM (new_ApiError ''Username already exists'' (Num 409) (Some UserAlreadyExists) None None))) (\<lambda>_.
     bindM (clearLockout api env name) (\<lambda>_.
       case codeDelivery env of
         None \<Rightarrow> returnM ()
       | Some f \<Rightarrow> bindM (generateCodeM api env c ''signup'' name) (\<lambda>code. deliver f name code))))"

definition confirmSignUp :: "'s store_api \<Rightarrow> auth_env \<Rightarrow> auth_call \<Rightarrow> string \<Rightarrow> string \<Rightarrow> ('s, unit) auth" where
  "confirmSignUp api env c name code =
     bindM (verifyCodeM api env c ''signup'' name code) (\<lambda>_.
     bindM (getUserRecord api env c name) (\<lambda>user.
       case user of
         None \<Rightarrow> throwM invalid_code
       | Some r \<Rightarrow> on_users (store_put api (now_s c) name (Str (user_text (r\<lparr>unconfirmed := False\<rparr>))) no_put_options)))"

definition sign_in_failed :: "'s store_api \<Rightarrow> auth_env \<Rightarrow> auth_call \<Rightarrow> string \<Rightarrow> ('s, 'a) auth" where
  "sign_in_failed api env c name =
     bindM (emitSignInMetric env ''SignInFailure'') (\<lambda>_.
     bindM (recordFailedSignIn api env c name) (\<lambda>_. throwM invalid_credentials))"

definition signIn :: "'s store_api \<Rightarrow> auth_env \<Rightarrow> auth_call \<Rightarrow> string \<Rightarrow> string \<Rightarrow> ('s, AuthBasicUser) auth" where
  "signIn api env c name pw =
     bindM (assertNotLockedOut api env c name) (\<lambda>_.
     bindM (getUserRecord api env c name) (\<lambda>user.
       case user of
         None \<Rightarrow> sign_in_failed api env c name
       | Some r \<Rightarrow>
           if unconfirmed r then sign_in_failed api env c name
           else bindM (eventM (PasswordChecked name)) (\<lambda>_.
             if \<not> bcrypt_compare env pw (ur_hash r) then sign_in_failed api env c name
             else bindM (clearLockout api env name) (\<lambda>_.
                  bindM (setCookie api env c name) (\<lambda>_.
                  bindM (emitSignInMetric env ''SignInSuccess'') (\<lambda>_.
                    returnM (toAuthBasicUser name r)))))))"

definition signOut :: "'s store_api \<Rightarrow> auth_env \<Rightarrow> auth_call \<Rightarrow> ('s, unit) auth" where
  "signOut api env c = finallyM (revokeCurrentToken api env c) (clearCookie env c)"

definition resetPassword :: "'s store_api \<Rightarrow> auth_env \<Rightarrow> auth_call \<Rightarrow> string \<Rightarrow> ('s, unit) auth" where
  "resetPassword api env c name =
     (case codeDelivery env of
        None \<Rightarrow> throwM (new_ApiError ''Password reset not configured'' (Num 400) None None None)
      | Some f \<Rightarrow>
          bindM (getUserRecord api env c name) (\<lambda>user.
            case user of
              None \<Rightarrow> returnM ()
            | Some r \<Rightarrow> bindM (generateCodeM api env c ''reset'' name) (\<lambda>code. deliver f name code)))"

definition confirmResetPassword :: "'s store_api \<Rightarrow> auth_env \<Rightarrow> auth_call \<Rightarrow> string \<Rightarrow> string \<Rightarrow> string \<Rightarrow> ('s, unit) auth" where
  "confirmResetPassword api env c name code pw =
     bindM (verifyCodeM api env c ''reset'' name code) (\<lambda>_.
     bindM (liftM (validatePassword env pw)) (\<lambda>_.
     bindM (getUserRecord api env c name) (\<lambda>user.
       case user of
         None \<Rightarrow> throwM invalid_code
       | Some r \<Rightarrow>
           bindM (catchM (bumpSessionEpoch api c name) (\<lambda>e. throwInvalidationIncomplete
               ''AuthBasic: failed to bump session epoch on password reset; password not changed''
               ''Your password was not changed because other sessions could not be signed out. Request a new reset code and try again.''
               e)) (\<lambda>_.
           bindM (on_users (store_put api (now_s c) name
                    (Str (user_text (r\<lparr>ur_hash := bcrypt_hash env (random_salt c) pw\<rparr>))) no_put_options)) (\<lambda>_.
             catchM (bumpSessionEpoch api c name) (\<lambda>e. eventM (LogError
               ''AuthBasic: failed to bump session epoch after password write'' e)))))))"

section \<open>The state machine\<close>

record AuthField =
  field_name :: string
  field_label :: string
  field_type :: string
  field_default :: "string option"

record AuthAction =
  action_name :: string
  action_label :: string
  action_fields :: "AuthField list"

datatype auth_state_name = SignedOut | SignedIn | ConfirmingSignUp | ConfirmingPasswordReset

record AuthState =
  as_state :: auth_state_name
  as_user :: "AuthBasicUser option"
  as_actions :: "AuthAction list"
  as_error :: "string option"
  as_errorName :: "string option"

definition required_field :: "string \<Rightarrow> string \<Rightarrow> string \<Rightarrow> AuthField" where
  "required_field n l t = \<lparr>field_name = n, field_label = l, field_type = t, field_default = None\<rparr>"

definition credentials_fields :: "AuthField list" where
  "credentials_fields = [required_field ''username'' ''Username'' ''text'', required_field ''password'' ''Password'' ''password'']"

definition hidden_username :: "string \<Rightarrow> AuthField" where
  "hidden_username name = \<lparr>field_name = ''username'', field_label = ''Username'', field_type = ''hidden'', field_default = Some name\<rparr>"

definition signedOutState :: "auth_env \<Rightarrow> AuthState" where
  "signedOutState env =
     \<lparr>as_state = SignedOut, as_user = None,
      as_actions = [\<lparr>action_name = ''signIn'', action_label = ''Sign In'', action_fields = credentials_fields\<rparr>,
          \<lparr>action_name = ''signUp'', action_label = ''Create Account'', action_fields = credentials_fields\<rparr>]
        @ (if codeDelivery env \<noteq> None
           then [\<lparr>action_name = ''resetPassword'', action_label = ''Forgot Password'',
                  action_fields = [required_field ''username'' ''Username'' ''text'']\<rparr>] else []),
      as_error = None, as_errorName = None\<rparr>"

definition signedInState :: "AuthBasicUser \<Rightarrow> AuthState" where
  "signedInState user =
     \<lparr>as_state = SignedIn, as_user = Some user,
      as_actions = [\<lparr>action_name = ''signOut'', action_label = ''Sign Out'', action_fields = []\<rparr>],
      as_error = None, as_errorName = None\<rparr>"

definition confirmingSignUpState :: "string \<Rightarrow> AuthState" where
  "confirmingSignUpState name =
     \<lparr>as_state = ConfirmingSignUp, as_user = None,
      as_actions = [\<lparr>action_name = ''confirmSignUp'', action_label = ''Confirm Account'',
        action_fields = [hidden_username name, required_field ''code'' ''Verification Code'' ''text'',
          required_field ''password'' ''Password'' ''password'']\<rparr>],
      as_error = None, as_errorName = None\<rparr>"

definition confirmingPasswordResetState :: "string \<Rightarrow> AuthState" where
  "confirmingPasswordResetState name =
     \<lparr>as_state = ConfirmingPasswordReset, as_user = None,
      as_actions = [\<lparr>action_name = ''confirmResetPassword'', action_label = ''Reset Password'',
        action_fields = [hidden_username name, required_field ''code'' ''Reset Code'' ''text'',
          required_field ''newPassword'' ''New Password'' ''password'']\<rparr>],
      as_error = None, as_errorName = None\<rparr>"

datatype AuthActionInput =
    SignInAction string string
  | SignUpAction string string
  | ConfirmSignUpAction string string "string option"
  | SignOutAction
  | ResetPasswordAction string
  | ConfirmResetPasswordAction string string string
  | UnknownAction string

definition sign_in_state :: "'s store_api \<Rightarrow> auth_env \<Rightarrow> auth_call \<Rightarrow> string \<Rightarrow> string \<Rightarrow> ('s, AuthState) auth" where
  "sign_in_state api env c name pw = bindM (signIn api env c name pw) (\<lambda>user. returnM (signedInState user))"

text \<open>The \<open>switch\<close> inside the \<open>try\<close>.\<close>

fun auth_action :: "'s store_api \<Rightarrow> auth_env \<Rightarrow> auth_call \<Rightarrow> AuthActionInput \<Rightarrow> ('s, AuthState) auth" where
  "auth_action api env c (SignInAction name pw) = sign_in_state api env c name pw"
| "auth_action api env c (SignUpAction name pw) =
     bindM (signUp api env c name pw) (\<lambda>_.
       if codeDelivery env \<noteq> None then returnM (confirmingSignUpState name) else sign_in_state api env c name pw)"
| "auth_action api env c (ConfirmSignUpAction name code pw) =
     bindM (confirmSignUp api env c name code) (\<lambda>_.
       if \<not> present pw then throwM (new_ApiError ''Password required to complete confirmSignUp'' (Num 400) None None None)
       else sign_in_state api env c name (the pw))"
| "auth_action api env c SignOutAction = bindM (signOut api env c) (\<lambda>_. returnM (signedOutState env))"
| "auth_action api env c (ResetPasswordAction name) =
     bindM (resetPassword api env c name) (\<lambda>_. returnM (confirmingPasswordResetState name))"
| "auth_action api env c (ConfirmResetPasswordAction name code pw) =
     bindM (confirmResetPassword api env c name code pw) (\<lambda>_. returnM (signedOutState env))"
| "auth_action api env c (UnknownAction a) =
     returnM ((signedOutState env)\<lparr>as_error := Some (''Unknown action: '' @ a)\<rparr>)"

definition error_text :: "thrown \<Rightarrow> string" where
  "error_text e = (if isWireSafeError e then err_message e else ''An unexpected error occurred'')"

definition error_name_of :: "thrown \<Rightarrow> string option" where
  "error_name_of e =
     (case e of JsError n m api b s r ca \<Rightarrow> if api \<and> n \<noteq> DEFAULT_API_ERROR_NAME \<and> n \<noteq> [] then Some n else None
      | JsThrow v \<Rightarrow> None)"

definition setAuthState :: "'s store_api \<Rightarrow> auth_env \<Rightarrow> auth_call \<Rightarrow> AuthActionInput \<Rightarrow> ('s, AuthState) auth" where
  "setAuthState api env c input =
     catchM (auth_action api env c input) (\<lambda>e.
       bindM (if input = SignOutAction then returnM None else getUserFromCookie api env c) (\<lambda>current.
         returnM ((case current of Some u \<Rightarrow> signedInState u | None \<Rightarrow> signedOutState env)
           \<lparr>as_error := Some (error_text e), as_errorName := error_name_of e\<rparr>)))"

definition getAuthState :: "'s store_api \<Rightarrow> auth_env \<Rightarrow> auth_call \<Rightarrow> ('s, AuthState) auth" where
  "getAuthState api env c =
     bindM (getUserFromCookie api env c) (\<lambda>user.
       returnM (case user of Some u \<Rightarrow> signedInState u | None \<Rightarrow> signedOutState env))"

text \<open>The deprecated \<open>buildApi\<close>: its \<open>signUp\<close> signs in at once when codes are off.\<close>

definition buildApi_signUp :: "'s store_api \<Rightarrow> auth_env \<Rightarrow> auth_call \<Rightarrow> string \<Rightarrow> string \<Rightarrow> ('s, string) auth" where
  "buildApi_signUp api env c name pw =
     bindM (signUp api env c name pw) (\<lambda>_.
     bindM (if codeDelivery env = None then setCookie api env c name else returnM ()) (\<lambda>_. returnM name))"

definition buildApi_signIn :: "'s store_api \<Rightarrow> auth_env \<Rightarrow> auth_call \<Rightarrow> string \<Rightarrow> string \<Rightarrow> ('s, string) auth" where
  "buildApi_signIn api env c name pw = bindM (signIn api env c name pw) (\<lambda>user. returnM (username user))"

end
