(* ===== verification/AuthSignIn.thy ===== *)
theory AuthSignIn
  imports AuthBasic
begin

text \<open>
  What the methods of \<^verbatim>\<open>AuthBasic\<close> do on a store that works: sign-up, sign-in and the
  lockout they drive.
\<close>

section \<open>What the methods leave alone\<close>

text \<open>No method takes an event back.\<close>

definition grows :: "('s, 'a) auth \<Rightarrow> bool" where
  "grows m = (\<forall>w w' r. m w = Some (w', r) \<longrightarrow> prefix (auth_events w) (auth_events w'))"

named_theorems grows_intros "methods that only add events"

lemma grows_basic [grows_intros]:
  "grows (returnM a)" "grows (throwM e)" "grows (liftM r)" "grows (eventM x)" "grows (on_users f)" "grows (on_codes g)"
  by (auto simp: grows_def returnM_def throwM_def liftM_def eventM_def on_users_def on_codes_def split: prod.splits)

lemma grows_bind [grows_intros]: "grows m \<Longrightarrow> (\<And>a. grows (f a)) \<Longrightarrow> grows (bindM m f)"
  unfolding grows_def by (meson bindM_result prefix_order.trans)

lemma grows_catch [grows_intros]: "grows m \<Longrightarrow> (\<And>e. grows (h e)) \<Longrightarrow> grows (catchM m h)"
  by (fastforce simp: grows_def catchM_def intro: prefix_order.trans split: option.splits sum.splits)

lemma grows_cases [grows_intros]:
  "grows m \<Longrightarrow> (\<And>x. grows (f x)) \<Longrightarrow> grows (case z of None \<Rightarrow> m | Some x \<Rightarrow> f x)"
  "(b \<Longrightarrow> grows m) \<Longrightarrow> (\<not> b \<Longrightarrow> grows m') \<Longrightarrow> grows (if b then m else m')"
  by (auto split: option.split)

lemma grows_update [grows_intros]: "grows (\<lambda>w. Some (w\<lparr>set_cookie := x\<rparr>, r))"
  by (simp add: grows_def)

lemma grows_lockout [grows_intros]:
  "grows (emitSignInMetric env n)" "grows (readLockout api c u)" "grows (clearLockout api env u)"
  "grows (getUserRecord api env c u)" "grows (readSessionEpoch api c u)"
  unfolding emitSignInMetric_def readLockout_def clearLockout_def getUserRecord_def readSessionEpoch_def
  by (intro grows_intros)+

lemma grows_sign_in_parts [grows_intros]:
  "grows (recordFailedSignIn api env c u)" "grows (assertNotLockedOut api env c u)" "grows (setCookie api env c u)"
  unfolding recordFailedSignIn_def assertNotLockedOut_def setCookie_def by (intro grows_intros)+

lemma grows_signIn: "grows (signIn api env c u pw)"
  unfolding signIn_def sign_in_failed_def by (intro grows_intros)

lemma log_errors_prefix: "prefix (auth_events w) (auth_events w') \<Longrightarrow> log_errors w' = [] \<Longrightarrow> log_errors w = []"
  by (auto simp: log_errors_def prefix_def)

lemma sorted_ends:
  assumes "sorted (xs @ y # ys)" "xs \<noteq> []"
  shows "hd xs \<le> last xs" "last xs \<le> y"
proof -
  show "last xs \<le> y" using assms last_in_set [OF assms(2)] by (simp add: sorted_append)
  show "hd xs \<le> last xs" using assms by (cases xs) (auto simp: sorted_append last_ConsR)
qed

text \<open>Sign-ins one after the other.\<close>

fun sign_ins :: "'s store_api \<Rightarrow> auth_env \<Rightarrow> string \<Rightarrow> (auth_call \<times> string) list \<Rightarrow> 's auth_world \<Rightarrow>
    ('s auth_world \<times> (thrown, AuthBasicUser) res list) option" where
  "sign_ins api env u [] w = Some (w, [])"
| "sign_ins api env u ((c, pw) # cs) w =
     (case signIn api env c u pw w of
        None \<Rightarrow> None
      | Some (w', r) \<Rightarrow> (case sign_ins api env u cs w' of None \<Rightarrow> None | Some (w'', rs) \<Rightarrow> Some (w'', r # rs)))"

lemma sign_ins_grow: "sign_ins api env u cs w = Some (w', rs) \<Longrightarrow> prefix (auth_events w) (auth_events w')"
proof (induction cs arbitrary: w rs)
  case (Cons x cs)
  obtain c pw where x: "x = (c, pw)" by fastforce
  obtain w1 r rs1 where s: "signIn api env c u pw w = Some (w1, r)" "sign_ins api env u cs w1 = Some (w', rs1)"
    using Cons.prems x by (auto split: option.splits)
  show ?case using Cons.IH [OF s(2)] grows_signIn s(1) unfolding grows_def by (meson prefix_order.trans)
qed simp

text \<open>How many passwords a world has compared with a stored hash.\<close>

definition password_checks :: "'s auth_world \<Rightarrow> nat" where
  "password_checks w = length (filter (\<lambda>x. case x of PasswordChecked _ \<Rightarrow> True | _ \<Rightarrow> False) (auth_events w))"

lemma sign_in_failed_checks: "sign_in_failed api env c u w = Some (w', r) \<Longrightarrow> password_checks w' = password_checks w"
  by (auto simp: sign_in_failed_def recordFailedSignIn_def readLockout_def emitSignInMetric_def password_checks_def
      bindM_def catchM_def on_codes_def eventM_def returnM_def throwM_def split: option.splits sum.splits prod.splits if_splits)

context reliable_store begin

definition world_ok :: "'s auth_world \<Rightarrow> bool" where
  "world_ok w = (inv (users w) \<and> inv (codes w))"

lemma getUserRecord_run:
  assumes "world_ok w"
  obtains s' where "getUserRecord api env c u w = Some (w\<lparr>users := s'\<rparr>, read_user env (live (now_s c) (content (users w) u)))"
    and "inv s'" "reaped (now_s c) (content (users w)) (content s')"
proof -
  obtain s' where s: "store_get api (now_s c) u (users w) = (s', Inr (live (now_s c) (content (users w) u)))" "inv s'"
      "reaped (now_s c) (content (users w)) (content s')" using get_run [of "users w" "now_s c" u] assms unfolding world_ok_def by blast
  have "getUserRecord api env c u w = Some (w\<lparr>users := s'\<rparr>, read_user env (live (now_s c) (content (users w) u)))"
    using s(1) by (simp add: getUserRecord_def bindM_def on_users_def liftM_def)
  then show ?thesis using that s by blast
qed

lemma readLockout_run:
  assumes "world_ok w"
  obtains s' where "readLockout api c u w = Some (w\<lparr>codes := s'\<rparr>, Inr (counter (now_s c) (content (codes w) (lockoutKey u))))"
    and "inv s'" "reaped (now_s c) (content (codes w)) (content s')"
proof -
  obtain s' where s: "store_get api (now_s c) (lockoutKey u) (codes w) = (s', Inr (live (now_s c) (content (codes w) (lockoutKey u))))"
      "inv s'" "reaped (now_s c) (content (codes w)) (content s')" using get_run [of "codes w" "now_s c" "lockoutKey u"] assms unfolding world_ok_def by blast
  have "readLockout api c u w = Some (w\<lparr>codes := s'\<rparr>, Inr (counter (now_s c) (content (codes w) (lockoutKey u))))"
    using s(1) by (simp add: readLockout_def bindM_def on_codes_def returnM_def counter_def)
  then show ?thesis using that s by blast
qed

text \<open>A locked account: refused before anything is read about the user.\<close>

lemma signIn_locked:
  assumes "world_ok w" "lockout env = Some p" "is_locked p (now_ms c) (counter (now_s c) (content (codes w) (lockoutKey u)))"
  obtains w' where "signIn api env c u pw w = Some (w', Inl account_locked)" "world_ok w'" "users w' = users w"
    and "auth_events w' = auth_events w @ (if metrics env then [Metric ''SignInLocked''] else [])"
    and "reaped (now_s c) (content (codes w)) (content (codes w'))"
proof -
  obtain s' where s: "readLockout api c u w = Some (w\<lparr>codes := s'\<rparr>, Inr (counter (now_s c) (content (codes w) (lockoutKey u))))"
      "inv s'" "reaped (now_s c) (content (codes w)) (content s')" using readLockout_run [OF assms(1)] .
  let ?w = "(w\<lparr>codes := s'\<rparr>)\<lparr>auth_events := auth_events w @ (if metrics env then [Metric ''SignInLocked''] else [])\<rparr>"
  have "assertNotLockedOut api env c u w = Some (?w, Inl account_locked)"
    using assms(2,3) s(1) by (simp add: assertNotLockedOut_def bindM_def emitSignInMetric_def eventM_def returnM_def throwM_def)
  then have "signIn api env c u pw w = Some (?w, Inl account_locked)" by (simp add: signIn_def bindM_def)
  then show ?thesis using that [of ?w] assms(1) s by (simp add: world_ok_def)
qed

text \<open>An account that is not locked: the check passes.\<close>

lemma assert_passes:
  assumes "world_ok w" "\<And>p. lockout env = Some p \<Longrightarrow> \<not> is_locked p (now_ms c) (counter (now_s c) (content (codes w) (lockoutKey u)))"
  obtains s' where "assertNotLockedOut api env c u w = Some (w\<lparr>codes := s'\<rparr>, Inr ())" "inv s'"
    and "reaped (now_s c) (content (codes w)) (content s')"
proof (cases "lockout env")
  case None
  then show ?thesis using that [of "codes w"] assms(1) by (simp add: assertNotLockedOut_def returnM_def world_ok_def)
next
  case (Some p)
  obtain s' where s: "readLockout api c u w = Some (w\<lparr>codes := s'\<rparr>, Inr (counter (now_s c) (content (codes w) (lockoutKey u))))"
      "inv s'" "reaped (now_s c) (content (codes w)) (content s')" using readLockout_run [OF assms(1)] .
  have "assertNotLockedOut api env c u w = Some (w\<lparr>codes := s'\<rparr>, Inr ())"
    using assms(2) [OF Some] Some s(1) by (simp add: assertNotLockedOut_def bindM_def returnM_def)
  then show ?thesis using that s by blast
qed

lemma recordFailedSignIn_run:
  assumes "world_ok w"
  obtains w' where "recordFailedSignIn api env c u w = Some (w', Inr ())" "world_ok w'" "users w' = users w"
    and "(\<And>p. lockout env = Some p \<Longrightarrow> 0 < windowSeconds p
           \<and> fits (lockout_text (failed_row p (now_ms c) (counter (now_s c) (content (codes w) (lockoutKey u))))))
         \<Longrightarrow> auth_events w' = auth_events w"
proof (cases "lockout env")
  case None
  then show ?thesis using that [of w] assms by (simp add: recordFailedSignIn_def returnM_def)
next
  case (Some p)
  obtain s1 where s1: "readLockout api c u w = Some (w\<lparr>codes := s1\<rparr>, Inr (counter (now_s c) (content (codes w) (lockoutKey u))))" "inv s1"
    using readLockout_run [OF assms] by metis
  let ?row = "failed_row p (now_ms c) (counter (now_s c) (content (codes w) (lockoutKey u)))"
  obtain s2 q where q: "store_put api (now_s c) (lockoutKey u) (Str (lockout_text ?row))
      (put_for (max (windowSeconds p) (lockoutSeconds p))) s1 = (s2, q)" by fastforce
  have s2: "inv s2" using put_done [OF s1(2), of "now_s c"] put_failed [OF s1(2), of "now_s c"] q by (cases q) auto
  have stored: "q = Inr ()" if ok: "0 < windowSeconds p" "fits (lockout_text ?row)"
  proof -
    have pos: "0 < max (windowSeconds p) (lockoutSeconds p)" using ok(1) by simp
    from put_works [OF s1(2) ok(2) put_for_sel(2) [OF pos] put_for_sel(1), of "now_s c" "lockoutKey u"] q show ?thesis by simp
  qed
  show ?thesis
  proof (cases q)
    case (Inl e)
    then show ?thesis
      using that [of "w\<lparr>codes := s2, auth_events := auth_events w @ [LogError ''AuthBasic: failed to record sign-in throttle counter'' e]\<rparr>"]
        assms s1(1) q Some s2 stored
      by (auto simp: recordFailedSignIn_def bindM_def catchM_def on_codes_def eventM_def world_ok_def)
  next
    case (Inr x)
    then show ?thesis
      using that [of "w\<lparr>codes := s2\<rparr>"] assms s1(1) q Some s2
      by (simp add: recordFailedSignIn_def bindM_def catchM_def on_codes_def world_ok_def)
  qed
qed

lemma clearLockout_run:
  assumes "world_ok w"
  obtains s' where "clearLockout api env u w = Some (w\<lparr>codes := s'\<rparr>, Inr ())" "inv s'"
    and "\<And>k. k \<noteq> lockoutKey u \<Longrightarrow> content s' k = content (codes w) k"
proof (cases "lockout env = None")
  case True
  then show ?thesis using that [of "codes w"] assms by (simp add: clearLockout_def returnM_def world_ok_def)
next
  case False
  have "delete_allowed (content (codes w) (lockoutKey u)) no_delete_options"
    by (simp add: delete_allowed_def no_delete_options_def)
  then obtain s' where "store_delete api (lockoutKey u) no_delete_options (codes w) = (s', Inr ())" "inv s'"
      "content s' = (content (codes w))(lockoutKey u := None)"
    using delete_run assms unfolding world_ok_def by metis
  then show ?thesis using that [of s'] False by (simp add: clearLockout_def catchM_def on_codes_def)
qed

lemma readSessionEpoch_run:
  assumes "world_ok w"
  obtains s' where "readSessionEpoch api c u w = Some (w\<lparr>codes := s'\<rparr>,
      Inr (parseSessionEpoch (raw_of (live (now_s c) (content (codes w) (epochKey u))))))"
    and "inv s'" "reaped (now_s c) (content (codes w)) (content s')"
proof -
  obtain s' where s: "store_get api (now_s c) (epochKey u) (codes w) = (s', Inr (live (now_s c) (content (codes w) (epochKey u))))"
      "inv s'" "reaped (now_s c) (content (codes w)) (content s')"
    using get_run [of "codes w" "now_s c" "epochKey u"] assms unfolding world_ok_def by blast
  then show ?thesis using that [of s'] by (simp add: readSessionEpoch_def bindM_def on_codes_def returnM_def)
qed

lemma setCookie_run:
  assumes "world_ok w" "secret env = Inr sec"
  obtains s' where "setCookie api env c u w = Some (w\<lparr>codes := s', set_cookie := Some (session_cookie env c (jwt_sign env sec
        (new_claims env c u (parseSessionEpoch (raw_of (live (now_s c) (content (codes w) (epochKey u))))))))\<rparr>, Inr ())"
    and "inv s'" "reaped (now_s c) (content (codes w)) (content s')"
proof -
  obtain s' where s: "readSessionEpoch api c u w = Some (w\<lparr>codes := s'\<rparr>,
      Inr (parseSessionEpoch (raw_of (live (now_s c) (content (codes w) (epochKey u))))))"
      "inv s'" "reaped (now_s c) (content (codes w)) (content s')"
    using readSessionEpoch_run [OF assms(1)] by metis
  then show ?thesis using that [of s'] assms(2) by (simp add: setCookie_def bindM_def liftM_def s(1))
qed

text \<open>What a sign-in that ended in \<open>InvalidCredentials\<close> has done to the counter.\<close>

lemma sign_in_failed_run:
  assumes "world_ok w"
  obtains w' where "sign_in_failed api env c u w = Some (w', Inl invalid_credentials)" "world_ok w'" "users w' = users w"
    and "(\<And>p. lockout env = Some p \<Longrightarrow> 0 < windowSeconds p
           \<and> fits (lockout_text (failed_row p (now_ms c) (counter (now_s c) (content (codes w) (lockoutKey u))))))
         \<Longrightarrow> log_errors w' = log_errors w"
    and "lockout env = Some p \<Longrightarrow> 0 < windowSeconds p \<Longrightarrow> log_errors w' = [] \<Longrightarrow>
      content (codes w') (lockoutKey u) =
        Some (lockout_text (failed_row p (now_ms c) (counter (now_s c) (content (codes w) (lockoutKey u)))),
              Some (now_s c + \<lceil>kept_seconds p\<rceil>))"
proof -
  let ?w = "w\<lparr>auth_events := auth_events w @ (if metrics env then [Metric ''SignInFailure''] else [])\<rparr>"
  have e: "emitSignInMetric env ''SignInFailure'' w = Some (?w, Inr ())"
    by (simp add: emitSignInMetric_def eventM_def returnM_def)
  have ok: "world_ok ?w" using assms by (simp add: world_ok_def)
  obtain w' where w': "recordFailedSignIn api env c u ?w = Some (w', Inr ())" "world_ok w'" "users w' = users ?w"
    and ev: "(\<And>p. lockout env = Some p \<Longrightarrow> 0 < windowSeconds p
           \<and> fits (lockout_text (failed_row p (now_ms c) (counter (now_s c) (content (codes w) (lockoutKey u))))))
         \<Longrightarrow> auth_events w' = auth_events ?w"
    using recordFailedSignIn_run [OF ok, where env = env and c = c and u = u] by auto
  have "sign_in_failed api env c u w = Some (w', Inl invalid_credentials)"
    by (simp add: sign_in_failed_def bindM_def e w'(1) throwM_def)
  moreover have "content (codes w') (lockoutKey u) =
        Some (lockout_text (failed_row p (now_ms c) (counter (now_s c) (content (codes w) (lockoutKey u)))),
              Some (now_s c + \<lceil>kept_seconds p\<rceil>))"
    if "lockout env = Some p" "0 < windowSeconds p" "log_errors w' = []"
    using recordFailedSignIn_result [OF _ that(1,2) w'(1) that(3)] ok by (simp add: world_ok_def)
  moreover have "(\<And>p. lockout env = Some p \<Longrightarrow> 0 < windowSeconds p
           \<and> fits (lockout_text (failed_row p (now_ms c) (counter (now_s c) (content (codes w) (lockoutKey u))))))
      \<Longrightarrow> log_errors w' = log_errors w" using ev by (simp add: log_errors_def)
  ultimately show ?thesis using that [of w'] w'(2,3) by simp
qed

definition not_locked :: "auth_env \<Rightarrow> auth_call \<Rightarrow> string \<Rightarrow> 's auth_world \<Rightarrow> bool" where
  "not_locked env c u w = (\<forall>p. lockout env = Some p \<longrightarrow>
     \<not> is_locked p (now_ms c) (counter (now_s c) (content (codes w) (lockoutKey u))))"

definition found_user :: "auth_env \<Rightarrow> auth_call \<Rightarrow> string \<Rightarrow> 's auth_world \<Rightarrow> (thrown, UserRecord option) res" where
  "found_user env c u w = read_user env (live (now_s c) (content (users w) u))"

text \<open>The check and the look-up a sign-in starts with.\<close>

lemma signIn_start:
  assumes "world_ok w" "not_locked env c u w"
  obtains w1 where "signIn api env c u pw w = bindM (liftM (found_user env c u w)) (\<lambda>user.
       case user of
         None \<Rightarrow> sign_in_failed api env c u
       | Some r \<Rightarrow>
           if unconfirmed r then sign_in_failed api env c u
           else bindM (eventM (PasswordChecked u)) (\<lambda>_.
             if \<not> bcrypt_compare env pw (ur_hash r) then sign_in_failed api env c u
             else bindM (clearLockout api env u) (\<lambda>_.
                  bindM (setCookie api env c u) (\<lambda>_.
                  bindM (emitSignInMetric env ''SignInSuccess'') (\<lambda>_.
                    returnM (toAuthBasicUser u r)))))) w1"
    and "world_ok w1" "auth_events w1 = auth_events w" "set_cookie w1 = set_cookie w"
    and "reaped (now_s c) (content (users w)) (content (users w1))"
    and "reaped (now_s c) (content (codes w)) (content (codes w1))"
proof -
  obtain s1 where s1: "assertNotLockedOut api env c u w = Some (w\<lparr>codes := s1\<rparr>, Inr ())" "inv s1"
      "reaped (now_s c) (content (codes w)) (content s1)"
    using assert_passes [OF assms(1)] assms(2) unfolding not_locked_def by metis
  have ok: "world_ok (w\<lparr>codes := s1\<rparr>)" using assms(1) s1(2) by (simp add: world_ok_def)
  obtain s2 where s2: "getUserRecord api env c u (w\<lparr>codes := s1\<rparr>) = Some (w\<lparr>codes := s1, users := s2\<rparr>, found_user env c u w)"
      "inv s2" "reaped (now_s c) (content (users w)) (content s2)"
    using getUserRecord_run [OF ok, where env = env and c = c and u = u] by (auto simp: found_user_def)
  show ?thesis
    by (rule that [of "w\<lparr>codes := s1, users := s2\<rparr>"])
      (use s1 s2 in \<open>simp_all add: signIn_def bindM_def liftM_def world_ok_def\<close>)
qed

lemma signIn_wrong:
  assumes "world_ok w" "not_locked env c u w" "found_user env c u w = Inr user"
    and "user = None \<or> (\<exists>r. user = Some r \<and> (unconfirmed r \<or> \<not> bcrypt_compare env pw (ur_hash r)))"
  obtains w' where "signIn api env c u pw w = Some (w', Inl invalid_credentials)" "world_ok w'"
    and "(\<And>p. lockout env = Some p \<Longrightarrow> 0 < windowSeconds p
           \<and> fits (lockout_text (failed_row p (now_ms c) (counter (now_s c) (content (codes w) (lockoutKey u))))))
         \<Longrightarrow> log_errors w' = log_errors w"
    and "reaped (now_s c) (content (users w)) (content (users w'))"
    and "password_checks w' = password_checks w + (if user = None \<or> unconfirmed (the user) then 0 else 1)"
    and "lockout env = Some p \<Longrightarrow> 0 < windowSeconds p \<Longrightarrow> log_errors w' = [] \<Longrightarrow>
      content (codes w') (lockoutKey u) =
        Some (lockout_text (failed_row p (now_ms c) (counter (now_s c) (content (codes w) (lockoutKey u)))),
              Some (now_s c + \<lceil>kept_seconds p\<rceil>))"
proof -
  obtain w1 where w1: "signIn api env c u pw w = bindM (liftM (found_user env c u w)) (\<lambda>user.
       case user of
         None \<Rightarrow> sign_in_failed api env c u
       | Some r \<Rightarrow>
           if unconfirmed r then sign_in_failed api env c u
           else bindM (eventM (PasswordChecked u)) (\<lambda>_.
             if \<not> bcrypt_compare env pw (ur_hash r) then sign_in_failed api env c u
             else bindM (clearLockout api env u) (\<lambda>_.
                  bindM (setCookie api env c u) (\<lambda>_.
                  bindM (emitSignInMetric env ''SignInSuccess'') (\<lambda>_.
                    returnM (toAuthBasicUser u r)))))) w1"
      "world_ok w1" "auth_events w1 = auth_events w" "set_cookie w1 = set_cookie w"
      "reaped (now_s c) (content (users w)) (content (users w1))" "reaped (now_s c) (content (codes w)) (content (codes w1))"
    using signIn_start [OF assms(1,2)] .
  let ?x = "if user = None \<or> unconfirmed (the user) then [] else [PasswordChecked u]"
  let ?w = "w1\<lparr>auth_events := auth_events w1 @ ?x\<rparr>"
  have start: "signIn api env c u pw w = sign_in_failed api env c u ?w"
    using assms(3,4) unfolding w1(1) by (cases user) (auto simp: auth_simps)
  have ok: "world_ok ?w" using w1(2) by (simp add: world_ok_def)
  obtain w' where w': "sign_in_failed api env c u ?w = Some (w', Inl invalid_credentials :: (thrown, AuthBasicUser) res)"
      "world_ok w'" "users w' = users ?w"
    and ev: "(\<And>p. lockout env = Some p \<Longrightarrow> 0 < windowSeconds p
           \<and> fits (lockout_text (failed_row p (now_ms c) (counter (now_s c) (content (codes ?w) (lockoutKey u))))))
         \<Longrightarrow> log_errors w' = log_errors ?w"
    and cnt: "lockout env = Some p \<Longrightarrow> 0 < windowSeconds p \<Longrightarrow> log_errors w' = [] \<Longrightarrow>
      content (codes w') (lockoutKey u) =
        Some (lockout_text (failed_row p (now_ms c) (counter (now_s c) (content (codes ?w) (lockoutKey u)))),
              Some (now_s c + \<lceil>kept_seconds p\<rceil>))"
    using sign_in_failed_run [OF ok, where env = env and c = c and u = u and p = p] by blast
  have same: "counter (now_s c) (content (codes ?w) (lockoutKey u)) = counter (now_s c) (content (codes w) (lockoutKey u))"
    using w1(6) by (simp add: counter_def)
  show ?thesis
  proof (rule that [of w'])
    show "signIn api env c u pw w = Some (w', Inl invalid_credentials)" unfolding start by (rule w'(1))
    show "reaped (now_s c) (content (users w)) (content (users w'))" using w1(5) w'(3) by simp
    show "password_checks w' = password_checks w + (if user = None \<or> unconfirmed (the user) then 0 else 1)"
      using sign_in_failed_checks [OF w'(1)] w1(3) by (simp add: password_checks_def)
    assume "\<And>p. lockout env = Some p \<Longrightarrow> 0 < windowSeconds p
           \<and> fits (lockout_text (failed_row p (now_ms c) (counter (now_s c) (content (codes w) (lockoutKey u)))))"
    then have "log_errors w' = log_errors ?w" using ev same by simp
    also have "... = log_errors w" using w1(3) by (simp add: log_errors_def)
    finally show "log_errors w' = log_errors w" .
  qed (use w'(2) cnt same in simp_all)
qed

text \<open>The right password: a session cookie, and no failures left.\<close>

lemma signIn_right:
  assumes "world_ok w" "not_locked env c u w" "found_user env c u w = Inr (Some r)" "\<not> unconfirmed r"
    and "bcrypt_compare env pw (ur_hash r)" "secret env = Inr sec"
  obtains w' where "signIn api env c u pw w = Some (w', Inr (toAuthBasicUser u r))" "world_ok w'"
    and "reaped (now_s c) (content (users w)) (content (users w'))"
    and "set_cookie w' = Some (session_cookie env c (jwt_sign env sec
          (new_claims env c u (parseSessionEpoch (raw_of (live (now_s c) (content (codes w) (epochKey u))))))))"
    and "\<And>k now. k \<noteq> lockoutKey u \<Longrightarrow> now_s c \<le> now \<Longrightarrow> live now (content (codes w') k) = live now (content (codes w) k)"
proof -
  obtain w1 where w1: "signIn api env c u pw w = bindM (liftM (found_user env c u w)) (\<lambda>user.
       case user of
         None \<Rightarrow> sign_in_failed api env c u
       | Some r \<Rightarrow>
           if unconfirmed r then sign_in_failed api env c u
           else bindM (eventM (PasswordChecked u)) (\<lambda>_.
             if \<not> bcrypt_compare env pw (ur_hash r) then sign_in_failed api env c u
             else bindM (clearLockout api env u) (\<lambda>_.
                  bindM (setCookie api env c u) (\<lambda>_.
                  bindM (emitSignInMetric env ''SignInSuccess'') (\<lambda>_.
                    returnM (toAuthBasicUser u r)))))) w1"
      "world_ok w1" "auth_events w1 = auth_events w" "set_cookie w1 = set_cookie w"
      "reaped (now_s c) (content (users w)) (content (users w1))" "reaped (now_s c) (content (codes w)) (content (codes w1))"
    using signIn_start [OF assms(1,2)] .
  let ?w = "w1\<lparr>auth_events := auth_events w1 @ [PasswordChecked u]\<rparr>"
  have ok: "world_ok ?w" using w1(2) by (simp add: world_ok_def)
  obtain s2 where s2: "clearLockout api env u ?w = Some (?w\<lparr>codes := s2\<rparr>, Inr ())" "inv s2"
      "\<And>k. k \<noteq> lockoutKey u \<Longrightarrow> content s2 k = content (codes ?w) k"
    using clearLockout_run [OF ok, where env = env and u = u] by metis
  have ok2: "world_ok (?w\<lparr>codes := s2\<rparr>)" using ok s2(2) by (simp add: world_ok_def)
  let ?claims = "new_claims env c u (parseSessionEpoch (raw_of (live (now_s c) (content s2 (epochKey u)))))"
  obtain s3 where s3: "setCookie api env c u (?w\<lparr>codes := s2\<rparr>) =
      Some (?w\<lparr>codes := s3, set_cookie := Some (session_cookie env c (jwt_sign env sec ?claims))\<rparr>, Inr ())"
      "inv s3" "reaped (now_s c) (content s2) (content s3)"
    using setCookie_run [OF ok2 assms(6), where c = c and u = u] by auto
  have key: "epochKey u \<noteq> lockoutKey u" by (simp add: epochKey_def lockoutKey_def)
  then have claims: "?claims = new_claims env c u (parseSessionEpoch (raw_of (live (now_s c) (content (codes w) (epochKey u)))))"
    using s2(3) w1(6) by simp
  let ?w' = "?w\<lparr>codes := s3, set_cookie := Some (session_cookie env c (jwt_sign env sec ?claims)),
     auth_events := auth_events ?w @ (if metrics env then [Metric ''SignInSuccess''] else [])\<rparr>"
  have run: "signIn api env c u pw w = Some (?w', Inr (toAuthBasicUser u r))"
    using assms(3-5) s2(1) s3(1) unfolding w1(1)
    by (simp add: auth_simps bindM_def emitSignInMetric_def)
  show ?thesis
  proof (rule that [OF run])
    fix k now assume "k \<noteq> lockoutKey u" "now_s c \<le> now"
    then show "live now (content (codes ?w') k) = live now (content (codes w) k)" using s3(3) s2(3) w1(6) by simp
  qed (use w1 s3(2) claims in \<open>simp_all add: world_ok_def\<close>)
qed

lemma bad_row_not_invalid [simp]: "bad_row env raw \<noteq> invalid_credentials"
  by (simp add: bad_row_def invalid_credentials_def error_defs)

lemma read_user_error: "read_user env v = Inl e \<Longrightarrow> e \<noteq> invalid_credentials"
  by (auto simp: read_user_def Let_def split: if_splits option.splits)

lemma locked_not_invalid [simp]: "account_locked \<noteq> invalid_credentials"
  by (simp add: account_locked_def invalid_credentials_def error_defs)

lemma signIn_invalid:
  assumes "world_ok w" "lockout env = Some p" "0 < windowSeconds p" "secret env = Inr sec"
    and "signIn api env c u pw w = Some (w', Inl invalid_credentials)" "log_errors w' = []"
  shows "world_ok w' \<and> content (codes w') (lockoutKey u) =
        Some (lockout_text (failed_row p (now_ms c) (counter (now_s c) (content (codes w) (lockoutKey u)))),
              Some (now_s c + \<lceil>kept_seconds p\<rceil>))"
proof -
  have nl: "not_locked env c u w"
    using signIn_locked [OF assms(1,2), of c u pw] assms(2,5) unfolding not_locked_def
    by (metis locked_not_invalid option.inject prod.inject sum.inject(1))
  show ?thesis
  proof (cases "found_user env c u w")
    case (Inl e)
    obtain w1 where "signIn api env c u pw w = Some (w1, Inl e)"
      using signIn_start [OF assms(1) nl, where pw = pw] Inl by (auto simp: auth_simps)
    then show ?thesis using assms(5) read_user_error Inl unfolding found_user_def by (metis option.inject prod.inject sum.inject(1))
  next
    case (Inr user)
    show ?thesis
    proof (cases "user = None \<or> (\<exists>r. user = Some r \<and> (unconfirmed r \<or> \<not> bcrypt_compare env pw (ur_hash r)))")
      case True
      obtain w1 where w1: "signIn api env c u pw w = Some (w1, Inl invalid_credentials)" "world_ok w1"
          "lockout env = Some p \<Longrightarrow> 0 < windowSeconds p \<Longrightarrow> log_errors w1 = [] \<Longrightarrow>
            content (codes w1) (lockoutKey u) =
              Some (lockout_text (failed_row p (now_ms c) (counter (now_s c) (content (codes w) (lockoutKey u)))),
                    Some (now_s c + \<lceil>kept_seconds p\<rceil>))"
        using signIn_wrong [OF assms(1) nl Inr True, where p = p] by blast
      then have "w1 = w'" using assms(5) by simp
      then show ?thesis using w1 assms(2,3,6) by simp
    next
      case False
      then obtain r where r: "user = Some r" "\<not> unconfirmed r" "bcrypt_compare env pw (ur_hash r)" by auto
      obtain w1 x where "signIn api env c u pw w = Some (w1, Inr x)"
        using signIn_right [OF assms(1) nl Inr [unfolded r(1)] r(2,3) assms(4)] by metis
      then show ?thesis using assms(5) by simp
    qed
  qed
qed

text \<open>A run of failures, and the lock at its end.\<close>

lemma sign_ins_counted:
  assumes "sign_ins api env u cs w = Some (w', rs)" "\<forall>r \<in> set rs. r = Inl invalid_credentials" "log_errors w' = []"
    and "world_ok w" "lockout env = Some p" "1 \<le> maxAttempts p" "0 < windowSeconds p" "secret env = Inr sec"
    and "counted p ts r" "content (codes w) (lockoutKey u) = Some (lockout_text r, Some (last ts div 1000 + \<lceil>kept_seconds p\<rceil>))"
    and "sorted (ts @ map (\<lambda>(c, pw). now_ms c) cs)"
    and "\<forall>(c, pw) \<in> set cs. rat_of_int (now_ms c) + 1000 \<le> rat_of_int (hd ts) + windowSeconds p * 1000"
  shows "world_ok w' \<and> (\<exists>r'. counted p (ts @ map (\<lambda>(c, pw). now_ms c) cs) r'
    \<and> content (codes w') (lockoutKey u) =
        Some (lockout_text r', Some (last (ts @ map (\<lambda>(c, pw). now_ms c) cs) div 1000 + \<lceil>kept_seconds p\<rceil>)))"
  using assms(1-4,9-12)
proof (induction cs arbitrary: w rs ts r)
  case Nil
  then show ?case by auto
next
  case (Cons x cs)
  obtain c pw where x: "x = (c, pw)" by fastforce
  obtain w1 q rs1 where s: "signIn api env c u pw w = Some (w1, q)" "sign_ins api env u cs w1 = Some (w', rs1)" "rs = q # rs1"
    using Cons.prems(1) x by (auto split: option.splits)
  have q: "q = Inl invalid_credentials" using Cons.prems(2) s(3) by simp
  have le: "log_errors w1 = []" using sign_ins_grow [OF s(2)] Cons.prems(3) log_errors_prefix by blast
  have ts: "ts \<noteq> []" using Cons.prems(5) by (simp add: counted_def)
  have "hd ts \<le> last ts" "last ts \<le> now_ms c"
    using sorted_ends [of ts "now_ms c" "map (\<lambda>(c, pw). now_ms c) cs"] Cons.prems(7) ts x by simp_all
  have within: "rat_of_int (now_ms c) + 1000 \<le> rat_of_int (hd ts) + windowSeconds p * 1000" using Cons.prems(8) x by simp
  have "windowSeconds p * 1000 \<le> kept_seconds p * 1000" by (simp add: kept_seconds_def)
  moreover have "rat_of_int (hd ts) \<le> rat_of_int (last ts)" using \<open>hd ts \<le> last ts\<close> by simp
  ultimately have "rat_of_int (now_ms c) + 1000 \<le> rat_of_int (last ts) + kept_seconds p * 1000"
    using within by linarith
  then have "now_s c < last ts div 1000 + \<lceil>kept_seconds p\<rceil>" unfolding now_s_def by (rule row_outlives)
  then have cnt: "counter (now_s c) (content (codes w) (lockoutKey u)) = Some r"
    unfolding Cons.prems(6) counter_Some by simp
  note w1 = signIn_invalid [OF Cons.prems(4) assms(5,7,8) s(1) [unfolded q] le, unfolded cnt]
  have "rat_of_int (now_ms c - hd ts) < windowSeconds p * 1000" using within by simp
  then have nxt: "counted p (ts @ [now_ms c]) (failed_row p (now_ms c) (Some r))"
    by (rule counted_next [OF assms(6) Cons.prems(5)])
  have "world_ok w' \<and> (\<exists>r'. counted p ((ts @ [now_ms c]) @ map (\<lambda>(c, pw). now_ms c) cs) r'
    \<and> content (codes w') (lockoutKey u) =
        Some (lockout_text r', Some (last ((ts @ [now_ms c]) @ map (\<lambda>(c, pw). now_ms c) cs) div 1000 + \<lceil>kept_seconds p\<rceil>)))"
  proof (rule Cons.IH [OF s(2) _ Cons.prems(3) _ nxt])
    show "\<forall>r \<in> set rs1. r = Inl invalid_credentials" using Cons.prems(2) s(3) by simp
    show "world_ok w1" using w1 by simp
    show "content (codes w1) (lockoutKey u) = Some (lockout_text (failed_row p (now_ms c) (Some r)),
        Some (last (ts @ [now_ms c]) div 1000 + \<lceil>kept_seconds p\<rceil>))" using w1 by (simp add: now_s_def)
    show "sorted ((ts @ [now_ms c]) @ map (\<lambda>(c, pw). now_ms c) cs)" using Cons.prems(7) x by simp
    show "\<forall>(c', pw) \<in> set cs. rat_of_int (now_ms c') + 1000 \<le> rat_of_int (hd (ts @ [now_ms c])) + windowSeconds p * 1000"
      using Cons.prems(8) ts by simp
  qed
  then show ?case using x by simp
qed

lemma locked_sign_ins:
  assumes "world_ok w" "lockout env = Some p"
    and "\<And>c pw. (c, pw) \<in> set cs \<Longrightarrow> is_locked p (now_ms c) (counter (now_s c) (content (codes w) (lockoutKey u)))"
    and "sorted (map (\<lambda>(c, pw). now_ms c) cs)"
  shows "\<exists>w'. sign_ins api env u cs w = Some (w', map (\<lambda>_. Inl account_locked) cs) \<and> users w' = users w
    \<and> password_checks w' = password_checks w"
  using assms(1,3,4)
proof (induction cs arbitrary: w)
  case (Cons x cs)
  obtain c pw where x: "x = (c, pw)" by fastforce
  have lk: "is_locked p (now_ms c) (counter (now_s c) (content (codes w) (lockoutKey u)))" using Cons.prems(2) [of c pw] x by simp
  obtain w1 where w1: "signIn api env c u pw w = Some (w1, Inl account_locked)" "world_ok w1" "users w1 = users w"
      "auth_events w1 = auth_events w @ (if metrics env then [Metric ''SignInLocked''] else [])"
      "reaped (now_s c) (content (codes w)) (content (codes w1))"
    using signIn_locked [OF Cons.prems(1) assms(2) lk] by metis
  have later: "now_s c \<le> now_s c'" if "(c', pw') \<in> set cs" for c' pw'
    using Cons.prems(3) that x unfolding now_s_def by (force intro: zdiv_mono1)
  have "is_locked p (now_ms c') (counter (now_s c') (content (codes w1) (lockoutKey u)))" if "(c', pw') \<in> set cs" for c' pw'
    using Cons.prems(2) [of c' pw'] that later [OF that] w1(5) by (simp add: counter_def)
  then obtain w2 where "sign_ins api env u cs w1 = Some (w2, map (\<lambda>_. Inl account_locked) cs)" "users w2 = users w1"
      "password_checks w2 = password_checks w1"
    using Cons.IH [OF w1(2)] Cons.prems(3) x by auto
  then show ?case using w1 x by (auto simp: password_checks_def)
qed simp

end

end
