(* ===== verification/AuthThrottle.thy ===== *)
theory AuthThrottle
  imports AuthSignIn
begin

text \<open>
  What sign-in throttling of \<^verbatim>\<open>packages/bb-auth-basic/src/index.ts\<close> gives on the local
  key-value store: a lock that holds, and how it ends.
\<close>

section \<open>A lock holds\<close>

lemma counted_locked:
  assumes "counted p ts r" "1 \<le> maxAttempts p" "int (length ts) = maxAttempts p"
  shows "lk_count r = maxAttempts p" "lockedAt r = Some (last ts)"
proof -
  have "ts \<noteq> []" using assms(1) by (simp add: counted_def)
  then show "lk_count r = maxAttempts p" "lockedAt r = Some (last ts)"
    using assms(1,3) by (simp_all add: counted_def last_conv_nth nat_diff_distrib)
      (metis diff_less length_greater_0_conv less_one nat_int not_less)+
qed

lemma locked_after:
  assumes "counted p ts r" "1 \<le> maxAttempts p" "int (length ts) = maxAttempts p"
    and "expiry = last ts div 1000 + \<lceil>kept_seconds p\<rceil>" "rat_of_int now + 1000 \<le> rat_of_int (last ts) + lockoutSeconds p * 1000"
  shows "is_locked p now (counter (now div 1000) (Some (lockout_text r, Some expiry)))"
proof -
  have "lockoutSeconds p * 1000 \<le> kept_seconds p * 1000" by (simp add: kept_seconds_def)
  then have "now div 1000 < expiry" unfolding assms(4) using assms(5) by (intro row_outlives) linarith
  then have c: "counter (now div 1000) (Some (lockout_text r, Some expiry)) = Some r" by (simp add: counter_Some)
  show ?thesis using counted_locked [OF assms(1-3)] assms(5) by (simp add: c is_locked_def lock_expires_def)
qed

definition instants :: "(auth_call \<times> string) list \<Rightarrow> int list" where
  "instants cs = map (\<lambda>(c, pw). now_ms c) cs"

lemma instants_simps [simp]: "instants [] = []" "instants (x # cs) = now_ms (fst x) # instants cs" "instants (cs @ ds) = instants cs @ instants ds"
  "length (instants cs) = length cs" "instants cs = [] \<longleftrightarrow> cs = []"
  by (auto simp: instants_def split: prod.split)

lemma instants_mem: "(c, pw) \<in> set cs \<Longrightarrow> now_ms c \<in> set (instants cs)"
  by (force simp: instants_def)

lemma sorted_last: "sorted xs \<Longrightarrow> x \<in> set xs \<Longrightarrow> x \<le> last xs"
  by (induction xs) auto

lemma sign_ins_split: "sign_ins api env u (x # cs) w = Some (w', rs) \<Longrightarrow>
    \<exists>w1 q qs. signIn api env (fst x) u (snd x) w = Some (w1, q) \<and> sign_ins api env u cs w1 = Some (w', qs) \<and> rs = q # qs"
  by (cases x) (auto split: option.splits)

context reliable_store begin

lemma failures_counted:
  assumes "world_ok w" "content (codes w) (lockoutKey u) = None" "lockout env = Some p" "1 \<le> maxAttempts p"
    and "0 < windowSeconds p" "secret env = Inr sec" "cs \<noteq> []"
    and "sign_ins api env u cs w = Some (w', rs)" "\<forall>r \<in> set rs. r = Inl invalid_credentials" "log_errors w' = []"
    and "sorted (instants cs)" "rat_of_int (last (instants cs)) + 1000 \<le> rat_of_int (hd (instants cs)) + windowSeconds p * 1000"
  shows "world_ok w' \<and> (\<exists>r. counted p (instants cs) r
    \<and> content (codes w') (lockoutKey u) = Some (lockout_text r, Some (last (instants cs) div 1000 + \<lceil>kept_seconds p\<rceil>)))"
proof -
  obtain x ds where cs: "cs = x # ds" using assms(7) by (cases cs) auto
  let ?c = "fst x"
  obtain w1 q qs where s: "signIn api env ?c u (snd x) w = Some (w1, q)" "sign_ins api env u ds w1 = Some (w', qs)" "rs = q # qs"
    using sign_ins_split [OF assms(8) [unfolded cs]] by blast
  have q: "q = Inl invalid_credentials" using assms(9) s(3) by simp
  have le: "log_errors w1 = []" using sign_ins_grow [OF s(2)] assms(10) log_errors_prefix by blast
  have none: "counter (now_s ?c) (content (codes w) (lockoutKey u)) = None"
    unfolding assms(2) by (simp add: counter_def live_def)
  note w1 = signIn_invalid [OF assms(1,3,5,6) s(1) [unfolded q] le, unfolded none]
  have within: "rat_of_int t + 1000 \<le> rat_of_int (now_ms ?c) + windowSeconds p * 1000" if "t \<in> set (instants ds)" for t
  proof -
    have "t \<le> last (instants cs)" by (rule sorted_last [OF assms(11)]) (simp add: cs that)
    then have "rat_of_int t \<le> rat_of_int (last (instants cs))" by simp
    with assms(12) show ?thesis unfolding cs by simp
  qed
  have "world_ok w' \<and> (\<exists>r'. counted p ([now_ms ?c] @ map (\<lambda>(c, pw). now_ms c) ds) r'
    \<and> content (codes w') (lockoutKey u) =
        Some (lockout_text r', Some (last ([now_ms ?c] @ map (\<lambda>(c, pw). now_ms c) ds) div 1000 + \<lceil>kept_seconds p\<rceil>)))"
  proof (rule sign_ins_counted [OF s(2) _ assms(10) _ assms(3-6) counted_first [OF assms(4)]])
    show "\<forall>r \<in> set qs. r = Inl invalid_credentials" using assms(9) s(3) by simp
    show "world_ok w1" using w1 by simp
    show "content (codes w1) (lockoutKey u) = Some (lockout_text (failed_row p (now_ms ?c) None),
        Some (last [now_ms ?c] div 1000 + \<lceil>kept_seconds p\<rceil>))" using w1 by (simp add: now_s_def)
    show "sorted ([now_ms ?c] @ map (\<lambda>(c, pw). now_ms c) ds)" using assms(11) unfolding cs instants_def by (cases x) simp
    show "\<forall>(c', pw) \<in> set ds. rat_of_int (now_ms c') + 1000 \<le> rat_of_int (hd [now_ms ?c]) + windowSeconds p * 1000"
    proof safe
      fix c' pw assume "(c', pw) \<in> set ds"
      then have "now_ms c' \<in> set (instants ds)" by (rule instants_mem)
      then show "rat_of_int (now_ms c') + 1000 \<le> rat_of_int (hd [now_ms ?c]) + windowSeconds p * 1000" using within by simp
    qed
  qed
  moreover have "[now_ms ?c] @ map (\<lambda>(c, pw). now_ms c) ds = instants cs" by (cases x) (simp add: cs instants_def)
  ultimately show ?thesis by (simp only:)
qed

lemma lock_holds:
  assumes "world_ok w" "content (codes w) (lockoutKey u) = None" "lockout env = Some p" "1 \<le> maxAttempts p"
    and "0 < windowSeconds p" "secret env = Inr sec"
    and "sign_ins api env u cs w = Some (w', rs)" "\<forall>r \<in> set rs. r = Inl invalid_credentials" "log_errors w' = []"
    and "int (length cs) = maxAttempts p" "sorted (instants cs @ instants later)"
    and "rat_of_int (last (instants cs)) + 1000 \<le> rat_of_int (hd (instants cs)) + windowSeconds p * 1000"
    and "\<And>c pw. (c, pw) \<in> set later \<Longrightarrow> rat_of_int (now_ms c) + 1000 \<le> rat_of_int (last (instants cs)) + lockoutSeconds p * 1000"
  shows "\<exists>w2. sign_ins api env u later w' = Some (w2, map (\<lambda>_. Inl account_locked) later) \<and> users w2 = users w'
    \<and> password_checks w2 = password_checks w'"
proof -
  have cs: "cs \<noteq> []" using assms(4,10) by auto
  have so: "sorted (instants cs)" "sorted (instants later)" "\<And>t. t \<in> set (instants later) \<Longrightarrow> last (instants cs) \<le> t"
    using assms(11) cs by (simp_all add: sorted_append)
  obtain r where r: "world_ok w'" "counted p (instants cs) r"
      "content (codes w') (lockoutKey u) = Some (lockout_text r, Some (last (instants cs) div 1000 + \<lceil>kept_seconds p\<rceil>))"
    using failures_counted [OF assms(1-6) cs assms(7-9) so(1) assms(12)] by blast
  show ?thesis
  proof (rule locked_sign_ins [OF r(1) assms(3)])
    show "sorted (map (\<lambda>(c, pw). now_ms c) later)" using so(2) by (simp add: instants_def)
    fix c pw assume m: "(c, pw) \<in> set later"
    show "is_locked p (now_ms c) (counter (now_s c) (content (codes w') (lockoutKey u)))"
      unfolding r(3) now_s_def using locked_after [OF r(2) assms(4) _ refl assms(13) [OF m]] assms(10) by simp
  qed
qed

end

section \<open>A lock that lapses inside the counting window\<close>

text \<open>The counter of an account whose lock is over while its counting window is not: as many failures as
  a lock takes, or more, and the stamp of the first lock.\<close>

definition stale_lock :: "LockoutPolicy \<Rightarrow> int \<Rightarrow> int \<Rightarrow> lockout_row \<Rightarrow> bool" where
  "stale_lock p first stamp r = (maxAttempts p \<le> lk_count r \<and> firstFailAt r = first \<and> lockedAt r = Some stamp)"

lemma stale_not_locked:
  "stale_lock p first stamp r \<Longrightarrow> rat_of_int stamp + lockoutSeconds p * 1000 \<le> rat_of_int now \<Longrightarrow> \<not> is_locked p now (Some r)"
  by (simp add: stale_lock_def is_locked_def lock_expires_def)

lemma stale_stays:
  "stale_lock p first stamp r \<Longrightarrow> rat_of_int (now - first) < windowSeconds p * 1000 \<Longrightarrow>
     stale_lock p first stamp (failed_row p now (Some r))"
  by (simp add: stale_lock_def failed_row_within)

lemma second_bounds: "rat_of_int (t div 1000) * 1000 \<le> rat_of_int t" "rat_of_int t < rat_of_int (t div 1000) * 1000 + 1000"
proof -
  have "t div 1000 * 1000 \<le> t" "t < t div 1000 * 1000 + 1000" by simp_all
  then have "rat_of_int (t div 1000 * 1000) \<le> rat_of_int t" "rat_of_int t < rat_of_int (t div 1000 * 1000 + 1000)"
    unfolding of_int_le_iff of_int_less_iff .
  then show "rat_of_int (t div 1000) * 1000 \<le> rat_of_int t" "rat_of_int t < rat_of_int (t div 1000) * 1000 + 1000" by simp_all
qed

lemma kept_until:
  assumes "first \<le> t"
  shows "rat_of_int first + windowSeconds p * 1000 < rat_of_int (t div 1000 + \<lceil>kept_seconds p\<rceil>) * 1000 + 1000"
proof -
  have "rat_of_int first \<le> rat_of_int t" using assms by simp
  moreover have "windowSeconds p * 1000 \<le> kept_seconds p * 1000" by (simp add: kept_seconds_def)
  moreover have "kept_seconds p * 1000 \<le> rat_of_int \<lceil>kept_seconds p\<rceil> * 1000" by simp
  ultimately show ?thesis using second_bounds(2) [of t] unfolding of_int_add distrib_right by linarith
qed

lemma reaped_forever: "reaped now f g \<Longrightarrow> f k = Some (v, None) \<Longrightarrow> g k = Some (v, None)"
  unfolding reaped_def by (auto simp: isExpired_def dest: spec [of _ k])

context reliable_store begin

lemma lapsed_sign_ins:
  assumes "world_ok w" "lockout env = Some p" "0 < windowSeconds p"
    and "stale_lock p first stamp r" "content (codes w) (lockoutKey u) = Some (lockout_text r, Some expiry)"
    and "rat_of_int first + windowSeconds p * 1000 < rat_of_int expiry * 1000 + 1000"
    and "content (users w) u = Some (v, None)" "read_user env (Str v) = Inr (Some x)" "\<not> unconfirmed x" "v \<noteq> []"
    and "\<And>c pw. (c, pw) \<in> set cs \<Longrightarrow> \<not> bcrypt_compare env pw (ur_hash x)
      \<and> rat_of_int stamp + lockoutSeconds p * 1000 \<le> rat_of_int (now_ms c)
      \<and> rat_of_int (now_ms c) + 1000 \<le> rat_of_int first + windowSeconds p * 1000 \<and> first \<le> now_ms c"
    and "sign_ins api env u cs w = Some (w', rs)" "log_errors w' = []"
  shows "rs = map (\<lambda>_. Inl invalid_credentials) cs \<and> password_checks w' = password_checks w + length cs"
  using assms(1,4-7,11-13)
proof (induction cs arbitrary: w rs r expiry)
  case (Cons y cs)
  obtain c pw where y: "y = (c, pw)" by fastforce
  obtain w1 q qs where s: "signIn api env c u pw w = Some (w1, q)" "sign_ins api env u cs w1 = Some (w', qs)" "rs = q # qs"
    using sign_ins_split [OF Cons.prems(7)] y by auto
  have now: "\<not> bcrypt_compare env pw (ur_hash x)" "rat_of_int stamp + lockoutSeconds p * 1000 \<le> rat_of_int (now_ms c)"
      "rat_of_int (now_ms c) + 1000 \<le> rat_of_int first + windowSeconds p * 1000" "first \<le> now_ms c"
    using Cons.prems(6) [of c pw] y by simp_all
  have "rat_of_int (now_s c) < rat_of_int expiry" using second_bounds(1) [of "now_ms c"] now(3) Cons.prems(4) unfolding now_s_def by linarith
  then have cnt: "counter (now_s c) (content (codes w) (lockoutKey u)) = Some r"
    unfolding Cons.prems(3) counter_Some by simp
  have nl: "not_locked env c u w"
    unfolding not_locked_def cnt assms(2) using stale_not_locked [OF Cons.prems(2) now(2)] by simp
  have user: "found_user env c u w = Inr (Some x)"
    unfolding found_user_def Cons.prems(5) using assms(8) by (simp add: live_def isExpired_def)
  obtain w2 where w2: "signIn api env c u pw w = Some (w2, Inl invalid_credentials)" "world_ok w2"
      "reaped (now_s c) (content (users w)) (content (users w2))"
      "password_checks w2 = password_checks w + (if Some x = None \<or> unconfirmed (the (Some x)) then 0 else 1)"
      "lockout env = Some p \<Longrightarrow> 0 < windowSeconds p \<Longrightarrow> log_errors w2 = [] \<Longrightarrow>
        content (codes w2) (lockoutKey u) =
          Some (lockout_text (failed_row p (now_ms c) (counter (now_s c) (content (codes w) (lockoutKey u)))),
                Some (now_s c + \<lceil>kept_seconds p\<rceil>))"
    using signIn_wrong [OF Cons.prems(1) nl user, of pw p] now(1) by auto
  have w1: "w1 = w2" "q = Inl invalid_credentials" using s(1) w2(1) by simp_all
  have le: "log_errors w2 = []" using sign_ins_grow [OF s(2)] Cons.prems(8) log_errors_prefix w1(1) by blast
  have "rat_of_int (now_ms c - first) < windowSeconds p * 1000" using now(3) by simp
  note stale = stale_stays [OF Cons.prems(2) this]
  have late: "rat_of_int first + windowSeconds p * 1000 < rat_of_int (now_s c + \<lceil>kept_seconds p\<rceil>) * 1000 + 1000"
    unfolding now_s_def by (rule kept_until [OF now(4)])
  have keep: "content (users w2) u = Some (v, None)"
    using reaped_forever [OF w2(3) Cons.prems(5)] .
  have "qs = map (\<lambda>_. Inl invalid_credentials) cs \<and> password_checks w' = password_checks w2 + length cs"
    by (rule Cons.IH [OF w2(2) stale w2(5) [OF assms(2,3) le, unfolded cnt] late keep Cons.prems(6) s(2) [unfolded w1(1)] Cons.prems(8)])
      simp_all
  then show ?case using w1 w2(4) assms(9) s(3) by simp
qed simp

lemma lock_lapses:
  assumes "world_ok w" "content (codes w) (lockoutKey u) = None" "lockout env = Some p" "1 \<le> maxAttempts p"
    and "0 < windowSeconds p" "secret env = Inr sec"
    and "sign_ins api env u cs w = Some (w1, rs)" "\<forall>r \<in> set rs. r = Inl invalid_credentials" "log_errors w1 = []"
    and "int (length cs) = maxAttempts p" "sorted (instants cs)"
    and "rat_of_int (last (instants cs)) + 1000 \<le> rat_of_int (hd (instants cs)) + windowSeconds p * 1000"
    and "content (users w1) u = Some (user_text x, None)" "\<not> unconfirmed x"
    and "\<And>c pw. (c, pw) \<in> set later \<Longrightarrow> \<not> bcrypt_compare env pw (ur_hash x)
      \<and> rat_of_int (last (instants cs)) + lockoutSeconds p * 1000 \<le> rat_of_int (now_ms c)
      \<and> rat_of_int (now_ms c) + 1000 \<le> rat_of_int (hd (instants cs)) + windowSeconds p * 1000"
    and "0 < lockoutSeconds p" "sign_ins api env u later w1 = Some (w2, qs)" "log_errors w2 = []"
  shows "qs = map (\<lambda>_. Inl invalid_credentials) later \<and> password_checks w2 = password_checks w1 + length later"
proof -
  have cs: "cs \<noteq> []" using assms(4,10) by auto
  obtain r where r: "world_ok w1" "counted p (instants cs) r"
      "content (codes w1) (lockoutKey u) = Some (lockout_text r, Some (last (instants cs) div 1000 + \<lceil>kept_seconds p\<rceil>))"
    using failures_counted [OF assms(1-6) cs assms(7-9,11,12)] by blast
  have stale: "stale_lock p (hd (instants cs)) (last (instants cs)) r"
    using counted_locked [OF r(2) assms(4)] assms(10) r(2) by (simp add: stale_lock_def counted_def)
  have le: "hd (instants cs) \<le> last (instants cs)" using sorted_last [OF assms(11), of "hd (instants cs)"] cs by simp
  show ?thesis
  proof (rule lapsed_sign_ins [OF r(1) assms(3,5) stale r(3) _ assms(13) read_user_text assms(14) user_text_nonempty(1) _ assms(17,18)])
    show "rat_of_int (hd (instants cs)) + windowSeconds p * 1000 < rat_of_int (last (instants cs) div 1000 + \<lceil>kept_seconds p\<rceil>) * 1000 + 1000"
      by (rule kept_until [OF le])
    fix c pw assume m: "(c, pw) \<in> set later"
    have "0 < lockoutSeconds p * 1000" using assms(16) by simp
    then have "rat_of_int (last (instants cs)) \<le> rat_of_int (now_ms c)" using assms(15) [OF m] by linarith
    then have "hd (instants cs) \<le> now_ms c" using le unfolding of_int_le_iff by linarith
    then show "\<not> bcrypt_compare env pw (ur_hash x)
      \<and> rat_of_int (last (instants cs)) + lockoutSeconds p * 1000 \<le> rat_of_int (now_ms c)
      \<and> rat_of_int (now_ms c) + 1000 \<le> rat_of_int (hd (instants cs)) + windowSeconds p * 1000 \<and> hd (instants cs) \<le> now_ms c"
      using assms(15) [OF m] by simp
  qed
qed

end

section \<open>Examples\<close>

context reliable_store begin

lemma wrong_step:
  assumes "world_ok w" "content (codes w) (lockoutKey u) = e" "counter (now_s c) e = row" "\<not> is_locked p (now_ms c) row"
    and "lockout env = Some p" "0 < windowSeconds p" "fits (lockout_text (failed_row p (now_ms c) row))"
    and "content (users w) u = Some (user_text x, None)" "\<not> unconfirmed x" "\<not> bcrypt_compare env pw (ur_hash x)" "log_errors w = []"
  obtains w' where "signIn api env c u pw w = Some (w', Inl invalid_credentials)" "world_ok w'" "log_errors w' = []"
    and "content (users w') u = Some (user_text x, None)"
    and "content (codes w') (lockoutKey u) =
      Some (lockout_text (failed_row p (now_ms c) row), Some (now_s c + \<lceil>kept_seconds p\<rceil>))"
proof -
  have cnt: "counter (now_s c) (content (codes w) (lockoutKey u)) = row" unfolding assms(2) by (rule assms(3))
  have nl: "not_locked env c u w" unfolding not_locked_def cnt using assms(4,5) by simp
  have user: "found_user env c u w = Inr (Some x)"
    unfolding found_user_def assms(8) by (simp add: live_def isExpired_def)
  have pre: "Some x = None \<or> (\<exists>r. Some x = Some r \<and> (unconfirmed r \<or> \<not> bcrypt_compare env pw (ur_hash r)))"
    using assms(10) by simp
  show ?thesis
  proof (rule signIn_wrong [OF assms(1) nl user pre, where p = p, unfolded cnt])
    fix w' assume w': "signIn api env c u pw w = Some (w', Inl invalid_credentials)" "world_ok w'"
      "(\<And>p. lockout env = Some p \<Longrightarrow> 0 < windowSeconds p \<and> fits (lockout_text (failed_row p (now_ms c) row)))
         \<Longrightarrow> log_errors w' = log_errors w"
      "reaped (now_s c) (content (users w)) (content (users w'))"
      "password_checks w' = password_checks w + (if Some x = None \<or> unconfirmed (the (Some x)) then 0 else 1)"
      "lockout env = Some p \<Longrightarrow> 0 < windowSeconds p \<Longrightarrow> log_errors w' = [] \<Longrightarrow> content (codes w') (lockoutKey u) =
         Some (lockout_text (failed_row p (now_ms c) row), Some (now_s c + \<lceil>kept_seconds p\<rceil>))"
    have le: "log_errors w' = []" using w'(3) assms(5-7,11) by simp
    have "content (users w') u = Some (user_text x, None)"
      using reaped_forever [OF w'(4) assms(8)] .
    then show ?thesis using that [of w'] w'(1,2,6) le assms(5,6) by simp
  qed
qed

end

definition demo_call :: "int \<Rightarrow> auth_call" where
  "demo_call t = \<lparr>now_ms = t, request_headers = new_Headers [], proc_env = [], proc_config = resetConfigCache, random_code = 7,
     random_salt = 0, random_uuid = ''id''\<rparr>"

definition demo_auth_env :: "LockoutPolicy option \<Rightarrow> auth_env" where
  "demo_auth_env p = \<lparr>hmac_hex = (\<lambda>k m. k @ m), secret = Inr ''k'', syntax_text = (\<lambda>s. s), fullId = ''app'', sessionDuration = 86400,
     passwordPolicy = \<lparr>minLength = None, requireUppercase = False, requireLowercase = False, requireDigits = False,
       requireSpecialChars = False\<rparr>,
     codeDelivery = Some (\<lambda>u c. None), crossDomain = False, lockout = p, metrics = False,
     bcrypt_hash = (\<lambda>salt pw. pw), bcrypt_compare = (\<lambda>pw h. pw = h),
     jwt_sign = (\<lambda>sec cl. sec @ ''.'' @ cl_username cl @ ''.'' @ show_int (cl_ep cl)),
     jwt_verify = (\<lambda>sec iss now t. case split_on (CHR ''.'') t of
        [k, u, e] \<Rightarrow> if k = sec then Some \<lparr>pl_username = u, pl_jti = Some ''id'', pl_exp = Some 86400, pl_ep = parse_int10 e\<rparr> else None
      | _ \<Rightarrow> None),
     iso_date = (\<lambda>t. show_int t)\<rparr>"

lemma demo_sel [simp]:
  "now_ms (demo_call t) = t" "now_s (demo_call t) = t div 1000" "secret (demo_auth_env p) = Inr ''k''" "lockout (demo_auth_env p) = p"
  "bcrypt_compare (demo_auth_env p) pw h = (pw = h)" "bcrypt_hash (demo_auth_env p) n pw = pw"
  by (simp_all add: demo_call_def demo_auth_env_def now_s_def)

definition demo_user :: UserRecord where
  "demo_user = \<lparr>ur_hash = ''right'', ur_createdAt = ''0'', unconfirmed = False\<rparr>"

lemma demo_user_sel [simp]: "ur_hash demo_user = ''right''" "\<not> unconfirmed demo_user"
  by (simp_all add: demo_user_def)

lemma print_str_short [simp]: "length (print_str s) \<le> 6 * length s + 2"
  by (rule print_str_length)

lemma lockout_text_fits:
  assumes "length (show_int (lk_count r)) \<le> 20" "length (show_int (firstFailAt r)) \<le> 20"
    and "\<And>l. lockedAt r = Some l \<Longrightarrow> length (show_int l) \<le> 20"
  shows "mock_fits (lockout_text r)"
proof (rule mock_fits_short)
  show "length (lockout_text r) \<le> 60000"
    using assms by (cases "lockedAt r") (auto simp: lockout_text_def print_str_def esc_char_def char_code_def)
qed

text \<open>A world with one user and no failures.\<close>

lemma demo_world:
  obtains w where "mock.world_ok w" "mock_content (codes w) = (\<lambda>k. None)"
    and "mock_content (users w) ''ann'' = Some (user_text demo_user, None)" "log_errors w = []" "set_cookie w = None"
proof -
  have len: "length (user_text demo_user) \<le> 60000"
    by (simp add: user_text_def demo_user_def print_str_def esc_char_def char_code_def)
  have "put_allowed (mock_content (kv_open None) ''ann'') no_put_options" "resolveTtlEpochSeconds 0 no_put_options = Inr None"
    by (simp_all add: put_allowed_def no_put_options_def resolveTtlEpochSeconds_def)
  then obtain s where "mock_inv s" "mock_content s = (mock_content (kv_open None))(''ann'' \<mapsto> (user_text demo_user, None))"
    using mock.put_run [OF mock_empty(1) mock_fits_short [OF len], of 0 no_put_options None "''ann''"] by metis
  then show ?thesis
    using that [of "\<lparr>users = s, codes = kv_open None, set_cookie = None, auth_events = []\<rparr>"]
    by (simp add: mock.world_ok_def log_errors_def fun_eq_iff)
qed

text \<open>Two failures, at 0 and 1 seconds, of an account locked after two.\<close>

definition demo_policy :: "rat \<Rightarrow> LockoutPolicy" where
  "demo_policy l = \<lparr>maxAttempts = 2, windowSeconds = 900, lockoutSeconds = l\<rparr>"

lemma demo_policy_sel [simp]:
  "maxAttempts (demo_policy l) = 2" "windowSeconds (demo_policy l) = 900" "lockoutSeconds (demo_policy l) = l"
  "l \<le> 900 \<Longrightarrow> kept_seconds (demo_policy l) = 900"
  by (simp_all add: demo_policy_def kept_seconds_def)

definition demo_failures :: "(auth_call \<times> string) list" where
  "demo_failures = [(demo_call 0, ''x''), (demo_call 1000, ''y'')]"

lemma instants_demo [simp]: "instants demo_failures = [0, 1000]" "length demo_failures = 2"
  by (simp_all add: demo_failures_def)

lemma demo_step:
  assumes "mock.world_ok w" "mock_content (codes w) (lockoutKey ''ann'') = e" "counter (t div 1000) e = row"
    and "\<not> is_locked p t row" "0 < windowSeconds p" "mock_fits (lockout_text (failed_row p t row))"
    and "mock_content (users w) ''ann'' = Some (user_text demo_user, None)" "pw \<noteq> ''right''" "log_errors w = []"
  obtains w' where "signIn (mock_store syn) (demo_auth_env (Some p)) (demo_call t) ''ann'' pw w = Some (w', Inl invalid_credentials)"
    and "mock.world_ok w'" "log_errors w' = []" "mock_content (users w') ''ann'' = Some (user_text demo_user, None)"
    and "mock_content (codes w') (lockoutKey ''ann'') =
      Some (lockout_text (failed_row p t row), Some (t div 1000 + \<lceil>kept_seconds p\<rceil>))"
proof (rule mock.wrong_step [where w = w and e = e and row = row and c = "demo_call t" and p = p
      and env = "demo_auth_env (Some p)" and u = "''ann''" and x = demo_user and pw = pw and syn = syn])
  fix w'
  assume "signIn (mock_store syn) (demo_auth_env (Some p)) (demo_call t) ''ann'' pw w = Some (w', Inl invalid_credentials)"
    "mock.world_ok w'" "log_errors w' = []" "mock_content (users w') ''ann'' = Some (user_text demo_user, None)"
    "mock_content (codes w') (lockoutKey ''ann'') = Some (lockout_text (failed_row p (now_ms (demo_call t)) row),
       Some (now_s (demo_call t) + \<lceil>kept_seconds p\<rceil>))"
  then show thesis using that [of w'] by simp
qed (use assms in simp_all)

lemma demo_failures_run:
  assumes "l \<le> 900"
  obtains w w1 where "mock.world_ok w" "mock_content (codes w) (lockoutKey ''ann'') = None"
    and "sign_ins (mock_store syn) (demo_auth_env (Some (demo_policy l))) ''ann'' demo_failures w =
      Some (w1, [Inl invalid_credentials, Inl invalid_credentials])"
    and "log_errors w1 = []" "mock.world_ok w1" "mock_content (users w1) ''ann'' = Some (user_text demo_user, None)"
    and "mock_content (codes w1) (lockoutKey ''ann'') =
      Some (lockout_text \<lparr>lk_count = 2, firstFailAt = 0, lockedAt = Some 1000\<rparr>, Some 901)"
proof (rule demo_world)
  fix w
  assume w: "mock.world_ok w" "mock_content (codes w) = (\<lambda>k. None)"
    "mock_content (users w) ''ann'' = Some (user_text demo_user, None)" "log_errors w = []"
  let ?p = "demo_policy l"
  let ?r1 = "\<lparr>lk_count = 1, firstFailAt = 0, lockedAt = None\<rparr>"
  let ?r2 = "\<lparr>lk_count = 2, firstFailAt = 0, lockedAt = Some 1000\<rparr>"
  have r1: "failed_row ?p 0 None = ?r1" by (simp add: failed_row_first)
  have r2: "failed_row ?p 1000 (Some ?r1) = ?r2" by (simp add: failed_row_within)
  have f1: "mock_fits (lockout_text ?r1)" and f2: "mock_fits (lockout_text ?r2)"
    by (rule lockout_text_fits; simp add: show_int_def show_nat.simps)+
  have e0: "mock_content (codes w) (lockoutKey ''ann'') = None" using w(2) by simp
  have c0: "counter (0 div 1000) None = None" by (simp add: counter_def live_def)
  have c1: "counter (1000 div 1000) (Some (lockout_text ?r1, Some (0 div 1000 + \<lceil>kept_seconds ?p\<rceil>))) = Some ?r1"
    using assms by (simp add: counter_Some)
  obtain w' where w': "signIn (mock_store syn) (demo_auth_env (Some ?p)) (demo_call 0) ''ann'' ''x'' w = Some (w', Inl invalid_credentials)"
      "mock.world_ok w'" "log_errors w' = []" "mock_content (users w') ''ann'' = Some (user_text demo_user, None)"
      "mock_content (codes w') (lockoutKey ''ann'') = Some (lockout_text ?r1, Some (0 div 1000 + \<lceil>kept_seconds ?p\<rceil>))"
    by (rule demo_step [where syn = syn and pw = "''x''", OF w(1) e0 c0 _ _ _ w(3) _ w(4), of ?p, unfolded r1])
      (simp_all add: f1 is_locked_def)
  obtain w1 where w1: "signIn (mock_store syn) (demo_auth_env (Some ?p)) (demo_call 1000) ''ann'' ''y'' w' = Some (w1, Inl invalid_credentials)"
      "mock.world_ok w1" "log_errors w1 = []" "mock_content (users w1) ''ann'' = Some (user_text demo_user, None)"
      "mock_content (codes w1) (lockoutKey ''ann'') = Some (lockout_text ?r2, Some (1000 div 1000 + \<lceil>kept_seconds ?p\<rceil>))"
    by (rule demo_step [where syn = syn and pw = "''y''", OF w'(2,5) c1 _ _ _ w'(4) _ w'(3), of ?p, unfolded r2])
      (simp_all add: f2 is_locked_def)
  have "sign_ins (mock_store syn) (demo_auth_env (Some ?p)) ''ann'' demo_failures w =
      Some (w1, [Inl invalid_credentials, Inl invalid_credentials])"
    using w'(1) w1(1) by (simp add: demo_failures_def)
  then show thesis using that [OF w(1) e0 _ w1(3,2,4)] w1(5) assms by simp
qed

section \<open>On the local store\<close>



text \<open>A lock that lapses inside the counting window is never renewed: the failure counter keeps its
  first \<open>lockedAt\<close>, so from the end of the lock to the end of the window every wrong password is
  compared, however many are tried.\<close>

theorem lockout_lapses:
  assumes "mock_inv (users w)" "mock_inv (codes w)" "mock_content (codes w) (lockoutKey u) = None"
    and "lockout env = Some p" "1 \<le> maxAttempts p" "0 < windowSeconds p" "secret env = Inr sec"
    and "sign_ins (mock_store syn) env u cs w = Some (w1, rs)" "\<forall>r \<in> set rs. r = Inl invalid_credentials" "log_errors w1 = []"
    and "int (length cs) = maxAttempts p" "sorted (instants cs)"
    and "rat_of_int (last (instants cs)) + 1000 \<le> rat_of_int (hd (instants cs)) + windowSeconds p * 1000"
    and "mock_content (users w1) u = Some (user_text x, None)" "\<not> unconfirmed x"
    and "\<And>c pw. (c, pw) \<in> set later \<Longrightarrow> \<not> bcrypt_compare env pw (ur_hash x)
      \<and> rat_of_int (last (instants cs)) + lockoutSeconds p * 1000 \<le> rat_of_int (now_ms c)
      \<and> rat_of_int (now_ms c) + 1000 \<le> rat_of_int (hd (instants cs)) + windowSeconds p * 1000"
    and "0 < lockoutSeconds p" "sign_ins (mock_store syn) env u later w1 = Some (w2, qs)" "log_errors w2 = []"
  shows "qs = map (\<lambda>_. Inl invalid_credentials) later \<and> password_checks w2 = password_checks w1 + length later"
  by (rule mock.lock_lapses [OF _ assms(3-19)]) (simp add: mock.world_ok_def assms(1,2))

lemma lockout_lapses_witness:
  "\<exists>w1 w2. sign_ins (mock_store (\<lambda>s. s)) (demo_auth_env (Some (demo_policy 60))) ''ann'' [(demo_call 61000, ''z'')] w1 =
      Some (w2, [Inl invalid_credentials]) \<and> password_checks w2 = password_checks w1 + 1"
proof (rule demo_failures_run [where l = 60 and syn = "\<lambda>s. s"])
  let ?env = "demo_auth_env (Some (demo_policy 60))"
  let ?r = "\<lparr>lk_count = 2, firstFailAt = 0, lockedAt = Some 1000\<rparr>"
  fix w w1
  assume w: "mock.world_ok w" "mock_content (codes w) (lockoutKey ''ann'') = None"
    "sign_ins (mock_store (\<lambda>s. s)) ?env ''ann'' demo_failures w = Some (w1, [Inl invalid_credentials, Inl invalid_credentials])"
    "log_errors w1 = []" "mock.world_ok w1" "mock_content (users w1) ''ann'' = Some (user_text demo_user, None)"
    "mock_content (codes w1) (lockoutKey ''ann'') = Some (lockout_text ?r, Some 901)"
  have inv: "mock_inv (users w)" "mock_inv (codes w)" using w(1) by (simp_all add: mock.world_ok_def)
  have r: "counter (61000 div 1000) (Some (lockout_text ?r, Some 901)) = Some ?r" by (simp add: counter_Some)
  have f: "mock_fits (lockout_text (failed_row (demo_policy 60) 61000 (Some ?r)))"
    by (rule lockout_text_fits; simp add: failed_row_within show_int_def show_nat.simps)
  obtain w2 where w2: "signIn (mock_store (\<lambda>s. s)) ?env (demo_call 61000) ''ann'' ''z'' w1 = Some (w2, Inl invalid_credentials)"
      "log_errors w2 = []"
    by (rule demo_step [where syn = "\<lambda>s. s" and pw = "''z''", OF w(5,7) r _ _ f w(6) _ w(4)])
      (simp_all add: is_locked_def lock_expires_def)
  have run: "sign_ins (mock_store (\<lambda>s. s)) ?env ''ann'' [(demo_call 61000, ''z'')] w1 = Some (w2, [Inl invalid_credentials])"
    using w2(1) by simp
  have "[Inl invalid_credentials :: (thrown, AuthBasicUser) res] = map (\<lambda>_. Inl invalid_credentials) [(demo_call 61000, ''z'')]
      \<and> password_checks w2 = password_checks w1 + length [(demo_call 61000, ''z'')]"
    by (rule lockout_lapses [OF inv w(2) demo_sel(4) _ _ demo_sel(3) w(3) _ w(4) _ _ _ w(6) demo_user_sel(2) _ _ run w2(2)]) auto
  then have "password_checks w2 = password_checks w1 + 1" by simp
  then show ?thesis using run by blast
qed simp

end
