(* ===== verification/AuthReset.thy ===== *)
theory AuthReset
  imports AuthThrottle
begin

text \<open>
  How sessions of \<^verbatim>\<open>packages/bb-auth-basic/src/index.ts\<close> begin and end: a sign-up and
  sign-in give a cookie the server takes, a sign-out or a password reset makes it useless.
\<close>

section \<open>Session epochs\<close>

lemma parseSessionEpoch_show [simp]: "0 \<le> n \<Longrightarrow> n \<le> MAX_SAFE_INTEGER \<Longrightarrow> parseSessionEpoch (Some (show_int n)) = n"
  by (simp add: parseSessionEpoch_def parse_int10_show)

lemma parseSessionEpoch_range: "0 \<le> parseSessionEpoch raw \<and> parseSessionEpoch raw \<le> MAX_SAFE_INTEGER"
  by (auto simp: parseSessionEpoch_def MAX_SAFE_INTEGER_def split: option.split)

text \<open>The epoch a call at second \<open>now\<close> finds in an entry.\<close>

definition epoch_at :: "int \<Rightarrow> entry \<Rightarrow> int" where
  "epoch_at now e = parseSessionEpoch (raw_of (live now e))"

definition epoch_entry :: "int \<Rightarrow> entry" where
  "epoch_entry n = Some (show_int n, None)"

lemma epoch_at_entry [simp]: "0 \<le> n \<Longrightarrow> n \<le> MAX_SAFE_INTEGER \<Longrightarrow> epoch_at now (epoch_entry n) = n"
  by (simp add: epoch_at_def epoch_entry_def live_def isExpired_def raw_of_def)

lemma bump_options_ttl [simp]: "resolveTtlEpochSeconds now (bump_options raw) = Inr None"
  by (simp add: bump_options_def resolveTtlEpochSeconds_def no_put_options_def split: option.split)

lemma reaped_trans:
  assumes "reaped now f g" "reaped now g h"
  shows "reaped now f h"
  unfolding reaped_def
proof
  fix k
  show "h k = f k \<or> (h k = None \<and> (\<exists>x t. f k = Some (x, t) \<and> isExpired t now))"
    using assms [unfolded reaped_def, THEN spec, of k] by (metis option.distinct(1))
qed

context consistent_store begin

text \<open>What an attempt, a loop of them, does to the codes.\<close>

definition bumped :: "auth_call \<Rightarrow> string \<Rightarrow> 's auth_world \<Rightarrow> 's auth_world \<Rightarrow> (thrown, unit) res \<Rightarrow> bool" where
  "bumped c u w w' r = (inv (codes w') \<and> same_but_codes w w' \<and> auth_events w' = auth_events w
     \<and> (case r of
          Inl e \<Rightarrow> reaped (now_s c) (content (codes w)) (content (codes w'))
        | Inr _ \<Rightarrow> (\<exists>f. reaped (now_s c) (content (codes w)) f
            \<and> content (codes w') = f(epochKey u := epoch_entry (epoch_at (now_s c) (content (codes w) (epochKey u)) + 1)))))"

lemma bump_once_result:
  assumes "inv (codes w)" "bump_once api c u w = Some (w', r)"
  shows "bumped c u w w' r"
proof -
  obtain s1 q where g: "store_get api (now_s c) (epochKey u) (codes w) = (s1, q)" by fastforce
  have s1: "inv s1" "reaped (now_s c) (content (codes w)) (content s1)" using get_law [OF assms(1) g] by auto
  show ?thesis
  proof (cases q)
    case (Inl e)
    then show ?thesis using assms(2) g s1 by (auto simp: bump_once_def bindM_def on_codes_def bumped_def same_but_codes_def)
  next
    case (Inr v)
    have v: "v = live (now_s c) (content (codes w) (epochKey u))" using get_reads [OF assms(1)] g Inr by blast
    let ?x = "show_int (parseSessionEpoch (raw_of v) + 1)"
    obtain s2 p where p: "store_put api (now_s c) (epochKey u) (Str ?x) (bump_options (raw_of v)) s1 = (s2, p)" by fastforce
    have w': "w' = w\<lparr>codes := s2\<rparr>" "r = p"
      using assms(2) g Inr p by (auto simp: bump_once_def bindM_def on_codes_def)
    show ?thesis
    proof (cases p)
      case (Inl e)
      then have "inv s2" "content s2 = content s1" using put_failed [OF s1(1)] p by auto
      then show ?thesis using w' Inl s1(2) by (simp add: bumped_def same_but_codes_def)
    next
      case (Inr z)
      then have "inv s2" "content s2 = (content s1)(epochKey u \<mapsto> (?x, None))"
        using put_done [OF s1(1), of "now_s c" "epochKey u" ?x "bump_options (raw_of v)" s2] p by auto
      then show ?thesis using w' Inr s1(2) v
        by (auto simp: bumped_def same_but_codes_def epoch_entry_def epoch_at_def)
    qed
  qed
qed

lemma bump_loop_result:
  "inv (codes w) \<Longrightarrow> bump_loop n api c u e w = Some (w', r) \<Longrightarrow> bumped c u w w' r"
proof (induction n arbitrary: e w)
  case 0
  then show ?case by (auto simp: throwM_def bumped_def same_but_codes_def)
next
  case (Suc n)
  obtain w1 q where q: "bump_once api c u w = Some (w1, q)"
    using Suc.prems(2) by (auto simp: catchM_def split: option.splits)
  note b = bump_once_result [OF Suc.prems(1) q]
  show ?case
  proof (cases q)
    case (Inl e')
    then have rest: "bump_loop n api c u e' w1 = Some (w', r)" using Suc.prems(2) q by (simp add: catchM_def)
    have i: "inv (codes w1)" "reaped (now_s c) (content (codes w)) (content (codes w1))" using b Inl by (simp_all add: bumped_def)
    have "bumped c u w1 w' r" by (rule Suc.IH [OF i(1) rest])
    then show ?thesis using b Inl i(2) by (cases r) (auto simp: bumped_def same_but_codes_def epoch_at_def dest: reaped_trans [OF i(2)])
  next
    case (Inr x)
    then show ?thesis using Suc.prems(2) q b by (simp add: catchM_def)
  qed
qed

end

section \<open>A password reset ends every session\<close>

lemma bindM_Inr: "bindM m f w = Some (w', Inr a) \<longleftrightarrow> (\<exists>w1 b. m w = Some (w1, Inr b) \<and> f b w1 = Some (w', Inr a))"
  by (auto simp: bindM_def split: option.splits sum.splits)

lemma catchM_Inr: "catchM m h w = Some (w', Inr a) \<longleftrightarrow>
    m w = Some (w', Inr a) \<or> (\<exists>w1 e. m w = Some (w1, Inl e) \<and> h e w1 = Some (w', Inr a))"
  by (auto simp: catchM_def split: option.splits sum.splits)

lemma throwInvalidationIncomplete_throws [simp]: "throwInvalidationIncomplete l m e w \<noteq> Some (w', Inr a)"
  by (simp add: throwInvalidationIncomplete_def bindM_def eventM_def throwM_def)

lemma reset_key [simp]: "epochKey u \<noteq> code_key ''reset'' v" "code_key ''reset'' v \<noteq> epochKey u"
  by (simp_all add: epochKey_def code_key_def)

text \<open>The steps of a reset that succeeds.\<close>

lemma confirmResetPassword_steps:
  assumes "confirmResetPassword api env c u code pw w = Some (w', Inr ())"
  obtains w1 w2 w3 w4 r where "verifyCodeM api env c ''reset'' u code w = Some (w1, Inr ())"
    and "getUserRecord api env c u w1 = Some (w2, Inr (Some r))"
    and "bumpSessionEpoch api c u w2 = Some (w3, Inr ())"
    and "on_users (store_put api (now_s c) u (Str (user_text (r\<lparr>ur_hash := bcrypt_hash env (random_salt c) pw\<rparr>))) no_put_options) w3 = Some (w4, Inr ())"
    and "\<exists>q w5. bumpSessionEpoch api c u w4 = Some (w5, q) \<and> users w' = users w5 \<and> codes w' = codes w5"
proof -
  obtain w1 where w1: "verifyCodeM api env c ''reset'' u code w = Some (w1, Inr ())"
    and a: "bindM (liftM (validatePassword env pw)) (\<lambda>_. bindM (getUserRecord api env c u) (\<lambda>user.
       case user of
         None \<Rightarrow> throwM invalid_code
       | Some r \<Rightarrow>
           bindM (catchM (bumpSessionEpoch api c u) (\<lambda>e. throwInvalidationIncomplete
               ''AuthBasic: failed to bump session epoch on password reset; password not changed''
               ''Your password was not changed because other sessions could not be signed out. Request a new reset code and try again.''
               e)) (\<lambda>_.
           bindM (on_users (store_put api (now_s c) u
                    (Str (user_text (r\<lparr>ur_hash := bcrypt_hash env (random_salt c) pw\<rparr>))) no_put_options)) (\<lambda>_.
             catchM (bumpSessionEpoch api c u) (\<lambda>e. eventM (LogError
               ''AuthBasic: failed to bump session epoch after password write'' e)))))) w1 = Some (w', Inr ())"
    using assms unfolding confirmResetPassword_def bindM_Inr by auto
  obtain w2 user where w2: "getUserRecord api env c u w1 = Some (w2, Inr user)"
    and b: "(case user of
         None \<Rightarrow> throwM invalid_code
       | Some r \<Rightarrow>
           bindM (catchM (bumpSessionEpoch api c u) (\<lambda>e. throwInvalidationIncomplete
               ''AuthBasic: failed to bump session epoch on password reset; password not changed''
               ''Your password was not changed because other sessions could not be signed out. Request a new reset code and try again.''
               e)) (\<lambda>_.
           bindM (on_users (store_put api (now_s c) u
                    (Str (user_text (r\<lparr>ur_hash := bcrypt_hash env (random_salt c) pw\<rparr>))) no_put_options)) (\<lambda>_.
             catchM (bumpSessionEpoch api c u) (\<lambda>e. eventM (LogError
               ''AuthBasic: failed to bump session epoch after password write'' e))))) w2 = Some (w', Inr ())"
    using a unfolding bindM_Inr by (auto simp: liftM_def)
  obtain r where r: "user = Some r" using b by (cases user) (simp_all add: throwM_def)
  obtain w3 w4 where w3: "bumpSessionEpoch api c u w2 = Some (w3, Inr ())"
    and w4: "on_users (store_put api (now_s c) u (Str (user_text (r\<lparr>ur_hash := bcrypt_hash env (random_salt c) pw\<rparr>))) no_put_options) w3 = Some (w4, Inr ())"
    and c: "catchM (bumpSessionEpoch api c u) (\<lambda>e. eventM (LogError
               ''AuthBasic: failed to bump session epoch after password write'' e)) w4 = Some (w', Inr ())"
    using b unfolding r by (auto simp: bindM_Inr catchM_Inr)
  have "\<exists>q w5. bumpSessionEpoch api c u w4 = Some (w5, q) \<and> users w' = users w5 \<and> codes w' = codes w5"
    using c unfolding catchM_Inr by (auto simp: eventM_def)
  then show ?thesis using that w1 w2 w3 w4 r by blast
qed

context consistent_store begin

lemma epoch_live:
  assumes "only_key now (code_key ''reset'' u) s s'"
  shows "epoch_at now (content s' (epochKey v)) = epoch_at now (content s (epochKey v))"
  using assms unfolding only_key_def by (auto simp: epoch_at_def)

lemma confirmResetPassword_result:
  assumes "inv (users w)" "inv (codes w)" "confirmResetPassword api env c u code pw w = Some (w', Inr ())"
    and "epoch_at (now_s c) (content (codes w) (epochKey u)) + 2 \<le> MAX_SAFE_INTEGER"
  shows "inv (users w') \<and> inv (codes w')
    \<and> (\<exists>r. content (users w') u = Some (user_text (r\<lparr>ur_hash := bcrypt_hash env (random_salt c) pw\<rparr>), None))
    \<and> (\<exists>n. content (codes w') (epochKey u) = epoch_entry n
         \<and> epoch_at (now_s c) (content (codes w) (epochKey u)) < n \<and> 0 \<le> n \<and> n \<le> MAX_SAFE_INTEGER)"
proof -
  let ?e = "epoch_at (now_s c) (content (codes w) (epochKey u))"
  obtain w1 w2 w3 w4 r where steps: "verifyCodeM api env c ''reset'' u code w = Some (w1, Inr ())"
      "getUserRecord api env c u w1 = Some (w2, Inr (Some r))" "bumpSessionEpoch api c u w2 = Some (w3, Inr ())"
    and put: "on_users (store_put api (now_s c) u (Str (user_text (r\<lparr>ur_hash := bcrypt_hash env (random_salt c) pw\<rparr>))) no_put_options) w3 = Some (w4, Inr ())"
    and last: "\<exists>q w5. bumpSessionEpoch api c u w4 = Some (w5, q) \<and> users w' = users w5 \<and> codes w' = codes w5"
    by (rule confirmResetPassword_steps [OF assms(3)])
  obtain s' q where "verifyCode api env (now_ms c) ''reset'' u code (codes w) = Some (s', q)"
      and ok: "only_key (now_s c) (code_key ''reset'' u) (codes w) s'"
    using verifyCode_returns [OF assms(2), of env "now_ms c" "''reset''" u code] unfolding now_s_def by blast
  then have w1: "w1 = w\<lparr>codes := s'\<rparr>" using steps(1) by (simp add: verifyCodeM_def)
  have i1: "inv (codes w1)" using ok w1 by (simp add: only_key_def)
  have e1: "epoch_at (now_s c) (content (codes w1) (epochKey u)) = ?e" using epoch_live [OF ok] w1 by simp
  obtain s2 v where g: "store_get api (now_s c) u (users w1) = (s2, Inr v)" and w2: "w2 = w1\<lparr>users := s2\<rparr>"
    using steps(2) by (auto simp: getUserRecord_def bindM_def on_users_def liftM_def split: sum.splits prod.splits)
  have i2: "inv s2" using get_law [OF _ g] assms(1) w1 by simp
  have b1: "bumped c u w2 w3 (Inr ())"
    using bump_loop_result [of w2] steps(3) i1 w2 unfolding bumpSessionEpoch_def by simp
  then have c3: "inv (codes w3)" "content (codes w3) (epochKey u) = epoch_entry (?e + 1)" "users w3 = s2"
    using w2 e1 by (auto simp: bumped_def same_but_codes_def)
  obtain s4 where p: "store_put api (now_s c) u (Str (user_text (r\<lparr>ur_hash := bcrypt_hash env (random_salt c) pw\<rparr>))) no_put_options s2 = (s4, Inr ())"
      and w4: "w4 = w3\<lparr>users := s4\<rparr>"
    using put c3(3) by (auto simp: on_users_def split: prod.splits)
  have i4: "inv s4" "content s4 u = Some (user_text (r\<lparr>ur_hash := bcrypt_hash env (random_salt c) pw\<rparr>), None)"
    using put_done [OF i2 p] by (auto simp: resolveTtlEpochSeconds_def no_put_options_def)
  obtain q5 w5 where w5: "bumpSessionEpoch api c u w4 = Some (w5, q5)" "users w' = users w5" "codes w' = codes w5"
    using last by blast
  have b2: "bumped c u w4 w5 q5" using bump_loop_result [of w4] w5(1) c3(1) w4 unfolding bumpSessionEpoch_def by simp
  have e0: "0 \<le> ?e" using parseSessionEpoch_range by (simp add: epoch_at_def)
  have e4: "content (codes w4) (epochKey u) = epoch_entry (?e + 1)" using w4 c3(2) by simp
  have e5: "epoch_at (now_s c) (content (codes w4) (epochKey u)) = ?e + 1" unfolding e4 using e0 assms(4) by simp
  have "content (codes w') (epochKey u) = epoch_entry (?e + 1) \<or> content (codes w') (epochKey u) = epoch_entry (?e + 2)"
  proof (cases q5)
    case (Inl x)
    then have "reaped (now_s c) (content (codes w4)) (content (codes w5))" using b2 by (simp add: bumped_def)
    then show ?thesis using reaped_forever e4 w5(3) unfolding epoch_entry_def by metis
  next
    case (Inr x)
    then have "content (codes w5) (epochKey u) = epoch_entry (?e + 1 + 1)" using b2 e5 by (auto simp: bumped_def)
    then show ?thesis using w5(3) by (simp add: ac_simps)
  qed
  then have ep: "\<exists>n. content (codes w') (epochKey u) = epoch_entry n \<and> ?e < n \<and> 0 \<le> n \<and> n \<le> MAX_SAFE_INTEGER"
  proof
    assume "content (codes w') (epochKey u) = epoch_entry (?e + 1)"
    then show ?thesis using e0 assms(4) by (intro exI [of _ "?e + 1"]) simp
  next
    assume "content (codes w') (epochKey u) = epoch_entry (?e + 2)"
    then show ?thesis using e0 assms(4) by (intro exI [of _ "?e + 2"]) simp
  qed
  have fin: "inv (users w')" "inv (codes w')" "content (users w') u = content s4 u"
    using b2 w5(2,3) w4 i4(1) by (simp_all add: bumped_def same_but_codes_def)
  have usr: "content (users w') u = Some (user_text (r\<lparr>ur_hash := bcrypt_hash env (random_salt c) pw\<rparr>), None)"
    using fin(3) i4(2) by simp
  show ?thesis by (intro conjI exI [of _ r] usr ep fin)
qed

end

section \<open>What a token is worth\<close>

text \<open>The verdict on a verified token, from what the two stores hold.\<close>

definition token_verdict :: "(string \<Rightarrow> entry) \<Rightarrow> int \<Rightarrow> session \<Rightarrow> UserRecord option \<Rightarrow> session_reason + AuthBasicUser" where
  "token_verdict cs now se user =
     (if present (se_jti se) \<and> live now (cs (revokedKey (the (se_jti se)))) = Str REVOKED_MARKER then Inl Revoked
      else if se_ep se < epoch_at now (cs (epochKey (se_username se))) then Inl Revoked
      else (case user of
              None \<Rightarrow> Inl Absent
            | Some r \<Rightarrow> if unconfirmed r then Inl Absent else Inr (toAuthBasicUser (se_username se) r)))"

definition unauthenticated :: "session_reason \<Rightarrow> thrown" where
  "unauthenticated reason = new_ApiError ''Authentication required'' (Num 401)
     (Some (if reason = Revoked then SessionRevoked else SessionExpired)) None None"

context reliable_store begin

lemma isRevoked_run:
  assumes "world_ok w"
  obtains s' where "isRevoked api c jti w = Some (w\<lparr>codes := s'\<rparr>, Inr (live (now_s c) (content (codes w) (revokedKey jti)) = Str REVOKED_MARKER))"
    and "inv s'" "reaped (now_s c) (content (codes w)) (content s')"
proof -
  obtain s' where s: "store_get api (now_s c) (revokedKey jti) (codes w) = (s', Inr (live (now_s c) (content (codes w) (revokedKey jti))))"
      "inv s'" "reaped (now_s c) (content (codes w)) (content s')"
    using get_run [of "codes w" "now_s c" "revokedKey jti"] assms unfolding world_ok_def by blast
  then show ?thesis using that [of s'] by (simp add: isRevoked_def bindM_def on_codes_def returnM_def)
qed

lemma resolveSession_run:
  assumes "world_ok w" "parseSessionToken env c = Inr (Some se)" "found_user env c (se_username se) w = Inr user"
  obtains s1 s2 where "resolveSession api env c w = Some (w\<lparr>codes := s1, users := s2\<rparr>, Inr (token_verdict (content (codes w)) (now_s c) se user))"
    and "inv s1" "inv s2" "reaped (now_s c) (content (codes w)) (content s1)" "reaped (now_s c) (content (users w)) (content s2)"
proof -
  let ?rev = "present (se_jti se) \<and> live (now_s c) (content (codes w) (revokedKey (the (se_jti se)))) = Str REVOKED_MARKER"
  obtain sa where sa: "(if present (se_jti se) then isRevoked api c (the (se_jti se)) else returnM False) w = Some (w\<lparr>codes := sa\<rparr>, Inr ?rev)"
      "inv sa" "reaped (now_s c) (content (codes w)) (content sa)"
  proof (cases "present (se_jti se)")
    case True
    show ?thesis
    proof (rule isRevoked_run [OF assms(1), of c "the (se_jti se)"])
      fix s' assume "isRevoked api c (the (se_jti se)) w = Some (w\<lparr>codes := s'\<rparr>,
          Inr (live (now_s c) (content (codes w) (revokedKey (the (se_jti se)))) = Str REVOKED_MARKER))"
        "inv s'" "reaped (now_s c) (content (codes w)) (content s')"
      then show ?thesis using that [of s'] True by simp
    qed
  next
    case False
    show ?thesis by (rule that [of "codes w"]) (use False assms(1) in \<open>simp_all add: returnM_def world_ok_def\<close>)
  qed
  have ok1: "world_ok (w\<lparr>codes := sa\<rparr>)" using assms(1) sa(2) by (simp add: world_ok_def)
  obtain sb where sb: "readSessionEpoch api c (se_username se) (w\<lparr>codes := sa\<rparr>) =
        Some (w\<lparr>codes := sb\<rparr>, Inr (epoch_at (now_s c) (content (codes w) (epochKey (se_username se)))))"
      "inv sb" "reaped (now_s c) (content sa) (content sb)"
  proof (rule readSessionEpoch_run [OF ok1, of c "se_username se"])
    fix s' assume "readSessionEpoch api c (se_username se) (w\<lparr>codes := sa\<rparr>) = Some (w\<lparr>codes := sa\<rparr>\<lparr>codes := s'\<rparr>,
        Inr (parseSessionEpoch (raw_of (live (now_s c) (content (codes (w\<lparr>codes := sa\<rparr>)) (epochKey (se_username se)))))))"
      "inv s'" "reaped (now_s c) (content (codes (w\<lparr>codes := sa\<rparr>))) (content s')"
    then show ?thesis using that [of s'] sa(3) by (simp add: epoch_at_def)
  qed
  have ok2: "world_ok (w\<lparr>codes := sb\<rparr>)" using assms(1) sb(2) by (simp add: world_ok_def)
  obtain sc where sc: "getUserRecord api env c (se_username se) (w\<lparr>codes := sb\<rparr>) = Some (w\<lparr>codes := sb, users := sc\<rparr>, Inr user)"
      "inv sc" "reaped (now_s c) (content (users w)) (content sc)"
  proof (rule getUserRecord_run [OF ok2, where env = env and c = c and u = "se_username se"])
    fix s' assume "getUserRecord api env c (se_username se) (w\<lparr>codes := sb\<rparr>) =
        Some (w\<lparr>codes := sb\<rparr>\<lparr>users := s'\<rparr>, read_user env (live (now_s c) (content (users (w\<lparr>codes := sb\<rparr>)) (se_username se))))"
      "inv s'" "reaped (now_s c) (content (users (w\<lparr>codes := sb\<rparr>))) (content s')"
    then show ?thesis using that [of s'] assms(3) by (simp add: found_user_def)
  qed
  have "resolveSession api env c w = Some (w\<lparr>codes := sb, users := sc\<rparr>, Inr (token_verdict (content (codes w)) (now_s c) se user))"
    using assms(2) sa(1) sb(1) sc(1)
    by (cases user) (simp_all add: resolveSession_def bindM_def liftM_def returnM_def token_verdict_def)
  then show ?thesis using that sb(2,3) sc(2,3) reaped_trans [OF sa(3) sb(3)] by blast
qed

lemma requireAuth_run:
  assumes "world_ok w" "parseSessionToken env c = Inr (Some se)" "found_user env c (se_username se) w = Inr user"
  obtains s1 s2 where "requireAuth api env c w = Some (w\<lparr>codes := s1, users := s2\<rparr>,
      (case token_verdict (content (codes w)) (now_s c) se user of Inl x \<Rightarrow> Inl (unauthenticated x) | Inr u \<Rightarrow> Inr u))"
    and "inv s1" "inv s2" "reaped (now_s c) (content (codes w)) (content s1)" "reaped (now_s c) (content (users w)) (content s2)"
proof (rule resolveSession_run [OF assms])
  fix s1 s2
  assume r: "resolveSession api env c w = Some (w\<lparr>codes := s1, users := s2\<rparr>, Inr (token_verdict (content (codes w)) (now_s c) se user))"
    "inv s1" "inv s2" "reaped (now_s c) (content (codes w)) (content s1)" "reaped (now_s c) (content (users w)) (content s2)"
  have "requireAuth api env c w = Some (w\<lparr>codes := s1, users := s2\<rparr>,
      (case token_verdict (content (codes w)) (now_s c) se user of Inl x \<Rightarrow> Inl (unauthenticated x) | Inr u \<Rightarrow> Inr u))"
    using r(1) by (simp add: requireAuth_def bindM_def returnM_def throwM_def unauthenticated_def split: sum.split)
  then show thesis using that r(2-) by blast
qed

end

section \<open>A reset that goes through\<close>

definition epoch_row :: "entry \<Rightarrow> int \<Rightarrow> bool" where
  "epoch_row e n = ((e = None \<and> n = 0) \<or> (e = epoch_entry n \<and> 0 \<le> n \<and> n \<le> MAX_SAFE_INTEGER))"

lemma epoch_at_None [simp]: "epoch_at now None = 0"
  by (simp add: epoch_at_def live_def raw_of_def parseSessionEpoch_def)

lemma epoch_row_at: "epoch_row e n \<Longrightarrow> epoch_at now e = n"
  by (auto simp: epoch_row_def)

lemma epoch_row_reaped: "reaped now f g \<Longrightarrow> epoch_row (f k) n \<Longrightarrow> g k = f k"
  by (auto simp: epoch_row_def epoch_entry_def dest: reaped_None reaped_forever)

lemma bump_allowed: "epoch_row e n \<Longrightarrow> put_allowed e (bump_options (raw_of (live now e)))"
  by (auto simp: epoch_row_def epoch_entry_def put_allowed_def bump_options_def no_put_options_def live_def isExpired_def raw_of_def)

context reliable_store begin

lemma bump_run:
  assumes "world_ok w" "epoch_row (content (codes w) (epochKey u)) n" "fits (show_int (n + 1))"
  obtains s' f where "bumpSessionEpoch api c u w = Some (w\<lparr>codes := s'\<rparr>, Inr ())" "inv s'"
    and "reaped (now_s c) (content (codes w)) f" "content s' = f(epochKey u := epoch_entry (n + 1))"
proof -
  let ?v = "live (now_s c) (content (codes w) (epochKey u))"
  obtain s1 where s1: "store_get api (now_s c) (epochKey u) (codes w) = (s1, Inr ?v)" "inv s1"
      "reaped (now_s c) (content (codes w)) (content s1)"
    using get_run [of "codes w" "now_s c" "epochKey u"] assms(1) unfolding world_ok_def by blast
  have "content s1 (epochKey u) = content (codes w) (epochKey u)" using epoch_row_reaped [OF s1(3) assms(2)] .
  then have "put_allowed (content s1 (epochKey u)) (bump_options (raw_of ?v))" using bump_allowed [OF assms(2)] by simp
  from put_run [OF s1(2) assms(3) bump_options_ttl this, of "now_s c"]
  obtain s2 where s2: "store_put api (now_s c) (epochKey u) (Str (show_int (n + 1))) (bump_options (raw_of ?v)) s1 = (s2, Inr ())"
      "inv s2" "content s2 = (content s1)(epochKey u \<mapsto> (show_int (n + 1), None))" by blast
  have "parseSessionEpoch (raw_of ?v) = n" using epoch_row_at [OF assms(2)] by (simp add: epoch_at_def)
  then have "bump_once api c u w = Some (w\<lparr>codes := s2\<rparr>, Inr ())"
    using s1(1) s2(1) by (simp add: bump_once_def bindM_def on_codes_def)
  then have "bumpSessionEpoch api c u w = Some (w\<lparr>codes := s2\<rparr>, Inr ())"
    by (simp add: bumpSessionEpoch_def MAX_EPOCH_BUMP_ATTEMPTS_def numeral_eq_Suc catchM_def)
  then show ?thesis using that [of s2 "content s1"] s2(2,3) s1(3) by (simp add: epoch_entry_def)
qed

lemma confirmResetPassword_run:
  assumes "world_ok w" "content (codes w) (code_key ''reset'' u) = Some (row_text r, t)" "\<not> isExpired t (now_s c)"
    and "now_ms c \<le> row_expires r" "row_attempts r < MAX_CODE_ATTEMPTS" "secret env = Inr sec"
    and "row_hmac r = hmac_hex env sec (code_message ''reset'' u code)"
    and "fits (row_text (reserved_row r))" "rat_of_int (row_expires r div 1000) < MAX_PLAUSIBLE_EPOCH_SECONDS"
    and "content (users w) u = Some (user_text x, None)" "validatePassword env pw = Inr ()"
    and "fits (user_text (x\<lparr>ur_hash := bcrypt_hash env (random_salt c) pw\<rparr>))"
    and "epoch_row (content (codes w) (epochKey u)) n" "n < MAX_SAFE_INTEGER"
    and "fits (show_int (n + 1))" "fits (show_int (n + 2))"
  obtains w' where "confirmResetPassword api env c u code pw w = Some (w', Inr ())"
proof -
  obtain s1 where s1: "verifyCode api env (now_ms c) ''reset'' u code (codes w) = Some (s1, Inr ())"
      "only_key (now_s c) (code_key ''reset'' u) (codes w) s1"
    using verifyCode_right [of "codes w" "''reset''" u r t "now_ms c" env sec code] assms(1-9)
    unfolding now_s_def world_ok_def by blast
  have inv1: "inv s1" using s1(2) by (simp add: only_key_def)
  obtain f y where f: "reaped (now_s c) (content (codes w)) f" "content s1 = f(code_key ''reset'' u := y)"
    using s1(2) by (auto simp: only_key_def)
  have e1: "epoch_row (content s1 (epochKey u)) n" using epoch_row_reaped [OF f(1) assms(13)] f(2) assms(13) by simp
  have vc: "verifyCodeM api env c ''reset'' u code w = Some (w\<lparr>codes := s1\<rparr>, Inr ())" using s1(1) by (simp add: verifyCodeM_def)
  have ok1: "world_ok (w\<lparr>codes := s1\<rparr>)" using assms(1) inv1 by (simp add: world_ok_def)
  obtain s2 where s2: "getUserRecord api env c u (w\<lparr>codes := s1\<rparr>) = Some (w\<lparr>codes := s1, users := s2\<rparr>, Inr (Some x))" "inv s2"
  proof (rule getUserRecord_run [OF ok1, where env = env and c = c and u = u])
    fix s' assume "getUserRecord api env c u (w\<lparr>codes := s1\<rparr>) = Some (w\<lparr>codes := s1\<rparr>\<lparr>users := s'\<rparr>,
        read_user env (live (now_s c) (content (users (w\<lparr>codes := s1\<rparr>)) u)))" "inv s'"
    then show ?thesis using that [of s'] assms(10) by (simp add: live_def isExpired_def)
  qed
  have ok2: "world_ok (w\<lparr>codes := s1, users := s2\<rparr>)" using inv1 s2(2) by (simp add: world_ok_def)
  obtain s3 g where s3: "bumpSessionEpoch api c u (w\<lparr>codes := s1, users := s2\<rparr>) = Some (w\<lparr>codes := s3, users := s2\<rparr>, Inr ())" "inv s3"
      "content s3 = g(epochKey u := epoch_entry (n + 1))"
  proof (rule bump_run [OF ok2, of u n c])
    show "epoch_row (content (codes (w\<lparr>codes := s1, users := s2\<rparr>)) (epochKey u)) n" using e1 by simp
    fix s' g assume "bumpSessionEpoch api c u (w\<lparr>codes := s1, users := s2\<rparr>) = Some (w\<lparr>codes := s1, users := s2\<rparr>\<lparr>codes := s'\<rparr>, Inr ())"
      "inv s'" "content s' = g(epochKey u := epoch_entry (n + 1))"
    then show ?thesis using that [of s' g] by simp
  qed (rule assms(15))
  let ?x = "user_text (x\<lparr>ur_hash := bcrypt_hash env (random_salt c) pw\<rparr>)"
  have "resolveTtlEpochSeconds (now_s c) no_put_options = Inr None" by (simp add: resolveTtlEpochSeconds_def no_put_options_def)
  moreover have "put_allowed (content s2 u) no_put_options" by (simp add: put_allowed_def no_put_options_def)
  ultimately obtain s4 where s4: "store_put api (now_s c) u (Str ?x) no_put_options s2 = (s4, Inr ())" "inv s4"
    using put_run [OF s2(2) assms(12)] by metis
  have ok4: "world_ok (w\<lparr>codes := s3, users := s4\<rparr>)" using s3(2) s4(2) by (simp add: world_ok_def)
  have e4: "epoch_row (content (codes (w\<lparr>codes := s3, users := s4\<rparr>)) (epochKey u)) (n + 1)"
    using s3(3) e1 assms(14) by (auto simp: epoch_row_def)
  have f5: "fits (show_int (n + 1 + 1))" using assms(16) by (simp add: add.assoc)
  obtain w5 where w5: "bumpSessionEpoch api c u (w\<lparr>codes := s3, users := s4\<rparr>) = Some (w5, Inr ())"
    using bump_run [OF ok4 e4 f5] by metis
  have "confirmResetPassword api env c u code pw w = Some (w5, Inr ())"
    using assms(11) s4(1) w5
    by (simp add: confirmResetPassword_def bindM_def liftM_def catchM_def on_users_def vc s2(1) s3(1))
  then show ?thesis using that by blast
qed

end

section \<open>On the local store\<close>

text \<open>C6: A password reset ends every session: once \<open>confirmResetPassword\<close> has returned, a token
  stamped with the epoch of before the reset, or an earlier one, is refused with 401
  \<open>SessionRevokedException\<close> for as long as the epoch row stands (it has no expiry).\<close>

theorem reset_revokes_sessions:
  assumes "mock_inv (users w)" "mock_inv (codes w)"
    and "confirmResetPassword (mock_store syn) env c u code pw w = Some (w', Inr ())"
    and "epoch_at (now_s c) (mock_content (codes w) (epochKey u)) + 2 \<le> MAX_SAFE_INTEGER"
    and "mock_inv (users w1)" "mock_inv (codes w1)" "mock_content (codes w1) (epochKey u) = mock_content (codes w') (epochKey u)"
    and "parseSessionToken env c' = Inr (Some se)" "se_username se = u"
    and "se_ep se \<le> epoch_at (now_s c) (mock_content (codes w) (epochKey u))"
    and "read_user env (live (now_s c') (mock_content (users w1) u)) = Inr user"
  shows "\<exists>w2. requireAuth (mock_store syn) env c' w1 = Some (w2, Inl (unauthenticated Revoked))"
proof -
  obtain n where n: "mock_content (codes w') (epochKey u) = epoch_entry n"
      "epoch_at (now_s c) (mock_content (codes w) (epochKey u)) < n" "0 \<le> n" "n \<le> MAX_SAFE_INTEGER"
    using mock.confirmResetPassword_result [OF assms(1-4)] by blast
  have "epoch_at (now_s c') (mock_content (codes w1) (epochKey u)) = n" using assms(7) n(1,3,4) by simp
  then have "token_verdict (mock_content (codes w1)) (now_s c') se user = Inl Revoked"
    using assms(9,10) n(2) by (simp add: token_verdict_def)
  then show ?thesis
    using mock.requireAuth_run [of w1 env c' se user syn] assms(5,6,8,9,11)
    by (auto simp: mock.world_ok_def mock.found_user_def)
qed

text \<open>The user of the examples asks for a reset, uses the code, and comes back with an old cookie.\<close>

definition cookie_request :: "int \<Rightarrow> string \<Rightarrow> auth_call" where
  "cookie_request t cookie = (demo_call t)\<lparr>request_headers := new_Headers [(''cookie'', cookie)]\<rparr>"

lemma cookie_request_sel [simp]: "now_ms (cookie_request t k) = t" "now_s (cookie_request t k) = t div 1000"
  by (simp_all add: cookie_request_def now_s_def)

lemma demo_token:
  "parseSessionToken (demo_auth_env p) (cookie_request t ''auth_app=k.ann.0'') =
     Inr (Some \<lparr>se_username = ''ann'', se_jti = Some ''id'', se_exp = 86400, se_ep = 0\<rparr>)"
  by code_simp

lemma demo_reset:
  obtains w w' where "mock.world_ok w" "mock_content (codes w) (epochKey ''ann'') = None" "mock.world_ok w'"
    and "confirmResetPassword (mock_store (\<lambda>s. s)) (demo_auth_env None) (demo_call 1000) ''ann'' ''7'' ''new password'' w = Some (w', Inr ())"
    and "\<exists>r. mock_content (users w') ''ann'' = Some (user_text r, None)"
proof (rule demo_world)
  let ?api = "mock_store (\<lambda>s. s)" and ?env = "demo_auth_env None" and ?k = "code_key ''reset'' ''ann''"
  let ?r = "\<lparr>row_hmac = hmac_hex ?env ''k'' (code_message ''reset'' ''ann'' ''7''), row_expires = 600000, row_attempts = 0\<rparr>"
  fix w0
  assume w0: "mock.world_ok w0" "mock_content (codes w0) = (\<lambda>k. None)"
    "mock_content (users w0) ''ann'' = Some (user_text demo_user, None)"
  have len: "length (row_text r) \<le> 60000" if "row_hmac r = row_hmac ?r" "row_expires r = 600000" "row_attempts r \<in> {0, 1}" for r
    using row_text_length [of r] that
    by (auto simp: demo_auth_env_def code_message_def show_int_def show_nat.simps digit_char_def)
  have plaus: "rat_of_int 600 < MAX_PLAUSIBLE_EPOCH_SECONDS" by (simp add: MAX_PLAUSIBLE_EPOCH_SECONDS_def)
  have fits: "mock_fits (row_text ?r)" by (rule mock_fits_short [OF len]) simp_all
  have fits': "mock_fits (row_text (reserved_row ?r))" by (rule mock_fits_short [OF len]) (simp_all add: reserved_row_def)
  have ttl: "resolveTtlEpochSeconds 0 (put_until 600) = Inr (Some 600)" by (rule resolve_put_until [OF _ _ plaus]) simp_all
  obtain s1 where s1: "mock_inv s1" "mock_content s1 = (mock_content (codes w0))(?k \<mapsto> (row_text ?r, Some 600))"
    using mock.put_run [where k = ?k, OF _ fits ttl put_until_allowed] w0(1) unfolding mock.world_ok_def by metis
  let ?w = "w0\<lparr>codes := s1\<rparr>"
  have ok: "mock.world_ok ?w" using w0(1) s1(1) by (simp add: mock.world_ok_def)
  have row: "mock_content (codes ?w) ?k = Some (row_text ?r, Some 600)" using s1(2) by simp
  have ep: "mock_content (codes ?w) (epochKey ''ann'') = None" using s1(2) w0(2) by simp
  have user: "mock_content (users ?w) ''ann'' = Some (user_text demo_user, None)" using w0(3) by simp
  have valid: "validatePassword ?env ''new password'' = Inr ()"
    by (simp add: validatePassword_def password_errors_def demo_auth_env_def)
  have fu: "mock_fits (user_text (demo_user\<lparr>ur_hash := bcrypt_hash ?env (random_salt (demo_call 1000)) ''new password''\<rparr>))"
    by (rule mock_fits_short) (simp add: user_text_def demo_user_def print_str_def esc_char_def char_code_def)
  have fe: "mock_fits (show_int (0 + 1))" "mock_fits (show_int (0 + 2))"
    by (rule mock_fits_short; simp add: show_int_def show_nat.simps)+
  obtain w' where w': "confirmResetPassword ?api ?env (demo_call 1000) ''ann'' ''7'' ''new password'' ?w = Some (w', Inr ())"
  proof (rule mock.confirmResetPassword_run [OF ok row _ _ _ demo_sel(3) _ fits' _ user valid fu _ _ fe])
  qed (use that plaus ep in \<open>simp_all add: isExpired_def MAX_CODE_ATTEMPTS_def epoch_row_def MAX_SAFE_INTEGER_def\<close>)
  have inv: "mock_inv (users ?w)" "mock_inv (codes ?w)" using ok unfolding mock.world_ok_def by simp_all
  have "epoch_at (now_s (demo_call 1000)) (mock_content (codes ?w) (epochKey ''ann'')) + 2 \<le> MAX_SAFE_INTEGER"
    unfolding ep by (simp add: MAX_SAFE_INTEGER_def)
  note res = mock.confirmResetPassword_result [OF inv w' this]
  show thesis
  proof (rule that [OF ok ep _ w'])
    show "mock.world_ok w'" using res by (simp add: mock.world_ok_def)
    show "\<exists>r. mock_content (users w') ''ann'' = Some (user_text r, None)" using res by blast
  qed
qed

lemma reset_revokes_sessions_witness:
  "\<exists>w w' w2. confirmResetPassword (mock_store (\<lambda>s. s)) (demo_auth_env None) (demo_call 1000) ''ann'' ''7'' ''new password'' w = Some (w', Inr ())
     \<and> requireAuth (mock_store (\<lambda>s. s)) (demo_auth_env None) (cookie_request 2000 ''auth_app=k.ann.0'') w' = Some (w2, Inl (unauthenticated Revoked))"
proof (rule demo_reset)
  fix w w'
  assume w: "mock.world_ok w" "mock_content (codes w) (epochKey ''ann'') = None" "mock.world_ok w'"
    "confirmResetPassword (mock_store (\<lambda>s. s)) (demo_auth_env None) (demo_call 1000) ''ann'' ''7'' ''new password'' w = Some (w', Inr ())"
    "\<exists>r. mock_content (users w') ''ann'' = Some (user_text r, None)"
  obtain r where r: "mock_content (users w') ''ann'' = Some (user_text r, None)" using w(5) by blast
  have inv: "mock_inv (users w)" "mock_inv (codes w)" "mock_inv (users w')" "mock_inv (codes w')"
    using w(1,3) by (simp_all add: mock.world_ok_def)
  have "\<exists>w2. requireAuth (mock_store (\<lambda>s. s)) (demo_auth_env None) (cookie_request 2000 ''auth_app=k.ann.0'') w' = Some (w2, Inl (unauthenticated Revoked))"
  proof (rule reset_revokes_sessions [OF inv(1,2) w(4) _ inv(3,4) refl demo_token])
    show "read_user (demo_auth_env None) (live (now_s (cookie_request 2000 ''auth_app=k.ann.0'')) (mock_content (users w') ''ann'')) = Inr (Some r)"
      unfolding r by (simp add: live_def isExpired_def)
  qed (simp_all add: w(2) MAX_SAFE_INTEGER_def)
  then show ?thesis using w(4) by blast
qed

section \<open>Signing out\<close>

definition sign_out_incomplete :: thrown where
  "sign_out_incomplete = new_ApiError ''Sign-out could not be completed; please retry'' (Num 503) (Some SignOutIncomplete) None None"

lemma resolve_put_until_Inr: "resolveTtlEpochSeconds now (put_until e) = Inr t \<Longrightarrow> t = Some e"
  by (auto simp: resolveTtlEpochSeconds_def put_until_def no_put_options_def split: if_splits)

context consistent_store begin

lemma revokeCurrentToken_result:
  assumes "inv (codes w)" "parseSessionToken env c = Inr (Some se)" "se_jti se = Some jti" "jti \<noteq> []"
    and "revokeCurrentToken api env c w = Some (w', r)"
  shows "inv (codes w') \<and> users w' = users w
    \<and> ((r = Inr () \<and> content (codes w') (revokedKey jti) = Some (REVOKED_MARKER, Some (se_exp se))) \<or> r = Inl sign_out_incomplete)"
proof -
  have p: "present (se_jti se)" "the (se_jti se) = jti" using assms(3,4) by (simp_all add: present_def)
  obtain s' q where q: "store_put api (now_s c) (revokedKey jti) (Str REVOKED_MARKER) (put_until (se_exp se)) (codes w) = (s', q)"
    by fastforce
  have run: "revokeCurrentToken api env c w = catchM (on_codes (store_put api (now_s c) (revokedKey jti) (Str REVOKED_MARKER) (put_until (se_exp se))))
      (\<lambda>e. throwInvalidationIncomplete ''AuthBasic: failed to record session revocation on sign-out''
         ''Sign-out could not be completed; please retry'' e) w"
    using p by (simp add: revokeCurrentToken_def assms(2) bindM_def liftM_def)
  show ?thesis
  proof (cases q)
    case (Inl e)
    then have "inv s'" using put_failed [OF assms(1)] q by auto
    then show ?thesis using assms(5) q Inl unfolding run
      by (auto simp: catchM_def on_codes_def throwInvalidationIncomplete_def bindM_def eventM_def throwM_def sign_out_incomplete_def)
  next
    case (Inr x)
    then obtain t where "inv s'" "resolveTtlEpochSeconds (now_s c) (put_until (se_exp se)) = Inr t"
        "content s' = (content (codes w))(revokedKey jti \<mapsto> (REVOKED_MARKER, t))"
      using put_done [OF assms(1)] q by fastforce
    then show ?thesis using assms(5) q Inr resolve_put_until_Inr unfolding run by (auto simp: catchM_def on_codes_def)
  qed
qed

end



section \<open>From sign-up to a session\<close>

text \<open>The cookie header with one cookie, read back.\<close>

lemma split_on_none: "d \<notin> set s \<Longrightarrow> split_on d s = [s]"
  by (induction s) auto

lemma cookie_value_own:
  assumes "CHR '';'' \<notin> set name" "CHR '';'' \<notin> set v" "v \<noteq> []"
  shows "cookie_value name (name @ ''='' @ v) = Some v"
proof -
  have "split_on (CHR '';'') (name @ ''='' @ v) = [name @ ''='' @ v]" using assms by (intro split_on_none) auto
  moreover have "cookie_segment name (name @ ''='' @ v) = Some v"
    using assms(3) by (simp add: cookie_segment_def starts_with_def Let_def)
  ultimately show ?thesis by (simp add: cookie_value_def)
qed

lemma epoch_at_later:
  assumes "now \<le> now'"
  shows "epoch_at now' e \<le> epoch_at now e"
proof (cases "live now' e = live now e")
  case False
  then have "epoch_at now' e = 0"
    using assms by (auto simp: live_def isExpired_def epoch_at_def raw_of_def parseSessionEpoch_def split: option.splits if_splits)
  then show ?thesis using parseSessionEpoch_range by (simp add: epoch_at_def)
qed (simp add: epoch_at_def)

context reliable_store begin

lemma clearLockout_clears:
  assumes "world_ok w" "clearLockout api env u w = Some (w', r)"
  shows "world_ok w' \<and> users w' = users w \<and> r = Inr ()
    \<and> (\<forall>k. k \<noteq> lockoutKey u \<longrightarrow> content (codes w') k = content (codes w) k)
    \<and> (lockout env \<noteq> None \<longrightarrow> content (codes w') (lockoutKey u) = None)"
proof (cases "lockout env = None")
  case True
  then show ?thesis using assms by (simp add: clearLockout_def returnM_def)
next
  case False
  have "delete_allowed (content (codes w) (lockoutKey u)) no_delete_options"
    by (simp add: delete_allowed_def no_delete_options_def)
  then obtain s' where s': "store_delete api (lockoutKey u) no_delete_options (codes w) = (s', Inr ())" "inv s'"
      "content s' = (content (codes w))(lockoutKey u := None)"
    using delete_run assms(1) unfolding world_ok_def by metis
  have "w' = w\<lparr>codes := s'\<rparr> \<and> r = Inr ()"
    using assms(2) False s'(1) by (simp add: clearLockout_def catchM_def on_codes_def)
  then show ?thesis using s'(2,3) assms(1) by (simp add: world_ok_def)
qed

lemma signUp_result:
  assumes "world_ok w" "codeDelivery env = None" "signUp api env c u pw w = Some (w', Inr ())"
  shows "world_ok w' \<and> content (users w') u = Some (user_text (new_user env c pw), None)
    \<and> (\<forall>k. k \<noteq> lockoutKey u \<longrightarrow> content (codes w') k = content (codes w) k)
    \<and> (lockout env \<noteq> None \<longrightarrow> content (codes w') (lockoutKey u) = None)"
proof -
  let ?x = "user_text (new_user env c pw)"
  obtain s' q where q: "store_put api (now_s c) u (Str ?x) put_new (users w) = (s', q)" by fastforce
  have iu: "inv (users w)" using assms(1) by (simp add: world_ok_def)
  obtain w1 where w1: "catchM (on_users (store_put api (now_s c) u (Str ?x) put_new))
      (\<lambda>_. throwM (new_ApiError ''Username already exists'' (Num 409) (Some UserAlreadyExists) None None)) w = Some (w1, Inr ())"
    and cl: "clearLockout api env u w1 = Some (w', Inr ())"
    using assms(2,3) unfolding signUp_def bindM_Inr by (auto simp: liftM_def returnM_def)
  have qr: "q = Inr ()" and ws: "w1 = w\<lparr>users := s'\<rparr>"
    using w1 q by (auto simp: catchM_def on_users_def throwM_def split: sum.splits)
  have "resolveTtlEpochSeconds (now_s c) put_new = Inr None" by (simp add: put_new_def resolveTtlEpochSeconds_def no_put_options_def)
  then have "inv s'" "content s' = (content (users w))(u \<mapsto> (?x, None))"
    using put_done [OF iu q [unfolded qr]] by simp_all
  moreover have "world_ok w1" using ws assms(1) \<open>inv s'\<close> by (simp add: world_ok_def)
  ultimately show ?thesis using clearLockout_clears [OF _ cl] ws by auto
qed

end

text \<open>C13: From sign-up to a session: on a store that works, after \<open>signUp\<close> (no verification code
  configured) the same password signs in, and the cookie that sets is, until the token expires, accepted
  by \<open>requireAuth\<close> as that user, given that \<open>bcrypt\<close> and \<open>jsonwebtoken\<close> accept what they made.\<close>

theorem sign_up_session:
  assumes "mock_inv (users w)" "mock_inv (codes w)" "codeDelivery env = None" "secret env = Inr sec"
    and "signUp (mock_store syn) env c u pw w = Some (w1, Inr ())"
    and "bcrypt_compare env pw (bcrypt_hash env (random_salt c) pw)"
    and "tok = jwt_sign env sec (new_claims env c1 u (epoch_at (now_s c1) (mock_content (codes w) (epochKey u))))"
    and "tok \<noteq> []" "CHR '';'' \<notin> set tok" "CHR '';'' \<notin> set (fullId env)"
    and "jwt_verify env sec (issuer env) (now_s c2) tok = Some \<lparr>pl_username = u, pl_jti = Some (random_uuid c1),
           pl_exp = Some (now_s c1 + sessionDuration env), pl_ep = Some (epoch_at (now_s c1) (mock_content (codes w) (epochKey u)))\<rparr>"
    and "headers_get (request_headers c2) ''cookie'' = Some (cookieName env @ ''='' @ tok)"
    and "mock_content (codes w) (revokedKey (random_uuid c1)) = None" "now_s c1 \<le> now_s c2"
  shows "\<exists>w2 w3. signIn (mock_store syn) env c1 u pw w1 = Some (w2, Inr (toAuthBasicUser u (new_user env c pw)))
    \<and> set_cookie w2 = Some (session_cookie env c1 tok)
    \<and> requireAuth (mock_store syn) env c2 w2 = Some (w3, Inr (toAuthBasicUser u (new_user env c pw)))"
proof -
  let ?r = "new_user env c pw"
  let ?ep = "epoch_at (now_s c1) (mock_content (codes w) (epochKey u))"
  have ok: "mock.world_ok w" using assms(1,2) by (simp add: mock.world_ok_def)
  note up = mock.signUp_result [OF ok assms(3,5)]
  have keys: "epochKey u \<noteq> lockoutKey u" "revokedKey j \<noteq> lockoutKey u" for j
    by (simp_all add: epochKey_def lockoutKey_def revokedKey_def)
  have ep: "parseSessionEpoch (raw_of (live (now_s c1) (mock_content (codes w1) (epochKey u)))) = ?ep"
    using up keys(1) by (simp add: epoch_at_def)
  have nl: "mock.not_locked env c1 u w1"
    using up by (simp add: mock.not_locked_def counter_def live_def is_locked_def)
  have user: "mock.found_user env c1 u w1 = Inr (Some ?r)"
    using up by (simp add: mock.found_user_def live_def isExpired_def)
  have r: "\<not> unconfirmed ?r" "bcrypt_compare env pw (ur_hash ?r)" using assms(3,6) by (simp_all add: new_user_def)
  obtain w2 where w2: "signIn (mock_store syn) env c1 u pw w1 = Some (w2, Inr (toAuthBasicUser u ?r))" "mock.world_ok w2"
      "reaped (now_s c1) (mock_content (users w1)) (mock_content (users w2))"
      "set_cookie w2 = Some (session_cookie env c1 (jwt_sign env sec (new_claims env c1 u
          (parseSessionEpoch (raw_of (live (now_s c1) (mock_content (codes w1) (epochKey u))))))))"
      "\<And>k now. k \<noteq> lockoutKey u \<Longrightarrow> now_s c1 \<le> now \<Longrightarrow> live now (mock_content (codes w2) k) = live now (mock_content (codes w1) k)"
    using up by (rule_tac mock.signIn_right [OF _ nl user r assms(4)]) auto
  let ?se = "\<lparr>se_username = u, se_jti = Some (random_uuid c1), se_exp = now_s c1 + sessionDuration env, se_ep = ?ep\<rparr>"
  have tok: "parseSessionToken env c2 = Inr (Some ?se)"
    using assms(4,8-12) cookie_value_own [of "cookieName env" tok]
    by (simp add: parseSessionToken_def cookieName_def opt_or_def)
  have user2: "mock_content (users w2) u = Some (user_text ?r, None)" using reaped_forever [OF w2(3)] up by blast
  have found2: "mock.found_user env c2 (se_username ?se) w2 = Inr (Some ?r)"
    using user2 by (simp add: mock.found_user_def live_def isExpired_def)
  have "live (now_s c2) (mock_content (codes w2) (revokedKey (random_uuid c1))) = Null"
    using w2(5) [OF keys(2) assms(14)] up keys(2) assms(13) by (simp add: live_def)
  moreover have "epoch_at (now_s c2) (mock_content (codes w2) (epochKey u)) \<le> ?ep"
    using w2(5) [OF keys(1) assms(14)] up keys(1) epoch_at_later [OF assms(14)] by (simp add: epoch_at_def)
  ultimately have "token_verdict (mock_content (codes w2)) (now_s c2) ?se (Some ?r) = Inr (toAuthBasicUser u ?r)"
    using r(1) by (simp add: token_verdict_def)
  then have "\<exists>w3. requireAuth (mock_store syn) env c2 w2 = Some (w3, Inr (toAuthBasicUser u ?r))"
    using mock.requireAuth_run [OF w2(2) tok found2, where syn = syn] by auto
  then show ?thesis using w2(1,4) ep assms(7) by auto
qed

lemma sign_up_session_witness:
  "\<exists>w w1 w2 w3. signUp (mock_store (\<lambda>s. s)) ((demo_auth_env None)\<lparr>codeDelivery := None\<rparr>) (demo_call 0) ''bob'' ''pass word'' w = Some (w1, Inr ())
     \<and> signIn (mock_store (\<lambda>s. s)) ((demo_auth_env None)\<lparr>codeDelivery := None\<rparr>) (demo_call 500) ''bob'' ''pass word'' w1 =
         Some (w2, Inr \<lparr>userId = ''bob'', username = ''bob'', createdAt = ''0''\<rparr>)
     \<and> requireAuth (mock_store (\<lambda>s. s)) ((demo_auth_env None)\<lparr>codeDelivery := None\<rparr>) (cookie_request 2000 ''auth_app=k.bob.0'') w2 =
         Some (w3, Inr \<lparr>userId = ''bob'', username = ''bob'', createdAt = ''0''\<rparr>)"
proof -
  let ?api = "mock_store (\<lambda>s. s)" and ?env = "(demo_auth_env None)\<lparr>codeDelivery := None\<rparr>"
  let ?w = "\<lparr>users = kv_open None, codes = kv_open None, set_cookie = None, auth_events = []\<rparr>"
  let ?x = "user_text (new_user ?env (demo_call 0) ''pass word'')"
  have zero: "show_int 0 = ''0''" by code_simp
  have nu: "new_user ?env (demo_call 0) ''pass word'' = \<lparr>ur_hash = ''pass word'', ur_createdAt = ''0'', unconfirmed = False\<rparr>"
    using zero by (simp add: new_user_def demo_auth_env_def demo_call_def)
  have fits: "mock_fits ?x" unfolding nu
    by (rule mock_fits_short) (simp add: user_text_def print_str_def esc_char_def char_code_def)
  have ttl: "resolveTtlEpochSeconds 0 put_new = Inr None" by (simp add: put_new_def resolveTtlEpochSeconds_def no_put_options_def)
  have allowed: "put_allowed (mock_content (kv_open None) ''bob'') put_new" by (simp add: put_allowed_def put_new_def)
  obtain s where s: "store_put ?api 0 ''bob'' (Str ?x) put_new (kv_open None) = (s, Inr ())"
    using mock.put_run [OF mock_empty(1) fits ttl allowed] by metis
  have valid: "validatePassword ?env ''pass word'' = Inr ()"
    by (simp add: validatePassword_def password_errors_def demo_auth_env_def)
  have sel: "lockout ?env = None" "codeDelivery ?env = None" "secret ?env = Inr ''k''" "fullId ?env = ''app''"
    by (simp_all add: demo_auth_env_def)
  have up: "signUp ?api ?env (demo_call 0) ''bob'' ''pass word'' ?w = Some (?w\<lparr>users := s\<rparr>, Inr ())"
    using s valid sel by (simp add: signUp_def bindM_def liftM_def catchM_def on_users_def clearLockout_def returnM_def)
  have inv: "mock_inv (users ?w)" "mock_inv (codes ?w)" by simp_all
  have tok: "''k.bob.0'' = jwt_sign ?env ''k'' (new_claims ?env (demo_call 500) ''bob'' (epoch_at (now_s (demo_call 500)) (mock_content (codes ?w) (epochKey ''bob''))))"
    using zero by (simp add: demo_auth_env_def new_claims_def)
  have ver: "jwt_verify ?env ''k'' (issuer ?env) (now_s (cookie_request 2000 ''auth_app=k.bob.0'')) ''k.bob.0'' =
      Some \<lparr>pl_username = ''bob'', pl_jti = Some (random_uuid (demo_call 500)), pl_exp = Some (now_s (demo_call 500) + sessionDuration ?env),
        pl_ep = Some (epoch_at (now_s (demo_call 500)) (mock_content (codes ?w) (epochKey ''bob'')))\<rparr>"
  proof -
    have "parse_int10 ''0'' = Some 0" by code_simp
    then show ?thesis by (simp add: demo_auth_env_def demo_call_def now_s_def)
  qed
  have hdr: "headers_get (request_headers (cookie_request 2000 ''auth_app=k.bob.0'')) ''cookie'' = Some (cookieName ?env @ ''='' @ ''k.bob.0'')"
    unfolding cookieName_def sel(4) by code_simp
  have "\<exists>w2 w3. signIn ?api ?env (demo_call 500) ''bob'' ''pass word'' (?w\<lparr>users := s\<rparr>) = Some (w2, Inr (toAuthBasicUser ''bob'' (new_user ?env (demo_call 0) ''pass word'')))
    \<and> set_cookie w2 = Some (session_cookie ?env (demo_call 500) ''k.bob.0'')
    \<and> requireAuth ?api ?env (cookie_request 2000 ''auth_app=k.bob.0'') w2 = Some (w3, Inr (toAuthBasicUser ''bob'' (new_user ?env (demo_call 0) ''pass word'')))"
    by (rule sign_up_session [OF inv sel(2,3) up _ tok _ _ _ ver hdr]) (simp_all add: demo_auth_env_def)
  then show ?thesis using up unfolding nu toAuthBasicUser_def by auto
qed

end
