(* ===== verification/AuthApi.thy ===== *)
theory AuthApi
  imports AuthReset
begin

text \<open>
  The state machine \<^verbatim>\<open>createApi\<close> of \<^verbatim>\<open>packages/bb-auth-basic/src/index.ts\<close>
  exposes to the Authenticator component: what its answers look like, and what an error shows.
\<close>

section \<open>Inputs as the client sends them\<close>

text \<open>An action by name with its field values, as \<open>switch (input.action)\<close> reads it.\<close>

definition read_action :: "string \<Rightarrow> (string \<Rightarrow> string option) \<Rightarrow> AuthActionInput" where
  "read_action name f =
     (let g = (\<lambda>k. opt_or (f k) []) in
      if name = ''signIn'' then SignInAction (g ''username'') (g ''password'')
      else if name = ''signUp'' then SignUpAction (g ''username'') (g ''password'')
      else if name = ''confirmSignUp'' then ConfirmSignUpAction (g ''username'') (g ''code'') (f ''password'')
      else if name = ''signOut'' then SignOutAction
      else if name = ''resetPassword'' then ResetPasswordAction (g ''username'')
      else if name = ''confirmResetPassword'' then ConfirmResetPasswordAction (g ''username'') (g ''code'') (g ''newPassword'')
      else UnknownAction name)"

text \<open>The values a form gives for the fields of an action.\<close>

definition form :: "AuthAction \<Rightarrow> (string \<Rightarrow> string) \<Rightarrow> string \<Rightarrow> string option" where
  "form a v k = (if k \<in> set (map field_name (action_fields a)) then Some (v k) else None)"

text \<open>The input one would write by hand for the action.\<close>

definition intended :: "string \<Rightarrow> (string \<Rightarrow> string) \<Rightarrow> AuthActionInput option" where
  "intended name v = map_of
     [(''signIn'', SignInAction (v ''username'') (v ''password'')),
      (''signUp'', SignUpAction (v ''username'') (v ''password'')),
      (''confirmSignUp'', ConfirmSignUpAction (v ''username'') (v ''code'') (Some (v ''password''))),
      (''signOut'', SignOutAction),
      (''resetPassword'', ResetPasswordAction (v ''username'')),
      (''confirmResetPassword'', ConfirmResetPasswordAction (v ''username'') (v ''code'') (v ''newPassword''))] name"

section \<open>Answers are well formed\<close>

text \<open>A state names its user exactly when signed in, carries an error name only with an error, and offers
  only actions the API understands, with a form that fills in every parameter.\<close>

definition auth_state_ok :: "auth_env \<Rightarrow> AuthState \<Rightarrow> bool" where
  "auth_state_ok env st =
     ((as_user st \<noteq> None \<longleftrightarrow> as_state st = SignedIn)
      \<and> (as_errorName st \<noteq> None \<longrightarrow> as_error st \<noteq> None)
      \<and> as_actions st \<noteq> [] \<and> distinct (map action_name (as_actions st))
      \<and> (''resetPassword'' \<in> set (map action_name (as_actions st)) \<longrightarrow> codeDelivery env \<noteq> None)
      \<and> (\<forall>a \<in> set (as_actions st). \<forall>v. intended (action_name a) v = Some (read_action (action_name a) (form a v))))"

lemmas state_defs = signedOutState_def signedInState_def confirmingSignUpState_def confirmingPasswordResetState_def
  credentials_fields_def required_field_def hidden_username_def

lemma states_ok:
  "auth_state_ok env (signedOutState env)" "auth_state_ok env (signedInState u)"
  "auth_state_ok env (confirmingSignUpState n)" "auth_state_ok env (confirmingPasswordResetState n)"
  by (auto simp: auth_state_ok_def state_defs intended_def read_action_def form_def opt_or_def Let_def)

lemma state_ok_error [simp]:
  "auth_state_ok env st \<Longrightarrow> auth_state_ok env (st\<lparr>as_error := Some e, as_errorName := n\<rparr>)"
  "auth_state_ok env st \<Longrightarrow> auth_state_ok env (st\<lparr>as_error := Some e\<rparr>)"
  by (simp_all add: auth_state_ok_def)

lemma auth_action_ok: "auth_action api env c input w = Some (w', Inr st) \<Longrightarrow> auth_state_ok env st"
  by (cases input)
    (auto simp: bindM_Inr sign_in_state_def returnM_def throwM_def states_ok split: if_splits)

lemma fallback_ok:
  "auth_state_ok env (case u of Some u \<Rightarrow> signedInState u | None \<Rightarrow> signedOutState env)"
  by (simp add: states_ok split: option.split)

text \<open>C35: Whatever a client sends, the state it gets back is well formed: a user exactly in the state
  \<open>signedIn\<close>, an error name only beside an error, password reset offered only where codes can be
  delivered, and every offered action is one the API understands, with a field for each parameter.\<close>

theorem auth_state_typed:
  assumes "setAuthState api env c (read_action name f) w = Some (w', Inr st) \<or> getAuthState api env c w = Some (w', Inr st)"
  shows "auth_state_ok env st"
  using assms
proof
  assume "getAuthState api env c w = Some (w', Inr st)"
  then show ?thesis by (auto simp: getAuthState_def bindM_Inr returnM_def intro: fallback_ok)
next
  assume "setAuthState api env c (read_action name f) w = Some (w', Inr st)"
  then consider "auth_action api env c (read_action name f) w = Some (w', Inr st)"
    | e u where "st = (case u of Some u \<Rightarrow> signedInState u | None \<Rightarrow> signedOutState env)
        \<lparr>as_error := Some (error_text e), as_errorName := error_name_of e\<rparr>"
    unfolding setAuthState_def catchM_Inr bindM_Inr returnM_def by auto
  then show ?thesis by cases (auto intro: auth_action_ok simp: fallback_ok)
qed

text \<open>A store whose every call fails with an error of the AWS SDK.\<close>

definition sdk_error :: thrown where
  "sdk_error = set_err_name ''ProvisionedThroughputExceededException'' (new_Error ''arn:aws:dynamodb:eu-west-1:123456789012:table/codes'')"

definition broken_store :: "unit store_api" where
  "broken_store = \<lparr>store_get = (\<lambda>now k s. (s, Inl sdk_error)), store_put = (\<lambda>now k v opts s. (s, Inl sdk_error)),
     store_delete = (\<lambda>k opts s. (s, Inl sdk_error))\<rparr>"

definition broken_world :: "unit auth_world" where
  "broken_world = \<lparr>users = (), codes = (), set_cookie = None, auth_events = []\<rparr>"

lemma broken_sign_in:
  "auth_action broken_store (demo_auth_env None) (demo_call 0) (SignInAction ''ann'' ''right'') broken_world = Some (broken_world, Inl sdk_error)"
  by (simp add: sign_in_state_def signIn_def assertNotLockedOut_def getUserRecord_def on_users_def bindM_def returnM_def
      broken_store_def broken_world_def)

lemma no_cookie: "parseSessionToken (demo_auth_env p) (demo_call t) = Inr None"
  by (simp add: parseSessionToken_def demo_auth_env_def demo_call_def headers_get_def new_Headers_def cookie_value_def
      cookie_segment_def cookieName_def starts_with_def opt_or_def)

lemma broken_set_state:
  "setAuthState broken_store (demo_auth_env None) (demo_call 0) (SignInAction ''ann'' ''right'') broken_world =
     Some (broken_world, Inr ((signedOutState (demo_auth_env None))
       \<lparr>as_error := Some (error_text sdk_error), as_errorName := error_name_of sdk_error\<rparr>))"
  using broken_sign_in
  by (simp add: setAuthState_def catchM_def getUserFromCookie_def resolveSession_def no_cookie bindM_def liftM_def returnM_def)

lemma auth_state_typed_witness:
  "auth_state_ok (demo_auth_env None) ((signedOutState (demo_auth_env None))
     \<lparr>as_error := Some (error_text sdk_error), as_errorName := error_name_of sdk_error\<rparr>)"
proof (rule auth_state_typed)
  show "setAuthState broken_store (demo_auth_env None) (demo_call 0)
      (read_action ''signIn'' [''username'' \<mapsto> ''ann'', ''password'' \<mapsto> ''right'']) broken_world =
     Some (broken_world, Inr ((signedOutState (demo_auth_env None))
       \<lparr>as_error := Some (error_text sdk_error), as_errorName := error_name_of sdk_error\<rparr>))
     \<or> getAuthState broken_store (demo_auth_env None) (demo_call 0) broken_world = Some (broken_world,
       Inr ((signedOutState (demo_auth_env None))\<lparr>as_error := Some (error_text sdk_error), as_errorName := error_name_of sdk_error\<rparr>))"
    using broken_set_state by (simp add: read_action_def opt_or_def)
qed

text \<open>An error that is not safe to show stays on the server: if an action fails with an error that is
  neither an \<open>ApiError\<close> nor branded, the client's state says only that something unexpected happened,
  without an error name, and is the same for any two such errors; a failed sign-out reports signed out.\<close>

theorem auth_error_opaque:
  assumes "auth_action api env c input w = Some (w1, Inl e)" "\<not> isWireSafeError e"
    and "auth_action api2 env c input w2 = Some (w1, Inl e2)" "\<not> isWireSafeError e2"
    and "getUserFromCookie api env c w1 = getUserFromCookie api2 env c w1"
    and "setAuthState api env c input w = Some (w', Inr st)"
  shows "as_error st = Some ''An unexpected error occurred'' \<and> as_errorName st = None
    \<and> setAuthState api2 env c input w2 = Some (w', Inr st)
    \<and> (input = SignOutAction \<longrightarrow> as_state st = SignedOut)"
proof -
  have name: "error_name_of e = None" "error_name_of e2 = None"
    using assms(2,4) by (cases e; cases e2; simp add: error_name_of_def isWireSafeError_def)+
  have msg: "error_text e = ''An unexpected error occurred''" "error_text e2 = ''An unexpected error occurred''"
    using assms(2,4) by (simp_all add: error_text_def)
  let ?answer = "bindM (if input = SignOutAction then returnM None else getUserFromCookie api env c) (\<lambda>current.
    returnM ((case current of Some u \<Rightarrow> signedInState u | None \<Rightarrow> signedOutState env)
      \<lparr>as_error := Some ''An unexpected error occurred'', as_errorName := None\<rparr>)) w1"
  have a: "setAuthState api env c input w = ?answer"
    unfolding setAuthState_def catchM_fail [where m = "auth_action api env c input" and w = w, OF assms(1)] name msg ..
  moreover have "setAuthState api2 env c input w2 = ?answer"
    unfolding setAuthState_def catchM_fail [where m = "auth_action api2 env c input" and w = w2, OF assms(3)] name msg using assms(5) by (simp add: bindM_def)
  moreover have "as_error st = Some ''An unexpected error occurred'' \<and> as_errorName st = None \<and> (input = SignOutAction \<longrightarrow> as_state st = SignedOut)"
    using assms(6) unfolding a bindM_Inr by (auto simp: returnM_def state_defs)
  ultimately show ?thesis using assms(6) by simp
qed

definition other_store :: "unit store_api" where
  "other_store = broken_store\<lparr>store_get := \<lambda>now k s. (s, Inl (new_Error ''socket hang up''))\<rparr>"

lemma auth_error_opaque_witness:
  "setAuthState other_store (demo_auth_env None) (demo_call 0) (SignInAction ''ann'' ''right'') broken_world =
     setAuthState broken_store (demo_auth_env None) (demo_call 0) (SignInAction ''ann'' ''right'') broken_world"
proof -
  have other: "auth_action other_store (demo_auth_env None) (demo_call 0) (SignInAction ''ann'' ''right'') broken_world =
      Some (broken_world, Inl (new_Error ''socket hang up''))"
    by (simp add: sign_in_state_def signIn_def assertNotLockedOut_def getUserRecord_def on_users_def bindM_def returnM_def
      other_store_def broken_store_def broken_world_def)
  have unsafe: "\<not> isWireSafeError sdk_error" "\<not> isWireSafeError (new_Error ''socket hang up'')"
    by (simp_all add: sdk_error_def error_defs)
  have cookie: "getUserFromCookie broken_store (demo_auth_env None) (demo_call 0) broken_world =
      getUserFromCookie other_store (demo_auth_env None) (demo_call 0) broken_world"
    by (simp add: getUserFromCookie_def resolveSession_def no_cookie bindM_def liftM_def returnM_def)
  show ?thesis
    using auth_error_opaque [OF broken_sign_in unsafe(1) other unsafe(2) cookie broken_set_state] broken_set_state by simp
qed

end
