(* ===== verification/KvRefine.thy ===== *)
theory KvRefine
  imports AuthStore
begin

text \<open>
  What \<^verbatim>\<open>packages/bb-kv-store/src/index.mock.ts\<close> promises a caller that stores
  strings, as an abstract machine: a map from keys to a string and an expiry, without files, JSON or
  process restarts.  The store refines it: no sequence of calls and restarts can tell them apart.
\<close>

section \<open>Calls and the two machines\<close>

datatype store_call =
    GetCall int string
  | PutCall int string string PutOptions
  | DeleteCall string ConditionalDeleteOptions
  | Restart

fun call_keys :: "store_call \<Rightarrow> string set" where
  "call_keys (GetCall now k) = {k}"
| "call_keys (PutCall now k x opts) = {k}"
| "call_keys (DeleteCall k conds) = {k}"
| "call_keys Restart = {}"

text \<open>The abstract machine.\<close>

definition spec_put :: "int \<Rightarrow> string \<Rightarrow> string \<Rightarrow> PutOptions \<Rightarrow> (string \<Rightarrow> entry) \<Rightarrow> (string \<Rightarrow> entry) \<times> (thrown, jsval) res" where
  "spec_put now k x opts f =
     (if MAX_ITEM_BYTES < length (print_json (Str x))
      then (f, Inl (blocksError ItemTooLarge ''Item size has exceeded the maximum allowed size of 400 KB''))
      else (case resolveTtlEpochSeconds now opts of
          Inl e \<Rightarrow> (f, Inl e)
        | Inr t \<Rightarrow> if put_allowed (f k) opts then (f(k \<mapsto> (x, t)), Inr Undef)
            else (f, Inl (conditionalConflict (ifValueEquals opts \<noteq> Undef)))))"

fun spec_call :: "store_call \<Rightarrow> (string \<Rightarrow> entry) \<Rightarrow> (string \<Rightarrow> entry) \<times> (thrown, jsval) res" where
  "spec_call (GetCall now k) f = (if live now (f k) = Null then f(k := None) else f, Inr (live now (f k)))"
| "spec_call (PutCall now k x opts) f = spec_put now k x opts f"
| "spec_call (DeleteCall k conds) f =
     (if delete_allowed (f k) conds then (f(k := None), Inr Undef)
      else (f, Inl (conditionalConflict (del_ifValueEquals conds \<noteq> Undef \<and> \<not> truthy (ifExists conds)))))"
| "spec_call Restart f = (f, Inr Undef)"

text \<open>The store; a restart makes a new one from the file.\<close>

definition undef_result :: "kv_store \<times> (thrown, unit) res \<Rightarrow> kv_store \<times> (thrown, jsval) res" where
  "undef_result p = (fst p, map_sum id (\<lambda>_. Undef) (snd p))"

fun kv_call :: "(string \<Rightarrow> string) \<Rightarrow> store_call \<Rightarrow> kv_store \<Rightarrow> kv_store \<times> (thrown, jsval) res" where
  "kv_call syn (GetCall now k) s = kv_get (mock_env syn now) k s"
| "kv_call syn (PutCall now k x opts) s = undef_result (kv_put (mock_env syn now) k (Str x) opts s)"
| "kv_call syn (DeleteCall k conds) s = undef_result (kv_delete k conds s)"
| "kv_call syn Restart s = (kv_open (kv_file s), Inr Undef)"

fun run_calls :: "('c \<Rightarrow> 's \<Rightarrow> 's \<times> 'r) \<Rightarrow> 'c list \<Rightarrow> 's \<Rightarrow> 's \<times> 'r list" where
  "run_calls step [] s = (s, [])"
| "run_calls step (c # cs) s =
     (case step c s of (s', r) \<Rightarrow> (case run_calls step cs s' of (s'', rs) \<Rightarrow> (s'', r # rs)))"

section \<open>The abstraction\<close>

definition kv_refines :: "kv_store \<Rightarrow> (string \<Rightarrow> entry) \<Rightarrow> bool" where
  "kv_refines s f = (obj_wf (kv_data s) \<and> mock_inv s \<and> mock_content s = f
     \<and> PROTO \<notin> fst ` set (kv_data s) \<and> set (loadFromDisk (kv_file s)) = set (kv_data s))"

lemma refines_flush:
  assumes "obj_wf d" "PROTO \<notin> fst ` set d" "mock_inv (flushToDisk (s\<lparr>kv_data := d\<rparr>))" "mock_content (flushToDisk (s\<lparr>kv_data := d\<rparr>)) = f"
  shows "kv_refines (flushToDisk (s\<lparr>kv_data := d\<rparr>)) f"
proof -
  have "set (loadFromDisk (kv_file (flushToDisk (s\<lparr>kv_data := d\<rparr>)))) = set (assigned_props d)"
    using load_flush [of "s\<lparr>kv_data := d\<rparr>"] assms(1) by simp
  also have "... = set d" using assms(2) by (force simp: assigned_props_def)
  finally show ?thesis using assms by (simp add: kv_refines_def)
qed

lemma refines_set:
  assumes "kv_refines s f" "k \<noteq> PROTO"
  shows "kv_refines (flushToDisk (s\<lparr>kv_data := obj_set k \<lparr>me_value = print_json (Str x), me_ttl = t\<rparr> (kv_data s)\<rparr>)) (f(k \<mapsto> (x, t)))"
  by (rule refines_flush)
    (use assms in \<open>auto simp: kv_refines_def mock_inv_set mock_content_set fst_obj_set simp del: print_json.simps\<close>)

lemma obj_del_subset: "set (obj_del k d) \<subseteq> set d"
  by (auto simp: obj_del_def)

lemma refines_del:
  assumes "kv_refines s f"
  shows "kv_refines (flushToDisk (s\<lparr>kv_data := obj_del k (kv_data s)\<rparr>)) (f(k := None))"
  by (rule refines_flush)
    (use assms in \<open>auto simp: kv_refines_def mock_inv_del mock_content_del dest: obj_del_subset [THEN subsetD]\<close>)

lemma refines_restart:
  assumes "kv_refines s f"
  shows "kv_refines (kv_open (kv_file s)) f"
proof -
  let ?d = "loadFromDisk (kv_file s)"
  have wf: "obj_wf ?d" by (rule loadFromDisk_wf)
  have s: "set ?d = set (kv_data s)" "obj_wf (kv_data s)" using assms by (simp_all add: kv_refines_def)
  have "obj_get ?d k = obj_get (kv_data s) k" for k
    using obj_get_iff [OF wf, of k] obj_get_iff [OF s(2), of k] s(1) by (metis not_Some_eq)
  then have "mock_content (kv_open (kv_file s)) = f"
    using assms by (simp add: kv_refines_def mock_content_def kv_open_def fun_eq_iff)
  then show ?thesis using assms wf s by (simp add: kv_refines_def kv_open_def mock_inv_def)
qed

text \<open>One call.\<close>

lemma call_refines:
  assumes "kv_refines s f" "PROTO \<notin> call_keys c"
  shows "kv_refines (fst (kv_call syn c s)) (fst (spec_call c f)) \<and> snd (kv_call syn c s) = snd (spec_call c f)"
proof -
  have i: "mock_inv s" "mock_content s = f" using assms(1) by (simp_all add: kv_refines_def)
  show ?thesis
  proof (cases c)
    case (GetCall now k)
    have g: "kv_get (mock_env syn now) k s =
        ((if live now (f k) = Null \<and> f k \<noteq> None then flushToDisk (s\<lparr>kv_data := obj_del k (kv_data s)\<rparr>) else s), Inr (live now (f k)))"
      using mock_get [OF i(1), of syn now k] i(2) by (simp add: mock_store_def)
    show ?thesis
    proof (cases "f k")
      case None
      then have "f(k := None) = f" by auto
      then show ?thesis using GetCall g None assms(1) by (simp add: live_def)
    next
      case (Some e)
      then show ?thesis using GetCall g assms(1) refines_del by simp
    qed
  next
    case (PutCall now k x opts)
    then have k: "k \<noteq> PROTO" using assms(2) by simp
    have "kv_put (mock_env syn now) k (Str x) opts s =
      (if \<not> mock_fits x then (s, Inl (blocksError ItemTooLarge ''Item size has exceeded the maximum allowed size of 400 KB''))
       else (case resolveTtlEpochSeconds now opts of
          Inl e \<Rightarrow> (s, Inl e)
        | Inr t \<Rightarrow> if put_allowed (f k) opts
            then (flushToDisk (s\<lparr>kv_data := obj_set k \<lparr>me_value = print_json (Str x), me_ttl = t\<rparr> (kv_data s)\<rparr>), Inr ())
            else (s, Inl (conditionalConflict (ifValueEquals opts \<noteq> Undef)))))"
      unfolding i(2) [symmetric] using mock_put [OF i(1), of syn now k x opts] by (simp add: mock_store_def)
    then show ?thesis using PutCall assms(1) refines_set [OF assms(1) k]
      by (simp add: spec_put_def undef_result_def mock_fits_def not_le del: print_json.simps split: sum.split)
  next
    case (DeleteCall k conds)
    obtain x where x: "obj_get (kv_data s) k = None \<or> (\<exists>e. obj_get (kv_data s) k = Some e \<and> me_value e = print_json (Str x) \<and> text_of_entry e = x)"
      using mock_inv_get [OF i(1)] by (metis not_None_eq)
    have d: "kv_delete k conds s =
      (if delete_allowed (f k) conds then (flushToDisk (s\<lparr>kv_data := obj_del k (kv_data s)\<rparr>), Inr ())
       else (s, Inl (conditionalConflict (del_ifValueEquals conds \<noteq> Undef \<and> \<not> truthy (ifExists conds)))))"
    proof (cases "obj_get (kv_data s) k")
      case None
      then show ?thesis unfolding i(2) [symmetric]
        by (auto simp: kv_delete_def delete_allowed_def mock_content_def obj_has_get stringify_def Let_def)
    next
      case (Some e)
      then have e: "me_value e = print_json (Str x)" "text_of_entry e = x" using x by auto
      then have "(Some (me_value e) = stringify (del_ifValueEquals conds)) = (del_ifValueEquals conds = Str x)"
        using stringify_eq_Str [of "del_ifValueEquals conds" x] by metis
      then show ?thesis unfolding i(2) [symmetric]
        using e(2) by (auto simp: kv_delete_def delete_allowed_def mock_content_def obj_has_get Some Let_def)
    qed
    then show ?thesis using DeleteCall assms(1) refines_del [OF assms(1)] by (simp add: undef_result_def)
  next
    case Restart
    then show ?thesis using refines_restart [OF assms(1)] by simp
  qed
qed

lemma calls_refine:
  "kv_refines s f \<Longrightarrow> \<forall>c \<in> set cs. PROTO \<notin> call_keys c \<Longrightarrow>
     kv_refines (fst (run_calls (kv_call syn) cs s)) (fst (run_calls spec_call cs f))
     \<and> snd (run_calls (kv_call syn) cs s) = snd (run_calls spec_call cs f)"
proof (induction cs arbitrary: s f)
  case (Cons c cs)
  note one = call_refines [OF Cons.prems(1), of c syn]
  note rest = Cons.IH [of "fst (kv_call syn c s)" "fst (spec_call c f)"]
  show ?case using one rest Cons.prems(2) by (simp add: split_beta)
qed simp

lemma refines_start: "kv_refines (kv_open None) (\<lambda>k. None)"
  by (simp add: kv_refines_def kv_open_def loadFromDisk_def mock_inv_def mock_content_def fun_eq_iff)

text \<open>C8: The local store refines its specification: from an empty store, any sequence of gets,
  conditional puts and deletes of strings, with process restarts anywhere between them, gives exactly the
  results of the abstract map that knows no files and never restarts, and holds the same entries; the key
  \<open>__proto__\<close> is excluded.\<close>

theorem kv_refines_map:
  assumes "\<forall>c \<in> set cs. PROTO \<notin> call_keys c"
  shows "snd (run_calls (kv_call syn) cs (kv_open None)) = snd (run_calls spec_call cs (\<lambda>k. None))
    \<and> mock_content (fst (run_calls (kv_call syn) cs (kv_open None))) = fst (run_calls spec_call cs (\<lambda>k. None))"
  using calls_refine [OF refines_start assms] by (simp add: kv_refines_def)

definition demo_calls :: "store_call list" where
  "demo_calls = [PutCall 0 ''a'' ''x'' (no_put_options\<lparr>ifNotExists := Bool True\<rparr>), Restart, GetCall 1 ''a'',
     PutCall 2 ''a'' ''y'' (no_put_options\<lparr>ifNotExists := Bool True\<rparr>), DeleteCall ''a'' no_delete_options, GetCall 3 ''a'']"

lemma demo_calls_spec:
  "snd (run_calls spec_call demo_calls (\<lambda>k. None)) =
     [Inr Undef, Inr Undef, Inr (Str ''x''), Inl (conditionalConflict False), Inr Undef, Inr Null]"
  by (simp add: demo_calls_def spec_put_def no_put_options_def no_delete_options_def resolveTtlEpochSeconds_def put_allowed_def
      delete_allowed_def live_def isExpired_def MAX_ITEM_BYTES_def print_str_def esc_char_def char_code_def)

lemma kv_refines_map_witness:
  "snd (run_calls (kv_call (\<lambda>s. s)) demo_calls (kv_open None)) =
     [Inr Undef, Inr Undef, Inr (Str ''x''), Inl (conditionalConflict False), Inr Undef, Inr Null]"
proof -
  have "\<forall>c \<in> set demo_calls. PROTO \<notin> call_keys c" by (simp add: demo_calls_def PROTO_def)
  from kv_refines_map [OF this] show ?thesis using demo_calls_spec by simp
qed

end
