(* ===== verification/SqlBuilder.thy ===== *)
theory SqlBuilder
  imports Rpc
begin

text \<open>
  \<^verbatim>\<open>packages/bb-data/src/crud/sql-builder.ts\<close>: filters, orderings and rows, as a client may
  send them, into SQL text and a parameter list.  What the code receives is any value: the builder
  runs on decoded RPC arguments, so ill-typed ones are branches of the model.  A \<open>TypeError\<close>
  carries the engine's text, which is left empty here.  The second half reads the built text back
  with a token reader of SQL: this is the specification the builder is checked against.
\<close>

section \<open>Table metadata\<close>

text \<open>\<open>primaryKey: string | string[]\<close>.\<close>

datatype primary_key = PkColumn string | PkColumns "string list"

record TableMetaEntry =
  singular :: string
  plural :: string
  primaryKey :: primary_key
  columns :: "string list"
  autoGenerated :: "string list"

record BuiltQuery =
  q_text :: string
  q_params :: "jsval list"

definition pkCols :: "TableMetaEntry \<Rightarrow> string list" where
  "pkCols meta = (case primaryKey meta of PkColumn c \<Rightarrow> [c] | PkColumns cs \<Rightarrow> cs)"

definition type_error :: thrown where
  "type_error = JsError ''TypeError'' [] False False Undef Undef None"

definition quoteId :: "string \<Rightarrow> string" where
  "quoteId ident = CHR 0x22 # replace_char CHR 0x22 [CHR 0x22, CHR 0x22] ident @ [CHR 0x22]"

definition unknown_column :: "jsval \<Rightarrow> TableMetaEntry \<Rightarrow> thrown" where
  "unknown_column col meta =
     new_Error (''Unknown column: '' @ dq (js_to_string col) @ '' (valid: ''
                @ join '', '' (columns meta) @ '')'')"

definition validateColumn :: "jsval \<Rightarrow> TableMetaEntry \<Rightarrow> (thrown, string) res" where
  "validateColumn col meta =
     (case col of
        Str c \<Rightarrow> if c \<in> set (columns meta) then Inr c else Inl (unknown_column col meta)
      | _ \<Rightarrow> Inl (unknown_column col meta))"

definition placeholder :: "nat \<Rightarrow> string" where
  "placeholder i = CHR ''$'' # show_nat i"

text \<open>\<open>Object.entries(v)\<close>.\<close>

definition js_entries :: "jsval \<Rightarrow> (thrown, (string \<times> jsval) list) res" where
  "js_entries v =
     (case v of
        Undef \<Rightarrow> Inl type_error
      | Null \<Rightarrow> Inl type_error
      | Obj ps \<Rightarrow> Inr ps
      | Arr vs \<Rightarrow> Inr (zip (map show_nat [0..<length vs]) vs)
      | Str s \<Rightarrow> Inr (zip (map show_nat [0..<length s]) (map (\<lambda>c. Str [c]) s))
      | _ \<Rightarrow> Inr [])"

section \<open>Conditions\<close>

definition OPERATORS :: "string set" where
  "OPERATORS = {''gt'', ''gte'', ''lt'', ''lte'', ''like'', ''ilike'', ''in''}"

definition OP_MAP :: "(string \<times> string) list" where
  "OP_MAP = [(''gt'', ''>''), (''gte'', ''>=''), (''lt'', ''<''), (''lte'', ''<=''),
             (''like'', ''LIKE''), (''ilike'', ''ILIKE'')]"

type_synonym conditions = "string list \<times> jsval list"

definition op_condition :: "string \<Rightarrow> nat \<Rightarrow> string \<Rightarrow> jsval \<Rightarrow> (thrown, string \<times> jsval list) res" where
  "op_condition col idx op opVal =
     (if op \<notin> OPERATORS then Inl (new_Error (''Unknown operator: '' @ dq op))
      else if op = ''in'' then
        (case opVal of
           Arr (v # vs) \<Rightarrow>
             Inr (col @ '' IN ('' @ join '', '' (map placeholder [idx..<idx + length (v # vs)]) @ '')'', v # vs)
         | _ \<Rightarrow> Inl (new_Error (dq ''in'' @ '' requires a non-empty array'')))
      else Inr (col @ '' '' @ the (obj_get OP_MAP op) @ '' '' @ placeholder idx, [opVal]))"

fun op_conditions :: "string \<Rightarrow> nat \<Rightarrow> (string \<times> jsval) list \<Rightarrow> (thrown, conditions) res" where
  "op_conditions col idx [] = Inr ([], [])"
| "op_conditions col idx ((op, opVal) # ops) =
     bindR (op_condition col idx op opVal) (\<lambda>(c, ps).
     bindR (op_conditions col (idx + length ps) ops) (\<lambda>(cs, qs).
       Inr (c # cs, ps @ qs)))"

text \<open>One entry of a filter: both loops below run this.\<close>

definition column_conditions :: "TableMetaEntry \<Rightarrow> nat \<Rightarrow> string \<Rightarrow> jsval \<Rightarrow> (thrown, conditions) res" where
  "column_conditions meta idx key value =
     bindR (validateColumn (Str key) meta) (\<lambda>_.
       let col = quoteId key in
       case value of
         Null \<Rightarrow> Inr ([col @ '' IS NULL''], [])
       | Obj ops \<Rightarrow> op_conditions col idx ops
       | _ \<Rightarrow> Inr ([col @ '' = '' @ placeholder idx], [value]))"

fun buildWhereConditions :: "TableMetaEntry \<Rightarrow> nat \<Rightarrow> (string \<times> jsval) list \<Rightarrow> (thrown, conditions) res" where
  "buildWhereConditions meta idx [] = Inr ([], [])"
| "buildWhereConditions meta idx ((key, value) # rest) =
     bindR (column_conditions meta idx key value) (\<lambda>(cs, ps).
     bindR (buildWhereConditions meta (idx + length ps) rest) (\<lambda>(ds, qs).
       Inr (cs @ ds, ps @ qs)))"

fun or_parts :: "TableMetaEntry \<Rightarrow> nat \<Rightarrow> jsval list \<Rightarrow> (thrown, conditions) res" where
  "or_parts meta idx [] = Inr ([], [])"
| "or_parts meta idx (orItem # rest) =
     bindR (js_entries orItem) (\<lambda>entries.
     bindR (buildWhereConditions meta idx entries) (\<lambda>(cs, ps).
     bindR (or_parts meta (idx + length ps) rest) (\<lambda>(ds, qs).
       Inr (join '' AND '' cs # ds, ps @ qs))))"

fun where_entries :: "TableMetaEntry \<Rightarrow> nat \<Rightarrow> (string \<times> jsval) list \<Rightarrow> (thrown, conditions) res" where
  "where_entries meta idx [] = Inr ([], [])"
| "where_entries meta idx ((key, value) # rest) =
     bindR
       (if key = ''or'' then
          (case value of
             Arr (v # vs) \<Rightarrow>
               bindR (or_parts meta idx (v # vs)) (\<lambda>(parts, ps).
                 Inr ([''('' @ join '' OR '' parts @ '')''], ps))
           | _ \<Rightarrow> Inr ([], []))
        else column_conditions meta idx key value) (\<lambda>(cs, ps).
     bindR (where_entries meta (idx + length ps) rest) (\<lambda>(ds, qs).
       Inr (cs @ ds, ps @ qs)))"

text \<open>The clause and its parameters; \<open>paramOffset\<close> is the number of parameters.\<close>

definition buildWhere :: "jsval \<Rightarrow> TableMetaEntry \<Rightarrow> (thrown, string \<times> jsval list) res" where
  "buildWhere filter_val meta =
     (if \<not> truthy filter_val then Inr ([], [])
      else bindR (js_entries filter_val) (\<lambda>entries.
           bindR (where_entries meta 1 entries) (\<lambda>(cs, ps).
             Inr (if cs = [] then [] else '' WHERE '' @ join '' AND '' cs, ps))))"

section \<open>Statements\<close>

definition select_columns :: "jsval \<Rightarrow> TableMetaEntry \<Rightarrow> (thrown, string) res" where
  "select_columns sel meta =
     (if \<not> truthy sel then Inr ''*''
      else case sel of
        Arr cs \<Rightarrow> bindR (mapR (\<lambda>c. validateColumn c meta) cs) (\<lambda>names. Inr (join '', '' (map quoteId names)))
      | _ \<Rightarrow> Inl type_error)"

definition order_part :: "TableMetaEntry \<Rightarrow> jsval \<Rightarrow> (thrown, string) res" where
  "order_part meta entry =
     (case entry of
        Str e \<Rightarrow>
          (case split_on CHR '':'' e of
             [col, dir] \<Rightarrow>
               bindR (validateColumn (Str col) meta) (\<lambda>_.
                 let normalized = to_lower dir in
                 if normalized \<noteq> ''asc'' \<and> normalized \<noteq> ''desc''
                 then Inl (new_Error (''Invalid orderBy direction '' @ dq dir @ '', must be '' @ dq ''asc''
                                      @ '' or '' @ dq ''desc''))
                 else Inr (quoteId col @ '' '' @ (if normalized = ''desc'' then ''DESC'' else ''ASC'')))
           | _ \<Rightarrow> Inl (new_Error (''orderBy must be '' @ dq ''column:asc'' @ '' or '' @ dq ''column:desc''
                                 @ '', got '' @ dq e)))
      | _ \<Rightarrow> Inl type_error)"

definition order_clause :: "jsval \<Rightarrow> TableMetaEntry \<Rightarrow> (thrown, string) res" where
  "order_clause orderBy meta =
     (if \<not> truthy orderBy then Inr []
      else bindR (mapR (order_part meta) (case orderBy of Arr es \<Rightarrow> es | _ \<Rightarrow> [orderBy])) (\<lambda>parts.
             Inr ('' ORDER BY '' @ join '', '' parts)))"

text \<open>\<open>LIMIT\<close> and \<open>OFFSET\<close>: absent, or the next placeholder bound to a non-negative integer.\<close>

definition count_clause :: "string \<Rightarrow> string \<Rightarrow> nat \<Rightarrow> jsval \<Rightarrow> (thrown, string \<times> jsval list) res" where
  "count_clause name kw idx v =
     (if v = Undef then Inr ([], [])
      else case v of
        Num n \<Rightarrow> if n < 0 then Inl (new_Error (name @ '' must be a non-negative integer''))
                 else Inr (kw @ placeholder idx, [v])
      | _ \<Rightarrow> Inl (new_Error (name @ '' must be a non-negative integer'')))"

definition buildSelect :: "string \<Rightarrow> jsval \<Rightarrow> TableMetaEntry \<Rightarrow> (thrown, BuiltQuery) res" where
  "buildSelect table opts meta =
     bindR (select_columns (get_prop opts ''select'') meta) (\<lambda>cols.
     bindR (buildWhere (get_prop opts ''where'') meta) (\<lambda>(whereClause, ps).
     bindR (order_clause (get_prop opts ''orderBy'') meta) (\<lambda>orderClause.
     bindR (count_clause ''limit'' '' LIMIT '' (length ps + 1) (get_prop opts ''limit'')) (\<lambda>(limitClause, lp).
     bindR (count_clause ''offset'' '' OFFSET '' (length (ps @ lp) + 1) (get_prop opts ''offset'')) (\<lambda>(offsetClause, op).
       Inr \<lparr>q_text = ''SELECT '' @ cols @ '' FROM '' @ quoteId table @ whereClause @ orderClause @ limitClause
                     @ offsetClause,
            q_params = ps @ lp @ op\<rparr>)))))"

text \<open>\<open>Object.entries(data)\<close> without the generated columns, each a column of the table.\<close>

definition row_entries :: "string \<Rightarrow> jsval \<Rightarrow> TableMetaEntry \<Rightarrow> (thrown, (string \<times> jsval) list) res" where
  "row_entries nothing data meta =
     bindR (js_entries data) (\<lambda>all_entries.
       let entries = filter (\<lambda>(k, v). k \<notin> set (autoGenerated meta)) all_entries in
       if entries = [] then Inl (new_Error nothing)
       else bindR (mapR (\<lambda>(k, v). validateColumn (Str k) meta) entries) (\<lambda>_. Inr entries))"

definition assignment :: "string \<Rightarrow> nat \<Rightarrow> string" where
  "assignment c i = quoteId c @ '' = '' @ placeholder i"

text \<open>\<open>"c1" = $i AND "c2" = $(i+1) ...\<close>, and the same list with commas.\<close>

definition assignments :: "nat \<Rightarrow> string list \<Rightarrow> string list" where
  "assignments i cs = map2 assignment cs [i..<i + length cs]"

definition buildInsert :: "string \<Rightarrow> jsval \<Rightarrow> TableMetaEntry \<Rightarrow> (thrown, BuiltQuery) res" where
  "buildInsert table data meta =
     bindR (row_entries ''No columns to insert (all are auto-generated)'' data meta) (\<lambda>entries.
       Inr \<lparr>q_text = ''INSERT INTO '' @ quoteId table @ '' ('' @ join '', '' (map (quoteId \<circ> fst) entries)
                     @ '') VALUES ('' @ join '', '' (map placeholder [1..<1 + length entries]) @ '') RETURNING *'',
            q_params = map snd entries\<rparr>)"

definition buildUpdate :: "string \<Rightarrow> jsval list \<Rightarrow> jsval \<Rightarrow> TableMetaEntry \<Rightarrow> (thrown, BuiltQuery) res" where
  "buildUpdate table pkValues data meta =
     bindR (row_entries ''No columns to update (all are auto-generated or empty)'' data meta) (\<lambda>entries.
       Inr \<lparr>q_text = ''UPDATE '' @ quoteId table @ '' SET '' @ join '', '' (assignments 1 (map fst entries))
                     @ '' WHERE '' @ join '' AND '' (assignments (length entries + 1) (pkCols meta)) @ '' RETURNING *'',
            q_params = map snd entries @ pkValues\<rparr>)"

definition buildDelete :: "string \<Rightarrow> jsval list \<Rightarrow> TableMetaEntry \<Rightarrow> BuiltQuery" where
  "buildDelete table pkValues meta =
     \<lparr>q_text = ''DELETE FROM '' @ quoteId table @ '' WHERE '' @ join '' AND '' (assignments 1 (pkCols meta)),
      q_params = pkValues\<rparr>"

section \<open>Reading SQL text\<close>

text \<open>
  The tokens PostgreSQL sees: quoted identifiers with doubled quotes undone, placeholders, and the
  remaining characters one by one.  An unterminated identifier has no reading.
\<close>

datatype sql_token = TokId string | TokParam nat | TokChar char

fun read_ident :: "string \<Rightarrow> (string \<times> string) option" where
  "read_ident [] = None"
| "read_ident (c # s) =
     (if c = CHR 0x22
      then (case s of
              d # s' \<Rightarrow> if d = CHR 0x22 then map_option (apfst (Cons c)) (read_ident s') else Some ([], s)
            | [] \<Rightarrow> Some ([], []))
      else map_option (apfst (Cons c)) (read_ident s))"

lemma read_ident_shorter: "read_ident s = Some (i, r) \<Longrightarrow> length r < length s"
  by (induction s arbitrary: i r rule: read_ident.induct)
     (fastforce split: if_splits list.splits)+

function sql_tokens :: "string \<Rightarrow> sql_token list option" where
  "sql_tokens [] = Some []"
| "sql_tokens (c # s) =
     (if c = CHR 0x22
      then (case read_ident s of
              None \<Rightarrow> None
            | Some (i, r) \<Rightarrow> map_option (Cons (TokId i)) (sql_tokens r))
      else if c = CHR ''$''
      then map_option (Cons (TokParam (read_nat (takeWhile is_digit s)))) (sql_tokens (dropWhile is_digit s))
      else map_option (Cons (TokChar c)) (sql_tokens s))"
  by pat_completeness auto
termination
  by (relation "measure length") (auto dest!: read_ident_shorter simp: le_imp_less_Suc length_dropWhile_le)

text \<open>
  Characters that cannot open a string literal, a comment, a dollar quote, an escape or another
  statement.
\<close>

definition safe_char :: "char \<Rightarrow> bool" where
  "safe_char c = (c \<in> set '' ABCDEFGHIJKLMNOPQRSTUVWXYZ(),=<>*'')"

definition closed_token :: "string set \<Rightarrow> sql_token \<Rightarrow> bool" where
  "closed_token names t = (case t of TokId i \<Rightarrow> i \<in> names | TokParam _ \<Rightarrow> True | TokChar c \<Rightarrow> safe_char c)"

definition params_of :: "sql_token list \<Rightarrow> nat list" where
  "params_of ts = concat (map (\<lambda>t. case t of TokParam n \<Rightarrow> [n] | _ \<Rightarrow> []) ts)"

text \<open>The names a statement on a table may mention.\<close>

definition table_names :: "string \<Rightarrow> TableMetaEntry \<Rightarrow> string set" where
  "table_names table meta = insert table (set (columns meta) \<union> set (pkCols meta))"

text \<open>
  A parameterised statement: it reads as keywords, punctuation, known names and placeholders only,
  and the placeholders are \<open>$1\<close>, ..., \<open>$n\<close> in this order, one for each parameter.
\<close>

definition parameterised :: "string set \<Rightarrow> BuiltQuery \<Rightarrow> bool" where
  "parameterised names q =
     (case sql_tokens (q_text q) of
        None \<Rightarrow> False
      | Some ts \<Rightarrow> list_all (closed_token names) ts \<and> params_of ts = [1..<1 + length (q_params q)])"

section \<open>Fragments of statements\<close>

text \<open>
  A fragment reads the same whatever follows it, as long as what follows neither extends an
  identifier nor a placeholder.
\<close>

definition closes :: "string \<Rightarrow> bool" where
  "closes s = (case s of [] \<Rightarrow> True | c # _ \<Rightarrow> c \<noteq> CHR 0x22 \<and> \<not> is_digit c)"

definition fragment :: "string set \<Rightarrow> nat \<Rightarrow> string \<Rightarrow> nat \<Rightarrow> bool" where
  "fragment names k f n =
     (\<exists>ts. (\<forall>s. closes s \<longrightarrow> sql_tokens (f @ s) = map_option (\<lambda>r. ts @ r) (sql_tokens s))
           \<and> list_all (closed_token names) ts \<and> params_of ts = [k..<k + n])"

lemma append_sections:
  "(@) [] = (\<lambda>r. r)" "(@) (x # xs) = (\<lambda>r. x # xs @ r)" "(@) (xs @ ys) = (\<lambda>r. xs @ ys @ r)"
  by auto

lemma closes_Nil [simp]: "closes []"
  by (simp add: closes_def)

lemma closes_Cons [simp]: "closes (c # s) \<longleftrightarrow> c \<noteq> CHR 0x22 \<and> \<not> is_digit c"
  by (simp add: closes_def)

lemma closes_append: "closes f \<Longrightarrow> closes s \<Longrightarrow> closes (f @ s)"
  by (cases f) auto

lemma params_of_simps [simp]:
  "params_of [] = []" "params_of (t # ts) = (case t of TokParam n \<Rightarrow> [n] | _ \<Rightarrow> []) @ params_of ts"
  "params_of (ts @ us) = params_of ts @ params_of us"
  by (simp_all add: params_of_def)

lemma safe_char_not [simp]: "\<not> safe_char CHR 0x22" "\<not> safe_char CHR ''$''"
  by (simp_all add: safe_char_def)

lemma safe_char_closes: "safe_char c \<Longrightarrow> closes (c # s)"
  by (auto simp: safe_char_def is_digit_def char_code_def)

lemma fragment_Nil [intro]: "fragment names k [] 0"
  unfolding fragment_def by (intro exI [of _ "[]"]) (auto simp: append_sections option.map_ident)

lemma fragment_append:
  assumes "fragment names k f n" and "fragment names (k + n) g m" and "closes g"
  shows "fragment names k (f @ g) (n + m)"
proof -
  obtain ts us where f: "\<And>s. closes s \<Longrightarrow> sql_tokens (f @ s) = map_option (\<lambda>r. ts @ r) (sql_tokens s)"
      "list_all (closed_token names) ts" "params_of ts = [k..<k + n]"
    and g: "\<And>s. closes s \<Longrightarrow> sql_tokens (g @ s) = map_option (\<lambda>r. us @ r) (sql_tokens s)"
      "list_all (closed_token names) us" "params_of us = [k + n..<k + n + m]"
    using assms(1,2) unfolding fragment_def by blast
  have "sql_tokens ((f @ g) @ s) = map_option (\<lambda>r. (ts @ us) @ r) (sql_tokens s)" if "closes s" for s
    using f(1) [OF closes_append [OF assms(3) that]] g(1) [OF that]
    by (simp add: append_sections option.map_comp comp_def)
  then show ?thesis
    using f(2,3) g(2,3) upt_add_eq_append [of k "k + n" m] unfolding fragment_def
    by (intro exI [of _ "ts @ us"]) (simp add: add.assoc append_sections)
qed

lemma fragment_plain:
  assumes "fragment names k f n" and "list_all safe_char p"
  shows "fragment names k (p @ f) n"
  using assms(2)
proof (induction p)
  case (Cons c p)
  obtain ts where ts: "\<And>s. closes s \<Longrightarrow> sql_tokens ((p @ f) @ s) = map_option (\<lambda>r. ts @ r) (sql_tokens s)"
      "list_all (closed_token names) ts" "params_of ts = [k..<k + n]"
    using Cons unfolding fragment_def by auto
  have c: "c \<noteq> CHR 0x22" "c \<noteq> CHR ''$''"
    using Cons.prems by auto
  have "sql_tokens (((c # p) @ f) @ s) = map_option (\<lambda>r. (TokChar c # ts) @ r) (sql_tokens s)" if "closes s" for s
    using ts(1) [OF that] c by (simp add: append_sections option.map_comp comp_def)
  then show ?case
    using ts(2,3) Cons.prems unfolding fragment_def
    by (intro exI [of _ "TokChar c # ts"]) (simp add: closed_token_def append_sections)
qed (use assms in simp)

lemma read_ident_quote:
  "closes s \<Longrightarrow> read_ident (replace_char CHR 0x22 [CHR 0x22, CHR 0x22] i @ CHR 0x22 # s) = Some (i, s)"
  by (induction i) (auto simp: replace_char_def closes_def split: list.splits)

lemma fragment_quoteId: "i \<in> names \<Longrightarrow> fragment names k (quoteId i) 0"
  unfolding fragment_def quoteId_def
  by (intro exI [of _ "[TokId i]"]) (auto simp: read_ident_quote closed_token_def append_sections option.map_ident)

lemma takeWhile_digits: "closes s \<Longrightarrow> takeWhile is_digit (show_nat n @ s) = show_nat n"
  "closes s \<Longrightarrow> dropWhile is_digit (show_nat n @ s) = s"
  using show_nat_digits [of n]
  by (auto simp: takeWhile_append2 dropWhile_append2 closes_def split: list.splits)

lemma fragment_placeholder: "fragment names k (placeholder k) (Suc 0)"
  unfolding fragment_def placeholder_def
  by (intro exI [of _ "[TokParam k]"]) (auto simp: takeWhile_digits closed_token_def append_sections option.map_ident)

text \<open>A list of fragments that take their placeholders one after the other.\<close>

fun fragments :: "string set \<Rightarrow> nat \<Rightarrow> string list \<Rightarrow> nat \<Rightarrow> bool" where
  "fragments names k [] n = (n = 0)"
| "fragments names k (c # cs) n = (\<exists>m\<le>n. fragment names k c m \<and> fragments names (k + m) cs (n - m))"

lemma fragments_append:
  "fragments names k cs n \<Longrightarrow> fragments names (k + n) ds m \<Longrightarrow> fragments names k (cs @ ds) (n + m)"
proof (induction cs arbitrary: k n)
  case (Cons c cs)
  then obtain l where l: "l \<le> n" "fragment names k c l" "fragments names (k + l) cs (n - l)"
    by auto
  have "fragments names (k + l) (cs @ ds) (n - l + m)"
    using Cons.IH [OF l(3)] Cons.prems(2) l(1) by (simp add: add.assoc)
  then show ?case
    using l by (auto intro!: exI [of _ l])
qed simp

lemma fragments_Cons: "fragment names k c m \<Longrightarrow> fragments names (k + m) cs n \<Longrightarrow> fragments names k (c # cs) (m + n)"
  by (auto intro!: exI [of _ m])

lemma fragments_single: "fragment names k c n \<Longrightarrow> fragments names k [c] n"
  using fragments_Cons [of names k c n "[]" 0] by simp

text \<open>A keyword or punctuation of a template.\<close>

definition word :: "string \<Rightarrow> bool" where
  "word w = (w \<noteq> [] \<and> list_all safe_char w)"

lemma fragment_prefix: "word w \<Longrightarrow> fragment names k f n \<Longrightarrow> fragment names k (w @ f) n"
  by (simp add: word_def fragment_plain)

lemma fragment_word: "word w \<Longrightarrow> fragment names k w 0"
  using fragment_prefix [OF _ fragment_Nil] by simp

lemma closes_word: "word w \<Longrightarrow> closes (w @ s)"
  using safe_char_closes by (cases w) (auto simp: word_def)

lemma fragment_infix:
  assumes "fragment names k f n" "word w" "fragment names (k + n) g m"
  shows "fragment names k (f @ w @ g) (n + m)"
  by (rule fragment_append [OF assms(1) fragment_prefix [OF assms(2,3)] closes_word [OF assms(2)]])

lemma fragment_suffix: "fragment names k f n \<Longrightarrow> word w \<Longrightarrow> fragment names k (f @ w) n"
  using fragment_infix [OF _ _ fragment_Nil] by simp

lemma fragment_join:
  assumes "word sep" and "fragments names k cs n"
  shows "fragment names k (join sep cs) n"
  using assms
proof (induction sep cs arbitrary: k n rule: join.induct)
  case (3 sep c d cs)
  then obtain m where m: "m \<le> n" "fragment names k c m" "fragments names (k + m) (d # cs) (n - m)"
    by (metis fragments.simps(2))
  then show ?case
    using fragment_infix [OF m(2) 3(2) 3(1) [OF 3(2) m(3)]] m(1) by simp
qed auto

lemma fragments_placeholders: "fragments names k (map placeholder [k..<k + n]) n"
proof (induction n arbitrary: k)
  case (Suc n)
  show ?case
    using fragments_Cons [OF fragment_placeholder, of names k, simplified, OF Suc.IH [of "Suc k"]]
    by (simp add: upt_conv_Cons del: upt_Suc)
qed simp

lemma parameterised_fragment: "fragment names 1 (q_text q) (length (q_params q)) \<Longrightarrow> parameterised names q"
  unfolding fragment_def parameterised_def by (auto dest: spec [of _ "[]"])

section \<open>The builder writes fragments\<close>

lemma template_words [simp]:
  "word '' IN (''" "word '' = ''" "word '' AND ''" "word '', ''" "word '' OR ''" "word '' WHERE ''"
  "word '' ORDER BY ''" "word ''SELECT ''" "word '' FROM ''" "word ''INSERT INTO ''" "word '' (''"
  "word '') VALUES (''" "word '') RETURNING *''" "word ''UPDATE ''" "word '' SET ''" "word '' RETURNING *''"
  "word ''DELETE FROM ''" "word '' IS NULL''" "word ''(''" "word '')''" "word ''*''" "word '' LIMIT ''"
  "word '' OFFSET ''" "word '' ''" "word '' ASC''" "word '' DESC''"
  by (simp_all add: word_def safe_char_def)

lemma validateColumn_Inr: "validateColumn v meta = Inr c \<longleftrightarrow> v = Str c \<and> c \<in> set (columns meta)"
  by (auto simp: validateColumn_def split: jsval.splits)

lemma op_map_safe: "op \<in> OPERATORS \<Longrightarrow> op \<noteq> ''in'' \<Longrightarrow>
  word ('' '' @ the (obj_get OP_MAP op) @ '' '')"
  by (auto simp: word_def OPERATORS_def OP_MAP_def safe_char_def)

lemma op_condition_fragment:
  assumes "op_condition col idx op v = Inr (c, ps)" and col: "\<And>k. fragment names k col 0"
  shows "fragment names idx c (length ps)"
proof (cases "op = ''in''")
  case True
  then obtain w ws where v: "v = Arr (w # ws)" "ps = w # ws"
      and c: "c = col @ '' IN ('' @ (join '', '' (map placeholder [idx..<idx + length ps]) @ '')'')"
    using assms(1) by (auto simp: op_condition_def OPERATORS_def split: jsval.splits list.splits)
  have "fragment names idx (join '', '' (map placeholder [idx..<idx + length ps]) @ '')'') (length ps)"
    by (intro fragment_suffix fragment_join fragments_placeholders template_words)
  then show ?thesis
    using fragment_infix [OF col [of idx], of "'' IN (''"] unfolding c by simp
next
  case False
  have op: "op \<in> OPERATORS" and c: "c = col @ ('' '' @ the (obj_get OP_MAP op) @ '' '') @ placeholder idx"
    and ps: "length ps = Suc 0"
    using assms(1) False by (auto simp: op_condition_def split: if_splits)
  show ?thesis
    using fragment_infix [OF col [of idx] op_map_safe [OF op False], of "placeholder idx" "Suc 0"]
      fragment_placeholder [of names idx] unfolding c ps by simp
qed

lemma op_conditions_fragments:
  "op_conditions col idx ops = Inr (cs, ps) \<Longrightarrow> (\<And>k. fragment names k col 0) \<Longrightarrow> fragments names idx cs (length ps)"
proof (induction col idx ops arbitrary: cs ps rule: op_conditions.induct)
  case (2 col idx op v ops)
  then obtain c qs ds rs where "op_condition col idx op v = Inr (c, qs)"
      "op_conditions col (idx + length qs) ops = Inr (ds, rs)" "cs = c # ds" "ps = qs @ rs"
    by (auto simp: bindR_eq_Inr)
  with 2 show ?case
    using op_condition_fragment [of col idx op v c qs names] by (auto intro!: fragments_Cons simp del: fragments.simps)
qed simp

lemma column_conditions_fragments:
  assumes "column_conditions meta idx key v = Inr (cs, ps)" and "set (columns meta) \<subseteq> names"
  shows "fragments names idx cs (length ps)"
proof -
  have key: "fragment names k (quoteId key) 0" for k
    using assms by (auto simp: column_conditions_def bindR_eq_Inr validateColumn_Inr intro: fragment_quoteId)
  have eq: "fragments names idx [quoteId key @ '' = '' @ placeholder idx] (Suc 0)"
    using fragments_single [OF fragment_infix [OF key, of "'' = ''" idx "placeholder idx" "Suc 0"]]
      fragment_placeholder [of names idx] by simp
  have null: "fragments names idx [quoteId key @ '' IS NULL''] 0"
    by (intro fragments_single fragment_suffix key template_words)
  show ?thesis
    using assms(1) key eq null
    by (auto simp: column_conditions_def bindR_eq_Inr Let_def simp del: fragments.simps
        split: jsval.splits intro: op_conditions_fragments)
qed

lemma buildWhereConditions_fragments:
  "buildWhereConditions meta idx entries = Inr (cs, ps) \<Longrightarrow> set (columns meta) \<subseteq> names
   \<Longrightarrow> fragments names idx cs (length ps)"
proof (induction meta idx entries arbitrary: cs ps rule: buildWhereConditions.induct)
  case (2 meta idx key v rest)
  then obtain c qs ds rs where "column_conditions meta idx key v = Inr (c, qs)"
      "buildWhereConditions meta (idx + length qs) rest = Inr (ds, rs)" "cs = c @ ds" "ps = qs @ rs"
    by (auto simp: bindR_eq_Inr)
  with 2 show ?case
    using column_conditions_fragments by (auto intro!: fragments_append)
qed simp

lemma or_parts_fragments:
  "or_parts meta idx items = Inr (cs, ps) \<Longrightarrow> set (columns meta) \<subseteq> names \<Longrightarrow> fragments names idx cs (length ps)"
proof (induction meta idx items arbitrary: cs ps rule: or_parts.induct)
  case (2 meta idx item rest)
  then obtain es c qs ds rs where e: "js_entries item = Inr es" "buildWhereConditions meta idx es = Inr (c, qs)"
      "or_parts meta (idx + length qs) rest = Inr (ds, rs)" "cs = join '' AND '' c # ds" "ps = qs @ rs"
    by (auto simp: bindR_eq_Inr)
  have "fragments names (idx + length qs) ds (length rs)"
    by (rule 2(1) [OF e(3) 2(3)])
  then show ?case
    using fragment_join [OF _ buildWhereConditions_fragments [OF e(2) 2(3)], of "'' AND ''"] e
    by (auto intro!: fragments_Cons simp del: fragments.simps)
qed simp

lemma where_entries_fragments:
  "where_entries meta idx entries = Inr (cs, ps) \<Longrightarrow> set (columns meta) \<subseteq> names
   \<Longrightarrow> fragments names idx cs (length ps)"
proof (induction meta idx entries arbitrary: cs ps rule: where_entries.induct)
  case (2 meta idx key v rest)
  let ?head = "if key = ''or'' then
          (case v of
             Arr (w # vs) \<Rightarrow>
               bindR (or_parts meta idx (w # vs)) (\<lambda>(parts, ps).
                 Inr ([''('' @ join '' OR '' parts @ '')''], ps))
           | _ \<Rightarrow> Inr ([], []))
        else column_conditions meta idx key v"
  obtain c qs ds rs where e: "?head = Inr (c, qs)"
      "where_entries meta (idx + length qs) rest = Inr (ds, rs)" "cs = c @ ds" "ps = qs @ rs"
    using 2(2) unfolding where_entries.simps bindR_eq_Inr [where r = ?head] by (auto simp: bindR_eq_Inr)
  have "fragments names idx c (length qs)"
  proof (cases "key = ''or''")
    case True
    show ?thesis
    proof (cases "\<exists>w vs. v = Arr (w # vs)")
      case True
      then obtain w vs parts where v: "or_parts meta idx (w # vs) = Inr (parts, qs)" "c = [''('' @ join '' OR '' parts @ '')'']"
        using e(1) \<open>key = ''or''\<close> by (auto simp: bindR_eq_Inr simp del: or_parts.simps)
      have "fragment names idx (''('' @ join '' OR '' parts @ '')'') (length qs)"
        by (intro fragment_prefix fragment_suffix fragment_join or_parts_fragments [OF v(1) 2(3)] template_words)
      then show ?thesis
        unfolding v(2) by (rule fragments_single)
    qed (use e(1) True in \<open>auto split: jsval.splits list.splits\<close>)
  qed (use e(1) 2(3) column_conditions_fragments in auto)
  moreover have "fragments names (idx + length qs) ds (length rs)"
    by (rule 2(1) [OF e(2) 2(3)])
  ultimately show ?case
    unfolding e(3,4) by (simp add: fragments_append)
qed simp

section \<open>Every statement is parameterised\<close>

lemma fragment_clause:
  "word kw \<Longrightarrow> word sep \<Longrightarrow> fragments names k cs n
   \<Longrightarrow> fragment names k (if cs = [] then [] else kw @ join sep cs) n"
  by (auto intro!: fragment_prefix fragment_join)

lemma buildWhere_fragment:
  assumes "buildWhere f meta = Inr (c, ps)" and "set (columns meta) \<subseteq> names"
  shows "fragment names 1 c (length ps)" and "closes (c @ s) \<longleftrightarrow> c \<noteq> [] \<or> closes s"
proof -
  show "fragment names 1 c (length ps)"
  proof (cases "truthy f")
    case True
    then obtain es cs where "where_entries meta 1 es = Inr (cs, ps)" "c = (if cs = [] then [] else '' WHERE '' @ join '' AND '' cs)"
      using assms(1) by (auto simp: buildWhere_def bindR_eq_Inr)
    then show ?thesis
      using where_entries_fragments assms(2) by (simp only:) (intro fragment_clause template_words, auto)
  qed (use assms(1) in \<open>auto simp: buildWhere_def\<close>)
  show "closes (c @ s) \<longleftrightarrow> c \<noteq> [] \<or> closes s"
    using assms(1) by (auto simp: buildWhere_def bindR_eq_Inr is_digit_def char_code_def split: if_splits)
qed

lemma fragments_quoted: "set cs \<subseteq> names \<Longrightarrow> fragments names k (map quoteId cs) 0"
  by (induction cs arbitrary: k) (auto intro!: fragment_quoteId)

lemma mapR_validate: "mapR (\<lambda>c. validateColumn c meta) vs = Inr cs \<Longrightarrow> set cs \<subseteq> set (columns meta)"
  by (induction vs arbitrary: cs) (auto simp: bindR_eq_Inr validateColumn_Inr)

lemma select_columns_fragment:
  assumes "select_columns sel meta = Inr c" and "set (columns meta) \<subseteq> names"
  shows "fragment names k c 0"
  using assms mapR_validate [of meta]
  by (auto simp: select_columns_def bindR_eq_Inr fragment_word split: if_splits jsval.splits
      intro!: fragment_join fragments_quoted)

lemma order_part_fragment: "order_part meta e = Inr c \<Longrightarrow> set (columns meta) \<subseteq> names \<Longrightarrow> fragment names k c 0"
  by (auto simp: order_part_def bindR_eq_Inr Let_def validateColumn_Inr fragment_word
      split: jsval.splits list.splits if_splits
      intro!: fragment_suffix [of _ _ _ _ "'' ASC''", simplified] fragment_suffix [of _ _ _ _ "'' DESC''", simplified]
        fragment_quoteId)

lemma order_clause_fragment:
  assumes "order_clause ob meta = Inr c" and "set (columns meta) \<subseteq> names"
  shows "fragment names k c 0" and "closes (c @ s) \<longleftrightarrow> c \<noteq> [] \<or> closes s"
proof -
  have "mapR (order_part meta) es = Inr ps \<Longrightarrow> fragments names j ps 0" for es ps j
    using assms(2) by (induction es arbitrary: ps j) (auto simp: bindR_eq_Inr intro: order_part_fragment)
  then show "fragment names k c 0"
    using assms(1) by (auto simp: order_clause_def bindR_eq_Inr split: if_splits
        intro!: fragment_prefix [of "'' ORDER BY ''", simplified] fragment_join)
  show "closes (c @ s) \<longleftrightarrow> c \<noteq> [] \<or> closes s"
    using assms(1) by (auto simp: order_clause_def bindR_eq_Inr is_digit_def char_code_def split: if_splits)
qed

lemma count_clause_fragment:
  assumes "count_clause name kw idx v = Inr (c, ps)" and "word kw"
  shows "fragment names idx c (length ps)" and "closes (c @ s) \<longleftrightarrow> c \<noteq> [] \<or> closes s"
  using assms closes_word [of kw "placeholder idx @ s"]
  by (auto simp: count_clause_def split: if_splits jsval.splits intro!: fragment_prefix fragment_placeholder)

lemma buildSelect_parameterised:
  assumes "buildSelect table opts meta = Inr q"
  shows "parameterised (table_names table meta) q"
proof -
  let ?N = "table_names table meta"
  have names: "set (columns meta) \<subseteq> ?N" "table \<in> ?N"
    by (auto simp: table_names_def)
  obtain cols w ps oc l lp ofs op where q: "select_columns (get_prop opts ''select'') meta = Inr cols"
      "buildWhere (get_prop opts ''where'') meta = Inr (w, ps)"
      "order_clause (get_prop opts ''orderBy'') meta = Inr oc"
      "count_clause ''limit'' '' LIMIT '' (1 + length ps) (get_prop opts ''limit'') = Inr (l, lp)"
      "count_clause ''offset'' '' OFFSET '' (1 + length ps + length lp) (get_prop opts ''offset'') = Inr (ofs, op)"
      "q = \<lparr>q_text = ''SELECT '' @ cols @ '' FROM '' @ quoteId table @ w @ oc @ l @ ofs, q_params = ps @ lp @ op\<rparr>"
    using assms by (auto simp: buildSelect_def bindR_eq_Inr)
  note w = buildWhere_fragment [OF q(2) names(1)] and oc = order_clause_fragment [OF q(3) names(1)]
    and l = count_clause_fragment [OF q(4)] and ofs = count_clause_fragment [OF q(5)]
  have "closes ofs" "closes (l @ ofs)" "closes (oc @ l @ ofs)" "closes (w @ oc @ l @ ofs)"
    using w(2) oc(2) l(2) ofs(2) [of "[]"] by auto
  then have tail: "fragment ?N 1 (w @ oc @ l @ ofs) (length ps + (0 + (length lp + length op)))"
    by (intro fragment_append w(1) oc(1) l(1) ofs(1) template_words) (use l(1) ofs(1) in simp_all)
  show ?thesis
    using fragment_prefix [OF _ fragment_infix [OF select_columns_fragment [OF q(1) names(1)] _
        fragment_append [OF fragment_quoteId [OF names(2)] _ \<open>closes (w @ oc @ l @ ofs)\<close>]],
        of "''SELECT ''" "'' FROM ''" 1 "length ps + length lp + length op"] tail
    by (intro parameterised_fragment) (simp add: q(6) add.assoc)
qed

lemma fragment_assignment: "c \<in> names \<Longrightarrow> fragment names k (assignment c k) (Suc 0)"
  using fragment_infix [OF fragment_quoteId [of c names k], of "'' = ''" "placeholder k" "Suc 0"]
    fragment_placeholder [of names k]
  by (simp add: assignment_def)

lemma assignments_simps [simp]:
  "assignments k [] = []" "assignments k (c # cs) = assignment c k # assignments (Suc k) cs"
  by (simp_all add: assignments_def upt_conv_Cons del: upt_Suc)

lemma fragments_assignments: "set cs \<subseteq> names \<Longrightarrow> fragments names k (assignments k cs) (length cs)"
proof (induction cs arbitrary: k)
  case (Cons c cs)
  then show ?case
    using fragments_Cons [OF fragment_assignment [of c names k], of "assignments (Suc k) cs" "length cs"]
    by (simp del: fragments.simps)
qed simp

lemma row_entries_columns:
  assumes "row_entries e data meta = Inr entries"
  shows "set (map fst entries) \<subseteq> set (columns meta) - set (autoGenerated meta)" and "entries \<noteq> []"
proof -
  have "mapR (\<lambda>(k, v). validateColumn (Str k) meta) es = Inr cs \<Longrightarrow> set (map fst es) \<subseteq> set (columns meta)" for es cs
    by (induction es arbitrary: cs) (auto simp: bindR_eq_Inr validateColumn_Inr)
  then show "set (map fst entries) \<subseteq> set (columns meta) - set (autoGenerated meta)" "entries \<noteq> []"
    using assms by (fastforce simp: row_entries_def bindR_eq_Inr Let_def split: if_splits)+
qed

lemma buildInsert_parameterised:
  assumes "buildInsert table data meta = Inr q"
  shows "parameterised (table_names table meta) q"
proof -
  let ?N = "table_names table meta"
  obtain entries where r: "row_entries ''No columns to insert (all are auto-generated)'' data meta = Inr entries"
    and q: "q = \<lparr>q_text = ''INSERT INTO '' @ quoteId table @ '' ('' @ join '', '' (map quoteId (map fst entries))
                     @ '') VALUES ('' @ join '', '' (map placeholder [1..<1 + length entries]) @ '') RETURNING *'',
            q_params = map snd entries\<rparr>"
    using assms by (auto simp: buildInsert_def bindR_eq_Inr)
  have cols: "fragment ?N (1 + 0) (join '', '' (map quoteId (map fst entries))) 0"
    using row_entries_columns(1) [OF r]
    by (intro fragment_join fragments_quoted) (auto simp: table_names_def)
  have vals: "fragment ?N (1 + 0 + 0) (join '', '' (map placeholder [1..<1 + length entries])) (length entries)"
    using fragments_placeholders [of ?N 1] by (intro fragment_join) simp_all
  have "fragment ?N 1 (q_text q) (0 + (0 + length entries))"
    unfolding q BuiltQuery.simps
    by (intro fragment_prefix [OF _ fragment_infix [OF _ _ fragment_infix [OF cols _ fragment_suffix [OF vals]]]]
        fragment_quoteId template_words)
       (simp_all add: table_names_def)
  then show ?thesis
    by (intro parameterised_fragment) (simp add: q)
qed

lemma buildUpdate_parameterised:
  assumes "buildUpdate table pks data meta = Inr q" and "length pks = length (pkCols meta)"
  shows "parameterised (table_names table meta) q"
proof -
  obtain entries where r: "row_entries ''No columns to update (all are auto-generated or empty)'' data meta = Inr entries"
    and q: "q = \<lparr>q_text = ''UPDATE '' @ quoteId table @ '' SET '' @ join '', '' (assignments 1 (map fst entries))
                     @ '' WHERE '' @ join '' AND '' (assignments (length entries + 1) (pkCols meta)) @ '' RETURNING *'',
            q_params = map snd entries @ pks\<rparr>"
    using assms by (auto simp: buildUpdate_def bindR_eq_Inr)
  have "fragments (table_names table meta) 1 (assignments 1 (map fst entries)) (length entries)"
    and "fragments (table_names table meta) (1 + 0 + length entries) (assignments (length entries + 1) (pkCols meta)) (length (pkCols meta))"
    using fragments_assignments [of "map fst entries" "table_names table meta"]
      fragments_assignments [of "pkCols meta" "table_names table meta"] row_entries_columns(1) [OF r]
    by (auto simp: table_names_def)
  then have "fragment (table_names table meta) 1 (q_text q) (0 + (length entries + length (pkCols meta)))"
    unfolding q BuiltQuery.simps
    by (intro fragment_prefix fragment_infix fragment_suffix fragment_join fragment_quoteId template_words)
       (auto simp: table_names_def)
  then show ?thesis
    using assms(2) by (intro parameterised_fragment) (simp add: q)
qed

lemma buildDelete_parameterised:
  assumes "length pks = length (pkCols meta)"
  shows "parameterised (table_names table meta) (buildDelete table pks meta)"
proof -
  have "fragment (table_names table meta) 1 (q_text (buildDelete table pks meta)) (0 + length (pkCols meta))"
    unfolding buildDelete_def BuiltQuery.simps
    by (intro fragment_prefix fragment_infix fragment_join fragment_quoteId template_words)
       (auto simp: table_names_def intro!: fragments_assignments)
  then show ?thesis
    using assms by (intro parameterised_fragment) (simp add: buildDelete_def)
qed

end
