(* ===== verification/Database.thy ===== *)
theory Database
  imports SqlBuilder
begin

text \<open>
  \<^verbatim>\<open>packages/bb-data/src\<close>: \<^verbatim>\<open>errors.ts\<close> and \<^verbatim>\<open>engines/pg-error-translator.ts\<close> (what a
  driver error becomes), \<^verbatim>\<open>rls.ts\<close> and \<^verbatim>\<open>database.ts\<close> (row-level security), and the
  engine interface of \<^verbatim>\<open>packages/data-common/src/engine.ts\<close>.  The engine is a parameter: a record of
  its operations on a state of any type.  Every call of an operation, with whether it succeeded, is
  appended to a log, so that statements about what reaches the database are statements about it.
\<close>

section \<open>Errors\<close>

definition QueryFailed :: string where "QueryFailed = ''QueryFailedException''"
definition ConnectionFailed :: string where "ConnectionFailed = ''ConnectionFailedException''"
definition TransactionFailed :: string where "TransactionFailed = ''TransactionFailedException''"
definition UniqueConstraintViolation :: string where
  "UniqueConstraintViolation = ''UniqueConstraintViolationException''"
definition SerializationFailure :: string where "SerializationFailure = ''SerializationFailureException''"
definition PermissionDenied :: string where "PermissionDenied = ''PermissionDeniedException''"
definition CheckViolation :: string where "CheckViolation = ''CheckViolationException''"
definition NotNullViolation :: string where "NotNullViolation = ''NotNullViolationException''"
definition ForeignKeyViolation :: string where "ForeignKeyViolation = ''ForeignKeyViolationException''"

lemmas db_error_names = QueryFailed_def ConnectionFailed_def TransactionFailed_def
  UniqueConstraintViolation_def SerializationFailure_def PermissionDenied_def CheckViolation_def
  NotNullViolation_def ForeignKeyViolation_def

definition DatabaseErrors :: "string list" where
  "DatabaseErrors =
     [QueryFailed, ConnectionFailed, TransactionFailed, UniqueConstraintViolation, SerializationFailure,
      PermissionDenied, CheckViolation, NotNullViolation, ForeignKeyViolation]"

definition isKnownDatabaseErrorName :: "string \<Rightarrow> bool" where
  "isKnownDatabaseErrorName name = (name \<in> set DatabaseErrors)"

definition serializationConflict :: "thrown \<Rightarrow> thrown" where
  "serializationConflict cause =
     new_ApiError ''The transaction failed due to a serialization conflict'' (Num 409)
       (Some SerializationFailure) (Some cause) (Some True)"

definition uniqueConstraintConflict :: "thrown \<Rightarrow> thrown" where
  "uniqueConstraintConflict cause =
     new_ApiError ''The item violates a unique constraint'' (Num 409)
       (Some UniqueConstraintViolation) (Some cause) None"

definition REQUEST_ERRORS :: "(string \<times> int \<times> string \<times> string) list" where
  "REQUEST_ERRORS =
     [(''42501'', 403, PermissionDenied, ''Permission denied for this operation''),
      (''23514'', 400, CheckViolation, ''A value violates a check constraint''),
      (''23502'', 400, NotNullViolation, ''A required value is missing''),
      (''23503'', 409, ForeignKeyViolation, ''The item violates a foreign key constraint'')]"

definition requestError :: "string \<Rightarrow> thrown \<Rightarrow> thrown option" where
  "requestError code cause =
     (case obj_get REQUEST_ERRORS code of
        None \<Rightarrow> None
      | Some (status, name, message) \<Rightarrow> Some (new_ApiError message (Num status) (Some name) (Some cause) None))"

definition RE_TAG_MESSAGES :: "(string \<times> string) list" where
  "RE_TAG_MESSAGES =
     [(QueryFailed, ''The database query failed''),
      (ConnectionFailed, ''The database connection failed''),
      (TransactionFailed, ''The database transaction failed''),
      (UniqueConstraintViolation, ''The item violates a unique constraint''),
      (SerializationFailure, ''The transaction failed due to a serialization conflict'')]"

definition reTagged :: "string \<Rightarrow> thrown \<Rightarrow> thrown" where
  "reTagged name cause =
     (let message = opt_or (obj_get RE_TAG_MESSAGES name) (the (obj_get RE_TAG_MESSAGES QueryFailed)) in
      brandBlocksError (JsError name (name @ '': '' @ message) False False Undef Undef (Some cause)))"

text \<open>\<open>e instanceof Error ? e : new Error(String(e))\<close>.\<close>

definition as_error :: "thrown \<Rightarrow> thrown" where
  "as_error e = (case e of JsError _ _ _ _ _ _ _ \<Rightarrow> e | JsThrow v \<Rightarrow> new_Error (js_to_string v))"

definition wrapError :: "thrown \<Rightarrow> thrown" where
  "wrapError e =
     (let error = as_error e in
      case find (\<lambda>(_, _, name, _). name = err_name error) REQUEST_ERRORS of
        Some (code, _) \<Rightarrow> the (requestError code error)
      | None \<Rightarrow> reTagged (if isKnownDatabaseErrorName (err_name error) then err_name error else QueryFailed) error)"

definition PG_UNIQUE_VIOLATION :: string where "PG_UNIQUE_VIOLATION = ''23505''"
definition PG_SERIALIZATION_FAILURE :: string where "PG_SERIALIZATION_FAILURE = ''40001''"
definition PG_CONNECTION_EXCEPTION_CLASS :: string where "PG_CONNECTION_EXCEPTION_CLASS = ''08''"

text \<open>The thrown value and, when it is an \<open>Error\<close>, its \<open>code\<close> property.\<close>

definition translatePgError :: "string option \<Rightarrow> thrown \<Rightarrow> thrown" where
  "translatePgError code e =
     (case e of
        JsThrow _ \<Rightarrow> wrapError e
      | JsError _ _ _ _ _ _ _ \<Rightarrow>
          if code = Some PG_SERIALIZATION_FAILURE then serializationConflict e
          else if code = Some PG_UNIQUE_VIOLATION then uniqueConstraintConflict e
          else (case (case code of None \<Rightarrow> None | Some [] \<Rightarrow> None | Some c \<Rightarrow> requestError c e) of
                  Some request \<Rightarrow> request
                | None \<Rightarrow>
                    reTagged (case code of
                                None \<Rightarrow> QueryFailed
                              | Some c \<Rightarrow> if starts_with c PG_CONNECTION_EXCEPTION_CLASS then ConnectionFailed
                                          else QueryFailed) e))"

section \<open>The engine\<close>

record 'd engine =
  query :: "string \<Rightarrow> jsval list \<Rightarrow> 'd \<Rightarrow> 'd \<times> (thrown, jsval list) res"
  execute :: "string \<Rightarrow> jsval list \<Rightarrow> 'd \<Rightarrow> 'd \<times> (thrown, int) res"
  beginTransaction :: "'d \<Rightarrow> 'd \<times> (thrown, nat) res"
  commitTransaction :: "nat \<Rightarrow> 'd \<Rightarrow> 'd \<times> (thrown, unit) res"
  rollbackTransaction :: "nat \<Rightarrow> 'd \<Rightarrow> 'd \<times> (thrown, unit) res"
  queryInTransaction :: "nat \<Rightarrow> string \<Rightarrow> jsval list \<Rightarrow> 'd \<Rightarrow> 'd \<times> (thrown, jsval list) res"
  executeInTransaction :: "nat \<Rightarrow> string \<Rightarrow> jsval list \<Rightarrow> 'd \<Rightarrow> 'd \<times> (thrown, int) res"

datatype db_event =
    EvQuery string "jsval list"
  | EvExecute string "jsval list"
  | EvBegin "nat option"
  | EvCommit nat
  | EvRollback nat
  | EvTxQuery nat string "jsval list"
  | EvTxExecute nat string "jsval list"

text \<open>An engine call and whether it succeeded.\<close>

type_synonym db_log = "(db_event \<times> bool) list"

record 'd db =
  db_state :: 'd
  db_log :: db_log

type_synonym ('d, 'a) db_io = "'d db \<Rightarrow> 'd db \<times> (thrown, 'a) res"

definition returnD :: "'a \<Rightarrow> ('d, 'a) db_io" where
  "returnD a d = (d, Inr a)"

definition throwD :: "thrown \<Rightarrow> ('d, 'a) db_io" where
  "throwD e d = (d, Inl e)"

definition liftD :: "(thrown, 'a) res \<Rightarrow> ('d, 'a) db_io" where
  "liftD r d = (d, r)"

definition bindD :: "('d, 'a) db_io \<Rightarrow> ('a \<Rightarrow> ('d, 'b) db_io) \<Rightarrow> ('d, 'b) db_io" where
  "bindD m f d = (case m d of (d', Inl e) \<Rightarrow> (d', Inl e) | (d', Inr a) \<Rightarrow> f a d')"

text \<open>\<open>try ... catch (e) ...\<close>.\<close>

definition catchD :: "('d, 'a) db_io \<Rightarrow> (thrown \<Rightarrow> ('d, 'a) db_io) \<Rightarrow> ('d, 'a) db_io" where
  "catchD m h d = (case m d of (d', Inl e) \<Rightarrow> h e d' | (d', Inr a) \<Rightarrow> (d', Inr a))"

definition engine_call :: "((thrown, 'a) res \<Rightarrow> db_event) \<Rightarrow> ('d \<Rightarrow> 'd \<times> (thrown, 'a) res) \<Rightarrow> ('d, 'a) db_io" where
  "engine_call ev f d =
     (case f (db_state d) of (s, r) \<Rightarrow>
        (\<lparr>db_state = s, db_log = db_log d @ [(ev r, case r of Inl _ \<Rightarrow> False | Inr _ \<Rightarrow> True)]\<rparr>, r))"

definition engine_query :: "'d engine \<Rightarrow> string \<Rightarrow> jsval list \<Rightarrow> ('d, jsval list) db_io" where
  "engine_query E sql ps = engine_call (\<lambda>_. EvQuery sql ps) (query E sql ps)"

definition engine_execute :: "'d engine \<Rightarrow> string \<Rightarrow> jsval list \<Rightarrow> ('d, int) db_io" where
  "engine_execute E sql ps = engine_call (\<lambda>_. EvExecute sql ps) (execute E sql ps)"

definition engine_begin :: "'d engine \<Rightarrow> ('d, nat) db_io" where
  "engine_begin E = engine_call (\<lambda>r. EvBegin (case r of Inl _ \<Rightarrow> None | Inr h \<Rightarrow> Some h)) (beginTransaction E)"

definition engine_commit :: "'d engine \<Rightarrow> nat \<Rightarrow> ('d, unit) db_io" where
  "engine_commit E h = engine_call (\<lambda>_. EvCommit h) (commitTransaction E h)"

definition engine_rollback :: "'d engine \<Rightarrow> nat \<Rightarrow> ('d, unit) db_io" where
  "engine_rollback E h = engine_call (\<lambda>_. EvRollback h) (rollbackTransaction E h)"

definition engine_tx_query :: "'d engine \<Rightarrow> nat \<Rightarrow> string \<Rightarrow> jsval list \<Rightarrow> ('d, jsval list) db_io" where
  "engine_tx_query E h sql ps = engine_call (\<lambda>_. EvTxQuery h sql ps) (queryInTransaction E h sql ps)"

definition engine_tx_execute :: "'d engine \<Rightarrow> nat \<Rightarrow> string \<Rightarrow> jsval list \<Rightarrow> ('d, int) db_io" where
  "engine_tx_execute E h sql ps = engine_call (\<lambda>_. EvTxExecute h sql ps) (executeInTransaction E h sql ps)"

section \<open>Row-level security\<close>

text \<open>\<open>ctx_claims\<close> is \<open>Undef\<close> when the caller gives none.\<close>

record RLSContext =
  ctx_userId :: string
  ctx_role :: "string option"
  ctx_claims :: jsval

definition ALLOWED_ROLES :: "string list" where
  "ALLOWED_ROLES = [''authenticated'', ''anon'']"

definition RESERVED_CLAIMS :: "string list" where
  "RESERVED_CLAIMS = [''sub'', ''role'']"

definition rls_role :: "RLSContext \<Rightarrow> string" where
  "rls_role ctx = opt_or (ctx_role ctx) ''authenticated''"

text \<open>The object whose JSON becomes \<open>request.jwt.claims\<close>.\<close>

definition rls_claims :: "RLSContext \<Rightarrow> (thrown, jsval) res" where
  "rls_claims ctx =
     bindR (js_entries (nullish_or (ctx_claims ctx) (Obj []))) (\<lambda>entries.
       let extraClaims = filter (\<lambda>(name, _). name \<notin> set RESERVED_CLAIMS) entries in
       Inr (Obj (obj_set ''role'' (Str (rls_role ctx)) (obj_set ''sub'' (Str (ctx_userId ctx)) extraClaims))))"

definition set_role_sql :: "string \<Rightarrow> string" where
  "set_role_sql role = ''SET LOCAL ROLE '' @ role"

definition set_claims_sql :: string where
  "set_claims_sql = ''SELECT set_config('' @ [CHR 0x27] @ ''request.jwt.claims'' @ [CHR 0x27] @ '', $1, true)''"

definition role_refused :: "thrown \<Rightarrow> thrown" where
  "role_refused e =
     (if isBlocksError e PermissionDenied
      then reTagged QueryFailed
             (case err_cause e of Some (JsError n m a b s r c) \<Rightarrow> JsError n m a b s r c | _ \<Rightarrow> e)
      else e)"

definition setRLSContext :: "'d engine \<Rightarrow> nat \<Rightarrow> RLSContext \<Rightarrow> ('d, unit) db_io" where
  "setRLSContext E h ctx =
     (if rls_role ctx \<notin> set ALLOWED_ROLES
      then throwD (new_Error (''Invalid RLS role: '' @ [CHR 0x27] @ rls_role ctx @ [CHR 0x27] @ ''. Allowed: ''
                              @ join '', '' ALLOWED_ROLES))
      else
        bindD (liftD (rls_claims ctx)) (\<lambda>claims.
        bindD (catchD (engine_tx_execute E h (set_role_sql (rls_role ctx)) []) (\<lambda>e. throwD (role_refused e))) (\<lambda>_.
        bindD (engine_tx_execute E h set_claims_sql [Str (to_json claims)]) (\<lambda>_.
          returnD ()))))"

text \<open>
  The shape the three scoped operations share: begin, set the context, run, commit; on any error
  roll back, ignoring that the rollback fails, and throw the error as \<open>translate\<close> gives it.
\<close>

definition in_rls_transaction ::
  "'d engine \<Rightarrow> RLSContext \<Rightarrow> (thrown \<Rightarrow> thrown) \<Rightarrow> (nat \<Rightarrow> ('d, 'a) db_io) \<Rightarrow> ('d, 'a) db_io" where
  "in_rls_transaction E ctx translate body =
     bindD (engine_begin E) (\<lambda>h.
       catchD
         (bindD (setRLSContext E h ctx) (\<lambda>_.
          bindD (body h) (\<lambda>r.
          bindD (engine_commit E h) (\<lambda>_.
            returnD r))))
         (\<lambda>e. bindD (catchD (engine_rollback E h) (\<lambda>_. returnD ())) (\<lambda>_. throwD (translate e))))"

definition rls_queryRaw :: "'d engine \<Rightarrow> RLSContext \<Rightarrow> string \<Rightarrow> jsval list \<Rightarrow> ('d, jsval list) db_io" where
  "rls_queryRaw E ctx sql ps = in_rls_transaction E ctx (\<lambda>e. e) (\<lambda>h. engine_tx_query E h sql ps)"

definition rls_executeRaw :: "'d engine \<Rightarrow> RLSContext \<Rightarrow> string \<Rightarrow> jsval list \<Rightarrow> ('d, int) db_io" where
  "rls_executeRaw E ctx sql ps = in_rls_transaction E ctx (\<lambda>e. e) (\<lambda>h. engine_tx_execute E h sql ps)"

text \<open>What \<open>transaction\<close> throws: an error with a database error name as it is, any other re-tagged.\<close>

definition transaction_error :: "thrown \<Rightarrow> thrown" where
  "transaction_error e =
     (let error = as_error e in
      if isKnownDatabaseErrorName (err_name error) then error else reTagged TransactionFailed error)"

text \<open>
  The callback gets the transaction object; what it does with it is a sequence of engine calls on
  the handle, so it is a function of the handle here.
\<close>

definition rls_transaction :: "'d engine \<Rightarrow> RLSContext \<Rightarrow> (nat \<Rightarrow> ('d, 'a) db_io) \<Rightarrow> ('d, 'a) db_io" where
  "rls_transaction E ctx fn = in_rls_transaction E ctx transaction_error fn"

text \<open>The unscoped database, which the code outside \<open>withRLS\<close> uses.\<close>

definition db_transaction :: "'d engine \<Rightarrow> (nat \<Rightarrow> ('d, 'a) db_io) \<Rightarrow> ('d, 'a) db_io" where
  "db_transaction E fn =
     catchD
       (bindD (engine_begin E) (\<lambda>h.
          catchD
            (bindD (fn h) (\<lambda>r. bindD (engine_commit E h) (\<lambda>_. returnD r)))
            (\<lambda>e. bindD (catchD (engine_rollback E h) (\<lambda>_. returnD ())) (\<lambda>_. throwD e))))
       (\<lambda>e. throwD (transaction_error e))"

section \<open>The protocol of a scoped database\<close>

text \<open>
  What the log of scoped calls must look like: transactions one after the other, each beginning
  with the switch to the role and the claims, only then running statements that satisfy \<open>ok\<close>, and
  ending in a commit, or in a rollback after which nothing more happens on the handle.
\<close>

datatype rls_phase = Idle | Opened nat | Roled nat | Scoped nat | Failed nat

record rls_policy =
  pol_role :: string
  pol_claims :: string
  pol_ok :: "string \<Rightarrow> jsval list \<Rightarrow> bool"

definition rls_step :: "rls_policy \<Rightarrow> rls_phase \<Rightarrow> db_event \<times> bool \<Rightarrow> rls_phase option" where
  "rls_step p ph = (\<lambda>(ev, ok).
     case ph of
       Idle \<Rightarrow>
         (case ev of EvBegin (Some h) \<Rightarrow> if ok then Some (Opened h) else None
          | EvBegin None \<Rightarrow> if ok then None else Some Idle
          | _ \<Rightarrow> None)
     | Opened h \<Rightarrow>
         (case ev of
            EvTxExecute h' s ps \<Rightarrow>
              if h' = h \<and> s = set_role_sql (pol_role p) \<and> ps = [] then Some (if ok then Roled h else Failed h) else None
          | EvRollback h' \<Rightarrow> if h' = h then Some Idle else None
          | _ \<Rightarrow> None)
     | Roled h \<Rightarrow>
         (case ev of
            EvTxExecute h' s ps \<Rightarrow>
              if h' = h \<and> s = set_claims_sql \<and> ps = [Str (pol_claims p)] then Some (if ok then Scoped h else Failed h) else None
          | _ \<Rightarrow> None)
     | Scoped h \<Rightarrow>
         (case ev of
            EvTxQuery h' s ps \<Rightarrow> if h' = h \<and> pol_ok p s ps then Some (Scoped h) else None
          | EvTxExecute h' s ps \<Rightarrow> if h' = h \<and> pol_ok p s ps then Some (Scoped h) else None
          | EvCommit h' \<Rightarrow> if h' = h then Some (if ok then Idle else Failed h) else None
          | EvRollback h' \<Rightarrow> if h' = h then Some Idle else None
          | _ \<Rightarrow> None)
     | Failed h \<Rightarrow> (case ev of EvRollback h' \<Rightarrow> if h' = h then Some Idle else None | _ \<Rightarrow> None))"

fun rls_run :: "rls_policy \<Rightarrow> rls_phase \<Rightarrow> db_log \<Rightarrow> rls_phase option" where
  "rls_run p ph [] = Some ph"
| "rls_run p ph (ev # evs) = (case rls_step p ph ev of None \<Rightarrow> None | Some ph' \<Rightarrow> rls_run p ph' evs)"

definition commits :: "db_log \<Rightarrow> nat" where
  "commits evs = length (filter (\<lambda>(ev, ok). ok \<and> (case ev of EvCommit _ \<Rightarrow> True | _ \<Rightarrow> False)) evs)"

text \<open>The policy of a context: its role and the JSON of its claims.\<close>

definition ctx_policy :: "RLSContext \<Rightarrow> (string \<Rightarrow> jsval list \<Rightarrow> bool) \<Rightarrow> rls_policy" where
  "ctx_policy ctx ok =
     \<lparr>pol_role = rls_role ctx,
      pol_claims = (case rls_claims ctx of Inl _ \<Rightarrow> [] | Inr v \<Rightarrow> to_json v),
      pol_ok = ok\<rparr>"

text \<open>
  \<open>emits m ph Q\<close>: run in phase \<open>ph\<close>, \<open>m\<close> appends events that lead to a phase, a number of
  successful commits and a result that satisfy \<open>Q\<close>.
\<close>

definition emits ::
  "rls_policy \<Rightarrow> rls_phase \<Rightarrow> ('d, 'a) db_io \<Rightarrow> (rls_phase \<Rightarrow> nat \<Rightarrow> (thrown, 'a) res \<Rightarrow> bool) \<Rightarrow> bool" where
  "emits p ph m Q =
     (\<forall>d. \<exists>evs ph'. db_log (fst (m d)) = db_log d @ evs \<and> rls_run p ph evs = Some ph'
            \<and> Q ph' (commits evs) (snd (m d)))"

lemma rls_run_append:
  "rls_run p ph (xs @ ys) = (case rls_run p ph xs of None \<Rightarrow> None | Some ph' \<Rightarrow> rls_run p ph' ys)"
  by (induction xs arbitrary: ph) (auto split: option.splits)

lemma commits_append [simp]: "commits (xs @ ys) = commits xs + commits ys"
  by (simp add: commits_def)

lemma commits_Nil [simp]: "commits [] = 0"
  by (simp add: commits_def)

lemma emits_quiet:
  "(\<And>d. m d = (d, r)) \<Longrightarrow> Q ph 0 r \<Longrightarrow> emits p ph m Q"
  by (auto simp: emits_def)

lemma emits_returnD: "Q ph 0 (Inr a) \<Longrightarrow> emits p ph (returnD a) Q"
  by (rule emits_quiet [of _ "Inr a"]) (auto simp: returnD_def)

lemma emits_throwD: "Q ph 0 (Inl e) \<Longrightarrow> emits p ph (throwD e) Q"
  by (rule emits_quiet [of _ "Inl e"]) (auto simp: throwD_def)

lemma emits_liftD: "Q ph 0 r \<Longrightarrow> emits p ph (liftD r) Q"
  by (rule emits_quiet [of _ r]) (auto simp: liftD_def)

lemma emits_call:
  fixes f :: "'d \<Rightarrow> 'd \<times> (thrown, 'a) res"
  assumes "\<And>r. \<exists>ph'. rls_step p ph (ev r, \<not> isl r) = Some ph'
                  \<and> Q ph' (commits [(ev r, \<not> isl r)]) r"
  shows "emits p ph (engine_call ev f) Q"
  unfolding emits_def
proof
  fix d :: "'d db"
  obtain s r where f: "f (db_state d) = (s, r)"
    by fastforce
  have "(case r of Inl _ \<Rightarrow> False | Inr _ \<Rightarrow> True) = (\<not> isl r)"
    by (cases r) auto
  then show "\<exists>evs ph'. db_log (fst (engine_call ev f d)) = db_log d @ evs \<and> rls_run p ph evs = Some ph'
      \<and> Q ph' (commits evs) (snd (engine_call ev f d))"
    using assms [of r] f by (intro exI [of _ "[(ev r, \<not> isl r)]"]) (auto simp: engine_call_def)
qed

lemma emits_bindD:
  assumes "emits p ph m R"
    and "\<And>ph' n a. R ph' n (Inr a) \<Longrightarrow> emits p ph' (f a) (\<lambda>ph'' k r. Q ph'' (n + k) r)"
    and "\<And>ph' n e. R ph' n (Inl e) \<Longrightarrow> Q ph' n (Inl e)"
  shows "emits p ph (bindD m f) Q"
  unfolding emits_def
proof
  fix d
  obtain evs ph' where m: "db_log (fst (m d)) = db_log d @ evs" "rls_run p ph evs = Some ph'" "R ph' (commits evs) (snd (m d))"
    using assms(1) unfolding emits_def by blast
  obtain d' r where d': "m d = (d', r)"
    by fastforce
  show "\<exists>evs ph'. db_log (fst (bindD m f d)) = db_log d @ evs \<and> rls_run p ph evs = Some ph'
      \<and> Q ph' (commits evs) (snd (bindD m f d))"
  proof (cases r)
    case (Inl e)
    then show ?thesis
      using m d' assms(3) by (auto simp: bindD_def)
  next
    case (Inr a)
    have "emits p ph' (f a) (\<lambda>ph'' k r. Q ph'' (commits evs + k) r)"
      using assms(2) m(3) d' Inr by simp
    then obtain evs' ph'' where "db_log (fst (f a d')) = db_log d' @ evs'" "rls_run p ph' evs' = Some ph''"
        "Q ph'' (commits evs + commits evs') (snd (f a d'))"
      unfolding emits_def by blast
    then show ?thesis
      using m d' Inr by (intro exI [of _ "evs @ evs'"]) (auto simp: bindD_def rls_run_append)
  qed
qed

lemma emits_catchD:
  assumes "emits p ph m R"
    and "\<And>ph' n e. R ph' n (Inl e) \<Longrightarrow> emits p ph' (h e) (\<lambda>ph'' k r. Q ph'' (n + k) r)"
    and "\<And>ph' n a. R ph' n (Inr a) \<Longrightarrow> Q ph' n (Inr a)"
  shows "emits p ph (catchD m h) Q"
  unfolding emits_def
proof
  fix d
  obtain evs ph' where m: "db_log (fst (m d)) = db_log d @ evs" "rls_run p ph evs = Some ph'" "R ph' (commits evs) (snd (m d))"
    using assms(1) unfolding emits_def by blast
  obtain d' r where d': "m d = (d', r)"
    by fastforce
  show "\<exists>evs ph'. db_log (fst (catchD m h d)) = db_log d @ evs \<and> rls_run p ph evs = Some ph'
      \<and> Q ph' (commits evs) (snd (catchD m h d))"
  proof (cases r)
    case (Inr a)
    then show ?thesis
      using m d' assms(3) by (auto simp: catchD_def)
  next
    case (Inl e)
    have "emits p ph' (h e) (\<lambda>ph'' k r. Q ph'' (commits evs + k) r)"
      using assms(2) m(3) d' Inl by simp
    then obtain evs' ph'' where "db_log (fst (h e d')) = db_log d' @ evs'" "rls_run p ph' evs' = Some ph''"
        "Q ph'' (commits evs + commits evs') (snd (h e d'))"
      unfolding emits_def by blast
    then show ?thesis
      using m d' Inl by (intro exI [of _ "evs @ evs'"]) (auto simp: catchD_def rls_run_append)
  qed
qed

lemma emits_mono: "emits p ph m R \<Longrightarrow> (\<And>ph' n r. R ph' n r \<Longrightarrow> Q ph' n r) \<Longrightarrow> emits p ph m Q"
  unfolding emits_def by meson

section \<open>Scoped calls follow the protocol\<close>

definition open_phase :: "nat \<Rightarrow> rls_phase \<Rightarrow> bool" where
  "open_phase h ph = (ph = Opened h \<or> ph = Scoped h \<or> ph = Failed h)"

lemma bindD_liftD [simp]: "bindD (liftD (Inr a)) f = f a"
  by (auto simp: bindD_def liftD_def)

lemma setRLSContext_emits:
  "emits (ctx_policy ctx ok) (Opened h) (setRLSContext E h ctx)
     (\<lambda>ph n r. n = 0 \<and> (case r of Inl _ \<Rightarrow> open_phase h ph | Inr _ \<Rightarrow> ph = Scoped h))"
proof (cases "rls_role ctx \<in> set ALLOWED_ROLES")
  case True
  show ?thesis
  proof (cases "rls_claims ctx")
    case (Inl e)
    then show ?thesis
      using True by (auto simp: setRLSContext_def liftD_def bindD_def emits_def open_phase_def
          intro!: exI [of _ "[]"])
  next
    case (Inr claims)
    let ?p = "ctx_policy ctx ok"
    have role: "emits ?p (Opened h) (engine_tx_execute E h (set_role_sql (rls_role ctx)) [])
        (\<lambda>ph n r. n = 0 \<and> (case r of Inl _ \<Rightarrow> ph = Failed h | Inr _ \<Rightarrow> ph = Roled h))"
      unfolding engine_tx_execute_def
      by (rule emits_call) (auto simp: ctx_policy_def commits_def rls_step_def split: sum.splits)
    have claims: "emits ?p (Roled h) (engine_tx_execute E h set_claims_sql [Str (to_json claims)])
        (\<lambda>ph n r. n = 0 \<and> (case r of Inl _ \<Rightarrow> ph = Failed h | Inr _ \<Rightarrow> ph = Scoped h))"
      unfolding engine_tx_execute_def
      by (rule emits_call) (auto simp: ctx_policy_def Inr commits_def rls_step_def split: sum.splits)
    have "emits ?p (Opened h)
        (catchD (engine_tx_execute E h (set_role_sql (rls_role ctx)) []) (\<lambda>e. throwD (role_refused e)))
        (\<lambda>ph n r. n = 0 \<and> (case r of Inl _ \<Rightarrow> ph = Failed h | Inr _ \<Rightarrow> ph = Roled h))"
      by (rule emits_catchD [OF role]) (auto intro!: emits_throwD)
    moreover have "emits ?p (Roled h) (bindD (engine_tx_execute E h set_claims_sql [Str (to_json claims)]) (\<lambda>_. returnD ()))
        (\<lambda>ph n r. n = 0 \<and> (case r of Inl _ \<Rightarrow> open_phase h ph | Inr _ \<Rightarrow> ph = Scoped h))"
      by (rule emits_bindD [OF claims]) (auto simp: open_phase_def intro!: emits_returnD)
    ultimately have "emits ?p (Opened h)
        (bindD (catchD (engine_tx_execute E h (set_role_sql (rls_role ctx)) []) (\<lambda>e. throwD (role_refused e))) (\<lambda>_.
         bindD (engine_tx_execute E h set_claims_sql [Str (to_json claims)]) (\<lambda>_. returnD ())))
        (\<lambda>ph n r. n = 0 \<and> (case r of Inl _ \<Rightarrow> open_phase h ph | Inr _ \<Rightarrow> ph = Scoped h))"
      by (elim emits_bindD) (auto simp: open_phase_def)
    then show ?thesis
      using True by (simp add: setRLSContext_def Inr)
  qed
next
  case False
  then show ?thesis
    by (auto simp: setRLSContext_def open_phase_def intro!: emits_throwD)
qed

lemma in_rls_transaction_emits:
  assumes body: "\<And>h. emits (ctx_policy ctx ok) (Scoped h) (body h) (\<lambda>ph n r. ph = Scoped h \<and> n = 0)"
  shows "emits (ctx_policy ctx ok) Idle (in_rls_transaction E ctx tr body)
           (\<lambda>ph n r. ph = Idle \<and> n = (case r of Inl _ \<Rightarrow> 0 | Inr _ \<Rightarrow> 1))"
proof -
  let ?p = "ctx_policy ctx ok"
  have begin_: "emits ?p Idle (engine_begin E)
      (\<lambda>ph n r. n = 0 \<and> (case r of Inl _ \<Rightarrow> ph = Idle | Inr h \<Rightarrow> ph = Opened h))"
    unfolding engine_begin_def by (rule emits_call) (auto simp: commits_def rls_step_def split: sum.splits)
  have commit: "emits ?p (Scoped h) (engine_commit E h)
      (\<lambda>ph n r. case r of Inl _ \<Rightarrow> n = 0 \<and> ph = Failed h | Inr _ \<Rightarrow> n = 1 \<and> ph = Idle)" for h
    unfolding engine_commit_def by (rule emits_call) (auto simp: commits_def rls_step_def split: sum.splits)
  have rollback: "emits ?p ph (catchD (engine_rollback E h) (\<lambda>_. returnD ())) (\<lambda>ph n r. ph = Idle \<and> n = 0 \<and> r = Inr ())"
    if "open_phase h ph" for h ph
  proof -
    have "emits ?p ph (engine_rollback E h) (\<lambda>ph n r. ph = Idle \<and> n = 0)"
      using that unfolding engine_rollback_def open_phase_def
      by (intro emits_call) (auto simp: commits_def rls_step_def)
    then show ?thesis
      by (rule emits_catchD) (auto intro!: emits_returnD)
  qed
  let ?after = "\<lambda>h ph n r. case r of Inl _ \<Rightarrow> n = 0 \<and> open_phase h ph | Inr _ \<Rightarrow> n = 1 \<and> ph = Idle"
  have end_: "emits ?p (Scoped h) (bindD (engine_commit E h) (\<lambda>_. returnD r)) (?after h)" for h r
    by (rule emits_bindD [OF commit]) (auto simp: open_phase_def intro!: emits_returnD)
  have run: "emits ?p (Scoped h) (bindD (body h) (\<lambda>r. bindD (engine_commit E h) (\<lambda>_. returnD r))) (?after h)" for h
    by (rule emits_bindD [OF body]) (use end_ in \<open>auto simp: open_phase_def\<close>)
  have inner: "emits ?p (Opened h)
      (bindD (setRLSContext E h ctx) (\<lambda>_. bindD (body h) (\<lambda>r. bindD (engine_commit E h) (\<lambda>_. returnD r)))) (?after h)" for h
    by (rule emits_bindD [OF setRLSContext_emits]) (use run in auto)
  have fail: "emits ?p ph (bindD (catchD (engine_rollback E h) (\<lambda>_. returnD ())) (\<lambda>_. throwD (tr e)))
      (\<lambda>ph n r. ph = Idle \<and> n = (case r of Inl _ \<Rightarrow> 0 | Inr _ \<Rightarrow> 1))" if "open_phase h ph" for h ph e
    by (rule emits_bindD [OF rollback [OF that]]) (auto intro!: emits_throwD)
  have "emits ?p (Opened h)
      (catchD (bindD (setRLSContext E h ctx) (\<lambda>_. bindD (body h) (\<lambda>r. bindD (engine_commit E h) (\<lambda>_. returnD r))))
         (\<lambda>e. bindD (catchD (engine_rollback E h) (\<lambda>_. returnD ())) (\<lambda>_. throwD (tr e))))
      (\<lambda>ph n r. ph = Idle \<and> n = (case r of Inl _ \<Rightarrow> 0 | Inr _ \<Rightarrow> 1))" for h
    by (rule emits_catchD [OF inner]) (auto intro!: fail)
  then show ?thesis
    unfolding in_rls_transaction_def by (intro emits_bindD [OF begin_]) auto
qed

section \<open>What a client of a scoped database relies on\<close>

text \<open>One call leaves no transaction open and commits exactly when it returns.\<close>

definition settled :: "rls_phase \<Rightarrow> nat \<Rightarrow> (thrown, 'a) res \<Rightarrow> bool" where
  "settled ph n r = (ph = Idle \<and> n = (case r of Inl _ \<Rightarrow> 0 | Inr _ \<Rightarrow> 1))"

locale scoped_database =
  fixes policy :: "(string \<Rightarrow> jsval list \<Rightarrow> bool) \<Rightarrow> rls_policy"
    and raw_query :: "string \<Rightarrow> jsval list \<Rightarrow> ('d, jsval list) db_io"
    and raw_execute :: "string \<Rightarrow> jsval list \<Rightarrow> ('d, int) db_io"
  assumes query_settled: "ok sql ps \<Longrightarrow> emits (policy ok) Idle (raw_query sql ps) settled"
    and execute_settled: "ok sql ps \<Longrightarrow> emits (policy ok) Idle (raw_execute sql ps) settled"
begin

lemma query_call: "ok sql ps \<Longrightarrow> emits (policy ok) Idle (bindD (raw_query sql ps) (\<lambda>rows. returnD (f rows))) settled"
  by (rule emits_bindD [OF query_settled]) (auto simp: settled_def intro!: emits_returnD)

lemma execute_call: "ok sql ps \<Longrightarrow> emits (policy ok) Idle (bindD (raw_execute sql ps) (\<lambda>c. returnD (f c))) settled"
  by (rule emits_bindD [OF execute_settled]) (auto simp: settled_def intro!: emits_returnD)

end

interpretation rls: scoped_database "ctx_policy ctx" "rls_queryRaw E ctx" "rls_executeRaw E ctx" for E ctx
proof
  show "emits (ctx_policy ctx ok) Idle (rls_queryRaw E ctx sql ps) settled" if "ok sql ps" for ok sql ps
    unfolding settled_def [abs_def] rls_queryRaw_def engine_tx_query_def
    by (intro in_rls_transaction_emits emits_call) (use that in \<open>auto simp: ctx_policy_def commits_def rls_step_def\<close>)
  show "emits (ctx_policy ctx ok) Idle (rls_executeRaw E ctx sql ps) settled" if "ok sql ps" for ok sql ps
    unfolding settled_def [abs_def] rls_executeRaw_def engine_tx_execute_def
    by (intro in_rls_transaction_emits emits_call) (use that in \<open>auto simp: ctx_policy_def commits_def rls_step_def\<close>)
qed

section \<open>The claims\<close>

lemma obj_get_norm:
  "obj_wf ps \<Longrightarrow> obj_get ps k = Some v \<Longrightarrow> v \<noteq> Undef
   \<Longrightarrow> obj_get (map (\<lambda>(k, v). (k, json_norm v)) (filter (\<lambda>(k, v). v \<noteq> Undef) ps)) k = Some (json_norm v)"
  by (induction ps) (auto simp: obj_get_def dest: map_of_SomeD)

lemma distinct_indices: "distinct (map show_nat [0..<n])"
  by (auto simp: distinct_map inj_on_def dest: show_nat_inj)

lemma js_entries_wf:
  assumes "js_entries v = Inr es" and "wf_js v"
  shows "obj_wf es" and "\<forall>(k, w) \<in> set es. wf_js w"
  using assms distinct_indices
  by (auto simp: js_entries_def map_fst_zip_take distinct_take simp del: upt_Suc split: jsval.splits dest!: set_zip_rightD)

lemma wf_js_obj_set: "wf_js (Obj ps) \<Longrightarrow> wf_js v \<Longrightarrow> wf_js (Obj (obj_set k v ps))"
proof -
  have "\<forall>(k', x) \<in> set (obj_set k v ps). wf_js x" if "\<forall>(k', x) \<in> set ps. wf_js x" "wf_js v"
    using that by (induction ps) (auto split: if_splits)
  then show "wf_js (Obj ps) \<Longrightarrow> wf_js v \<Longrightarrow> wf_js (Obj (obj_set k v ps))"
    by auto
qed

lemma rls_claims_wf:
  assumes "rls_claims ctx = Inr v" and "wf_js (ctx_claims ctx)"
  obtains ps where "v = Obj ps" "wf_js (Obj ps)" "obj_get ps ''sub'' = Some (Str (ctx_userId ctx))"
    "obj_get ps ''role'' = Some (Str (rls_role ctx))"
proof -
  obtain es where es: "js_entries (nullish_or (ctx_claims ctx) (Obj [])) = Inr es"
    and v: "v = Obj (obj_set ''role'' (Str (rls_role ctx)) (obj_set ''sub'' (Str (ctx_userId ctx))
              (filter (\<lambda>(name, _). name \<notin> set RESERVED_CLAIMS) es)))" (is "v = Obj (obj_set _ _ (obj_set _ _ ?extra))")
    using assms(1) by (auto simp: rls_claims_def bindR_eq_Inr)
  have "wf_js (nullish_or (ctx_claims ctx) (Obj []))"
    using assms(2) by (simp add: nullish_or_def)
  note w = js_entries_wf [OF es this]
  have "wf_js (Obj ?extra)"
    using w by (auto simp: distinct_map_filter)
  then have "wf_js v"
    unfolding v by (intro wf_js_obj_set) simp_all
  then show ?thesis
    using that v by simp
qed

text \<open>the claims the database sees decode to an object whose \<open>sub\<close> is the user id and whose
  \<open>role\<close> is the role switched to, whatever claims the identity provider or the caller added.\<close>

theorem rls_claims_server_derived:
  assumes "rls_claims ctx = Inr v" and "wf_js (ctx_claims ctx)"
  shows "\<exists>claims. json_parse (to_json v) = Some claims
                  \<and> get_prop claims ''sub'' = Str (ctx_userId ctx) \<and> get_prop claims ''role'' = Str (rls_role ctx)"
proof (rule rls_claims_wf [OF assms])
  fix ps
  assume v: "v = Obj ps" "wf_js (Obj ps)" "obj_get ps ''sub'' = Some (Str (ctx_userId ctx))"
    "obj_get ps ''role'' = Some (Str (rls_role ctx))"
  have "json_parse (to_json v) = Some (json_norm (Obj ps))"
    using json_parse_print [OF plain_norm [OF v(2)]] by (simp add: v(1) to_json_def stringify_def)
  then show ?thesis
    using v(2-4) by (intro exI [of _ "json_norm (Obj ps)"]) (simp add: obj_get_norm)
qed

lemma rls_claims_server_derived_witness:
  "\<exists>claims. json_parse (to_json (Obj [(''tier'', Str ''gold''), (''sub'', Str ''ana''), (''role'', Str ''authenticated'')])) = Some claims
     \<and> get_prop claims ''sub'' = Str ''ana'' \<and> get_prop claims ''role'' = Str ''authenticated''"
  using rls_claims_server_derived [of "\<lparr>ctx_userId = ''ana'', ctx_role = None,
      ctx_claims = Obj [(''sub'', Str ''admin''), (''tier'', Str ''gold''), (''role'', Str ''postgres'')]\<rparr>"]
  by (simp add: rls_claims_def rls_role_def nullish_or_def js_entries_def RESERVED_CLAIMS_def)

section \<open>What a driver error becomes\<close>

definition pg_code :: "string option \<Rightarrow> thrown \<Rightarrow> string option" where
  "pg_code code e = (case e of JsError _ _ _ _ _ _ _ \<Rightarrow> code | JsThrow _ \<Rightarrow> None)"

lemma sanitize_reTagged: "sanitizeCaughtError (reTagged n c) = sanitizeCaughtError (reTagged n c')"
  by (simp add: reTagged_def Let_def sanitizeCaughtError_def error_defs)

lemma sanitize_ApiError: "sanitizeCaughtError (new_ApiError m st n c r) = sanitizeCaughtError (new_ApiError m st n c' r)"
  by (simp add: sanitizeCaughtError_def error_defs)

lemma wrapError_JsThrow: "wrapError (JsThrow v) = reTagged QueryFailed (new_Error (js_to_string v))"
  by (simp add: wrapError_def as_error_def new_Error_def REQUEST_ERRORS_def isKnownDatabaseErrorName_def
      DatabaseErrors_def db_error_names)

lemma sanitize_translatePgError:
  "sanitizeCaughtError (translatePgError code e) = sanitizeCaughtError (translatePgError (pg_code code e) (new_Error []))"
proof (cases e)
  case (JsError n m a b s r c)
  have re: "sanitizeCaughtError (reTagged k x) = sanitizeCaughtError (reTagged k y)" for k x y
    by (rule sanitize_reTagged)
  have api: "sanitizeCaughtError (new_ApiError k st n x r) = sanitizeCaughtError (new_ApiError k st n y r)" for k st n x y r
    by (rule sanitize_ApiError)
  show ?thesis
  proof (cases "\<exists>d ds. code = Some (d # ds)")
    case True
    then obtain d ds where c: "code = Some (d # ds)"
      by auto
    obtain entry where e: "obj_get REQUEST_ERRORS (d # ds) = entry"
      by simp
    show ?thesis
      unfolding JsError c pg_code_def translatePgError_def new_Error_def thrown.case option.case list.case requestError_def e
        serializationConflict_def uniqueConstraintConflict_def
      by (cases entry) (auto intro!: re api)
  next
    case False
    then consider "code = None" | "code = Some []"
      by (metis list.exhaust not_Some_eq)
    then show ?thesis
      by cases (auto simp: JsError pg_code_def translatePgError_def new_Error_def PG_SERIALIZATION_FAILURE_def
          PG_UNIQUE_VIOLATION_def intro!: re)
  qed
next
  case (JsThrow v)
  then show ?thesis
    by (simp add: translatePgError_def pg_code_def new_Error_def PG_SERIALIZATION_FAILURE_def PG_UNIQUE_VIOLATION_def
        wrapError_JsThrow) (rule sanitize_reTagged)
qed

text \<open>what the client is told of a failed statement is a function of its SQLSTATE alone: the
  driver's message, its name and whatever else it carries leave no trace in the response.\<close>

theorem pg_error_opaque:
  assumes "pg_code code e = pg_code code' e'"
  shows "errorResponseFromCatch (translatePgError code e) id_val = errorResponseFromCatch (translatePgError code' e') id_val"
  using assms sanitize_translatePgError [of code e] sanitize_translatePgError [of code' e']
  by (simp add: errorResponseFromCatch_def)

lemma pg_error_opaque_witness:
  "errorResponseFromCatch
     (translatePgError (Some ''23505'') (JsError ''error'' ''Key (email)=(ana@x.org) already exists'' False False Undef Undef None)) (Num 1)
   = errorResponseFromCatch (translatePgError (Some ''23505'') (new_Error [])) (Num 1)"
  by (rule pg_error_opaque) (simp add: pg_code_def new_Error_def)

end
