(* ===== verification/Crud.thy ===== *)
theory Crud
  imports Database
begin

text \<open>
  \<^verbatim>\<open>packages/bb-data/src/crud/index.ts\<close>: the list, get, create, update and delete handlers
  generated for each table.  What the application supplies is a record: the outcome of its auth
  callback and what \<open>ensureReady\<close> does.  A handler is called with the decoded argument list of
  a request.  \<open>in\<close> is read as having the own property: no primary key column has the name of a
  member of \<open>Object.prototype\<close>.
\<close>

type_synonym TableSchema = "(string \<times> TableMetaEntry) list"

text \<open>\<open>claims\<close> is \<open>Undef\<close> when the auth result has none.\<close>

record CrudAuthResult =
  auth_userId :: string
  auth_claims :: jsval

record CrudOptions =
  tables :: "string list"
  exclude :: "string list"

record 'd crud_env =
  ensureReady :: "'d \<Rightarrow> 'd \<times> (thrown, unit) res"
  auth_outcome :: "(thrown, CrudAuthResult) res"

definition capitalize :: "string \<Rightarrow> string" where
  "capitalize s = (case s of [] \<Rightarrow> [] | c # cs \<Rightarrow> upper_char c # cs)"

datatype crud_op = CrudList | CrudGet | CrudCreate | CrudUpdate | CrudDelete

definition handler_name :: "TableMetaEntry \<Rightarrow> crud_op \<Rightarrow> string" where
  "handler_name meta op =
     (case op of
        CrudList \<Rightarrow> ''list'' @ capitalize (plural meta)
      | CrudGet \<Rightarrow> ''get'' @ capitalize (singular meta)
      | CrudCreate \<Rightarrow> ''create'' @ capitalize (singular meta)
      | CrudUpdate \<Rightarrow> ''update'' @ capitalize (singular meta)
      | CrudDelete \<Rightarrow> ''delete'' @ capitalize (singular meta))"

text \<open>Which table and operation a handler closes over.\<close>

type_synonym handlers = "(string \<times> string \<times> TableMetaEntry \<times> crud_op) list"

definition table_handlers :: "string list \<Rightarrow> string \<Rightarrow> TableMetaEntry \<Rightarrow> handlers \<Rightarrow> handlers" where
  "table_handlers excl table meta hs =
     foldl (\<lambda>hs op. if handler_name meta op \<in> set excl then hs else obj_set (handler_name meta op) (table, meta, op) hs)
       hs [CrudList, CrudGet, CrudCreate, CrudUpdate, CrudDelete]"

definition createCrudHandlers :: "TableSchema \<Rightarrow> CrudOptions \<Rightarrow> (thrown, handlers) res" where
  "createCrudHandlers schema options =
     foldR (\<lambda>hs table.
              case obj_get schema table of
                None \<Rightarrow> Inl (new_Error (''Table '' @ dq table @ '' not found in schema''))
              | Some meta \<Rightarrow> Inr (table_handlers (exclude options) table meta hs))
       [] (tables options)"

definition missing_pk :: "string \<Rightarrow> thrown" where
  "missing_pk c = new_Error (''Missing primary key column '' @ dq c @ '' in id object'')"

definition composite_pk :: "TableMetaEntry \<Rightarrow> thrown" where
  "composite_pk meta = new_Error (''Composite primary key requires an object with keys: '' @ join '', '' (pkCols meta))"

definition pk_value :: "(string \<times> jsval) list \<Rightarrow> string \<Rightarrow> (thrown, jsval) res" where
  "pk_value ps c = (case obj_get ps c of None \<Rightarrow> Inl (missing_pk c) | Some v \<Rightarrow> Inr v)"

definition resolvePkValues :: "TableMetaEntry \<Rightarrow> jsval \<Rightarrow> (thrown, jsval list) res" where
  "resolvePkValues meta ident =
     (case ident of
        Obj ps \<Rightarrow> mapR (pk_value ps) (pkCols meta)
      | _ \<Rightarrow> if length (pkCols meta) > 1 then Inl (composite_pk meta) else Inr [ident])"

definition get_filter :: "TableMetaEntry \<Rightarrow> jsval \<Rightarrow> (thrown, jsval) res" where
  "get_filter meta ident =
     (case ident of
        Obj ps \<Rightarrow> bindR (mapR (pk_value ps) (pkCols meta)) (\<lambda>_. Inr ident)
      | _ \<Rightarrow> if length (pkCols meta) > 1 then Inl (composite_pk meta)
             else Inr (Obj [(case pkCols meta of [] \<Rightarrow> ''undefined'' | c # _ \<Rightarrow> c, ident)]))"

text \<open>The statement a handler builds from its arguments.\<close>

definition js_arg :: "jsval list \<Rightarrow> nat \<Rightarrow> jsval" where
  "js_arg args i = (if i < length args then args ! i else Undef)"

definition crud_query :: "string \<Rightarrow> TableMetaEntry \<Rightarrow> crud_op \<Rightarrow> jsval list \<Rightarrow> (thrown, BuiltQuery) res" where
  "crud_query table meta op args =
     (case op of
        CrudList \<Rightarrow> buildSelect table (js_arg args 0) meta
      | CrudGet \<Rightarrow> bindR (get_filter meta (js_arg args 0)) (\<lambda>f. buildSelect table (Obj [(''where'', f)]) meta)
      | CrudCreate \<Rightarrow> buildInsert table (js_arg args 0) meta
      | CrudUpdate \<Rightarrow> bindR (resolvePkValues meta (js_arg args 0)) (\<lambda>pks. buildUpdate table pks (js_arg args 1) meta)
      | CrudDelete \<Rightarrow> bindR (resolvePkValues meta (js_arg args 0)) (\<lambda>pks. Inr (buildDelete table pks meta)))"

definition auth_context :: "CrudAuthResult \<Rightarrow> RLSContext" where
  "auth_context a = \<lparr>ctx_userId = auth_userId a, ctx_role = None, ctx_claims = auth_claims a\<rparr>"

definition execQuery :: "'d engine \<Rightarrow> CrudAuthResult \<Rightarrow> string \<Rightarrow> jsval list \<Rightarrow> ('d, jsval list) db_io" where
  "execQuery E a sql ps = rls_queryRaw E (auth_context a) sql ps"

definition first_row :: "jsval list \<Rightarrow> jsval" where
  "first_row rows = (case rows of [] \<Rightarrow> Undef | r # _ \<Rightarrow> r)"

definition become_ready :: "'d crud_env \<Rightarrow> ('d, unit) db_io" where
  "become_ready env d = (case ensureReady env (db_state d) of (s, r) \<Rightarrow> (d\<lparr>db_state := s\<rparr>, r))"

definition crud_call :: "'d engine \<Rightarrow> 'd crud_env \<Rightarrow> string \<Rightarrow> TableMetaEntry \<Rightarrow> crud_op \<Rightarrow> jsval list \<Rightarrow> ('d, jsval) db_io" where
  "crud_call E env table meta op args =
     bindD (become_ready env) (\<lambda>_.
     bindD (liftD (auth_outcome env)) (\<lambda>a.
     bindD (liftD (crud_query table meta op args)) (\<lambda>q.
       case op of
         CrudDelete \<Rightarrow>
           bindD (rls_executeRaw E (auth_context a) (q_text q) (q_params q)) (\<lambda>rowCount.
             returnD (Obj [(''deleted'', Bool (rowCount > 0))]))
       | _ \<Rightarrow>
           bindD (execQuery E a (q_text q) (q_params q)) (\<lambda>rows.
             returnD (case op of
                        CrudList \<Rightarrow> Arr rows
                      | CrudCreate \<Rightarrow> first_row rows
                      | _ \<Rightarrow> nullish_or (first_row rows) Null)))))"

section \<open>Statements\<close>

lemma resolvePkValues_length:
  "resolvePkValues meta ident = Inr pks \<Longrightarrow> pkCols meta \<noteq> [] \<Longrightarrow> length pks = length (pkCols meta)"
  by (cases "length (pkCols meta)")
     (auto simp: resolvePkValues_def dest: mapR_Inr_length split: jsval.splits if_splits)

lemma crud_query_parameterised:
  "crud_query table meta op args = Inr q \<Longrightarrow> pkCols meta \<noteq> [] \<Longrightarrow> parameterised (table_names table meta) q"
  by (cases op)
     (auto simp: crud_query_def bindR_eq_Inr intro: buildSelect_parameterised buildInsert_parameterised
        buildUpdate_parameterised buildDelete_parameterised resolvePkValues_length)

section \<open>Every call is scoped to the caller\<close>

text \<open>
  What a call may do to the database: nothing before the application has named the caller; then one
  transaction in the caller's role and claims, running parameterised statements on the table.
\<close>

definition crud_policy :: "CrudAuthResult \<Rightarrow> string \<Rightarrow> TableMetaEntry \<Rightarrow> rls_policy" where
  "crud_policy a table meta =
     ctx_policy (auth_context a) (\<lambda>sql ps. parameterised (table_names table meta) \<lparr>q_text = sql, q_params = ps\<rparr>)"

definition scoped_call :: "(thrown, CrudAuthResult) res \<Rightarrow> string \<Rightarrow> TableMetaEntry \<Rightarrow> db_log \<Rightarrow> bool" where
  "scoped_call outcome table meta evs =
     (case outcome of
        Inl _ \<Rightarrow> evs = []
      | Inr a \<Rightarrow>
          rls_run (crud_policy a table meta) Idle evs = Some Idle)"

lemma become_ready_emits: "emits p ph (become_ready env) (\<lambda>ph' n r. ph' = ph \<and> n = 0)"
  unfolding emits_def by (intro allI exI [of _ "[]"] exI [of _ ph]) (auto simp: become_ready_def split: prod.splits)

lemma settled_after_ready: "emits p Idle m settled \<Longrightarrow> emits p Idle (bindD (become_ready env) (\<lambda>_. m)) settled"
  by (rule emits_bindD [OF become_ready_emits]) (simp_all add: settled_def [abs_def])

lemma crud_call_emits:
  assumes "auth_outcome env = Inr a" and "pkCols meta \<noteq> []"
  shows "emits (crud_policy a table meta) Idle (crud_call E env table meta op args) settled"
proof (cases "crud_query table meta op args")
  case (Inl e)
  have "emits p Idle (bindD (liftD (Inl e)) f) settled" for p f
    by (rule emits_bindD [OF emits_liftD [where Q = "\<lambda>ph n r. ph = Idle \<and> n = 0 \<and> r = Inl e"]])
       (auto simp: settled_def)
  then show ?thesis
    unfolding crud_call_def assms(1) Inl bindD_liftD by (rule settled_after_ready)
next
  case (Inr q)
  let ?ok = "\<lambda>sql ps. parameterised (table_names table meta) \<lparr>q_text = sql, q_params = ps\<rparr>"
  have ok: "?ok (q_text q) (q_params q)"
    using crud_query_parameterised [OF Inr assms(2)] by (cases q) simp
  note asks = rls.query_call [of ?ok, OF ok]
  note writes = rls.execute_call [of ?ok, OF ok]
  have run: "emits (crud_policy a table meta) Idle
      (case op of
         CrudDelete \<Rightarrow>
           bindD (rls_executeRaw E (auth_context a) (q_text q) (q_params q)) (\<lambda>rowCount.
             returnD (Obj [(''deleted'', Bool (rowCount > 0))]))
       | _ \<Rightarrow> bindD (execQuery E a (q_text q) (q_params q)) (\<lambda>rows. returnD (f rows))) settled" for f
    unfolding crud_policy_def execQuery_def by (cases op) (simp_all add: asks writes)
  show ?thesis
    unfolding crud_call_def assms(1) Inr bindD_liftD by (intro settled_after_ready run)
qed

text \<open>C4: whatever a client sends to a generated handler, and however the engine behaves, the calls
  that reach the database are one closed transaction that switches to the caller's role and claims
  before it runs a statement, and each statement consists of keywords, names of the table and
  placeholders numbered as its parameters; when the application does not name a caller nothing runs.\<close>

theorem crud_rls_scoped:
  assumes "pkCols meta \<noteq> []"
  shows "\<exists>evs. db_log (fst (crud_call E env table meta op args d)) = db_log d @ evs
               \<and> scoped_call (auth_outcome env) table meta evs"
proof (cases "auth_outcome env")
  case (Inl e)
  then show ?thesis
    by (intro exI [of _ "[]"])
       (auto simp: scoped_call_def crud_call_def bindD_def liftD_def become_ready_def split: prod.splits sum.splits)
next
  case (Inr a)
  then show ?thesis
    using crud_call_emits [OF Inr assms, of table E op args]
    unfolding emits_def scoped_call_def settled_def by fastforce
qed

text \<open>A database whose statements find one row.\<close>

definition demo_meta :: TableMetaEntry where
  "demo_meta = \<lparr>singular = ''user'', plural = ''users'', primaryKey = PkColumn ''id'',
                columns = [''id'', ''na'' @ [CHR 0x22] @ ''me''], autoGenerated = [''id'']\<rparr>"

definition demo_engine :: "unit engine" where
  "demo_engine =
     \<lparr>query = (\<lambda>_ _ d. (d, Inr [Str ''row''])), execute = (\<lambda>_ _ d. (d, Inr 1)), beginTransaction = (\<lambda>d. (d, Inr 7)),
      commitTransaction = (\<lambda>_ d. (d, Inr ())), rollbackTransaction = (\<lambda>_ d. (d, Inr ())),
      queryInTransaction = (\<lambda>_ _ _ d. (d, Inr [Str ''row''])), executeInTransaction = (\<lambda>_ _ _ d. (d, Inr 1))\<rparr>"

definition demo_crud_env :: "unit crud_env" where
  "demo_crud_env = \<lparr>ensureReady = (\<lambda>d. (d, Inr ())), auth_outcome = Inr \<lparr>auth_userId = ''ana'', auth_claims = Undef\<rparr>\<rparr>"

definition demo_crud_run :: "unit db \<times> (thrown, jsval) res" where
  "demo_crud_run =
     crud_call demo_engine demo_crud_env ''users'' demo_meta CrudGet [Str ''u1''] \<lparr>db_state = (), db_log = []\<rparr>"

lemma demo_pk: "pkCols demo_meta \<noteq> []"
  by (simp add: demo_meta_def pkCols_def)

lemma demo_crud_result: "snd demo_crud_run = Inr (Str ''row'')"
  by code_simp

theorem crud_rls_scoped_witness:
  "snd demo_crud_run = Inr (Str ''row'')
   \<and> (\<exists>evs. db_log (fst demo_crud_run) = [] @ evs \<and> scoped_call (auth_outcome demo_crud_env) ''users'' demo_meta evs)"
  using crud_rls_scoped [OF demo_pk, of demo_engine demo_crud_env "''users''" CrudGet "[Str ''u1'']"
      "\<lparr>db_state = (), db_log = []\<rparr>"] demo_crud_result
  unfolding demo_crud_run_def by simp

text \<open>C34: a call that returns has committed exactly once, and a call that throws has committed
  nothing.\<close>

theorem crud_commit_iff_returned:
  assumes "pkCols meta \<noteq> []"
  shows "\<exists>evs. db_log (fst (crud_call E env table meta op args d)) = db_log d @ evs
               \<and> commits evs = (case snd (crud_call E env table meta op args d) of Inl _ \<Rightarrow> 0 | Inr _ \<Rightarrow> 1)"
proof (cases "auth_outcome env")
  case (Inl e)
  then show ?thesis
    by (intro exI [of _ "[]"])
       (auto simp: crud_call_def bindD_def liftD_def become_ready_def split: prod.splits sum.splits)
next
  case (Inr a)
  then show ?thesis
    using crud_call_emits [OF Inr assms, of table E op args]
    unfolding emits_def settled_def by blast
qed

theorem crud_commit_iff_returned_witness:
  "\<exists>evs. db_log (fst demo_crud_run) = [] @ evs \<and> commits evs = 1"
  using crud_commit_iff_returned [OF demo_pk, of demo_engine demo_crud_env "''users''" CrudGet "[Str ''u1'']"
      "\<lparr>db_state = (), db_log = []\<rparr>"] demo_crud_result
  unfolding demo_crud_run_def by simp

section \<open>Which handlers exist\<close>

lemma table_handlers_keys:
  "obj_has (table_handlers excl t meta hs) n
   \<longleftrightarrow> obj_has hs n \<or> (n \<notin> set excl \<and> (\<exists>op. n = handler_name meta op))"
proof -
  have "obj_has (foldl (\<lambda>hs op. if handler_name meta op \<in> set excl then hs else obj_set (handler_name meta op) (t, meta, op) hs) hs ops) n
        \<longleftrightarrow> obj_has hs n \<or> (n \<notin> set excl \<and> (\<exists>op \<in> set ops. n = handler_name meta op))" for ops
    by (induction ops arbitrary: hs) auto
  moreover have "op \<in> set [CrudList, CrudGet, CrudCreate, CrudUpdate, CrudDelete]" for op
    by (cases op) auto
  ultimately show ?thesis
    unfolding table_handlers_def by blast
qed

text \<open>The methods generated are exactly those of the listed tables that are not excluded: no other
  table is reachable, and an exclusion removes the method under every table that would define it.\<close>

theorem crud_handlers_exact:
  assumes "createCrudHandlers schema options = Inr hs"
  shows "obj_has hs n \<longleftrightarrow>
    n \<notin> set (exclude options)
    \<and> (\<exists>t \<in> set (tables options). \<exists>meta op. obj_get schema t = Some meta \<and> n = handler_name meta op)"
proof -
  let ?step = "\<lambda>hs table. case obj_get schema table of
                None \<Rightarrow> Inl (new_Error (''Table '' @ dq table @ '' not found in schema''))
              | Some meta \<Rightarrow> Inr (table_handlers (exclude options) table meta hs)"
  let ?defines = "\<lambda>ts. n \<notin> set (exclude options)
      \<and> (\<exists>t \<in> set ts. \<exists>meta op. obj_get schema t = Some meta \<and> n = handler_name meta op)"
  have "foldR ?step acc ts = Inr hs \<Longrightarrow> obj_has hs n \<longleftrightarrow> obj_has acc n \<or> ?defines ts" for acc ts
  proof (induction ts arbitrary: acc)
    case (Cons t ts)
    then obtain meta where m: "obj_get schema t = Some meta"
        "foldR ?step (table_handlers (exclude options) t meta acc) ts = Inr hs"
      by (auto simp: bindR_eq_Inr split: option.splits)
    show ?case
      unfolding Cons.IH [OF m(2)] table_handlers_keys using m(1) by auto
  qed simp
  from this [of "[]" "tables options"] show ?thesis
    using assms by (simp add: createCrudHandlers_def)
qed

theorem crud_handlers_exact_witness:
  "\<exists>hs. createCrudHandlers [(''users'', demo_meta)] \<lparr>tables = [''users''], exclude = [''deleteUser'']\<rparr> = Inr hs
        \<and> (obj_has hs ''deleteUser'' \<longleftrightarrow> False)"
proof -
  obtain hs where hs: "createCrudHandlers [(''users'', demo_meta)] \<lparr>tables = [''users''], exclude = [''deleteUser'']\<rparr> = Inr hs"
    by (auto simp: createCrudHandlers_def)
  show ?thesis
    using crud_handlers_exact [OF hs, of "''deleteUser''"] hs by simp
qed

end
