(* ===== verification/CronSchedule.thy ===== *)
theory CronSchedule
  imports Rpc SetCookie
begin

text \<open>
  \<^verbatim>\<open>packages/bb-cron-job/src/schedule.ts\<close>: reading \<open>rate(...)\<close> and \<open>cron(...)\<close>
  expressions, for the local runtime and for the check at synthesis.  The regular expressions are
  written out as string functions.  Field values are natural numbers, \<open>None\<close> where the code has
  \<open>NaN\<close>; an interval above \<open>2 ^ 53\<close> milliseconds, which a double rounds, is exact here.
\<close>

section \<open>Types and errors\<close>

record CronFields =
  minute :: "nat list"
  hour :: "nat list"
  dayOfMonth :: "nat list"
  month :: "nat list"
  dayOfWeek :: "nat list"

datatype ParsedSchedule = RateSchedule (intervalMs: nat) | CronSchedule (cron_fields: CronFields)

definition InvalidSchedule :: string where
  "InvalidSchedule = ''InvalidScheduleExpression''"

definition ScheduleNotSupported :: string where
  "ScheduleNotSupported = ''ScheduleNotSupportedInMock''"

text \<open>The UTF-8 bytes of the signs the messages use.\<close>

definition ge_sign :: string where
  "ge_sign = [CHR 0xE2, CHR 0x89, CHR 0xA5]"

definition apostrophe :: string where
  "apostrophe = [CHR 0xE2, CHR 0x80, CHR 0x99]"

text \<open>\<open>/^rate\s*\(/\<close>.\<close>

definition looks_like_rate :: "string \<Rightarrow> bool" where
  "looks_like_rate expr = (starts_with expr ''rate'' \<and> starts_with (dropWhile is_space (drop 4 expr)) ''('')"

definition scheduleError :: "string \<Rightarrow> thrown" where
  "scheduleError expr =
     blocksError InvalidSchedule
       (dq expr @ '' is not a valid schedule '' @ em_dash @ '' ''
        @ (if looks_like_rate expr
           then ''a rate must be '' @ dq ''rate(<n> minute|minutes|hour|hours|day|days)'' @ '' with n '' @ ge_sign
                @ '' 1 (EventBridge'' @ apostrophe @ ''s minimum is 1 minute; seconds are not supported)''
           else ''expected '' @ dq ''rate(<n> minutes|hours|days)'' @ '' or a 6-field '' @ dq ''cron(...)''
                @ '' expression''))"

section \<open>The two shapes\<close>

definition RATE_UNITS :: "string list" where
  "RATE_UNITS = [''minute'', ''minutes'', ''hour'', ''hours'', ''day'', ''days'']"

text \<open>\<open>RATE_RE\<close>: the digits and the unit.\<close>

definition rate_match :: "string \<Rightarrow> (string \<times> string) option" where
  "rate_match expr =
     (if starts_with expr ''rate('' then
        (let r = drop 5 expr;
             digits = takeWhile is_digit r;
             r1 = dropWhile is_digit r;
             r2 = dropWhile is_space r1
         in if digits \<noteq> [] \<and> r2 \<noteq> r1 \<and> ends_with r2 '')'' \<and> butlast r2 \<in> set RATE_UNITS
            then Some (digits, butlast r2) else None)
      else None)"

text \<open>\<open>CRON_RE\<close>: the text between the brackets; \<open>.\<close> matches no line break.\<close>

definition cron_match :: "string \<Rightarrow> string option" where
  "cron_match expr =
     (if starts_with expr ''cron('' \<and> ends_with (drop 5 expr) '')'' then
        (let body = butlast (drop 5 expr) in
         if body \<noteq> [] \<and> list_all (\<lambda>c. char_code c \<noteq> 10 \<and> char_code c \<noteq> 13) body then Some body else None)
      else None)"

definition parseRate :: "string \<times> string \<Rightarrow> string \<Rightarrow> (thrown, nat) res" where
  "parseRate m expr =
     (let n = read_nat (fst m);
          rawUnit = snd m;
          isPlural = ends_with rawUnit ''s'';
          unit_name = (if isPlural then butlast rawUnit else rawUnit);
          multipliers = [(''minute'', 60000), (''hour'', 3600000), (''day'', 86400000)]
      in if n = 1 \<and> isPlural then Inl (scheduleError expr)
         else if n > 1 \<and> \<not> isPlural then Inl (scheduleError expr)
         else (case obj_get multipliers unit_name of
                 None \<Rightarrow> Inl (scheduleError expr)
               | Some ms \<Rightarrow> if n \<le> 0 then Inl (scheduleError expr) else Inr (n * ms)))"

section \<open>Cron fields\<close>

definition toInt :: "string \<Rightarrow> nat option" where
  "toInt s = (if s \<noteq> [] \<and> list_all is_digit s then Some (read_nat s) else None)"

definition in_bounds :: "nat option \<Rightarrow> nat option \<Rightarrow> nat \<Rightarrow> nat \<Rightarrow> bool" where
  "in_bounds lo hi mn mx =
     (case (lo, hi) of
        (Some l, Some h) \<Rightarrow> \<not> (l > h \<or> l < mn \<or> h > mx)
      | _ \<Rightarrow> False)"

text \<open>\<open>for (let i = lo; i <= hi; i += step) values.push(i)\<close>.\<close>

function steps_from :: "nat \<Rightarrow> nat \<Rightarrow> nat \<Rightarrow> nat list" where
  "steps_from lo hi step = (if step = 0 \<or> lo > hi then [] else lo # steps_from (lo + step) hi step)"
  by auto
termination by (relation "measure (\<lambda>(lo, hi, step). Suc hi - lo)") auto

declare steps_from.simps [simp del]

text \<open>One element of the comma list; only the first two pieces of a split are looked at.\<close>

definition expand_part :: "nat \<Rightarrow> nat \<Rightarrow> string \<Rightarrow> string \<Rightarrow> (thrown, nat list) res" where
  "expand_part mn mx original part =
     (if CHR ''/'' \<in> set part then
        (let base = split_on CHR ''/'' part ! 0;
             step = toInt (split_on CHR ''/'' part ! 1);
             lo = (if base = ''*'' then Some mn
                   else if CHR ''-'' \<in> set base then toInt (split_on CHR ''-'' base ! 0)
                   else toInt base);
             hi = (if base \<noteq> ''*'' \<and> CHR ''-'' \<in> set base then toInt (split_on CHR ''-'' base ! 1) else Some mx)
         in case step of
              None \<Rightarrow> Inl (scheduleError original)
            | Some st \<Rightarrow>
                if st = 0 \<or> \<not> in_bounds lo hi mn mx then Inl (scheduleError original)
                else Inr (steps_from (the lo) (the hi) st))
      else if CHR ''-'' \<in> set part then
        (let lo = toInt (split_on CHR ''-'' part ! 0); hi = toInt (split_on CHR ''-'' part ! 1) in
         if in_bounds lo hi mn mx then Inr (steps_from (the lo) (the hi) 1) else Inl (scheduleError original))
      else
        (let n = toInt part in
         if in_bounds n n mn mx then Inr [the n] else Inl (scheduleError original)))"

definition expandField :: "string \<Rightarrow> nat \<Rightarrow> nat \<Rightarrow> string \<Rightarrow> (thrown, nat list) res" where
  "expandField field mn mx original =
     (if field = ''*'' then Inr [mn..<Suc mx]
      else bindR (mapR (expand_part mn mx original) (split_on CHR '','' field)) (\<lambda>vss. Inr (concat vss)))"

text \<open>\<open>field.replace(/A|B|.../gi, ...)\<close> for names of three letters, each replaced by its number.\<close>

function replace_names :: "(string \<times> nat) list \<Rightarrow> string \<Rightarrow> string" where
  "replace_names names s =
     (case s of
        [] \<Rightarrow> []
      | c # r \<Rightarrow>
          (case obj_get names (to_upper (take 3 s)) of
             Some n \<Rightarrow> show_nat n @ replace_names names (drop 2 r)
           | None \<Rightarrow> c # replace_names names r))"
  by auto
termination by (relation "measure (\<lambda>(names, s). length s)") auto

declare replace_names.simps [simp del]

definition dayMap :: "(string \<times> nat) list" where
  "dayMap = [(''SUN'', 1), (''MON'', 2), (''TUE'', 3), (''WED'', 4), (''THU'', 5), (''FRI'', 6), (''SAT'', 7)]"

definition monthMap :: "(string \<times> nat) list" where
  "monthMap = [(''JAN'', 1), (''FEB'', 2), (''MAR'', 3), (''APR'', 4), (''MAY'', 5), (''JUN'', 6), (''JUL'', 7),
               (''AUG'', 8), (''SEP'', 9), (''OCT'', 10), (''NOV'', 11), (''DEC'', 12)]"

definition expandDow :: "string \<Rightarrow> string \<Rightarrow> (thrown, nat list) res" where
  "expandDow field original =
     bindR (expandField (replace_names dayMap field) 1 7 original) (\<lambda>ds. Inr (map (\<lambda>d. (d - 1) mod 7) ds))"

definition expandMonth :: "string \<Rightarrow> string \<Rightarrow> (thrown, nat list) res" where
  "expandMonth field original = expandField (replace_names monthMap field) 1 12 original"

definition cron_parts :: "string \<Rightarrow> string list" where
  "cron_parts body = split_ws (trim body)"

definition parseCronFields :: "string \<Rightarrow> string \<Rightarrow> (thrown, CronFields) res" where
  "parseCronFields body original =
     (let parts = cron_parts body in
      if length parts \<noteq> 6 then Inl (scheduleError original)
      else
        bindR (expandField (parts ! 0) 0 59 original) (\<lambda>mi.
        bindR (expandField (parts ! 1) 0 23 original) (\<lambda>h.
        bindR (if parts ! 2 = ''?'' then Inr [] else expandField (parts ! 2) 1 31 original) (\<lambda>dom.
        bindR (expandMonth (parts ! 3) original) (\<lambda>mo.
        bindR (if parts ! 4 = ''?'' then Inr [] else expandDow (parts ! 4) original) (\<lambda>dow.
          Inr \<lparr>minute = mi, hour = h, dayOfMonth = dom, month = mo, dayOfWeek = dow\<rparr>))))))"

section \<open>The three entry points\<close>

definition parseSchedule :: "string \<Rightarrow> (thrown, ParsedSchedule) res" where
  "parseSchedule expr =
     (case rate_match expr of
        Some m \<Rightarrow> bindR (parseRate m expr) (\<lambda>ms. Inr (RateSchedule ms))
      | None \<Rightarrow>
          (case cron_match expr of
             Some body \<Rightarrow> bindR (parseCronFields body expr) (\<lambda>fs. Inr (CronSchedule fs))
           | None \<Rightarrow> Inl (scheduleError expr)))"

text \<open>\<open>/[LW#]/i.test(s)\<close>.\<close>

definition has_marker :: "string \<Rightarrow> bool" where
  "has_marker s = (\<exists>c \<in> set s. upper_char c \<in> {CHR ''L'', CHR ''W'', CHR 0x23})"

definition normalizeUnsupportedCron :: "string \<Rightarrow> string option" where
  "normalizeUnsupportedCron expr =
     (case cron_match expr of
        None \<Rightarrow> None
      | Some body \<Rightarrow>
          (let fs = cron_parts body in
           if length fs \<noteq> 6 then None
           else
             (let dom = fs ! 2; dow = fs ! 4; year = fs ! 5;
                  hasMarker = (has_marker dom \<or> has_marker dow);
                  hasYear = (year \<noteq> ''*'' \<and> year \<noteq> ''?'')
              in if \<not> hasMarker \<and> \<not> hasYear then None
                 else Some (''cron('' @ fs ! 0 @ '' '' @ fs ! 1 @ '' '' @ (if has_marker dom then ''1'' else dom)
                            @ '' '' @ fs ! 3 @ '' '' @ (if has_marker dow then ''?'' else dow) @ '' *)''))))"

definition not_supported_error :: "string \<Rightarrow> thrown" where
  "not_supported_error expr =
     blocksError ScheduleNotSupported
       (dq expr @ '' is valid for EventBridge and will deploy, ''
        @ ''but the local mock cannot simulate it (advanced cron forms like L/W/#, or a year field). ''
        @ ''Deploy to a sandbox to exercise it.'')"

definition parseScheduleForMock :: "string \<Rightarrow> (thrown, ParsedSchedule) res" where
  "parseScheduleForMock expr =
     (case parseSchedule expr of
        Inr s \<Rightarrow> Inr s
      | Inl err \<Rightarrow>
          (case normalizeUnsupportedCron expr of
             None \<Rightarrow> Inl err
           | Some normalized \<Rightarrow>
               (case parseSchedule normalized of
                  Inl _ \<Rightarrow> Inl err
                | Inr _ \<Rightarrow> Inl (not_supported_error expr))))"

definition validateSchedule :: "string \<Rightarrow> (thrown, unit) res" where
  "validateSchedule expr =
     (case rate_match expr of
        Some m \<Rightarrow> bindR (parseRate m expr) (\<lambda>_. Inr ())
      | None \<Rightarrow>
          (case cron_match expr of
             Some body \<Rightarrow> if length (cron_parts body) \<noteq> 6 then Inl (scheduleError expr) else Inr ()
           | None \<Rightarrow> Inl (scheduleError expr)))"

section \<open>Every value of a field is in its range\<close>

lemma steps_from_mem: "v \<in> set (steps_from lo hi step) \<longleftrightarrow> 0 < step \<and> v \<le> hi \<and> (\<exists>k. v = lo + k * step)"
proof (induction lo hi step rule: steps_from.induct)
  case (1 lo hi step)
  show ?case
  proof (cases "step = 0 \<or> lo > hi")
    case True
    then show ?thesis
      by (subst steps_from.simps) auto
  next
    case False
    have "(\<exists>k. v = lo + k * step) \<longleftrightarrow> v = lo \<or> (\<exists>k. v = lo + step + k * step)"
    proof
      assume "\<exists>k. v = lo + k * step"
      then obtain k where "v = lo + k * step"
        by blast
      then show "v = lo \<or> (\<exists>k. v = lo + step + k * step)"
        by (cases k) auto
    qed (metis add.assoc add.right_neutral mult_0 mult_Suc)
    then show ?thesis
      using 1 [OF False] False by (subst steps_from.simps) auto
  qed
qed

lemma steps_from_bounds: "v \<in> set (steps_from lo hi step) \<Longrightarrow> lo \<le> v \<and> v \<le> hi"
  by (auto simp: steps_from_mem)

lemma in_bounds_iff: "in_bounds lo hi mn mx \<longleftrightarrow> (\<exists>l h. lo = Some l \<and> hi = Some h \<and> mn \<le> l \<and> l \<le> h \<and> h \<le> mx)"
  by (auto simp: in_bounds_def split: option.splits)

definition within :: "nat \<Rightarrow> nat \<Rightarrow> nat list \<Rightarrow> bool" where
  "within mn mx vs = (vs \<noteq> [] \<and> set vs \<subseteq> {mn..mx})"

lemma within_steps:
  assumes "0 < st" "mn \<le> l" "l \<le> h" "h \<le> mx"
  shows "within mn mx (steps_from l h st)"
proof -
  have "steps_from l h st \<noteq> []"
    using assms by (subst steps_from.simps) simp
  then show ?thesis
    using assms by (auto simp: within_def dest!: steps_from_bounds)
qed

lemma within_single: "mn \<le> n \<Longrightarrow> n \<le> mx \<Longrightarrow> within mn mx [n]"
  by (simp add: within_def)

lemma within_concat: "vss \<noteq> [] \<Longrightarrow> (\<And>vs. vs \<in> set vss \<Longrightarrow> within mn mx vs) \<Longrightarrow> within mn mx (concat vss)"
  by (cases vss) (fastforce simp: within_def)+

lemma expand_part_within: "expand_part mn mx original part = Inr vs \<Longrightarrow> within mn mx vs"
  unfolding expand_part_def Let_def in_bounds_iff
  by (auto split: if_splits option.splits intro: within_steps within_single)

lemma expandField_within:
  assumes "expandField field mn mx original = Inr vs" and "mn \<le> mx"
  shows "within mn mx vs"
proof (cases "field = ''*''")
  case False
  then obtain vss where vss: "mapR (expand_part mn mx original) (split_on CHR '','' field) = Inr vss" "vs = concat vss"
    using assms(1) by (auto simp: expandField_def bindR_eq_Inr)
  have "mapR (expand_part mn mx original) parts = Inr xss \<Longrightarrow> xs \<in> set xss \<Longrightarrow> within mn mx xs" for parts xss xs
    by (induction parts arbitrary: xss) (auto simp: bindR_eq_Inr dest: expand_part_within)
  moreover have "vss \<noteq> []"
    using mapR_Inr_length [OF vss(1)] by (cases vss) auto
  ultimately show ?thesis
    unfolding vss(2) using vss(1) by (intro within_concat)
qed (use assms in \<open>auto simp: within_def expandField_def simp del: upt_Suc\<close>)

definition fields_in_range :: "CronFields \<Rightarrow> bool" where
  "fields_in_range f =
     (set (minute f) \<subseteq> {0..59} \<and> set (hour f) \<subseteq> {0..23} \<and> set (dayOfMonth f) \<subseteq> {1..31}
      \<and> set (month f) \<subseteq> {1..12} \<and> set (dayOfWeek f) \<subseteq> {0..6}
      \<and> minute f \<noteq> [] \<and> hour f \<noteq> [] \<and> month f \<noteq> [])"

text \<open>What the local runtime schedules: an interval of at least a minute, or fields in range.\<close>

definition schedule_in_range :: "ParsedSchedule \<Rightarrow> bool" where
  "schedule_in_range s = (case s of RateSchedule ms \<Rightarrow> 60000 \<le> ms | CronSchedule f \<Rightarrow> fields_in_range f)"

lemma parseRate_minute: "parseRate m expr = Inr ms \<Longrightarrow> 60000 \<le> ms"
  by (auto simp: parseRate_def Let_def obj_get_def split: if_splits)

lemma parseCronFields_range:
  assumes "parseCronFields body original = Inr f"
  shows "fields_in_range f"
proof -
  obtain mi h dom mo dow where parts: "expandField (cron_parts body ! 0) 0 59 original = Inr mi"
      "expandField (cron_parts body ! 1) 0 23 original = Inr h"
      "dom = [] \<or> expandField (cron_parts body ! 2) 1 31 original = Inr dom"
      "expandMonth (cron_parts body ! 3) original = Inr mo"
      "dow = [] \<or> expandDow (cron_parts body ! 4) original = Inr dow"
      "f = \<lparr>minute = mi, hour = h, dayOfMonth = dom, month = mo, dayOfWeek = dow\<rparr>"
    using assms by (auto simp: parseCronFields_def Let_def bindR_eq_Inr split: if_splits)
  have "set dow \<subseteq> {0..6}"
    using parts(5) by (auto simp: expandDow_def bindR_eq_Inr)
  moreover have "set dom \<subseteq> {1..31}"
    using parts(3) expandField_within [of _ 1 31 original dom] by (auto simp: within_def)
  ultimately show ?thesis
    using expandField_within [OF parts(1)] expandField_within [OF parts(2)]
      expandField_within [OF parts(4) [unfolded expandMonth_def]]
    unfolding parts(6) fields_in_range_def by (simp add: within_def)
qed

lemma parse_in_range: "parseScheduleForMock expr = Inr s \<Longrightarrow> schedule_in_range s"
proof -
  assume "parseScheduleForMock expr = Inr s"
  then have "parseSchedule expr = Inr s"
    by (auto simp: parseScheduleForMock_def split: sum.splits option.splits)
  then show ?thesis
    by (auto simp: parseSchedule_def bindR_eq_Inr schedule_in_range_def parseRate_minute parseCronFields_range
        split: option.splits)
qed

lemma cron_fields_bounded_fields: "parseScheduleForMock expr = Inr (CronSchedule cf) \<Longrightarrow> fields_in_range cf"
  by (drule parse_in_range) (simp add: schedule_in_range_def)

text \<open>an expression the local runtime accepts gives an interval of at least one minute, or lists
  of field values each within its range, with at least one minute, hour and month.\<close>

theorem cron_fields_bounded:
  assumes "parseScheduleForMock expr = Inr s"
  shows "schedule_in_range s"
  using assms by (rule parse_in_range)

theorem cron_fields_bounded_witness:
  "schedule_in_range (CronSchedule \<lparr>minute = [0, 20, 40], hour = [9], dayOfMonth = [], month = [1, 2, 3], dayOfWeek = [1, 0]\<rparr>)"
  by (rule cron_fields_bounded [of "''cron(*/20 9 ? JAN-3 mon,SUN 2030)''"]) code_simp

section \<open>The check at synthesis and the local runtime\<close>

lemma rate_no_cron: "rate_match expr = Some m \<Longrightarrow> cron_match expr = None"
  by (auto simp: rate_match_def cron_match_def starts_with_iff split: if_splits)

text \<open>What the check at synthesis rejects, the local runtime rejects with the same error; so
  nothing that runs locally, or is reported as merely not simulated, fails the check.\<close>

theorem gate_rejects_locally:
  assumes "validateSchedule expr = Inl e"
  shows "parseScheduleForMock expr = Inl e"
proof (cases "rate_match expr")
  case (Some m)
  then have "parseSchedule expr = Inl e" "normalizeUnsupportedCron expr = None"
    using assms rate_no_cron [OF Some]
    by (auto simp: validateSchedule_def parseSchedule_def normalizeUnsupportedCron_def bindR_eq_Inl)
  then show ?thesis
    by (simp add: parseScheduleForMock_def)
next
  case None
  then have "parseSchedule expr = Inl e" "normalizeUnsupportedCron expr = None"
    using assms
    by (auto simp: validateSchedule_def parseSchedule_def normalizeUnsupportedCron_def parseCronFields_def Let_def
        split: option.splits if_splits)
  then show ?thesis
    by (simp add: parseScheduleForMock_def)
qed

theorem gate_rejects_locally_witness:
  "parseScheduleForMock ''rate(10 seconds)'' = Inl (scheduleError ''rate(10 seconds)'')"
  by (rule gate_rejects_locally) code_simp

section \<open>Writing a field and reading it back\<close>

text \<open>The elements a field may list, as the documentation of the schedule describes them.\<close>

datatype field_part = One nat | Span nat nat | SpanStep nat nat nat | FromStep nat nat | AllStep nat

fun show_part :: "field_part \<Rightarrow> string" where
  "show_part (One n) = show_nat n"
| "show_part (Span a b) = show_nat a @ CHR ''-'' # show_nat b"
| "show_part (SpanStep a b s) = (show_nat a @ CHR ''-'' # show_nat b) @ CHR ''/'' # show_nat s"
| "show_part (FromStep a s) = show_nat a @ CHR ''/'' # show_nat s"
| "show_part (AllStep s) = ''*'' @ CHR ''/'' # show_nat s"

fun part_values :: "nat \<Rightarrow> nat \<Rightarrow> field_part \<Rightarrow> nat set" where
  "part_values mn mx (One n) = {n}"
| "part_values mn mx (Span a b) = {a..b}"
| "part_values mn mx (SpanStep a b s) = {v. v \<le> b \<and> (\<exists>k. v = a + k * s)}"
| "part_values mn mx (FromStep a s) = {v. v \<le> mx \<and> (\<exists>k. v = a + k * s)}"
| "part_values mn mx (AllStep s) = {v. v \<le> mx \<and> (\<exists>k. v = mn + k * s)}"

fun part_ok :: "nat \<Rightarrow> nat \<Rightarrow> field_part \<Rightarrow> bool" where
  "part_ok mn mx (One n) = (mn \<le> n \<and> n \<le> mx)"
| "part_ok mn mx (Span a b) = (mn \<le> a \<and> a \<le> b \<and> b \<le> mx)"
| "part_ok mn mx (SpanStep a b s) = (mn \<le> a \<and> a \<le> b \<and> b \<le> mx \<and> 0 < s)"
| "part_ok mn mx (FromStep a s) = (mn \<le> a \<and> a \<le> mx \<and> 0 < s)"
| "part_ok mn mx (AllStep s) = (mn \<le> mx \<and> 0 < s)"

lemma show_nat_only_digits: "\<not> is_digit c \<Longrightarrow> c \<notin> set (show_nat n)"
  using show_nat_digits [of n] by auto

lemma show_nat_no_sep [simp]:
  "CHR '','' \<notin> set (show_nat n)" "CHR ''-'' \<notin> set (show_nat n)" "CHR ''/'' \<notin> set (show_nat n)"
  "CHR ''*'' \<notin> set (show_nat n)"
  by (rule show_nat_only_digits, simp add: is_digit_def char_code_def)+

lemma toInt_show [simp]: "toInt (show_nat n) = Some n"
  using show_nat_digits [of n] by (simp add: toInt_def list_all_iff)

lemma show_nat_not_star [simp]: "show_nat n @ s \<noteq> CHR ''*'' # t" "show_nat n \<noteq> CHR ''*'' # t"
  using show_nat_no_sep(4) [of n] show_nat_nonempty [of n] by (cases "show_nat n"; auto)+

lemma set_steps_from: "0 < step \<Longrightarrow> set (steps_from lo hi step) = {v. v \<le> hi \<and> (\<exists>k. v = lo + k * step)}"
  by (auto simp: steps_from_mem)

lemma expand_part_reads:
  "mn \<le> n \<Longrightarrow> n \<le> mx \<Longrightarrow> expand_part mn mx original (show_nat n) = Inr [n]"
  "mn \<le> a \<Longrightarrow> a \<le> b \<Longrightarrow> b \<le> mx
   \<Longrightarrow> expand_part mn mx original (show_nat a @ CHR ''-'' # show_nat b) = Inr (steps_from a b 1)"
  "mn \<le> a \<Longrightarrow> a \<le> b \<Longrightarrow> b \<le> mx \<Longrightarrow> 0 < s
   \<Longrightarrow> expand_part mn mx original (show_nat a @ CHR ''-'' # show_nat b @ CHR ''/'' # show_nat s) = Inr (steps_from a b s)"
  "mn \<le> a \<Longrightarrow> a \<le> mx \<Longrightarrow> 0 < s
   \<Longrightarrow> expand_part mn mx original (show_nat a @ CHR ''/'' # show_nat s) = Inr (steps_from a mx s)"
  "mn \<le> mx \<Longrightarrow> 0 < s \<Longrightarrow> expand_part mn mx original (CHR ''*'' # CHR ''/'' # show_nat s) = Inr (steps_from mn mx s)"
  using split_on_sep [of "CHR ''/''" "show_nat a @ CHR ''-'' # show_nat b" "show_nat s"]
    split_on_sep [of "CHR ''/''" "''*''" "show_nat s"]
  by (simp_all add: expand_part_def in_bounds_iff Let_def split_on_sep split_on_no_sep)

lemma expand_part_show:
  assumes "part_ok mn mx p"
  shows "\<exists>vs. expand_part mn mx original (show_part p) = Inr vs \<and> set vs = part_values mn mx p"
proof (cases p)
  case (Span a b)
  have "set (steps_from a b 1) = {a..b}"
    by (auto simp: steps_from_mem) presburger
  then show ?thesis
    using assms Span by (simp add: expand_part_reads)
qed (use assms in \<open>simp_all add: expand_part_reads set_steps_from\<close>)

text \<open>C40: a field written as a comma list of values, spans and stepped spans within the range reads
  back as exactly the values they denote; a stepped span stops at its own upper end.\<close>

theorem cron_field_roundtrip:
  assumes "ps \<noteq> []" and "\<forall>p \<in> set ps. part_ok mn mx p"
  shows "\<exists>vs. expandField (join '','' (map show_part ps)) mn mx original = Inr vs
              \<and> set vs = (\<Union>p \<in> set ps. part_values mn mx p)"
proof -
  have pieces: "split_on CHR '','' (join '','' (map show_part ps)) = map show_part ps"
  proof (rule split_on_join)
    fix s assume "s \<in> set (map show_part ps)"
    then obtain p where "s = show_part p" by auto
    then show "CHR '','' \<notin> set s" by (cases p) auto
  qed (use assms in simp)
  have "\<exists>vss. mapR (expand_part mn mx original) (map show_part qs) = Inr vss
          \<and> set (concat vss) = (\<Union>p \<in> set qs. part_values mn mx p)" if "\<forall>p \<in> set qs. part_ok mn mx p" for qs
    using that
  proof (induction qs)
    case (Cons q qs)
    then show ?case
      using expand_part_show [of mn mx q original] by fastforce
  qed simp
  from this [OF assms(2)] obtain vss where vss: "mapR (expand_part mn mx original) (map show_part ps) = Inr vss"
      "set (concat vss) = (\<Union>p \<in> set ps. part_values mn mx p)"
    by blast
  have "join '','' (map show_part ps) \<noteq> ''*''"
  proof
    assume star: "join '','' (map show_part ps) = ''*''"
    then have "map show_part ps = [''*'']"
      using pieces by simp
    then obtain p where "show_part p = ''*''"
      by auto
    then show False
      by (cases p) (auto simp: Cons_eq_append_conv)
  qed
  then show ?thesis
    using vss pieces by (simp add: expandField_def)
qed

theorem cron_field_roundtrip_witness:
  "\<exists>vs. expandField ''5-20/7,58'' 0 59 ''x'' = Inr vs \<and> set vs = {v. v \<le> 20 \<and> (\<exists>k. v = 5 + k * 7)} \<union> {58}"
proof -
  have "join '','' (map show_part [SpanStep 5 20 7, One 58]) = ''5-20/7,58''"
    by code_simp
  then show ?thesis
    using cron_field_roundtrip [of "[SpanStep 5 20 7, One 58]" 0 59 "''x''"] by simp
qed

section \<open>Where the local runtime departs from its documents\<close>

lemma expand_part_original: "expand_part mn mx o1 part = Inr vs \<Longrightarrow> expand_part mn mx o2 part = Inr vs"
  by (auto simp: expand_part_def Let_def split: if_splits option.splits)

lemma expandField_original:
  assumes "expandField field mn mx o1 = Inr vs"
  shows "expandField field mn mx o2 = Inr vs"
proof -
  have "mapR (expand_part mn mx o1) parts = Inr vss \<Longrightarrow> mapR (expand_part mn mx o2) parts = Inr vss" for parts vss
    by (auto simp: mapR_Inr_iff elim!: list_all2_mono intro: expand_part_original)
  then show ?thesis
    using assms by (auto simp: expandField_def bindR_eq_Inr split: if_splits simp del: upt_Suc)
qed

lemma parseCronFields_original:
  assumes "parseCronFields body o1 = Inr f" "take 5 (cron_parts body) = take 5 (cron_parts body')"
    "length (cron_parts body') = 6"
  shows "parseCronFields body' o2 = Inr f"
proof -
  have same: "cron_parts body' ! i = cron_parts body ! i" if "i < 5" for i
    using assms(2) that by (metis nth_take)
  note re = expandField_original [where ?o1.0 = o1 and ?o2.0 = o2]
  show ?thesis
    using assms(1,3) by (auto simp: parseCronFields_def Let_def bindR_eq_Inr expandMonth_def expandDow_def same
        split: if_splits intro!: exI conjI intro: re)
qed

text \<open>the year field never decides anything: of two cron expressions with the same five other
  fields the local runtime accepts both, with the same schedule, or neither, so a year in the past or
  a word that is no year is accepted and the job fires every year.\<close>

theorem cron_year_ignored:
  assumes "cron_match expr = Some body" and "cron_match expr' = Some body'"
    and "cron_parts body = fs @ [year]" and "cron_parts body' = fs @ [year']" and "length fs = 5"
    and "parseScheduleForMock expr = Inr s"
  shows "parseScheduleForMock expr' = Inr s"
proof -
  have cron: "rate_match expr = None" "rate_match expr' = None"
    using rate_no_cron assms(1,2) by (metis not_Some_eq)+
  obtain f where f: "parseCronFields body expr = Inr f" "s = CronSchedule f"
    using assms(1,6) cron
    by (auto simp: parseScheduleForMock_def parseSchedule_def bindR_eq_Inr split: sum.splits option.splits)
  have "parseCronFields body' expr' = Inr f"
    by (rule parseCronFields_original [OF f(1)]) (use assms(3-5) in simp_all)
  then show ?thesis
    using assms(2) cron f(2) by (simp add: parseScheduleForMock_def parseSchedule_def)
qed

theorem cron_year_ignored_witness:
  "\<exists>s. parseScheduleForMock ''cron(0 9 * * ? 1999)'' = Inr s \<and> parseScheduleForMock ''cron(0 9 * * ? soon)'' = Inr s"
proof -
  obtain s where s: "parseScheduleForMock ''cron(0 9 * * ? 1999)'' = Inr s"
  proof -
    have "\<not> isl (parseScheduleForMock ''cron(0 9 * * ? 1999)'')"
      by code_simp
    then show ?thesis
      using that by (cases "parseScheduleForMock ''cron(0 9 * * ? 1999)''") auto
  qed
  have "parseScheduleForMock ''cron(0 9 * * ? soon)'' = Inr s"
    by (rule cron_year_ignored [OF _ _ _ _ _ s, of "''0 9 * * ? 1999''" _ "''0 9 * * ? soon''"
          "[''0'', ''9'', ''*'', ''*'', ''?'']" "''1999''" "''soon''"]) code_simp+
  then show ?thesis
    using s by blast
qed

text \<open>A day-of-week field that names Wednesday is taken for an advanced form: with a value that is
  out of range it is reported as a schedule that will deploy, not as an invalid one.\<close>

theorem cron_wed_misreported:
  "parseScheduleForMock ''cron(0 9 ? * WED-99 *)'' = Inl (not_supported_error ''cron(0 9 ? * WED-99 *)'')"
  by code_simp

end
