(* ===== verification/CronJob.thy ===== *)
theory CronJob
  imports CronSchedule
begin

text \<open>
  \<^verbatim>\<open>packages/bb-cron-job/src/index.mock.ts\<close>: when the local runtime fires a scheduled
  job.  Times are milliseconds since the epoch.  \<open>Intl\<close> is a parameter: whether it knows a time
  zone, and the parts it formats an instant into.  Timers run exactly when they are due, so the life
  of a job is the sequence of its timer callbacks.
\<close>

text \<open>What \<open>getComponents\<close> returns; \<open>None\<close> is \<open>NaN\<close>, and the month counts from 0.\<close>

record components =
  c_minute :: "int option"
  c_hour :: "int option"
  c_day :: "int option"
  c_month :: "int option"
  c_dow :: "int option"

record intl =
  intl_knows :: "string \<Rightarrow> bool"
  intl_parts :: "string \<Rightarrow> int \<Rightarrow> (string \<times> string) list"

definition utc_components :: "int \<Rightarrow> components" where
  "utc_components ms =
     (case utc_date ms of (y, m, d) \<Rightarrow>
        \<lparr>c_minute = Some (ms div 60000 mod 60), c_hour = Some (ms div 3600000 mod 24), c_day = Some d,
         c_month = Some (int m), c_dow = Some ((ms div 86400000 + 4) mod 7)\<rparr>)"

text \<open>\<open>parseInt(s, 10)\<close> on what a formatter writes: digits first, if any.\<close>

definition leading_int :: "string \<Rightarrow> int option" where
  "leading_int s = (if takeWhile is_digit s = [] then None else Some (int (read_nat (takeWhile is_digit s))))"

definition dowMap :: "(string \<times> int) list" where
  "dowMap = [(''Sun'', 0), (''Mon'', 1), (''Tue'', 2), (''Wed'', 3), (''Thu'', 4), (''Fri'', 5), (''Sat'', 6)]"

definition zone_components :: "(string \<times> string) list \<Rightarrow> components" where
  "zone_components parts =
     (let get = (\<lambda>type. leading_int (opt_or (obj_get parts type) ''0''));
          dowStr = opt_or (obj_get parts ''weekday'') ''Sun''
      in \<lparr>c_minute = get ''minute'', c_hour = get ''hour'', c_day = get ''day'',
          c_month = map_option (\<lambda>m. m - 1) (get ''month''), c_dow = Some (opt_or (obj_get dowMap dowStr) 0)\<rparr>)"

definition getComponents :: "intl \<Rightarrow> string option \<Rightarrow> int \<Rightarrow> components" where
  "getComponents intl timezone ms =
     (case timezone of None \<Rightarrow> utc_components ms
      | Some tz \<Rightarrow> if tz = [] then utc_components ms else zone_components (intl_parts intl tz ms))"

text \<open>\<open>list.includes(v)\<close>.\<close>

definition lists :: "nat list \<Rightarrow> int option \<Rightarrow> bool" where
  "lists vs v = (case v of None \<Rightarrow> False | Some n \<Rightarrow> n \<in> set (map int vs))"

definition matches :: "CronFields \<Rightarrow> components \<Rightarrow> bool" where
  "matches cf c =
     (lists (minute cf) (c_minute c) \<and> lists (hour cf) (c_hour c)
      \<and> lists (month cf) (map_option (\<lambda>m. m + 1) (c_month c))
      \<and> (dayOfMonth cf = [] \<or> lists (dayOfMonth cf) (c_day c))
      \<and> (dayOfWeek cf = [] \<or> lists (dayOfWeek cf) (c_dow c)))"

text \<open>At most \<open>n\<close> minutes from the candidate on.\<close>

function search_minutes :: "(int \<Rightarrow> components) \<Rightarrow> CronFields \<Rightarrow> int \<Rightarrow> int \<Rightarrow> int option" where
  "search_minutes clock cf n candidate =
     (if n \<le> 0 then None
      else if matches cf (clock candidate) then Some candidate
      else search_minutes clock cf (n - 1) (candidate + 60000))"
  by auto
termination by (relation "measure (\<lambda>(clock, cf, n, candidate). nat n)") auto

declare search_minutes.simps [simp del]

definition MINUTES_PER_YEAR :: int where
  "MINUTES_PER_YEAR = 525600"

text \<open>\<open>setSeconds(0, 0)\<close>: every offset of local time is a whole number of minutes.\<close>

definition nextCronTime :: "(int \<Rightarrow> components) \<Rightarrow> CronFields \<Rightarrow> int \<Rightarrow> int option" where
  "nextCronTime clock cf after =
     search_minutes clock cf MINUTES_PER_YEAR ((after + 60000) div 60000 * 60000)"

definition MAX_DAYS_IN_MONTH :: "nat list" where
  "MAX_DAYS_IN_MONTH = [31, 29, 31, 30, 31, 30, 31, 31, 30, 31, 30, 31]"

definition canNeverMatch :: "CronFields \<Rightarrow> bool" where
  "canNeverMatch cf =
     (dayOfMonth cf \<noteq> []
      \<and> \<not> (\<exists>m \<in> set (month cf). \<exists>d \<in> set (dayOfMonth cf).
             m - 1 < length MAX_DAYS_IN_MONTH \<and> d \<le> MAX_DAYS_IN_MONTH ! (m - 1)))"

definition MAX_TIMEOUT_MS :: int where
  "MAX_TIMEOUT_MS = 2147483647"

text \<open>What \<open>_scheduleCronTick\<close> logs and the timer it sets: another tick, or a firing followed by one.\<close>

datatype notice = NeverMatches | NoneWithinYear | NextFire int

datatype timer = TickAfter int | FireAfter int

definition scheduleCronTick :: "(int \<Rightarrow> components) \<Rightarrow> CronFields \<Rightarrow> int \<Rightarrow> notice \<times> timer" where
  "scheduleCronTick clock cf now =
     (case nextCronTime clock cf now of
        None \<Rightarrow> (if canNeverMatch cf then NeverMatches else NoneWithinYear, TickAfter MAX_TIMEOUT_MS)
      | Some next_time \<Rightarrow>
          (let delayMs = next_time - now in
           (NextFire next_time,
            if delayMs > MAX_TIMEOUT_MS then TickAfter MAX_TIMEOUT_MS else FireAfter (max delayMs 1000))))"

text \<open>The constructor: what it starts.\<close>

datatype started = Disabled | EveryMs nat | CronTicks CronFields

record CronJobOptions =
  job_schedule :: string
  job_timezone :: "string option"
  job_enabled :: "bool option"

definition validateTimezone :: "intl \<Rightarrow> string \<Rightarrow> (thrown, unit) res" where
  "validateTimezone intl tz =
     (if intl_knows intl tz then Inr ()
      else Inl (blocksError ''InvalidTimezoneExpression'' (dq tz @ '' is not a valid IANA timezone'')))"

definition new_CronJob :: "intl \<Rightarrow> CronJobOptions \<Rightarrow> (thrown, started) res" where
  "new_CronJob intl options =
     bindR (case job_timezone options of
              None \<Rightarrow> Inr ()
            | Some tz \<Rightarrow> if tz = [] then Inr () else validateTimezone intl tz) (\<lambda>_.
     bindR (parseScheduleForMock (job_schedule options)) (\<lambda>schedule.
       Inr (if job_enabled options = Some False then Disabled
            else case schedule of RateSchedule ms \<Rightarrow> EveryMs ms | CronSchedule cf \<Rightarrow> CronTicks cf)))"

text \<open>The firings of \<open>n\<close> timer callbacks in a row, and the time of the last.\<close>

fun cron_run :: "(int \<Rightarrow> components) \<Rightarrow> CronFields \<Rightarrow> nat \<Rightarrow> int \<Rightarrow> int list \<times> int" where
  "cron_run clock cf 0 now = ([], now)"
| "cron_run clock cf (Suc n) now =
     (case snd (scheduleCronTick clock cf now) of
        TickAfter d \<Rightarrow> cron_run clock cf n (now + d)
      | FireAfter d \<Rightarrow> apfst (Cons (now + d)) (cron_run clock cf n (now + d)))"

section \<open>One tick\<close>

abbreviation minute_matches :: "(int \<Rightarrow> components) \<Rightarrow> CronFields \<Rightarrow> int \<Rightarrow> bool" where
  "minute_matches clock cf m \<equiv> matches cf (clock (m * 60000))"

lemma search_minutes_Some:
  "search_minutes clock cf n (a * 60000) = Some t \<Longrightarrow>
   \<exists>m \<ge> a. t = m * 60000 \<and> minute_matches clock cf m \<and> (\<forall>k. a \<le> k \<and> k < m \<longrightarrow> \<not> minute_matches clock cf k)"
proof (induction "nat n" arbitrary: n a)
  case 0
  then show ?case
    by (subst (asm) search_minutes.simps) simp
next
  case (Suc j)
  show ?case
  proof (cases "minute_matches clock cf a")
    case True
    then show ?thesis
      using Suc.prems Suc.hyps(2) by (subst (asm) search_minutes.simps) (auto split: if_splits)
  next
    case False
    then have "search_minutes clock cf (n - 1) ((a + 1) * 60000) = Some t"
      using Suc.prems Suc.hyps(2) by (subst (asm) search_minutes.simps) (simp add: algebra_simps split: if_splits)
    moreover have "j = nat (n - 1)"
      using Suc.hyps(2) by simp
    ultimately obtain m where m: "a + 1 \<le> m" "t = m * 60000" "minute_matches clock cf m"
        "\<forall>k. a + 1 \<le> k \<and> k < m \<longrightarrow> \<not> minute_matches clock cf k"
      using Suc.hyps(1) [of "n - 1" "a + 1"] by blast
    have "\<not> minute_matches clock cf k" if "a \<le> k" "k < m" for k
      using m(4) False that by (cases "k = a") auto
    then show ?thesis
      using m by (intro exI [of _ m]) simp
  qed
qed

lemma search_minutes_None:
  "search_minutes clock cf n (a * 60000) = None \<Longrightarrow> a \<le> k \<Longrightarrow> k < a + n \<Longrightarrow> \<not> minute_matches clock cf k"
proof (induction "nat n" arbitrary: n a)
  case (Suc j)
  have "search_minutes clock cf (n - 1) ((a + 1) * 60000) = None" "\<not> minute_matches clock cf a"
    using Suc.prems(1) Suc.hyps(2)
    by (subst (asm) search_minutes.simps, simp add: algebra_simps split: if_splits)+
  then show ?case
    using Suc.hyps(1) [of "n - 1" "a + 1"] Suc.hyps(2) Suc.prems(2,3) by (cases "k = a") auto
qed simp

lemma next_minute: "(now + 60000) div 60000 = now div 60000 + (1 :: int)"
  by simp

lemma nextCronTime_None: "nextCronTime clock cf now = None \<Longrightarrow> now div 60000 < k
  \<Longrightarrow> k \<le> now div 60000 + MINUTES_PER_YEAR \<Longrightarrow> \<not> minute_matches clock cf k"
  unfolding nextCronTime_def next_minute by (erule search_minutes_None) simp_all

lemma nextCronTime_Some:
  assumes "nextCronTime clock cf now = Some t"
  obtains m where "now div 60000 < m" "t = m * 60000" "minute_matches clock cf m"
    "\<And>k. now div 60000 < k \<Longrightarrow> k < m \<Longrightarrow> \<not> minute_matches clock cf k"
proof -
  obtain m where m: "now div 60000 + 1 \<le> m" "t = m * 60000" "minute_matches clock cf m"
      "\<forall>k. now div 60000 + 1 \<le> k \<and> k < m \<longrightarrow> \<not> minute_matches clock cf k"
    using search_minutes_Some [OF assms [unfolded nextCronTime_def next_minute]] by blast
  show ?thesis
    by (rule that [of m]) (use m in simp_all)
qed

text \<open>A tick advances the clock by at least a second, passes over no match and fires within its minute.\<close>

lemma tick_after:
  assumes "snd (scheduleCronTick clock cf now) = TickAfter d"
  shows "1000 \<le> d" and "now div 60000 < k \<Longrightarrow> k \<le> (now + d) div 60000 \<Longrightarrow> \<not> minute_matches clock cf k"
proof -
  have d: "d = MAX_TIMEOUT_MS"
    using assms by (auto simp: scheduleCronTick_def Let_def split: option.splits if_splits)
  then show "1000 \<le> d"
    by (simp add: MAX_TIMEOUT_MS_def)
  assume k: "now div 60000 < k" "k \<le> (now + d) div 60000"
  show "\<not> minute_matches clock cf k"
  proof (cases "nextCronTime clock cf now")
    case None
    have "k \<le> now div 60000 + MINUTES_PER_YEAR"
      using k(2) unfolding d MAX_TIMEOUT_MS_def MINUTES_PER_YEAR_def by simp
    with None k(1) show ?thesis
      by (rule nextCronTime_None)
  next
    case (Some t)
    then obtain m where m: "t = m * 60000" "\<And>k. now div 60000 < k \<Longrightarrow> k < m \<Longrightarrow> \<not> minute_matches clock cf k"
      by (rule nextCronTime_Some) blast
    have "now + d < m * 60000"
      using assms Some m(1) by (auto simp: scheduleCronTick_def Let_def d split: if_splits)
    then have "k < m"
      using k(2) by linarith
    then show ?thesis
      using m(2) k(1) by simp
  qed
qed

lemma fire_after:
  assumes "snd (scheduleCronTick clock cf now) = FireAfter d"
  shows "1000 \<le> d" and "now div 60000 < (now + d) div 60000" and "minute_matches clock cf ((now + d) div 60000)"
    and "now div 60000 < k \<Longrightarrow> k < (now + d) div 60000 \<Longrightarrow> \<not> minute_matches clock cf k"
proof -
  obtain t where t: "nextCronTime clock cf now = Some t" "d = max (t - now) 1000"
    using assms by (auto simp: scheduleCronTick_def Let_def split: option.splits if_splits)
  obtain m where m: "now div 60000 < m" "t = m * 60000" "minute_matches clock cf m"
      "\<And>k. now div 60000 < k \<Longrightarrow> k < m \<Longrightarrow> \<not> minute_matches clock cf k"
    using t(1) by (rule nextCronTime_Some) blast
  have "now < t"
    using m(1,2) by linarith
  then have fire: "(now + d) div 60000 = m"
    unfolding t(2) m(2) by linarith
  show "1000 \<le> d"
    using t(2) by simp
  show "now div 60000 < (now + d) div 60000" "minute_matches clock cf ((now + d) div 60000)"
    using fire m by simp_all
  show "now div 60000 < k \<Longrightarrow> k < (now + d) div 60000 \<Longrightarrow> \<not> minute_matches clock cf k"
    using fire m(4) by simp
qed

section \<open>The life of a job\<close>

lemma cron_run_advances:
  "cron_run clock cf n now = (fires, reached) \<Longrightarrow> now + 1000 * int n \<le> reached"
proof (induction n arbitrary: now fires)
  case (Suc n)
  then show ?case
    using tick_after(1) fire_after(1) Suc.IH
    by (fastforce simp: apfst_def map_prod_def split: timer.splits prod.splits)
qed simp

lemma cron_run_fires:
  "cron_run clock cf n now = (fires, reached) \<Longrightarrow>
   map (\<lambda>t. t div 60000) fires = filter (minute_matches clock cf) [now div 60000 + 1..reached div 60000]"
proof (induction n arbitrary: now fires)
  case (Suc n)
  let ?P = "minute_matches clock cf"
  show ?case
  proof (cases "snd (scheduleCronTick clock cf now)")
    case (TickAfter d)
    then have run: "cron_run clock cf n (now + d) = (fires, reached)"
      using Suc.prems by simp
    let ?a = "now div 60000" and ?b = "(now + d) div 60000" and ?c = "reached div 60000"
    have "?a \<le> ?b" "?b \<le> ?c"
      using tick_after(1) [OF TickAfter] cron_run_advances [OF run] by linarith+
    then have "[?a + 1..?c] = [?a + 1..?b] @ [?b + 1..?c]"
      using upto_split1 [of "?a + 1" "?b + 1" ?c] by (cases "?b = ?c") auto
    moreover have "filter ?P [?a + 1..?b] = []"
      using tick_after(2) [OF TickAfter] by (auto simp: filter_empty_conv)
    ultimately show ?thesis
      using Suc.IH [OF run] by simp
  next
    case (FireAfter d)
    obtain later where run: "cron_run clock cf n (now + d) = (later, reached)" "fires = (now + d) # later"
      using Suc.prems FireAfter by (cases "cron_run clock cf n (now + d)") auto
    let ?a = "now div 60000" and ?b = "(now + d) div 60000" and ?c = "reached div 60000"
    have le: "?a < ?b" "?b \<le> ?c"
      using fire_after(2) [OF FireAfter] cron_run_advances [OF run(1)] by linarith+
    then have "[?a + 1..?c] = [?a + 1..?b - 1] @ [?b] @ [?b + 1..?c]"
      using upto_split1 [of "?a + 1" ?b ?c] upto_rec1 [of ?b ?c] by simp
    moreover have "filter ?P [?a + 1..?b - 1] = []"
      using fire_after(4) [OF FireAfter] by (auto simp: filter_empty_conv)
    ultimately show ?thesis
      using Suc.IH [OF run(1)] fire_after(3) [OF FireAfter] run(2) by simp
  qed
qed simp

text \<open>C11: over any number of timer callbacks a job fires once in every minute its schedule matches
  after the start, in order, and in no other minute, however far away the next match is.\<close>

theorem cron_fires_exactly:
  assumes "cron_run clock cf n now = (fires, reached)"
  shows "map (\<lambda>t. t div 60000) fires = filter (minute_matches clock cf) [now div 60000 + 1..reached div 60000]"
  using assms by (rule cron_run_fires)

text \<open>Every day of July at nine, started on the second of July 2025 at 8:59:30.5 UTC.\<close>

definition demo_fields :: CronFields where
  "demo_fields = \<lparr>minute = [0, 1], hour = [9], dayOfMonth = [], month = [7], dayOfWeek = []\<rparr>"

lemma demo_cron_run: "cron_run utc_components demo_fields 2 1751446770500 = ([1751446800000, 1751446860000], 1751446860000)"
  by code_simp

theorem cron_fires_exactly_witness:
  "map (\<lambda>t. t div 60000) [1751446800000, 1751446860000]
   = filter (minute_matches utc_components demo_fields) [1751446770500 div 60000 + 1..1751446860000 div 60000]"
  by (rule cron_fires_exactly [OF demo_cron_run])

text \<open>no match is put off for ever: every matching minute after the start is among the firings of
  enough timer callbacks.\<close>

theorem cron_every_match_fires:
  assumes "minute_matches clock cf m" and "now div 60000 < m"
  shows "\<exists>n. m \<in> (\<lambda>t. t div 60000) ` set (fst (cron_run clock cf n now))"
proof -
  define n where "n = nat ((m * 60000 - now) div 1000 + 1)"
  obtain fires reached where run: "cron_run clock cf n now = (fires, reached)"
    by fastforce
  have "m * 60000 \<le> now + 1000 * int n"
    using assms(2) unfolding n_def by linarith
  then have "m \<le> reached div 60000"
    using cron_run_advances [OF run] by linarith
  then have "m \<in> set (map (\<lambda>t. t div 60000) fires)"
    unfolding cron_run_fires [OF run] using assms by simp
  then show ?thesis
    using run by (intro exI [of _ n]) simp
qed

theorem cron_every_match_fires_witness:
  "\<exists>n. 29190780 \<in> (\<lambda>t. t div 60000) ` set (fst (cron_run utc_components demo_fields n 1751446770500))"
  by (rule cron_every_match_fires) code_simp+

section \<open>Schedules that match no date\<close>

lemma month_length_max: "m < 12 \<Longrightarrow> month_length y m \<le> int (MAX_DAYS_IN_MONTH ! m)"
  unfolding less_12 month_length_def month_start_def month_starts_def MAX_DAYS_IN_MONTH_def
  by (cases "leap_year y") (elim insertE emptyE; simp)+

lemma canNeverMatch_sound:
  assumes never: "canNeverMatch cf"
  shows "\<not> matches cf (utc_components ms)"
proof
  assume match: "matches cf (utc_components ms)"
  obtain y m d where date: "utc_date ms = (y, m, d)"
    using prod_cases3 by blast
  have valid: "m < 12" "1 \<le> d" "d \<le> month_length y m"
    using utc_date_valid [OF date] by (auto simp: valid_date_def)
  obtain m' d' where "m' \<in> set (month cf)" "int m' = int m + 1" "d' \<in> set (dayOfMonth cf)" "int d' = d"
    using match date never by (auto simp: matches_def utc_components_def canNeverMatch_def lists_def)
  moreover from this(2) have "m' - 1 = m"
    by simp
  moreover have "m < length MAX_DAYS_IN_MONTH"
    using valid(1) by (simp add: MAX_DAYS_IN_MONTH_def)
  moreover have "d' \<le> MAX_DAYS_IN_MONTH ! m"
    using month_length_max [OF valid(1), of y] valid(3) calculation(4) by linarith
  ultimately show False
    using never by (auto simp: canNeverMatch_def)
qed

text \<open>The warning that a schedule can never fire is only given for one that matches no instant.\<close>

theorem never_match_sound:
  assumes "fst (scheduleCronTick utc_components cf now) = NeverMatches"
  shows "\<not> matches cf (utc_components ms)"
  by (rule canNeverMatch_sound)
     (use assms in \<open>auto simp: scheduleCronTick_def Let_def split: option.splits if_splits\<close>)

definition demo_never :: CronFields where
  "demo_never = \<lparr>minute = [0], hour = [9], dayOfMonth = [30, 31], month = [2], dayOfWeek = []\<rparr>"

theorem never_match_sound_witness:
  "canNeverMatch demo_never \<and> \<not> matches demo_never (utc_components 1751446800000)"
proof -
  have never: "canNeverMatch demo_never"
    by code_simp
  have "nextCronTime utc_components demo_never 0 = None"
  proof (cases "nextCronTime utc_components demo_never 0")
    case (Some t)
    then show ?thesis
      by (rule nextCronTime_Some) (use canNeverMatch_sound [OF never] in blast)
  qed
  then have "fst (scheduleCronTick utc_components demo_never 0) = NeverMatches"
    using never by (simp add: scheduleCronTick_def)
  from never never_match_sound [OF this] show ?thesis
    by blast
qed

section \<open>Midnight in a time zone\<close>

text \<open>
  \<open>hour12: false\<close> does not fix how a formatter writes midnight: the edition of ECMA-402 that takes
  it as the cycle \<open>h24\<close> for this locale writes 24, and no schedule that parses lists that hour.
\<close>

lemma midnight_as_24_never_matches:
  assumes "parseScheduleForMock expr = Inr (CronSchedule cf)" and "obj_get (intl_parts intl tz ms) ''hour'' = Some ''24''"
    and "tz \<noteq> []"
  shows "\<not> matches cf (getComponents intl (Some tz) ms)"
proof -
  have "24 \<notin> set (hour cf)"
    using cron_fields_bounded_fields [OF assms(1)] by (auto simp: fields_in_range_def)
  moreover have "leading_int ''24'' = Some 24"
    by code_simp
  then have "c_hour (getComponents intl (Some tz) ms) = Some 24"
    using assms(2,3) by (simp add: getComponents_def zone_components_def Let_def)
  ultimately show ?thesis
    by (auto simp: matches_def lists_def)
qed

end
