(* ===== verification/FileSys.thy ===== *)
theory FileSys
  imports Errors "HOL-Library.AList"
begin

text \<open>
  The part of \<^verbatim>\<open>node:fs\<close> and \<^verbatim>\<open>node:path\<close> the local blocks use, over an explicit disk.
  A path is absolute and normalised: the list of its names from the root; a last name that is empty
  stands for a trailing slash.  A disk lists its entries, each a directory or a file with its bytes
  and modification time in milliseconds.  There are no symbolic links, no permissions and no limits of
  size or length, and a name is as good as any other: case is significant.  An error carries its code
  (\<open>ENOENT\<close>, \<open>EISDIR\<close>, ...) as its message, without the system call and the path.
\<close>

section \<open>Disks\<close>

datatype node = Dir | File (node_body: string) (node_mtime: int)

type_synonym fpath = "string list"
type_synonym disk = "(fpath \<times> node) list"
type_synonym 'a disk_io = "disk \<Rightarrow> disk \<times> (thrown, 'a) res"

definition entry :: "disk \<Rightarrow> fpath \<Rightarrow> node option" where
  "entry d p = (if p = [] then Some Dir else map_of d p)"

text \<open>A path with a trailing slash names a directory or nothing.\<close>

definition node_at :: "disk \<Rightarrow> fpath \<Rightarrow> node option" where
  "node_at d p =
     (if p \<noteq> [] \<and> last p = [] then (if entry d (butlast p) = Some Dir then Some Dir else None) else entry d p)"

definition dirname :: "fpath \<Rightarrow> fpath" where
  "dirname p = butlast p"

definition fs_error :: "string \<Rightarrow> thrown" where
  "fs_error errno = new_Error errno"

text \<open>A component on the way that is a file makes it \<open>ENOTDIR\<close>, else nothing is there.\<close>

definition absent :: "disk \<Rightarrow> fpath \<Rightarrow> thrown" where
  "absent d p =
     fs_error (if list_ex (\<lambda>q. case entry d q of Some (File _ _) \<Rightarrow> True | _ \<Rightarrow> False) (prefixes (butlast p))
               then ''ENOTDIR'' else ''ENOENT'')"

section \<open>Sequencing\<close>

definition retF :: "'a \<Rightarrow> 'a disk_io" where
  "retF a d = (d, Inr a)"

definition throwF :: "thrown \<Rightarrow> 'a disk_io" where
  "throwF e d = (d, Inl e)"

definition liftF :: "(thrown, 'a) res \<Rightarrow> 'a disk_io" where
  "liftF r d = (d, r)"

definition bindF :: "'a disk_io \<Rightarrow> ('a \<Rightarrow> 'b disk_io) \<Rightarrow> 'b disk_io" where
  "bindF m f d = (case m d of (d', Inl e) \<Rightarrow> (d', Inl e) | (d', Inr a) \<Rightarrow> f a d')"

text \<open>\<open>try { ... } catch {}\<close>.\<close>

definition tryF :: "unit disk_io \<Rightarrow> unit disk_io" where
  "tryF m d = (fst (m d), Inr ())"

definition readF :: "(disk \<Rightarrow> 'a) \<Rightarrow> 'a disk_io" where
  "readF g d = (d, Inr (g d))"

fun eachF :: "('a \<Rightarrow> unit disk_io) \<Rightarrow> 'a list \<Rightarrow> unit disk_io" where
  "eachF f [] = retF ()"
| "eachF f (x # xs) = bindF (f x) (\<lambda>_. eachF f xs)"

section \<open>Path arithmetic\<close>

fun norm_names :: "string list \<Rightarrow> string list \<Rightarrow> string list" where
  "norm_names st [] = st"
| "norm_names st (s # ss) =
     (if s = [] \<or> s = ''.'' then norm_names st ss
      else if s = ''..'' then norm_names (butlast st) ss
      else norm_names (st @ [s]) ss)"

text \<open>\<open>path.join(root, ...parts)\<close> and \<open>path.resolve(root, part)\<close>, for an absolute root.\<close>

definition path_join :: "fpath \<Rightarrow> string list \<Rightarrow> fpath" where
  "path_join root parts =
     (let s = join ''/'' (filter (\<lambda>a. a \<noteq> []) parts);
          p = norm_names root (split_on CHR ''/'' s)
      in if ends_with s ''/'' \<and> p \<noteq> [] then p @ [[]] else p)"

definition path_resolve :: "fpath \<Rightarrow> string \<Rightarrow> fpath" where
  "path_resolve root part = norm_names (if starts_with part ''/'' then [] else root) (split_on CHR ''/'' part)"

section \<open>Calls\<close>

definition existsSync :: "disk \<Rightarrow> fpath \<Rightarrow> bool" where
  "existsSync d p = (node_at d p \<noteq> None)"

definition readFileSync :: "fpath \<Rightarrow> string disk_io" where
  "readFileSync p d =
     (d, case node_at d p of
           None \<Rightarrow> Inl (absent d p)
         | Some Dir \<Rightarrow> Inl (fs_error ''EISDIR'')
         | Some (File b _) \<Rightarrow> Inr b)"

definition set_file :: "fpath \<Rightarrow> string \<Rightarrow> int \<Rightarrow> disk \<Rightarrow> disk" where
  "set_file p b t d = AList.update p (File b t) d"

definition writeFileSync :: "int \<Rightarrow> fpath \<Rightarrow> string \<Rightarrow> unit disk_io" where
  "writeFileSync now p b d =
     (case entry d p of
        Some Dir \<Rightarrow> (d, Inl (fs_error ''EISDIR''))
      | _ \<Rightarrow>
          if entry d (dirname p) = Some Dir then (set_file p b now d, Inr ())
          else (d, Inl (absent d p)))"

text \<open>\<open>mkdirSync(p, { recursive: true })\<close>, over the directories on the way to it and itself.\<close>

fun make_dirs :: "fpath list \<Rightarrow> unit disk_io" where
  "make_dirs [] d = (d, Inr ())"
| "make_dirs (q # qs) d =
     (case entry d q of
        None \<Rightarrow> make_dirs qs (d @ [(q, Dir)])
      | Some Dir \<Rightarrow> make_dirs qs d
      | Some (File _ _) \<Rightarrow> (d, Inl (fs_error (if qs = [] then ''EEXIST'' else ''ENOTDIR''))))"

definition mkdirSync :: "fpath \<Rightarrow> unit disk_io" where
  "mkdirSync p = make_dirs (prefixes p)"

definition unlinkSync :: "fpath \<Rightarrow> unit disk_io" where
  "unlinkSync p d =
     (case entry d p of
        None \<Rightarrow> (d, Inl (absent d p))
      | Some Dir \<Rightarrow> (d, Inl (fs_error ''EISDIR''))
      | Some (File _ _) \<Rightarrow> (AList.delete p d, Inr ()))"

text \<open>\<open>rmSync(p, { force: true })\<close>: a missing path is no error, a directory is.\<close>

definition rmSync :: "fpath \<Rightarrow> unit disk_io" where
  "rmSync p d =
     (case entry d p of
        None \<Rightarrow> (d, Inr ())
      | Some Dir \<Rightarrow> (d, Inl (fs_error ''ERR_FS_EISDIR''))
      | Some (File _ _) \<Rightarrow> (AList.delete p d, Inr ()))"

text \<open>\<open>readdirSync(p, { withFileTypes: true })\<close> of a directory: the names in it and what they are.\<close>

definition children :: "disk \<Rightarrow> fpath \<Rightarrow> (string \<times> node) list" where
  "children d p = map (\<lambda>(q, n). (last q, n)) (filter (\<lambda>(q, n). q \<noteq> [] \<and> butlast q = p) d)"

definition readdirSync :: "fpath \<Rightarrow> (string \<times> node) list disk_io" where
  "readdirSync p d =
     (d, case node_at d p of
           None \<Rightarrow> Inl (absent d p)
         | Some (File _ _) \<Rightarrow> Inl (fs_error ''ENOTDIR'')
         | Some Dir \<Rightarrow> Inr (children d p))"

text \<open>\<open>statSync\<close> of a file: its size and modification time; no caller asks it of a directory.\<close>

definition statSync :: "fpath \<Rightarrow> (nat \<times> int) disk_io" where
  "statSync p d =
     (d, case node_at d p of
           None \<Rightarrow> Inl (absent d p)
         | Some Dir \<Rightarrow> Inr (0, 0)
         | Some (File b t) \<Rightarrow> Inr (length b, t))"

definition copyFileSync :: "int \<Rightarrow> fpath \<Rightarrow> fpath \<Rightarrow> unit disk_io" where
  "copyFileSync now source target = bindF (readFileSync source) (\<lambda>b. writeFileSync now target b)"

definition utimesSync :: "fpath \<Rightarrow> int \<Rightarrow> unit disk_io" where
  "utimesSync p t d =
     (case entry d p of
        None \<Rightarrow> (d, Inl (absent d p))
      | Some Dir \<Rightarrow> (d, Inr ())
      | Some (File b _) \<Rightarrow> (set_file p b t d, Inr ()))"

section \<open>What a call leaves\<close>

named_theorems disk_simps "entries after a call"

lemma entry_root [simp]: "entry d [] = Some Dir"
  by (simp add: entry_def)

lemma entry_set_file [disk_simps]: "p \<noteq> [] \<Longrightarrow> entry (set_file p b t d) q = (if q = p then Some (File b t) else entry d q)"
  by (auto simp: entry_def set_file_def AList.update_conv')

lemma entry_delete [disk_simps]: "p \<noteq> [] \<Longrightarrow> entry (AList.delete p d) q = (if q = p then None else entry d q)"
  by (auto simp: entry_def AList.delete_conv')

lemma entry_snoc [disk_simps]: "entry d q = None \<Longrightarrow> entry (d @ [(q, n)]) r = (if r = q then Some n else entry d r)"
  by (auto simp: entry_def map_add_def split: if_splits option.splits)

lemma node_at_plain: "p = [] \<or> last p \<noteq> [] \<Longrightarrow> node_at d p = entry d p"
  by (auto simp: node_at_def)

lemma bindF_Inr: "bindF m f d = (d', Inr b) \<longleftrightarrow> (\<exists>d1 a. m d = (d1, Inr a) \<and> f a d1 = (d', Inr b))"
  by (auto simp: bindF_def split: prod.splits sum.splits)

lemma bindF_step: "m d = (d1, Inr a) \<Longrightarrow> bindF m f d = f a d1"
  by (simp add: bindF_def)

lemma bindF_fail: "m d = (d1, Inl e) \<Longrightarrow> bindF m f d = (d1, Inl e)"
  by (simp add: bindF_def)

lemma retF_Inr [simp]: "retF a d = (d', Inr b) \<longleftrightarrow> d' = d \<and> b = a"
  by (auto simp: retF_def)

lemma throwF_Inr [simp]: "throwF e d \<noteq> (d', Inr b)"
  by (simp add: throwF_def)

lemma liftF_Inr [simp]: "liftF r d = (d', Inr b) \<longleftrightarrow> d' = d \<and> r = Inr b"
  by (auto simp: liftF_def)

lemma readF_Inr [simp]: "readF g d = (d', Inr b) \<longleftrightarrow> d' = d \<and> b = g d"
  by (auto simp: readF_def)

section \<open>Well-formed disks\<close>

text \<open>Names are neither empty nor dots and hold no slash; a path is listed once and lies in a directory.\<close>

definition clean_name :: "string \<Rightarrow> bool" where
  "clean_name s = (s \<notin> {[], ''.'', ''..''} \<and> CHR ''/'' \<notin> set s)"

definition wf_disk :: "disk \<Rightarrow> bool" where
  "wf_disk d =
     (distinct (map fst d)
      \<and> (\<forall>p \<in> fst ` set d. p \<noteq> [] \<and> list_all clean_name p \<and> entry d (butlast p) = Some Dir))"

lemma wf_disk_entry:
  assumes "wf_disk d" and "entry d p = Some n"
  shows "list_all clean_name p" and "entry d (butlast p) = Some Dir"
proof -
  have "p \<in> fst ` set d" if "p \<noteq> []"
    using assms(2) that by (auto simp: entry_def dest: map_of_SomeD intro: rev_image_eqI)
  then show "list_all clean_name p" "entry d (butlast p) = Some Dir"
    using assms(1) by (cases "p = []"; auto simp: wf_disk_def)+
qed

lemma wf_disk_member: "wf_disk d \<Longrightarrow> (p, n) \<in> set d \<longleftrightarrow> p \<noteq> [] \<and> entry d p = Some n"
  by (force simp: wf_disk_def entry_def)

lemma children_iff: "wf_disk d \<Longrightarrow> (name, n) \<in> set (children d p) \<longleftrightarrow> entry d (p @ [name]) = Some n"
  by (auto simp: children_def wf_disk_member image_iff intro!: bexI [of _ "(p @ [name], n)"])

lemma node_at_clean: "list_all clean_name p \<Longrightarrow> node_at d p = entry d p"
  by (cases p rule: rev_cases) (auto simp: node_at_def clean_name_def)

lemma wf_set_file:
  assumes "wf_disk d" "list_all clean_name p" "p \<noteq> []" "entry d (butlast p) = Some Dir" "entry d p \<noteq> Some Dir"
  shows "wf_disk (set_file p b t d)"
proof -
  have keys: "fst ` set (set_file p b t d) = insert p (fst ` set d)"
    by (simp add: set_file_def AList.dom_update)
  have "entry (set_file p b t d) (butlast q) = Some Dir" if "entry d (butlast q) = Some Dir" for q
    using that assms(3,5) by (auto simp: entry_set_file)
  then show ?thesis
    using assms by (auto simp: wf_disk_def keys) (simp_all add: set_file_def AList.distinct_update)
qed

lemma wf_delete:
  assumes "wf_disk d" "entry d p = Some (File b t)"
  shows "wf_disk (AList.delete p d)"
proof -
  have p: "p \<noteq> []" using assms(2) by auto
  have "entry (AList.delete p d) (butlast q) = Some Dir" if "entry d (butlast q) = Some Dir" for q
    using that assms(2) p by (auto simp: entry_delete)
  moreover have "fst ` set (AList.delete p d) = fst ` set d - {p}"
    by (metis AList.delete_keys set_map set_removeAll)
  ultimately show ?thesis
    using assms(1) by (auto simp: wf_disk_def AList.distinct_delete)
qed

lemma wf_new_dir:
  assumes "wf_disk d" "entry d q = None" "entry d (butlast q) = Some Dir" "list_all clean_name q"
  shows "wf_disk (d @ [(q, Dir)])"
proof -
  have q: "q \<noteq> []" "q \<notin> fst ` set d"
    using assms(2) by (auto simp: entry_def map_of_eq_None_iff split: if_splits)
  have "entry (d @ [(q, Dir)]) (butlast r) = Some Dir" if "entry d (butlast r) = Some Dir" for r
    using that assms(2) by (auto simp: entry_snoc)
  then show ?thesis
    using assms q by (auto simp: wf_disk_def)
qed

section \<open>What a run may touch\<close>

text \<open>
  From one disk to the next only the paths in \<open>S\<close> may change, and directories on the way to
  them may appear.
\<close>

definition changes :: "fpath set \<Rightarrow> disk \<Rightarrow> disk \<Rightarrow> bool" where
  "changes S d d' =
     (\<forall>p. p \<notin> S \<longrightarrow> entry d' p = entry d p
        \<or> (entry d p = None \<and> entry d' p = Some Dir \<and> (\<exists>q \<in> S. strict_prefix p q)))"

text \<open>\<open>m\<close> keeps disks well formed, changes only \<open>S\<close>, and what it returns has \<open>Q\<close>.\<close>

definition runs :: "fpath set \<Rightarrow> 'a disk_io \<Rightarrow> ('a \<Rightarrow> bool) \<Rightarrow> bool" where
  "runs S m Q =
     (\<forall>d. wf_disk d \<longrightarrow> wf_disk (fst (m d)) \<and> changes S d (fst (m d)) \<and> (\<forall>a. snd (m d) = Inr a \<longrightarrow> Q a))"

lemma changes_refl [simp]: "changes S d d"
  by (simp add: changes_def)

lemma changes_trans: "changes S d d1 \<Longrightarrow> changes S d1 d2 \<Longrightarrow> changes S d d2"
  unfolding changes_def by metis

lemma changes_mono: "changes S d d' \<Longrightarrow> S \<subseteq> T \<Longrightarrow> changes T d d'"
  unfolding changes_def by blast

lemma runs_bindF: "runs S m Q \<Longrightarrow> (\<And>a. Q a \<Longrightarrow> runs S (f a) R) \<Longrightarrow> runs S (bindF m f) R"
proof (unfold runs_def, intro allI impI)
  fix d
  assume m: "\<forall>d. wf_disk d \<longrightarrow> wf_disk (fst (m d)) \<and> changes S d (fst (m d)) \<and> (\<forall>a. snd (m d) = Inr a \<longrightarrow> Q a)"
    and f: "\<And>a. Q a \<Longrightarrow> \<forall>d. wf_disk d \<longrightarrow>
      wf_disk (fst (f a d)) \<and> changes S d (fst (f a d)) \<and> (\<forall>b. snd (f a d) = Inr b \<longrightarrow> R b)"
    and d: "wf_disk d"
  obtain d1 r where md: "m d = (d1, r)" by fastforce
  then have d1: "wf_disk d1" "changes S d d1" "\<And>a. r = Inr a \<Longrightarrow> Q a" using m d by (metis fst_conv snd_conv)+
  show "wf_disk (fst (bindF m f d)) \<and> changes S d (fst (bindF m f d)) \<and> (\<forall>b. snd (bindF m f d) = Inr b \<longrightarrow> R b)"
  proof (cases r)
    case (Inr a)
    then show ?thesis using f [OF d1(3) [OF Inr]] d1 md by (auto simp: bindF_def intro: changes_trans)
  qed (use md d1 in \<open>simp add: bindF_def\<close>)
qed

lemma runs_weaken: "runs S m Q \<Longrightarrow> (\<And>a. Q a \<Longrightarrow> R a) \<Longrightarrow> runs S m R"
  unfolding runs_def by blast

lemma runs_mono: "runs S m Q \<Longrightarrow> S \<subseteq> T \<Longrightarrow> runs T m Q"
  unfolding runs_def using changes_mono by blast

lemma runs_pure: "(\<And>d. fst (m d) = d) \<Longrightarrow> (\<And>d a. wf_disk d \<Longrightarrow> snd (m d) = Inr a \<Longrightarrow> Q a) \<Longrightarrow> runs S m Q"
  unfolding runs_def by simp

lemma runs_liftF: "(\<And>a. r = Inr a \<Longrightarrow> Q a) \<Longrightarrow> runs S (liftF r) Q"
  by (rule runs_pure) (auto simp: liftF_def)

lemma runs_retF: "Q a \<Longrightarrow> runs S (retF a) Q"
  by (rule runs_pure) (auto simp: retF_def)

lemma runs_throwF: "runs S (throwF e) Q"
  by (rule runs_pure) (auto simp: throwF_def)

lemma runs_readF: "runs S (readF g) (\<lambda>_. True)"
  by (rule runs_pure) (auto simp: readF_def)

lemma runs_tryF: "runs S m (\<lambda>_. True) \<Longrightarrow> runs S (tryF m) (\<lambda>_. True)"
  unfolding runs_def tryF_def by simp

lemma runs_readFileSync: "runs S (readFileSync p) (\<lambda>_. True)"
  by (rule runs_pure) (auto simp: readFileSync_def)

lemma runs_statSync: "runs S (statSync p) (\<lambda>_. True)"
  by (rule runs_pure) (auto simp: statSync_def)

lemma runs_eachF: "(\<And>x. x \<in> set xs \<Longrightarrow> runs S (f x) (\<lambda>_. True)) \<Longrightarrow> runs S (eachF f xs) (\<lambda>_. True)"
  by (induction xs) (auto intro!: runs_retF runs_bindF)

section \<open>What the calls touch\<close>

lemma changes_insert: "p \<in> S \<Longrightarrow> (\<And>q. q \<noteq> p \<Longrightarrow> entry d' q = entry d q) \<Longrightarrow> changes S d d'"
  unfolding changes_def by metis

lemma runs_writeFileSync:
  assumes "p \<in> S" "list_all clean_name p" "p \<noteq> []"
  shows "runs S (writeFileSync now p b) (\<lambda>_. True)"
  using assms unfolding runs_def writeFileSync_def dirname_def
  by (auto simp: disk_simps split: option.splits node.splits intro!: wf_set_file changes_insert [of p])

lemma runs_remove:
  assumes "p \<in> S"
  shows "runs S (unlinkSync p) (\<lambda>_. True)" and "runs S (rmSync p) (\<lambda>_. True)"
proof -
  have gone: "changes S d (AList.delete p d)" if "entry d p = Some (File b t)" for d b t
    using that assms by (intro changes_insert [of p]) (auto simp: entry_def AList.delete_conv')
  show "runs S (unlinkSync p) (\<lambda>_. True)" "runs S (rmSync p) (\<lambda>_. True)"
    unfolding runs_def unlinkSync_def rmSync_def
    by (auto split: option.splits node.splits intro: wf_delete gone)
qed

lemma runs_copyFileSync:
  "p \<in> S \<Longrightarrow> list_all clean_name p \<Longrightarrow> p \<noteq> [] \<Longrightarrow> runs S (copyFileSync now q p) (\<lambda>_. True)"
  unfolding copyFileSync_def by (intro runs_bindF [OF runs_readFileSync] runs_writeFileSync)

lemma runs_utimesSync:
  assumes "p \<in> S"
  shows "runs S (utimesSync p t) (\<lambda>_. True)"
proof -
  have "wf_disk (set_file p b t d) \<and> changes S d (set_file p b t d)" if "wf_disk d" "entry d p = Some (File b u)" for d b u
  proof -
    have p: "p \<noteq> []" using that(2) by auto
    show ?thesis
      using wf_set_file [OF that(1) _ p] wf_disk_entry [OF that] that(2) assms p
      by (auto simp: disk_simps intro!: changes_insert [of p])
  qed
  then show ?thesis
    unfolding runs_def utimesSync_def by (auto split: option.splits node.splits)
qed

text \<open>Making the directories \<open>r\<close>, \<open>r @ [a]\<close>, \<open>r @ [a, b]\<close>, ... down to \<open>r @ ss\<close>.\<close>

lemma make_dirs_keeps:
  assumes "wf_disk d" "entry d (butlast r) = Some Dir" "list_all clean_name (r @ ss)"
  shows "wf_disk (fst (make_dirs (map ((@) r) (prefixes ss)) d))
         \<and> (\<forall>p. entry (fst (make_dirs (map ((@) r) (prefixes ss)) d)) p = entry d p
              \<or> (entry d p = None \<and> entry (fst (make_dirs (map ((@) r) (prefixes ss)) d)) p = Some Dir
                  \<and> prefix p (r @ ss)))"
  using assms
proof (induction ss arbitrary: d r)
  case Nil
  then show ?case by (auto simp: disk_simps split: option.splits node.splits intro: wf_new_dir)
next
  case (Cons s ss)
  define rest where "rest = map ((@) (r @ [s])) (prefixes ss)"
  have list: "map ((@) r) (prefixes (s # ss)) = r # rest" by (simp add: rest_def)
  have deeper: "list_all clean_name ((r @ [s]) @ ss)" using Cons.prems(3) by simp
  note IH = Cons.IH [where r = "r @ [s]", folded rest_def, OF _ _ deeper]
  show ?case
  proof (cases "entry d r")
    case None
    let ?d = "d @ [(r, Dir)]"
    have "wf_disk ?d" using Cons.prems None by (intro wf_new_dir) auto
    moreover have e: "entry ?d q = (if q = r then Some Dir else entry d q)" for q using None by (simp add: disk_simps)
    moreover have "make_dirs (r # rest) d = make_dirs rest ?d" using None by simp
    ultimately show ?thesis
      using IH [of ?d] None unfolding list by (auto split: if_splits) (metis prefixI)
  next
    case (Some n)
    then show ?thesis
      using IH [of d] Cons.prems(1) unfolding list by (cases n) auto
  qed
qed

lemma mkdirSync_entry:
  assumes "wf_disk d" "list_all clean_name p"
  shows "wf_disk (fst (mkdirSync p d))"
    and "entry (fst (mkdirSync p d)) q = entry d q
      \<or> (entry d q = None \<and> entry (fst (mkdirSync p d)) q = Some Dir \<and> prefix q p)"
  using make_dirs_keeps [of d "[]" p] assms by (simp_all add: mkdirSync_def map_idI)

lemma runs_mkdirSync:
  assumes "list_all clean_name p" "q \<in> S" "strict_prefix p q"
  shows "runs S (mkdirSync p) (\<lambda>_. True)"
proof -
  have below: "\<exists>q \<in> S. strict_prefix r q" if "prefix r p" for r
    using that assms(2,3) by (auto intro: prefix_order.le_less_trans)
  have "changes S d (fst (mkdirSync p d))" if d: "wf_disk d" for d
    unfolding changes_def using mkdirSync_entry(2) [OF d assms(1)] below by blast
  then show ?thesis
    by (simp add: runs_def mkdirSync_entry(1) [OF _ assms(1)])
qed

section \<open>What a call that returns does\<close>

text \<open>The files of a disk, and its directories.\<close>

definition file_in :: "disk \<Rightarrow> fpath \<Rightarrow> (string \<times> int) option" where
  "file_in d p = (case entry d p of Some (File b t) \<Rightarrow> Some (b, t) | _ \<Rightarrow> None)"

definition dir_in :: "disk \<Rightarrow> fpath \<Rightarrow> bool" where
  "dir_in d p = (entry d p = Some Dir)"

lemma file_in_Some: "file_in d p = Some (b, t) \<longleftrightarrow> entry d p = Some (File b t)"
  by (auto simp: file_in_def split: option.splits node.splits)

lemma entry_cases:
  obtains "entry d p = None" "file_in d p = None" "\<not> dir_in d p"
  | "entry d p = Some Dir" "file_in d p = None" "dir_in d p"
  | b t where "entry d p = Some (File b t)" "file_in d p = Some (b, t)" "\<not> dir_in d p"
  by (cases "entry d p") (auto simp: file_in_def dir_in_def split: node.splits, metis node.exhaust)

lemma set_file_ok:
  assumes "p \<noteq> []" "\<not> dir_in d p"
  shows "file_in (set_file p b t d) = (file_in d)(p \<mapsto> (b, t))" "dir_in (set_file p b t d) = dir_in d"
  using assms by (auto simp: file_in_def dir_in_def entry_set_file fun_eq_iff)

lemma write_ok:
  assumes "writeFileSync now p b d = (d', Inr u)"
  shows "file_in d' = (file_in d)(p \<mapsto> (b, now)) \<and> dir_in d' = dir_in d"
proof -
  have p: "p \<noteq> []" "\<not> dir_in d p" "d' = set_file p b now d"
    using assms by (auto simp: writeFileSync_def dir_in_def split: option.splits node.splits if_splits)
  then show ?thesis by (simp add: set_file_ok)
qed

lemma delete_ok:
  assumes "entry d p = Some (File b t)"
  shows "file_in (AList.delete p d) = (file_in d)(p := None) \<and> dir_in (AList.delete p d) = dir_in d"
proof -
  have "p \<noteq> []" using assms by auto
  then show ?thesis
    using assms by (auto simp: file_in_def dir_in_def entry_delete fun_eq_iff)
qed

lemma unchanged_without: "\<not> dir_in d p \<Longrightarrow> file_in d p = None \<Longrightarrow> file_in d = (file_in d)(p := None)"
  by auto

lemma rm_ok: "rmSync p d = (d', Inr u) \<Longrightarrow> file_in d' = (file_in d)(p := None) \<and> dir_in d' = dir_in d"
  by (cases d p rule: entry_cases) (auto simp: rmSync_def delete_ok fun_eq_iff)

lemma unlink_ok: "unlinkSync p d = (d', Inr u) \<Longrightarrow> file_in d' = (file_in d)(p := None) \<and> dir_in d' = dir_in d"
  by (cases d p rule: entry_cases) (auto simp: unlinkSync_def delete_ok)

lemma try_unlink_ok: "tryF (unlinkSync p) d = (d', r) \<Longrightarrow> file_in d' = (file_in d)(p := None) \<and> dir_in d' = dir_in d"
  by (cases d p rule: entry_cases) (auto simp: tryF_def unlinkSync_def delete_ok fun_eq_iff)

lemma utimes_ok:
  assumes "utimesSync p t d = (d', Inr u)" "file_in d p = Some (b, t0)"
  shows "file_in d' = (file_in d)(p \<mapsto> (b, t)) \<and> dir_in d' = dir_in d"
proof -
  have e: "entry d p = Some (File b t0)" using assms(2) by (simp add: file_in_Some)
  then have "p \<noteq> []" "\<not> dir_in d p" by (auto simp: dir_in_def)
  then show ?thesis using assms(1) e by (auto simp: utimesSync_def set_file_ok)
qed

lemma make_dirs_ok:
  "file_in (fst (make_dirs qs d)) = file_in d"
  "dir_in (fst (make_dirs qs d)) p \<Longrightarrow> dir_in d p \<or> p \<in> set qs"
  "dir_in d p \<Longrightarrow> dir_in (fst (make_dirs qs d)) p"
proof (induction qs arbitrary: d)
  case (Cons q qs)
  { case 1
    have "file_in (d @ [(q, Dir)]) = file_in d" if "entry d q = None"
      using that by (auto simp: file_in_def entry_snoc fun_eq_iff)
    then show ?case using Cons.IH(1) by (auto split: option.splits node.splits) }
  { case 2
    then show ?case using Cons.IH(2) [of d] Cons.IH(2) [of "d @ [(q, Dir)]"]
      by (auto simp: dir_in_def entry_snoc split: option.splits node.splits if_splits) }
  { case 3
    then show ?case using Cons.IH(3) [of d] Cons.IH(3) [of "d @ [(q, Dir)]"]
      by (auto simp: dir_in_def entry_snoc split: option.splits node.splits if_splits) }
qed auto

lemma mkdir_ok:
  assumes "mkdirSync p d = (d', r)"
  shows "file_in d' = file_in d" "dir_in d' q \<Longrightarrow> dir_in d q \<or> prefix q p" "dir_in d q \<Longrightarrow> dir_in d' q"
  using make_dirs_ok [where qs = "prefixes p" and d = d] assms by (force simp: mkdirSync_def)+

lemma copy_ok:
  assumes "copyFileSync now q p d = (d', Inr u)" "q = [] \<or> last q \<noteq> []"
  shows "\<exists>b t. file_in d q = Some (b, t) \<and> file_in d' = (file_in d)(p \<mapsto> (b, now)) \<and> dir_in d' = dir_in d"
  using assms write_ok
  by (fastforce simp: copyFileSync_def bindF_Inr readFileSync_def node_at_plain file_in_def
      split: option.splits node.splits)

lemma stat_ok:
  assumes "statSync q d = (d', Inr (n, t))" "file_in d q = Some (b, t0)" "q = [] \<or> last q \<noteq> []"
  shows "d' = d \<and> t = t0"
  using assms by (auto simp: statSync_def node_at_plain file_in_Some)

end
