(* ===== verification/FileBucket.thy ===== *)
theory FileBucket
  imports FileSys "HOL-Library.Product_Lexorder"
begin

text \<open>
  \<^verbatim>\<open>packages/bb-file-bucket/src/index.mock.ts\<close> with \<^verbatim>\<open>paths.ts\<close>,
  \<^verbatim>\<open>mock-utils.ts\<close> and the key rules of \<^verbatim>\<open>validation.ts\<close>: the local file bucket.
  A bucket keeps everything on the disk, so an operation is a function of the disk; \<open>now\<close> is the
  time its writes carry.  A body is the bytes written.  A version directory as the bucket leaves it
  holds \<open>v1\<close>, \<open>v2\<close>, ..., their sidecars and the delete marker; where other names occur, one whose
  number does not parse sorts as number 0.  Log output is not modelled.
\<close>

section \<open>Layout on disk\<close>

definition CONTENT_DIR :: string where "CONTENT_DIR = ''content''"
definition META_DIR :: string where "META_DIR = ''meta''"
definition VERSIONS_DIR :: string where "VERSIONS_DIR = ''versions''"
definition DELETE_MARKER :: string where "DELETE_MARKER = ''__deleted__''"
definition VERSION_META_SUFFIX :: string where "VERSION_META_SUFFIX = ''.json''"

definition contentRoot :: "fpath \<Rightarrow> fpath" where
  "contentRoot root = path_join root [CONTENT_DIR]"

definition contentPath :: "fpath \<Rightarrow> string \<Rightarrow> fpath" where
  "contentPath root key = path_join root [CONTENT_DIR, key]"

definition metaPath :: "fpath \<Rightarrow> string \<Rightarrow> fpath" where
  "metaPath root key = path_join root [META_DIR, key @ ''.json'']"

definition versionsDirFor :: "fpath \<Rightarrow> string \<Rightarrow> fpath" where
  "versionsDirFor root key = path_join root [VERSIONS_DIR, key]"

definition versionContentPath :: "fpath \<Rightarrow> string \<Rightarrow> string \<Rightarrow> fpath" where
  "versionContentPath root key versionId = path_join root [VERSIONS_DIR, key, versionId]"

definition versionMetaPath :: "fpath \<Rightarrow> string \<Rightarrow> string \<Rightarrow> fpath" where
  "versionMetaPath root key versionId = path_join root [VERSIONS_DIR, key, versionId @ VERSION_META_SUFFIX]"

definition deleteMarkerPath :: "fpath \<Rightarrow> string \<Rightarrow> fpath" where
  "deleteMarkerPath root key = path_join root [VERSIONS_DIR, key, DELETE_MARKER]"

definition isVersionEntry :: "string \<Rightarrow> bool" where
  "isVersionEntry name = (name \<noteq> DELETE_MARKER \<and> \<not> ends_with name VERSION_META_SUFFIX)"

section \<open>Keys\<close>

definition validationError :: "string \<Rightarrow> thrown" where
  "validationError message = blocksError ''ValidationFailed'' message"

definition check_segment :: "string \<Rightarrow> (thrown, unit) res" where
  "check_segment segment =
     (if segment = ''..'' \<or> segment = ''.'' then Inl (validationError ''Invalid key: contains a path traversal segment'')
      else if segment = [] then Inl (validationError ''Invalid key: contains an empty path segment'')
      else Inr ())"

definition assertValidKey :: "string \<Rightarrow> (thrown, unit) res" where
  "assertValidKey key =
     (if key = [] then Inl (validationError ''Invalid key: must be a non-empty string'')
      else if list_ex (\<lambda>c. char_code c \<le> 31 \<or> char_code c = 127) key
      then Inl (validationError ''Invalid key: contains control characters'')
      else if starts_with key ''/'' then Inl (validationError ''Invalid key: leading slash not allowed'')
      else bindR (mapR check_segment (split_on CHR ''/'' key)) (\<lambda>_. Inr ()))"

text \<open>Without symbolic links the real path is the path, so the second check of the code never fires.\<close>

definition assertContainedPath :: "fpath \<Rightarrow> string \<Rightarrow> (thrown, unit) res" where
  "assertContainedPath baseDir untrustedPath =
     (if strict_prefix baseDir (path_resolve baseDir untrustedPath) then Inr ()
      else Inl (blocksError ''ValidationFailed'' ''Invalid key: path traversal detected''))"

section \<open>Buckets and their records\<close>

record bucket =
  dataDir :: fpath
  versioned :: bool
  objectLocked :: bool
  bk_fullId :: string

text \<open>Options that are absent are \<open>Undef\<close>.\<close>

record FilePutOptions =
  po_contentType :: jsval
  po_metadata :: jsval
  po_cacheControl :: jsval

record FileContent =
  fc_body :: string
  fc_contentType :: jsval
  fc_metadata :: jsval
  fc_size :: nat

record FileInfo =
  fi_path :: string
  fi_size :: nat
  fi_lastModified :: int

record FileVersionInfo =
  versionId :: string
  v_lastModified :: int
  v_size :: nat
  isCurrent :: bool

definition VersionNotFound :: string where
  "VersionNotFound = ''NoSuchVersion''"

definition octet_stream :: jsval where
  "octet_stream = Str ''application/octet-stream''"

text \<open>\<open>v.k\<close>, which throws when \<open>v\<close> is \<open>null\<close>.\<close>

definition member :: "jsval \<Rightarrow> string \<Rightarrow> (thrown, jsval) res" where
  "member v k =
     (if v = Null \<or> v = Undef
      then Inl (set_err_name ''TypeError'' (new_Error (''Cannot read properties of null (reading '' @ k @ '')'')))
      else Inr (get_prop v k))"

section \<open>Helpers of the class\<close>

definition validateKey :: "bucket \<Rightarrow> string \<Rightarrow> (thrown, unit) res" where
  "validateKey fb key = bindR (assertValidKey key) (\<lambda>_. assertContainedPath (contentRoot (dataDir fb)) key)"

definition writeMeta :: "bucket \<Rightarrow> int \<Rightarrow> string \<Rightarrow> jsval \<Rightarrow> unit disk_io" where
  "writeMeta fb now path meta =
     (let mPath = metaPath (dataDir fb) path in
      bindF (mkdirSync (dirname mPath)) (\<lambda>_.
        writeFileSync now mPath (print_json (json_norm meta))))"

definition no_meta :: jsval where
  "no_meta = Obj [(''contentType'', octet_stream), (''metadata'', Obj [])]"

definition readMetaFile :: "disk \<Rightarrow> fpath \<Rightarrow> jsval" where
  "readMetaFile d mPath =
     (case node_at d mPath of
        Some (File b _) \<Rightarrow> (case json_parse b of Some v \<Rightarrow> v | None \<Rightarrow> no_meta)
      | _ \<Rightarrow> no_meta)"

definition readMeta :: "bucket \<Rightarrow> string \<Rightarrow> disk \<Rightarrow> jsval" where
  "readMeta fb path d = readMetaFile d (metaPath (dataDir fb) path)"

definition readVersionMeta :: "bucket \<Rightarrow> string \<Rightarrow> string \<Rightarrow> disk \<Rightarrow> jsval" where
  "readVersionMeta fb path vid d = readMetaFile d (versionMetaPath (dataDir fb) path vid)"

text \<open>The number of a version name: \<open>parseInt(name.slice(1), 10)\<close>.\<close>

definition version_number :: "string \<Rightarrow> int option" where
  "version_number name = parse_int10 (drop 1 name)"

definition next_number :: "string list \<Rightarrow> int" where
  "next_number names =
     (let existing = List.map_filter version_number
                       (filter (\<lambda>f. starts_with f ''v'' \<and> \<not> str_includes f ''.'') names) in
      (if existing = [] then 0 else Max (set existing)) + 1)"

definition nextVersionId :: "bucket \<Rightarrow> string \<Rightarrow> string disk_io" where
  "nextVersionId fb path d =
     (let dir = versionsDirFor (dataDir fb) path in
      if \<not> existsSync d dir then (d, Inr ''v1'')
      else bindF (readdirSync dir) (\<lambda>entries. retF (CHR ''v'' # show_int (next_number (map fst entries)))) d)"

text \<open>The version files of a directory listing, newest first.\<close>

definition version_entry :: "string \<times> node \<Rightarrow> FileVersionInfo option" where
  "version_entry e =
     (case snd e of
        File b t \<Rightarrow>
          if isVersionEntry (fst e)
          then Some \<lparr>versionId = fst e, v_lastModified = t, v_size = length b, isCurrent = False\<rparr> else None
      | Dir \<Rightarrow> None)"

definition newest_first :: "FileVersionInfo list \<Rightarrow> FileVersionInfo list" where
  "newest_first = sort_key (\<lambda>v. (- v_lastModified v, - opt_or (version_number (versionId v)) 0))"

definition mark_current :: "bool \<Rightarrow> FileVersionInfo list \<Rightarrow> FileVersionInfo list" where
  "mark_current hasDeleteMarker versions =
     (case versions of
        [] \<Rightarrow> []
      | v # vs \<Rightarrow> if hasDeleteMarker then v # vs else v\<lparr>isCurrent := True\<rparr> # vs)"

definition readVersions :: "bucket \<Rightarrow> string \<Rightarrow> FileVersionInfo list disk_io" where
  "readVersions fb path d =
     (let versionsDir = versionsDirFor (dataDir fb) path in
      if \<not> existsSync d versionsDir then (d, Inr [])
      else bindF (readdirSync versionsDir) (\<lambda>entries.
             retF (mark_current (existsSync d (deleteMarkerPath (dataDir fb) path))
                     (newest_first (List.map_filter version_entry entries)))) d)"

section \<open>Operations\<close>

definition put_version :: "bucket \<Rightarrow> int \<Rightarrow> string \<Rightarrow> string \<Rightarrow> jsval \<Rightarrow> unit disk_io" where
  "put_version fb now path buf meta =
     bindF (nextVersionId fb path) (\<lambda>vid.
     bindF (mkdirSync (versionsDirFor (dataDir fb) path)) (\<lambda>_.
     bindF (writeFileSync now (versionContentPath (dataDir fb) path vid) buf) (\<lambda>_.
     bindF (writeFileSync now (versionMetaPath (dataDir fb) path vid) (print_json (json_norm meta))) (\<lambda>_.
       tryF (unlinkSync (deleteMarkerPath (dataDir fb) path))))))"

definition put_meta :: "FilePutOptions \<Rightarrow> jsval" where
  "put_meta opts =
     Obj [(''contentType'', nullish_or (po_contentType opts) octet_stream),
          (''metadata'', nullish_or (po_metadata opts) (Obj [])),
          (''cacheControl'', po_cacheControl opts)]"

definition bucket_put :: "bucket \<Rightarrow> int \<Rightarrow> string \<Rightarrow> string \<Rightarrow> FilePutOptions \<Rightarrow> unit disk_io" where
  "bucket_put fb now path buf opts =
     bindF (liftF (validateKey fb path)) (\<lambda>_.
     let filePath = contentPath (dataDir fb) path; meta = put_meta opts in
     bindF (mkdirSync (dirname filePath)) (\<lambda>_.
     bindF (if versioned fb then put_version fb now path buf meta else retF ()) (\<lambda>_.
     bindF (writeMeta fb now path meta) (\<lambda>_.
       writeFileSync now filePath buf))))"

definition file_content :: "string \<Rightarrow> jsval \<Rightarrow> (thrown, FileContent) res" where
  "file_content body meta =
     bindR (member meta ''contentType'') (\<lambda>ct.
     bindR (member meta ''metadata'') (\<lambda>md.
       Inr \<lparr>fc_body = body, fc_contentType = ct, fc_metadata = md, fc_size = length body\<rparr>))"

text \<open>The \<open>versionId\<close> option; an empty one counts as absent.\<close>

definition given :: "string option \<Rightarrow> string option" where
  "given v = (if v = Some [] then None else v)"

definition current_content :: "bucket \<Rightarrow> string \<Rightarrow> FileContent option disk_io" where
  "current_content fb path d =
     (let filePath = contentPath (dataDir fb) path in
      if \<not> existsSync d filePath then (d, Inr None)
      else if versioned fb \<and> existsSync d (deleteMarkerPath (dataDir fb) path) then (d, Inr None)
      else bindF (readFileSync filePath) (\<lambda>body.
             liftF (map_sum id Some (file_content body (readMeta fb path d)))) d)"

definition version_content :: "bucket \<Rightarrow> string \<Rightarrow> string \<Rightarrow> FileContent option disk_io" where
  "version_content fb path vid d =
     (let vPath = versionContentPath (dataDir fb) path vid in
      if \<not> existsSync d vPath then (d, Inr None)
      else bindF (readFileSync vPath) (\<lambda>body.
             liftF (map_sum id Some (file_content body (readVersionMeta fb path vid d)))) d)"

definition bucket_get :: "bucket \<Rightarrow> string \<Rightarrow> string option \<Rightarrow> FileContent option disk_io" where
  "bucket_get fb path vid =
     bindF (liftF (validateKey fb path)) (\<lambda>_.
       case given vid of
         Some v \<Rightarrow> if versioned fb then version_content fb path v else current_content fb path
       | None \<Rightarrow> current_content fb path)"

text \<open>Deleting the newest version makes the next one current, or removes the current copies.\<close>

definition promote :: "bucket \<Rightarrow> int \<Rightarrow> string \<Rightarrow> FileVersionInfo list \<Rightarrow> unit disk_io" where
  "promote fb now path others =
     (case others of
        next # _ \<Rightarrow>
          (let filePath = contentPath (dataDir fb) path;
               source = versionContentPath (dataDir fb) path (versionId next) in
           bindF (statSync source) (\<lambda>(size, mtime).
           bindF (mkdirSync (dirname filePath)) (\<lambda>_.
           bindF (copyFileSync now source filePath) (\<lambda>_.
           bindF (utimesSync filePath mtime) (\<lambda>_.
           bindF (readF (readVersionMeta fb path (versionId next))) (\<lambda>meta.
             writeMeta fb now path meta))))))
      | [] \<Rightarrow>
          bindF (rmSync (contentPath (dataDir fb) path)) (\<lambda>_.
            rmSync (metaPath (dataDir fb) path)))"

definition delete_version :: "bucket \<Rightarrow> int \<Rightarrow> string \<Rightarrow> string \<Rightarrow> unit disk_io" where
  "delete_version fb now path vid =
     bindF (readVersions fb path) (\<lambda>versions.
       if \<not> list_ex (\<lambda>v. versionId v = vid) versions then retF ()
       else
         bindF (if versionId (hd versions) = vid then promote fb now path (tl versions) else retF ()) (\<lambda>_.
         bindF (rmSync (versionMetaPath (dataDir fb) path vid)) (\<lambda>_.
           unlinkSync (versionContentPath (dataDir fb) path vid))))"

definition place_marker :: "bucket \<Rightarrow> int \<Rightarrow> string \<Rightarrow> unit disk_io" where
  "place_marker fb now path =
     bindF (mkdirSync (versionsDirFor (dataDir fb) path)) (\<lambda>_.
       writeFileSync now (deleteMarkerPath (dataDir fb) path) [])"

definition remove_current :: "bucket \<Rightarrow> string \<Rightarrow> unit disk_io" where
  "remove_current fb path =
     bindF (tryF (unlinkSync (contentPath (dataDir fb) path))) (\<lambda>_.
       tryF (unlinkSync (metaPath (dataDir fb) path)))"

definition bucket_delete :: "bucket \<Rightarrow> int \<Rightarrow> string \<Rightarrow> string option \<Rightarrow> unit disk_io" where
  "bucket_delete fb now path vid =
     bindF (liftF (validateKey fb path)) (\<lambda>_.
       if versioned fb
       then (case given vid of Some v \<Rightarrow> delete_version fb now path v | None \<Rightarrow> place_marker fb now path)
       else remove_current fb path)"

definition bucket_deleteBatch :: "bucket \<Rightarrow> int \<Rightarrow> string list \<Rightarrow> unit disk_io" where
  "bucket_deleteBatch fb now paths =
     bindF (liftF (mapR (validateKey fb) paths)) (\<lambda>_.
       eachF (\<lambda>p. bucket_delete fb now p None) paths)"

definition bucket_listVersions :: "bucket \<Rightarrow> string \<Rightarrow> FileVersionInfo list disk_io" where
  "bucket_listVersions fb path = bindF (liftF (validateKey fb path)) (\<lambda>_. readVersions fb path)"

definition bucket_restoreVersion :: "bucket \<Rightarrow> int \<Rightarrow> string \<Rightarrow> string \<Rightarrow> unit disk_io" where
  "bucket_restoreVersion fb now path vid =
     bindF (liftF (validateKey fb path)) (\<lambda>_.
     let vPath = versionContentPath (dataDir fb) path vid in
     bindF (readF (\<lambda>d. existsSync d vPath)) (\<lambda>found.
       if \<not> found
       then throwF (blocksError VersionNotFound (''Version '' @ dq vid @ '' does not exist for '' @ dq path))
       else
         bindF (readFileSync vPath) (\<lambda>body.
         bindF (readF (readVersionMeta fb path vid)) (\<lambda>meta.
         bindF (liftF (member meta ''contentType'')) (\<lambda>ct.
         bindF (liftF (member meta ''metadata'')) (\<lambda>md.
           bucket_put fb now path body \<lparr>po_contentType = ct, po_metadata = md, po_cacheControl = Undef\<rparr>))))))"

section \<open>Listing\<close>

definition depth :: "disk \<Rightarrow> nat" where
  "depth d = Max (insert 0 (length ` fst ` set d))"

lemma child_depth: "(name, n) \<in> set (children d dir) \<Longrightarrow> Suc (length dir) \<le> depth d"
  by (force simp: children_def depth_def intro: Max_ge)

text \<open>The files below a directory, in the order of the listings.\<close>

function walkDir :: "disk \<Rightarrow> fpath \<Rightarrow> fpath list" where
  "walkDir d dir =
     concat (map (\<lambda>(name, n). if n = Dir then walkDir d (dir @ [name]) else [dir @ [name]]) (children d dir))"
  by pat_completeness auto
termination
  by (relation "measure (\<lambda>(d, dir). depth d - length dir)") (auto dest!: child_depth)

declare walkDir.simps [simp del]

definition scan_item :: "bucket \<Rightarrow> string \<Rightarrow> disk \<Rightarrow> fpath \<Rightarrow> FileInfo option" where
  "scan_item fb pfx d absPath =
     (let relPath = replace_char CHR 0x5C ''/'' (join ''/'' (drop (length (contentRoot (dataDir fb))) absPath)) in
      if \<not> starts_with relPath pfx then None
      else if versioned fb \<and> existsSync d (deleteMarkerPath (dataDir fb) relPath) then None
      else (case node_at d absPath of
              Some (File b t) \<Rightarrow> Some \<lparr>fi_path = relPath, fi_size = length b, fi_lastModified = t\<rparr>
            | _ \<Rightarrow> None))"

text \<open>All items of the iteration, on a disk that does not change under it; an absent prefix is empty.\<close>

definition bucket_scan :: "bucket \<Rightarrow> string \<Rightarrow> disk \<Rightarrow> FileInfo list" where
  "bucket_scan fb pfx d =
     (let root = contentRoot (dataDir fb) in
      if \<not> existsSync d root then [] else List.map_filter (scan_item fb pfx d) (walkDir d root))"

end
