(* ===== verification/FileLayout.thy ===== *)
theory FileLayout
  imports FileBucket
begin

text \<open>
  Where the keys of a bucket live: the paths of an accepted key spelled out, the files each key owns,
  and the frame of every operation: an operation on a key changes files of that key only.
\<close>

section \<open>Paths of an accepted key\<close>

definition segs :: "string \<Rightarrow> string list" where
  "segs key = split_on CHR ''/'' key"

definition key_ok :: "string \<Rightarrow> bool" where
  "key_ok key = list_all clean_name (segs key)"

lemma norm_names_clean: "list_all clean_name ss \<Longrightarrow> norm_names st ss = st @ ss"
  by (induction ss arbitrary: st) (auto simp: clean_name_def)

lemma split_on_append: "split_on c (a @ c # b) = split_on c a @ split_on c b"
  by (induction a) (auto split: list.splits)

lemma split_on_suffix: "c \<notin> set b \<Longrightarrow> split_on c (a @ b) = butlast (split_on c a) @ [last (split_on c a) @ b]"
  by (induction a) (auto simp: split_on_no_sep split: list.splits)

lemma join_chars: "c \<in> set (join ''/'' xs) \<Longrightarrow> c = CHR ''/'' \<or> (\<exists>x \<in> set xs. c \<in> set x)"
  by (induction "''/''" xs rule: join.induct) auto

lemma join_member: "x \<in> set xs \<Longrightarrow> set x \<subseteq> set (join sep xs)"
  by (induction sep xs rule: join.induct) auto

lemma key_ok_nonempty: "key_ok key \<Longrightarrow> key \<noteq> []"
  by (auto simp: key_ok_def segs_def clean_name_def)

lemma key_ok_last: "key_ok key \<Longrightarrow> \<not> ends_with key ''/''"
  by (auto simp: key_ok_def segs_def clean_name_def ends_with_iff split_on_append)

lemma clean_segs: "CHR ''/'' \<notin> set s \<Longrightarrow> segs s = [s]"
  by (simp add: segs_def split_on_no_sep)

lemma segs_inj: "segs a = segs b \<Longrightarrow> a = b"
  unfolding segs_def by (metis join_split_on)

lemma segs_nonempty [simp]: "segs k \<noteq> []"
  by (simp add: segs_def)

lemma assertValidKey_ok:
  assumes "assertValidKey key = Inr u"
  shows "key_ok key"
proof -
  obtain ys where "mapR check_segment (split_on CHR ''/'' key) = Inr ys"
    using assms by (auto simp: assertValidKey_def bindR_eq_Inr split: if_splits)
  then have "\<exists>y. check_segment s = Inr y" if "s \<in> set (segs key)" for s
    using that unfolding segs_def mapR_Inr_iff by (auto simp: list_all2_conv_all_nth in_set_conv_nth)
  then have "clean_name s" if "s \<in> set (segs key)" for s
    using that split_on_pieces [of s "CHR ''/''" key]
    by (fastforce simp: check_segment_def clean_name_def segs_def split: if_splits)
  then show ?thesis by (simp add: key_ok_def list_all_iff)
qed

lemma validateKey_ok: "validateKey fb key = Inr u \<Longrightarrow> key_ok key"
  by (auto simp: validateKey_def bindR_eq_Inr dest: assertValidKey_ok)

lemma path_join_key:
  assumes "clean_name a" "key_ok key"
  shows "path_join root [a, key] = root @ a # segs key"
proof -
  have a: "a \<noteq> []" "segs a = [a]" using assms(1) by (auto simp: clean_name_def clean_segs)
  have "split_on CHR ''/'' (a @ CHR ''/'' # key) = a # segs key"
    using a(2) by (simp add: split_on_append segs_def)
  moreover have "\<not> ends_with (a @ CHR ''/'' # key) ''/''"
    using key_ok_last [OF assms(2)] key_ok_nonempty [OF assms(2)] by (auto simp: ends_with_single)
  moreover have "norm_names root (a # segs key) = root @ a # segs key"
    using assms by (intro norm_names_clean) (simp add: key_ok_def)
  ultimately show ?thesis
    using a key_ok_nonempty [OF assms(2)] by (simp add: path_join_def del: norm_names.simps)
qed

lemma path_join_key_name:
  assumes "clean_name a" "key_ok key" "clean_name b"
  shows "path_join root [a, key, b] = root @ a # segs key @ [b]"
proof -
  have ok: "key_ok (key @ CHR ''/'' # b)"
    using assms(2,3) clean_segs [of b] by (simp add: key_ok_def segs_def split_on_append clean_name_def)
  have "path_join root [a, key, b] = path_join root [a, key @ CHR ''/'' # b]"
    using assms key_ok_nonempty by (auto simp: path_join_def clean_name_def)
  then show ?thesis
    using path_join_key [OF assms(1) ok] assms(3) clean_segs [of b]
    by (simp add: segs_def split_on_append clean_name_def)
qed

lemma clean_dirs [simp]: "clean_name CONTENT_DIR" "clean_name META_DIR" "clean_name VERSIONS_DIR" "clean_name DELETE_MARKER"
  by (simp_all add: clean_name_def CONTENT_DIR_def META_DIR_def VERSIONS_DIR_def DELETE_MARKER_def)

lemma clean_suffix [simp]: "clean_name s \<Longrightarrow> clean_name (s @ VERSION_META_SUFFIX)"
  by (auto simp: clean_name_def VERSION_META_SUFFIX_def Cons_eq_append_conv append_eq_Cons_conv)

lemma key_ok_json:
  assumes "key_ok key"
  shows "key_ok (key @ ''.json'')" and "segs (key @ ''.json'') = butlast (segs key) @ [last (segs key) @ ''.json'']"
proof -
  show s: "segs (key @ ''.json'') = butlast (segs key) @ [last (segs key) @ ''.json'']"
    unfolding segs_def by (rule split_on_suffix) simp
  have "list_all clean_name (butlast (segs key))" "clean_name (last (segs key))"
    using assms by (auto simp: key_ok_def list_all_iff dest: in_set_butlastD)
  then show "key_ok (key @ ''.json'')"
    unfolding key_ok_def s using clean_suffix [of "last (segs key)"] by (simp add: VERSION_META_SUFFIX_def)
qed

named_theorems key_paths "the paths of an accepted key"

lemma contentRoot_path [key_paths]: "contentRoot root = root @ [CONTENT_DIR]"
proof -
  have "CONTENT_DIR \<noteq> []" "split_on CHR ''/'' CONTENT_DIR = [CONTENT_DIR]" "\<not> ends_with CONTENT_DIR ''/''"
    by (simp_all add: CONTENT_DIR_def ends_with_def)
  then show ?thesis
    by (simp add: contentRoot_def path_join_def) (simp add: CONTENT_DIR_def)
qed

lemma key_path [key_paths]:
  assumes "key_ok key"
  shows "contentPath root key = root @ CONTENT_DIR # segs key"
    and "metaPath root key = root @ META_DIR # segs (key @ ''.json'')"
    and "versionsDirFor root key = root @ VERSIONS_DIR # segs key"
    and "deleteMarkerPath root key = root @ VERSIONS_DIR # segs key @ [DELETE_MARKER]"
  unfolding contentPath_def metaPath_def versionsDirFor_def deleteMarkerPath_def
  by (simp_all add: path_join_key path_join_key_name assms key_ok_json(1))

lemma version_path [key_paths]:
  assumes "key_ok key" "clean_name v"
  shows "versionContentPath root key v = root @ VERSIONS_DIR # segs key @ [v]"
    and "versionMetaPath root key v = root @ VERSIONS_DIR # segs key @ [v @ VERSION_META_SUFFIX]"
  unfolding versionContentPath_def versionMetaPath_def
  by (simp_all add: path_join_key_name assms)

section \<open>The files of a key\<close>

definition key_files :: "bucket \<Rightarrow> string \<Rightarrow> fpath set" where
  "key_files fb key =
     {contentPath (dataDir fb) key, metaPath (dataDir fb) key}
     \<union> range (\<lambda>name. versionsDirFor (dataDir fb) key @ [name])"

lemma key_files_disjoint:
  assumes "key_ok k" "key_ok k'" "k \<noteq> k'"
  shows "key_files fb k \<inter> key_files fb k' = {}"
proof -
  have "segs k \<noteq> segs k'" "segs (k @ ''.json'') \<noteq> segs (k' @ ''.json'')"
    using segs_inj assms(3) by blast+
  then show ?thesis
    using assms(1,2) by (auto simp: key_files_def key_paths CONTENT_DIR_def META_DIR_def VERSIONS_DIR_def)
qed

definition bucket_ok :: "bucket \<Rightarrow> bool" where
  "bucket_ok fb = list_all clean_name (dataDir fb)"

text \<open>The facts about its paths that the calls of an operation on a key need.\<close>

lemma key_files_paths:
  assumes "bucket_ok fb" "key_ok k"
  shows "contentPath (dataDir fb) k \<in> key_files fb k" "list_all clean_name (contentPath (dataDir fb) k)"
    and "metaPath (dataDir fb) k \<in> key_files fb k" "list_all clean_name (metaPath (dataDir fb) k)"
    and "deleteMarkerPath (dataDir fb) k \<in> key_files fb k" "list_all clean_name (deleteMarkerPath (dataDir fb) k)"
    and "contentPath (dataDir fb) k \<noteq> []" "metaPath (dataDir fb) k \<noteq> []" "deleteMarkerPath (dataDir fb) k \<noteq> []"
  using assms key_ok_json(1) [OF assms(2)]
  by (auto simp: key_files_def key_paths bucket_ok_def key_ok_def)

lemma version_files_paths:
  assumes "bucket_ok fb" "key_ok k" "clean_name v"
  shows "versionContentPath (dataDir fb) k v \<in> key_files fb k" "list_all clean_name (versionContentPath (dataDir fb) k v)"
    and "versionMetaPath (dataDir fb) k v \<in> key_files fb k" "list_all clean_name (versionMetaPath (dataDir fb) k v)"
    and "versionContentPath (dataDir fb) k v \<noteq> []" "versionMetaPath (dataDir fb) k v \<noteq> []"
  using assms by (auto simp: key_files_def key_paths bucket_ok_def key_ok_def)

lemma strict_prefix_butlast: "p \<noteq> [] \<Longrightarrow> strict_prefix (butlast p) p"
  by (cases p rule: rev_cases) (auto simp: strict_prefix_def)

lemma runs_mkdir_dirname:
  assumes "p \<in> S" "list_all clean_name p" "p \<noteq> []"
  shows "runs S (mkdirSync (dirname p)) (\<lambda>_. True)"
proof (rule runs_mkdirSync [OF _ assms(1)])
  show "list_all clean_name (dirname p)"
    using assms(2) by (auto simp: dirname_def list_all_iff dest: in_set_butlastD)
  show "strict_prefix (dirname p) p" using assms(3) by (simp add: dirname_def strict_prefix_butlast)
qed

lemma versionsDir_dirname: "key_ok k \<Longrightarrow> versionsDirFor root k = dirname (deleteMarkerPath root k)"
  by (simp add: key_paths dirname_def butlast_append)

lemma runs_writeMeta:
  "bucket_ok fb \<Longrightarrow> key_ok k \<Longrightarrow> runs (key_files fb k) (writeMeta fb now k m) (\<lambda>_. True)"
  unfolding writeMeta_def Let_def
  by (intro runs_bindF [OF runs_mkdir_dirname] runs_writeFileSync key_files_paths)

lemma clean_version: "clean_name (CHR ''v'' # show_int n)"
proof -
  have "CHR ''/'' \<notin> set (show_int n)"
    using show_nat_digits [of "nat n"] show_nat_digits [of "nat (- n)"]
    by (auto simp: show_int_def is_digit_def char_code_def)
  then show ?thesis by (simp add: clean_name_def)
qed

text \<open>The two readers of a version directory, as functions of what is there.\<close>

lemma nextVersionId_eq:
  "nextVersionId fb k d =
     (d, case node_at d (versionsDirFor (dataDir fb) k) of
           None \<Rightarrow> Inr ''v1''
         | Some (File _ _) \<Rightarrow> Inl (fs_error ''ENOTDIR'')
         | Some Dir \<Rightarrow> Inr (CHR ''v'' # show_int (next_number (map fst (children d (versionsDirFor (dataDir fb) k))))))"
  by (simp add: nextVersionId_def Let_def existsSync_def readdirSync_def bindF_def retF_def split: option.split node.split)

lemma readVersions_eq:
  "readVersions fb k d =
     (d, case node_at d (versionsDirFor (dataDir fb) k) of
           None \<Rightarrow> Inr []
         | Some (File _ _) \<Rightarrow> Inl (fs_error ''ENOTDIR'')
         | Some Dir \<Rightarrow>
             Inr (mark_current (existsSync d (deleteMarkerPath (dataDir fb) k))
                   (newest_first (List.map_filter version_entry (children d (versionsDirFor (dataDir fb) k))))))"
  by (simp add: readVersions_def Let_def existsSync_def readdirSync_def bindF_def retF_def split: option.split node.split)

lemma runs_nextVersionId: "runs S (nextVersionId fb k) clean_name"
proof (rule runs_pure)
  have "clean_name ''v1''" by (simp add: clean_name_def)
  then show "clean_name a" if "snd (nextVersionId fb k d) = Inr a" for d a
    using that clean_version by (auto simp: nextVersionId_eq split: option.splits node.splits)
qed (simp add: nextVersionId_eq)

lemma runs_put_version:
  assumes "bucket_ok fb" "key_ok k"
  shows "runs (key_files fb k) (put_version fb now k b m) (\<lambda>_. True)"
  unfolding put_version_def versionsDir_dirname [OF assms(2)]
  by (rule runs_bindF [OF runs_nextVersionId])
     (intro runs_bindF [OF runs_mkdir_dirname] runs_bindF [OF runs_writeFileSync] runs_tryF runs_remove
        key_files_paths version_files_paths assms | assumption)+

lemma runs_put:
  assumes "bucket_ok fb"
  shows "runs (key_files fb k) (bucket_put fb now k b opts) (\<lambda>_. True)"
  unfolding bucket_put_def Let_def
proof (rule runs_bindF [OF runs_liftF [where Q = "\<lambda>_. key_ok k"]])
  fix u :: unit
  assume k: "key_ok k"
  show "runs (key_files fb k)
     (bindF (mkdirSync (dirname (contentPath (dataDir fb) k)))
       (\<lambda>_. bindF (if versioned fb then put_version fb now k b (put_meta opts) else retF ())
         (\<lambda>_. bindF (writeMeta fb now k (put_meta opts)) (\<lambda>_. writeFileSync now (contentPath (dataDir fb) k) b)))) (\<lambda>_. True)"
    by (intro runs_bindF [OF runs_mkdir_dirname] runs_bindF [OF runs_writeMeta] runs_writeFileSync
        runs_bindF [where Q = "\<lambda>_. True" and m = "if _ then _ else _"] key_files_paths assms k)
       (simp add: runs_put_version runs_retF assms k)
qed (simp add: validateKey_ok)

text \<open>The versions listed are files of the version directory, so their names are names.\<close>

lemma version_entry_name: "version_entry (name, n) = Some v \<Longrightarrow> versionId v = name"
  by (auto simp: version_entry_def split: node.splits if_splits)

lemma map_filter_member: "y \<in> set (List.map_filter f xs) \<longleftrightarrow> (\<exists>x \<in> set xs. f x = Some y)"
  by (induction xs) (auto simp: List.map_filter_simps split: option.splits)

lemma mark_current_member: "v \<in> set (mark_current m vs) \<Longrightarrow> \<exists>w \<in> set vs. versionId w = versionId v"
  by (auto simp: mark_current_def split: list.splits if_splits)

lemma readVersions_listed:
  assumes "wf_disk d" "snd (readVersions fb k d) = Inr vs" "v \<in> set vs"
  shows "\<exists>b t. entry d (versionsDirFor (dataDir fb) k @ [versionId v]) = Some (File b t) \<and> isVersionEntry (versionId v)"
proof -
  obtain w where w: "w \<in> set (List.map_filter version_entry (children d (versionsDirFor (dataDir fb) k)))"
      "versionId w = versionId v"
    using assms(2,3) by (auto simp: readVersions_eq newest_first_def dest!: mark_current_member split: option.splits node.splits)
  then obtain name n where n: "(name, n) \<in> set (children d (versionsDirFor (dataDir fb) k))"
      "version_entry (name, n) = Some w"
    by (auto simp: map_filter_member)
  then have "versionId v = name" using w(2) version_entry_name by simp
  with n children_iff [OF assms(1)] show ?thesis
    by (auto simp: version_entry_def split: node.splits if_splits)
qed

lemma runs_readVersions: "runs S (readVersions fb k) (\<lambda>vs. \<forall>v \<in> set vs. clean_name (versionId v))"
proof (rule runs_pure)
  show "\<forall>v \<in> set vs. clean_name (versionId v)" if "wf_disk d" "snd (readVersions fb k d) = Inr vs" for d vs
    using readVersions_listed [OF that] wf_disk_entry(1) [OF that(1)] by fastforce
qed (simp add: readVersions_eq)

lemma runs_promote:
  assumes "bucket_ok fb" "key_ok k"
  shows "runs (key_files fb k) (promote fb now k vs) (\<lambda>_. True)"
proof (cases vs)
  case Nil
  then show ?thesis
    unfolding promote_def by (simp, intro runs_bindF [OF runs_remove(2)] runs_remove(2) key_files_paths assms)
next
  case (Cons v others)
  have "runs (key_files fb k)
      (bindF (mkdirSync (dirname (contentPath (dataDir fb) k))) (\<lambda>_.
       bindF (copyFileSync now (versionContentPath (dataDir fb) k (versionId v)) (contentPath (dataDir fb) k)) (\<lambda>_.
       bindF (utimesSync (contentPath (dataDir fb) k) t) (\<lambda>_.
       bindF (readF (readVersionMeta fb k (versionId v))) (writeMeta fb now k))))) (\<lambda>_. True)" for t
    by (intro runs_bindF [OF runs_mkdir_dirname] runs_bindF [OF runs_copyFileSync] runs_bindF [OF runs_utimesSync]
        runs_bindF [OF runs_readF] runs_writeMeta key_files_paths assms)
  then show ?thesis
    unfolding promote_def Let_def Cons list.case by (intro runs_bindF [OF runs_statSync]) (simp split: prod.split)
qed

lemma runs_delete_version:
  assumes "bucket_ok fb" "key_ok k"
  shows "runs (key_files fb k) (delete_version fb now k vid) (\<lambda>_. True)"
  unfolding delete_version_def
proof (rule runs_bindF [OF runs_readVersions])
  fix vs :: "FileVersionInfo list"
  assume vs: "\<forall>v \<in> set vs. clean_name (versionId v)"
  show "runs (key_files fb k)
      (if \<not> list_ex (\<lambda>v. versionId v = vid) vs then retF ()
       else bindF (if versionId (hd vs) = vid then promote fb now k (tl vs) else retF ())
             (\<lambda>_. bindF (rmSync (versionMetaPath (dataDir fb) k vid))
                    (\<lambda>_. unlinkSync (versionContentPath (dataDir fb) k vid)))) (\<lambda>_. True)"
  proof (cases "list_ex (\<lambda>v. versionId v = vid) vs")
    case True
    then have "clean_name vid" using vs by (auto simp: list_ex_iff)
    then have "runs (key_files fb k) (bindF (rmSync (versionMetaPath (dataDir fb) k vid))
                    (\<lambda>_. unlinkSync (versionContentPath (dataDir fb) k vid))) (\<lambda>_. True)"
      by (intro runs_bindF [OF runs_remove(2)] runs_remove(1) version_files_paths assms)
    then show ?thesis
      using True by (auto intro!: runs_bindF [where Q = "\<lambda>_. True"] runs_promote runs_retF assms)
  qed (simp add: runs_retF)
qed

lemma runs_delete:
  assumes "bucket_ok fb"
  shows "runs (key_files fb k) (bucket_delete fb now k vid) (\<lambda>_. True)"
  unfolding bucket_delete_def
proof (rule runs_bindF [OF runs_liftF [where Q = "\<lambda>_. key_ok k"]])
  fix u :: unit
  assume k: "key_ok k"
  have "runs (key_files fb k) (place_marker fb now k) (\<lambda>_. True)"
    unfolding place_marker_def versionsDir_dirname [OF k]
    by (intro runs_bindF [OF runs_mkdir_dirname] runs_writeFileSync key_files_paths assms k)
  moreover have "runs (key_files fb k) (remove_current fb k) (\<lambda>_. True)"
    unfolding remove_current_def
    by (intro runs_bindF [OF runs_tryF] runs_tryF runs_remove key_files_paths assms k)
  ultimately show "runs (key_files fb k)
      (if versioned fb then case given vid of None \<Rightarrow> place_marker fb now k | Some v \<Rightarrow> delete_version fb now k v
       else remove_current fb k) (\<lambda>_. True)"
    using runs_delete_version [OF assms k] by (simp split: option.split)
qed (simp add: validateKey_ok)

section \<open>Every operation keeps to its keys\<close>

datatype bucket_op =
    Put string string FilePutOptions
  | Delete string "string option"
  | DeleteBatch "string list"
  | RestoreVersion string string

fun bucket_step :: "bucket \<Rightarrow> int \<Rightarrow> bucket_op \<Rightarrow> unit disk_io" where
  "bucket_step fb now (Put k b opts) = bucket_put fb now k b opts"
| "bucket_step fb now (Delete k vid) = bucket_delete fb now k vid"
| "bucket_step fb now (DeleteBatch ks) = bucket_deleteBatch fb now ks"
| "bucket_step fb now (RestoreVersion k vid) = bucket_restoreVersion fb now k vid"

fun op_keys :: "bucket_op \<Rightarrow> string list" where
  "op_keys (Put k _ _) = [k]"
| "op_keys (Delete k _) = [k]"
| "op_keys (DeleteBatch ks) = ks"
| "op_keys (RestoreVersion k _) = [k]"

definition op_files :: "bucket \<Rightarrow> bucket_op \<Rightarrow> fpath set" where
  "op_files fb op = (\<Union>k \<in> set (filter key_ok (op_keys op)). key_files fb k)"

lemma runs_invalid: "\<not> key_ok k \<Longrightarrow> runs S (bindF (liftF (validateKey fb k)) f) Q"
  using validateKey_ok [of fb k]
  by (intro runs_bindF [OF runs_liftF [where Q = "\<lambda>_. False"]]) auto

lemma runs_step:
  assumes "bucket_ok fb"
  shows "runs (op_files fb op) (bucket_step fb now op) (\<lambda>_. True)"
proof -
  have one: "runs (\<Union>k \<in> set (filter key_ok [k]). key_files fb k) m (\<lambda>_. True)"
    if "runs (key_files fb k) m (\<lambda>_. True)" "\<not> key_ok k \<Longrightarrow> runs {} m (\<lambda>_. True)" for k and m :: "unit disk_io"
    using that by (cases "key_ok k") auto
  show ?thesis
  proof (cases op)
    case (Put k b opts)
    have "runs (op_files fb op) (bucket_put fb now k b opts) (\<lambda>_. True)"
      unfolding op_files_def Put op_keys.simps
      by (rule one [OF runs_put [OF assms]]) (simp add: bucket_put_def runs_invalid)
    then show ?thesis by (simp add: Put)
  next
    case (Delete k vid)
    have "runs (op_files fb op) (bucket_delete fb now k vid) (\<lambda>_. True)"
      unfolding op_files_def Delete op_keys.simps
      by (rule one [OF runs_delete [OF assms]]) (simp add: bucket_delete_def runs_invalid)
    then show ?thesis by (simp add: Delete)
  next
    case (DeleteBatch ks)
    have "runs (op_files fb op) (bucket_deleteBatch fb now ks) (\<lambda>_. True)"
      unfolding bucket_deleteBatch_def
    proof (rule runs_bindF [OF runs_liftF [where Q = "\<lambda>_. list_all key_ok ks"]])
      show "list_all key_ok ks" if "mapR (validateKey fb) ks = Inr us" for us
        using that validateKey_ok by (auto simp: mapR_Inr_iff list_all_length list_all2_conv_all_nth)
      fix u :: "unit list"
      assume "list_all key_ok ks"
      then show "runs (op_files fb op) (eachF (\<lambda>p. bucket_delete fb now p None) ks) (\<lambda>_. True)"
        by (intro runs_eachF runs_mono [OF runs_delete [OF assms]])
           (auto simp: op_files_def DeleteBatch list_all_iff)
    qed
    then show ?thesis by (simp add: DeleteBatch)
  next
    case (RestoreVersion k vid)
    have "runs (key_files fb k) (bucket_restoreVersion fb now k vid) (\<lambda>_. True)"
      unfolding bucket_restoreVersion_def Let_def
      by (intro runs_bindF [OF runs_liftF [where Q = "\<lambda>_. True"]] runs_bindF [OF runs_readF])
         (auto intro!: runs_throwF runs_bindF [OF runs_readFileSync] runs_bindF [OF runs_readF]
            runs_bindF [OF runs_liftF [where Q = "\<lambda>_. True"]] runs_put assms)
    then have "runs (op_files fb op) (bucket_restoreVersion fb now k vid) (\<lambda>_. True)"
      unfolding op_files_def RestoreVersion op_keys.simps
      by (rule one) (simp add: bucket_restoreVersion_def runs_invalid)
    then show ?thesis by (simp add: RestoreVersion)
  qed
qed

end
