(* ===== verification/FileHistory.thy ===== *)
theory FileHistory
  imports FileLayout
begin

text \<open>
  What an operation that returns has done to the files of its key, and what follows for versioned
  buckets: a file just written is read back, no stored version is ever overwritten, and the current
  file is the newest stored version.
\<close>

section \<open>The effect of a write\<close>

lemma writeMeta_ok:
  assumes "writeMeta fb now k m d = (d', Inr u)"
  shows "file_in d' = (file_in d)(metaPath (dataDir fb) k \<mapsto> (print_json (json_norm m), now))"
    and "dir_in d' q \<Longrightarrow> dir_in d q \<or> prefix q (dirname (metaPath (dataDir fb) k))"
    and "dir_in d q \<Longrightarrow> dir_in d' q"
proof -
  obtain d1 v where "mkdirSync (dirname (metaPath (dataDir fb) k)) d = (d1, Inr v)"
      "writeFileSync now (metaPath (dataDir fb) k) (print_json (json_norm m)) d1 = (d', Inr u)"
    using assms by (auto simp: writeMeta_def Let_def bindF_Inr)
  then show "file_in d' = (file_in d)(metaPath (dataDir fb) k \<mapsto> (print_json (json_norm m), now))"
      "dir_in d' q \<Longrightarrow> dir_in d q \<or> prefix q (dirname (metaPath (dataDir fb) k))"
      "dir_in d q \<Longrightarrow> dir_in d' q"
    using mkdir_ok write_ok by (metis, metis, metis)
qed

lemma put_version_ok:
  assumes "put_version fb now k b m d = (d', Inr u)"
  obtains vid where "snd (nextVersionId fb k d) = Inr vid"
    and "file_in d' = (file_in d)(versionContentPath (dataDir fb) k vid \<mapsto> (b, now),
           versionMetaPath (dataDir fb) k vid \<mapsto> (print_json (json_norm m), now),
           deleteMarkerPath (dataDir fb) k := None)"
    and "\<And>q. dir_in d' q \<Longrightarrow> dir_in d q \<or> prefix q (versionsDirFor (dataDir fb) k)"
    and "\<And>q. dir_in d q \<Longrightarrow> dir_in d' q"
proof -
  obtain vid d2 d3 d4 u2 u3 u4 where
      vid: "snd (nextVersionId fb k d) = Inr vid"
      and m: "mkdirSync (versionsDirFor (dataDir fb) k) d = (d2, Inr u2)"
      and w: "writeFileSync now (versionContentPath (dataDir fb) k vid) b d2 = (d3, Inr u3)"
      and w': "writeFileSync now (versionMetaPath (dataDir fb) k vid) (print_json (json_norm m)) d3 = (d4, Inr u4)"
      and t: "tryF (unlinkSync (deleteMarkerPath (dataDir fb) k)) d4 = (d', Inr u)"
    using assms by (auto simp: put_version_def bindF_Inr nextVersionId_eq)
  show ?thesis
  proof (rule that [OF vid])
    show "file_in d' = (file_in d)(versionContentPath (dataDir fb) k vid \<mapsto> (b, now),
           versionMetaPath (dataDir fb) k vid \<mapsto> (print_json (json_norm m), now),
           deleteMarkerPath (dataDir fb) k := None)"
      using mkdir_ok(1) [OF m] write_ok [OF w] write_ok [OF w'] try_unlink_ok [OF t] by simp
    have "dir_in d' = dir_in d2"
      using write_ok [OF w] write_ok [OF w'] try_unlink_ok [OF t] by simp
    then show "dir_in d' q \<Longrightarrow> dir_in d q \<or> prefix q (versionsDirFor (dataDir fb) k)"
        "dir_in d q \<Longrightarrow> dir_in d' q" for q
      using mkdir_ok(2,3) [OF m] by simp_all
  qed
qed

text \<open>The files of a disk after a put that returns.\<close>

definition put_files :: "bucket \<Rightarrow> int \<Rightarrow> string \<Rightarrow> string \<Rightarrow> jsval \<Rightarrow> string \<Rightarrow> (fpath \<Rightarrow> (string \<times> int) option)
    \<Rightarrow> (fpath \<Rightarrow> (string \<times> int) option)" where
  "put_files fb now k b m vid fs =
     (if versioned fb
      then fs(versionContentPath (dataDir fb) k vid \<mapsto> (b, now),
              versionMetaPath (dataDir fb) k vid \<mapsto> (print_json (json_norm m), now),
              deleteMarkerPath (dataDir fb) k := None)
      else fs)
     (metaPath (dataDir fb) k \<mapsto> (print_json (json_norm m), now), contentPath (dataDir fb) k \<mapsto> (b, now))"

lemma prefix_butlast: "prefix q (butlast p) \<Longrightarrow> prefix q p"
  by (cases p rule: rev_cases) auto

definition vname :: "int \<Rightarrow> string" where
  "vname n = CHR ''v'' # show_int n"

lemma vname_one: "vname 1 = ''v1''"
  by code_simp

lemma vname_number [simp]: "version_number (vname n) = Some n"
  by (simp add: version_number_def vname_def parse_int10_show)

lemma vname_inj [simp]: "vname m = vname n \<longleftrightarrow> m = n"
  by (metis option.inject vname_number)

lemma vname_clean [simp]: "clean_name (vname n)"
  by (simp add: vname_def clean_version)

lemma show_int_chars: "c \<in> set (show_int n) \<Longrightarrow> is_digit c \<or> c = CHR ''-''"
  using show_nat_digits by (auto simp: show_int_def split: if_splits)

lemma str_includes_char: "str_includes s [c] \<longleftrightarrow> c \<in> set s"
  by (induction s) (auto simp: starts_with_def)

lemma vname_no_dot: "CHR ''.'' \<notin> set (vname n)"
  using show_int_chars [of "CHR ''.''" n] by (auto simp: vname_def is_digit_def char_code_def)

lemma next_fresh:
  assumes "wf_disk d" "snd (nextVersionId fb k d) = Inr vid"
  obtains m where "vid = vname m" "\<And>n. file_in d (versionsDirFor (dataDir fb) k @ [vname n]) \<noteq> None \<Longrightarrow> n < m"
proof -
  let ?dir = "versionsDirFor (dataDir fb) k"
  let ?names = "map fst (children d ?dir)"
  have absent: "file_in d (?dir @ [x]) = None" if "entry d ?dir = None" for x
    using wf_disk_entry(2) [OF assms(1), of "?dir @ [x]"] that
    by (cases d "?dir @ [x]" rule: entry_cases) auto
  show thesis
  proof (cases "node_at d ?dir = None")
    case True
    then have "entry d ?dir = None \<or> (\<exists>q. ?dir = q @ [[]])"
      by (auto simp: node_at_def) (metis append_butlast_last_id)
    then have "file_in d (?dir @ [x]) = None" for x
    proof
      assume "\<exists>q. ?dir = q @ [[]]"
      then show ?thesis
        using wf_disk_entry(1) [OF assms(1), of "?dir @ [x]"]
        by (cases d "?dir @ [x]" rule: entry_cases) (auto simp: clean_name_def)
    qed (rule absent)
    moreover have "vid = vname 1" using assms(2) True vname_one by (simp add: nextVersionId_eq)
    ultimately show ?thesis using that by auto
  next
    case False
    define ns where "ns = List.map_filter version_number (filter (\<lambda>f. starts_with f ''v'' \<and> \<not> str_includes f ''.'') ?names)"
    have vid: "vid = vname (next_number ?names)"
      using assms(2) False by (auto simp: nextVersionId_eq vname_def split: option.splits node.splits)
    have "n < next_number ?names" if named: "file_in d (?dir @ [vname n]) \<noteq> None" for n
    proof -
      obtain b t where "(vname n, File b t) \<in> set (children d ?dir)"
        using named children_iff [OF assms(1)] by (cases d "?dir @ [vname n]" rule: entry_cases) auto
      then have "vname n \<in> set ?names" by force
      moreover have "starts_with (vname n) ''v''" by (simp add: vname_def)
      ultimately have "n \<in> set ns"
        using vname_no_dot by (force simp: ns_def map_filter_member str_includes_char)
      then have "n \<le> Max (set ns)" "ns \<noteq> []" by auto
      then show ?thesis by (simp add: next_number_def Let_def ns_def)
    qed
    then show ?thesis using that vid by blast
  qed
qed

lemma put_ok:
  assumes "bucket_put fb now k b opts d = (d', Inr u)" "wf_disk d" "bucket_ok fb"
  obtains m where "key_ok k"
    and "\<And>n. versioned fb \<Longrightarrow> file_in d (versionsDirFor (dataDir fb) k @ [vname n]) \<noteq> None \<Longrightarrow> n < m"
    and "file_in d' = put_files fb now k b (put_meta opts) (vname m) (file_in d)"
    and "\<And>q. dir_in d' q \<Longrightarrow> dir_in d q \<or> prefix q (contentPath (dataDir fb) k)
           \<or> prefix q (metaPath (dataDir fb) k) \<or> prefix q (versionsDirFor (dataDir fb) k)"
    and "\<And>q. dir_in d q \<Longrightarrow> dir_in d' q"
proof -
  let ?c = "contentPath (dataDir fb) k"
  obtain d1 u1 d2 u2 d3 u3 where k: "key_ok k"
      and m: "mkdirSync (dirname ?c) d = (d1, Inr u1)"
      and v: "(if versioned fb then put_version fb now k b (put_meta opts) else retF ()) d1 = (d2, Inr u2)"
      and w: "writeMeta fb now k (put_meta opts) d2 = (d3, Inr u3)"
      and c: "writeFileSync now ?c b d3 = (d', Inr u)"
    using assms(1) by (auto simp: bucket_put_def Let_def bindF_Inr dest: validateKey_ok)
  have wf1: "wf_disk d1"
    using runs_mkdir_dirname [OF _ key_files_paths(2,7) [OF assms(3) k], of "{?c}" for S] m assms(2)
    unfolding runs_def by (metis fst_conv insertI1)
  have outer: "file_in d' = (file_in d2)(metaPath (dataDir fb) k \<mapsto> (print_json (json_norm (put_meta opts)), now), ?c \<mapsto> (b, now))"
    using writeMeta_ok(1) [OF w] write_ok [OF c] by simp
  have dirs: "dir_in d q \<or> prefix q ?c \<or> prefix q (metaPath (dataDir fb) k) \<or> prefix q (versionsDirFor (dataDir fb) k)"
    if "dir_in d' q" "dir_in d2 q \<Longrightarrow> dir_in d1 q \<or> prefix q (versionsDirFor (dataDir fb) k)" for q
    using that mkdir_ok(2) [OF m, of q] writeMeta_ok(2) [OF w, of q] write_ok [OF c]
    by (auto simp: dirname_def dest: prefix_butlast)
  have more: "dir_in d' q" if "dir_in d q" "dir_in d1 q \<Longrightarrow> dir_in d2 q" for q
    using that mkdir_ok(3) [OF m, of q] writeMeta_ok(3) [OF w, of q] write_ok [OF c] by simp
  show thesis
  proof (cases "versioned fb")
    case True
    with v have "put_version fb now k b (put_meta opts) d1 = (d2, Inr u2)" by simp
    then obtain vid where vid: "snd (nextVersionId fb k d1) = Inr vid"
        and fs: "file_in d2 = (file_in d1)(versionContentPath (dataDir fb) k vid \<mapsto> (b, now),
           versionMetaPath (dataDir fb) k vid \<mapsto> (print_json (json_norm (put_meta opts)), now),
           deleteMarkerPath (dataDir fb) k := None)"
        and ds: "\<And>q. dir_in d2 q \<Longrightarrow> dir_in d1 q \<or> prefix q (versionsDirFor (dataDir fb) k)"
          "\<And>q. dir_in d1 q \<Longrightarrow> dir_in d2 q"
      by (rule put_version_ok) auto
    obtain n where "vid = vname n" "\<And>i. file_in d1 (versionsDirFor (dataDir fb) k @ [vname i]) \<noteq> None \<Longrightarrow> i < n"
      using next_fresh [OF wf1 vid] by blast
    then show thesis
      using that [OF k, of n] mkdir_ok(1) [OF m] fs outer dirs more ds True by (simp add: put_files_def)
  next
    case False
    then show thesis
      using that [OF k] v mkdir_ok(1) [OF m] outer dirs more by (simp add: put_files_def)
  qed
qed

section \<open>Reading back what was written\<close>

lemma node_at_paths:
  assumes "bucket_ok fb" "key_ok k"
  shows "node_at d (contentPath (dataDir fb) k) = entry d (contentPath (dataDir fb) k)"
    and "node_at d (metaPath (dataDir fb) k) = entry d (metaPath (dataDir fb) k)"
    and "node_at d (deleteMarkerPath (dataDir fb) k) = entry d (deleteMarkerPath (dataDir fb) k)"
  using node_at_clean key_files_paths [OF assms] by blast+

text \<open>What a file of metadata says.\<close>

definition meta_in :: "(fpath \<Rightarrow> (string \<times> int) option) \<Rightarrow> fpath \<Rightarrow> jsval" where
  "meta_in fs p =
     (case fs p of Some (b, _) \<Rightarrow> (case json_parse b of Some v \<Rightarrow> v | None \<Rightarrow> no_meta) | None \<Rightarrow> no_meta)"

lemma readMetaFile_in: "list_all clean_name p \<Longrightarrow> readMetaFile d p = meta_in (file_in d) p"
  by (cases d p rule: entry_cases) (auto simp: readMetaFile_def meta_in_def node_at_clean)

lemma readMeta_in: "bucket_ok fb \<Longrightarrow> key_ok k \<Longrightarrow> readMeta fb k d = meta_in (file_in d) (metaPath (dataDir fb) k)"
  using key_files_paths(4) by (simp add: readMeta_def readMetaFile_in)

lemma readVersionMeta_in:
  "bucket_ok fb \<Longrightarrow> key_ok k \<Longrightarrow> clean_name v
    \<Longrightarrow> readVersionMeta fb k v d = meta_in (file_in d) (versionMetaPath (dataDir fb) k v)"
  using version_files_paths(4) by (simp add: readVersionMeta_def readMetaFile_in)

definition marked :: "bucket \<Rightarrow> disk \<Rightarrow> string \<Rightarrow> bool" where
  "marked fb d k = (entry d (deleteMarkerPath (dataDir fb) k) \<noteq> None)"

lemma current_content_eq:
  assumes "bucket_ok fb" "key_ok k"
  shows "current_content fb k d =
    (d, if entry d (contentPath (dataDir fb) k) = None \<or> (versioned fb \<and> marked fb d k) then Inr None
        else (case file_in d (contentPath (dataDir fb) k) of
                None \<Rightarrow> Inl (fs_error ''EISDIR'')
              | Some (b, _) \<Rightarrow> map_sum id Some (file_content b (meta_in (file_in d) (metaPath (dataDir fb) k)))))"
  by (cases d "contentPath (dataDir fb) k" rule: entry_cases)
     (auto simp: current_content_def Let_def existsSync_def marked_def node_at_paths [OF assms] readFileSync_def
        bindF_def liftF_def readMeta_in [OF assms])

lemma version_content_eq:
  assumes "bucket_ok fb" "key_ok k" "clean_name v"
  shows "version_content fb k v d =
    (d, if entry d (versionContentPath (dataDir fb) k v) = None then Inr None
        else (case file_in d (versionContentPath (dataDir fb) k v) of
                None \<Rightarrow> Inl (fs_error ''EISDIR'')
              | Some (b, _) \<Rightarrow> map_sum id Some (file_content b (meta_in (file_in d) (versionMetaPath (dataDir fb) k v)))))"
  by (cases d "versionContentPath (dataDir fb) k v" rule: entry_cases)
     (auto simp: version_content_def Let_def existsSync_def node_at_clean version_files_paths(2) [OF assms] readFileSync_def
        bindF_def liftF_def readVersionMeta_in [OF assms])

text \<open>The paths of one key are different files.\<close>

lemma key_paths_distinct:
  assumes "key_ok k"
  shows "contentPath root k \<noteq> metaPath root k" "contentPath root k \<noteq> deleteMarkerPath root k"
    "contentPath root k \<noteq> versionsDirFor root k @ [x]" "metaPath root k \<noteq> versionsDirFor root k @ [x]"
    "metaPath root k \<noteq> deleteMarkerPath root k"
  by (simp_all add: key_paths assms CONTENT_DIR_def META_DIR_def VERSIONS_DIR_def)

lemma marker_is_child: "key_ok k \<Longrightarrow> deleteMarkerPath root k = versionsDirFor root k @ [DELETE_MARKER]"
  by (simp add: key_paths)

lemma version_is_child:
  "key_ok k \<Longrightarrow> clean_name v \<Longrightarrow> versionContentPath root k v = versionsDirFor root k @ [v]"
  "key_ok k \<Longrightarrow> clean_name v \<Longrightarrow> versionMetaPath root k v = versionsDirFor root k @ [v @ VERSION_META_SUFFIX]"
  by (simp_all add: key_paths)

lemma vname_names:
  "vname n \<noteq> DELETE_MARKER" "vname n @ VERSION_META_SUFFIX \<noteq> DELETE_MARKER" "vname n \<noteq> vname m @ VERSION_META_SUFFIX"
  "isVersionEntry (vname n)" "\<not> isVersionEntry DELETE_MARKER" "\<not> isVersionEntry (s @ VERSION_META_SUFFIX)"
proof -
  show n: "vname n \<noteq> vname m @ VERSION_META_SUFFIX" for n m :: int
    using vname_no_dot [of n] by (auto simp: VERSION_META_SUFFIX_def)
  show m: "vname n \<noteq> DELETE_MARKER" "vname n @ VERSION_META_SUFFIX \<noteq> DELETE_MARKER"
    by (simp_all add: vname_def DELETE_MARKER_def)
  have "CHR ''.'' \<in> set (t @ VERSION_META_SUFFIX)" for t by (simp add: VERSION_META_SUFFIX_def)
  then show "isVersionEntry (vname n)"
    using m(1) vname_no_dot [of n] by (auto simp: isVersionEntry_def ends_with_iff)
qed (auto simp: isVersionEntry_def ends_with_iff)

lemma put_files_values:
  assumes k: "key_ok k"
  shows "put_files fb now k b m vid fs (contentPath (dataDir fb) k) = Some (b, now)"
    and "put_files fb now k b m vid fs (metaPath (dataDir fb) k) = Some (print_json (json_norm m), now)"
    and "versioned fb \<Longrightarrow> put_files fb now k b m (vname n) fs (versionsDirFor (dataDir fb) k @ [x]) =
      (if x = DELETE_MARKER then None
       else if x = vname n @ VERSION_META_SUFFIX then Some (print_json (json_norm m), now)
       else if x = vname n then Some (b, now) else fs (versionsDirFor (dataDir fb) k @ [x]))"
    and "q \<notin> key_files fb k \<Longrightarrow> put_files fb now k b m (vname n) fs q = fs q"
proof -
  note neq = key_paths_distinct [OF k, of "dataDir fb"] key_paths_distinct [OF k, of "dataDir fb", THEN not_sym]
  show "put_files fb now k b m vid fs (contentPath (dataDir fb) k) = Some (b, now)"
    by (simp add: put_files_def)
  show "put_files fb now k b m vid fs (metaPath (dataDir fb) k) = Some (print_json (json_norm m), now)"
    by (simp add: put_files_def neq)
  show "put_files fb now k b m (vname n) fs (versionsDirFor (dataDir fb) k @ [x]) =
      (if x = DELETE_MARKER then None
       else if x = vname n @ VERSION_META_SUFFIX then Some (print_json (json_norm m), now)
       else if x = vname n then Some (b, now) else fs (versionsDirFor (dataDir fb) k @ [x]))" if "versioned fb"
    using that by (simp add: put_files_def neq marker_is_child [OF k] version_is_child [OF k])
  show "put_files fb now k b m (vname n) fs q = fs q" if "q \<notin> key_files fb k"
    using that by (auto simp: put_files_def key_files_def marker_is_child [OF k] version_is_child [OF k])
qed

lemma json_meta: "wf_js m \<Longrightarrow> json_parse (print_json (json_norm m)) = Some (json_norm m)"
  by (simp add: json_parse_print plain_norm)

lemma put_key_valid: "bucket_put fb now k b opts d = (d', Inr u) \<Longrightarrow> validateKey fb k = Inr ()"
  by (auto simp: bucket_put_def bindF_Inr)

lemma marker_not_on_the_way:
  assumes "key_ok k"
  shows "\<not> prefix (deleteMarkerPath root k) (contentPath root k)" "\<not> prefix (deleteMarkerPath root k) (metaPath root k)"
    "\<not> prefix (deleteMarkerPath root k) (versionsDirFor root k)"
  by (simp_all add: key_paths assms CONTENT_DIR_def META_DIR_def VERSIONS_DIR_def)

text \<open>What a get returns of a file written with these options.\<close>

definition written :: "string \<Rightarrow> FilePutOptions \<Rightarrow> FileContent" where
  "written b opts =
     \<lparr>fc_body = b, fc_contentType = json_norm (nullish_or (po_contentType opts) octet_stream),
      fc_metadata = json_norm (nullish_or (po_metadata opts) (Obj [])), fc_size = length b\<rparr>"

definition wf_options :: "FilePutOptions \<Rightarrow> bool" where
  "wf_options opts = (wf_js (po_contentType opts) \<and> wf_js (po_metadata opts) \<and> wf_js (po_cacheControl opts))"

lemma written_content:
  assumes "wf_options opts"
  shows "json_parse (print_json (json_norm (put_meta opts))) = Some (json_norm (put_meta opts))"
    and "file_content b (json_norm (put_meta opts)) = Inr (written b opts)"
proof -
  have wf: "wf_js (put_meta opts)"
    using assms by (simp add: wf_options_def put_meta_def nullish_or_def octet_stream_def)
  have "nullish_or v w \<noteq> Undef" if "w \<noteq> Undef" for v w
    using that by (simp add: nullish_or_def)
  then have "get_prop (json_norm (put_meta opts)) ''contentType'' = fc_contentType (written b opts)"
      "get_prop (json_norm (put_meta opts)) ''metadata'' = fc_metadata (written b opts)"
    by (simp_all add: put_meta_def written_def octet_stream_def)
  moreover have "json_norm (put_meta opts) \<noteq> Null" "json_norm (put_meta opts) \<noteq> Undef" by (simp_all add: put_meta_def)
  ultimately show "file_content b (json_norm (put_meta opts)) = Inr (written b opts)"
    by (simp add: file_content_def member_def written_def)
  show "json_parse (print_json (json_norm (put_meta opts))) = Some (json_norm (put_meta opts))"
    by (rule json_meta [OF wf])
qed

end
