(* ===== verification/FileCurrent.thy ===== *)
theory FileCurrent
  imports FileHistory
begin

text \<open>
  The state a versioned bucket is always in after operations that return: every file in a version
  directory is a numbered version, its sidecar or the delete marker, and the current file of a key is
  a copy of its newest version.
\<close>

section \<open>The effect of deletions\<close>

lemma place_marker_ok:
  assumes "place_marker fb now k d = (d', Inr u)"
  shows "file_in d' = (file_in d)(deleteMarkerPath (dataDir fb) k \<mapsto> ([], now))"
proof -
  obtain d1 v where m: "mkdirSync (versionsDirFor (dataDir fb) k) d = (d1, Inr v)"
      and w: "writeFileSync now (deleteMarkerPath (dataDir fb) k) [] d1 = (d', Inr u)"
    using assms by (auto simp: place_marker_def bindF_Inr)
  then show ?thesis using mkdir_ok(1) [OF m] write_ok [OF w] by simp
qed

text \<open>The files after the current copies have been taken from version \<open>next\<close>, or removed.\<close>

definition promoted :: "bucket \<Rightarrow> int \<Rightarrow> string \<Rightarrow> FileVersionInfo list \<Rightarrow> (fpath \<Rightarrow> (string \<times> int) option)
    \<Rightarrow> (fpath \<Rightarrow> (string \<times> int) option)" where
  "promoted fb now k others fs =
     (case others of
        [] \<Rightarrow> fs(contentPath (dataDir fb) k := None, metaPath (dataDir fb) k := None)
      | next # _ \<Rightarrow>
          fs(contentPath (dataDir fb) k := fs (versionContentPath (dataDir fb) k (versionId next)),
             metaPath (dataDir fb) k \<mapsto>
               (print_json (json_norm (meta_in fs (versionMetaPath (dataDir fb) k (versionId next)))), now)))"

lemma promote_ok:
  assumes "promote fb now k others d = (d', Inr u)" "bucket_ok fb" "key_ok k"
    and "\<And>v. v \<in> set others \<Longrightarrow> clean_name (versionId v) \<and> file_in d (versionContentPath (dataDir fb) k (versionId v)) \<noteq> None"
  shows "file_in d' = promoted fb now k others (file_in d)"
proof (cases others)
  case Nil
  then obtain d1 v where "rmSync (contentPath (dataDir fb) k) d = (d1, Inr v)" "rmSync (metaPath (dataDir fb) k) d1 = (d', Inr u)"
    using assms(1) by (auto simp: promote_def bindF_Inr)
  then show ?thesis using rm_ok by (simp add: promoted_def Nil)
next
  case (Cons v others')
  let ?c = "contentPath (dataDir fb) k" and ?s = "versionContentPath (dataDir fb) k (versionId v)"
  have cl: "clean_name (versionId v)" "file_in d ?s \<noteq> None" using assms(4) [of v] Cons by auto
  then obtain b t where bt: "file_in d ?s = Some (b, t)" by auto
  have plain: "?s = [] \<or> last ?s \<noteq> []"
    using cl(1) by (simp add: version_path(1) assms(3) clean_name_def)
  obtain n mtime d1 d2 d3 d4 u1 u2 u3 where
      st: "statSync ?s d = (d1, Inr (n, mtime))"
      and mk: "mkdirSync (dirname ?c) d1 = (d2, Inr u1)"
      and cp: "copyFileSync now ?s ?c d2 = (d3, Inr u2)"
      and ut: "utimesSync ?c mtime d3 = (d4, Inr u3)"
      and wm: "writeMeta fb now k (readVersionMeta fb k (versionId v) d4) d4 = (d', Inr u)"
    using assms(1) by (auto simp: promote_def Cons Let_def bindF_Inr)
  have d1: "d1 = d" "mtime = t" using stat_ok [OF st bt plain] by auto
  have f2: "file_in d2 = file_in d" using mkdir_ok(1) [OF mk] d1 by simp
  have f3: "file_in d3 = (file_in d)(?c \<mapsto> (b, now))"
    using copy_ok [OF cp plain] f2 bt by auto
  have f4: "file_in d4 = (file_in d)(?c \<mapsto> (b, t))"
    using utimes_ok [OF ut, of b now] f3 d1 by simp
  have neq: "?c \<noteq> versionMetaPath (dataDir fb) k (versionId v)"
    using key_paths_distinct(3) [OF assms(3)] version_is_child(2) [OF assms(3) cl(1)] by metis
  have "readVersionMeta fb k (versionId v) d4 = meta_in (file_in d) (versionMetaPath (dataDir fb) k (versionId v))"
    using neq by (simp add: readVersionMeta_in [OF assms(2,3) cl(1)] f4 meta_in_def)
  then show ?thesis
    using writeMeta_ok(1) [OF wm] by (simp add: promoted_def Cons f4 bt)
qed

lemma delete_version_ok:
  assumes "delete_version fb now k vid d = (d', Inr u)" "wf_disk d" "bucket_ok fb" "key_ok k"
  obtains vs where "snd (readVersions fb k d) = Inr vs"
    and "vid \<notin> versionId ` set vs \<Longrightarrow> d' = d"
    and "vid \<in> versionId ` set vs \<Longrightarrow> clean_name vid"
    and "vid \<in> versionId ` set vs \<Longrightarrow> file_in d' =
      (if versionId (hd vs) = vid then promoted fb now k (tl vs) (file_in d) else file_in d)
        (versionMetaPath (dataDir fb) k vid := None, versionContentPath (dataDir fb) k vid := None)"
proof -
  obtain vs where vs: "snd (readVersions fb k d) = Inr vs"
      and run: "(if \<not> list_ex (\<lambda>v. versionId v = vid) vs then retF ()
       else
         bindF (if versionId (hd vs) = vid then promote fb now k (tl vs) else retF ()) (\<lambda>_.
         bindF (rmSync (versionMetaPath (dataDir fb) k vid)) (\<lambda>_.
           unlinkSync (versionContentPath (dataDir fb) k vid)))) d = (d', Inr u)"
    using assms(1) by (auto simp: delete_version_def bindF_Inr readVersions_eq)
  have ids: "clean_name (versionId v)" "file_in d (versionContentPath (dataDir fb) k (versionId v)) \<noteq> None" if listed: "v \<in> set vs" for v
  proof -
    obtain b t where e: "entry d (versionsDirFor (dataDir fb) k @ [versionId v]) = Some (File b t)"
      using readVersions_listed [OF assms(2) vs listed] by blast
    then show cl: "clean_name (versionId v)" using wf_disk_entry(1) [OF assms(2)] by fastforce
    show "file_in d (versionContentPath (dataDir fb) k (versionId v)) \<noteq> None"
      using e by (simp add: version_is_child(1) [OF assms(4) cl] file_in_def)
  qed
  show thesis
  proof (rule that [OF vs])
    show "d' = d" if "vid \<notin> versionId ` set vs"
    proof -
      have "\<not> list_ex (\<lambda>v. versionId v = vid) vs" using that by (auto simp: list_ex_iff)
      then show ?thesis using run by simp
    qed
    assume mem: "vid \<in> versionId ` set vs"
    then show "clean_name vid" using ids(1) by auto
    from mem have "list_ex (\<lambda>v. versionId v = vid) vs" by (auto simp: list_ex_iff)
    then obtain d1 d2 u1 u2 where
        p: "(if versionId (hd vs) = vid then promote fb now k (tl vs) else retF ()) d = (d1, Inr u1)"
        and r: "rmSync (versionMetaPath (dataDir fb) k vid) d1 = (d2, Inr u2)"
        and l: "unlinkSync (versionContentPath (dataDir fb) k vid) d2 = (d', Inr u)"
      using run by (auto simp: bindF_Inr)
    have "file_in d1 = (if versionId (hd vs) = vid then promoted fb now k (tl vs) (file_in d) else file_in d)"
      using p promote_ok [of fb now k "tl vs" d d1 u1] ids assms(3,4) list.set_sel(2) [of vs]
      by (cases vs) (auto split: if_splits)
    then show "file_in d' = (if versionId (hd vs) = vid then promoted fb now k (tl vs) (file_in d) else file_in d)
        (versionMetaPath (dataDir fb) k vid := None, versionContentPath (dataDir fb) k vid := None)"
      using rm_ok [OF r] unlink_ok [OF l] by simp
  qed
qed

section \<open>Versions by the files there are\<close>

type_synonym files = "fpath \<Rightarrow> (string \<times> int) option"

definition names_ok :: "bucket \<Rightarrow> int \<Rightarrow> files \<Rightarrow> string \<Rightarrow> bool" where
  "names_ok fb now fs k =
     (\<forall>x b t. fs (versionsDirFor (dataDir fb) k @ [x]) = Some (b, t) \<longrightarrow>
        t \<le> now \<and> (x = DELETE_MARKER \<or> (\<exists>n. x = vname n \<or> x = vname n @ VERSION_META_SUFFIX)))"

abbreviation version_at :: "bucket \<Rightarrow> files \<Rightarrow> string \<Rightarrow> int \<Rightarrow> (string \<times> int) option" where
  "version_at fb fs k n \<equiv> fs (versionsDirFor (dataDir fb) k @ [vname n])"

text \<open>Version \<open>n\<close> is the newest: the latest, and among the latest the one of the greatest number.\<close>

definition newest :: "bucket \<Rightarrow> files \<Rightarrow> string \<Rightarrow> int \<Rightarrow> bool" where
  "newest fb fs k n =
     (\<exists>b t. version_at fb fs k n = Some (b, t)
        \<and> (\<forall>m c u. version_at fb fs k m = Some (c, u) \<longrightarrow> u < t \<or> (u = t \<and> m \<le> n)))"

definition mirrored :: "bucket \<Rightarrow> files \<Rightarrow> string \<Rightarrow> bool" where
  "mirrored fb fs k =
     (\<forall>b t. fs (contentPath (dataDir fb) k) = Some (b, t) \<longrightarrow>
        (\<exists>n u. newest fb fs k n \<and> version_at fb fs k n = Some (b, u)
           \<and> meta_in fs (metaPath (dataDir fb) k) = meta_in fs (versionMetaPath (dataDir fb) k (vname n))))"

definition key_inv :: "bucket \<Rightarrow> int \<Rightarrow> files \<Rightarrow> string \<Rightarrow> bool" where
  "key_inv fb now fs k = (names_ok fb now fs k \<and> mirrored fb fs k)"

lemma newest_unique: "newest fb fs k m \<Longrightarrow> newest fb fs k n \<Longrightarrow> m = n"
  unfolding newest_def by (metis Pair_inject less_irrefl less_trans option.inject order_antisym)

text \<open>It depends on the files of the key only, and on the clock only as a bound.\<close>

lemma key_inv_cong:
  assumes "key_inv fb now fs k" "key_ok k" "now \<le> now'" and same: "\<And>p. p \<in> key_files fb k \<Longrightarrow> fs' p = fs p"
  shows "key_inv fb now' fs' k"
proof -
  have child: "fs' (versionsDirFor (dataDir fb) k @ [x]) = fs (versionsDirFor (dataDir fb) k @ [x])" for x
    by (rule same) (simp add: key_files_def)
  have paths: "fs' (contentPath (dataDir fb) k) = fs (contentPath (dataDir fb) k)"
      "fs' (metaPath (dataDir fb) k) = fs (metaPath (dataDir fb) k)"
    by (auto intro: same simp: key_files_def)
  have meta: "meta_in fs' (versionMetaPath (dataDir fb) k (vname n)) = meta_in fs (versionMetaPath (dataDir fb) k (vname n))" for n
    by (simp add: meta_in_def version_is_child(2) [OF assms(2)] child)
  have "names_ok fb now' fs' k" using assms(1,3) by (fastforce simp: key_inv_def names_ok_def child)
  moreover have "mirrored fb fs' k"
    using assms(1) by (simp add: key_inv_def mirrored_def newest_def child paths meta meta_in_def [of _ "metaPath _ _"])
  ultimately show ?thesis by (simp add: key_inv_def)
qed

lemma key_inv_put:
  assumes k: "key_ok k" and v: "versioned fb" and inv: "key_inv fb now fs k" "now \<le> now'"
    and fresh: "\<And>n. version_at fb fs k n \<noteq> None \<Longrightarrow> n < m"
  shows "key_inv fb now' (put_files fb now' k b meta (vname m) fs) k"
proof -
  let ?fs = "put_files fb now' k b meta (vname m) fs"
  note val = put_files_values [OF k]
  have child: "?fs (versionsDirFor (dataDir fb) k @ [x]) =
      (if x = DELETE_MARKER then None
       else if x = vname m @ VERSION_META_SUFFIX then Some (print_json (json_norm meta), now')
       else if x = vname m then Some (b, now') else fs (versionsDirFor (dataDir fb) k @ [x]))" for x
    using val(3) [OF v] by simp
  have at: "version_at fb ?fs k n = (if n = m then Some (b, now') else version_at fb fs k n)" for n
    by (simp add: child vname_names)
  have "names_ok fb now' ?fs k"
    using inv unfolding key_inv_def names_ok_def child by (fastforce split: if_splits)
  moreover have "mirrored fb ?fs k"
  proof -
    have "newest fb ?fs k m"
      using inv fresh unfolding newest_def key_inv_def names_ok_def by (fastforce simp: at)
    moreover have "meta_in ?fs (metaPath (dataDir fb) k) = meta_in ?fs (versionMetaPath (dataDir fb) k (vname m))"
      by (simp add: meta_in_def val(2) version_is_child(2) [OF k] child vname_names)
    moreover have "version_at fb ?fs k m = Some (b, now')" by (simp add: at)
    ultimately show ?thesis by (auto simp: mirrored_def val(1))
  qed
  ultimately show ?thesis by (simp add: key_inv_def)
qed

lemma key_inv_marker:
  assumes k: "key_ok k" and inv: "key_inv fb now fs k" "now \<le> now'"
  shows "key_inv fb now' (fs(deleteMarkerPath (dataDir fb) k \<mapsto> ([], now'))) k"
proof -
  note neq = key_paths_distinct [OF k, of "dataDir fb"] vname_names
  have "names_ok fb now' (fs(deleteMarkerPath (dataDir fb) k \<mapsto> ([], now'))) k"
    using inv by (fastforce simp: key_inv_def names_ok_def marker_is_child [OF k])
  moreover have "mirrored fb (fs(deleteMarkerPath (dataDir fb) k \<mapsto> ([], now'))) k"
    using inv neq
    by (simp add: key_inv_def mirrored_def newest_def meta_in_def marker_is_child [OF k] version_is_child(2) [OF k] not_sym [OF neq(5)])
  ultimately show ?thesis by (simp add: key_inv_def)
qed

section \<open>The listing is the versions, newest first\<close>

definition rank :: "FileVersionInfo \<Rightarrow> int \<times> int" where
  "rank v = (- v_lastModified v, - opt_or (version_number (versionId v)) 0)"

lemma rank_mark_current [simp]: "map rank (mark_current m vs) = map rank vs"
  by (auto simp: mark_current_def rank_def split: list.splits)

lemma ids_mark_current [simp]: "map versionId (mark_current m vs) = map versionId vs"
  by (auto simp: mark_current_def split: list.splits)

lemma children_distinct: "wf_disk d \<Longrightarrow> distinct (map fst (children d p))"
proof -
  assume "wf_disk d"
  then have d: "distinct (map fst d)" by (simp add: wf_disk_def)
  have "map fst (children d p) = map last (filter (\<lambda>q. q \<noteq> [] \<and> butlast q = p) (map fst d))"
    by (simp add: children_def filter_map comp_def case_prod_unfold)
  moreover have "inj_on last {q :: string list. q \<noteq> [] \<and> butlast q = p}"
    by (rule inj_onI) (metis (mono_tags, lifting) append_butlast_last_id mem_Collect_eq)
  ultimately show ?thesis
    using d by (auto simp: distinct_map intro: inj_on_subset)
qed

lemma version_entry_iff:
  "version_entry (x, n) = Some v \<longleftrightarrow>
     (\<exists>b t. n = File b t \<and> isVersionEntry x \<and> v = \<lparr>versionId = x, v_lastModified = t, v_size = length b, isCurrent = False\<rparr>)"
  by (cases n) (auto simp: version_entry_def)

lemma version_ids_distinct: "distinct (map fst es) \<Longrightarrow> distinct (map versionId (List.map_filter version_entry es))"
proof (induction es)
  case (Cons e es)
  obtain x n where e: "e = (x, n)" by (cases e)
  have ids: "versionId w \<in> fst ` set es" if "w \<in> set (List.map_filter version_entry es)" for w
  proof -
    obtain y m where "(y, m) \<in> set es" "version_entry (y, m) = Some w" using \<open>w \<in> _\<close> by (auto simp: map_filter_member)
    then show ?thesis using version_entry_name by force
  qed
  show ?case
  proof (cases "version_entry e")
    case (Some v)
    then have "versionId v = x" using version_entry_name by (simp add: e)
    then show ?thesis using Cons ids Some by (auto simp: List.map_filter_simps e)
  qed (use Cons in \<open>simp add: List.map_filter_simps\<close>)
qed (simp add: List.map_filter_simps)

lemma listing:
  assumes "wf_disk d" "key_ok k" "names_ok fb now (file_in d) k" "snd (readVersions fb k d) = Inr vs"
  shows "\<And>v. v \<in> set vs \<Longrightarrow> \<exists>n b. versionId v = vname n \<and> version_at fb (file_in d) k n = Some (b, v_lastModified v)"
    and "\<And>n b t. version_at fb (file_in d) k n = Some (b, t) \<Longrightarrow> \<exists>v \<in> set vs. versionId v = vname n \<and> v_lastModified v = t"
    and "distinct (map versionId vs)"
    and "sorted (map rank vs)"
proof -
  let ?dir = "versionsDirFor (dataDir fb) k"
  let ?es = "List.map_filter version_entry (children d ?dir)"
  have vs: "vs = [] \<and> node_at d ?dir = None
      \<or> node_at d ?dir = Some Dir \<and> vs = mark_current (existsSync d (deleteMarkerPath (dataDir fb) k)) (newest_first ?es)"
    using assms(4) by (auto simp: readVersions_eq split: option.splits node.splits)
  have entriesD: "\<exists>b. file_in d (?dir @ [versionId w]) = Some (b, v_lastModified w) \<and> isVersionEntry (versionId w)"
    if w: "w \<in> set ?es" for w
  proof -
    obtain x n where "(x, n) \<in> set (children d ?dir)" "version_entry (x, n) = Some w"
      using w by (auto simp: map_filter_member)
    then show ?thesis by (auto simp: version_entry_iff file_in_Some children_iff [OF assms(1)])
  qed
  have entriesI: "\<lparr>versionId = x, v_lastModified = t, v_size = length b, isCurrent = False\<rparr> \<in> set ?es"
    if "file_in d (?dir @ [x]) = Some (b, t)" "isVersionEntry x" for x b t
    unfolding map_filter_member
    using that by (intro bexI [of _ "(x, File b t)"]) (auto simp: version_entry_iff file_in_Some children_iff [OF assms(1)])
  have number: "\<exists>n. x = vname n" if "file_in d (?dir @ [x]) = Some (b, t)" "isVersionEntry x" for x b t
    using assms(3) that vname_names(5,6) unfolding names_ok_def by metis
  have set: "(\<lambda>v. (versionId v, v_lastModified v)) ` set vs = (\<lambda>v. (versionId v, v_lastModified v)) ` set ?es"
    if "node_at d ?dir = Some Dir"
  proof -
    have m: "map (\<lambda>v. (versionId v, v_lastModified v)) (mark_current m ws) = map (\<lambda>v. (versionId v, v_lastModified v)) ws" for m ws
      by (auto simp: mark_current_def split: list.splits)
    have "vs = mark_current (existsSync d (deleteMarkerPath (dataDir fb) k)) (newest_first ?es)" using vs that by simp
    then have "set (map (\<lambda>v. (versionId v, v_lastModified v)) vs) = set (map (\<lambda>v. (versionId v, v_lastModified v)) (newest_first ?es))"
      by (simp only: m)
    then show ?thesis by (simp add: newest_first_def)
  qed
  show "\<exists>n b. versionId v = vname n \<and> version_at fb (file_in d) k n = Some (b, v_lastModified v)" if v: "v \<in> set vs" for v
  proof -
    have "(versionId v, v_lastModified v) \<in> (\<lambda>v. (versionId v, v_lastModified v)) ` set ?es"
      using set v vs by (cases vs) auto
    then obtain w where w: "w \<in> set ?es" "versionId v = versionId w" "v_lastModified v = v_lastModified w" by auto
    obtain b where b: "file_in d (?dir @ [versionId w]) = Some (b, v_lastModified w)" "isVersionEntry (versionId w)"
      using entriesD [OF w(1)] by blast
    then show ?thesis using number [OF b] w by auto
  qed
  show "\<exists>v \<in> set vs. versionId v = vname n \<and> v_lastModified v = t"
    if n: "version_at fb (file_in d) k n = Some (b, t)" for n b t
  proof -
    have e: "entry d (?dir @ [vname n]) = Some (File b t)" using n by (simp add: file_in_Some)
    have "entry d ?dir = Some Dir" "list_all clean_name ?dir"
      using wf_disk_entry [OF assms(1) e] by simp_all
    then have dir: "node_at d ?dir = Some Dir" by (simp add: node_at_clean)
    have "\<lparr>versionId = vname n, v_lastModified = t, v_size = length b, isCurrent = False\<rparr> \<in> set ?es"
      by (rule entriesI [OF n]) (simp add: vname_names)
    then have "(vname n, t) \<in> (\<lambda>v. (versionId v, v_lastModified v)) ` set vs"
      unfolding set [OF dir] by force
    then show ?thesis by force
  qed
  show "distinct (map versionId vs)"
  proof -
    have "distinct (map versionId (newest_first ?es))"
      using version_ids_distinct [OF children_distinct [OF assms(1)]] by (simp add: newest_first_def distinct_map)
    then show ?thesis using vs by (metis distinct.simps(1) ids_mark_current list.simps(8))
  qed
  have "sorted (map rank (newest_first es))" for es
    using sorted_sort_key [of rank es] by (simp add: newest_first_def rank_def [abs_def])
  then show "sorted (map rank vs)"
    using vs by auto
qed

lemma newest_hd:
  assumes "wf_disk d" "key_ok k" "names_ok fb now (file_in d) k" "snd (readVersions fb k d) = Inr vs"
    and v: "vs = ws @ v # us" and id: "versionId v = vname n"
  shows "\<exists>b. version_at fb (file_in d) k n = Some (b, v_lastModified v)"
    and "version_at fb (file_in d) k m = Some (c, u) \<Longrightarrow> vname m \<notin> versionId ` set ws
      \<Longrightarrow> u < v_lastModified v \<or> (u = v_lastModified v \<and> m \<le> n)"
proof -
  note l = listing [OF assms(1-4)]
  show "\<exists>b. version_at fb (file_in d) k n = Some (b, v_lastModified v)"
    using l(1) [of v] id by (auto simp: v)
  assume m: "version_at fb (file_in d) k m = Some (c, u)" "vname m \<notin> versionId ` set ws"
  obtain w where w: "w \<in> set vs" "versionId w = vname m" "v_lastModified w = u"
    using l(2) [OF m(1)] by blast
  then have "w \<notin> set ws" using m(2) by force
  then have "w = v \<or> w \<in> set us" using w(1) by (auto simp: v)
  then have "rank v \<le> rank w" using l(4) by (auto simp: v sorted_append)
  then show "u < v_lastModified v \<or> (u = v_lastModified v \<and> m \<le> n)"
    using w id by (auto simp: rank_def less_eq_prod_def)
qed

lemma plain_no_meta: "plain no_meta"
  by (simp add: no_meta_def octet_stream_def)

lemma meta_in_plain: "plain (meta_in fs p)"
  using plain_no_meta json_parse_plain by (auto simp: meta_in_def split: option.splits)

lemma key_inv_delete:
  assumes wf: "wf_disk d" and fb: "bucket_ok fb" and k: "key_ok k"
    and inv: "key_inv fb now (file_in d) k" "now \<le> now'"
    and run: "delete_version fb now' k vid d = (d', Inr u)"
  shows "key_inv fb now' (file_in d') k"
proof -
  obtain vs where vs: "snd (readVersions fb k d) = Inr vs"
      and none: "vid \<notin> versionId ` set vs \<Longrightarrow> d' = d"
      and some: "vid \<in> versionId ` set vs \<Longrightarrow> clean_name vid"
        "vid \<in> versionId ` set vs \<Longrightarrow> file_in d' =
          (if versionId (hd vs) = vid then promoted fb now' k (tl vs) (file_in d) else file_in d)
            (versionMetaPath (dataDir fb) k vid := None, versionContentPath (dataDir fb) k vid := None)"
    using delete_version_ok [OF run wf fb k] by blast
  have names: "names_ok fb now (file_in d) k" and mir: "mirrored fb (file_in d) k"
    using inv(1) by (simp_all add: key_inv_def)
  note l = listing [OF wf k names vs]
  note hd = newest_hd [OF wf k names vs]
  show ?thesis
  proof (cases "vid \<in> versionId ` set vs")
    case False
    then show ?thesis using none key_inv_cong [OF inv(1) k inv(2)] by simp
  next
    case True
    then obtain i where i: "vid = vname i" using l(1) by auto
    obtain v0 rest where vs_eq: "vs = v0 # rest" using True by (cases vs) auto
    obtain n0 where n0: "versionId v0 = vname n0" using l(1) [of v0] vs_eq by auto
    have new0: "newest fb (file_in d) k n0"
      using hd [of "[]" v0 rest n0] vs_eq n0 unfolding newest_def by auto
    note neq = key_paths_distinct [OF k, of "dataDir fb"] key_paths_distinct [OF k, of "dataDir fb", THEN not_sym] vname_names
    define fs where "fs = file_in d"
    define fs' where "fs' = file_in d'"
    have fs': "fs' = (if n0 = i then promoted fb now' k rest fs else fs)
        (versionsDirFor (dataDir fb) k @ [vname i @ VERSION_META_SUFFIX] := None,
         versionsDirFor (dataDir fb) k @ [vname i] := None)"
      using some(2) [OF True] by (simp add: fs_def fs'_def vs_eq n0 i version_is_child [OF k])
    have child: "fs' (versionsDirFor (dataDir fb) k @ [x]) =
        (if x = vname i \<or> x = vname i @ VERSION_META_SUFFIX then None else fs (versionsDirFor (dataDir fb) k @ [x]))" for x
      by (auto simp: fs' promoted_def neq split: list.split)
    have at: "version_at fb fs' k m = (if m = i then None else version_at fb fs k m)" for m
      by (simp add: child vname_names)
    have smeta: "meta_in fs' (versionMetaPath (dataDir fb) k (vname m)) = meta_in fs (versionMetaPath (dataDir fb) k (vname m))"
      if "m \<noteq> i" for m
      using that by (simp add: meta_in_def version_is_child(2) [OF k] child vname_names not_sym [OF vname_names(3)])
    have "names_ok fb now' fs' k"
      unfolding names_ok_def
    proof (intro allI impI)
      fix x b t
      assume "fs' (versionsDirFor (dataDir fb) k @ [x]) = Some (b, t)"
      then have "fs (versionsDirFor (dataDir fb) k @ [x]) = Some (b, t)" by (simp add: child split: if_splits)
      then show "t \<le> now' \<and> (x = DELETE_MARKER \<or> (\<exists>n. x = vname n \<or> x = vname n @ VERSION_META_SUFFIX))"
        using names inv(2) unfolding names_ok_def fs_def by fastforce
    qed
    moreover have "mirrored fb fs' k"
    proof (cases "n0 = i")
      case False
      have same: "fs' (contentPath (dataDir fb) k) = fs (contentPath (dataDir fb) k)"
          "meta_in fs' (metaPath (dataDir fb) k) = meta_in fs (metaPath (dataDir fb) k)"
        using False by (simp_all add: fs' neq meta_in_def)
      show ?thesis
        unfolding mirrored_def
      proof (intro allI impI)
        fix b t
        assume "fs' (contentPath (dataDir fb) k) = Some (b, t)"
        then obtain n u where n: "newest fb fs k n" "version_at fb fs k n = Some (b, u)"
            "meta_in fs (metaPath (dataDir fb) k) = meta_in fs (versionMetaPath (dataDir fb) k (vname n))"
          using mir same unfolding mirrored_def fs_def by metis
        then have ni: "n \<noteq> i" using newest_unique new0 False unfolding fs_def by blast
        then have "newest fb fs' k n" using n(1) unfolding newest_def at by auto
        then show "\<exists>n u. newest fb fs' k n \<and> version_at fb fs' k n = Some (b, u)
             \<and> meta_in fs' (metaPath (dataDir fb) k) = meta_in fs' (versionMetaPath (dataDir fb) k (vname n))"
          using n ni same smeta at by metis
      qed
    next
      case True
      note n0i = True
      show ?thesis
      proof (cases rest)
        case Nil
        then show ?thesis using n0i by (simp add: mirrored_def fs' promoted_def neq)
      next
        case (Cons w us)
        obtain m b where m: "versionId w = vname m" "version_at fb fs k m = Some (b, v_lastModified w)"
          using l(1) [of w] vs_eq Cons unfolding fs_def by auto
        have mi: "m \<noteq> i" using l(3) vs_eq Cons n0 m(1) n0i by auto
        have "u < v_lastModified w \<or> (u = v_lastModified w \<and> j \<le> m)"
          if "version_at fb fs k j = Some (c, u)" "j \<noteq> i" for j c u
          using hd(2) [of "[v0]" w us m j c u] that vs_eq Cons m(1) n0 n0i unfolding fs_def by auto
        then have "newest fb fs' k m"
          using m(2) mi unfolding newest_def at by auto
        moreover have "fs' (contentPath (dataDir fb) k) = Some (b, v_lastModified w)"
          using m by (simp add: fs' n0i promoted_def Cons neq version_is_child(1) [OF k])
        moreover have "meta_in fs' (metaPath (dataDir fb) k) = meta_in fs (versionMetaPath (dataDir fb) k (vname m))"
        proof -
          let ?meta = "meta_in fs (versionMetaPath (dataDir fb) k (vname m))"
          have "fs' (metaPath (dataDir fb) k) = Some (print_json (json_norm ?meta), now')"
            by (simp add: fs' n0i promoted_def Cons neq m(1))
          then show ?thesis
            using meta_in_plain [of fs "versionMetaPath (dataDir fb) k (vname m)"]
            unfolding meta_in_def [of fs' "metaPath (dataDir fb) k"] by (simp add: json_parse_print norm_plain)
        qed
        moreover have "version_at fb fs' k m = Some (b, v_lastModified w)" using m(2) mi by (simp add: at)
        ultimately show ?thesis
          using smeta [OF mi] unfolding mirrored_def by (metis Pair_inject option.inject)
      qed
    qed
    ultimately show ?thesis by (simp add: key_inv_def fs'_def)
  qed
qed

section \<open>Every operation that returns keeps it\<close>

definition bucket_inv :: "bucket \<Rightarrow> int \<Rightarrow> disk \<Rightarrow> bool" where
  "bucket_inv fb now d = (wf_disk d \<and> (\<forall>k. key_ok k \<longrightarrow> key_inv fb now (file_in d) k))"

lemma changes_file: "changes S d d' \<Longrightarrow> p \<notin> S \<Longrightarrow> file_in d' p = file_in d p"
  unfolding changes_def file_in_def by (fastforce split: option.split)

lemma runs_disk: "runs S m Q \<Longrightarrow> wf_disk d \<Longrightarrow> m d = (d', r) \<Longrightarrow> wf_disk d' \<and> changes S d d'"
  unfolding runs_def by (metis fst_conv)

text \<open>It is enough to look at the key of the operation.\<close>

lemma bucket_inv_step:
  assumes "bucket_inv fb now d" "now \<le> now'" "wf_disk d'" "changes (key_files fb k) d d'" "key_ok k"
    and "key_inv fb now' (file_in d') k"
  shows "bucket_inv fb now' d'"
proof -
  have "key_inv fb now' (file_in d') k'" if "key_ok k'" "k' \<noteq> k" for k'
  proof (rule key_inv_cong [OF _ that(1) assms(2)])
    show "key_inv fb now (file_in d) k'" using assms(1) that(1) by (simp add: bucket_inv_def)
    show "file_in d' p = file_in d p" if p: "p \<in> key_files fb k'" for p
      using changes_file [OF assms(4)] key_files_disjoint [OF assms(5) \<open>key_ok k'\<close>] \<open>k' \<noteq> k\<close> p by blast
  qed
  then show ?thesis using assms(3,6) by (auto simp: bucket_inv_def)
qed

lemma put_inv:
  assumes "bucket_inv fb now d" "now \<le> now'" "bucket_ok fb" "versioned fb"
    and run: "bucket_put fb now' k b opts d = (d', Inr u)"
  shows "bucket_inv fb now' d'"
proof -
  have wf: "wf_disk d" using assms(1) by (simp add: bucket_inv_def)
  obtain m where k: "key_ok k"
      and "\<And>n. versioned fb \<Longrightarrow> version_at fb (file_in d) k n \<noteq> None \<Longrightarrow> n < m"
      and "file_in d' = put_files fb now' k b (put_meta opts) (vname m) (file_in d)"
    using put_ok [OF run wf assms(3)] by metis
  then have "key_inv fb now' (file_in d') k"
    using key_inv_put [OF k assms(4) _ assms(2)] assms(1,4) by (simp add: bucket_inv_def)
  then show ?thesis
    using runs_disk [OF runs_put [OF assms(3)] wf run] bucket_inv_step [OF assms(1,2) _ _ k] by blast
qed

lemma delete_inv:
  assumes "bucket_inv fb now d" "now \<le> now'" "bucket_ok fb" "versioned fb"
    and run: "bucket_delete fb now' k vid d = (d', Inr u)"
  shows "bucket_inv fb now' d'"
proof -
  have wf: "wf_disk d" using assms(1) by (simp add: bucket_inv_def)
  have k: "key_ok k"
    and act: "(case given vid of Some v \<Rightarrow> delete_version fb now' k v | None \<Rightarrow> place_marker fb now' k) d = (d', Inr u)"
    using run assms(4) by (auto simp: bucket_delete_def bindF_Inr dest: validateKey_ok)
  have inv: "key_inv fb now (file_in d) k" using assms(1) k by (simp add: bucket_inv_def)
  have "key_inv fb now' (file_in d') k"
  proof (cases "given vid")
    case None
    then have "file_in d' = (file_in d)(deleteMarkerPath (dataDir fb) k \<mapsto> ([], now'))"
      using place_marker_ok [of fb now' k d d' u] act by simp
    then show ?thesis using key_inv_marker [OF k inv assms(2)] by simp
  next
    case (Some v)
    then show ?thesis using key_inv_delete [OF wf assms(3) k inv assms(2)] act by simp
  qed
  then show ?thesis
    using runs_disk [OF runs_delete [OF assms(3)] wf run] bucket_inv_step [OF assms(1,2) _ _ k] by blast
qed

lemma step_inv:
  assumes "bucket_inv fb now d" "now \<le> now'" "bucket_ok fb" "versioned fb"
    and run: "bucket_step fb now' op d = (d', Inr u)"
  shows "bucket_inv fb now' d'"
proof (cases op)
  case (Put k b opts)
  then show ?thesis using put_inv [OF assms(1-4)] run by simp
next
  case (Delete k vid)
  then show ?thesis using delete_inv [OF assms(1-4)] run by simp
next
  case (RestoreVersion k vid)
  have "readFileSync p d = (d1, r) \<longleftrightarrow> d1 = d \<and> r = snd (readFileSync p d)" for p d1 r
    by (auto simp: readFileSync_def)
  then show ?thesis
    using RestoreVersion run put_inv [OF assms(1-4)]
    by (auto simp: bucket_restoreVersion_def Let_def bindF_Inr split: if_splits)
next
  case (DeleteBatch ks)
  have "bucket_inv fb now' d'" if "eachF (\<lambda>p. bucket_delete fb now' p None) ks d = (d', Inr u)" "bucket_inv fb now' d" for d ks
    using that
  proof (induction ks arbitrary: d)
    case (Cons k ks)
    then obtain d1 v where "bucket_delete fb now' k None d = (d1, Inr v)"
        "eachF (\<lambda>p. bucket_delete fb now' p None) ks d1 = (d', Inr u)"
      by (auto simp: bindF_Inr)
    then show ?case using Cons.IH delete_inv [OF Cons.prems(2) order_refl assms(3,4)] by blast
  qed simp
  moreover have "bucket_inv fb now' d"
    using assms(1,2) key_inv_cong [OF _ _ assms(2)] by (auto simp: bucket_inv_def)
  ultimately show ?thesis
    using run DeleteBatch by (auto simp: bucket_deleteBatch_def bindF_Inr)
qed

end
