(* ===== verification/FileProps.thy ===== *)
theory FileProps
  imports FileCurrent
begin

text \<open>
  The properties of the local file bucket: operations keep to the files of their keys, a current file
  is the newest version, stored versions are kept, and a scan lists what a get finds.  The section
  on collisions has runs in which names of the bucket's own bookkeeping meet keys of the user.
\<close>

section \<open>Walking a directory\<close>

lemma dir_on_the_way: "wf_disk d \<Longrightarrow> entry d (r @ x # rest) = Some n \<Longrightarrow> rest \<noteq> [] \<Longrightarrow> entry d (r @ [x]) = Some Dir"
proof (induction rest arbitrary: n rule: rev_induct)
  case (snoc y ys)
  have "entry d (r @ x # ys) = Some Dir"
    using wf_disk_entry(2) [OF snoc.prems(1,2)] by (simp add: butlast_append)
  then show ?case using snoc.IH snoc.prems(1) by (cases "ys = []") auto
qed simp

lemma ex_node: "(\<exists>n. P n) \<longleftrightarrow> P Dir \<or> (\<exists>b t. P (File b t))"
  by (metis node.exhaust)

lemma walkDir_step:
  assumes "wf_disk d"
  shows "p \<in> set (walkDir d dir) \<longleftrightarrow>
    (\<exists>x. entry d (dir @ [x]) = Some Dir \<and> p \<in> set (walkDir d (dir @ [x])))
    \<or> (\<exists>x. p = dir @ [x] \<and> file_in d p \<noteq> None)"
proof -
  have "p \<in> set (walkDir d dir) \<longleftrightarrow>
      (\<exists>x n. entry d (dir @ [x]) = Some n \<and> p \<in> set (if n = Dir then walkDir d (dir @ [x]) else [dir @ [x]]))"
    by (subst walkDir.simps) (auto simp: children_iff [OF assms, symmetric])
  then show ?thesis by (auto simp: ex_node file_in_Some)
qed

lemma walkDir_files:
  assumes wf: "wf_disk d"
  shows "p \<in> set (walkDir d dir) \<longleftrightarrow> strict_prefix dir p \<and> file_in d p \<noteq> None"
proof (induction "depth d - length dir" arbitrary: dir rule: less_induct)
  case less
  have IH: "p \<in> set (walkDir d (dir @ [x])) \<longleftrightarrow> strict_prefix (dir @ [x]) p \<and> file_in d p \<noteq> None"
    if "entry d (dir @ [x]) = Some Dir" for x
  proof (rule less)
    have "Suc (length dir) \<le> depth d" using that child_depth [of x Dir d dir] by (simp add: children_iff [OF wf])
    then show "depth d - length (dir @ [x]) < depth d - length dir" by simp
  qed
  show ?case
  proof
    assume "p \<in> set (walkDir d dir)"
    then show "strict_prefix dir p \<and> file_in d p \<noteq> None"
      unfolding walkDir_step [OF wf, of p dir] using IH by (auto simp: strict_prefix_def prefix_def)
  next
    assume p: "strict_prefix dir p \<and> file_in d p \<noteq> None"
    then obtain zs where zs: "p = dir @ zs" "zs \<noteq> []" by (auto simp: strict_prefix_def prefix_def)
    then obtain x rest where x: "p = dir @ x # rest" by (cases zs) auto
    obtain n where n: "entry d p = Some n" using p by (cases d p rule: entry_cases) auto
    show "p \<in> set (walkDir d dir)"
    proof (cases "rest = []")
      case True
      then have "\<exists>y. p = dir @ [y] \<and> file_in d p \<noteq> None" using p x by blast
      then show ?thesis unfolding walkDir_step [OF wf, of p dir] by blast
    next
      case False
      then have "entry d (dir @ [x]) = Some Dir" using dir_on_the_way [OF wf] n x by blast
      then show ?thesis
        unfolding walkDir_step [OF wf, of p dir] using IH p x False by (auto simp: strict_prefix_def)
    qed
  qed
qed

section \<open>A scan lists what a get finds\<close>

definition no_backslash :: "disk \<Rightarrow> bool" where
  "no_backslash d = (\<forall>p \<in> fst ` set d. list_all (\<lambda>s. CHR 0x5C \<notin> set s) p)"

lemma replace_char_absent: "c \<notin> set s \<Longrightarrow> replace_char c t s = s"
  unfolding replace_char_def by (induction s) auto

lemma scan_path:
  assumes "wf_disk d" "no_backslash d" "file_in d p \<noteq> None" "p = contentRoot (dataDir fb) @ q" "q \<noteq> []"
  shows "replace_char CHR 0x5C ''/'' (join ''/'' (drop (length (contentRoot (dataDir fb))) p)) = join ''/'' q"
    and "segs (join ''/'' q) = q" and "key_ok (join ''/'' q)"
proof -
  obtain b t where e: "entry d p = Some (File b t)" using assms(3) by (cases d p rule: entry_cases) auto
  then have "p \<in> fst ` set d" by (auto simp: entry_def dest: map_of_SomeD intro: rev_image_eqI split: if_splits)
  then have "list_all (\<lambda>s. CHR 0x5C \<notin> set s) p" using assms(2) unfolding no_backslash_def by blast
  then have "list_all (\<lambda>s. CHR 0x5C \<notin> set s) q" by (simp add: assms(4))
  then have "CHR 0x5C \<notin> set (join ''/'' q)" by (auto simp: list_all_iff dest: join_chars)
  then show "replace_char CHR 0x5C ''/'' (join ''/'' (drop (length (contentRoot (dataDir fb))) p)) = join ''/'' q"
    by (simp add: assms(4) replace_char_absent)
  have clean: "list_all clean_name q" using wf_disk_entry(1) [OF assms(1) e] assms(4) by simp
  then show s: "segs (join ''/'' q) = q"
    unfolding segs_def by (intro split_on_join assms(5)) (auto simp: list_all_iff clean_name_def)
  show "key_ok (join ''/'' q)" using clean by (simp add: key_ok_def s)
qed

lemma contentPath_root: "key_ok k \<Longrightarrow> contentPath root k = contentRoot root @ segs k"
  by (simp add: key_paths)

lemma marked_exists: "bucket_ok fb \<Longrightarrow> key_ok k \<Longrightarrow> existsSync d (deleteMarkerPath (dataDir fb) k) = marked fb d k"
  by (simp add: existsSync_def marked_def node_at_paths)

lemma scan_member:
  assumes "wf_disk d" "bucket_ok fb" "no_backslash d" "key_ok k"
  shows "(\<exists>i \<in> set (bucket_scan fb pfx d). fi_path i = k) \<longleftrightarrow>
    starts_with k pfx \<and> file_in d (contentPath (dataDir fb) k) \<noteq> None \<and> \<not> (versioned fb \<and> marked fb d k)"
proof -
  let ?root = "contentRoot (dataDir fb)"
  have item: "(\<exists>i. scan_item fb pfx d p = Some i \<and> fi_path i = k) \<longleftrightarrow>
      p = contentPath (dataDir fb) k \<and> starts_with k pfx \<and> \<not> (versioned fb \<and> marked fb d k)"
    if p: "strict_prefix ?root p" "file_in d p \<noteq> None" for p
  proof -
    obtain q where q: "p = ?root @ q" "q \<noteq> []" using p(1) by (auto simp: strict_prefix_def prefix_def)
    note path = scan_path [OF assms(1,3) p(2) q]
    obtain b t where "entry d p = Some (File b t)" using p(2) by (cases d p rule: entry_cases) auto
    then have "node_at d p = Some (File b t)" using wf_disk_entry(1) [OF assms(1)] by (simp add: node_at_clean)
    then have "(\<exists>i. scan_item fb pfx d p = Some i \<and> fi_path i = k) \<longleftrightarrow>
        join ''/'' q = k \<and> starts_with k pfx \<and> \<not> (versioned fb \<and> marked fb d k)"
      by (auto simp: scan_item_def Let_def path(1) marked_exists [OF assms(2) path(3)])
    also have "join ''/'' q = k \<longleftrightarrow> p = contentPath (dataDir fb) k"
      using path(2) assms(4) by (auto simp: contentPath_root q(1)) (metis join_split_on segs_def)
    finally show ?thesis .
  qed
  have below: "strict_prefix ?root (contentPath (dataDir fb) k)"
    by (simp add: contentPath_root [OF assms(4)] strict_prefix_def)
  have root: "existsSync d ?root" if p: "file_in d p \<noteq> None" "strict_prefix ?root p" for p
  proof -
    obtain zs where zs: "p = ?root @ zs" "zs \<noteq> []" using p(2) by (auto simp: strict_prefix_def prefix_def)
    then obtain y rest where y: "p = dataDir fb @ CONTENT_DIR # y # rest" by (cases zs) (auto simp: key_paths)
    obtain n where "entry d p = Some n" using p(1) by (cases d p rule: entry_cases) auto
    then have "entry d ?root = Some Dir" using dir_on_the_way [OF assms(1), of "dataDir fb" CONTENT_DIR "y # rest"] y
      by (simp add: key_paths)
    moreover have "list_all clean_name ?root" using assms(2) by (simp add: key_paths bucket_ok_def)
    ultimately show ?thesis by (simp add: existsSync_def node_at_clean)
  qed
  have "(\<exists>i \<in> set (bucket_scan fb pfx d). fi_path i = k) \<longleftrightarrow>
      existsSync d ?root \<and> (\<exists>p. strict_prefix ?root p \<and> file_in d p \<noteq> None
         \<and> (\<exists>i. scan_item fb pfx d p = Some i \<and> fi_path i = k))"
  proof -
    have "i \<in> set (bucket_scan fb pfx d) \<longleftrightarrow>
        existsSync d ?root \<and> (\<exists>p. strict_prefix ?root p \<and> file_in d p \<noteq> None \<and> scan_item fb pfx d p = Some i)" for i
      by (simp add: bucket_scan_def Let_def map_filter_member Bex_def walkDir_files [OF assms(1)])
    then show ?thesis by blast
  qed
  also have "\<dots> \<longleftrightarrow> starts_with k pfx \<and> file_in d (contentPath (dataDir fb) k) \<noteq> None \<and> \<not> (versioned fb \<and> marked fb d k)"
    using item root below by blast
  finally show ?thesis .
qed

section \<open>The properties\<close>

definition demo_bucket :: bucket where
  "demo_bucket = \<lparr>dataDir = [''w'', ''b''], versioned = True, objectLocked = False, bk_fullId = ''app-b''\<rparr>"

definition demo_disk :: disk where
  "demo_disk = [([''w''], Dir), ([''w'', ''b''], Dir)]"

definition demo_opts :: FilePutOptions where
  "demo_opts = \<lparr>po_contentType = Str ''text/plain'', po_metadata = Undef, po_cacheControl = Undef\<rparr>"

definition demo_put :: "int \<Rightarrow> string \<Rightarrow> string \<Rightarrow> disk \<Rightarrow> disk" where
  "demo_put now k b d = fst (bucket_put demo_bucket now k b demo_opts d)"

lemma demo_ok: "bucket_ok demo_bucket" "wf_disk demo_disk" "wf_options demo_opts" "versioned demo_bucket"
  by (simp_all add: bucket_ok_def demo_bucket_def clean_name_def wf_disk_def demo_disk_def entry_def
      wf_options_def demo_opts_def)

text \<open>C29: an operation changes no file but the current copy, the metadata and the entries of the version
  directory of its own keys, whether it returns or throws and whatever version id it is given; of
  anything else on the disk it can only create directories on the way to those, and they all lie
  below the bucket's data directory.\<close>

theorem file_ops_contained:
  assumes "wf_disk d" "bucket_ok fb"
  shows "wf_disk (fst (bucket_step fb now op d))
    \<and> changes (op_files fb op) d (fst (bucket_step fb now op d))
    \<and> op_files fb op \<subseteq> {p. strict_prefix (dataDir fb) p}"
proof -
  have "op_files fb op \<subseteq> {p. strict_prefix (dataDir fb) p}"
    by (auto simp: op_files_def key_files_def key_paths strict_prefix_def)
  then show ?thesis
    using runs_step [OF assms(2), of op now] assms(1) by (auto simp: runs_def)
qed

theorem file_ops_contained_witness:
  "changes (op_files demo_bucket (Put ''a/x'' ''hey'' demo_opts)) demo_disk
     (fst (bucket_step demo_bucket 5 (Put ''a/x'' ''hey'' demo_opts) demo_disk))"
  using file_ops_contained [OF demo_ok(2,1), of 5 "Put ''a/x'' ''hey'' demo_opts"] by blast

text \<open>C20: a put that returns is read back by the next get: the same bytes, content type and metadata.
  The one exception is a versioned bucket in which a directory lies where the key's delete marker
  goes; then the file that was just written reads as deleted.\<close>

theorem file_put_get:
  assumes "wf_disk d" "bucket_ok fb" "wf_options opts" and "bucket_put fb now k b opts d = (d', Inr ())"
  shows "bucket_get fb k None d' =
    (d', Inr (if versioned fb \<and> dir_in d (deleteMarkerPath (dataDir fb) k) then None else Some (written b opts)))"
proof -
  obtain m where k: "key_ok k"
      and fs: "file_in d' = put_files fb now k b (put_meta opts) (vname m) (file_in d)"
      and ds: "\<And>q. dir_in d' q \<Longrightarrow> dir_in d q \<or> prefix q (contentPath (dataDir fb) k)
           \<or> prefix q (metaPath (dataDir fb) k) \<or> prefix q (versionsDirFor (dataDir fb) k)"
        "\<And>q. dir_in d q \<Longrightarrow> dir_in d' q"
    using put_ok [OF assms(4,1,2)] by metis
  have marked: "marked fb d' k \<longleftrightarrow> dir_in d (deleteMarkerPath (dataDir fb) k)" if v: "versioned fb"
  proof -
    have "file_in d' (deleteMarkerPath (dataDir fb) k) = None"
      using put_files_values(3) [OF k v, of now b _ m _ DELETE_MARKER] by (simp add: fs marker_is_child [OF k])
    then show ?thesis
      using ds marker_not_on_the_way [OF k, of "dataDir fb"]
      by (cases d' "deleteMarkerPath (dataDir fb) k" rule: entry_cases) (auto simp: marked_def)
  qed
  have content: "file_in d' (contentPath (dataDir fb) k) = Some (b, now)"
      and meta: "file_in d' (metaPath (dataDir fb) k) = Some (print_json (json_norm (put_meta opts)), now)"
    by (simp_all add: fs put_files_values [OF k])
  have "map_sum id Some (file_content b (meta_in (file_in d') (metaPath (dataDir fb) k))) = Inr (Some (written b opts))"
    using written_content [OF assms(3)] meta by (simp add: meta_in_def)
  moreover have "entry d' (contentPath (dataDir fb) k) \<noteq> None"
    using content by (cases d' "contentPath (dataDir fb) k" rule: entry_cases) auto
  ultimately show ?thesis
    using content marked put_key_valid [OF assms(4)]
    by (simp add: bucket_get_def bindF_step liftF_def given_def current_content_eq [OF assms(2) k])
qed

theorem file_put_get_witness:
  "bucket_get demo_bucket ''a'' None (demo_put 10 ''a'' ''first'' demo_disk)
    = (demo_put 10 ''a'' ''first'' demo_disk, Inr (Some (written ''first'' demo_opts)))"
proof -
  have "\<not> dir_in demo_disk (deleteMarkerPath (dataDir demo_bucket) ''a'')" by code_simp
  moreover have "bucket_put demo_bucket 10 ''a'' ''first'' demo_opts demo_disk = (demo_put 10 ''a'' ''first'' demo_disk, Inr ())"
    by code_simp
  note file_put_get [OF demo_ok(2,1,3) this]
  ultimately show ?thesis by simp
qed

text \<open>The disks a versioned bucket can reach from an empty data directory by operations that return,
  while the clock does not run backwards.\<close>

inductive bucket_reach :: "bucket \<Rightarrow> int \<Rightarrow> disk \<Rightarrow> bool" for fb where
  start: "wf_disk d \<Longrightarrow> (\<And>p. strict_prefix (dataDir fb) p \<Longrightarrow> entry d p = None) \<Longrightarrow> bucket_reach fb now d"
| step: "bucket_reach fb now d \<Longrightarrow> now \<le> now' \<Longrightarrow> bucket_step fb now' op d = (d', Inr ()) \<Longrightarrow> bucket_reach fb now' d'"

lemma reach_inv:
  assumes "bucket_reach fb now d" "bucket_ok fb" "versioned fb"
  shows "bucket_inv fb now d"
  using assms(1)
proof induction
  case (start d now)
  have "key_inv fb now (file_in d) k" if "key_ok k" for k
  proof -
    have "file_in d (dataDir fb @ x # q) = None" for x q
      using start(2) [of "dataDir fb @ x # q"] by (simp add: file_in_def strict_prefix_def)
    then show ?thesis using that by (simp add: key_inv_def names_ok_def mirrored_def key_paths)
  qed
  then show ?case using start(1) by (simp add: bucket_inv_def)
next
  case (step now d now' op d')
  then show ?case using step_inv [OF step.IH step.hyps(2) assms(2,3)] by blast
qed

lemma get_current:
  assumes "bucket_ok fb" "bucket_get fb k None d = (d, Inr (Some f))"
  obtains b t where "validateKey fb k = Inr ()" "key_ok k" "file_in d (contentPath (dataDir fb) k) = Some (b, t)"
    "\<not> (versioned fb \<and> marked fb d k)" "file_content b (meta_in (file_in d) (metaPath (dataDir fb) k)) = Inr f"
proof -
  have v: "validateKey fb k = Inr ()" and k: "key_ok k" and c: "current_content fb k d = (d, Inr (Some f))"
    using assms(2) by (auto simp: bucket_get_def given_def bindF_Inr dest: validateKey_ok)
  obtain b t where "file_in d (contentPath (dataDir fb) k) = Some (b, t)" "\<not> (versioned fb \<and> marked fb d k)"
      "map_sum id Some (file_content b (meta_in (file_in d) (metaPath (dataDir fb) k))) = Inr (Some f)"
    using c by (auto simp: current_content_eq [OF assms(1) k] split: if_splits option.splits)
  moreover from this(3) have "file_content b (meta_in (file_in d) (metaPath (dataDir fb) k)) = Inr f"
    by (cases "file_content b (meta_in (file_in d) (metaPath (dataDir fb) k))") auto
  ultimately show thesis using that v k by blast
qed

lemma get_version:
  assumes "bucket_ok fb" "versioned fb" "validateKey fb k = Inr ()" "file_in d (versionsDirFor (dataDir fb) k @ [vname n]) = Some (b, t)"
    and "file_content b (meta_in (file_in d) (versionMetaPath (dataDir fb) k (vname n))) = Inr f"
  shows "bucket_get fb k (Some (vname n)) d = (d, Inr (Some f))"
proof -
  have k: "key_ok k" using validateKey_ok [OF assms(3)] .
  have e: "entry d (versionsDirFor (dataDir fb) k @ [vname n]) = Some (File b t)" using assms(4) by (simp add: file_in_Some)
  have "given (Some (vname n)) = Some (vname n)" by (simp add: given_def vname_def)
  then show ?thesis
    using assms e
    by (simp add: bucket_get_def bindF_step liftF_def version_content_eq [OF assms(1) k vname_clean]
        version_is_child(1) [OF k])
qed


lemma demo_start: "bucket_reach demo_bucket 0 demo_disk"
proof (rule bucket_reach.start [OF demo_ok(2)])
  show "entry demo_disk p = None" if "strict_prefix (dataDir demo_bucket) p" for p
    using that by (auto simp: demo_bucket_def demo_disk_def entry_def strict_prefix_def prefix_def)
qed

definition demo_two :: disk where
  "demo_two = demo_put 20 ''a'' ''second'' (demo_put 10 ''a'' ''first'' demo_disk)"

lemma demo_puts:
  "bucket_put demo_bucket 10 ''a'' ''first'' demo_opts demo_disk = (demo_put 10 ''a'' ''first'' demo_disk, Inr ())"
  "bucket_put demo_bucket 20 ''a'' ''second'' demo_opts (demo_put 10 ''a'' ''first'' demo_disk) = (demo_two, Inr ())"
  by code_simp+

lemma demo_reach: "bucket_reach demo_bucket 20 demo_two"
proof (rule bucket_reach.step)
  show "bucket_reach demo_bucket 10 (demo_put 10 ''a'' ''first'' demo_disk)"
    by (rule bucket_reach.step [OF demo_start, where op = "Put ''a'' ''first'' demo_opts"]) (simp_all add: demo_puts)
  show "bucket_step demo_bucket 20 (Put ''a'' ''second'' demo_opts) (demo_put 10 ''a'' ''first'' demo_disk) = (demo_two, Inr ())"
    by (simp add: demo_puts)
qed simp

lemma demo_get: "bucket_get demo_bucket ''a'' None demo_two = (demo_two, Inr (Some (written ''second'' demo_opts)))"
  by code_simp


text \<open>a put that returns overwrites no stored version: what a get with a version id found before, it
  finds after.\<close>

theorem file_versions_kept:
  assumes "wf_disk d" "bucket_ok fb" "versioned fb"
    and "bucket_get fb k (Some (vname n)) d = (d, Inr (Some f))" and "bucket_put fb now k b opts d = (d', Inr ())"
  shows "bucket_get fb k (Some (vname n)) d' = (d', Inr (Some f))"
proof -
  have v: "validateKey fb k = Inr ()" using put_key_valid [OF assms(5)] .
  obtain m where k: "key_ok k" and fresh: "\<And>i. version_at fb (file_in d) k i \<noteq> None \<Longrightarrow> i < m"
      and fs: "file_in d' = put_files fb now k b (put_meta opts) (vname m) (file_in d)"
    using put_ok [OF assms(5,1,2)] assms(3) by metis
  have "given (Some (vname n)) = Some (vname n)" by (simp add: given_def vname_def)
  then have "version_content fb k (vname n) d = (d, Inr (Some f))"
    using assms(3,4) v by (simp add: bucket_get_def bindF_step liftF_def)
  then obtain c t where c: "version_at fb (file_in d) k n = Some (c, t)"
      "map_sum id Some (file_content c (meta_in (file_in d) (versionMetaPath (dataDir fb) k (vname n)))) = Inr (Some f)"
    by (auto simp: version_content_eq [OF assms(2) k vname_clean] version_is_child(1) [OF k] split: if_splits option.splits)
  then have f: "file_content c (meta_in (file_in d) (versionMetaPath (dataDir fb) k (vname n))) = Inr f"
    by (cases "file_content c (meta_in (file_in d) (versionMetaPath (dataDir fb) k (vname n)))") auto
  have "n \<noteq> m" using fresh [of n] c(1) by auto
  then have "file_in d' (versionsDirFor (dataDir fb) k @ [vname n]) = Some (c, t)"
      "file_in d' (versionsDirFor (dataDir fb) k @ [vname n @ VERSION_META_SUFFIX])
        = file_in d (versionsDirFor (dataDir fb) k @ [vname n @ VERSION_META_SUFFIX])"
    using c(1) by (simp_all add: fs put_files_values(3) [OF k assms(3)] vname_names not_sym [OF vname_names(3)])
  then show ?thesis
    using f by (intro get_version [OF assms(2,3) v]) (simp_all add: meta_in_def version_is_child(2) [OF k])
qed

lemma demo_first:
  "bucket_get demo_bucket ''a'' (Some (vname 1)) (demo_put 10 ''a'' ''first'' demo_disk)
    = (demo_put 10 ''a'' ''first'' demo_disk, Inr (Some (written ''first'' demo_opts)))"
  by code_simp

lemma demo_get_first:
  "snd (bucket_get demo_bucket ''a'' None (demo_put 10 ''a'' ''first'' demo_disk)) = Inr (Some (written ''first'' demo_opts))"
  by code_simp

lemma demo_one_wf: "wf_disk (demo_put 10 ''a'' ''first'' demo_disk)"
  using runs_put [OF demo_ok(1), of "''a''" 10 "''first''" demo_opts] demo_ok(2) by (simp add: runs_def demo_put_def)

theorem file_versions_kept_witness:
  "bucket_get demo_bucket ''a'' (Some (vname 1)) demo_two = (demo_two, Inr (Some (written ''first'' demo_opts)))"
  by (rule file_versions_kept [OF demo_one_wf demo_ok(1,4) demo_first demo_puts(2)])

text \<open>C30: a scan lists exactly the keys that start with its prefix and that a get finds, on a disk where no
  name has a backslash.\<close>

theorem file_scan_exact:
  assumes "wf_disk d" "bucket_ok fb" "no_backslash d" "validateKey fb k = Inr ()"
  shows "(\<exists>i \<in> set (bucket_scan fb pfx d). fi_path i = k) \<longleftrightarrow>
    starts_with k pfx \<and> snd (bucket_get fb k None d) \<notin> {Inr None, Inl (fs_error ''EISDIR'')}"
proof -
  have k: "key_ok k" using validateKey_ok [OF assms(4)] .
  have get: "snd (bucket_get fb k None d) = snd (current_content fb k d)"
    using assms(4) by (simp add: bucket_get_def bindF_step liftF_def given_def)
  have "map_sum id Some (file_content b v) \<noteq> Inl (fs_error ''EISDIR'')" for b v
    by (cases v) (auto simp: file_content_def member_def fs_error_def error_defs)
  moreover have "map_sum id Some r \<noteq> Inr None" for r :: "(thrown, FileContent) res" by (cases r) auto
  ultimately have "snd (bucket_get fb k None d) \<notin> {Inr None, Inl (fs_error ''EISDIR'')} \<longleftrightarrow>
      file_in d (contentPath (dataDir fb) k) \<noteq> None \<and> \<not> (versioned fb \<and> marked fb d k)"
    unfolding get current_content_eq [OF assms(2) k]
    by (cases d "contentPath (dataDir fb) k" rule: entry_cases) auto
  then show ?thesis using scan_member [OF assms(1-3) k] by simp
qed

theorem file_scan_exact_witness:
  "(\<exists>i \<in> set (bucket_scan demo_bucket ''a'' (demo_put 10 ''a'' ''first'' demo_disk)). fi_path i = ''a'')"
proof -
  have "no_backslash (demo_put 10 ''a'' ''first'' demo_disk)" "validateKey demo_bucket ''a'' = Inr ()" by code_simp+
  from file_scan_exact [OF demo_one_wf demo_ok(1) this, of "''a''"] show ?thesis
    by (simp add: demo_get_first written_def)
qed

section \<open>Where bookkeeping and keys meet\<close>

text \<open>Deleting the unused key \<open>a/__deleted__\<close> leaves a directory where the delete marker of \<open>a\<close> goes:
  the put of \<open>a\<close> that follows returns, and the get after it finds nothing.\<close>

lemma marker_key_hides_file:
  "let d1 = fst (bucket_delete demo_bucket 5 ''a/__deleted__'' None demo_disk);
       r = bucket_put demo_bucket 6 ''a'' ''x'' demo_opts d1
   in snd r = Inr () \<and> snd (bucket_get demo_bucket ''a'' None (fst r)) = Inr None"
  by code_simp

text \<open>The sidecar of \<open>a\<close> and the directory of the sidecars of \<open>a.json/...\<close> are the same path, so the two keys
  exclude each other.\<close>

lemma json_key_excludes:
  "snd (bucket_put demo_bucket 6 ''a.json/b'' ''x'' demo_opts (demo_put 5 ''a'' ''y'' demo_disk)) = Inl (fs_error ''EEXIST'')"
  by code_simp

text \<open>A get of a key that is only the prefix of others throws instead of finding nothing.\<close>

lemma prefix_get_throws:
  "snd (bucket_get demo_bucket ''a'' None (demo_put 5 ''a/x'' ''y'' demo_disk)) = Inl (fs_error ''EISDIR'')"
  by code_simp

text \<open>The version id of a get is joined into the path as it is: it reads a file outside the bucket.\<close>

lemma version_id_escapes:
  "snd (bucket_get demo_bucket ''a'' (Some ''../../../../etc/passwd'')
     (demo_disk @ [([''etc''], Dir), ([''etc'', ''passwd''], File ''root:x'' 0)]))
   = Inr (Some \<lparr>fc_body = ''root:x'', fc_contentType = octet_stream, fc_metadata = Obj [], fc_size = 6\<rparr>)"
  by code_simp

text \<open>A scan gives a key with a backslash under the name with a slash.\<close>

lemma backslash_key_renamed:
  "map fi_path (bucket_scan demo_bucket [] (demo_put 5 [CHR ''a'', CHR 0x5C, CHR ''b''] ''y'' demo_disk)) = [''a/b'']"
  by code_simp

text \<open>A version id freed by a permanent delete is given to the next version.\<close>

lemma version_id_reused:
  "let d = fst (bucket_delete demo_bucket 30 ''a'' (Some ''v2'') demo_two) in
   snd (nextVersionId demo_bucket ''a'' d) = Inr ''v2''"
  by code_simp

end
