(* ===== verification/TokenCodec.thy ===== *)
theory TokenCodec
  imports Json
begin

text \<open>
  What the signed tokens of file URLs and of channels share: the base64url codec of \<^verbatim>\<open>Buffer\<close>
  with its inverse theorem, and the comparison of an expiry with the time.
\<close>

section \<open>base64url\<close>

definition b64_char :: "nat \<Rightarrow> char" where
  "b64_char n =
     (if n < 26 then char_of (65 + n) else if n < 52 then char_of (71 + n)
      else if n < 62 then char_of (n - 4) else if n = 62 then CHR ''-'' else CHR ''_'')"

text \<open>The decoder takes both alphabets and skips any other character.\<close>

definition b64_val :: "char \<Rightarrow> nat option" where
  "b64_val c =
     (let n = char_code c in
      if 65 \<le> n \<and> n \<le> 90 then Some (n - 65)
      else if 97 \<le> n \<and> n \<le> 122 then Some (n - 71)
      else if 48 \<le> n \<and> n \<le> 57 then Some (n + 4)
      else if n = 45 \<or> n = 43 then Some 62
      else if n = 95 \<or> n = 47 then Some 63
      else None)"

fun b64_groups :: "nat list \<Rightarrow> nat list" where
  "b64_groups [] = []"
| "b64_groups [a] = [a div 4, (a mod 4) * 16]"
| "b64_groups [a, b] = [a div 4, (a mod 4) * 16 + b div 16, (b mod 16) * 4]"
| "b64_groups (a # b # c # r) = 
     (a div 4) # ((a mod 4) * 16 + b div 16) # ((b mod 16) * 4 + c div 64) # (c mod 64) # b64_groups r"

fun b64_bytes :: "nat list \<Rightarrow> nat list" where
  "b64_bytes (w # x # y # z # r) = 
     (w * 4 + x div 16) # ((x mod 16) * 16 + y div 4) # ((y mod 4) * 64 + z) # b64_bytes r"
| "b64_bytes [w, x, y] = [w * 4 + x div 16, (x mod 16) * 16 + y div 4]"
| "b64_bytes [w, x] = [w * 4 + x div 16]"
| "b64_bytes [w] = []"
| "b64_bytes [] = []"

definition base64url :: "string \<Rightarrow> string" where
  "base64url s = map b64_char (b64_groups (map char_code s))"

definition from_base64url :: "string \<Rightarrow> string" where
  "from_base64url s = map char_of (b64_bytes (List.map_filter b64_val s))"

lemma b64_val_char: "n < 64 \<Longrightarrow> b64_val (b64_char n) = Some n"
  by (auto simp: b64_val_def b64_char_def char_code_def Let_def)

lemma b64_groups_bytes: "\<forall>x \<in> set xs. x < 256 \<Longrightarrow> b64_bytes (b64_groups xs) = xs"
proof (induction xs rule: b64_groups.induct)
  case (4 a b c r)
  have "b div 16 < 16" "c div 64 < 4" using 4(2) by auto
  then show ?case using 4 by auto
qed auto

lemma b64_groups_small: "\<forall>x \<in> set xs. x < 256 \<Longrightarrow> \<forall>y \<in> set (b64_groups xs). y < 64"
proof (induction xs rule: b64_groups.induct)
  case (4 a b c r)
  have "b div 16 < 16" "c div 64 < 4" using 4(2) by auto
  then show ?case using 4 by auto
qed auto

lemma map_filter_inverse: "(\<And>x. x \<in> set xs \<Longrightarrow> g (f x) = Some x) \<Longrightarrow> List.map_filter g (map f xs) = xs"
  by (induction xs) (auto simp: List.map_filter_simps)

lemma base64url_roundtrip: "from_base64url (base64url s) = s"
proof -
  have small: "\<forall>x \<in> set (map char_code s). x < 256" by (auto simp: char_code_def)
  have "List.map_filter b64_val (base64url s) = b64_groups (map char_code s)"
    unfolding base64url_def using b64_groups_small [OF small] by (intro map_filter_inverse) (auto simp: b64_val_char)
  then show ?thesis
    by (simp add: from_base64url_def b64_groups_bytes [OF small] comp_def char_code_def)
qed

definition b64_safe :: "char \<Rightarrow> bool" where
  "b64_safe c = (c \<in> set [CHR ''-'', CHR ''_''] \<or> is_digit c \<or> (65 \<le> char_code c \<and> char_code c \<le> 90)
                 \<or> (97 \<le> char_code c \<and> char_code c \<le> 122))"

lemma base64url_safe: "c \<in> set (base64url s) \<Longrightarrow> b64_safe c"
proof -
  assume "c \<in> set (base64url s)"
  moreover have "\<forall>x \<in> set (map char_code s). x < 256" by (auto simp: char_code_def)
  from b64_groups_small [OF this] have "\<forall>y \<in> set (b64_groups (map char_code s)). y < 64" .
  ultimately obtain n where "n < 64" "c = b64_char n" unfolding base64url_def by auto
  then show ?thesis by (auto simp: b64_safe_def b64_char_def is_digit_def char_code_def)
qed

lemma base64url_Nil [simp]: "base64url s = [] \<longleftrightarrow> s = []"
proof
  assume "base64url s = []"
  then have "from_base64url (base64url s) = from_base64url []" by simp
  then show "s = []" unfolding base64url_roundtrip by (simp add: from_base64url_def List.map_filter_simps)
qed (simp add: base64url_def)

section \<open>Payloads\<close>

text \<open>\<open>v < n\<close> as JavaScript compares; a string or an object, which no token of the process has, counts as \<open>NaN\<close>.\<close>

definition expired_before :: "jsval \<Rightarrow> int \<Rightarrow> bool" where
  "expired_before v n =
     (case v of Num m \<Rightarrow> m < n | Null \<Rightarrow> 0 < n | Bool b \<Rightarrow> (if b then 1 else 0) < n | _ \<Rightarrow> False)"

lemma print_json_nonempty: "print_json v \<noteq> []"
  using print_json_start [of v] by auto

lemma base64url_no_dot: "CHR ''.'' \<notin> set (base64url s)"
  using base64url_safe [of "CHR ''.''" s] by (auto simp: b64_safe_def is_digit_def char_code_def)

end
