(* ===== verification/FileTokens.thy ===== *)
theory FileTokens
  imports Rpc TokenCodec
begin

text \<open>
  \<^verbatim>\<open>packages/bb-file-bucket/src/tokens.ts\<close> and \<^verbatim>\<open>presigned-url.ts\<close>: the signed tokens of local
  file URLs.  HMAC-SHA256 is a parameter that gives the bytes of
  the digest; the secret of the process is part of it.  A payload is read as the bytes it decodes to: that
  the code replaces bytes that are no UTF-8 before it signs them is not modelled.
\<close>

section \<open>Tokens\<close>

record file_env =
  hmac_sha256 :: "string \<Rightarrow> string \<Rightarrow> string"
  LOCAL_FILE_SECRET :: string

definition MIN_PRESIGNED_URL_EXPIRY_SECONDS :: int where
  "MIN_PRESIGNED_URL_EXPIRY_SECONDS = 1"

definition MAX_PRESIGNED_URL_EXPIRY_SECONDS :: int where
  "MAX_PRESIGNED_URL_EXPIRY_SECONDS = 7 * 24 * 60 * 60"

definition validatePresignedUrlExpiry :: "jsval \<Rightarrow> (thrown, int) res" where
  "validatePresignedUrlExpiry expiresIn =
     (case expiresIn of
        Num n \<Rightarrow>
          if n < MIN_PRESIGNED_URL_EXPIRY_SECONDS \<or> n > MAX_PRESIGNED_URL_EXPIRY_SECONDS
          then Inl (blocksError ''ValidationFailed'' (''Presigned URL expiration must be an integer between ''
                      @ show_int MIN_PRESIGNED_URL_EXPIRY_SECONDS @ '' and '' @ show_int MAX_PRESIGNED_URL_EXPIRY_SECONDS @ '' seconds.''))
          else Inr n
      | _ \<Rightarrow> Inl (blocksError ''ValidationFailed'' (''Presigned URL expiration must be an integer between ''
                      @ show_int MIN_PRESIGNED_URL_EXPIRY_SECONDS @ '' and '' @ show_int MAX_PRESIGNED_URL_EXPIRY_SECONDS @ '' seconds.'')))"

definition token_payload :: "string \<Rightarrow> string \<Rightarrow> string \<Rightarrow> int \<Rightarrow> string option \<Rightarrow> jsval" where
  "token_payload fullId path meth expiry contentType =
     Obj ([(''fullId'', Str fullId), (''path'', Str path), (''method'', Str meth), (''exp'', Num expiry)]
          @ (case contentType of Some c \<Rightarrow> if c = [] then [] else [(''contentType'', Str c)] | None \<Rightarrow> []))"

definition sign_token :: "file_env \<Rightarrow> string \<Rightarrow> string" where
  "sign_token env json = base64url (hmac_sha256 env (LOCAL_FILE_SECRET env) json)"

text \<open>\<open>now\<close> in milliseconds.\<close>

definition mintFileToken :: "file_env \<Rightarrow> int \<Rightarrow> string \<Rightarrow> string \<Rightarrow> string \<Rightarrow> jsval \<Rightarrow> string option \<Rightarrow> (thrown, string) res" where
  "mintFileToken env now fullId path meth expiresIn contentType =
     bindR (validatePresignedUrlExpiry expiresIn) (\<lambda>n.
       let json = print_json (json_norm (token_payload fullId path meth (now div 1000 + n) contentType)) in
       Inr (base64url json @ ''.'' @ sign_token env json))"

text \<open>Any exception on the way gives \<open>null\<close>, a payload that is \<open>null\<close> included.\<close>

definition validateFileToken :: "file_env \<Rightarrow> int \<Rightarrow> string \<Rightarrow> string \<Rightarrow> string \<Rightarrow> string \<Rightarrow> jsval option" where
  "validateFileToken env now token expectedFullId expectedPath expectedMethod =
     (case split_on CHR ''.'' token of
        payloadB64 # sig # _ \<Rightarrow>
          if payloadB64 = [] \<or> sig = [] then None
          else
            (let json = from_base64url payloadB64 in
             if \<not> constantTimeEquals sig (sign_token env json) then None
             else
               (case json_parse json of
                  None \<Rightarrow> None
                | Some payload \<Rightarrow>
                    if payload = Null then None
                    else if expired_before (get_prop payload ''exp'') (now div 1000) then None
                    else if get_prop payload ''fullId'' \<noteq> Str expectedFullId then None
                    else if get_prop payload ''path'' \<noteq> Str expectedPath then None
                    else if get_prop payload ''method'' \<noteq> Str expectedMethod then None
                    else Some payload))
      | _ \<Rightarrow> None)"

lemma token_payload_plain: "plain (token_payload f p m e c)"
  by (auto simp: token_payload_def split: option.split)

lemma token_payload_get:
  "get_prop (token_payload f p m e c) ''fullId'' = Str f" "get_prop (token_payload f p m e c) ''path'' = Str p"
  "get_prop (token_payload f p m e c) ''method'' = Str m" "get_prop (token_payload f p m e c) ''exp'' = Num e"
  "get_prop (token_payload f p m e c) ''contentType'' = (case c of Some t \<Rightarrow> if t = [] then Undef else Str t | None \<Rightarrow> Undef)"
  by (simp_all add: token_payload_def split: option.split)

lemma mint_ok:
  assumes "mintFileToken env now f p m expiresIn c = Inr token"
  obtains n where "expiresIn = Num n" "1 \<le> n" "n \<le> 604800"
    "token = base64url (print_json (token_payload f p m (now div 1000 + n) c))
       @ ''.'' @ sign_token env (print_json (token_payload f p m (now div 1000 + n) c))"
  using assms
  by (auto simp: mintFileToken_def validatePresignedUrlExpiry_def bindR_eq_Inr Let_def
      MIN_PRESIGNED_URL_EXPIRY_SECONDS_def MAX_PRESIGNED_URL_EXPIRY_SECONDS_def
      norm_plain [OF token_payload_plain] split: jsval.splits if_splits)

lemma minted_valid:
  assumes "mintFileToken env now f p m expiresIn c = Inr token"
    and "\<And>json. hmac_sha256 env (LOCAL_FILE_SECRET env) json \<noteq> []"
  obtains n where "expiresIn = Num n" "1 \<le> n" "n \<le> 604800"
    "\<And>now' f' p' m'. validateFileToken env now' token f' p' m' =
      (if f' = f \<and> p' = p \<and> m' = m \<and> now' div 1000 \<le> now div 1000 + n
       then Some (token_payload f p m (now div 1000 + n) c) else None)"
    "\<And>x. x \<in> set token \<Longrightarrow> b64_safe x \<or> x = CHR ''.''" "token \<noteq> []"
proof -
  obtain n where n: "expiresIn = Num n" "1 \<le> n" "n \<le> 604800"
      and t: "token = base64url (print_json (token_payload f p m (now div 1000 + n) c))
         @ ''.'' @ sign_token env (print_json (token_payload f p m (now div 1000 + n) c))"
    using mint_ok [OF assms(1)] by blast
  let ?json = "print_json (token_payload f p m (now div 1000 + n) c)"
  have split: "split_on CHR ''.'' token = [base64url ?json, sign_token env ?json]"
    unfolding t by (simp add: split_on_sep base64url_no_dot split_on_no_sep sign_token_def)
  have "sign_token env ?json \<noteq> []" using assms(2) by (simp add: sign_token_def)
  moreover have "token_payload f p m (now div 1000 + n) c \<noteq> Null" by (simp add: token_payload_def)
  ultimately have "validateFileToken env now' token f' p' m' =
      (if f' = f \<and> p' = p \<and> m' = m \<and> now' div 1000 \<le> now div 1000 + n
       then Some (token_payload f p m (now div 1000 + n) c) else None)" for now' f' p' m'
    by (auto simp: validateFileToken_def split print_json_nonempty base64url_roundtrip Let_def
        json_parse_print [OF token_payload_plain] token_payload_get expired_before_def)
  moreover have "b64_safe x \<or> x = CHR ''.''" if "x \<in> set token" for x
    using that base64url_safe unfolding t by (auto simp: sign_token_def)
  moreover have "token \<noteq> []" using t by simp
  ultimately show thesis using that n by blast
qed

text \<open>C31: a token validates exactly for the bucket, path and method it was minted for, until its expiry, which
  lies between one second and seven days ahead; what it gives is the payload signed.\<close>

theorem file_token_binds:
  assumes "mintFileToken env now f p m expiresIn c = Inr token"
    and "\<And>json. hmac_sha256 env (LOCAL_FILE_SECRET env) json \<noteq> []"
  shows "\<exists>n. expiresIn = Num n \<and> 1 \<le> n \<and> n \<le> 604800 \<and>
    validateFileToken env now' token f' p' m' =
      (if f' = f \<and> p' = p \<and> m' = m \<and> now' div 1000 \<le> now div 1000 + n
       then Some (token_payload f p m (now div 1000 + n) c) else None)"
  by (rule minted_valid [OF assms]) auto

definition demo_file_env :: file_env where
  "demo_file_env = \<lparr>hmac_sha256 = (\<lambda>k m. k @ take 3 m), LOCAL_FILE_SECRET = ''k''\<rparr>"

theorem file_token_binds_witness:
  "\<exists>n. Num 60 = Num n \<and> 1 \<le> n \<and> n \<le> 604800 \<and>
    validateFileToken demo_file_env 5000 (case mintFileToken demo_file_env 1000 ''b'' ''a'' ''GET'' (Num 60) None of Inr t \<Rightarrow> t) ''b'' ''a'' ''GET'' =
      (if ''b'' = ''b'' \<and> ''a'' = ''a'' \<and> ''GET'' = ''GET'' \<and> 5000 div 1000 \<le> 1000 div 1000 + n
       then Some (token_payload ''b'' ''a'' ''GET'' (1000 div 1000 + n) None) else None)"
proof (rule file_token_binds)
  show "mintFileToken demo_file_env 1000 ''b'' ''a'' ''GET'' (Num 60) None =
      Inr (case mintFileToken demo_file_env 1000 ''b'' ''a'' ''GET'' (Num 60) None of Inr t \<Rightarrow> t)"
    by (simp add: mintFileToken_def validatePresignedUrlExpiry_def MIN_PRESIGNED_URL_EXPIRY_SECONDS_def
        MAX_PRESIGNED_URL_EXPIRY_SECONDS_def Let_def)
qed (simp add: demo_file_env_def)

end
