(* ===== verification/BucketOptions.thy ===== *)
theory BucketOptions
  imports FileBucket
begin

text \<open>
  \<^verbatim>\<open>packages/bb-file-bucket/src/bucket-name.ts\<close>, the option checks of \<^verbatim>\<open>validation.ts\<close> and the
  constructor of \<^verbatim>\<open>index.mock.ts\<close>, whose checks are \<open>new_FileBucket\<close>.  SHA-256 is a parameter that gives the digest in hexadecimal.
  The registration of the bucket with the framework has no effect here but the registry, which the
  file server takes as an argument.
\<close>

section \<open>The name of the bucket\<close>

definition MIN_LEN :: nat where "MIN_LEN = 3"
definition MAX_LEN :: nat where "MAX_LEN = 63"
definition HASH_LEN :: nat where "HASH_LEN = 8"

text \<open>\<open>s.replace(/[-.]+$/, '')\<close>.\<close>

definition trim_separators :: "string \<Rightarrow> string" where
  "trim_separators s = rev (dropWhile (\<lambda>c. c \<in> set ''-.'') (rev s))"

definition deriveBucketName :: "(string \<Rightarrow> string) \<Rightarrow> string \<Rightarrow> string" where
  "deriveBucketName sha256_hex fullId =
     (if length fullId \<le> MAX_LEN then fullId
      else trim_separators (take (MAX_LEN - HASH_LEN - 1) fullId) @ ''-'' @ take HASH_LEN (sha256_hex fullId))"

definition bucket_char :: "char \<Rightarrow> bool" where
  "bucket_char c = (is_digit c \<or> (97 \<le> char_code c \<and> char_code c \<le> 122) \<or> c \<in> set ''.-'')"

definition bucket_end :: "char \<Rightarrow> bool" where
  "bucket_end c = (is_digit c \<or> (97 \<le> char_code c \<and> char_code c \<le> 122))"

definition name_hint :: string where
  "name_hint =
     ''FileBucket names are derived from the scope chain (id of the bucket plus its parent scopes, joined with ''
     @ dq ''-'' @ ''). Shorten the FileBucket id or a parent scope id, or pass an existing bucket via FileBucket.fromExisting(...).''"

definition name_error :: "string \<Rightarrow> string \<Rightarrow> (thrown, unit) res" where
  "name_error name rest = Inl (blocksError ''ValidationFailed'' (''Derived bucket name '' @ dq name @ rest @ name_hint))"

definition apos :: string where "apos = [CHR 0x27]"

definition validateBucketName :: "string \<Rightarrow> (thrown, unit) res" where
  "validateBucketName name =
     (if length name > MAX_LEN
      then name_error name ('' is '' @ show_nat (length name) @ '' characters, exceeding S3'' @ apos @ ''s ''
             @ show_nat MAX_LEN @ ''-character limit. '')
      else if length name < MIN_LEN
      then name_error name ('' is '' @ show_nat (length name) @ '' characters; S3 requires at least '' @ show_nat MIN_LEN @ ''. '')
      else if name = [] \<or> \<not> list_all bucket_char name
      then name_error name ('' contains characters that are invalid for an S3 bucket. Use only lowercase letters, ''
             @ ''numbers, dots (.), and hyphens (-). '')
      else if \<not> bucket_end (hd name) \<or> \<not> bucket_end (last name)
      then name_error name '' must begin and end with a lowercase letter or number. ''
      else if str_includes name ''..''
      then name_error name '' must not contain two adjacent dots. ''
      else Inr ())"

section \<open>Options\<close>

record CorsRule =
  allowedOrigins :: "string list"
  allowedMethods :: "string list"

record FileBucketOptions =
  versioned_opt :: "bool option"
  corsRules :: "CorsRule list"
  noncurrentVersionExpirationDays :: jsval
  objectLock :: "(jsval \<times> jsval) option"
  external :: bool

definition DEFAULT_NONCURRENT_VERSION_EXPIRATION_DAYS :: int where
  "DEFAULT_NONCURRENT_VERSION_EXPIRATION_DAYS = 90"

definition MAX_OBJECT_LOCK_RETENTION_DAYS :: int where
  "MAX_OBJECT_LOCK_RETENTION_DAYS = 36500"

definition MUTATING_CORS_METHODS :: "string list" where
  "MUTATING_CORS_METHODS = [''PUT'', ''POST'', ''DELETE'']"

text \<open>\<open>String(v)\<close> of what the messages show; an object or array is shown by its JSON text.\<close>

definition show_value :: "jsval \<Rightarrow> string" where
  "show_value v = (case v of Undef \<Rightarrow> ''undefined'' | Str s \<Rightarrow> s | _ \<Rightarrow> print_json v)"

definition about_bucket :: "string \<Rightarrow> string \<Rightarrow> (thrown, unit) res" where
  "about_bucket fullId message = Inl (new_Error (''FileBucket '' @ dq fullId @ '': '' @ message))"

definition check_cors :: "string \<Rightarrow> CorsRule \<Rightarrow> (thrown, unit) res" where
  "check_cors fullId rule =
     (let mutating = filter (\<lambda>m. m \<in> set MUTATING_CORS_METHODS) (allowedMethods rule) in
      if ''*'' \<in> set (allowedOrigins rule) \<and> mutating \<noteq> []
      then about_bucket fullId (''CORS rule with wildcard origin '' @ apos @ ''*'' @ apos @ '' must not allow mutating method(s) ''
             @ join '', '' mutating @ ''. Specify explicit allowedOrigins (e.g. '' @ apos @ ''https://app.example.com'' @ apos
             @ '') for '' @ join '', '' mutating @ '' instead of '' @ apos @ ''*'' @ apos @ ''.'')
      else Inr ())"

definition is_positive_integer :: "jsval \<Rightarrow> bool" where
  "is_positive_integer v = (case v of Num n \<Rightarrow> 0 < n | _ \<Rightarrow> False)"

definition check_days :: "string \<Rightarrow> jsval \<Rightarrow> (thrown, unit) res" where
  "check_days fullId days =
     (if days \<noteq> Undef \<and> \<not> is_positive_integer days
      then about_bucket fullId (''noncurrentVersionExpirationDays must be a positive integer (got '' @ show_value days
             @ ''). Omit it to use the default of '' @ show_int DEFAULT_NONCURRENT_VERSION_EXPIRATION_DAYS @ '' days.'')
      else Inr ())"

definition check_lock :: "string \<Rightarrow> bool option \<Rightarrow> (jsval \<times> jsval) option \<Rightarrow> (thrown, unit) res" where
  "check_lock fullId versioned_option lock =
     (case lock of
        None \<Rightarrow> Inr ()
      | Some (mode, days) \<Rightarrow>
          if versioned_option = Some False
          then about_bucket fullId (''objectLock requires versioning, but versioned is false. Remove versioned: false ''
                 @ ''(versioning is on by default) or remove objectLock.'')
          else if mode \<noteq> Str ''governance'' \<and> mode \<noteq> Str ''compliance''
          then about_bucket fullId (''objectLock.mode must be '' @ apos @ ''governance'' @ apos @ '' or '' @ apos
                 @ ''compliance'' @ apos @ '' (got '' @ show_value mode @ '').'')
          else if \<not> (case days of Num n \<Rightarrow> 0 < n \<and> n \<le> MAX_OBJECT_LOCK_RETENTION_DAYS | _ \<Rightarrow> False)
          then about_bucket fullId (''objectLock.retentionDays must be an integer between 1 and ''
                 @ show_int MAX_OBJECT_LOCK_RETENTION_DAYS @ '' (got '' @ show_value days @ '').'')
          else Inr ())"

definition validateFileBucketOptions :: "string \<Rightarrow> FileBucketOptions \<Rightarrow> (thrown, unit) res" where
  "validateFileBucketOptions fullId options =
     bindR (mapR (check_cors fullId) (corsRules options)) (\<lambda>_.
     bindR (check_days fullId (noncurrentVersionExpirationDays options)) (\<lambda>_.
       check_lock fullId (versioned_opt options) (objectLock options)))"

section \<open>The constructor\<close>

definition new_FileBucket :: "(string \<Rightarrow> string) \<Rightarrow> fpath \<Rightarrow> string \<Rightarrow> FileBucketOptions \<Rightarrow> (thrown, bucket) res" where
  "new_FileBucket sha256_hex cwd fullId options =
     bindR (if external options then Inr () else validateBucketName (deriveBucketName sha256_hex fullId)) (\<lambda>_.
     bindR (if external options then Inr () else validateFileBucketOptions fullId options) (\<lambda>_.
       Inr \<lparr>dataDir = path_join cwd [''.bb-data'', fullId], versioned = opt_or (versioned_opt options) True,
            objectLocked = (\<not> external options \<and> objectLock options \<noteq> None), bk_fullId = fullId\<rparr>))"

definition getMockDataDir :: "fpath \<Rightarrow> string \<Rightarrow> fpath disk_io" where
  "getMockDataDir cwd fullId =
     (let dir = path_join cwd [''.bb-data'', fullId] in
      bindF (readF (\<lambda>d. existsSync d dir)) (\<lambda>found.
      bindF (if found then retF () else mkdirSync dir) (\<lambda>_.
        retF dir)))"

text \<open>The whole constructor: the checks, then the directory of the bucket.\<close>

definition open_FileBucket :: "(string \<Rightarrow> string) \<Rightarrow> fpath \<Rightarrow> string \<Rightarrow> FileBucketOptions \<Rightarrow> bucket disk_io" where
  "open_FileBucket sha256_hex cwd fullId options =
     bindF (liftF (new_FileBucket sha256_hex cwd fullId options)) (\<lambda>fb.
     bindF (getMockDataDir cwd fullId) (\<lambda>dir.
       retF (fb\<lparr>dataDir := dir\<rparr>)))"

lemma open_FileBucket_ok:
  assumes "open_FileBucket sha256_hex cwd fullId options d = (d', Inr fb)"
  shows "new_FileBucket sha256_hex cwd fullId options = Inr fb" and "file_in d' = file_in d"
proof -
  obtain fb' where new: "new_FileBucket sha256_hex cwd fullId options = Inr fb'"
      and dir: "getMockDataDir cwd fullId d = (d', Inr (dataDir fb))" and fb: "fb = fb'\<lparr>dataDir := dataDir fb\<rparr>"
    using assms by (auto simp: open_FileBucket_def bindF_Inr liftF_def)
  have "dataDir fb = path_join cwd [''.bb-data'', fullId]" "file_in d' = file_in d"
    using dir mkdir_ok(1) by (auto simp: getMockDataDir_def Let_def bindF_Inr readF_def split: if_splits)
  moreover have "dataDir fb' = path_join cwd [''.bb-data'', fullId]" using new by (auto simp: new_FileBucket_def bindR_eq_Inr)
  ultimately show "new_FileBucket sha256_hex cwd fullId options = Inr fb" "file_in d' = file_in d"
    using new fb by simp_all
qed

text \<open>A name as S3 takes it.\<close>

definition s3_name :: "string \<Rightarrow> bool" where
  "s3_name name =
     (3 \<le> length name \<and> length name \<le> 63 \<and> list_all bucket_char name
      \<and> bucket_end (hd name) \<and> bucket_end (last name) \<and> \<not> str_includes name ''..'')"

lemma validateBucketName_iff: "validateBucketName name = Inr () \<longleftrightarrow> s3_name name"
  by (auto simp: validateBucketName_def name_error_def s3_name_def MAX_LEN_def MIN_LEN_def)

lemma trim_separators_length: "length (trim_separators s) \<le> length s"
  by (simp add: trim_separators_def) (metis length_dropWhile_le length_rev)

lemma derived_length: "length (deriveBucketName sha256_hex fullId) \<le> 63"
  using trim_separators_length [of "take 54 fullId"]
  by (auto simp: deriveBucketName_def MAX_LEN_def HASH_LEN_def)

text \<open>a bucket that is constructed has a name S3 accepts, which is its id whenever that has at most 63
  characters; versioning is on unless it is switched off, and an object lock comes with versioning,
  a mode S3 knows and at most 36,500 days.\<close>

theorem file_bucket_constructed:
  assumes "new_FileBucket sha256_hex cwd fullId options = Inr fb" "\<not> external options"
  shows "s3_name (deriveBucketName sha256_hex fullId)
    \<and> (length fullId \<le> 63 \<longrightarrow> deriveBucketName sha256_hex fullId = fullId)
    \<and> versioned fb = (versioned_opt options \<noteq> Some False)
    \<and> objectLocked fb = (objectLock options \<noteq> None)
    \<and> (objectLocked fb \<longrightarrow> versioned fb \<and> (\<exists>mode n. objectLock options = Some (Str mode, Num n)
         \<and> mode \<in> {''governance'', ''compliance''} \<and> 1 \<le> n \<and> n \<le> 36500))"
proof -
  have n: "validateBucketName (deriveBucketName sha256_hex fullId) = Inr ()"
    and l: "check_lock fullId (versioned_opt options) (objectLock options) = Inr ()"
    and fb: "versioned fb = opt_or (versioned_opt options) True" "objectLocked fb = (objectLock options \<noteq> None)"
    using assms by (auto simp: new_FileBucket_def validateFileBucketOptions_def bindR_eq_Inr)
  have v: "versioned fb = (versioned_opt options \<noteq> Some False)"
    using fb(1) by (cases "versioned_opt options") (auto simp: opt_or_def)
  have "objectLocked fb \<longrightarrow> versioned fb \<and> (\<exists>mode n. objectLock options = Some (Str mode, Num n)
         \<and> mode \<in> {''governance'', ''compliance''} \<and> 1 \<le> n \<and> n \<le> 36500)"
    using l fb(2) v
    by (auto simp: check_lock_def about_bucket_def MAX_OBJECT_LOCK_RETENTION_DAYS_def split: if_splits jsval.splits)
  then show ?thesis
    using n fb(2) v by (simp add: validateBucketName_iff deriveBucketName_def MAX_LEN_def)
qed

definition demo_options :: FileBucketOptions where
  "demo_options = \<lparr>versioned_opt = None, corsRules = [\<lparr>allowedOrigins = [''*''], allowedMethods = [''GET'']\<rparr>],
     noncurrentVersionExpirationDays = Undef, objectLock = Some (Str ''governance'', Num 30), external = False\<rparr>"

theorem file_bucket_constructed_witness:
  "s3_name (deriveBucketName id ''app-uploads'')"
proof -
  have "new_FileBucket id [''w''] ''app-uploads'' demo_options =
      Inr \<lparr>dataDir = [''w'', ''.bb-data'', ''app-uploads''], versioned = True, objectLocked = True, bk_fullId = ''app-uploads''\<rparr>"
    by code_simp
  moreover have "\<not> external demo_options" by (simp add: demo_options_def)
  ultimately show ?thesis by (rule file_bucket_constructed [THEN conjunct1])
qed

end
