(* ===== verification/FileServer.thy ===== *)
theory FileServer
  imports FileTokens BucketOptions FileProps
begin

text \<open>
  The signed URLs of \<^verbatim>\<open>packages/bb-file-bucket/src/index.mock.ts\<close>, the development server that
  answers them (\<^verbatim>\<open>file-server.ts\<close>) and the client middleware that makes handles of the descriptors
  (\<^verbatim>\<open>mock-middleware.ts\<close>).  The server shares the disk with the buckets; the registry is a function from
  bucket ids to buckets.  A reply is its status, headers and body; \<open>Inl\<close> is an exception that leaves the
  request listener.  Text in a query is taken as bytes: invalid UTF-8 is not replaced.
\<close>

section \<open>Minting URLs\<close>

definition getDevBaseUrl :: "nat \<Rightarrow> string" where
  "getDevBaseUrl port = ''http://localhost:'' @ show_nat port"

definition encode_path :: "string \<Rightarrow> string" where
  "encode_path path = join ''/'' (map encode_uri (split_on CHR ''/'' path))"

definition PREFIX :: string where
  "PREFIX = ''/.bb-file-bucket/''"

definition file_url :: "nat \<Rightarrow> string \<Rightarrow> string \<Rightarrow> string \<Rightarrow> string" where
  "file_url port fullId path token =
     getDevBaseUrl port @ ''/.bb-file-bucket/'' @ fullId @ ''/'' @ encode_path path @ ''?token='' @ token"

definition bucket_getUrl :: "file_env \<Rightarrow> nat \<Rightarrow> int \<Rightarrow> bucket \<Rightarrow> string \<Rightarrow> jsval \<Rightarrow> string option \<Rightarrow> (thrown, string) res" where
  "bucket_getUrl env port now fb path expiresIn vid =
     bindR (validateKey fb path) (\<lambda>_.
     bindR (mintFileToken env now (bk_fullId fb) path ''GET'' (nullish_or expiresIn (Num 3600)) None) (\<lambda>token.
       Inr (file_url port (bk_fullId fb) path token
            @ (case given vid of Some v \<Rightarrow> if versioned fb then ''&versionId='' @ v else [] | None \<Rightarrow> []))))"

definition presignedUploadUnsupportedMessage :: "string \<Rightarrow> string" where
  "presignedUploadUnsupportedMessage fullId =
     ''FileBucket '' @ dq fullId @ '' has objectLock, so presigned uploads (putUrl / createUploadHandle) are not supported: ''
     @ ''S3 requires a signed Content-MD5 or checksum header on every upload to an Object Lock bucket, which a presigned ''
     @ ''URL created before the file is known can'' @ apos @ ''t carry. Upload through the backend with put() instead.''"

definition assertPresignedUploadSupported :: "bucket \<Rightarrow> (thrown, unit) res" where
  "assertPresignedUploadSupported fb =
     (if objectLocked fb
      then Inl (blocksError ''PresignedUploadUnsupported'' (presignedUploadUnsupportedMessage (bk_fullId fb))) else Inr ())"

definition bucket_putUrl :: "file_env \<Rightarrow> nat \<Rightarrow> int \<Rightarrow> bucket \<Rightarrow> string \<Rightarrow> jsval \<Rightarrow> string option \<Rightarrow> (thrown, string) res" where
  "bucket_putUrl env port now fb path expiresIn contentType =
     bindR (validateKey fb path) (\<lambda>_.
     bindR (assertPresignedUploadSupported fb) (\<lambda>_.
     bindR (mintFileToken env now (bk_fullId fb) path ''PUT'' (nullish_or expiresIn (Num 3600)) contentType) (\<lambda>token.
       Inr (file_url port (bk_fullId fb) path token))))"

section \<open>Handles\<close>

text \<open>What \<open>toJSON\<close> of a handle gives, and what the client makes of it.\<close>

datatype file_handle = DownloadHandle string | UploadHandle string jsval

fun handle_json :: "file_handle \<Rightarrow> jsval" where
  "handle_json (DownloadHandle url) = Obj [(''__blocks'', Str ''file-bucket/download''), (''url'', Str url)]"
| "handle_json (UploadHandle url contentType) =
     Obj [(''__blocks'', Str ''file-bucket/upload''), (''url'', Str url), (''contentType'', contentType)]"

definition getFileHandle :: "file_env \<Rightarrow> nat \<Rightarrow> int \<Rightarrow> bucket \<Rightarrow> string \<Rightarrow> jsval \<Rightarrow> string option \<Rightarrow> (thrown, file_handle) res" where
  "getFileHandle env port now fb path expiresIn vid =
     bindR (bucket_getUrl env port now fb path expiresIn vid) (\<lambda>url. Inr (DownloadHandle url))"

definition createUploadHandle :: "file_env \<Rightarrow> nat \<Rightarrow> int \<Rightarrow> bucket \<Rightarrow> string \<Rightarrow> jsval \<Rightarrow> string option \<Rightarrow> (thrown, file_handle) res" where
  "createUploadHandle env port now fb path expiresIn contentType =
     bindR (bucket_putUrl env port now fb path expiresIn contentType) (\<lambda>url.
       Inr (UploadHandle url (case contentType of Some c \<Rightarrow> Str c | None \<Rightarrow> Undef)))"

text \<open>A value from the wire in which descriptors have become handles.  Objects are copied by assignment, which
  makes no property of \<open>__proto__\<close>.\<close>

datatype hydrated = Plain jsval | Handle file_handle | HArr "hydrated list" | HObj "(string \<times> hydrated) list"

definition isDownloadDescriptor :: "jsval \<Rightarrow> bool" where
  "isDownloadDescriptor v =
     (is_object v \<and> get_prop v ''__blocks'' = Str ''file-bucket/download'' \<and> is_str (get_prop v ''url''))"

definition isUploadDescriptor :: "jsval \<Rightarrow> bool" where
  "isUploadDescriptor v =
     (is_object v \<and> get_prop v ''__blocks'' = Str ''file-bucket/upload'' \<and> is_str (get_prop v ''url''))"

definition str_of :: "jsval \<Rightarrow> string" where
  "str_of v = (case v of Str s \<Rightarrow> s | _ \<Rightarrow> [])"

fun hydrate :: "jsval \<Rightarrow> hydrated" where
  "hydrate (Arr vs) = HArr (map hydrate vs)"
| "hydrate (Obj ps) =
     (if isDownloadDescriptor (Obj ps) then Handle (DownloadHandle (str_of (get_prop (Obj ps) ''url'')))
      else if isUploadDescriptor (Obj ps)
      then Handle (UploadHandle (str_of (get_prop (Obj ps) ''url'')) (get_prop (Obj ps) ''contentType''))
      else HObj (filter (\<lambda>(k, _). k \<noteq> ''__proto__'') (map (\<lambda>(k, v). (k, hydrate v)) ps)))"
| "hydrate v = Plain v"

section \<open>Reading a request\<close>

fun percent_decode :: "string \<Rightarrow> string" where
  "percent_decode [] = []"
| "percent_decode (c # s) =
     (if c = CHR ''%'' then
        (case s of
           a # b # r \<Rightarrow>
             (case (hex_val a, hex_val b) of
                (Some i, Some j) \<Rightarrow> char_of (16 * i + j) # percent_decode r
              | _ \<Rightarrow> c # percent_decode s)
         | _ \<Rightarrow> c # percent_decode s)
      else (if c = CHR ''+'' then CHR '' '' else c) # percent_decode s)"

text \<open>\<open>new URLSearchParams(query)\<close>: the pairs in order; \<open>get\<close> takes the first.\<close>

definition query_pair :: "string \<Rightarrow> string \<times> string" where
  "query_pair part =
     (case index_of CHR ''='' part of
        None \<Rightarrow> (percent_decode part, [])
      | Some i \<Rightarrow> (percent_decode (take i part), percent_decode (drop (Suc i) part)))"

definition search_params :: "string \<Rightarrow> (string \<times> string) list" where
  "search_params query = map query_pair (filter (\<lambda>p. p \<noteq> []) (split_on CHR ''&'' query))"

record file_target =
  ft_fullId :: string
  ft_path :: string
  ft_token :: string
  ft_versionId :: "string option"

definition URIError :: thrown where
  "URIError = set_err_name ''URIError'' (new_Error ''URI malformed'')"

definition parseUrl :: "string \<Rightarrow> (thrown, file_target option) res" where
  "parseUrl url =
     (if \<not> starts_with url PREFIX then Inr None
      else
        (case split_on CHR ''?'' (drop (length PREFIX) url) of
           pathPart # query # _ \<Rightarrow>
             if pathPart = [] \<or> query = [] then Inr None
             else
               (let params = search_params query in
                case map_of params ''token'' of
                  None \<Rightarrow> Inr None
                | Some token \<Rightarrow>
                    if token = [] then Inr None
                    else
                      (case index_of CHR ''/'' pathPart of
                         None \<Rightarrow> Inr None
                       | Some slashIdx \<Rightarrow>
                           (case decode_uri (drop (Suc slashIdx) pathPart) of
                              None \<Rightarrow> Inl URIError
                            | Some path \<Rightarrow>
                                Inr (Some \<lparr>ft_fullId = take slashIdx pathPart, ft_path = path, ft_token = token,
                                           ft_versionId = map_of params ''versionId''\<rparr>))))
         | _ \<Rightarrow> Inr None))"

text \<open>\<open>/^v\d{1,10}$/\<close>.\<close>

definition version_id_syntax :: "string \<Rightarrow> bool" where
  "version_id_syntax v =
     (v \<noteq> [] \<and> hd v = CHR ''v'' \<and> list_all is_digit (tl v) \<and> 1 \<le> length (tl v) \<and> length (tl v) \<le> 10)"

section \<open>The server\<close>

record file_request =
  fr_url :: string
  fr_method :: string
  fr_origin :: "string option"
  fr_contentType :: "string option"
  fr_body :: string

datatype file_reply = PassThrough | Reply nat "(string \<times> jsval) list" string

definition cors_reply_headers :: "file_request \<Rightarrow> (string \<times> jsval) list" where
  "cors_reply_headers req =
     [(''Access-Control-Allow-Origin'', Str (case fr_origin req of Some origin \<Rightarrow> if origin = [] then ''*'' else origin | None \<Rightarrow> ''*'')),
      (''Access-Control-Allow-Methods'', Str ''GET, PUT, OPTIONS''),
      (''Access-Control-Allow-Headers'', Str ''Content-Type'')]"

definition sendError :: "file_request \<Rightarrow> nat \<Rightarrow> string \<Rightarrow> file_reply disk_io" where
  "sendError req status err =
     retF (Reply status (cors_reply_headers req @ [(''Content-Type'', Str ''application/json'')])
             (print_json (Obj [(''error'', Str err)])))"

text \<open>The content type of a sidecar; any exception on the way leaves the default.\<close>

definition served_type :: "jsval \<Rightarrow> jsval" where
  "served_type meta = (if meta = Null then octet_stream else nullish_or (get_prop meta ''contentType'') octet_stream)"

definition serve_get :: "file_env \<Rightarrow> int \<Rightarrow> fpath \<Rightarrow> file_target \<Rightarrow> file_request \<Rightarrow> file_reply disk_io" where
  "serve_get env now root t req d =
     (if validateFileToken env now (ft_token t) (ft_fullId t) (ft_path t) ''GET'' = None
      then sendError req 403 ''Invalid or expired token'' d
      else
        (let path = ft_path t;
             readPath = (case given (ft_versionId t) of Some v \<Rightarrow> versionContentPath root path v | None \<Rightarrow> contentPath root path);
             metaFilePath = (case given (ft_versionId t) of Some v \<Rightarrow> versionMetaPath root path v | None \<Rightarrow> metaPath root path) in
         if \<not> existsSync d readPath \<or> (given (ft_versionId t) = None \<and> existsSync d (deleteMarkerPath root path))
         then sendError req 404 ''NoSuchKey'' d
         else
           bindF (readFileSync readPath) (\<lambda>body.
             retF (Reply 200 (cors_reply_headers req
                     @ [(''Content-Type'', served_type (readMetaFile d metaFilePath)),
                        (''Content-Length'', Str (show_nat (length body))),
                        (''X-Content-Type-Options'', Str ''nosniff''), (''Content-Disposition'', Str ''attachment'')]) body)) d))"

definition mismatch_message :: "string option \<Rightarrow> string \<Rightarrow> string" where
  "mismatch_message requestContentType signed =
     ''SignatureDoesNotMatch: request Content-Type ''
     @ (case requestContentType of None \<Rightarrow> ''(missing)'' | Some c \<Rightarrow> dq c)
     @ '' does not match the signed Content-Type '' @ dq signed
     @ ''. Send the same Content-Type header that was used to create the upload URL.''"

text \<open>The upload stores what the bucket's put makes of it; an error of the put is the reply.\<close>

definition upload :: "bucket \<Rightarrow> int \<Rightarrow> file_target \<Rightarrow> file_request \<Rightarrow> string \<Rightarrow> file_reply disk_io" where
  "upload fb now t req contentType d =
     (case bucket_put fb now (ft_path t) (fr_body req)
             \<lparr>po_contentType = Str contentType, po_metadata = Undef, po_cacheControl = Undef\<rparr> d of
        (d', Inr _) \<Rightarrow> (d', Inr (Reply 200 (cors_reply_headers req) []))
      | (d', Inl e) \<Rightarrow> sendError req 500 (case e of JsError _ m _ _ _ _ _ \<Rightarrow> m | JsThrow v \<Rightarrow> show_value v) d')"

definition serve_put :: "file_env \<Rightarrow> int \<Rightarrow> (string \<Rightarrow> bucket option) \<Rightarrow> file_target \<Rightarrow> file_request \<Rightarrow> file_reply disk_io" where
  "serve_put env now registry t req =
     (case validateFileToken env now (ft_token t) (ft_fullId t) (ft_path t) ''PUT'' of
        None \<Rightarrow> sendError req 403 ''Invalid or expired token''
      | Some valid \<Rightarrow>
          (case registry (ft_fullId t) of
             None \<Rightarrow> sendError req 500 (''No FileBucket registered for '' @ dq (ft_fullId t) @ '' '' @ em_dash @ '' cannot handle upload'')
           | Some fb \<Rightarrow>
               (let signed = get_prop valid ''contentType'';
                    sent = (case fr_contentType req of Some c \<Rightarrow> Str c | None \<Rightarrow> Undef) in
                if signed \<noteq> Undef \<and> sent \<noteq> signed
                then sendError req 403 (mismatch_message (fr_contentType req) (show_value signed))
                else upload fb now t req
                       (if truthy signed then show_value signed
                        else if truthy sent then show_value sent else ''application/octet-stream''))))"

definition dispatch_file :: "file_env \<Rightarrow> int \<Rightarrow> fpath \<Rightarrow> (string \<Rightarrow> bucket option) \<Rightarrow> file_target \<Rightarrow> file_request \<Rightarrow> file_reply disk_io" where
  "dispatch_file env now root registry t req =
     (if fr_method req = ''GET'' then serve_get env now root t req
      else if fr_method req = ''PUT'' then serve_put env now registry t req
      else retF (Reply 405 (cors_reply_headers req) []))"

definition file_server :: "file_env \<Rightarrow> int \<Rightarrow> fpath \<Rightarrow> (string \<Rightarrow> bucket option) \<Rightarrow> file_request \<Rightarrow> file_reply disk_io" where
  "file_server env now cwd registry req =
     (if \<not> starts_with (fr_url req) PREFIX then retF PassThrough
      else if fr_method req = ''OPTIONS'' then retF (Reply 200 (cors_reply_headers req) [])
      else
        (case parseUrl (fr_url req) of
           Inl e \<Rightarrow> throwF e
         | Inr None \<Rightarrow> sendError req 400 ''Invalid file URL''
         | Inr (Some t) \<Rightarrow>
             (let root = path_join cwd [''.bb-data'', ft_fullId t] in
              case assertContainedPath (contentRoot root) (ft_path t) of
                Inl e \<Rightarrow> sendError req 400 (if isBlocksError e ''ValidationFailed'' then err_message e
                                              else ''Invalid path: traversal detected'')
              | Inr _ \<Rightarrow>
                  (case ft_versionId t of
                     Some v \<Rightarrow> if \<not> version_id_syntax v then sendError req 400 ''Invalid versionId''
                                else dispatch_file env now root registry t req
                   | None \<Rightarrow> dispatch_file env now root registry t req))))"

section \<open>What the URL carries\<close>

lemma upper_hex_plain: "n < 16 \<Longrightarrow> upper_hex n \<notin> set ''/?''"
  using hex_val_upper [of n] by (auto simp: hex_val_def char_code_def)

lemma encode_uri_plain: "c \<in> set (encode_uri s) \<Longrightarrow> c \<notin> set ''/?''"
proof -
  assume "c \<in> set (encode_uri s)"
  then obtain x where x: "c \<in> set (encode_uri_char x)" by (auto simp: encode_uri_def)
  have "char_code x < 256" by (simp add: char_code_def)
  then have "char_code x div 16 < 16" "char_code x mod 16 < 16" by auto
  then show ?thesis
    using x upper_hex_plain by (auto simp: encode_uri_char_def uri_unreserved_def char_code_def split: if_splits)
qed

lemma encode_path_plain: "CHR ''?'' \<notin> set (encode_path path)"
  using encode_uri_plain unfolding encode_path_def by (fastforce dest!: join_chars)

lemma decode_encode_append: "ascii s \<Longrightarrow> decode_uri (encode_uri s @ r) = map_option ((@) s) (decode_uri r)"
proof (induction s)
  case Nil
  then show ?case by (simp add: encode_uri_def option.map_ident)
next
  case (Cons c s)
  have "encode_uri (c # s) @ r = encode_uri_char c @ (encode_uri s @ r)" by (simp add: encode_uri_def)
  then show ?case
    using Cons decode_encode_char [of c "encode_uri s @ r"] by (simp add: ascii_def option.map_comp comp_def)
qed

lemma decode_join: "(\<And>x. x \<in> set xs \<Longrightarrow> ascii x) \<Longrightarrow> decode_uri (join ''/'' (map encode_uri xs)) = Some (join ''/'' xs)"
proof (induction xs rule: induct_list012)
  case (2 x)
  then show ?case by (simp add: decode_encode_uri)
next
  case (3 x y zs)
  have "decode_uri (join ''/'' (map encode_uri (y # zs))) = Some (join ''/'' (y # zs))" using 3 by simp
  then show ?case using 3(3) by (simp add: decode_encode_append)
qed simp

lemma decode_encode_path: "ascii path \<Longrightarrow> decode_uri (encode_path path) = Some path"
proof -
  assume "ascii path"
  then have "ascii x" if "x \<in> set (split_on CHR ''/'' path)" for x
    using join_member [OF that, of "''/''"] unfolding ascii_def join_split_on by blast
  then show ?thesis by (simp add: encode_path_def decode_join join_split_on)
qed

lemma percent_decode_plain: "CHR ''%'' \<notin> set s \<Longrightarrow> CHR ''+'' \<notin> set s \<Longrightarrow> percent_decode s = s"
  by (induction s) auto

definition plain_text :: "string \<Rightarrow> bool" where
  "plain_text s = (list_all (\<lambda>c. b64_safe c \<or> c = CHR ''.'') s)"

lemma plain_text_no:
  assumes "plain_text s"
  shows "CHR ''%'' \<notin> set s" "CHR ''+'' \<notin> set s" "CHR ''&'' \<notin> set s" "CHR ''?'' \<notin> set s"
proof -
  have outside: "c \<notin> set s" if "\<not> b64_safe c" "c \<noteq> CHR ''.''" for c
    using assms that unfolding plain_text_def list_all_iff by blast
  show "CHR ''%'' \<notin> set s" by (rule outside) code_simp+
  show "CHR ''+'' \<notin> set s" by (rule outside) code_simp+
  show "CHR ''&'' \<notin> set s" by (rule outside) code_simp+
  show "CHR ''?'' \<notin> set s" by (rule outside) code_simp+
qed

lemma query_pair_plain:
  assumes "CHR ''='' \<notin> set name" "plain_text name" "plain_text v"
  shows "query_pair (name @ ''='' @ v) = (name, v)"
  using assms by (simp add: query_pair_def percent_decode_plain plain_text_no)

definition version_query :: "string option \<Rightarrow> string" where
  "version_query vid = (case vid of Some v \<Rightarrow> ''&versionId='' @ v | None \<Rightarrow> [])"

lemma search_params_url:
  assumes "plain_text token" "\<And>v. vid = Some v \<Longrightarrow> plain_text v"
  shows "search_params (''token='' @ token @ version_query vid)
    = (''token'', token) # (case vid of Some v \<Rightarrow> [(''versionId'', v)] | None \<Rightarrow> [])"
proof -
  have names: "plain_text ''token''" "plain_text ''versionId''"
    by (simp_all add: plain_text_def b64_safe_def is_digit_def char_code_def)
  note pairs = query_pair_plain [OF _ names(1) assms(1)] query_pair_plain [OF _ names(2)]
  have t: "CHR ''&'' \<notin> set (''token='' @ token)" using plain_text_no(3) [OF assms(1)] by simp
  show ?thesis
  proof (cases vid)
    case None
    then show ?thesis
      using split_on_no_sep [OF t] pairs(1) by (simp add: search_params_def version_query_def)
  next
    case (Some v)
    have v: "plain_text v" using assms(2) Some by simp
    then have "CHR ''&'' \<notin> set (''versionId='' @ v)" using plain_text_no(3) by simp
    from split_on_sep [OF t, of "''versionId='' @ v"] split_on_no_sep [OF this]
    have split: "split_on CHR ''&'' ((''token='' @ token) @ CHR ''&'' # (''versionId='' @ v)) = [''token='' @ token, ''versionId='' @ v]"
      by (simp only:)
    have "''token='' @ token @ version_query vid = (''token='' @ token) @ CHR ''&'' # (''versionId='' @ v)"
      using Some by (simp add: version_query_def)
    then show ?thesis
      unfolding search_params_def using split pairs(1) pairs(2) [OF _ v] Some by simp
  qed
qed

lemma parse_file_url:
  assumes "CHR ''/'' \<notin> set fullId" "CHR ''?'' \<notin> set fullId" "ascii path" "plain_text token" "token \<noteq> []"
    and "\<And>v. vid = Some v \<Longrightarrow> plain_text v"
  shows "parseUrl (PREFIX @ fullId @ ''/'' @ encode_path path @ ''?token='' @ token @ version_query vid)
    = Inr (Some \<lparr>ft_fullId = fullId, ft_path = path, ft_token = token, ft_versionId = vid\<rparr>)"
proof -
  let ?part = "fullId @ ''/'' @ encode_path path" and ?query = "''token='' @ token @ version_query vid"
  have part: "CHR ''?'' \<notin> set ?part" using assms(2) encode_path_plain by simp
  have query: "CHR ''?'' \<notin> set ?query"
    using plain_text_no(4) [OF assms(4)] plain_text_no(4) assms(6) by (auto simp: version_query_def split: option.splits)
  have split: "split_on CHR ''?'' (?part @ CHR ''?'' # ?query) = [?part, ?query]"
    using split_on_sep [OF part, of ?query] split_on_no_sep [OF query] by (simp only:)
  have rest: "drop (length PREFIX) (PREFIX @ fullId @ ''/'' @ encode_path path @ ''?token='' @ token @ version_query vid)
      = ?part @ CHR ''?'' # ?query"
    by simp
  have slash: "index_of CHR ''/'' ?part = Some (length fullId)" using assms(1) by simp
  show ?thesis
    unfolding parseUrl_def rest split
    using assms(5) slash decode_encode_path [OF assms(3)] search_params_url [OF assms(4,6)]
    by (simp split: option.split)
qed

lemma version_id_plain: "version_id_syntax v \<Longrightarrow> plain_text v \<and> clean_name v \<and> given (Some v) = Some v"
proof -
  assume v: "version_id_syntax v"
  then obtain ds where ds: "v = CHR ''v'' # ds" "list_all is_digit ds" by (cases v) (auto simp: version_id_syntax_def)
  have "\<not> is_digit CHR ''/''" by (simp add: is_digit_def char_code_def)
  then show ?thesis
    using ds by (auto simp: plain_text_def b64_safe_def clean_name_def given_def list_all_iff char_code_def)
qed

section \<open>Minted URLs are answered as the bucket would\<close>

text \<open>The request of a URL: the path and query after the host.\<close>

definition requests :: "nat \<Rightarrow> string \<Rightarrow> file_request \<Rightarrow> bool" where
  "requests port url req = (url = getDevBaseUrl port @ fr_url req)"

definition id_ok :: "string \<Rightarrow> bool" where
  "id_ok fullId = (CHR ''/'' \<notin> set fullId \<and> CHR ''?'' \<notin> set fullId)"

definition served_from :: "fpath \<Rightarrow> bucket \<Rightarrow> bool" where
  "served_from cwd fb = (dataDir fb = path_join cwd [''.bb-data'', bk_fullId fb] \<and> bucket_ok fb \<and> id_ok (bk_fullId fb))"

lemma minted_parsed:
  assumes "mintFileToken env now f path m expiresIn c = Inr token"
    and "requests port (file_url port f path token @ version_query vid) req"
    and "id_ok f" "ascii path" "\<And>v. vid = Some v \<Longrightarrow> version_id_syntax v"
    and "\<And>json. hmac_sha256 env (LOCAL_FILE_SECRET env) json \<noteq> []"
  obtains n where "expiresIn = Num n"
    "\<And>now' f' p' m'. validateFileToken env now' token f' p' m' =
      (if f' = f \<and> p' = path \<and> m' = m \<and> now' div 1000 \<le> now div 1000 + n
       then Some (token_payload f path m (now div 1000 + n) c) else None)"
    "starts_with (fr_url req) PREFIX"
    "parseUrl (fr_url req) = Inr (Some \<lparr>ft_fullId = f, ft_path = path, ft_token = token, ft_versionId = vid\<rparr>)"
proof (rule minted_valid [OF assms(1,6)])
  fix n
  assume n: "expiresIn = Num n"
    and val: "\<And>now' f' p' m'. validateFileToken env now' token f' p' m' =
      (if f' = f \<and> p' = path \<and> m' = m \<and> now' div 1000 \<le> now div 1000 + n
       then Some (token_payload f path m (now div 1000 + n) c) else None)"
    and safe: "\<And>x. x \<in> set token \<Longrightarrow> b64_safe x \<or> x = CHR ''.''" "token \<noteq> []"
  have u: "fr_url req = PREFIX @ f @ ''/'' @ encode_path path @ ''?token='' @ token @ version_query vid"
    using assms(2) by (simp add: requests_def file_url_def PREFIX_def)
  have "plain_text token" using safe by (auto simp: plain_text_def list_all_iff)
  then have "parseUrl (fr_url req) = Inr (Some \<lparr>ft_fullId = f, ft_path = path, ft_token = token, ft_versionId = vid\<rparr>)"
    unfolding u using assms(3-5) safe(2) version_id_plain by (intro parse_file_url) (auto simp: id_ok_def)
  moreover have "starts_with (fr_url req) PREFIX" unfolding u by simp
  ultimately show thesis by (intro that [OF n val]) auto
qed

lemma getUrl_minted:
  assumes "bucket_getUrl env port now fb path expiresIn vid = Inr url"
    and "versioned fb" "\<And>v. vid = Some v \<Longrightarrow> version_id_syntax v"
  obtains token where "validateKey fb path = Inr ()"
    "mintFileToken env now (bk_fullId fb) path ''GET'' (nullish_or expiresIn (Num 3600)) None = Inr token"
    "url = file_url port (bk_fullId fb) path token @ version_query vid"
proof -
  have "given vid = vid" using assms(3) version_id_plain by (cases vid) (auto simp: given_def)
  then show thesis using assms(1,2) that by (auto simp: bucket_getUrl_def bindR_eq_Inr version_query_def split: option.splits)
qed

lemma putUrl_minted:
  assumes "bucket_putUrl env port now fb path expiresIn contentType = Inr url"
  obtains token where "validateKey fb path = Inr ()" "\<not> objectLocked fb"
    "mintFileToken env now (bk_fullId fb) path ''PUT'' (nullish_or expiresIn (Num 3600)) contentType = Inr token"
    "url = file_url port (bk_fullId fb) path token @ version_query None"
  using assms that
  by (auto simp: bucket_putUrl_def assertPresignedUploadSupported_def bindR_eq_Inr version_query_def split: if_splits)

lemma reaches_dispatch:
  assumes "starts_with (fr_url req) PREFIX"
    and "parseUrl (fr_url req) = Inr (Some \<lparr>ft_fullId = bk_fullId fb, ft_path = path, ft_token = token, ft_versionId = vid\<rparr>)"
    and "served_from cwd fb" "validateKey fb path = Inr ()" "fr_method req \<noteq> ''OPTIONS''"
    and "\<And>v. vid = Some v \<Longrightarrow> version_id_syntax v"
  shows "file_server env now cwd registry req d = dispatch_file env now (dataDir fb) registry
    \<lparr>ft_fullId = bk_fullId fb, ft_path = path, ft_token = token, ft_versionId = vid\<rparr> req d"
proof -
  have "path_join cwd [''.bb-data'', bk_fullId fb] = dataDir fb" using assms(3) by (simp add: served_from_def)
  moreover have "assertContainedPath (contentRoot (dataDir fb)) path = Inr ()"
    using assms(4) by (simp add: validateKey_def bindR_eq_Inr)
  ultimately show ?thesis using assms(1,2,5,6) by (cases vid) (simp_all add: file_server_def)
qed

definition served_headers :: "file_request \<Rightarrow> FileContent \<Rightarrow> (string \<times> jsval) list" where
  "served_headers req f =
     cors_reply_headers req
     @ [(''Content-Type'', nullish_or (fc_contentType f) octet_stream), (''Content-Length'', Str (show_nat (fc_size f))),
        (''X-Content-Type-Options'', Str ''nosniff''), (''Content-Disposition'', Str ''attachment'')]"

lemma file_content_Inr:
  "file_content b meta = Inr f \<longleftrightarrow>
     meta \<noteq> Null \<and> meta \<noteq> Undef \<and> f = \<lparr>fc_body = b, fc_contentType = get_prop meta ''contentType'',
        fc_metadata = get_prop meta ''metadata'', fc_size = length b\<rparr>"
  by (auto simp: file_content_def member_def)

lemma map_sum_Some [simp]: "map_sum id Some r = Inr x \<longleftrightarrow> (\<exists>f. r = Inr f \<and> x = Some f)"
  by (cases r) auto

lemma readFileSync_same: "readFileSync p d = (d, snd (readFileSync p d))"
  by (simp add: readFileSync_def)

text \<open>Both readers of a bucket: absent, or the bytes with a sidecar.\<close>

lemma read_stored:
  assumes "bindF (readFileSync p) (\<lambda>body. liftF (map_sum id Some (file_content body meta))) d = (d', Inr r)"
  obtains b where "d' = d" "readFileSync p d = (d, Inr b)" "r = Some \<lparr>fc_body = b, fc_contentType = get_prop meta ''contentType'',
        fc_metadata = get_prop meta ''metadata'', fc_size = length b\<rparr>" "meta \<noteq> Null"
  using assms readFileSync_same [of p d] by (auto simp: bindF_Inr liftF_def file_content_Inr)

lemma serve_get_as_bucket:
  assumes "bucket_get fb path vid d = (d', Inr r)" "versioned fb"
    and "validateFileToken env now token f path ''GET'' = Some pl"
  shows "serve_get env now (dataDir fb) \<lparr>ft_fullId = f, ft_path = path, ft_token = token, ft_versionId = vid\<rparr> req d =
    (case r of None \<Rightarrow> sendError req 404 ''NoSuchKey'' d
             | Some c \<Rightarrow> (d, Inr (Reply 200 (served_headers req c) (fc_body c))))"
proof -
  have get: "(case given vid of Some v \<Rightarrow> version_content fb path v | None \<Rightarrow> current_content fb path) d = (d', Inr r)"
    using assms(1,2) by (auto simp: bucket_get_def bindF_Inr liftF_def split: option.splits)
  show ?thesis
  proof (cases "given vid")
    case None
    let ?there = "existsSync d (contentPath (dataDir fb) path) \<and> \<not> existsSync d (deleteMarkerPath (dataDir fb) path)"
    show ?thesis
    proof (cases ?there)
      case True
      then have "bindF (readFileSync (contentPath (dataDir fb) path))
          (\<lambda>body. liftF (map_sum id Some (file_content body (readMeta fb path d)))) d = (d', Inr r)"
        using get None assms(2) by (simp add: current_content_def Let_def)
      then show ?thesis
        using True None assms(3)
        by (elim read_stored) (simp add: serve_get_def bindF_step retF_def served_headers_def served_type_def readMeta_def)
    next
      case False
      then show ?thesis
        using get None assms(2,3) by (auto simp: current_content_def serve_get_def Let_def split: if_splits)
    qed
  next
    case (Some v)
    show ?thesis
    proof (cases "existsSync d (versionContentPath (dataDir fb) path v)")
      case True
      then have "bindF (readFileSync (versionContentPath (dataDir fb) path v))
          (\<lambda>body. liftF (map_sum id Some (file_content body (readVersionMeta fb path v d)))) d = (d', Inr r)"
        using get Some by (simp add: version_content_def Let_def)
      then show ?thesis
        using True Some assms(3)
        by (elim read_stored)
           (simp add: serve_get_def bindF_step retF_def served_headers_def served_type_def readVersionMeta_def)
    next
      case False
      then show ?thesis using get Some assms(3) by (simp add: version_content_def serve_get_def)
    qed
  qed
qed

section \<open>The theorems at work\<close>

definition web_bucket :: bucket where
  "web_bucket = \<lparr>dataDir = [''w'', ''.bb-data'', ''app-b''], versioned = True, objectLocked = False, bk_fullId = ''app-b''\<rparr>"

definition web_disk :: disk where
  "web_disk = fst (bucket_put web_bucket 10 ''a'' ''first'' \<lparr>po_contentType = Str ''text/plain'', po_metadata = Undef, po_cacheControl = Undef\<rparr>
                     [([''w''], Dir)])"

definition web_url :: string where
  "web_url = (case bucket_getUrl demo_file_env 3000 1000 web_bucket ''a'' Undef (Some ''v1'') of Inr u \<Rightarrow> u | Inl _ \<Rightarrow> [])"

definition web_put_url :: string where
  "web_put_url = (case bucket_putUrl demo_file_env 3000 1000 web_bucket ''a'' (Num 60) (Some ''text/css'') of Inr u \<Rightarrow> u | Inl _ \<Rightarrow> [])"

definition web_request :: "string \<Rightarrow> string \<Rightarrow> string option \<Rightarrow> string \<Rightarrow> file_request" where
  "web_request url meth contentType body =
     \<lparr>fr_url = drop (length (getDevBaseUrl 3000)) url, fr_method = meth, fr_origin = None, fr_contentType = contentType, fr_body = body\<rparr>"

lemma web_ok: "served_from [''w''] web_bucket" "ascii ''a''" "version_id_syntax ''v1''" "versioned web_bucket" "bucket_ok web_bucket"
  by code_simp+

lemma demo_hmac: "hmac_sha256 demo_file_env (LOCAL_FILE_SECRET demo_file_env) json \<noteq> []"
  by (simp add: demo_file_env_def)

lemma web_key: "validateKey web_bucket ''a'' = Inr ()" "bk_fullId web_bucket = ''app-b''" "given (Some ''v1'') = Some ''v1''"
  by code_simp+

lemma requests_file_url: "requests 3000 (file_url 3000 f p t @ r) (web_request (file_url 3000 f p t @ r) m c body)"
  by (simp add: requests_def web_request_def file_url_def)

lemma web_mint:
  "1 \<le> n \<Longrightarrow> n \<le> 604800 \<Longrightarrow> (\<And>t. mintFileToken demo_file_env now f p m (Num n) c = Inr t \<Longrightarrow> thesis) \<Longrightarrow> thesis"
  by (simp add: mintFileToken_def validatePresignedUrlExpiry_def MIN_PRESIGNED_URL_EXPIRY_SECONDS_def
      MAX_PRESIGNED_URL_EXPIRY_SECONDS_def Let_def)

lemma web_getUrl:
  "bucket_getUrl demo_file_env 3000 1000 web_bucket ''a'' Undef (Some ''v1'') = Inr web_url"
  "requests 3000 web_url (web_request web_url ''GET'' None [])"
proof -
  obtain t where "mintFileToken demo_file_env 1000 ''app-b'' ''a'' ''GET'' (Num 3600) None = Inr t"
    by (rule web_mint [of 3600 1000 "''app-b''" "''a''" "''GET''" None]) auto
  then have url: "bucket_getUrl demo_file_env 3000 1000 web_bucket ''a'' Undef (Some ''v1'')
      = Inr (file_url 3000 ''app-b'' ''a'' t @ ''&versionId=v1'')"
    by (simp add: bucket_getUrl_def web_key web_ok(4) nullish_or_def)
  then have u: "web_url = file_url 3000 ''app-b'' ''a'' t @ ''&versionId=v1''" by (simp add: web_url_def)
  show "bucket_getUrl demo_file_env 3000 1000 web_bucket ''a'' Undef (Some ''v1'') = Inr web_url" using url u by simp
  show "requests 3000 web_url (web_request web_url ''GET'' None [])" unfolding u by (rule requests_file_url)
qed

lemma web_get:
  "bucket_get web_bucket ''a'' (Some ''v1'') web_disk =
     (web_disk, Inr (Some \<lparr>fc_body = ''first'', fc_contentType = Str ''text/plain'', fc_metadata = Obj [], fc_size = 5\<rparr>))"
  by code_simp

text \<open>C23: a GET of a URL minted by \<open>getUrl\<close>, for the current file or a version of a versioned bucket, is
  answered until the URL expires as the bucket's own get would: the same bytes and content type with
  status 200, or 404 where the get finds nothing; after that with 403.  The disk is not changed.\<close>

theorem file_url_end_to_end:
  assumes "bucket_getUrl env port now fb path expiresIn vid = Inr url" "requests port url req"
    and "versioned fb" "served_from cwd fb" "ascii path" "\<And>v. vid = Some v \<Longrightarrow> version_id_syntax v"
    and "\<And>json. hmac_sha256 env (LOCAL_FILE_SECRET env) json \<noteq> []"
    and "fr_method req = ''GET''" "nullish_or expiresIn (Num 3600) = Num e" "bucket_get fb path vid d = (d, Inr r)"
  shows "file_server env now' cwd registry req d =
    (if now div 1000 + e < now' div 1000 then sendError req 403 ''Invalid or expired token'' d
     else case r of None \<Rightarrow> sendError req 404 ''NoSuchKey'' d
                  | Some c \<Rightarrow> (d, Inr (Reply 200 (served_headers req c) (fc_body c))))"
proof (rule getUrl_minted [OF assms(1,3,6)])
  fix token
  assume key: "validateKey fb path = Inr ()"
    and mint: "mintFileToken env now (bk_fullId fb) path ''GET'' (nullish_or expiresIn (Num 3600)) None = Inr token"
    and url: "url = file_url port (bk_fullId fb) path token @ version_query vid"
  have req: "requests port (file_url port (bk_fullId fb) path token @ version_query vid) req" using assms(2) url by simp
  have id: "id_ok (bk_fullId fb)" using assms(4) by (simp add: served_from_def)
  show ?thesis
  proof (rule minted_parsed [OF mint req id assms(5-7)])
    fix n
    assume n: "nullish_or expiresIn (Num 3600) = Num n"
      and val: "\<And>now' f p m. validateFileToken env now' token f p m =
        (if f = bk_fullId fb \<and> p = path \<and> m = ''GET'' \<and> now' div 1000 \<le> now div 1000 + n
         then Some (token_payload (bk_fullId fb) path ''GET'' (now div 1000 + n) None) else None)"
      and parsed: "starts_with (fr_url req) PREFIX"
        "parseUrl (fr_url req) = Inr (Some \<lparr>ft_fullId = bk_fullId fb, ft_path = path, ft_token = token, ft_versionId = vid\<rparr>)"
    let ?t = "\<lparr>ft_fullId = bk_fullId fb, ft_path = path, ft_token = token, ft_versionId = vid\<rparr>"
    have served: "file_server env now' cwd registry req d = serve_get env now' (dataDir fb) ?t req d"
      using reaches_dispatch [OF parsed assms(4) key _ assms(6)] assms(8) by (simp add: dispatch_file_def)
    have e: "n = e" using n assms(9) by simp
    show ?thesis
    proof (cases "now div 1000 + e < now' div 1000")
      case True
      then have "validateFileToken env now' token (bk_fullId fb) path ''GET'' = None" by (simp add: val e)
      then show ?thesis using True served by (simp add: serve_get_def)
    next
      case False
      then have "validateFileToken env now' token (bk_fullId fb) path ''GET''
          = Some (token_payload (bk_fullId fb) path ''GET'' (now div 1000 + n) None)"
        by (simp add: val e)
      from serve_get_as_bucket [OF assms(10,3) this] show ?thesis using False served by simp
    qed
  qed
qed

theorem file_url_end_to_end_witness:
  "file_server demo_file_env 5000 [''w''] (\<lambda>_. Some web_bucket) (web_request web_url ''GET'' None []) web_disk =
     (web_disk, Inr (Reply 200 (served_headers (web_request web_url ''GET'' None [])
        \<lparr>fc_body = ''first'', fc_contentType = Str ''text/plain'', fc_metadata = Obj [], fc_size = 5\<rparr>) ''first''))"
proof -
  have "version_id_syntax v" if "Some ''v1'' = Some v" for v using that web_ok(3) by simp
  from file_url_end_to_end [OF web_getUrl web_ok(4,1,2) this demo_hmac _ _ web_get, of 3600 5000 "\<lambda>_. Some web_bucket"]
  show ?thesis by (simp add: web_request_def nullish_or_def)
qed

lemma upload_served:
  assumes "bucket_putUrl env port now fb path expiresIn (Some c) = Inr url" "c \<noteq> []" "requests port url req"
    and "served_from cwd fb" "ascii path" "registry (bk_fullId fb) = Some fb"
    and "\<And>json. hmac_sha256 env (LOCAL_FILE_SECRET env) json \<noteq> []"
    and "fr_method req = ''PUT''" "nullish_or expiresIn (Num 3600) = Num e"
  shows "file_server env now' cwd registry req d =
    (if now div 1000 + e < now' div 1000 then sendError req 403 ''Invalid or expired token'' d
     else if fr_contentType req \<noteq> Some c then sendError req 403 (mismatch_message (fr_contentType req) c) d
     else
       (case bucket_put fb now' path (fr_body req) \<lparr>po_contentType = Str c, po_metadata = Undef, po_cacheControl = Undef\<rparr> d of
          (d', Inr _) \<Rightarrow> (d', Inr (Reply 200 (cors_reply_headers req) []))
        | (d', Inl x) \<Rightarrow> sendError req 500 (case x of JsError _ m _ _ _ _ _ \<Rightarrow> m | JsThrow v \<Rightarrow> show_value v) d'))"
proof (rule putUrl_minted [OF assms(1)])
  fix token
  assume key: "validateKey fb path = Inr ()"
    and mint: "mintFileToken env now (bk_fullId fb) path ''PUT'' (nullish_or expiresIn (Num 3600)) (Some c) = Inr token"
    and url: "url = file_url port (bk_fullId fb) path token @ version_query None"
  have req: "requests port (file_url port (bk_fullId fb) path token @ version_query None) req" using assms(3) url by simp
  have id: "id_ok (bk_fullId fb)" using assms(4) by (simp add: served_from_def)
  have none: "version_id_syntax v" if "None = Some v" for v using that by simp
  show ?thesis
  proof (rule minted_parsed [OF mint req id assms(5) none assms(7)])
    fix n
    assume n: "nullish_or expiresIn (Num 3600) = Num n"
      and val: "\<And>now' f p m. validateFileToken env now' token f p m =
        (if f = bk_fullId fb \<and> p = path \<and> m = ''PUT'' \<and> now' div 1000 \<le> now div 1000 + n
         then Some (token_payload (bk_fullId fb) path ''PUT'' (now div 1000 + n) (Some c)) else None)"
      and parsed: "starts_with (fr_url req) PREFIX"
        "parseUrl (fr_url req) = Inr (Some \<lparr>ft_fullId = bk_fullId fb, ft_path = path, ft_token = token, ft_versionId = None\<rparr>)"
    let ?t = "\<lparr>ft_fullId = bk_fullId fb, ft_path = path, ft_token = token, ft_versionId = None\<rparr>"
    have served: "file_server env now' cwd registry req d = serve_put env now' registry ?t req d"
      using reaches_dispatch [OF parsed assms(4) key _ none] assms(8) by (simp add: dispatch_file_def)
    have e: "n = e" using n assms(9) by simp
    show ?thesis
    proof (cases "now div 1000 + e < now' div 1000")
      case True
      then have "validateFileToken env now' token (bk_fullId fb) path ''PUT'' = None" by (simp add: val e)
      then show ?thesis using True served by (simp add: serve_put_def)
    next
      case False
      then have "validateFileToken env now' token (bk_fullId fb) path ''PUT''
          = Some (token_payload (bk_fullId fb) path ''PUT'' (now div 1000 + n) (Some c))"
        by (simp add: val e)
      moreover have "show_value (Str c) = c" "truthy (Str c)" using assms(2) by (simp_all add: show_value_def)
      ultimately show ?thesis
        using False served assms(2,6)
        by (cases "fr_contentType req") (simp_all add: serve_put_def token_payload_get upload_def Let_def)
    qed
  qed
qed

text \<open>C24: a PUT to a URL minted by \<open>putUrl\<close> for a content type stores the body under the signed path as the
  bucket's put would, provided the request sends exactly that content type and the URL has not
  expired; any other PUT to it is refused with 403 and leaves the disk as it was.\<close>

theorem file_upload_end_to_end:
  assumes "bucket_putUrl env port now fb path expiresIn (Some c) = Inr url" "c \<noteq> []" "requests port url req"
    and "served_from cwd fb" "ascii path" "registry (bk_fullId fb) = Some fb"
    and "\<And>json. hmac_sha256 env (LOCAL_FILE_SECRET env) json \<noteq> []"
    and "fr_method req = ''PUT''" "nullish_or expiresIn (Num 3600) = Num e"
  shows "file_server env now' cwd registry req d =
    (if now div 1000 + e < now' div 1000 then sendError req 403 ''Invalid or expired token'' d
     else if fr_contentType req \<noteq> Some c then sendError req 403 (mismatch_message (fr_contentType req) c) d
     else
       (case bucket_put fb now' path (fr_body req) \<lparr>po_contentType = Str c, po_metadata = Undef, po_cacheControl = Undef\<rparr> d of
          (d', Inr _) \<Rightarrow> (d', Inr (Reply 200 (cors_reply_headers req) []))
        | (d', Inl x) \<Rightarrow> sendError req 500 (case x of JsError _ m _ _ _ _ _ \<Rightarrow> m | JsThrow v \<Rightarrow> show_value v) d'))"
  using upload_served [where registry = registry and url = url and req = req, OF assms(1-6) _ assms(8,9)] assms(7) by blast

lemma web_putUrl:
  "bucket_putUrl demo_file_env 3000 1000 web_bucket ''a'' (Num 60) (Some ''text/css'') = Inr web_put_url"
  "requests 3000 web_put_url (web_request web_put_url ''PUT'' c body)"
proof -
  obtain t where "mintFileToken demo_file_env 1000 ''app-b'' ''a'' ''PUT'' (Num 60) (Some ''text/css'') = Inr t"
    by (rule web_mint [of 60 1000 "''app-b''" "''a''" "''PUT''" "Some ''text/css''"]) auto
  then have url: "bucket_putUrl demo_file_env 3000 1000 web_bucket ''a'' (Num 60) (Some ''text/css'')
      = Inr (file_url 3000 ''app-b'' ''a'' t @ [])"
    by (simp add: bucket_putUrl_def assertPresignedUploadSupported_def web_bucket_def
        web_key [unfolded web_bucket_def, simplified] nullish_or_def)
  then have u: "web_put_url = file_url 3000 ''app-b'' ''a'' t @ []" by (simp add: web_put_url_def)
  show "bucket_putUrl demo_file_env 3000 1000 web_bucket ''a'' (Num 60) (Some ''text/css'') = Inr web_put_url" using url u by simp
  show "requests 3000 web_put_url (web_request web_put_url ''PUT'' c body)" unfolding u by (rule requests_file_url)
qed

theorem file_upload_end_to_end_witness:
  "file_server demo_file_env 5000 [''w''] (\<lambda>_. Some web_bucket) (web_request web_put_url ''PUT'' (Some ''text/html'') ''x'') web_disk =
     sendError (web_request web_put_url ''PUT'' (Some ''text/html'') ''x'') 403 (mismatch_message (Some ''text/html'') ''text/css'') web_disk"
  using file_upload_end_to_end [OF web_putUrl(1) _ web_putUrl(2) web_ok(1,2) _ demo_hmac,
      of "\<lambda>_. Some web_bucket" "Some ''text/html''" "''x''" 60 5000 web_disk]
  by (simp add: web_request_def nullish_or_def)

text \<open>The token that lets a request through.\<close>

definition authorizes :: "file_env \<Rightarrow> int \<Rightarrow> file_target \<Rightarrow> string \<Rightarrow> bool" where
  "authorizes env now t meth =
     (\<exists>payload64 rest payload. split_on CHR ''.'' (ft_token t) = payload64 # sign_token env (from_base64url payload64) # rest
        \<and> json_parse (from_base64url payload64) = Some payload
        \<and> get_prop payload ''fullId'' = Str (ft_fullId t) \<and> get_prop payload ''path'' = Str (ft_path t)
        \<and> get_prop payload ''method'' = Str meth \<and> \<not> expired_before (get_prop payload ''exp'') (now div 1000))"

lemma validate_authorizes:
  assumes "validateFileToken env now (ft_token t) (ft_fullId t) (ft_path t) meth = Some payload"
  shows "authorizes env now t meth"
proof -
  obtain p sig rest where s: "split_on CHR ''.'' (ft_token t) = p # sig # rest"
    using assms by (auto simp: validateFileToken_def split: list.splits)
  then have "sig = sign_token env (from_base64url p)" "json_parse (from_base64url p) = Some payload"
      "get_prop payload ''fullId'' = Str (ft_fullId t)" "get_prop payload ''path'' = Str (ft_path t)"
      "get_prop payload ''method'' = Str meth" "\<not> expired_before (get_prop payload ''exp'') (now div 1000)"
    using assms by (auto simp: validateFileToken_def Let_def split: if_splits option.splits)
  then show ?thesis using s unfolding authorizes_def by blast
qed

text \<open>What a handler may do: reply otherwise than with 200 and leave the disk, or show a token.\<close>

definition guarded :: "(disk \<Rightarrow> bool) \<Rightarrow> file_reply disk_io \<Rightarrow> disk \<Rightarrow> bool" where
  "guarded ok m d = ((fst (m d) = d \<and> (\<forall>h b. snd (m d) \<noteq> Inr (Reply 200 h b))) \<or> ok (fst (m d)))"

lemma guarded_error: "status \<noteq> 200 \<Longrightarrow> guarded ok (sendError req status err) d"
  by (simp add: guarded_def sendError_def retF_def)

lemma guarded_get:
  "guarded (\<lambda>d'. d' = d \<and> authorizes env now t ''GET'') (serve_get env now root t req) d"
proof (cases "validateFileToken env now (ft_token t) (ft_fullId t) (ft_path t) ''GET''")
  case None
  then have "serve_get env now root t req d = sendError req 403 ''Invalid or expired token'' d" by (simp add: serve_get_def)
  then show ?thesis by (simp add: guarded_def sendError_def retF_def)
next
  case (Some payload)
  have "fst (serve_get env now root t req d) = d"
    by (simp add: serve_get_def Let_def sendError_def retF_def bindF_def readFileSync_def split: option.split node.split)
  then show ?thesis using validate_authorizes [OF Some] by (simp add: guarded_def)
qed

lemma guarded_put:
  assumes "wf_disk d" "\<And>i fb. registry i = Some fb \<Longrightarrow> bucket_ok fb"
  shows "guarded (\<lambda>d'. authorizes env now t ''PUT'' \<and> (\<exists>fb. registry (ft_fullId t) = Some fb \<and> changes (key_files fb (ft_path t)) d d'))
    (serve_put env now registry t req) d"
proof (cases "validateFileToken env now (ft_token t) (ft_fullId t) (ft_path t) ''PUT''")
  case None
  then show ?thesis by (simp add: serve_put_def guarded_error)
next
  case (Some payload)
  note auth = validate_authorizes [OF Some]
  show ?thesis
  proof (cases "registry (ft_fullId t)")
    case None
    then show ?thesis using Some by (simp add: serve_put_def guarded_error)
  next
    case (Some fb)
    have "changes (key_files fb (ft_path t)) d (fst (upload fb now t req c d))" for c
    proof -
      have "fst (upload fb now t req c d) = fst (bucket_put fb now (ft_path t) (fr_body req)
             \<lparr>po_contentType = Str c, po_metadata = Undef, po_cacheControl = Undef\<rparr> d)"
        by (simp add: upload_def sendError_def retF_def split: prod.split sum.split)
      then show ?thesis using runs_put [OF assms(2) [OF Some]] assms(1) by (simp add: runs_def)
    qed
    then have up: "guarded (\<lambda>d'. authorizes env now t ''PUT'' \<and> (\<exists>fb. registry (ft_fullId t) = Some fb
        \<and> changes (key_files fb (ft_path t)) d d')) (upload fb now t req c) d" for c
      using Some auth by (auto simp: guarded_def)
    then show ?thesis
      using Some \<open>validateFileToken _ _ _ _ _ _ = Some payload\<close> by (simp add: serve_put_def Let_def up guarded_error)
  qed
qed


lemma web_upload:
  "snd (file_server demo_file_env 5000 [''w''] (\<lambda>_. Some web_bucket) (web_request web_put_url ''PUT'' (Some ''text/css'') ''x'') web_disk)
     = Inr (Reply 200 (cors_reply_headers (web_request web_put_url ''PUT'' (Some ''text/css'') ''x'')) [])"
proof -
  have "snd (bucket_put web_bucket 5000 ''a'' ''x'' \<lparr>po_contentType = Str ''text/css'', po_metadata = Undef, po_cacheControl = Undef\<rparr> web_disk)
      = Inr ()"
    by code_simp
  then show ?thesis
    using upload_served [OF web_putUrl(1) _ web_putUrl(2) web_ok(1,2) _ demo_hmac,
        of "\<lambda>_. Some web_bucket" "Some ''text/css''" "''x''" 60 5000 web_disk]
    by (auto simp: web_request_def nullish_or_def split: prod.split sum.split)
qed

lemma web_wf: "wf_disk web_disk"
proof -
  have "wf_disk [([''w''], Dir)]" by (simp add: wf_disk_def entry_def clean_name_def)
  then show ?thesis
    using runs_put [OF web_ok(5), of "''a''" 10 "''first''"
      "\<lparr>po_contentType = Str ''text/plain'', po_metadata = Undef, po_cacheControl = Undef\<rparr>"]
    unfolding runs_def web_disk_def by blast
qed


section \<open>What handles carry over the wire\<close>

text \<open>A handle sent to the client is read there as the same handle, wherever it stands in the value sent.\<close>

lemma hydrate_handle: "hydrate (json_norm (handle_json h)) = Handle (case h of DownloadHandle u \<Rightarrow> DownloadHandle u
    | UploadHandle u c \<Rightarrow> UploadHandle u (if c = Undef then Undef else json_norm c))"
  by (cases h) (auto simp: isDownloadDescriptor_def isUploadDescriptor_def str_of_def is_object_def is_str_def)

section \<open>Requests that end the listener\<close>

text \<open>A URL with a broken percent escape, and a GET of a directory, leave the listener by an exception.\<close>

lemma broken_escape_throws:
  "snd (file_server demo_file_env 5000 [''w''] (\<lambda>_. Some web_bucket)
     (web_request (getDevBaseUrl 3000 @ ''/.bb-file-bucket/app-b/%E0%A4%A?token=x'') ''GET'' None []) web_disk) = Inl URIError"
  by code_simp

end
