(* ===== verification/Realtime.thy ===== *)
theory Realtime
  imports Rpc TokenCodec "HOL-Library.AList"
begin

text \<open>
  \<^verbatim>\<open>packages/bb-realtime/src\<close>: \<^verbatim>\<open>utils.ts\<close> (limits and signed channel tokens), \<^verbatim>\<open>index.ts\<close> (the
  local runtime) and \<^verbatim>\<open>ws-server.ts\<close> (the local WebSocket server), with the host classes of
  \<^verbatim>\<open>core/src/common/loopback.ts\<close>.  HMAC-SHA256 is a parameter.  What the module globals hold is one
  record: the listeners of the emitter, the connected clients and, as logs, what handlers and clients
  have been given.  Sockets whose record is gone, after \<open>closeWebSocketServer\<close> or an error, are not
  followed further.  A token whose channel is no string, which no minted token has, is refused.
\<close>

section \<open>Limits\<close>

definition MAX_CHANNEL_BYTES :: nat where "MAX_CHANNEL_BYTES = 1024"
definition MAX_MESSAGE_BYTES :: int where "MAX_MESSAGE_BYTES = 131072"

text \<open>The error name of the block; its value is what the client sees.\<close>

definition rt_ValidationFailed :: string where "rt_ValidationFailed = ''ValidationFailedException''"
definition rt_ConnectionFailed :: string where "rt_ConnectionFailed = ''ConnectionFailedException''"

definition rt_validateSchema :: "(jsval \<Rightarrow> string list option) \<Rightarrow> jsval \<Rightarrow> (thrown, unit) res" where
  "rt_validateSchema schema v =
     (case schema v of
        None \<Rightarrow> Inr ()
      | Some [] \<Rightarrow> Inl (set_err_name ''TypeError'' (new_Error ''Cannot read properties of undefined''))
      | Some (m # _) \<Rightarrow> Inl (blocksError rt_ValidationFailed m))"

definition validateChannelPath :: "string \<Rightarrow> (thrown, unit) res" where
  "validateChannelPath fullChannel =
     (if length fullChannel > MAX_CHANNEL_BYTES
      then Inl (blocksError rt_ValidationFailed (''Channel path exceeds DynamoDB sort key limit ('' @ show_nat (length fullChannel)
                  @ ''/'' @ show_nat MAX_CHANNEL_BYTES @ '' bytes)''))
      else Inr ())"

definition isClientChannelPath :: "jsval \<Rightarrow> bool" where
  "isClientChannelPath channel =
     (case channel of
        Str c \<Rightarrow>
          length c \<le> MAX_CHANNEL_BYTES
          \<and> (case index_of CHR ''/'' c of None \<Rightarrow> False | Some i \<Rightarrow> 0 < i \<and> CHR ''/'' \<in> set (drop (Suc i) c))
      | _ \<Rightarrow> False)"

definition message_frame :: "string \<Rightarrow> jsval \<Rightarrow> string" where
  "message_frame channel data =
     print_json (json_norm (Obj [(''type'', Str ''message''), (''channel'', Str channel), (''data'', data)]))"

definition validatePublishSize :: "string \<Rightarrow> jsval \<Rightarrow> (thrown, unit) res" where
  "validatePublishSize fullChannel data =
     (let byteLength = int (length (message_frame fullChannel data)) in
      if byteLength > MAX_MESSAGE_BYTES
      then Inl (blocksError rt_ValidationFailed (''Published message exceeds WebSocket message limit of 128 KiB (''
                  @ show_int byteLength @ ''/'' @ show_int MAX_MESSAGE_BYTES
                  @ '' bytes); send a smaller payload or split it across multiple publishes''))
      else Inr ())"

section \<open>Tokens\<close>

definition channel_payload :: "string \<Rightarrow> int \<Rightarrow> jsval" where
  "channel_payload channel expiry = Obj [(''channel'', Str channel), (''exp'', Num expiry)]"

definition mintChannelToken :: "(string \<Rightarrow> string \<Rightarrow> string) \<Rightarrow> int \<Rightarrow> string \<Rightarrow> string \<Rightarrow> int \<Rightarrow> (thrown, string) res" where
  "mintChannelToken hmac now channel secret ttlSeconds =
     (if secret = []
      then Inl (blocksError rt_ConnectionFailed ''Refusing to mint token: signing secret is empty or missing'')
      else
        (let payload = print_json (json_norm (channel_payload channel (now div 1000 + ttlSeconds))) in
         Inr (base64url payload @ ''.'' @ base64url (hmac secret payload))))"

definition mintConnectToken :: "(string \<Rightarrow> string \<Rightarrow> string) \<Rightarrow> int \<Rightarrow> string \<Rightarrow> string \<Rightarrow> int \<Rightarrow> (thrown, string) res" where
  "mintConnectToken hmac now scopePrefix secret ttlSeconds =
     (if secret = []
      then Inl (blocksError rt_ConnectionFailed ''Refusing to mint token: signing secret is empty or missing'')
      else mintChannelToken hmac now (scopePrefix @ ''$connect'') secret ttlSeconds)"

text \<open>The test of a subscription: the scope of the token is the channel or a prefix of it up to a slash.\<close>

definition scope_covers :: "jsval \<Rightarrow> string \<Rightarrow> bool" where
  "scope_covers scope requestedChannel =
     (case scope of
        Str c \<Rightarrow> c \<noteq> [] \<and> CHR ''/'' \<in> set c \<and> (requestedChannel = c \<or> starts_with requestedChannel (c @ ''/''))
      | _ \<Rightarrow> False)"

definition validateChannelToken :: "(string \<Rightarrow> string \<Rightarrow> string) \<Rightarrow> int \<Rightarrow> string \<Rightarrow> string \<Rightarrow> string option \<Rightarrow> jsval option" where
  "validateChannelToken hmac now token secret requestedChannel =
     (case split_on CHR ''.'' token of
        payloadB64 # sig # _ \<Rightarrow>
          if payloadB64 = [] \<or> sig = [] then None
          else
            (case json_parse (from_base64url payloadB64) of
               None \<Rightarrow> None
             | Some payload \<Rightarrow>
                 if \<not> constantTimeEquals sig (base64url (hmac secret (print_json payload))) then None
                 else if payload = Null then None
                 else if truthy (get_prop payload ''exp'') \<and> expired_before (get_prop payload ''exp'') (now div 1000) then None
                 else
                   (case requestedChannel of
                      Some c \<Rightarrow> if c \<noteq> [] \<and> \<not> scope_covers (get_prop payload ''channel'') c then None else Some payload
                    | None \<Rightarrow> Some payload))
      | _ \<Rightarrow> None)"

lemma channel_payload_plain: "plain (channel_payload c e)"
  by (simp add: channel_payload_def)

lemma channel_payload_get: "get_prop (channel_payload c e) ''channel'' = Str c" "get_prop (channel_payload c e) ''exp'' = Num e"
  by (simp_all add: channel_payload_def)

lemma minted_token:
  assumes "mintChannelToken hmac now c secret ttl = Inr token" "\<And>json. hmac secret json \<noteq> []" "0 < now div 1000 + ttl"
  shows "validateChannelToken hmac now' token secret req =
    (if now div 1000 + ttl < now' div 1000 then None
     else if \<exists>r. req = Some r \<and> r \<noteq> [] \<and> \<not> scope_covers (Str c) r then None
     else Some (channel_payload c (now div 1000 + ttl)))"
proof -
  let ?p = "channel_payload c (now div 1000 + ttl)"
  let ?json = "print_json ?p"
  have t: "token = base64url ?json @ CHR ''.'' # base64url (hmac secret ?json)"
    using assms(1) by (auto simp: mintChannelToken_def norm_plain [OF channel_payload_plain] Let_def split: if_splits)
  have "split_on CHR ''.'' token = [base64url ?json, base64url (hmac secret ?json)]"
    unfolding t by (simp add: split_on_sep base64url_no_dot split_on_no_sep)
  moreover have "?p \<noteq> Null" by (simp add: channel_payload_def)
  ultimately show ?thesis
    using assms(2,3) by (auto simp: validateChannelToken_def print_json_nonempty base64url_roundtrip
        json_parse_print [OF channel_payload_plain] channel_payload_get expired_before_def split: option.splits)
qed

section \<open>State\<close>

text \<open>Handlers and sockets are named by numbers.  \<open>bus_listeners\<close> counts the listeners \<open>attach\<close> has added
  to the broadcast bus, which is set from the first on.\<close>

record ws_client =
  channels :: "string list"
  ws_open :: bool

record rt_world =
  globalEmitter :: "(string \<times> nat) list"
  clients :: "(nat \<times> ws_client) list"
  wss :: bool
  bus_listeners :: nat
  delivered :: "(nat \<times> jsval) list"
  sent :: "(nat \<times> string) list"

definition rt_start :: rt_world where
  "rt_start = \<lparr>globalEmitter = [], clients = [], wss = False, bus_listeners = 0, delivered = [], sent = []\<rparr>"

record realtime =
  rt_fullId :: string
  rt_namespaces :: "(string \<times> (jsval \<Rightarrow> string list option)) list"

section \<open>The local runtime\<close>

definition rt_ns :: "realtime \<Rightarrow> string \<Rightarrow> (thrown, (jsval \<Rightarrow> string list option) \<times> string) res" where
  "rt_ns rt namespace =
     (case map_of (rt_namespaces rt) namespace of
        None \<Rightarrow> Inl (blocksError ''InvalidNamespace'' (''Unknown namespace: '' @ namespace))
      | Some schema \<Rightarrow> Inr (schema, rt_fullId rt @ ''/'' @ namespace))"

definition emit_local :: "string \<Rightarrow> jsval \<Rightarrow> rt_world \<Rightarrow> rt_world" where
  "emit_local channel data w =
     w\<lparr>delivered := delivered w @ map (\<lambda>(_, h). (h, data)) (filter (\<lambda>(c, _). c = channel) (globalEmitter w))\<rparr>"

definition broadcast :: "string \<Rightarrow> jsval \<Rightarrow> rt_world \<Rightarrow> rt_world" where
  "broadcast channel data w =
     w\<lparr>sent := sent w @ map (\<lambda>(c, _). (c, message_frame channel data))
                (filter (\<lambda>(_, x). channel \<in> set (channels x) \<and> ws_open x) (clients w))\<rparr>"

definition publish_checks :: "realtime \<Rightarrow> string \<Rightarrow> string \<Rightarrow> jsval \<Rightarrow> (thrown, string) res" where
  "publish_checks rt namespace channel data =
     bindR (rt_ns rt namespace) (\<lambda>(schema, pre).
     bindR (rt_validateSchema schema data) (\<lambda>_.
     let fullChannel = pre @ ''/'' @ channel in
     bindR (validateChannelPath fullChannel) (\<lambda>_.
     bindR (validatePublishSize fullChannel data) (\<lambda>_.
       Inr fullChannel))))"

definition rt_publish :: "realtime \<Rightarrow> string \<Rightarrow> string \<Rightarrow> jsval \<Rightarrow> rt_world \<Rightarrow> rt_world \<times> (thrown, unit) res" where
  "rt_publish rt namespace channel data w =
     (case publish_checks rt namespace channel data of
        Inl e \<Rightarrow> (w, Inl e)
      | Inr fullChannel \<Rightarrow>
          (((broadcast fullChannel data) ^^ bus_listeners w) (emit_local fullChannel data w), Inr ()))"

text \<open>\<open>off\<close> removes the last registration of the handler.\<close>

definition rt_subscribe :: "realtime \<Rightarrow> string \<Rightarrow> string \<Rightarrow> nat \<Rightarrow> rt_world \<Rightarrow> rt_world \<times> (thrown, string) res" where
  "rt_subscribe rt namespace channel handler w =
     (case bindR (rt_ns rt namespace) (\<lambda>(_, pre).
             let fullChannel = pre @ ''/'' @ channel in
             bindR (validateChannelPath fullChannel) (\<lambda>_. Inr fullChannel)) of
        Inl e \<Rightarrow> (w, Inl e)
      | Inr fullChannel \<Rightarrow> (w\<lparr>globalEmitter := globalEmitter w @ [(fullChannel, handler)]\<rparr>, Inr fullChannel))"

definition rt_off :: "string \<Rightarrow> nat \<Rightarrow> rt_world \<Rightarrow> rt_world" where
  "rt_off channel handler w = w\<lparr>globalEmitter := rev (remove1 (channel, handler) (rev (globalEmitter w)))\<rparr>"

text \<open>The descriptor a channel handle is sent as; \<open>wsUrl\<close> is a global of the development server.\<close>

definition getChannel :: "(string \<Rightarrow> string \<Rightarrow> string) \<Rightarrow> string \<Rightarrow> int \<Rightarrow> jsval \<Rightarrow> realtime \<Rightarrow> string \<Rightarrow> string \<Rightarrow> (thrown, jsval) res" where
  "getChannel hmac secret now wsUrl rt namespace channel =
     bindR (rt_ns rt namespace) (\<lambda>(_, pre).
     let fullChannel = pre @ ''/'' @ channel in
     bindR (validateChannelPath fullChannel) (\<lambda>_.
     bindR (mintChannelToken hmac now fullChannel secret 3600) (\<lambda>token.
     bindR (mintConnectToken hmac now (rt_fullId rt) secret 7200) (\<lambda>connectToken.
       Inr (Obj [(''__blocks'', Str ''realtime/channel''), (''channel'', Str fullChannel), (''wsUrl'', wsUrl),
                 (''connectToken'', Str connectToken), (''token'', Str token)])))))"

section \<open>The WebSocket server\<close>

definition attach_ws :: "rt_world \<Rightarrow> rt_world" where
  "attach_ws w = (if wss w then w else w\<lparr>wss := True, bus_listeners := Suc (bus_listeners w)\<rparr>)"

definition closeWebSocketServer :: "rt_world \<Rightarrow> rt_world" where
  "closeWebSocketServer w = w\<lparr>wss := False, clients := []\<rparr>"

text \<open>A frame for a socket that is not open is dropped by the library.\<close>

definition ws_send :: "nat \<Rightarrow> string \<Rightarrow> rt_world \<Rightarrow> rt_world" where
  "ws_send c frame w =
     (case map_of (clients w) c of
        Some x \<Rightarrow> if ws_open x then w\<lparr>sent := sent w @ [(c, frame)]\<rparr> else w
      | None \<Rightarrow> w)"

definition on_connection :: "nat \<Rightarrow> rt_world \<Rightarrow> rt_world" where
  "on_connection c w = w\<lparr>clients := AList.update c \<lparr>channels = [], ws_open = True\<rparr> (clients w)\<rparr>"

definition on_close :: "nat \<Rightarrow> rt_world \<Rightarrow> rt_world" where
  "on_close c w = w\<lparr>clients := AList.delete c (clients w)\<rparr>"

text \<open>The socket starts to close: it is no longer open, the close event comes later.\<close>

definition start_closing :: "nat \<Rightarrow> rt_world \<Rightarrow> rt_world" where
  "start_closing c w = w\<lparr>clients := map (\<lambda>(i, x). (i, if i = c then x\<lparr>ws_open := False\<rparr> else x)) (clients w)\<rparr>"

definition change_channels :: "nat \<Rightarrow> (string list \<Rightarrow> string list) \<Rightarrow> rt_world \<Rightarrow> rt_world" where
  "change_channels c f w =
     w\<lparr>clients := map (\<lambda>(i, x). (i, if i = c then x\<lparr>channels := f (channels x)\<rparr> else x)) (clients w)\<rparr>"

definition error_frame :: "jsval \<Rightarrow> string \<Rightarrow> string" where
  "error_frame channel message =
     print_json (json_norm (Obj [(''type'', Str ''error''), (''channel'', channel), (''message'', Str message)]))"

definition success_frame :: "jsval \<Rightarrow> string" where
  "success_frame channel = print_json (json_norm (Obj [(''type'', Str ''subscribe_success''), (''channel'', channel)]))"

text \<open>A set in insertion order.\<close>

definition set_add :: "'a \<Rightarrow> 'a list \<Rightarrow> 'a list" where
  "set_add x xs = (if x \<in> set xs then xs else xs @ [x])"

definition client_subscribe :: "(string \<Rightarrow> string \<Rightarrow> string) \<Rightarrow> string \<Rightarrow> int \<Rightarrow> nat \<Rightarrow> jsval \<Rightarrow> string \<Rightarrow> rt_world \<Rightarrow> rt_world" where
  "client_subscribe hmac secret now c msg channel w =
     (case get_prop msg ''token'' of
        Str token \<Rightarrow>
          if token = [] then ws_send c (error_frame (Str channel) ''Unauthorized: missing token'') w
          else if validateChannelToken hmac now token secret (Some channel) = None
          then ws_send c (error_frame (Str channel) ''Unauthorized: invalid or expired token'') w
          else ws_send c (success_frame (Str channel)) (change_channels c (set_add channel) w)
      | _ \<Rightarrow> ws_send c (error_frame (Str channel) ''Unauthorized: missing token'') w)"

definition channel_text :: "jsval \<Rightarrow> string" where
  "channel_text v = (case v of Str s \<Rightarrow> s | _ \<Rightarrow> [])"

text \<open>A message that is no JSON, or \<open>null\<close>, is logged and dropped.\<close>

definition on_message :: "(string \<Rightarrow> string \<Rightarrow> string) \<Rightarrow> string \<Rightarrow> int \<Rightarrow> nat \<Rightarrow> string \<Rightarrow> rt_world \<Rightarrow> rt_world" where
  "on_message hmac secret now c text_data w =
     (case json_parse text_data of
        None \<Rightarrow> w
      | Some msg \<Rightarrow>
          (let action = get_prop msg ''action''; channel = get_prop msg ''channel'' in
           if msg = Null then w
           else if (action = Str ''subscribe'' \<or> action = Str ''unsubscribe'') \<and> \<not> isClientChannelPath channel
           then (if action = Str ''subscribe'' then ws_send c (error_frame Undef ''Invalid channel'') w else w)
           else if action = Str ''subscribe'' then client_subscribe hmac secret now c msg (channel_text channel) w
           else if action = Str ''unsubscribe'' then change_channels c (filter (\<lambda>x. x \<noteq> channel_text channel)) w
           else if action = Str ''publish''
           then ws_send c (error_frame channel ''Client publish is not supported; publish from the server with Realtime.publish()'') w
           else w))"

section \<open>Runs\<close>

datatype rt_event =
    Attach
  | CloseServer
  | Connect nat
  | Receive nat int string
  | StartClosing nat
  | CloseConn nat
  | Publish realtime string string jsval
  | Listen realtime string string nat
  | Unlisten string nat

fun rt_step :: "(string \<Rightarrow> string \<Rightarrow> string) \<Rightarrow> string \<Rightarrow> rt_world \<Rightarrow> rt_event \<Rightarrow> rt_world" where
  "rt_step hmac secret w Attach = attach_ws w"
| "rt_step hmac secret w CloseServer = closeWebSocketServer w"
| "rt_step hmac secret w (Connect c) = on_connection c w"
| "rt_step hmac secret w (Receive c now t) = on_message hmac secret now c t w"
| "rt_step hmac secret w (StartClosing c) = start_closing c w"
| "rt_step hmac secret w (CloseConn c) = on_close c w"
| "rt_step hmac secret w (Publish rt ns ch v) = fst (rt_publish rt ns ch v w)"
| "rt_step hmac secret w (Listen rt ns ch h) = fst (rt_subscribe rt ns ch h w)"
| "rt_step hmac secret w (Unlisten ch h) = rt_off ch h w"

definition rt_run :: "(string \<Rightarrow> string \<Rightarrow> string) \<Rightarrow> string \<Rightarrow> rt_event list \<Rightarrow> rt_world" where
  "rt_run hmac secret evs = foldl (rt_step hmac secret) rt_start evs"

section \<open>Who is subscribed\<close>

definition connected :: "rt_world \<Rightarrow> nat \<Rightarrow> bool" where
  "connected w c = (map_of (clients w) c \<noteq> None)"

definition subscribed :: "rt_world \<Rightarrow> nat \<Rightarrow> string \<Rightarrow> bool" where
  "subscribed w c ch = (case map_of (clients w) c of Some x \<Rightarrow> ch \<in> set (channels x) | None \<Rightarrow> False)"

text \<open>A message that asks for the channel with a token that is good for it at that time.\<close>

definition grants :: "(string \<Rightarrow> string \<Rightarrow> string) \<Rightarrow> string \<Rightarrow> nat \<Rightarrow> string \<Rightarrow> rt_event \<Rightarrow> bool" where
  "grants hmac secret c ch ev =
     (\<exists>now t msg token. ev = Receive c now t \<and> json_parse t = Some msg \<and> get_prop msg ''action'' = Str ''subscribe''
        \<and> get_prop msg ''channel'' = Str ch \<and> isClientChannelPath (Str ch) \<and> get_prop msg ''token'' = Str token \<and> token \<noteq> []
        \<and> validateChannelToken hmac now token secret (Some ch) \<noteq> None)"

definition revokes :: "nat \<Rightarrow> string \<Rightarrow> rt_event \<Rightarrow> bool" where
  "revokes c ch ev =
     (ev \<in> {Connect c, CloseConn c, CloseServer}
      \<or> (\<exists>now t msg. ev = Receive c now t \<and> json_parse t = Some msg \<and> get_prop msg ''action'' = Str ''unsubscribe''
           \<and> get_prop msg ''channel'' = Str ch \<and> isClientChannelPath (Str ch)))"

lemma ws_send_clients [simp]: "clients (ws_send c f w) = clients w"
  by (simp add: ws_send_def split: option.split)

lemma broadcast_clients [simp]: "clients ((broadcast ch v ^^ n) w) = clients w"
  by (induction n) (simp_all add: broadcast_def)

lemma publish_clients [simp]: "clients (fst (rt_publish rt ns ch v w)) = clients w"
  by (simp add: rt_publish_def emit_local_def split: sum.split)

lemma listen_clients [simp]: "clients (fst (rt_subscribe rt ns ch h w)) = clients w" "clients (rt_off ch h w) = clients w"
  by (simp_all add: rt_subscribe_def rt_off_def split: sum.split)

lemma map_of_change_at:
  "map_of (map (\<lambda>(i, x). (i, if i = c then g x else x)) xs) i = map_option (\<lambda>x. if i = c then g x else x) (map_of xs i)"
  by (induction xs) auto

lemma change_channels_get:
  "map_of (clients (change_channels c f w)) i =
     map_option (\<lambda>x. if i = c then x\<lparr>channels := f (channels x)\<rparr> else x) (map_of (clients w) i)"
  by (simp add: change_channels_def map_of_change_at)

lemma start_closing_get:
  "map_of (clients (start_closing c w)) i = map_option (\<lambda>x. if i = c then x\<lparr>ws_open := False\<rparr> else x) (map_of (clients w) i)"
  by (simp add: start_closing_def map_of_change_at)

lemma subscribed_cong: "clients w' = clients w \<Longrightarrow> subscribed w' c ch = subscribed w c ch"
  by (simp add: subscribed_def)

lemma subscribed_change:
  "subscribed (change_channels c' f w) c ch =
     (case map_of (clients w) c of Some x \<Rightarrow> ch \<in> set (if c = c' then f (channels x) else channels x) | None \<Rightarrow> False)"
  by (simp add: subscribed_def change_channels_get split: option.split)

lemma set_set_add [simp]: "set (set_add x xs) = insert x (set xs)"
  by (auto simp: set_add_def)

lemma client_path: "isClientChannelPath v \<Longrightarrow> v = Str (channel_text v)"
  by (cases v) (auto simp: isClientChannelPath_def channel_text_def)

definition token_good :: "(string \<Rightarrow> string \<Rightarrow> string) \<Rightarrow> string \<Rightarrow> int \<Rightarrow> jsval \<Rightarrow> string \<Rightarrow> bool" where
  "token_good hmac secret now msg ch =
     (\<exists>token. get_prop msg ''token'' = Str token \<and> token \<noteq> [] \<and> validateChannelToken hmac now token secret (Some ch) \<noteq> None)"

lemma client_subscribe_good:
  "client_subscribe hmac secret now c msg k w =
     (if token_good hmac secret now msg k then ws_send c (success_frame (Str k)) (change_channels c (set_add k) w)
      else ws_send c (error_frame (Str k) (if \<exists>t. get_prop msg ''token'' = Str t \<and> t \<noteq> []
             then ''Unauthorized: invalid or expired token'' else ''Unauthorized: missing token'')) w)"
  by (cases "get_prop msg ''token''") (simp_all add: client_subscribe_def token_good_def)

text \<open>What a message does to the subscriptions.\<close>

lemma subscribed_message:
  "subscribed (on_message hmac secret now c' t w) c ch \<longleftrightarrow>
    (grants hmac secret c ch (Receive c' now t) \<and> connected w c) \<or> (subscribed w c ch \<and> \<not> revokes c ch (Receive c' now t))"
proof (cases "json_parse t")
  case None
  then show ?thesis by (simp add: on_message_def grants_def revokes_def)
next
  case (Some msg)
  let ?a = "get_prop msg ''action''" and ?c = "get_prop msg ''channel''"
  have grants: "grants hmac secret c ch (Receive c' now t) \<longleftrightarrow>
      c' = c \<and> ?a = Str ''subscribe'' \<and> isClientChannelPath ?c \<and> channel_text ?c = ch
      \<and> token_good hmac secret now msg ch"
    using Some client_path [of ?c] by (auto simp: grants_def token_good_def channel_text_def)
  have revokes: "revokes c ch (Receive c' now t) \<longleftrightarrow>
      c' = c \<and> ?a = Str ''unsubscribe'' \<and> isClientChannelPath ?c \<and> channel_text ?c = ch"
    using Some client_path [of ?c] by (auto simp: revokes_def channel_text_def)
  consider (sub) "?a = Str ''subscribe''" "isClientChannelPath ?c" | (unsub) "?a = Str ''unsubscribe''" "isClientChannelPath ?c"
    | (other) "\<not> isClientChannelPath ?c \<or> (?a \<noteq> Str ''subscribe'' \<and> ?a \<noteq> Str ''unsubscribe'')"
    by blast
  then show ?thesis
  proof cases
    case sub
    then have "msg \<noteq> Null" by auto
    with sub Some have m: "on_message hmac secret now c' t w = client_subscribe hmac secret now c' msg (channel_text ?c) w"
      by (simp add: on_message_def)
    have "subscribed (client_subscribe hmac secret now c' msg (channel_text ?c) w) c ch =
        subscribed (if token_good hmac secret now msg (channel_text ?c) then change_channels c' (set_add (channel_text ?c)) w else w) c ch"
      by (rule subscribed_cong) (simp add: client_subscribe_good)
    also have "\<dots> \<longleftrightarrow> (token_good hmac secret now msg (channel_text ?c) \<and> c' = c \<and> channel_text ?c = ch \<and> connected w c) \<or> subscribed w c ch"
      by (cases "map_of (clients w) c") (auto simp: change_channels_get connected_def subscribed_def)
    finally show ?thesis unfolding m grants revokes using sub by auto
  next
    case unsub
    then have "msg \<noteq> Null" by auto
    with unsub Some have m: "on_message hmac secret now c' t w = change_channels c' (filter (\<lambda>x. x \<noteq> channel_text ?c)) w"
      by (simp add: on_message_def)
    show ?thesis
      unfolding m grants revokes using unsub
      by (cases "map_of (clients w) c") (auto simp: change_channels_get subscribed_def)
  next
    case other
    then have "clients (on_message hmac secret now c' t w) = clients w"
      using Some by (auto simp: on_message_def Let_def)
    from subscribed_cong [OF this] show ?thesis unfolding grants revokes using other by auto
  qed
qed

lemma subscribed_step:
  "subscribed (rt_step hmac secret w ev) c ch \<longleftrightarrow>
    (grants hmac secret c ch ev \<and> connected w c) \<or> (subscribed w c ch \<and> \<not> revokes c ch ev)"
proof (cases ev)
  case Attach
  then show ?thesis by (simp add: attach_ws_def subscribed_def grants_def revokes_def)
next
  case CloseServer
  then show ?thesis by (simp add: closeWebSocketServer_def subscribed_def grants_def revokes_def)
next
  case (Connect i)
  then show ?thesis by (simp add: on_connection_def subscribed_def grants_def revokes_def update_conv')
next
  case (Receive i now t)
  then show ?thesis by (simp add: subscribed_message)
next
  case (StartClosing i)
  then show ?thesis by (auto simp: subscribed_def start_closing_get grants_def revokes_def split: option.splits)
next
  case (CloseConn i)
  then show ?thesis by (auto simp: on_close_def subscribed_def grants_def revokes_def delete_conv')
next
  case (Publish rt ns k v)
  then have "clients (rt_step hmac secret w ev) = clients w" by simp
  from subscribed_cong [OF this] show ?thesis by (simp add: Publish grants_def revokes_def)
next
  case (Listen rt ns k h)
  then have "clients (rt_step hmac secret w ev) = clients w" by simp
  from subscribed_cong [OF this] show ?thesis by (simp add: Listen grants_def revokes_def)
next
  case (Unlisten k h)
  then have "clients (rt_step hmac secret w ev) = clients w" by simp
  from subscribed_cong [OF this] show ?thesis by (simp add: Unlisten grants_def revokes_def)
qed

text \<open>What holds since some event.\<close>

lemma holds_since:
  assumes "\<not> P []" "\<And>evs ev. P (evs @ [ev]) \<longleftrightarrow> (G evs ev \<or> (P evs \<and> \<not> K ev))"
  shows "P evs \<longleftrightarrow> (\<exists>pre ev post. evs = pre @ ev # post \<and> G pre ev \<and> (\<forall>e \<in> set post. \<not> K e))"
proof (induction evs rule: rev_induct)
  case Nil
  then show ?case using assms(1) by simp
next
  case (snoc e evs)
  have "(\<exists>pre ev post. evs @ [e] = pre @ ev # post \<and> G pre ev \<and> (\<forall>x \<in> set post. \<not> K x)) \<longleftrightarrow>
      G evs e \<or> ((\<exists>pre ev post. evs = pre @ ev # post \<and> G pre ev \<and> (\<forall>x \<in> set post. \<not> K x)) \<and> \<not> K e)" (is "?l \<longleftrightarrow> ?r")
  proof
    assume ?l
    then obtain pre ev post where "evs @ [e] = pre @ ev # post" "G pre ev" "\<forall>x \<in> set post. \<not> K x" by blast
    then show ?r by (cases post rule: rev_cases) auto
  next
    assume ?r
    then show ?l
    proof
      assume "G evs e"
      then show ?l by fastforce
    next
      assume "(\<exists>pre ev post. evs = pre @ ev # post \<and> G pre ev \<and> (\<forall>x \<in> set post. \<not> K x)) \<and> \<not> K e"
      then obtain pre ev post where "evs = pre @ ev # post" "G pre ev" "\<forall>x \<in> set post. \<not> K x" "\<not> K e" by blast
      then have "evs @ [e] = pre @ ev # (post @ [e])" "\<forall>x \<in> set (post @ [e]). \<not> K x" by auto
      then show ?l using \<open>G pre ev\<close> by blast
    qed
  qed
  then show ?case using assms(2) [of evs e] snoc.IH by blast
qed

lemma rt_run_snoc: "rt_run hmac secret (evs @ [ev]) = rt_step hmac secret (rt_run hmac secret evs) ev"
  by (simp add: rt_run_def)

lemma subscribed_since:
  "subscribed (rt_run hmac secret evs) c ch \<longleftrightarrow>
    (\<exists>pre ev post. evs = pre @ ev # post \<and> (grants hmac secret c ch ev \<and> connected (rt_run hmac secret pre) c)
       \<and> (\<forall>e \<in> set post. \<not> revokes c ch e))"
proof (rule holds_since)
  show "\<not> subscribed (rt_run hmac secret []) c ch" by (simp add: rt_run_def rt_start_def subscribed_def)
  show "subscribed (rt_run hmac secret (evs @ [ev])) c ch \<longleftrightarrow>
      (grants hmac secret c ch ev \<and> connected (rt_run hmac secret evs) c) \<or> (subscribed (rt_run hmac secret evs) c ch \<and> \<not> revokes c ch ev)"
    for evs ev by (simp only: rt_run_snoc subscribed_step)
qed

section \<open>What a publish sends\<close>

definition frames_to :: "nat \<Rightarrow> rt_world \<Rightarrow> string list" where
  "frames_to c w = map snd (filter (\<lambda>(i, _). i = c) (sent w))"

definition is_open :: "rt_world \<Rightarrow> nat \<Rightarrow> bool" where
  "is_open w c = (case map_of (clients w) c of Some x \<Rightarrow> ws_open x | None \<Rightarrow> False)"

definition client_keys :: "rt_world \<Rightarrow> bool" where
  "client_keys w = distinct (map fst (clients w))"

lemma fst_change_at: "map fst (map (\<lambda>(i, x). (i, if i = c then g x else x)) xs) = map fst xs"
  by (induction xs) auto

lemma client_keys_message: "client_keys w \<Longrightarrow> client_keys (on_message hmac secret now c t w)"
  by (auto simp: on_message_def Let_def client_subscribe_good client_keys_def change_channels_def fst_change_at
      simp del: map_map split: option.split)

lemma client_keys_step: "client_keys w \<Longrightarrow> client_keys (rt_step hmac secret w ev)"
  by (cases ev) (simp_all add: client_keys_message, simp_all add: client_keys_def attach_ws_def closeWebSocketServer_def
      on_connection_def on_close_def start_closing_def fst_change_at distinct_update distinct_delete del: map_map)

lemma client_keys_run: "client_keys (rt_run hmac secret evs)"
proof (induction evs rule: rev_induct)
  case Nil
  then show ?case by (simp add: rt_run_def rt_start_def client_keys_def)
qed (simp add: rt_run_snoc client_keys_step)

lemma filter_one:
  "distinct (map fst xs) \<Longrightarrow> filter (\<lambda>(i, _). i = c) (map (\<lambda>(i, _). (i, m)) (filter (\<lambda>(_, x). P x) xs))
    = (case map_of xs c of Some x \<Rightarrow> if P x then [(c, m)] else [] | None \<Rightarrow> [])"
proof (induction xs)
  case (Cons a xs)
  have "filter (\<lambda>(i, _). i = fst a) (map (\<lambda>(i, _). (i, m)) (filter (\<lambda>(_, x). P x) xs)) = []"
    using Cons.prems by (auto simp: filter_empty_conv image_iff split: prod.splits)
  then show ?case using Cons by (cases a) auto
qed simp

lemma frames_broadcast:
  assumes "client_keys w"
  shows "frames_to c (broadcast ch v w) = frames_to c w @ (if subscribed w c ch \<and> is_open w c then [message_frame ch v] else [])"
  using filter_one [of "clients w" c "message_frame ch v" "\<lambda>x. ch \<in> set (channels x) \<and> ws_open x"] assms
  by (simp add: frames_to_def broadcast_def client_keys_def subscribed_def is_open_def split: option.split)

lemma broadcast_same:
  "client_keys (broadcast ch v w) = client_keys w" "subscribed (broadcast ch v w) = subscribed w" "is_open (broadcast ch v w) = is_open w"
  by (auto simp: broadcast_def client_keys_def subscribed_def is_open_def fun_eq_iff)

lemma frames_broadcasts:
  "client_keys w \<Longrightarrow> frames_to c ((broadcast ch v ^^ n) w) =
     frames_to c w @ (if subscribed w c ch \<and> is_open w c then replicate n (message_frame ch v) else [])"
proof (induction n arbitrary: w)
  case (Suc n)
  have "(broadcast ch v ^^ Suc n) w = (broadcast ch v ^^ n) (broadcast ch v w)" by (simp add: funpow_swap1)
  then show ?case
    using Suc by (simp add: broadcast_same frames_broadcast)
qed simp

lemma frames_publish:
  assumes "client_keys w" "publish_checks rt ns ch v = Inr full"
  shows "frames_to c (fst (rt_publish rt ns ch v w)) =
    frames_to c w @ (if subscribed w c full \<and> is_open w c then replicate (bus_listeners w) (message_frame full v) else [])"
proof -
  have same: "client_keys (emit_local full v w) = client_keys w" "subscribed (emit_local full v w) = subscribed w"
      "is_open (emit_local full v w) = is_open w" "frames_to c (emit_local full v w) = frames_to c w"
    by (auto simp: emit_local_def client_keys_def subscribed_def is_open_def frames_to_def fun_eq_iff)
  show ?thesis
    using frames_broadcasts [where w = "emit_local full v w" and c = c and ch = full and v = v and n = "bus_listeners w"] assms
    by (simp add: rt_publish_def same)
qed


lemma path_is_client_path:
  assumes "length (f @ ''/'' @ n @ ''/'' @ c) \<le> 1024" "f \<noteq> []" "hd f \<noteq> CHR ''/''"
  shows "isClientChannelPath (Str (f @ ''/'' @ n @ ''/'' @ c))"
proof -
  define s where "s = f @ ''/'' @ n @ ''/'' @ c"
  have two: "2 \<le> count_list s (CHR ''/'')" "hd s \<noteq> CHR ''/''" using assms(2,3) by (simp_all add: s_def)
  have "CHR ''/'' \<in> set s" by (simp add: s_def)
  then obtain i where i: "index_of CHR ''/'' s = Some i" by (metis index_of_None not_None_eq)
  then have split: "s = take i s @ CHR ''/'' # drop (Suc i) s" "CHR ''/'' \<notin> set (take i s)"
    using index_of_Some_split by metis+
  have "i \<noteq> 0"
  proof
    assume "i = 0"
    then show False using arg_cong [OF split(1), of hd] two(2) by simp
  qed
  then have "0 < i" by simp
  moreover have "CHR ''/'' \<in> set (drop (Suc i) s)"
    using arg_cong [OF split(1), of "\<lambda>x. count_list x (CHR ''/'')"] split(2) two(1) count_notin [of "CHR ''/''" "drop (Suc i) s"]
      count_notin [of "CHR ''/''" "take i s"] by fastforce
  moreover have "length s \<le> 1024" using assms(1) by (simp add: s_def)
  ultimately have "isClientChannelPath (Str s)" using i by (simp add: isClientChannelPath_def MAX_CHANNEL_BYTES_def)
  then show ?thesis by (simp add: s_def)
qed

lemma getChannel_ok:
  assumes "getChannel hmac secret now wsUrl rt ns ch = Inr desc"
  obtains schema full token where "rt_ns rt ns = Inr (schema, rt_fullId rt @ ''/'' @ ns)" "full = rt_fullId rt @ ''/'' @ ns @ ''/'' @ ch"
    "validateChannelPath full = Inr ()" "mintChannelToken hmac now full secret 3600 = Inr token"
    "get_prop desc ''channel'' = Str full" "get_prop desc ''token'' = Str token"
proof -
  obtain schema pre token connect where n: "rt_ns rt ns = Inr (schema, pre)" "validateChannelPath (pre @ ''/'' @ ch) = Inr ()"
      "mintChannelToken hmac now (pre @ ''/'' @ ch) secret 3600 = Inr token"
      "desc = Obj [(''__blocks'', Str ''realtime/channel''), (''channel'', Str (pre @ ''/'' @ ch)), (''wsUrl'', wsUrl),
                 (''connectToken'', Str connect), (''token'', Str token)]"
    using assms by (auto simp: getChannel_def bindR_eq_Inr Let_def)
  moreover have "pre = rt_fullId rt @ ''/'' @ ns" using n(1) by (auto simp: rt_ns_def split: option.splits)
  ultimately show thesis using that by simp
qed

lemma publish_checks_ok:
  assumes "publish_checks rt ns ch v = Inr full"
  shows "full = rt_fullId rt @ ''/'' @ ns @ ''/'' @ ch" "validateChannelPath full = Inr ()"
  using assms by (auto simp: publish_checks_def rt_ns_def bindR_eq_Inr Let_def split: option.splits)

definition subscribe_text :: "jsval \<Rightarrow> string" where
  "subscribe_text desc =
     print_json (json_norm (Obj [(''action'', Str ''subscribe''), (''channel'', get_prop desc ''channel''), (''token'', get_prop desc ''token'')]))"

lemma subscribe_granted:
  assumes "getChannel hmac secret now wsUrl rt ns ch = Inr desc" "\<And>json. hmac secret json \<noteq> []"
    and "0 \<le> now" "rt_fullId rt \<noteq> []" "hd (rt_fullId rt) \<noteq> CHR ''/''" "now' div 1000 \<le> now div 1000 + 3600"
  shows "on_message hmac secret now' c (subscribe_text desc) w =
    ws_send c (success_frame (get_prop desc ''channel''))
      (change_channels c (set_add (rt_fullId rt @ ''/'' @ ns @ ''/'' @ ch)) w)"
proof (rule getChannel_ok [OF assms(1)])
  fix schema full token
  assume full: "full = rt_fullId rt @ ''/'' @ ns @ ''/'' @ ch" and path: "validateChannelPath full = Inr ()"
    and mint: "mintChannelToken hmac now full secret 3600 = Inr token"
    and desc: "get_prop desc ''channel'' = Str full" "get_prop desc ''token'' = Str token"
  let ?msg = "Obj [(''action'', Str ''subscribe''), (''channel'', Str full), (''token'', Str token)]"
  have parse: "json_parse (subscribe_text desc) = Some ?msg"
  proof -
    have "json_norm ?msg = ?msg" "plain ?msg" by simp_all
    then show ?thesis unfolding subscribe_text_def desc using json_parse_print by metis
  qed
  have get: "get_prop ?msg ''action'' = Str ''subscribe''" "get_prop ?msg ''channel'' = Str full" "get_prop ?msg ''token'' = Str token"
    by simp_all
  have "length full \<le> 1024" using path by (simp add: validateChannelPath_def MAX_CHANNEL_BYTES_def split: if_splits)
  then have client: "isClientChannelPath (Str full)"
    using path_is_client_path [of "rt_fullId rt" ns ch] assms(4,5) by (simp add: full)
  have "0 < now div 1000 + 3600" using assms(3) by simp
  from minted_token [OF mint assms(2) this, of now' "Some full"] have
      "validateChannelToken hmac now' token secret (Some full) \<noteq> None"
    using assms(6) by (simp add: scope_covers_def full)
  moreover have "token \<noteq> []" using mint by (auto simp: mintChannelToken_def Let_def split: if_splits)
  ultimately have good: "token_good hmac secret now' ?msg full" unfolding token_good_def get by blast
  have "on_message hmac secret now' c (subscribe_text desc) w = client_subscribe hmac secret now' c ?msg full w"
    unfolding on_message_def parse using client by (simp add: Let_def channel_text_def)
  then show ?thesis using good by (simp add: client_subscribe_good desc full)
qed


section \<open>What a token is good for\<close>

text \<open>A channel token validates for a request exactly until it expires, and only for its own channel and
  what lies below it, up to a slash; a connect token of an instance whose id has no slash validates
  for no channel at all.\<close>

theorem rt_token_scoped:
  assumes "\<And>json. hmac secret json \<noteq> []" "0 < now div 1000 + ttl" "req \<noteq> []"
    and "mintChannelToken hmac now c secret ttl = Inr token" "mintConnectToken hmac now f secret ttl = Inr connect" "CHR ''/'' \<notin> set f"
  shows "(validateChannelToken hmac now' token secret (Some req) \<noteq> None \<longleftrightarrow>
      now' div 1000 \<le> now div 1000 + ttl \<and> CHR ''/'' \<in> set c \<and> (req = c \<or> (\<exists>r. req = c @ ''/'' @ r)))
    \<and> validateChannelToken hmac now' connect secret (Some req) = None"
proof -
  have "mintChannelToken hmac now (f @ ''$connect'') secret ttl = Inr connect"
    using assms(5) by (auto simp: mintConnectToken_def split: if_splits)
  from minted_token [OF this assms(1,2), of now' "Some req"]
  have "validateChannelToken hmac now' connect secret (Some req) = None"
    using assms(3,6) by (auto simp: scope_covers_def)
  moreover have "validateChannelToken hmac now' token secret (Some req) \<noteq> None \<longleftrightarrow>
      now' div 1000 \<le> now div 1000 + ttl \<and> CHR ''/'' \<in> set c \<and> (req = c \<or> (\<exists>r. req = c @ ''/'' @ r))"
    using minted_token [OF assms(4,1,2), of now' "Some req"] assms(3) by (auto simp: scope_covers_def starts_with_iff)
  ultimately show ?thesis by blast
qed

section \<open>Who may connect\<close>

definition strip_brackets :: "string \<Rightarrow> string" where
  "strip_brackets h =
     (let a = (case h of [] \<Rightarrow> [] | c # r \<Rightarrow> if c = CHR ''['' then r else h) in
      if a \<noteq> [] \<and> last a = CHR '']'' then butlast a else a)"

definition normalizeHost :: "string \<Rightarrow> string" where
  "normalizeHost host = to_lower (strip_brackets (trim host))"

definition octets :: "string \<Rightarrow> string list option" where
  "octets h =
     (let ps = split_on CHR ''.'' h in
      if length ps = 4 \<and> list_all (\<lambda>p. list_all is_digit p \<and> 1 \<le> length p \<and> length p \<le> 3) ps then Some ps else None)"

definition isLoopbackHost :: "string \<Rightarrow> bool" where
  "isLoopbackHost host =
     (let h = normalizeHost host;
          v4 = (if starts_with h ''::ffff:'' then drop (length ''::ffff:'') h else h) in
      h = ''localhost'' \<or> h = ''::1'' \<or> (case octets v4 of Some ps \<Rightarrow> hd ps = ''127'' | None \<Rightarrow> False))"

definition isWildcardHost :: "string \<Rightarrow> bool" where
  "isWildcardHost host = (let h = normalizeHost host in h = ''0.0.0.0'' \<or> h = ''::'')"

definition isIpLiteral :: "string \<Rightarrow> bool" where
  "isIpLiteral host =
     (let h = normalizeHost host in
      case octets h of
        Some ps \<Rightarrow> list_all (\<lambda>p. read_nat p \<le> 255) ps
      | None \<Rightarrow> CHR '':'' \<in> set h \<and> list_all (\<lambda>c. is_digit c \<or> c \<in> set ''abcdef:.'') h)"

definition unbracket :: "string \<Rightarrow> string" where
  "unbracket host = to_lower (strip_brackets host)"

text \<open>\<open>url_host\<close> is \<open>new URL(s).hostname\<close>, \<open>None\<close> where that throws.\<close>

definition isAllowedUpgradeOrigin :: "(string \<Rightarrow> string option) \<Rightarrow> string option \<Rightarrow> string option \<Rightarrow> string option \<Rightarrow> bool" where
  "isAllowedUpgradeOrigin url_host origin devHost requestHost =
     (case origin of
        None \<Rightarrow> True
      | Some page \<Rightarrow>
          (case url_host page of
             None \<Rightarrow> False
           | Some hostname \<Rightarrow>
               if isLoopbackHost hostname then True
               else
                 (let optIn = (case devHost of Some d \<Rightarrow> trim d | None \<Rightarrow> []) in
                  if optIn = [] then False
                  else if \<not> isWildcardHost optIn then unbracket hostname = unbracket optIn
                  else
                    (case requestHost of
                       None \<Rightarrow> False
                     | Some host \<Rightarrow>
                         if host = [] \<or> \<not> isIpLiteral hostname then False
                         else url_host (''http://'' @ host) = Some hostname))))"

record upgrade_request =
  up_url :: string
  up_host :: "string option"
  up_origin :: "string option"

datatype upgrade_outcome = Ignored | Refused | Upgraded

text \<open>\<open>url_path\<close> is the pathname of a URL read against a base, \<open>None\<close> where that throws.\<close>

definition on_upgrade :: "(string \<Rightarrow> string \<Rightarrow> string option) \<Rightarrow> (string \<Rightarrow> string option) \<Rightarrow> string option
    \<Rightarrow> nat \<Rightarrow> upgrade_request \<Rightarrow> rt_world \<Rightarrow> (thrown, upgrade_outcome \<times> rt_world) res" where
  "on_upgrade url_path url_host devHost c req w =
     (let url = (if up_url req = [] then ''/'' else up_url req);
          host = (case up_host req of Some h \<Rightarrow> if h = [] then ''localhost'' else h | None \<Rightarrow> ''localhost'') in
      case url_path url (''http://'' @ host) of
        None \<Rightarrow> Inl (set_err_name ''TypeError'' (new_Error ''Invalid URL''))
      | Some path \<Rightarrow>
          if path \<noteq> ''/realtime'' then Inr (Ignored, w)
          else if \<not> isAllowedUpgradeOrigin url_host (up_origin req) devHost (up_host req) then Inr (Refused, w)
          else Inr (Upgraded, on_connection c w))"

text \<open>A page can open the local WebSocket only from a loopback host, from the one host the developer
  opted into, or, under a wildcard opt-in, from the very IP address it was served by; a page of any
  other DNS name is refused whatever the Host header says.\<close>

lemma rt_upgrade_refuses_names:
  assumes "on_upgrade url_path url_host devHost c req w = Inr (Upgraded, w')" "up_origin req = Some page"
  shows "\<exists>h. url_host page = Some h \<and>
    (isLoopbackHost h \<or> (\<exists>d. devHost = Some d \<and> trim d \<noteq> [] \<and>
       (if isWildcardHost (trim d) then isIpLiteral h \<and> (\<exists>host. up_host req = Some host \<and> url_host (''http://'' @ host) = Some h)
        else unbracket h = unbracket (trim d))))"
proof -
  have ok: "isAllowedUpgradeOrigin url_host (Some page) devHost (up_host req)"
    using assms by (auto simp: on_upgrade_def Let_def split: option.splits if_splits)
  then obtain h where h: "url_host page = Some h" by (auto simp: isAllowedUpgradeOrigin_def split: option.splits)
  show ?thesis
  proof (cases "isLoopbackHost h")
    case False
    then obtain d where d: "devHost = Some d" "trim d \<noteq> []"
      using ok h by (cases devHost) (auto simp: isAllowedUpgradeOrigin_def Let_def split: if_splits)
    then show ?thesis
      using ok h False by (cases "isWildcardHost (trim d)") (auto simp: isAllowedUpgradeOrigin_def Let_def split: option.splits if_splits)
  qed (use h in blast)
qed

section \<open>The theorems at work\<close>

definition demo_hmac_fun :: "string \<Rightarrow> string \<Rightarrow> string" where
  "demo_hmac_fun k m = k @ take 3 m"

definition demo_rt :: realtime where
  "demo_rt = \<lparr>rt_fullId = ''app-rt'', rt_namespaces = [(''chat'', \<lambda>_. None)]\<rparr>"

definition demo_channel :: jsval where
  "demo_channel = (case getChannel demo_hmac_fun ''k'' 1000 Undef demo_rt ''chat'' ''room'' of Inr d \<Rightarrow> d | Inl _ \<Rightarrow> Undef)"

lemma demo_getChannel: "getChannel demo_hmac_fun ''k'' 1000 Undef demo_rt ''chat'' ''room'' = Inr demo_channel"
proof -
  have "\<exists>d. getChannel demo_hmac_fun ''k'' 1000 Undef demo_rt ''chat'' ''room'' = Inr d"
    by (simp add: getChannel_def rt_ns_def demo_rt_def validateChannelPath_def MAX_CHANNEL_BYTES_def mintChannelToken_def
        mintConnectToken_def Let_def)
  then show ?thesis by (auto simp: demo_channel_def)
qed

lemma demo_publish: "publish_checks demo_rt ''chat'' ''room'' (Num 7) = Inr ''app-rt/chat/room''"
  by code_simp

lemma demo_attached:
  "is_open (rt_run hmac secret [Attach, Connect 7]) 7" "bus_listeners (rt_run hmac secret [Attach, Connect 7]) = 1"
  "frames_to 7 (rt_run hmac secret [Attach, Connect 7]) = []"
  by (simp_all add: rt_run_def rt_start_def attach_ws_def on_connection_def is_open_def frames_to_def)



theorem rt_token_scoped_witness:
  "\<exists>token. mintChannelToken demo_hmac_fun 1000 ''app-rt/chat/room'' ''k'' 60 = Inr token
    \<and> validateChannelToken demo_hmac_fun 5000 token ''k'' (Some ''app-rt/chat/room/x'') \<noteq> None
    \<and> validateChannelToken demo_hmac_fun 5000 token ''k'' (Some ''app-rt/chat/roomy'') = None"
proof -
  obtain token connect where t: "mintChannelToken demo_hmac_fun 1000 ''app-rt/chat/room'' ''k'' 60 = Inr token"
      "mintConnectToken demo_hmac_fun 1000 ''app-rt'' ''k'' 60 = Inr connect"
    by (auto simp: mintChannelToken_def mintConnectToken_def Let_def)
  have h: "demo_hmac_fun ''k'' json \<noteq> []" for json by (simp add: demo_hmac_fun_def)
  note scoped = rt_token_scoped [where hmac = demo_hmac_fun and now' = 5000, OF h _ _ t]
  have "validateChannelToken demo_hmac_fun 5000 token ''k'' (Some ''app-rt/chat/room/x'') \<noteq> None"
    using scoped [where req = "''app-rt/chat/room/x''"] by simp
  moreover have "validateChannelToken demo_hmac_fun 5000 token ''k'' (Some ''app-rt/chat/roomy'') = None"
    using scoped [where req = "''app-rt/chat/roomy''"] by simp
  ultimately show ?thesis using t(1) by blast
qed

text \<open>After \<open>closeWebSocketServer\<close> a second \<open>attach\<close> adds a second listener to the bus, and every client gets
  every message twice.\<close>

lemma reattached_duplicates:
  "let w = rt_run demo_hmac_fun ''k'' [Attach, CloseServer, Attach, Connect 7];
       w1 = change_channels 7 (set_add ''app-rt/chat/room'') w
   in length (frames_to 7 (fst (rt_publish demo_rt ''chat'' ''room'' (Num 7) w1))) = 2"
  by (simp add: rt_run_def rt_start_def attach_ws_def closeWebSocketServer_def on_connection_def change_channels_def set_add_def
      rt_publish_def demo_publish emit_local_def broadcast_def frames_to_def numeral_2_eq_2)

end
