(* ===== verification/ServerSubscribe.thy ===== *)
theory ServerSubscribe
  imports Rpc
begin

text \<open>
  \<^verbatim>\<open>packages/bb-realtime/src/server-subscribe.ts\<close>: a subscription inside a server process, which gets a
  message from its WebSocket while that is live and from the in-process emitter otherwise.  Events are
  the socket's, the emitter's and the caller's; a handler is the log of what it was given.  The message of an error
  frame is a string.
\<close>

section \<open>State and events\<close>

record server_sub =
  live :: bool
  established :: "(thrown, unit) res option"
  listening :: bool
  handled :: "jsval list"
  disconnects :: "string list"
  outbox :: "string list"

definition sub_start :: server_sub where
  "sub_start = \<lparr>live = False, established = None, listening = True, handled = [], disconnects = [], outbox = []\<rparr>"

definition ws_error :: "string \<Rightarrow> thrown" where
  "ws_error message = brandBlocksError (set_err_name ''ConnectionFailedException'' (new_Error message))"

text \<open>A promise settles once.\<close>

definition settle :: "(thrown, unit) res \<Rightarrow> server_sub \<Rightarrow> server_sub" where
  "settle r s = (if established s = None then s\<lparr>established := Some r\<rparr> else s)"

definition disconnect :: "bool \<Rightarrow> string \<Rightarrow> server_sub \<Rightarrow> server_sub" where
  "disconnect has_handler reason s = (if has_handler then s\<lparr>disconnects := disconnects s @ [reason]\<rparr> else s)"

definition on_open :: "string \<Rightarrow> string \<Rightarrow> server_sub \<Rightarrow> server_sub" where
  "on_open channel token s =
     s\<lparr>outbox := outbox s @ [print_json (Obj [(''action'', Str ''subscribe''), (''channel'', Str channel), (''token'', Str token)])]\<rparr>"

definition rejection_text :: "jsval \<Rightarrow> string" where
  "rejection_text v = (case v of Str m \<Rightarrow> if m = [] then ''Subscription rejected'' else m | _ \<Rightarrow> ''Subscription rejected'')"

definition on_frame :: "string \<Rightarrow> string \<Rightarrow> server_sub \<Rightarrow> server_sub" where
  "on_frame channel frame s =
     (if \<not> listening s then s
      else
        (case json_parse frame of
           None \<Rightarrow> s
         | Some msg \<Rightarrow>
             (let kind = get_prop msg ''type'' in
              if get_prop msg ''channel'' \<noteq> Str channel then s
              else if kind = Str ''subscribe_success'' then settle (Inr ()) (s\<lparr>live := True\<rparr>)
              else if kind = Str ''error'' then settle (Inl (ws_error (rejection_text (get_prop msg ''message'')))) s
              else if kind = Str ''message'' \<and> live s then s\<lparr>handled := handled s @ [get_prop msg ''data'']\<rparr>
              else s)))"

definition on_error :: "bool \<Rightarrow> server_sub \<Rightarrow> server_sub" where
  "on_error has_handler s =
     (if \<not> listening s then s
      else disconnect has_handler ''error'' (settle (Inl (ws_error ''WebSocket error'')) (s\<lparr>live := False\<rparr>)))"

definition close_reason :: "int \<Rightarrow> string" where
  "close_reason code = (if code = 1001 then ''timeout'' else if code = 1006 then ''error'' else ''unknown'')"

definition on_socket_close :: "bool \<Rightarrow> int \<Rightarrow> server_sub \<Rightarrow> server_sub" where
  "on_socket_close has_handler code s =
     (if \<not> listening s then s
      else disconnect has_handler (close_reason code) (settle (Inl (ws_error ''WebSocket closed'')) (s\<lparr>live := False\<rparr>)))"

definition unsubscribe :: "bool \<Rightarrow> server_sub \<Rightarrow> server_sub" where
  "unsubscribe has_handler s = (disconnect has_handler ''client'' (s\<lparr>live := False\<rparr>))\<lparr>listening := False\<rparr>"

definition localListener :: "jsval \<Rightarrow> server_sub \<Rightarrow> server_sub" where
  "localListener v s = (if live s then s else s\<lparr>handled := handled s @ [v]\<rparr>)"

datatype sub_event = Open string | Frame string | SocketError | SocketClose int | Unsubscribe | Local jsval

fun sub_step :: "string \<Rightarrow> bool \<Rightarrow> server_sub \<Rightarrow> sub_event \<Rightarrow> server_sub" where
  "sub_step channel h s (Open token) = on_open channel token s"
| "sub_step channel h s (Frame f) = on_frame channel f s"
| "sub_step channel h s SocketError = on_error h s"
| "sub_step channel h s (SocketClose code) = on_socket_close h code s"
| "sub_step channel h s Unsubscribe = unsubscribe h s"
| "sub_step channel h s (Local v) = localListener v s"

definition sub_run :: "string \<Rightarrow> bool \<Rightarrow> server_sub \<Rightarrow> sub_event list \<Rightarrow> server_sub" where
  "sub_run channel h s evs = foldl (sub_step channel h) s evs"

definition serverSubscribe :: "string \<Rightarrow> server_sub" where
  "serverSubscribe wsUrl =
     (if wsUrl = []
      then sub_start\<lparr>established := Some (Inl (ws_error (''BLOCKS_RT_WS_URL not set '' @ em_dash @ '' server-side subscribe unavailable''))),
                     listening := False\<rparr>
      else sub_start)"

section \<open>Which path delivers\<close>

text \<open>Events that leave the socket as live as it is: messages from either side, and frames that answer no
  subscription of this channel.\<close>

definition calm :: "string \<Rightarrow> sub_event \<Rightarrow> bool" where
  "calm channel ev =
     (case ev of
        Frame f \<Rightarrow> (case json_parse f of None \<Rightarrow> True | Some msg \<Rightarrow> \<not> (get_prop msg ''type'' = Str ''subscribe_success'' \<and> get_prop msg ''channel'' = Str channel))
      | Local _ \<Rightarrow> True
      | Open _ \<Rightarrow> True
      | _ \<Rightarrow> False)"

text \<open>The messages of the channel that came over the socket, and those that came from the emitter.\<close>

definition frame_data :: "string \<Rightarrow> sub_event list \<Rightarrow> jsval list" where
  "frame_data channel evs =
     List.map_filter (\<lambda>ev. case ev of
         Frame f \<Rightarrow> (case json_parse f of
             Some msg \<Rightarrow> if get_prop msg ''type'' = Str ''message'' \<and> get_prop msg ''channel'' = Str channel
                          then Some (get_prop msg ''data'') else None
           | None \<Rightarrow> None)
       | _ \<Rightarrow> None) evs"

definition local_data :: "sub_event list \<Rightarrow> jsval list" where
  "local_data evs = List.map_filter (\<lambda>ev. case ev of Local v \<Rightarrow> Some v | _ \<Rightarrow> None) evs"

lemma settle_same [simp]: "live (settle r s) = live s" "listening (settle r s) = listening s" "handled (settle r s) = handled s"
  by (simp_all add: settle_def)

lemma calm_step:
  assumes "calm channel ev" "listening s"
  shows "live (sub_step channel h s ev) = live s" "listening (sub_step channel h s ev) = listening s"
    "handled (sub_step channel h s ev) = handled s @ (if live s then frame_data channel [ev] else local_data [ev])"
  using assms
  by (cases ev; auto simp: calm_def on_open_def on_frame_def localListener_def frame_data_def local_data_def
      List.map_filter_simps Let_def split: option.splits)+

lemma data_Cons: "frame_data channel (ev # evs) = frame_data channel [ev] @ frame_data channel evs"
  "local_data (ev # evs) = local_data [ev] @ local_data evs"
  by (simp_all add: frame_data_def local_data_def List.map_filter_simps split: option.split)

lemma calm_run:
  assumes "\<forall>ev \<in> set evs. calm channel ev" "listening s"
  shows "handled (sub_run channel h s evs) = handled s @ (if live s then frame_data channel evs else local_data evs)
    \<and> live (sub_run channel h s evs) = live s"
  using assms
proof (induction evs arbitrary: s)
  case Nil
  then show ?case by (simp add: sub_run_def frame_data_def local_data_def List.map_filter_simps)
next
  case (Cons ev evs)
  have "calm channel ev" using Cons.prems by simp
  note step = calm_step [OF this Cons.prems(2), of h]
  show ?case
    using Cons.IH [of "sub_step channel h s ev"] Cons.prems step data_Cons(1) [of channel ev evs] data_Cons(2) [of ev evs]
    by (simp add: sub_run_def)
qed

text \<open>C33: Between the moments its socket goes live or stops being so, a server-side subscription gives its
  handler each message by exactly one path: all those of the socket and none of the emitter while it
  is live, all those of the emitter and none of the socket while it is not.\<close>

theorem server_subscribe_one_path:
  assumes "\<forall>ev \<in> set evs. calm channel ev" "listening s"
  shows "handled (sub_run channel h s evs) = handled s @ (if live s then frame_data channel evs else local_data evs)"
  using calm_run [OF assms] by blast

definition demo_frame :: "jsval \<Rightarrow> sub_event" where
  "demo_frame v = Frame (print_json (Obj [(''type'', Str ''message''), (''channel'', Str ''c''), (''data'', v)]))"

definition demo_ack :: sub_event where
  "demo_ack = Frame (print_json (Obj [(''type'', Str ''subscribe_success''), (''channel'', Str ''c'')]))"

theorem server_subscribe_one_path_witness:
  "handled (sub_run ''c'' False sub_start [Local (Num 1), demo_frame (Num 1)]) = [Num 1]"
proof -
  have "\<forall>ev \<in> set [Local (Num 1), demo_frame (Num 1)]. calm ''c'' ev" "listening sub_start" by code_simp+
  from server_subscribe_one_path [OF this, of False]
  show ?thesis by (simp add: sub_start_def local_data_def List.map_filter_simps demo_frame_def)
qed

text \<open>A message whose two arrivals lie on either side of the acknowledgement is handled twice or never,
  depending on which comes first; so is one that meets the end of the socket.\<close>

lemma ack_between_duplicates:
  "handled (sub_run ''c'' False sub_start [Local (Num 1), demo_ack, demo_frame (Num 1)]) = [Num 1, Num 1]"
  by code_simp

lemma ack_between_loses:
  "handled (sub_run ''c'' False sub_start [demo_frame (Num 1), demo_ack, Local (Num 1)]) = []"
  by code_simp

lemma close_between_loses:
  "handled (sub_run ''c'' False sub_start [demo_ack, Local (Num 1), SocketClose 1006, demo_frame (Num 1)]) = []"
  by code_simp

end
