(* ===== verification/Migrations.thy ===== *)
theory Migrations
  imports Database FileSys "HOL-Library.List_Lexorder"
begin

text \<open>
  \<^verbatim>\<open>packages/data-common/src/migrations.ts\<close>: how a SQL file is split into statements, and how pending
  migrations are run over the engine of \<open>Database\<close>, each in a transaction that also records it.  File
  names are ordered by their bytes.  Console output is not modelled.
\<close>

section \<open>Splitting a file into statements\<close>

definition quote :: char where "quote = CHR 0x27"
definition backslash :: char where "backslash = CHR 0x5C"
definition newline :: char where "newline = CHR 0x0A"

text \<open>The rest of a string literal and what follows it; a doubled quote stays inside.\<close>

fun take_quoted :: "string \<Rightarrow> string \<times> string" where
  "take_quoted [] = ([], [])"
| "take_quoted (c # s) =
     (if c \<noteq> quote then (case take_quoted s of (a, b) \<Rightarrow> (c # a, b))
      else
        (case s of
           q # s' \<Rightarrow> if q = quote then (case take_quoted s' of (a, b) \<Rightarrow> (c # q # a, b)) else ([c], s)
         | [] \<Rightarrow> ([c], [])))"

fun skip_block :: "string \<Rightarrow> string" where
  "skip_block [] = []"
| "skip_block (c # s) =
     (case s of
        d # s' \<Rightarrow> if c = CHR ''*'' \<and> d = CHR ''/'' then s' else skip_block s
      | [] \<Rightarrow> [])"

definition tag_start :: "char \<Rightarrow> bool" where
  "tag_start c = ((65 \<le> char_code c \<and> char_code c \<le> 90) \<or> (97 \<le> char_code c \<and> char_code c \<le> 122) \<or> c = CHR ''_'')"

definition tag_char :: "char \<Rightarrow> bool" where
  "tag_char c = (tag_start c \<or> is_digit c)"

text \<open>\<open>DOLLAR_QUOTE_TAG_RE\<close>: the tag a text starts with.\<close>

definition dollar_tag :: "string \<Rightarrow> string option" where
  "dollar_tag s =
     (case s of
        c # r \<Rightarrow>
          if c \<noteq> CHR ''$'' then None
          else
            (let name = takeWhile tag_char r in
             (case dropWhile tag_char r of
                d # _ \<Rightarrow> if d = CHR ''$'' \<and> (name = [] \<or> tag_start (hd name)) then Some (c # name @ [d]) else None
              | [] \<Rightarrow> None))
      | [] \<Rightarrow> None)"

text \<open>What stands before and after the first occurrence of a text.\<close>

fun find_text :: "string \<Rightarrow> string \<Rightarrow> (string \<times> string) option" where
  "find_text t s =
     (if starts_with s t then Some ([], drop (length t) s)
      else (case s of [] \<Rightarrow> None | c # r \<Rightarrow> map_option (\<lambda>(a, b). (c # a, b)) (find_text t r)))"

declare find_text.simps [simp del]

definition push_statement :: "string \<Rightarrow> string list" where
  "push_statement current = (if trim current = [] then [] else [trim current])"

lemma take_quoted_length: "length (snd (take_quoted s)) \<le> length s"
proof (induction s rule: take_quoted.induct)
  case (2 c s)
  show ?case
  proof (cases "c = quote")
    case False
    then show ?thesis using 2(1) by (simp add: case_prod_beta)
  next
    case True
    then show ?thesis using 2(2) by (cases s) (auto simp: case_prod_beta intro: le_SucI)
  qed
qed simp

lemma skip_block_length: "length (skip_block s) \<le> length s"
proof (induction s rule: skip_block.induct)
  case (2 c s)
  show ?case
  proof (cases s)
    case (Cons d s')
    then show ?thesis using 2 by (cases "c = CHR ''*'' \<and> d = CHR ''/''") (auto intro: le_SucI)
  qed simp
qed simp

lemma find_text_split: "find_text t s = Some (a, b) \<Longrightarrow> s = a @ t @ b"
proof (induction s arbitrary: a)
  case Nil
  then show ?case by (subst (asm) find_text.simps) (auto simp: starts_with_iff split: if_splits)
next
  case (Cons c s)
  show ?case
  proof (cases "starts_with (c # s) t")
    case True
    then show ?thesis using Cons.prems by (subst (asm) find_text.simps) (auto simp: starts_with_iff)
  next
    case False
    then obtain a' where "find_text t s = Some (a', b)" "a = c # a'"
      using Cons.prems by (subst (asm) find_text.simps) auto
    then show ?thesis using Cons.IH by simp
  qed
qed

lemma find_text_length: "find_text t s = Some (a, b) \<Longrightarrow> length b \<le> length s"
  using find_text_split by fastforce

lemma dollar_tag_nonempty: "dollar_tag s = Some t \<Longrightarrow> 0 < length t"
  by (auto simp: dollar_tag_def Let_def split: list.splits if_splits)

text \<open>The loop: what is left, the statement so far, the statements found.\<close>

function split_loop :: "string \<Rightarrow> string \<Rightarrow> string list" where
  "split_loop [] current = push_statement current"
| "split_loop (c # s) current =
     (if c = quote then split_loop (snd (take_quoted s)) (current @ c # fst (take_quoted s))
      else if c = CHR ''-'' \<and> starts_with s ''-'' then split_loop (dropWhile (\<lambda>x. x \<noteq> newline) s) current
      else if c = CHR ''/'' \<and> starts_with s ''*'' then split_loop (skip_block (drop 1 s)) current
      else if c = backslash \<and> trim current = [] then split_loop (dropWhile (\<lambda>x. x \<noteq> newline) s) current
      else
        (case (if c = CHR ''$'' then dollar_tag (c # s) else None) of
           Some tag \<Rightarrow>
             (case find_text tag (drop (length tag) (c # s)) of
                Some (a, b) \<Rightarrow> split_loop b (current @ tag @ a @ tag)
              | None \<Rightarrow> split_loop (drop (length tag) (c # s)) (current @ tag))
         | None \<Rightarrow>
             if c = CHR '';'' then push_statement current @ split_loop s []
             else split_loop s (current @ [c])))"
  by pat_completeness auto
termination
proof (relation "measure (\<lambda>(s, _). length s)")
  fix c :: char and s current :: string
  show "((snd (take_quoted s), current @ c # fst (take_quoted s)), c # s, current) \<in> measure (\<lambda>(s, _). length s)"
    using take_quoted_length [of s] by simp
  show "((dropWhile (\<lambda>x. x \<noteq> newline) s, current), c # s, current) \<in> measure (\<lambda>(s, _). length s)"
    using length_dropWhile_le [of _ s] by (simp add: le_imp_less_Suc)
  show "((skip_block (drop 1 s), current), c # s, current) \<in> measure (\<lambda>(s, _). length s)"
    using skip_block_length [of "drop 1 s"] by simp
next
  fix c :: char and s current tag p a b
  assume "(if c = CHR ''$'' then dollar_tag (c # s) else None) = Some tag"
    and "find_text tag (drop (length tag) (c # s)) = Some p" "(a, b) = p"
  then have "0 < length tag" "length b \<le> length (c # s) - length tag"
    using dollar_tag_nonempty find_text_length by (auto split: if_splits) fastforce
  then show "((b, current @ tag @ a @ tag), c # s, current) \<in> measure (\<lambda>(s, _). length s)"
    by (cases tag) auto
next
  fix c :: char and s current tag
  assume "(if c = CHR ''$'' then dollar_tag (c # s) else None) = Some tag"
  then have "0 < length tag" using dollar_tag_nonempty by (auto split: if_splits)
  then show "((drop (length tag) (c # s), current @ tag), c # s, current) \<in> measure (\<lambda>(s, _). length s)" by simp
qed (simp_all add: length_dropWhile_le le_imp_less_Suc)

definition splitStatements :: "string \<Rightarrow> string list" where
  "splitStatements sql = split_loop sql []"

subsection \<open>Files written from their parts\<close>

text \<open>
  The lexical parts of a file: a character with no meaning of its own, a string literal (given by its
  value), comments, a dollar-quoted block (its tag and body) and a line for \<^verbatim>\<open>psql\<close>.
\<close>

datatype piece =
    Lit char
  | Quoted string
  | LineComment string
  | BlockComment string
  | DollarQuoted string string
  | MetaLine string

definition escape_quotes :: "string \<Rightarrow> string" where
  "escape_quotes s = replace_char quote [quote, quote] s"

fun render_piece :: "piece \<Rightarrow> string" where
  "render_piece (Lit c) = [c]"
| "render_piece (Quoted s) = quote # escape_quotes s @ [quote]"
| "render_piece (LineComment s) = ''--'' @ s"
| "render_piece (BlockComment s) = ''/*'' @ s @ ''*/''"
| "render_piece (DollarQuoted t s) = t @ s @ t"
| "render_piece (MetaLine s) = backslash # s"

fun is_comment :: "piece \<Rightarrow> bool" where
  "is_comment (LineComment _) = True"
| "is_comment (BlockComment _) = True"
| "is_comment (MetaLine _) = True"
| "is_comment _ = False"

definition kept :: "piece \<Rightarrow> string" where
  "kept p = (if is_comment p then [] else render_piece p)"

definition line_ends :: "string \<Rightarrow> string \<Rightarrow> bool" where
  "line_ends s rest = (newline \<notin> set s \<and> (rest = [] \<or> starts_with rest [newline]))"

text \<open>A part may stand after \<open>before\<close>, the statement so far, and before \<open>rest\<close>, the rest of the file.\<close>

fun piece_ok :: "string \<Rightarrow> piece \<Rightarrow> string \<Rightarrow> bool" where
  "piece_ok before (Lit c) rest =
     (c \<noteq> quote \<and> c \<noteq> CHR '';'' \<and> \<not> (c = CHR ''-'' \<and> starts_with rest ''-'') \<and> \<not> (c = CHR ''/'' \<and> starts_with rest ''*'')
      \<and> \<not> (c = backslash \<and> trim before = []) \<and> \<not> (c = CHR ''$'' \<and> dollar_tag (c # rest) \<noteq> None))"
| "piece_ok before (Quoted s) rest = (\<not> starts_with rest [quote])"
| "piece_ok before (LineComment s) rest = line_ends s rest"
| "piece_ok before (BlockComment s) rest = (find_text ''*/'' (s @ ''*/'') = Some (s, []))"
| "piece_ok before (DollarQuoted t s) rest = (dollar_tag t = Some t \<and> find_text t (s @ t) = Some (s, []))"
| "piece_ok before (MetaLine s) rest = (trim before = [] \<and> line_ends s rest)"

definition render_pieces :: "piece list \<Rightarrow> string" where
  "render_pieces ps = concat (map render_piece ps)"

definition kept_pieces :: "piece list \<Rightarrow> string" where
  "kept_pieces ps = concat (map kept ps)"

fun pieces_ok :: "string \<Rightarrow> piece list \<Rightarrow> string \<Rightarrow> bool" where
  "pieces_ok before [] rest = True"
| "pieces_ok before (p # ps) rest = (piece_ok before p (render_pieces ps @ rest) \<and> pieces_ok (before @ kept p) ps rest)"

text \<open>A file: statements, each ended by a semicolon, and what stands after the last of them.\<close>

fun render_file :: "piece list list \<Rightarrow> piece list \<Rightarrow> string" where
  "render_file [] ending = render_pieces ending"
| "render_file (ps # pss) ending = render_pieces ps @ '';'' @ render_file pss ending"

fun sql_file_ok :: "piece list list \<Rightarrow> piece list \<Rightarrow> bool" where
  "sql_file_ok [] ending = pieces_ok [] ending []"
| "sql_file_ok (ps # pss) ending = (pieces_ok [] ps ('';'' @ render_file pss ending) \<and> sql_file_ok pss ending)"

lemma take_quoted_escaped:
  "\<not> starts_with rest [quote] \<Longrightarrow> take_quoted (escape_quotes s @ quote # rest) = (escape_quotes s @ [quote], rest)"
proof (induction s)
  case Nil
  then show ?case by (cases rest) (auto simp: escape_quotes_def replace_char_def starts_with_iff)
qed (auto simp: escape_quotes_def replace_char_def)

lemma find_text_step:
  "\<not> starts_with (c # s) t \<Longrightarrow> find_text t (c # s) = map_option (\<lambda>(a, b). (c # a, b)) (find_text t s)"
  by (subst find_text.simps) simp

lemma find_text_here: "starts_with s t \<Longrightarrow> find_text t s = Some ([], drop (length t) s)"
  by (subst find_text.simps) simp

lemma find_text_extend: "find_text t s = Some (a, b) \<Longrightarrow> find_text t (s @ x) = Some (a, b @ x)"
proof (induction s arbitrary: a)
  case Nil
  then show ?case by (subst (asm) find_text.simps) (auto simp: find_text_here starts_with_iff split: if_splits)
next
  case (Cons c s)
  show ?case
  proof (cases "starts_with (c # s) t")
    case True
    then obtain r where "c # s = t @ r" by (auto simp: starts_with_iff)
    then show ?thesis using Cons.prems
      by (metis append.assoc append_eq_conv_conj find_text_here option.inject prod.inject starts_with_append)
  next
    case False
    then obtain a' where a: "find_text t s = Some (a', b)" "a = c # a'"
      using Cons.prems by (auto simp: find_text_step)
    have "length t \<le> length s" using find_text_split [OF a(1)] by simp
    then have "\<not> starts_with (c # s @ x) t" using False by (cases t) (auto simp: starts_with_def)
    then show ?thesis using Cons.IH [OF a(1)] a(2) by (simp add: find_text_step)
  qed
qed

lemma skip_block_find: "find_text ''*/'' s = Some (a, b) \<Longrightarrow> skip_block s = b"
proof (induction s arbitrary: a rule: skip_block.induct)
  case 1
  then show ?case by (subst (asm) find_text.simps) (auto simp: starts_with_iff)
next
  case (2 c s)
  show ?case
  proof (cases s)
    case Nil
    then show ?thesis using 2(2) by (subst (asm) find_text.simps, subst (asm) find_text.simps) (auto simp: starts_with_iff)
  next
    case (Cons d s')
    show ?thesis
    proof (cases "c = CHR ''*'' \<and> d = CHR ''/''")
      case True
      then show ?thesis using 2(2) Cons by (simp add: find_text_here starts_with_iff)
    next
      case False
      then have "\<not> starts_with (c # s) ''*/''" using Cons by (auto simp: starts_with_iff)
      then obtain a' where "find_text ''*/'' s = Some (a', b)" using 2(2) by (auto simp: find_text_step)
      then show ?thesis using 2(1) Cons False by auto
    qed
  qed
qed

lemma dollar_tag_extend: "dollar_tag t = Some t \<Longrightarrow> dollar_tag (t @ x) = Some t"
proof -
  assume t: "dollar_tag t = Some t"
  then obtain r where r: "t = CHR ''$'' # r" by (auto simp: dollar_tag_def split: list.splits if_splits)
  define n where "n = takeWhile tag_char r"
  obtain d e where de: "dropWhile tag_char r = d # e" "d = CHR ''$''" "n = [] \<or> tag_start (hd n)" "r = n @ [d]"
    using t r unfolding n_def by (auto simp: dollar_tag_def Let_def split: list.splits if_splits)
  have "\<not> tag_char d" using de(2) by (simp add: tag_char_def tag_start_def is_digit_def char_code_def)
  moreover have "\<forall>c \<in> set n. tag_char c" unfolding n_def by (auto dest: set_takeWhileD)
  ultimately have "takeWhile tag_char (r @ x) = n" "dropWhile tag_char (r @ x) = d # x"
    using de(4) by (auto simp: takeWhile_append dropWhile_append)
  then show ?thesis using de r by (simp add: dollar_tag_def Let_def)
qed

lemma line_ends_skipped: "line_ends s rest \<Longrightarrow> dropWhile (\<lambda>x. x \<noteq> newline) (s @ rest) = rest"
  by (induction s) (auto simp: line_ends_def starts_with_iff)

lemma special_chars [simp]:
  "quote \<noteq> CHR ''-''" "quote \<noteq> CHR ''/''" "quote \<noteq> backslash" "backslash \<noteq> quote" "newline \<noteq> CHR ''-''"
  "backslash \<noteq> CHR ''-''" "backslash \<noteq> CHR ''/''" "CHR ''-'' \<noteq> quote" "CHR ''/'' \<noteq> quote" "CHR ''$'' \<noteq> quote"
  "CHR ''$'' \<noteq> backslash" "CHR '';'' \<noteq> quote" "CHR '';'' \<noteq> backslash" "CHR ''-'' \<noteq> newline"
  by (simp_all add: quote_def backslash_def newline_def)

lemma split_loop_dollar:
  assumes "dollar_tag t = Some t" and "find_text t (s @ t) = Some (s, [])"
  shows "split_loop (t @ s @ t @ rest) current = split_loop rest (current @ t @ s @ t)"
proof -
  obtain r where r: "t = CHR ''$'' # r" using assms(1) by (auto simp: dollar_tag_def split: list.splits if_splits)
  have tag: "dollar_tag (CHR ''$'' # r @ s @ t @ rest) = Some t"
    using dollar_tag_extend [OF assms(1), of "s @ t @ rest"] r by simp
  have "find_text t (s @ t @ rest) = Some (s, rest)"
    using find_text_extend [OF assms(2), of rest] by simp
  then show ?thesis using tag r by simp
qed

lemma split_loop_piece:
  assumes "piece_ok current p rest"
  shows "split_loop (render_piece p @ rest) current = split_loop rest (current @ kept p)"
proof (cases p)
  case (Lit c)
  then show ?thesis using assms by (auto simp: kept_def split: option.splits)
next
  case (Quoted s)
  then show ?thesis using assms take_quoted_escaped [of rest s] by (simp add: kept_def)
next
  case (LineComment s)
  then have "dropWhile (\<lambda>x. x \<noteq> newline) (s @ rest) = rest" using assms line_ends_skipped by simp
  then show ?thesis using LineComment by (simp add: kept_def starts_with_def)
next
  case (BlockComment s)
  then have "skip_block (s @ ''*/'' @ rest) = rest"
    using assms find_text_extend skip_block_find by fastforce
  then show ?thesis using BlockComment by (simp add: kept_def starts_with_def)
next
  case (DollarQuoted t s)
  then show ?thesis using assms split_loop_dollar by (simp add: kept_def)
next
  case (MetaLine s)
  then show ?thesis using assms line_ends_skipped by (simp add: kept_def)
qed

lemma split_loop_pieces:
  "pieces_ok current ps rest
   \<Longrightarrow> split_loop (render_pieces ps @ rest) current = split_loop rest (current @ kept_pieces ps)"
proof (induction ps arbitrary: current)
  case (Cons p ps)
  then show ?case using split_loop_piece [of current p "render_pieces ps @ rest"]
    by (simp add: render_pieces_def kept_pieces_def)
qed (simp add: render_pieces_def kept_pieces_def)

text \<open>C32: Splitting the text of a file gives its statements, trimmed, in order and without the empty
  ones: semicolons in string literals, comments and dollar-quoted blocks split nothing, a comment
  and a psql line leave nothing behind, and what is not a comment is kept to the character.
\<close>

theorem split_statements_exact:
  assumes "sql_file_ok pss ending"
  shows "splitStatements (render_file pss ending)
         = filter (\<lambda>s. s \<noteq> []) (map (\<lambda>ps. trim (kept_pieces ps)) (pss @ [ending]))"
  using assms unfolding splitStatements_def
proof (induction pss)
  case Nil
  then show ?case using split_loop_pieces [of "[]" ending "[]"] by (simp add: push_statement_def)
next
  case (Cons ps pss)
  then show ?case using split_loop_pieces [of "[]" ps "'';'' @ render_file pss ending"]
    by (simp add: push_statement_def)
qed

definition demo_statement :: "piece list" where
  "demo_statement =
     [LineComment '' a; b'', Lit newline, Lit CHR ''x'', Quoted [quote, CHR '';''], BlockComment ''*;'',
      DollarQuoted ''$f$'' '';$g$'', Lit CHR ''$'', Lit CHR ''1'']"

theorem split_statements_exact_witness:
  "splitStatements (render_file [[MetaLine ''restrict;'', Lit newline], demo_statement] [Lit CHR ''y''])
   = [CHR ''x'' # quote # quote # quote # CHR '';'' # quote # ''$f$;$g$$f$$1'', ''y'']"
proof -
  have "sql_file_ok [[MetaLine ''restrict;'', Lit newline], demo_statement] [Lit CHR ''y'']" by code_simp
  from split_statements_exact [OF this] show ?thesis by (simp only:) code_simp
qed

section \<open>Running migrations\<close>

definition create_tracking_sql :: string where
  "create_tracking_sql =
     newline # ''    CREATE TABLE IF NOT EXISTS _migrations ('' @ newline
     # ''      id SERIAL PRIMARY KEY,'' @ newline
     # ''      name TEXT NOT NULL UNIQUE,'' @ newline
     # ''      applied_at TIMESTAMP NOT NULL DEFAULT NOW()'' @ newline
     # ''    )'' @ newline # ''  ''"

definition show_path_sql :: string where "show_path_sql = ''SHOW search_path''"
definition applied_sql :: string where "applied_sql = ''SELECT name FROM _migrations ORDER BY id''"
definition set_path_sql :: string where "set_path_sql = ''SELECT set_config($1, $2, false)''"
definition record_sql :: string where "record_sql = ''INSERT INTO _migrations (name) VALUES ($1)''"

text \<open>\<open>rows[0]?.search_path?.trim()\<close>, and null when there is none or it is blank.\<close>

definition search_path_of :: "jsval list \<Rightarrow> (thrown, string option) res" where
  "search_path_of rows =
     (let row = (case rows of [] \<Rightarrow> Undef | r # _ \<Rightarrow> r);
          path = (if row = Undef \<or> row = Null then Undef else get_prop row ''search_path'') in
      if path = Undef \<or> path = Null then Inr None
      else
        (case path of
           Str s \<Rightarrow> Inr (if trim s = [] then None else Some (trim s))
         | _ \<Rightarrow> Inl type_error))"

fun applied_names :: "jsval list \<Rightarrow> (thrown, jsval list) res" where
  "applied_names [] = Inr []"
| "applied_names (r # rs) =
     (if r = Undef \<or> r = Null then Inl type_error
      else bindR (applied_names rs) (\<lambda>ns. Inr (get_prop r ''name'' # ns)))"

text \<open>What \<open>runMigrations\<close> learns before the loop: the search path to restore and the names applied.\<close>

definition tracking_state :: "'d engine \<Rightarrow> ('d, string option \<times> jsval list) db_io" where
  "tracking_state E =
     bindD (engine_execute E create_tracking_sql []) (\<lambda>_.
     bindD (catchD (bindD (engine_query E show_path_sql []) (\<lambda>rows. liftD (search_path_of rows)))
              (\<lambda>_. returnD None)) (\<lambda>tracking.
     bindD (engine_query E applied_sql []) (\<lambda>rows.
     bindD (liftD (applied_names rows)) (\<lambda>applied.
       returnD (tracking, applied)))))"

fun run_statements :: "'d engine \<Rightarrow> nat \<Rightarrow> (string \<times> jsval list) list \<Rightarrow> ('d, unit) db_io" where
  "run_statements E h [] = returnD ()"
| "run_statements E h ((sql, ps) # ss) = bindD (engine_tx_execute E h sql ps) (\<lambda>_. run_statements E h ss)"

definition restore_path :: "string option \<Rightarrow> (string \<times> jsval list) list" where
  "restore_path tracking =
     (case tracking of None \<Rightarrow> [] | Some p \<Rightarrow> [(set_path_sql, [Str ''search_path'', Str p])])"

definition record_name :: "string \<Rightarrow> (string \<times> jsval list) list" where
  "record_name name = [(record_sql, [Str name])]"

text \<open>The body of the loop: one file in one transaction.\<close>

definition run_file :: "'d engine \<Rightarrow> string option \<Rightarrow> string \<Rightarrow> string \<Rightarrow> ('d, unit) db_io" where
  "run_file E tracking name sql =
     bindD (engine_begin E) (\<lambda>h.
       catchD
         (bindD (run_statements E h (map (\<lambda>s. (s, [])) (splitStatements sql))) (\<lambda>_.
          bindD (run_statements E h (restore_path tracking)) (\<lambda>_.
          bindD (run_statements E h (record_name name)) (\<lambda>_.
            engine_commit E h))))
         (\<lambda>e. bindD (catchD (engine_rollback E h) (\<lambda>_. returnD ())) (\<lambda>_. throwD e)))"

fun run_pending :: "'d engine \<Rightarrow> string option \<Rightarrow> jsval list \<Rightarrow> (string \<times> string) list \<Rightarrow> ('d, string list) db_io" where
  "run_pending E tracking applied [] = returnD []"
| "run_pending E tracking applied ((name, sql) # fs) =
     (if Str name \<in> set applied then run_pending E tracking applied fs
      else
        bindD (run_file E tracking name sql) (\<lambda>_.
        bindD (run_pending E tracking applied fs) (\<lambda>names.
          returnD (name # names))))"

definition runMigrations :: "'d engine \<Rightarrow> (string \<times> string) list \<Rightarrow> ('d, string list) db_io" where
  "runMigrations E migrations =
     bindD (tracking_state E) (\<lambda>(tracking, applied).
       run_pending E tracking applied (sort_key fst migrations))"

text \<open>The files of a directory that end in \<^verbatim>\<open>.sql\<close>, in the order of their names.\<close>

fun read_files :: "fpath \<Rightarrow> string list \<Rightarrow> (string \<times> string) list disk_io" where
  "read_files dir [] = retF []"
| "read_files dir (f # fs) =
     bindF (readFileSync (dir @ [f])) (\<lambda>sql. bindF (read_files dir fs) (\<lambda>rest. retF ((f, sql) # rest)))"

definition loadMigrationsFromDir :: "fpath \<Rightarrow> (string \<times> string) list disk_io" where
  "loadMigrationsFromDir dir =
     bindF (readdirSync dir) (\<lambda>entries.
       read_files dir (sort (filter (\<lambda>f. ends_with f ''.sql'') (map fst entries))))"

section \<open>A migration is applied as a whole or not at all\<close>

text \<open>The statements of a file's transaction, in order.\<close>

definition file_steps :: "string option \<Rightarrow> string \<Rightarrow> string \<Rightarrow> (string \<times> jsval list) list" where
  "file_steps tracking name sql =
     map (\<lambda>s. (s, [])) (splitStatements sql)
     @ (case tracking of
          None \<Rightarrow> []
        | Some p \<Rightarrow> [(''SELECT set_config($1, $2, false)'', [Str ''search_path'', Str p])])
     @ [(''INSERT INTO _migrations (name) VALUES ($1)'', [Str name])]"

definition step_events :: "nat \<Rightarrow> (string \<times> jsval list) list \<Rightarrow> db_log" where
  "step_events h ss = map (\<lambda>(sql, ps). (EvTxExecute h sql ps, True)) ss"

text \<open>What a transaction of the steps leaves in the log when it commits, and when it does not.\<close>

definition committed_log :: "nat \<Rightarrow> (string \<times> jsval list) list \<Rightarrow> db_log" where
  "committed_log h ss = (EvBegin (Some h), True) # step_events h ss @ [(EvCommit h, True)]"

definition failing_event :: "nat \<Rightarrow> (string \<times> jsval list) list \<Rightarrow> db_event" where
  "failing_event h ss = (case ss of [] \<Rightarrow> EvCommit h | (sql, ps) # _ \<Rightarrow> EvTxExecute h sql ps)"

definition aborted_log :: "nat \<Rightarrow> (string \<times> jsval list) list \<Rightarrow> (string \<times> jsval list) list \<Rightarrow> bool \<Rightarrow> db_log" where
  "aborted_log h prior left ok =
     (EvBegin (Some h), True) # step_events h prior @ [(failing_event h left, False), (EvRollback h, ok)]"

definition aborted :: "(string \<times> jsval list) list \<Rightarrow> db_log \<Rightarrow> bool" where
  "aborted ss evs =
     (evs = [(EvBegin None, False)]
      \<or> (\<exists>h prior left ok. ss = prior @ left \<and> evs = aborted_log h prior left ok))"

definition pending :: "jsval list \<Rightarrow> (string \<times> string) list \<Rightarrow> (string \<times> string) list" where
  "pending applied migrations = filter (\<lambda>(name, _). Str name \<notin> set applied) (sort_key fst migrations)"

lemma engine_call_log:
  "engine_call ev f d = (d', r)
   \<Longrightarrow> db_log d' = db_log d @ [(ev r, \<not> isl r)]"
  by (auto simp: engine_call_def split: prod.splits sum.splits)

lemma run_statements_append:
  "run_statements E h (xs @ ys) = bindD (run_statements E h xs) (\<lambda>_. run_statements E h ys)"
  by (induction xs) (auto simp: bindD_def returnD_def fun_eq_iff split: prod.splits sum.splits)

lemma bindD_assoc: "bindD (bindD m f) g = bindD m (\<lambda>a. bindD (f a) g)"
  by (auto simp: bindD_def fun_eq_iff split: prod.splits sum.splits)

lemma run_file_steps:
  "run_file E tracking name sql =
     bindD (engine_begin E) (\<lambda>h.
       catchD (bindD (run_statements E h (file_steps tracking name sql)) (\<lambda>_. engine_commit E h))
         (\<lambda>e. bindD (catchD (engine_rollback E h) (\<lambda>_. returnD ())) (\<lambda>_. throwD e)))"
proof -
  have "file_steps tracking name sql = map (\<lambda>s. (s, [])) (splitStatements sql) @ restore_path tracking @ record_name name"
    by (simp add: file_steps_def restore_path_def record_name_def set_path_sql_def record_sql_def split: option.split)
  then show ?thesis by (simp add: run_file_def run_statements_append bindD_assoc)
qed

lemma run_statements_log:
  assumes "run_statements E h ss d = (d', r)"
  shows "case r of
      Inr _ \<Rightarrow> db_log d' = db_log d @ step_events h ss
    | Inl _ \<Rightarrow> \<exists>prior left. ss = prior @ left \<and> left \<noteq> []
          \<and> db_log d' = db_log d @ step_events h prior @ [(failing_event h left, False)]"
  using assms
proof (induction ss arbitrary: d)
  case Nil
  then show ?case by (auto simp: returnD_def step_events_def)
next
  case (Cons s ss)
  obtain sql ps where s: "s = (sql, ps)" by fastforce
  obtain d1 r1 where m: "engine_tx_execute E h sql ps d = (d1, r1)" by fastforce
  then have log1: "db_log d1 = db_log d @ [(EvTxExecute h sql ps, \<not> isl r1)]"
    unfolding engine_tx_execute_def by (rule engine_call_log)
  show ?case
  proof (cases r1)
    case (Inl e)
    then have "d' = d1 \<and> r = Inl e" using Cons.prems m s by (simp add: bindD_def)
    then show ?thesis using log1 s Inl
      by (auto intro!: exI [of _ "[]"] exI [of _ "s # ss"] simp: step_events_def failing_event_def)
  next
    case (Inr a)
    then have "run_statements E h ss d1 = (d', r)" using Cons.prems m s by (simp add: bindD_def)
    from Cons.IH [OF this] show ?thesis
    proof (cases r)
      case (Inl e)
      with Cons.IH [OF \<open>run_statements E h ss d1 = (d', r)\<close>] obtain prior left
        where "ss = prior @ left" "left \<noteq> []"
          "db_log d' = db_log d1 @ step_events h prior @ [(failing_event h left, False)]" by auto
      then have "s # ss = (s # prior) @ left \<and> left \<noteq> []
          \<and> db_log d' = db_log d @ step_events h (s # prior) @ [(failing_event h left, False)]"
        using log1 s Inr by (simp add: step_events_def)
      then show ?thesis unfolding Inl sum.case by blast
    qed (use log1 s Inr in \<open>auto simp: step_events_def\<close>)
  qed
qed

lemma aborted_failed:
  "ss = prior @ left \<Longrightarrow> evs = aborted_log h prior left ok \<Longrightarrow> aborted ss evs"
  unfolding aborted_def by blast

lemma run_file_log:
  assumes "run_file E tracking name sql d = (d', r)"
  shows "case r of
      Inr _ \<Rightarrow> \<exists>h. db_log d' = db_log d @ committed_log h (file_steps tracking name sql)
    | Inl _ \<Rightarrow> \<exists>evs. aborted (file_steps tracking name sql) evs \<and> db_log d' = db_log d @ evs"
proof -
  let ?ss = "file_steps tracking name sql"
  obtain d0 rb where b: "engine_begin E d = (d0, rb)" by fastforce
  then have log0: "db_log d0 = db_log d @ [(EvBegin (case rb of Inl _ \<Rightarrow> None | Inr h \<Rightarrow> Some h), \<not> isl rb)]"
    unfolding engine_begin_def by (rule engine_call_log)
  show ?thesis
  proof (cases rb)
    case (Inl e)
    then have "d' = d0 \<and> r = Inl e" using assms b by (simp add: run_file_steps bindD_def)
    then show ?thesis using log0 Inl by (simp add: aborted_def)
  next
    case (Inr h)
    let ?m = "bindD (run_statements E h ?ss) (\<lambda>_. engine_commit E h)"
    obtain d1 r1 where m: "?m d0 = (d1, r1)" by fastforce
    obtain ds rs where ss: "run_statements E h ?ss d0 = (ds, rs)" by fastforce
    have failed: "\<exists>prior left. ?ss = prior @ left
        \<and> db_log d1 = db_log d0 @ step_events h prior @ [(failing_event h left, False)]" if "r1 = Inl e" for e
    proof (cases rs)
      case (Inl e')
      then have "d1 = ds" using m ss by (simp add: bindD_def)
      then show ?thesis using run_statements_log [OF ss] Inl by auto
    next
      case (Inr _)
      then have "engine_commit E h ds = (d1, Inl e)" using m ss that by (simp add: bindD_def)
      then have "db_log d1 = db_log ds @ [(EvCommit h, False)]"
        unfolding engine_commit_def by (auto dest: engine_call_log)
      then have "?ss = ?ss @ [] \<and> db_log d1 = db_log d0 @ step_events h ?ss @ [(failing_event h [], False)]"
        using run_statements_log [OF ss] Inr by (simp add: failing_event_def)
      then show ?thesis by blast
    qed
    show ?thesis
    proof (cases r1)
      case (Inr a)
      then have "d' = d1" "r = Inr a" using assms b \<open>rb = Inr h\<close> m by (auto simp: run_file_steps bindD_def catchD_def)
      moreover obtain u where "rs = Inr u" "engine_commit E h ds = (d1, Inr a)"
        using m ss Inr by (cases rs) (auto simp: bindD_def)
      moreover have "db_log d1 = db_log ds @ [(EvCommit h, True)]"
        using \<open>engine_commit E h ds = (d1, Inr a)\<close> unfolding engine_commit_def by (auto dest: engine_call_log)
      ultimately show ?thesis using run_statements_log [OF ss] log0 \<open>rb = Inr h\<close>
        by (auto simp: committed_log_def intro!: exI [of _ h])
    next
      case (Inl e)
      obtain d2 r2 where k: "engine_rollback E h d1 = (d2, r2)" by fastforce
      then have "db_log d2 = db_log d1 @ [(EvRollback h, \<not> isl r2)]"
        unfolding engine_rollback_def by (rule engine_call_log)
      moreover have "d' = d2" "r = Inl e"
        using assms b \<open>rb = Inr h\<close> m Inl k
        by (auto simp: run_file_steps bindD_def catchD_def returnD_def throwD_def split: sum.splits)
      moreover obtain prior left where "?ss = prior @ left"
          "db_log d1 = db_log d0 @ step_events h prior @ [(failing_event h left, False)]"
        using failed [OF Inl] by blast
      ultimately show ?thesis using log0 \<open>rb = Inr h\<close>
        by (auto intro: aborted_failed [where prior = prior and left = left and h = h and ok = "\<not> isl r2"] simp: aborted_log_def)
    qed
  qed
qed

text \<open>The log of files that are applied one after the other, each on its own handle.\<close>

definition applied_log :: "string option \<Rightarrow> nat list \<Rightarrow> (string \<times> string) list \<Rightarrow> db_log" where
  "applied_log tracking hs fs =
     concat (map (\<lambda>(h, name, sql). committed_log h (file_steps tracking name sql)) (zip hs fs))"

text \<open>What the pending files leave in the log: all of them applied, or a prefix and one that is not.\<close>

definition migrated :: "string option \<Rightarrow> (string \<times> string) list \<Rightarrow> (thrown, string list) res \<Rightarrow> db_log \<Rightarrow> bool" where
  "migrated tracking fs r evs =
     (case r of
        Inr names \<Rightarrow> names = map fst fs \<and> (\<exists>hs. length hs = length fs \<and> evs = applied_log tracking hs fs)
      | Inl _ \<Rightarrow>
          \<exists>hs prior name sql later tail. fs = prior @ (name, sql) # later \<and> length hs = length prior
            \<and> aborted (file_steps tracking name sql) tail \<and> evs = applied_log tracking hs prior @ tail)"

lemma migrated_failed:
  "fs = prior @ (name, sql) # later \<Longrightarrow> length hs = length prior \<Longrightarrow> aborted (file_steps tracking name sql) tail
   \<Longrightarrow> migrated tracking fs (Inl e) (applied_log tracking hs prior @ tail)"
  unfolding migrated_def sum.case by blast

lemma run_pending_skips:
  "run_pending E tracking applied fs
   = run_pending E tracking [] (filter (\<lambda>(name, _). Str name \<notin> set applied) fs)"
  by (induction fs) auto

lemma run_pending_log:
  "run_pending E tracking [] fs d = (d', r) \<Longrightarrow> \<exists>evs. db_log d' = db_log d @ evs \<and> migrated tracking fs r evs"
proof (induction fs arbitrary: d d' r)
  case Nil
  then show ?case by (auto simp: returnD_def migrated_def applied_log_def)
next
  case (Cons f fs)
  obtain name sql where f: "f = (name, sql)" by fastforce
  obtain d1 r1 where m: "run_file E tracking name sql d = (d1, r1)" by fastforce
  note log1 = run_file_log [OF m]
  show ?case
  proof (cases r1)
    case (Inl e)
    then have "d' = d1" "r = Inl e" using Cons.prems f m by (auto simp: bindD_def)
    moreover obtain tail where "aborted (file_steps tracking name sql) tail" "db_log d1 = db_log d @ tail"
      using log1 Inl by auto
    moreover have "migrated tracking (f # fs) (Inl e) (applied_log tracking [] [] @ tail)"
      using calculation f by (intro migrated_failed) auto
    ultimately show ?thesis by (auto simp: applied_log_def)
  next
    case (Inr u)
    then obtain h where h: "db_log d1 = db_log d @ committed_log h (file_steps tracking name sql)" using log1 by auto
    obtain d2 r2 where m2: "run_pending E tracking [] fs d1 = (d2, r2)" by fastforce
    with Cons.IH obtain evs where evs: "db_log d2 = db_log d1 @ evs" "migrated tracking fs r2 evs" by blast
    have r: "d' = d2" "r = (case r2 of Inl e \<Rightarrow> Inl e | Inr names \<Rightarrow> Inr (name # names))"
      using Cons.prems f m Inr m2 by (auto simp: bindD_def returnD_def split: sum.splits)
    have "migrated tracking (f # fs) r (committed_log h (file_steps tracking name sql) @ evs)"
    proof (cases r2)
      case (Inr names)
      then obtain hs where "names = map fst fs" "length hs = length fs" "evs = applied_log tracking hs fs"
        using evs(2) by (auto simp: migrated_def)
      then show ?thesis using f r Inr by (auto simp: migrated_def applied_log_def intro!: exI [of _ "h # hs"])
    next
      case (Inl e)
      then obtain hs prior n s later tail where "fs = prior @ (n, s) # later" "length hs = length prior"
          "aborted (file_steps tracking n s) tail" "evs = applied_log tracking hs prior @ tail"
        using evs(2) by (auto simp: migrated_def)
      then have "migrated tracking (f # fs) (Inl e) (applied_log tracking (h # hs) (f # prior) @ tail)"
        by (intro migrated_failed) auto
      then show ?thesis using r Inl f \<open>evs = _\<close> by (simp add: applied_log_def)
    qed
    then show ?thesis using h evs r by auto
  qed
qed

text \<open>C28: Once the names already applied are known, a run of \<open>runMigrations\<close> calls the engine for the
  pending files only, in the order of their names: for each applied file one transaction that holds
  exactly its statements, the restored search path and the record of its name, and commits.  When it
  returns, every pending file was applied and it returns their names; when it throws, the files
  before some pending file were applied, that file's transaction was rolled back at the first call
  that failed, and nothing follows.
\<close>

theorem migrations_atomic:
  assumes "tracking_state E d = (d1, Inr (tracking, applied))"
    and "runMigrations E migrations d = (d', r)"
  shows "\<exists>evs. db_log d' = db_log d1 @ evs \<and> migrated tracking (pending applied migrations) r evs"
proof -
  have "run_pending E tracking [] (pending applied migrations) d1 = (d', r)"
    using assms by (simp add: runMigrations_def bindD_def pending_def run_pending_skips [of E tracking applied])
  then show ?thesis by (rule run_pending_log)
qed

text \<open>An engine with one file recorded and a statement it refuses.\<close>

definition demo_engine :: "unit engine" where
  "demo_engine =
     \<lparr>query = \<lambda>sql ps u. (u, Inr (if sql = show_path_sql then [Obj [(''search_path'', Str '' public '')]]
                                 else [Obj [(''name'', Str ''1.sql'')]])),
      execute = \<lambda>sql ps u. (u, Inr 0),
      beginTransaction = \<lambda>u. (u, Inr 0),
      commitTransaction = \<lambda>h u. (u, Inr ()),
      rollbackTransaction = \<lambda>h u. (u, Inl type_error),
      queryInTransaction = \<lambda>h sql ps u. (u, Inr []),
      executeInTransaction = \<lambda>h sql ps u. (u, if sql = ''bad'' then Inl type_error else Inr 0)\<rparr>"

definition demo_migrations :: "(string \<times> string) list" where
  "demo_migrations = [(''3.sql'', ''a; bad; c''), (''1.sql'', ''x''), (''2.sql'', ''y'')]"

lemma demo_tracking:
  "snd (tracking_state demo_engine \<lparr>db_state = (), db_log = []\<rparr>) = Inr (Some ''public'', [Str ''1.sql''])"
  by code_simp

lemma demo_refused: "snd (runMigrations demo_engine demo_migrations \<lparr>db_state = (), db_log = []\<rparr>) = Inl type_error"
  by code_simp

theorem migrations_atomic_witness:
  "\<exists>(d1 :: unit db) evs. db_log (fst (runMigrations demo_engine demo_migrations \<lparr>db_state = (), db_log = []\<rparr>)) = db_log d1 @ evs
     \<and> migrated (Some ''public'') [(''2.sql'', ''y''), (''3.sql'', ''a; bad; c'')] (Inl type_error) evs"
proof -
  have p: "pending [Str ''1.sql''] demo_migrations = [(''2.sql'', ''y''), (''3.sql'', ''a; bad; c'')]" by code_simp
  obtain d1 where t: "tracking_state demo_engine \<lparr>db_state = (), db_log = []\<rparr> = (d1, Inr (Some ''public'', [Str ''1.sql'']))"
    using demo_tracking by (cases "tracking_state demo_engine \<lparr>db_state = (), db_log = []\<rparr>") simp
  obtain d' where r: "runMigrations demo_engine demo_migrations \<lparr>db_state = (), db_log = []\<rparr> = (d', Inl type_error)"
    using demo_refused by (cases "runMigrations demo_engine demo_migrations \<lparr>db_state = (), db_log = []\<rparr>") simp
  from migrations_atomic [OF t r] show ?thesis unfolding r p fst_conv by blast
qed

section \<open>What the splitter gets wrong\<close>

text \<open>A comment leaves nothing behind, not a space, so the words around it become one.\<close>

lemma comment_joins_words: "splitStatements ''select/**/x'' = [''selectx'']"
  by code_simp

text \<open>A quoted identifier is not recognised: a semicolon in it ends the statement.\<close>

lemma identifier_cut:
  "splitStatements (''drop table '' @ dq ''a;b'') = [''drop table '' @ CHR 0x22 # ''a'', ''b'' @ [CHR 0x22]]"
  by code_simp

text \<open>Blocks of different tags do nest, which the comment on the function says they do not.\<close>

lemma nested_tags_kept: "splitStatements ''$a$ $b$;$b$ ; $a$; x'' = [''$a$ $b$;$b$ ; $a$'', ''x'']"
  by code_simp

end
