(* ===== verification/JobQueue.thy ===== *)
theory JobQueue
  imports AsyncJob
begin

text \<open>
  \<^verbatim>\<open>packages/bb-async-job/src/index.mock.ts\<close>: the in-process queue of the local runtime.  A submitted
  job is a call in progress with a program counter; its timers, the answers of the status store and
  the outcome of the handler are events, which may interleave with those of other jobs.  What a job
  does to the status store and to the handler is a log.  Job ids, times and their ISO form come with
  the event that draws them.
\<close>

section \<open>State\<close>

record queue_entry =
  qe_jobId :: string
  qe_payload :: jsval
  receiveCount :: int
  sentAt :: string
  delayedUntil :: "string option"
  failedAt :: "string option"
  lastError :: "string option"

record job_queue =
  q_pending :: "queue_entry list"
  q_processing :: "queue_entry list"
  q_delayed :: "queue_entry list"
  q_failed :: "queue_entry list"
  totalSubmitted :: nat
  totalCompleted :: nat

record job_options =
  jq_schema :: "(jsval \<Rightarrow> string list option) option"
  maxRetries :: int
  trackStatus :: bool

text \<open>Where a submitted job stands.\<close>

datatype job_pc =
    Recording int
  | Rejected
  | Delayed
  | Due
  | Starting
  | Running
  | Succeeded
  | DeadLettered

datatype job_call =
    CallQueued string string
  | CallTransition string AsyncJobState int "string option"
  | CallHandler string jsval int string

record job_runtime =
  job_queue :: job_queue
  jobs :: "(queue_entry \<times> job_pc) list"
  job_log :: "(nat \<times> job_call) list"

definition MAX_PAYLOAD_BYTES :: int where "MAX_PAYLOAD_BYTES = 256 * 1024"
definition MAX_BATCH_PAYLOADS :: nat where "MAX_BATCH_PAYLOADS = 10000"

definition PayloadTooLarge :: string where "PayloadTooLarge = ''PayloadTooLargeException''"
definition BatchEmpty :: string where "BatchEmpty = ''BatchEmptyException''"
definition BatchTooLarge :: string where "BatchTooLarge = ''BatchTooLargeException''"
definition jq_ValidationFailed :: string where "jq_ValidationFailed = ''ValidationFailedException''"

definition job_start :: job_runtime where
  "job_start =
     \<lparr>job_queue = \<lparr>q_pending = [], q_processing = [], q_delayed = [], q_failed = [], totalSubmitted = 0, totalCompleted = 0\<rparr>,
      jobs = [], job_log = []\<rparr>"

section \<open>Checks\<close>

text \<open>\<open>JSON.stringify\<close> of undefined is undefined, which \<open>Buffer.byteLength\<close> refuses.\<close>

definition validatePayload :: "job_options \<Rightarrow> jsval \<Rightarrow> (thrown, unit) res" where
  "validatePayload opts payload =
     bindR (case jq_schema opts of
              None \<Rightarrow> Inr ()
            | Some validate \<Rightarrow>
                (case validate payload of
                   None \<Rightarrow> Inr ()
                 | Some issues \<Rightarrow>
                     Inl (blocksError jq_ValidationFailed (case issues of [] \<Rightarrow> ''Validation failed'' | m # _ \<Rightarrow> m))))
       (\<lambda>_. if payload = Undef then Inl (JsError ''TypeError'' [] False False Undef Undef None)
            else
              (let bytes = int (length (print_json (json_norm payload))) in
               if bytes > MAX_PAYLOAD_BYTES
               then Inl (blocksError PayloadTooLarge (''Serialized payload is '' @ show_int ((bytes + 1023) div 1024)
                           @ '' KB, exceeds 256 KB limit''))
               else Inr ()))"

fun each_valid :: "job_options \<Rightarrow> jsval list \<Rightarrow> (thrown, unit) res" where
  "each_valid opts [] = Inr ()"
| "each_valid opts (p # ps) = bindR (validatePayload opts p) (\<lambda>_. each_valid opts ps)"

text \<open>What \<open>submitBatch\<close> checks before it submits the payloads one after the other.\<close>

definition batch_checks :: "job_options \<Rightarrow> jsval list \<Rightarrow> (thrown, unit) res" where
  "batch_checks opts payloads =
     (if payloads = [] then Inl (blocksError BatchEmpty ''Batch is empty, must contain at least 1 payload'')
      else if length payloads > MAX_BATCH_PAYLOADS
      then Inl (blocksError BatchTooLarge (''Batch contains '' @ show_nat (length payloads) @ '' payloads, exceeds the ''
                  @ show_nat MAX_BATCH_PAYLOADS @ '' per-call limit''))
      else each_valid opts payloads)"

section \<open>Steps\<close>

datatype job_event =
    Submit jsval int string string string
  | Recorded nat bool
  | DelayElapsed nat
  | Tick nat
  | StatusWritten nat
  | HandlerReturned nat
  | HandlerThrew nat string string

definition without :: "string \<Rightarrow> queue_entry list \<Rightarrow> queue_entry list" where
  "without i es = filter (\<lambda>e. qe_jobId e \<noteq> i) es"

definition status_call :: "job_options \<Rightarrow> nat \<Rightarrow> job_call \<Rightarrow> (nat \<times> job_call) list" where
  "status_call opts i c = (if trackStatus opts then [(i, c)] else [])"

text \<open>\<open>submit\<close> up to its write of the status; the id, the time now and the end of the delay are drawn.\<close>

definition job_submit :: "job_options \<Rightarrow> jsval \<Rightarrow> int \<Rightarrow> string \<Rightarrow> string \<Rightarrow> string \<Rightarrow> job_runtime \<Rightarrow> job_runtime" where
  "job_submit opts payload delaySeconds i now until s =
     (case validatePayload opts payload of
        Inl _ \<Rightarrow> s
      | Inr _ \<Rightarrow>
          (let e = \<lparr>qe_jobId = i, qe_payload = payload, receiveCount = 0, sentAt = now,
                    delayedUntil = (if delaySeconds > 0 then Some until else None), failedAt = None, lastError = None\<rparr> in
           s\<lparr>job_queue := (job_queue s)\<lparr>totalSubmitted := Suc (totalSubmitted (job_queue s))\<rparr>,
             jobs := jobs s @ [(e, Recording delaySeconds)],
             job_log := job_log s @ status_call opts (length (jobs s)) (CallQueued i now)\<rparr>))"

text \<open>The rest of \<open>submit\<close>, once the status is written or was refused.\<close>

definition job_recorded :: "bool \<Rightarrow> queue_entry \<Rightarrow> int \<Rightarrow> job_queue \<Rightarrow> job_queue \<times> job_pc" where
  "job_recorded ok e delaySeconds q =
     (if \<not> ok then (q, Rejected)
      else if delaySeconds > 0 then (q\<lparr>q_delayed := q_delayed q @ [e]\<rparr>, Delayed)
      else (q, Due))"

definition job_tick :: "queue_entry \<Rightarrow> job_queue \<Rightarrow> queue_entry \<times> job_queue" where
  "job_tick e q =
     (let e' = e\<lparr>receiveCount := receiveCount e + 1\<rparr> in
      (e', q\<lparr>q_pending := without (qe_jobId e) (q_pending q), q_processing := q_processing q @ [e']\<rparr>))"

definition job_returned :: "queue_entry \<Rightarrow> job_queue \<Rightarrow> job_queue" where
  "job_returned e q =
     q\<lparr>q_processing := without (qe_jobId e) (q_processing q), totalCompleted := Suc (totalCompleted q)\<rparr>"

definition job_threw :: "job_options \<Rightarrow> string \<Rightarrow> string \<Rightarrow> queue_entry \<Rightarrow> job_queue \<Rightarrow> queue_entry \<times> job_queue \<times> job_pc" where
  "job_threw opts now errorMsg e q =
     (let q' = q\<lparr>q_processing := without (qe_jobId e) (q_processing q)\<rparr> in
      if receiveCount e \<ge> maxRetries opts
      then (let e' = e\<lparr>failedAt := Some now, lastError := Some errorMsg\<rparr> in
            (e', q'\<lparr>q_failed := q_failed q' @ [e']\<rparr>, DeadLettered))
      else (e, q', Due))"

definition set_job :: "nat \<Rightarrow> queue_entry \<Rightarrow> job_pc \<Rightarrow> job_queue \<Rightarrow> (nat \<times> job_call) list \<Rightarrow> job_runtime \<Rightarrow> job_runtime" where
  "set_job i e pc q calls s = s\<lparr>job_queue := q, jobs := (jobs s)[i := (e, pc)], job_log := job_log s @ calls\<rparr>"

text \<open>An event of a job that does not wait for it does not happen.\<close>

definition job_own :: "job_options \<Rightarrow> job_runtime \<Rightarrow> nat \<Rightarrow> job_event \<Rightarrow> job_runtime" where
  "job_own opts s i ev =
     (if length (jobs s) \<le> i then s
      else
        (case jobs s ! i of (e, pc) \<Rightarrow>
           (let q = job_queue s; j = qe_jobId e; n = receiveCount e in
            case (ev, pc) of
              (Recorded _ ok, Recording delay) \<Rightarrow> (case job_recorded ok e delay q of (q', pc') \<Rightarrow> set_job i e pc' q' [] s)
            | (DelayElapsed _, Delayed) \<Rightarrow> set_job i e Due (q\<lparr>q_delayed := without j (q_delayed q)\<rparr>) [] s
            | (Tick _, Due) \<Rightarrow>
                (case job_tick e q of (e', q') \<Rightarrow>
                   set_job i e' Starting q' (status_call opts i (CallTransition j Processing (receiveCount e') None)) s)
            | (StatusWritten _, Starting) \<Rightarrow> set_job i e Running q [(i, CallHandler j (qe_payload e) n (sentAt e))] s
            | (HandlerReturned _, Running) \<Rightarrow>
                set_job i e Succeeded (job_returned e q) (status_call opts i (CallTransition j Complete n None)) s
            | (HandlerThrew _ now msg, Running) \<Rightarrow>
                (case job_threw opts now msg e q of (e', q', pc') \<Rightarrow>
                   set_job i e' pc' q'
                     (if pc' = DeadLettered then status_call opts i (CallTransition j Failed n (Some msg)) else []) s)
            | _ \<Rightarrow> s)))"

fun job_step :: "job_options \<Rightarrow> job_runtime \<Rightarrow> job_event \<Rightarrow> job_runtime" where
  "job_step opts s (Submit p delay i now until) = job_submit opts p delay i now until s"
| "job_step opts s (Recorded i ok) = job_own opts s i (Recorded i ok)"
| "job_step opts s (DelayElapsed i) = job_own opts s i (DelayElapsed i)"
| "job_step opts s (Tick i) = job_own opts s i (Tick i)"
| "job_step opts s (StatusWritten i) = job_own opts s i (StatusWritten i)"
| "job_step opts s (HandlerReturned i) = job_own opts s i (HandlerReturned i)"
| "job_step opts s (HandlerThrew i now msg) = job_own opts s i (HandlerThrew i now msg)"

definition job_run :: "job_options \<Rightarrow> job_event list \<Rightarrow> job_runtime" where
  "job_run opts evs = foldl (job_step opts) job_start evs"

section \<open>The history of a job\<close>

definition calls_of :: "nat \<Rightarrow> job_runtime \<Rightarrow> job_call list" where
  "calls_of i s = map snd (filter (\<lambda>(k, _). k = i) (job_log s))"

definition is_handler :: "job_call \<Rightarrow> bool" where
  "is_handler c = (case c of CallHandler _ _ _ _ \<Rightarrow> True | _ \<Rightarrow> False)"

text \<open>Without status tracking only the calls of the handler remain.\<close>

definition visible :: "job_options \<Rightarrow> job_call list \<Rightarrow> job_call list" where
  "visible opts cs = filter (\<lambda>c. trackStatus opts \<or> is_handler c) cs"

definition attempt :: "queue_entry \<Rightarrow> int \<Rightarrow> job_call list" where
  "attempt e n =
     [CallTransition (qe_jobId e) Processing n None, CallHandler (qe_jobId e) (qe_payload e) n (sentAt e)]"

definition attempt_upto :: "queue_entry \<Rightarrow> int \<Rightarrow> job_call list" where
  "attempt_upto e n = concat (map (attempt e) [1..n])"

text \<open>The attempts that have failed so far.\<close>

definition failures :: "queue_entry \<Rightarrow> job_pc \<Rightarrow> int" where
  "failures e pc = (if pc \<in> {Starting, Running, Succeeded} then receiveCount e - 1 else receiveCount e)"

text \<open>What a job has called: its submission, an attempt for each failure, and the part of the current
  attempt its place stands for.\<close>

definition job_trace :: "queue_entry \<Rightarrow> job_pc \<Rightarrow> job_call list" where
  "job_trace e pc =
     CallQueued (qe_jobId e) (sentAt e) # attempt_upto e (failures e pc)
     @ (case pc of
          Starting \<Rightarrow> [CallTransition (qe_jobId e) Processing (receiveCount e) None]
        | Running \<Rightarrow> attempt e (receiveCount e)
        | Succeeded \<Rightarrow> attempt e (receiveCount e) @ [CallTransition (qe_jobId e) Complete (receiveCount e) None]
        | DeadLettered \<Rightarrow> [CallTransition (qe_jobId e) Failed (receiveCount e) (lastError e)]
        | _ \<Rightarrow> [])"

definition max_attempts :: "job_options \<Rightarrow> int" where
  "max_attempts opts = max 1 (maxRetries opts)"

definition job_place :: "job_options \<Rightarrow> queue_entry \<Rightarrow> job_pc \<Rightarrow> bool" where
  "job_place opts e pc =
     (case pc of
        Recording _ \<Rightarrow> receiveCount e = 0
      | Rejected \<Rightarrow> receiveCount e = 0
      | Delayed \<Rightarrow> receiveCount e = 0
      | DeadLettered \<Rightarrow> receiveCount e = max_attempts opts \<and> lastError e \<noteq> None
      | _ \<Rightarrow> 0 \<le> failures e pc \<and> failures e pc < max_attempts opts)"

definition job_ok :: "job_options \<Rightarrow> job_runtime \<Rightarrow> nat \<Rightarrow> bool" where
  "job_ok opts s i =
     (case jobs s ! i of (e, pc) \<Rightarrow> job_place opts e pc \<and> calls_of i s = visible opts (job_trace e pc))"

lemma attempt_upto_0 [simp]: "attempt_upto e 0 = []"
  by (simp add: attempt_upto_def)

lemma attempt_upto_step: "1 \<le> n \<Longrightarrow> attempt_upto e n = attempt_upto e (n - 1) @ attempt e n"
  by (simp add: attempt_upto_def upto_rec2 [of 1 n])

lemma attempt_fields [simp]:
  "attempt (e\<lparr>receiveCount := n\<rparr>) = attempt e" "attempt (e\<lparr>failedAt := a, lastError := b\<rparr>) = attempt e"
  "attempt_upto (e\<lparr>receiveCount := n\<rparr>) = attempt_upto e" "attempt_upto (e\<lparr>failedAt := a, lastError := b\<rparr>) = attempt_upto e"
  by (simp_all add: fun_eq_iff attempt_def attempt_upto_def cong: map_cong)

lemma visible_append [simp]: "visible opts (xs @ ys) = visible opts xs @ visible opts ys"
  by (simp add: visible_def)

lemma visible_status: "visible opts [c] = map snd (status_call opts i c)" if "\<not> is_handler c"
  using that by (simp add: visible_def status_call_def)

lemma calls_of_append:
  "calls_of i (s\<lparr>job_queue := q, jobs := js, job_log := job_log s @ cs\<rparr>)
   = calls_of i s @ map snd (filter (\<lambda>(k, _). k = i) cs)"
  by (simp add: calls_of_def)

lemma status_call_at:
  "map snd (filter (\<lambda>(k, _). k = i) (status_call opts j c)) = (if i = j then map snd (status_call opts i c) else [])"
  by (simp add: status_call_def)

text \<open>How a step of one job changes the runtime.\<close>

lemma set_job_ok_other:
  assumes "job_ok opts s k" "k \<noteq> i" "\<forall>(j, _) \<in> set cs. j = i"
  shows "job_ok opts (set_job i e pc q cs s) k"
proof -
  have "filter (\<lambda>(j, _). j = k) cs = []" using assms(2,3) by (auto simp: filter_empty_conv)
  then show ?thesis using assms(1,2) by (simp add: job_ok_def set_job_def calls_of_append)
qed

lemma set_job_ok_same:
  assumes "i < length (jobs s)" "job_ok opts s i" "jobs s ! i = (e, pc)" "\<forall>(j, _) \<in> set cs. j = i"
    and "job_place opts e' pc'" "visible opts (job_trace e' pc') = visible opts (job_trace e pc) @ map snd cs"
  shows "job_ok opts (set_job i e' pc' q cs s) i"
proof -
  have "filter (\<lambda>(j, _). j = i) cs = cs" using assms(4) by (auto simp: filter_id_conv)
  then show ?thesis using assms(1,2,3,5,6) by (simp add: job_ok_def set_job_def calls_of_append)
qed

definition advances :: "job_options \<Rightarrow> nat \<Rightarrow> queue_entry \<Rightarrow> job_pc \<Rightarrow> queue_entry \<Rightarrow> job_pc \<Rightarrow> (nat \<times> job_call) list \<Rightarrow> bool" where
  "advances opts i e pc e' pc' cs =
     ((\<forall>(j, _) \<in> set cs. j = i) \<and> qe_jobId e' = qe_jobId e
      \<and> (job_place opts e pc \<longrightarrow>
           job_place opts e' pc' \<and> visible opts (job_trace e' pc') = visible opts (job_trace e pc) @ map snd cs))"

text \<open>What an event of a job makes of it: nothing, or one of the moves below.\<close>

inductive job_move ::
  "job_options \<Rightarrow> nat \<Rightarrow> queue_entry \<Rightarrow> job_pc \<Rightarrow> job_queue \<Rightarrow> queue_entry \<Rightarrow> job_pc \<Rightarrow> job_queue \<Rightarrow> (nat \<times> job_call) list \<Rightarrow> bool"
  for opts i where
  rejected: "job_move opts i e (Recording d) q e Rejected q []"
| delayed: "d > 0 \<Longrightarrow> job_move opts i e (Recording d) q e Delayed (q\<lparr>q_delayed := q_delayed q @ [e]\<rparr>) []"
| queued: "d \<le> 0 \<Longrightarrow> job_move opts i e (Recording d) q e Due q []"
| elapsed: "job_move opts i e Delayed q e Due (q\<lparr>q_delayed := without (qe_jobId e) (q_delayed q)\<rparr>) []"
| tick: "job_tick e q = (e', q')
    \<Longrightarrow> job_move opts i e Due q e' Starting q' (status_call opts i (CallTransition (qe_jobId e) Processing (receiveCount e') None))"
| handle: "job_move opts i e Starting q e Running q [(i, CallHandler (qe_jobId e) (qe_payload e) (receiveCount e) (sentAt e))]"
| returned: "job_move opts i e Running q e Succeeded (job_returned e q)
    (status_call opts i (CallTransition (qe_jobId e) Complete (receiveCount e) None))"
| retried: "job_threw opts now msg e q = (e, q', Due) \<Longrightarrow> receiveCount e < maxRetries opts \<Longrightarrow> job_move opts i e Running q e Due q' []"
| dead: "job_threw opts now msg e q = (e', q', DeadLettered) \<Longrightarrow> receiveCount e \<ge> maxRetries opts
    \<Longrightarrow> job_move opts i e Running q e' DeadLettered q' (status_call opts i (CallTransition (qe_jobId e) Failed (receiveCount e) (Some msg)))"

lemma job_own_moves:
  assumes "job_own opts s i ev \<noteq> s"
  obtains e pc e' pc' q' cs where "i < length (jobs s)" "jobs s ! i = (e, pc)"
    "job_move opts i e pc (job_queue s) e' pc' q' cs" "job_own opts s i ev = set_job i e' pc' q' cs s"
proof -
  obtain e pc where j: "jobs s ! i = (e, pc)" by fastforce
  have i: "i < length (jobs s)" using assms by (auto simp: job_own_def split: if_splits)
  have "\<exists>e' pc' q' cs. job_move opts i e pc (job_queue s) e' pc' q' cs \<and> job_own opts s i ev = set_job i e' pc' q' cs s"
  proof (cases ev)
    case (Recorded k ok)
    then obtain d where d: "pc = Recording d" using assms i j by (cases pc) (auto simp: job_own_def)
    then show ?thesis using i j Recorded job_move.rejected job_move.delayed [of d] job_move.queued [of d]
      by (cases ok; cases "d > 0") (fastforce simp: job_own_def job_recorded_def)+
  next
    case (DelayElapsed k)
    then have "pc = Delayed" using assms i j by (cases pc) (auto simp: job_own_def)
    then show ?thesis using i j DelayElapsed job_move.elapsed by (fastforce simp: job_own_def Let_def)
  next
    case (Tick k)
    obtain e' q' where t: "job_tick e (job_queue s) = (e', q')" by fastforce
    have "pc = Due" using assms i j Tick by (cases pc) (auto simp: job_own_def)
    then show ?thesis using i j Tick t job_move.tick [OF t] by (fastforce simp: job_own_def Let_def)
  next
    case (StatusWritten k)
    then have "pc = Starting" using assms i j by (cases pc) (auto simp: job_own_def)
    then show ?thesis using i j StatusWritten job_move.handle by (fastforce simp: job_own_def Let_def)
  next
    case (HandlerReturned k)
    then have "pc = Running" using assms i j by (cases pc) (auto simp: job_own_def)
    then show ?thesis using i j HandlerReturned job_move.returned by (fastforce simp: job_own_def Let_def)
  next
    case (HandlerThrew k now msg)
    then have p: "pc = Running" using assms i j by (cases pc) (auto simp: job_own_def)
    show ?thesis
    proof (cases "receiveCount e \<ge> maxRetries opts")
      case True
      then obtain e' q' where t: "job_threw opts now msg e (job_queue s) = (e', q', DeadLettered)" by (simp add: job_threw_def Let_def)
      show ?thesis using i j p HandlerThrew t job_move.dead [OF t True] by (fastforce simp: job_own_def Let_def)
    next
      case False
      then obtain q' where t: "job_threw opts now msg e (job_queue s) = (e, q', Due)" by (simp add: job_threw_def Let_def)
      show ?thesis using i j p HandlerThrew t job_move.retried [OF t] False by (fastforce simp: job_own_def Let_def)
    qed
  qed (use assms i j in \<open>simp add: job_own_def\<close>)
  then show ?thesis using that i j by blast
qed

lemma status_call_snd: "map snd (status_call opts i c) = visible opts [c]" if "\<not> is_handler c"
  using that by (simp add: visible_def status_call_def)

lemma status_call_index: "\<forall>(j, _) \<in> set (status_call opts i c). j = i"
  by (simp add: status_call_def)

lemma job_move_advances: "job_move opts i e pc q e' pc' q' cs \<Longrightarrow> advances opts i e pc e' pc' cs"
proof (induction rule: job_move.induct)
  case (tick e q e' q')
  then have e': "e' = e\<lparr>receiveCount := receiveCount e + 1\<rparr>" by (simp add: job_tick_def Let_def)
  show ?case unfolding e'
    by (auto simp: advances_def job_place_def job_trace_def failures_def status_call_index status_call_snd is_handler_def
        visible_def [of _ "_ # _"])
next
  case (handle e q)
  show ?case
    by (auto simp: advances_def job_place_def job_trace_def failures_def attempt_def visible_def is_handler_def)
next
  case (returned e q)
  show ?case
    by (auto simp: advances_def job_place_def job_trace_def failures_def status_call_index status_call_snd is_handler_def
        visible_def [of _ "_ # _"])
next
  case (retried now msg e q q')
  then show ?case using attempt_upto_step [of "receiveCount e" e]
    by (auto simp: advances_def job_place_def job_trace_def failures_def max_attempts_def visible_def [of _ "_ # _"])
next
  case (dead now msg e q e' q')
  then have e': "e' = e\<lparr>failedAt := Some now, lastError := Some msg\<rparr>" by (simp add: job_threw_def Let_def)
  show ?case unfolding e' using dead attempt_upto_step [of "receiveCount e" e]
    by (auto simp: advances_def job_place_def job_trace_def failures_def max_attempts_def status_call_index status_call_snd
        is_handler_def visible_def [of _ "_ # _"])
qed (auto simp: advances_def job_place_def job_trace_def failures_def max_attempts_def)

definition jobs_ok :: "job_options \<Rightarrow> job_runtime \<Rightarrow> bool" where
  "jobs_ok opts s = ((\<forall>(k, _) \<in> set (job_log s). k < length (jobs s)) \<and> (\<forall>k < length (jobs s). job_ok opts s k))"

lemma jobs_ok_own: "jobs_ok opts s \<Longrightarrow> jobs_ok opts (job_own opts s i ev)"
proof -
  assume ok: "jobs_ok opts s"
  show ?thesis
  proof (cases "job_own opts s i ev = s")
    case False
    then obtain e pc e' pc' q' cs where m: "i < length (jobs s)" "jobs s ! i = (e, pc)"
        "job_move opts i e pc (job_queue s) e' pc' q' cs" "job_own opts s i ev = set_job i e' pc' q' cs s"
      by (rule job_own_moves)
    note adv = job_move_advances [OF m(3)]
    have at: "\<forall>(j, _) \<in> set cs. j = i" using adv by (simp add: advances_def)
    have "job_ok opts s i" using ok m(1) by (simp add: jobs_ok_def)
    then have "job_ok opts (set_job i e' pc' q' cs s) i"
      using adv set_job_ok_same [OF m(1) _ m(2) at] m(2) by (simp add: advances_def job_ok_def)
    moreover have "job_ok opts (set_job i e' pc' q' cs s) k" if "k < length (jobs s)" "k \<noteq> i" for k
      using set_job_ok_other [OF _ that(2) at] ok that(1) by (simp add: jobs_ok_def)
    moreover have "jobs (set_job i e' pc' q' cs s) = (jobs s)[i := (e', pc')]"
        "job_log (set_job i e' pc' q' cs s) = job_log s @ cs" by (simp_all add: set_job_def)
    ultimately show ?thesis using ok m(1) at unfolding m(4) jobs_ok_def
      by (auto simp: case_prod_beta)
  qed (use ok in simp)
qed

lemma jobs_ok_submit: "jobs_ok opts s \<Longrightarrow> jobs_ok opts (job_submit opts p d j now until s)"
proof (cases "validatePayload opts p")
  case (Inr u)
  assume ok: "jobs_ok opts s"
  let ?s = "job_submit opts p d j now until s" and ?n = "length (jobs s)"
  obtain e where e: "jobs ?s = jobs s @ [(e, Recording d)]" "job_log ?s = job_log s @ status_call opts ?n (CallQueued j now)"
      "receiveCount e = 0" "qe_jobId e = j" "sentAt e = now"
    using Inr by (simp add: job_submit_def Let_def)
  have "job_ok opts ?s k" if "k < ?n" for k
  proof -
    have "calls_of k ?s = calls_of k s" using that by (simp add: calls_of_def e(2) status_call_at)
    then show ?thesis using ok that by (simp add: jobs_ok_def job_ok_def e(1) nth_append)
  qed
  moreover have "calls_of ?n s = []" using ok by (auto simp: jobs_ok_def calls_of_def filter_empty_conv)
  then have "calls_of ?n ?s = visible opts (job_trace e (Recording d))"
    using e(3-5) by (simp add: calls_of_def e(2) status_call_at status_call_snd is_handler_def job_trace_def failures_def)
  then have "job_ok opts ?s ?n" using e(3) by (simp add: job_ok_def e(1) job_place_def)
  ultimately show ?thesis using ok
    by (auto simp: jobs_ok_def e(1,2) less_Suc_eq status_call_def)
qed (simp add: job_submit_def)

lemma jobs_ok_step: "jobs_ok opts s \<Longrightarrow> jobs_ok opts (job_step opts s ev)"
  by (cases ev) (simp_all add: jobs_ok_own jobs_ok_submit)

lemma jobs_ok_run: "jobs_ok opts (job_run opts evs)"
  unfolding job_run_def
proof (induction evs rule: rev_induct)
  case Nil
  show ?case by (simp add: jobs_ok_def job_start_def)
qed (simp add: jobs_ok_step)


section \<open>What the queue shows\<close>

definition job_ids :: "job_runtime \<Rightarrow> string list" where
  "job_ids s = map (\<lambda>(e, _). qe_jobId e) (jobs s)"

definition in_place :: "job_pc set \<Rightarrow> (queue_entry \<times> job_pc) list \<Rightarrow> queue_entry set" where
  "in_place pcs js = {e. \<exists>pc \<in> pcs. (e, pc) \<in> set js}"

definition succeeded :: "(queue_entry \<times> job_pc) list \<Rightarrow> nat" where
  "succeeded js = length (filter (\<lambda>(_, pc). pc = Succeeded) js)"

definition queue_shows :: "(queue_entry \<times> job_pc) list \<Rightarrow> job_queue \<Rightarrow> bool" where
  "queue_shows js q =
     (q_pending q = []
      \<and> distinct (q_delayed q) \<and> set (q_delayed q) = in_place {Delayed} js
      \<and> distinct (q_processing q) \<and> set (q_processing q) = in_place {Starting, Running} js
      \<and> distinct (q_failed q) \<and> set (q_failed q) = in_place {DeadLettered} js
      \<and> totalSubmitted q = length js \<and> totalCompleted q = succeeded js)"

lemma set_update_ids:
  assumes "distinct (map (\<lambda>(e, _). qe_jobId e) js)" "i < length js" "js ! i = (e, pc)"
  shows "(x, p) \<in> set (js[i := (e', pc')]) \<longleftrightarrow> (x = e' \<and> p = pc') \<or> ((x, p) \<in> set js \<and> qe_jobId x \<noteq> qe_jobId e)"
proof -
  have same: "k = i" if "k < length js" "qe_jobId (fst (js ! k)) = qe_jobId e" for k
    using assms that by (auto simp: distinct_conv_nth split: prod.splits) (metis case_prod_conv prod.collapse fst_conv)
  show ?thesis
  proof
    assume "(x, p) \<in> set (js[i := (e', pc')])"
    then obtain k where n: "k < length js" "js[i := (e', pc')] ! k = (x, p)"
      by (auto simp: in_set_conv_nth)
    then have k: "k < length js" "(if k = i then (e', pc') else js ! k) = (x, p)"
      by (auto simp: nth_list_update split: if_splits)
    then have "k \<noteq> i \<Longrightarrow> js ! k = (x, p)" by simp
    moreover have "k \<noteq> i \<Longrightarrow> qe_jobId x \<noteq> qe_jobId e" using same k calculation by fastforce
    ultimately show "(x = e' \<and> p = pc') \<or> ((x, p) \<in> set js \<and> qe_jobId x \<noteq> qe_jobId e)"
      using k nth_mem [OF n(1)] by (cases "k = i") auto
  next
    assume r: "(x = e' \<and> p = pc') \<or> ((x, p) \<in> set js \<and> qe_jobId x \<noteq> qe_jobId e)"
    then show "(x, p) \<in> set (js[i := (e', pc')])"
    proof
      assume other: "(x, p) \<in> set js \<and> qe_jobId x \<noteq> qe_jobId e"
      then obtain k where k: "k < length js" "js ! k = (x, p)" by (auto simp: in_set_conv_nth)
      then have "k \<noteq> i" using assms(3) other by auto
      with k show ?thesis by (metis length_list_update nth_list_update_neq nth_mem)
    qed (use assms(2) in \<open>auto intro: set_update_memI\<close>)
  qed
qed

lemma in_place_update:
  assumes "distinct (map (\<lambda>(e, _). qe_jobId e) js)" "i < length js" "js ! i = (e, pc)"
  shows "in_place P (js[i := (e', pc')]) = (if pc' \<in> P then {e'} else {}) \<union> {x \<in> in_place P js. qe_jobId x \<noteq> qe_jobId e}"
  using set_update_ids [OF assms] by (auto simp: in_place_def)

lemma in_place_own:
  assumes "distinct (map (\<lambda>(e, _). qe_jobId e) js)" "i < length js" "js ! i = (e, pc)" "x \<in> in_place P js"
  shows "qe_jobId x = qe_jobId e \<longleftrightarrow> x = e \<and> pc \<in> P"
proof -
  obtain p where p: "(x, p) \<in> set js" "p \<in> P" using assms(4) by (auto simp: in_place_def)
  then obtain k where "k < length js" "js ! k = (x, p)" by (auto simp: in_set_conv_nth)
  then have "qe_jobId x = qe_jobId e \<longleftrightarrow> k = i"
    using assms(1-3) by (auto simp: distinct_conv_nth split: prod.splits) (metis case_prod_conv)
  moreover have "x = e \<Longrightarrow> qe_jobId x = qe_jobId e" by simp
  ultimately show ?thesis using \<open>js ! k = (x, p)\<close> assms(3) p(2) by auto
qed

lemma set_without [simp]: "set (without j es) = {x \<in> set es. qe_jobId x \<noteq> j}"
  by (simp add: without_def)

lemma distinct_without [simp]: "distinct es \<Longrightarrow> distinct (without j es)"
  by (simp add: without_def)

lemma succeeded_update:
  assumes "i < length js" "js ! i = (e, pc)" "pc \<noteq> Succeeded"
  shows "succeeded (js[i := (e', pc')]) = succeeded js + (if pc' = Succeeded then 1 else 0)"
proof -
  have js: "js = take i js @ (e, pc) # drop (Suc i) js" using assms id_take_nth_drop by metis
  have "js[i := (e', pc')] = take i js @ (e', pc') # drop (Suc i) js" using assms(1) upd_conv_take_nth_drop by metis
  then show ?thesis using assms(3) by (subst js) (simp add: succeeded_def)
qed

lemma job_move_from: "job_move opts i e pc q e' pc' q' cs \<Longrightarrow> pc \<noteq> Succeeded"
  by (auto elim: job_move.cases)

lemma job_move_shows:
  assumes "job_move opts i e pc q e' pc' q' cs" "queue_shows js q"
    and js: "distinct (map (\<lambda>(e, _). qe_jobId e) js)" "i < length js" "js ! i = (e, pc)"
  shows "queue_shows (js[i := (e', pc')]) q'"
proof -
  note place = in_place_update [OF js]
  note counts = succeeded_update [OF js(2,3) job_move_from [OF assms(1)]]
  have none: "{x \<in> in_place P js. qe_jobId x \<noteq> qe_jobId e} = in_place P js" "e \<notin> in_place P js" if "pc \<notin> P" for P
    using in_place_own [OF js, of _ P] that by auto
  have stays: "insert e {x \<in> in_place P js. qe_jobId x \<noteq> qe_jobId e} = in_place P js" if "pc \<in> P" for P
  proof -
    have "e \<in> in_place P js" using js that by (auto simp: in_place_def in_set_conv_nth)
    then show ?thesis using in_place_own [OF js, of _ P] by auto
  qed
  show ?thesis using assms(1)
  proof cases
    case rejected
    then show ?thesis using assms(2) by (simp add: queue_shows_def place counts none)
  next
    case (delayed d)
    then show ?thesis using assms(2) none(2) [of "{Delayed}"]
      by (auto simp: queue_shows_def place counts none)
  next
    case (queued d)
    then show ?thesis using assms(2) by (simp add: queue_shows_def place counts none)
  next
    case elapsed
    then show ?thesis using assms(2) by (simp add: queue_shows_def place counts none)
  next
    case tick
    then have e': "e' = e\<lparr>receiveCount := receiveCount e + 1\<rparr>"
        "q' = q\<lparr>q_pending := without (qe_jobId e) (q_pending q), q_processing := q_processing q @ [e']\<rparr>"
      by (auto simp: job_tick_def Let_def)
    have "e' \<notin> in_place {Starting, Running} js"
      using in_place_own [OF js, of e' "{Starting, Running}"] tick e'(1) by auto
    then show ?thesis using assms(2) tick e'(1) unfolding e'(2)
      by (auto simp: queue_shows_def place counts none without_def)
  next
    case handle
    then show ?thesis using assms(2) stays [of "{Starting, Running}"]
      by (simp add: queue_shows_def place counts none)
  next
    case returned
    then show ?thesis using assms(2) by (simp add: queue_shows_def place counts none job_returned_def)
  next
    case (retried now msg)
    then have "q' = q\<lparr>q_processing := without (qe_jobId e) (q_processing q)\<rparr>" by (simp add: job_threw_def Let_def)
    then show ?thesis using assms(2) retried by (simp add: queue_shows_def place counts none)
  next
    case (dead now msg)
    then have e': "e' = e\<lparr>failedAt := Some now, lastError := Some msg\<rparr>"
        "q' = q\<lparr>q_processing := without (qe_jobId e) (q_processing q), q_failed := q_failed q @ [e']\<rparr>"
      by (auto simp: job_threw_def Let_def)
    have "e' \<notin> in_place {DeadLettered} js"
      using in_place_own [OF js, of e' "{DeadLettered}"] dead e'(1) by auto
    then show ?thesis using assms(2) dead e'(1) unfolding e'(2)
      by (auto simp: queue_shows_def place counts none)
  qed
qed

lemma queue_shows_own:
  assumes "queue_shows (jobs s) (job_queue s)" "distinct (job_ids s)"
  shows "queue_shows (jobs (job_own opts s i ev)) (job_queue (job_own opts s i ev))"
proof (cases "job_own opts s i ev = s")
  case False
  then obtain e pc e' pc' q' cs where m: "i < length (jobs s)" "jobs s ! i = (e, pc)"
      "job_move opts i e pc (job_queue s) e' pc' q' cs" "job_own opts s i ev = set_job i e' pc' q' cs s"
    by (rule job_own_moves)
  from job_move_shows [OF m(3) assms(1) _ m(1,2)] assms(2) show ?thesis
    unfolding m(4) by (simp add: set_job_def job_ids_def)
qed (use assms in simp)

lemma queue_shows_submit:
  assumes "queue_shows (jobs s) (job_queue s)"
  shows "queue_shows (jobs (job_submit opts p d j now until s)) (job_queue (job_submit opts p d j now until s))"
proof (cases "validatePayload opts p")
  case (Inr u)
  have "in_place P (js @ [(e, Recording d)]) = in_place P js" if "P \<subseteq> {Delayed, Starting, Running, DeadLettered}" for P js e
    using that by (auto simp: in_place_def)
  then show ?thesis using assms Inr by (simp add: job_submit_def Let_def queue_shows_def succeeded_def)
qed (use assms in \<open>simp add: job_submit_def\<close>)

text \<open>Ids are never changed, and only \<open>submit\<close> adds one.\<close>

lemma job_ids_own [simp]: "job_ids (job_own opts s i ev) = job_ids s"
proof (cases "job_own opts s i ev = s")
  case False
  then obtain e pc e' pc' q' cs where m: "i < length (jobs s)" "jobs s ! i = (e, pc)"
      "job_move opts i e pc (job_queue s) e' pc' q' cs" "job_own opts s i ev = set_job i e' pc' q' cs s"
    by (rule job_own_moves)
  have "qe_jobId e' = qe_jobId e" using job_move_advances [OF m(3)] by (simp add: advances_def)
  then show ?thesis unfolding m(4) using m(1,2)
    by (auto simp: job_ids_def set_job_def map_update intro!: list_update_same_conv [THEN iffD2])
qed simp

lemma job_ids_step: "\<exists>js. job_ids (job_step opts s ev) = job_ids s @ js"
  by (cases ev) (auto simp: job_submit_def Let_def job_ids_def [of "s\<lparr>job_queue := _, jobs := _, job_log := _\<rparr>"]
      job_ids_def [of s] split: sum.split)

text \<open>As long as no two jobs draw the same id, the queue an inspector reads shows every job where it
  is and nowhere else: the delayed list holds the jobs whose delay runs, the processing list those
  whose handler is started, the failed list those that have used up their attempts, each once, and the
  counters are the number of jobs submitted and of jobs completed.\<close>

theorem queue_shows_jobs:
  assumes "distinct (job_ids (job_run opts evs))"
  shows "queue_shows (jobs (job_run opts evs)) (job_queue (job_run opts evs))"
  using assms unfolding job_run_def
proof (induction evs rule: rev_induct)
  case Nil
  show ?case by (simp add: job_start_def queue_shows_def in_place_def succeeded_def)
next
  case (snoc ev evs)
  let ?s = "foldl (job_step opts) job_start evs"
  have "distinct (job_ids ?s)" using snoc.prems job_ids_step [of opts ?s ev] by auto
  moreover note snoc.IH [OF this]
  ultimately show ?case by (cases ev) (simp_all add: queue_shows_own queue_shows_submit)
qed

section \<open>Examples\<close>

definition demo_job_options :: job_options where
  "demo_job_options = \<lparr>jq_schema = None, maxRetries = 2, trackStatus = True\<rparr>"

text \<open>One job that fails twice while another is delayed.\<close>

definition demo_job_events :: "job_event list" where
  "demo_job_events =
     [Submit Null 0 ''a'' ''t0'' [], Submit (Bool True) 5 ''b'' ''t0'' ''t5'', Recorded 0 True, Recorded 1 True, Tick 0,
      StatusWritten 0, HandlerThrew 0 ''t1'' ''x'', Tick 0, StatusWritten 0, HandlerReturned 1, HandlerThrew 0 ''t2'' ''y'']"

definition demo_entry :: queue_entry where
  "demo_entry =
     \<lparr>qe_jobId = ''a'', qe_payload = Null, receiveCount = 2, sentAt = ''t0'', delayedUntil = None,
      failedAt = Some ''t2'', lastError = Some ''y''\<rparr>"

definition demo_delayed :: queue_entry where
  "demo_delayed =
     \<lparr>qe_jobId = ''b'', qe_payload = Bool True, receiveCount = 0, sentAt = ''t0'', delayedUntil = Some ''t5'',
      failedAt = None, lastError = None\<rparr>"


theorem queue_shows_jobs_witness:
  "set (q_failed (job_queue (job_run demo_job_options demo_job_events))) = {demo_entry}"
proof -
  have "distinct (job_ids (job_run demo_job_options demo_job_events))" by code_simp
  from queue_shows_jobs [OF this]
  have "set (q_failed (job_queue (job_run demo_job_options demo_job_events)))
      = in_place {DeadLettered} (jobs (job_run demo_job_options demo_job_events))" by (simp add: queue_shows_def)
  moreover have "jobs (job_run demo_job_options demo_job_events) = [(demo_entry, DeadLettered), (demo_delayed, Delayed)]"
    by code_simp
  then have "in_place {DeadLettered} (jobs (job_run demo_job_options demo_job_events)) = {demo_entry}"
    by (auto simp: in_place_def)
  ultimately show ?thesis by simp
qed

text \<open>No list ever holds a job that is due but not started: nothing is put on the pending list.\<close>

lemma pending_never_filled:
  "q_pending (job_queue (job_run demo_job_options [Submit Null 0 ''a'' ''t0'' [], Recorded 0 True])) = []
   \<and> snd (jobs (job_run demo_job_options [Submit Null 0 ''a'' ''t0'' [], Recorded 0 True]) ! 0) = Due"
  by code_simp

section \<open>Batches\<close>

lemma each_valid_all: "each_valid opts ps = Inr u \<Longrightarrow> p \<in> set ps \<Longrightarrow> \<exists>u. validatePayload opts p = Inr u"
  by (induction ps) (auto simp: bindR_def split: sum.splits)

text \<open>Once a batch has passed its checks, no payload of it is refused when it is submitted.\<close>

lemma batch_all_submitted:
  "batch_checks opts ps = Inr u \<Longrightarrow> p \<in> set ps \<Longrightarrow> job_ids (job_submit opts p d j now until s) = job_ids s @ [j]"
  using each_valid_all [of opts ps u p]
  by (auto simp: batch_checks_def job_submit_def Let_def job_ids_def split: if_splits)

end
