(* ===== verification/OidcCookie.thy ===== *)
theory OidcCookie
  imports Rpc TokenCodec
begin

text \<open>
  \<^verbatim>\<open>packages/bb-auth-oidc/src\<close>: \<^verbatim>\<open>session-cookie.ts\<close> (signed cookies), \<^verbatim>\<open>state.ts\<close> (the signed
  \<open>state\<close> parameter) and \<^verbatim>\<open>relay.ts\<close> (which targets a callback may redirect to).  HMAC-SHA256 and the URL
  parser are parameters.  What is signed here is an object with a number \<open>exp\<close>, so only that is compared.
\<close>

section \<open>Signed cookies\<close>

definition ENVELOPE_VERSION :: string where "ENVELOPE_VERSION = ''v1''"
definition PENDING_AUTH_TTL_SECONDS :: int where "PENDING_AUTH_TTL_SECONDS = 600"

definition hmacSign :: "(string \<Rightarrow> string \<Rightarrow> string) \<Rightarrow> string \<Rightarrow> string \<Rightarrow> string" where
  "hmacSign hmac body secret = base64url (hmac secret body)"

definition encodeSignedCookie :: "(string \<Rightarrow> string \<Rightarrow> string) \<Rightarrow> jsval \<Rightarrow> string \<Rightarrow> string" where
  "encodeSignedCookie hmac payload secret =
     (let body = base64url (print_json (json_norm payload));
          sig = hmacSign hmac (ENVELOPE_VERSION @ ''.'' @ body) secret in
      ENVELOPE_VERSION @ ''.'' @ body @ ''.'' @ sig)"

definition decodeSignedCookie :: "(string \<Rightarrow> string \<Rightarrow> string) \<Rightarrow> string \<Rightarrow> string \<Rightarrow> jsval option" where
  "decodeSignedCookie hmac value_text secret =
     (case split_on CHR ''.'' value_text of
        [version, body, sig] \<Rightarrow>
          if version \<noteq> ENVELOPE_VERSION then None
          else if \<not> constantTimeEquals sig (hmacSign hmac (version @ ''.'' @ body) secret) then None
          else json_parse (from_base64url body)
      | _ \<Rightarrow> None)"

definition cookie_expired :: "jsval \<Rightarrow> int \<Rightarrow> bool" where
  "cookie_expired payload nowSeconds = (case get_prop payload ''exp'' of Num e \<Rightarrow> e \<le> nowSeconds | _ \<Rightarrow> False)"

record CookieAttributes =
  ca_path :: string
  ca_sameSite :: string
  ca_secure :: bool
  ca_partitioned :: bool

text \<open>Every caller passes \<open>sameSite\<close> and \<open>httpOnly: true\<close>.\<close>

definition buildSetCookie :: "string \<Rightarrow> string \<Rightarrow> int \<Rightarrow> CookieAttributes \<Rightarrow> string" where
  "buildSetCookie name val maxAge attrs =
     join ''; ''
       ([name @ ''='' @ val,
         if ca_path attrs = [] then ''Path=/'' else ''Path='' @ ca_path attrs,
         ''Max-Age='' @ show_int maxAge]
        @ (if ca_sameSite attrs = [] then [] else [''SameSite='' @ ca_sameSite attrs])
        @ [''HttpOnly'']
        @ (if ca_secure attrs then [''Secure''] else [])
        @ (if ca_partitioned attrs then [''Partitioned''] else []))"

definition buildClearCookie :: "string \<Rightarrow> CookieAttributes \<Rightarrow> string" where
  "buildClearCookie name attrs = buildSetCookie name [] 0 attrs"

fun find_cookie :: "string list \<Rightarrow> string \<Rightarrow> string option" where
  "find_cookie [] name = None"
| "find_cookie (pair # pairs) name =
     (case index_of CHR ''='' pair of
        None \<Rightarrow> find_cookie pairs name
      | Some idx \<Rightarrow> if trim (take idx pair) = name then Some (trim (drop (Suc idx) pair)) else find_cookie pairs name)"

definition readCookie :: "string option \<Rightarrow> string \<Rightarrow> string option" where
  "readCookie cookieHeader name =
     (case cookieHeader of
        None \<Rightarrow> None
      | Some h \<Rightarrow> if h = [] then None else find_cookie (split_on CHR '';'' h) name)"

lemma signed_cookie_decodes:
  assumes "plain p"
  shows "decodeSignedCookie hmac (encodeSignedCookie hmac p secret) secret = Some p"
proof -
  have v: "CHR ''.'' \<notin> set ENVELOPE_VERSION" by (simp add: ENVELOPE_VERSION_def)
  show ?thesis
    using v base64url_no_dot [of "print_json p"] base64url_no_dot [of "hmac secret _"]
    by (simp add: encodeSignedCookie_def decodeSignedCookie_def norm_plain [OF assms] Let_def hmacSign_def
        split_on_sep split_on_no_sep base64url_roundtrip json_parse_print [OF assms])
qed

text \<open>A cookie decodes only under a signature of its own body, in the version it names.\<close>

lemma decoded_cookie_signed:
  assumes "decodeSignedCookie hmac c secret = Some p"
  obtains body where "c = ENVELOPE_VERSION @ ''.'' @ body @ ''.'' @ hmacSign hmac (ENVELOPE_VERSION @ ''.'' @ body) secret"
    "json_parse (from_base64url body) = Some p"
proof -
  obtain version body sig where s: "split_on CHR ''.'' c = [version, body, sig]"
    using assms by (auto simp: decodeSignedCookie_def split: list.splits)
  then have "c = version @ ''.'' @ body @ ''.'' @ sig" using join_split_on [of "CHR 0x2E" c] by simp
  then show thesis using assms s that by (auto simp: decodeSignedCookie_def split: if_splits)
qed

section \<open>The state parameter\<close>

record StatePayload =
  st_csrf :: string
  st_relay :: "string option"
  st_app :: "string option"

datatype state_failure = BadSignature | BadVersion | Malformed

definition opt_prop :: "string \<Rightarrow> string option \<Rightarrow> (string \<times> jsval) list" where
  "opt_prop k x = (case x of None \<Rightarrow> [] | Some s \<Rightarrow> [(k, Str s)])"

definition state_js :: "StatePayload \<Rightarrow> jsval" where
  "state_js p = Obj ([(''v'', Num 1), (''csrf'', Str (st_csrf p))] @ opt_prop ''relay'' (st_relay p) @ opt_prop ''app'' (st_app p))"

definition encodeState :: "(string \<Rightarrow> string \<Rightarrow> string) \<Rightarrow> StatePayload \<Rightarrow> string \<Rightarrow> string" where
  "encodeState hmac payload secret =
     (let body = base64url (print_json (json_norm (state_js payload))) in
      body @ ''.'' @ base64url (hmac secret body))"

definition str_prop :: "jsval \<Rightarrow> string \<Rightarrow> string option" where
  "str_prop v k = (case get_prop v k of Str s \<Rightarrow> Some s | _ \<Rightarrow> None)"

definition validateV1 :: "jsval \<Rightarrow> StatePayload option" where
  "validateV1 raw =
     (if get_prop raw ''v'' \<noteq> Num 1 then None
      else
        (case get_prop raw ''csrf'' of
           Str c \<Rightarrow>
             if c = [] then None
             else Some \<lparr>st_csrf = c, st_relay = str_prop raw ''relay'', st_app = str_prop raw ''app''\<rparr>
         | _ \<Rightarrow> None))"

definition decodeState :: "(string \<Rightarrow> string \<Rightarrow> string) \<Rightarrow> string \<Rightarrow> string \<Rightarrow> (state_failure, StatePayload) res" where
  "decodeState hmac envelope secret =
     (case index_of CHR ''.'' envelope of
        None \<Rightarrow> Inl Malformed
      | Some dotIdx \<Rightarrow>
          if dotIdx = 0 \<or> dotIdx = length envelope - 1 then Inl Malformed
          else
            (let body = take dotIdx envelope; sig = drop (Suc dotIdx) envelope in
             if CHR ''.'' \<in> set sig then Inl Malformed
             else if \<not> constantTimeEquals sig (base64url (hmac secret body)) then Inl BadSignature
             else
               (case json_parse (from_base64url body) of
                  None \<Rightarrow> Inl Malformed
                | Some parsed \<Rightarrow>
                    if \<not> is_object parsed then Inl Malformed
                    else if get_prop parsed ''v'' = Num 1
                    then (case validateV1 parsed of None \<Rightarrow> Inl Malformed | Some p \<Rightarrow> Inr p)
                    else
                      (case get_prop parsed ''v'' of
                         Num _ \<Rightarrow> Inl BadVersion
                       | Str _ \<Rightarrow> Inl BadVersion
                       | _ \<Rightarrow> Inl Malformed))))"

lemma state_js_plain: "plain (state_js p)"
  by (auto simp: state_js_def opt_prop_def split: option.splits)

lemma state_js_get:
  "get_prop (state_js p) ''v'' = Num 1" "get_prop (state_js p) ''csrf'' = Str (st_csrf p)"
  "str_prop (state_js p) ''relay'' = st_relay p" "str_prop (state_js p) ''app'' = st_app p"
  by (auto simp: state_js_def opt_prop_def str_prop_def split: option.splits)

lemma state_decodes:
  assumes "st_csrf p \<noteq> []" "\<And>m. hmac secret m \<noteq> []"
  shows "decodeState hmac (encodeState hmac p secret) secret = Inr p"
proof -
  let ?body = "base64url (print_json (state_js p))"
  have body: "CHR ''.'' \<notin> set ?body" "?body \<noteq> []" by (simp_all add: base64url_no_dot print_json_nonempty)
  have e: "encodeState hmac p secret = ?body @ CHR ''.'' # base64url (hmac secret ?body)"
    by (simp add: encodeState_def norm_plain [OF state_js_plain] Let_def)
  have "is_object (state_js p)" by (simp add: state_js_def is_object_def)
  then show ?thesis using assms body base64url_no_dot [of "hmac secret ?body"] unfolding e
    by (simp add: decodeState_def base64url_roundtrip json_parse_print [OF state_js_plain] state_js_get validateV1_def)
qed

lemma decoded_state_signed:
  assumes "decodeState hmac envelope secret = Inr p"
  obtains body where "envelope = body @ ''.'' @ base64url (hmac secret body)"
    "validateV1 (the (json_parse (from_base64url body))) = Some p"
proof -
  obtain i where i: "index_of CHR ''.'' envelope = Some i" using assms by (auto simp: decodeState_def split: option.splits)
  then have s: "envelope = take i envelope @ ''.'' @ drop (Suc i) envelope"
    using index_of_Some_split by fastforce
  then show thesis using assms i that [of "take i envelope"]
    by (auto simp: decodeState_def Let_def split: if_splits option.splits jsval.splits)
qed

section \<open>Relay targets\<close>

text \<open>What \<open>new URL\<close> gives; \<open>None\<close> when it throws.\<close>

record url_parts =
  up_protocol :: string
  up_username :: string
  up_password :: string
  up_hostname :: string
  up_port :: string
  up_pathname :: string
  up_search :: string
  up_hash :: string

type_synonym url_parser = "string \<Rightarrow> url_parts option"

record ParsedOrigin =
  po_scheme :: string
  po_host :: string
  po_port :: "nat option"

datatype relay_reason = MalformedUri | UnknownOrigin | PlaintextNonLoopback

definition relayConfigError :: "string \<Rightarrow> thrown" where
  "relayConfigError message = brandBlocksError (set_err_name ''RelayConfigError'' (new_Error message))"

definition relayOrigin :: "url_parser \<Rightarrow> string \<Rightarrow> (thrown, string) res" where
  "relayOrigin parse uri =
     (if uri = [] then Inl (relayConfigError ''relayOrigin requires a non-empty string'')
      else
        (case parse uri of
           None \<Rightarrow> Inl (relayConfigError (''relayOrigin: not a valid URI: '' @ uri))
         | Some p \<Rightarrow>
             if up_pathname p \<noteq> [] \<and> up_pathname p \<noteq> ''/''
             then Inl (relayConfigError (''relayOrigin: path components are not allowed (got '' @ print_json (Str (up_pathname p))
                         @ '' in '' @ uri @ ''). Allowlist entries are scheme + authority only; paths come from the SDK''
                         @ [CHR 0x27] @ ''s relayTo at sign-in.''))
             else if up_search p \<noteq> []
             then Inl (relayConfigError (''relayOrigin: query components are not allowed (got '' @ up_search p @ '' in '' @ uri @ '')''))
             else if up_hash p \<noteq> []
             then Inl (relayConfigError (''relayOrigin: fragments are not allowed (got '' @ up_hash p @ '' in '' @ uri @ '')''))
             else if up_username p \<noteq> [] \<or> up_password p \<noteq> []
             then Inl (relayConfigError (''relayOrigin: userinfo (user:pass@) is not allowed in '' @ uri))
             else if butlast (up_protocol p) = [] then Inl (relayConfigError (''relayOrigin: missing scheme in '' @ uri))
             else if up_hostname p = [] then Inl (relayConfigError (''relayOrigin: missing host in '' @ uri))
             else if up_hostname p = ''localhost''
             then Inl (relayConfigError (''relayOrigin: '' @ [CHR 0x27] @ ''localhost'' @ [CHR 0x27]
                         @ '' is not allowed; loopback (127.0.0.1, [::1]) is implicitly allowed without an entry''))
             else Inr uri))"

text \<open>The parser gives a port as decimal digits, or nothing.\<close>

definition parseOrigin :: "url_parser \<Rightarrow> string \<Rightarrow> ParsedOrigin option" where
  "parseOrigin parse uri =
     (if uri = [] then None
      else
        (case parse uri of
           None \<Rightarrow> None
         | Some p \<Rightarrow>
             if up_hostname p = [] \<or> butlast (up_protocol p) = [] then None
             else if up_port p \<noteq> [] \<and> (\<not> list_all is_digit (up_port p) \<or> read_nat (up_port p) > 65535) then None
             else Some \<lparr>po_scheme = to_lower (butlast (up_protocol p)), po_host = to_lower (up_hostname p),
                        po_port = (if up_port p = [] then None else Some (read_nat (up_port p)))\<rparr>))"

definition RELAY_LOOPBACK_HOSTS :: "string list" where
  "RELAY_LOOPBACK_HOSTS = [''127.0.0.1'', ''[::1]'']"

definition originsEqual :: "ParsedOrigin \<Rightarrow> ParsedOrigin \<Rightarrow> bool" where
  "originsEqual a b = (po_scheme a = po_scheme b \<and> po_host a = po_host b \<and> (po_port a = None \<or> po_port a = po_port b))"

definition in_allow_list :: "url_parser \<Rightarrow> string list \<Rightarrow> ParsedOrigin \<Rightarrow> bool" where
  "in_allow_list parse allowList candidate =
     list_ex (\<lambda>e. case parseOrigin parse e of None \<Rightarrow> False | Some o' \<Rightarrow> originsEqual o' candidate) allowList"

definition validateRelay :: "url_parser \<Rightarrow> string \<Rightarrow> string list \<Rightarrow> string option \<Rightarrow> (relay_reason, unit) res" where
  "validateRelay parse uri allowList sameOrigin =
     (case parseOrigin parse uri of
        None \<Rightarrow> Inl MalformedUri
      | Some candidate \<Rightarrow>
          if po_host candidate \<in> set RELAY_LOOPBACK_HOSTS
          then if po_scheme candidate \<noteq> ''http'' then Inl PlaintextNonLoopback else Inr ()
          else if (case sameOrigin of
                     None \<Rightarrow> False
                   | Some s \<Rightarrow> (case parseOrigin parse s of None \<Rightarrow> False | Some so \<Rightarrow> originsEqual so candidate))
          then Inr ()
          else if po_scheme candidate = ''http'' then Inl PlaintextNonLoopback
          else if in_allow_list parse allowList candidate then Inr ()
          else Inl UnknownOrigin)"

text \<open>Where an accepted target points: the client's own machine, the host of the request, or an entry of the list.\<close>

definition relay_safe :: "url_parser \<Rightarrow> string list \<Rightarrow> string \<Rightarrow> string \<Rightarrow> bool" where
  "relay_safe parse allowList requestUrl target =
     (\<exists>c. parseOrigin parse target = Some c
        \<and> ((po_scheme c = ''http'' \<and> po_host c \<in> {''127.0.0.1'', ''[::1]''})
           \<or> (\<exists>s. parseOrigin parse requestUrl = Some s \<and> po_scheme s = po_scheme c \<and> po_host s = po_host c)
           \<or> (po_scheme c \<noteq> ''http'' \<and> (\<exists>e \<in> set allowList. \<exists>a. parseOrigin parse e = Some a \<and> po_scheme a = po_scheme c
                \<and> po_host a = po_host c \<and> (po_port a = None \<or> po_port a = po_port c)))))"

lemma validated_relay_safe:
  assumes "validateRelay parse target allowList (Some requestUrl) = Inr u"
  shows "relay_safe parse allowList requestUrl target"
proof -
  obtain c where c: "parseOrigin parse target = Some c" using assms by (auto simp: validateRelay_def split: option.splits)
  consider "po_scheme c = ''http''" "po_host c \<in> {''127.0.0.1'', ''[::1]''}"
    | s where "parseOrigin parse requestUrl = Some s" "originsEqual s c"
    | "po_scheme c \<noteq> ''http''" "in_allow_list parse allowList c"
    using assms c by (auto simp: validateRelay_def RELAY_LOOPBACK_HOSTS_def split: option.splits if_splits)
  then show ?thesis
    by cases (use c in \<open>auto simp: relay_safe_def originsEqual_def in_allow_list_def list_ex_iff split: option.splits\<close>)
qed

end
