(* ===== verification/OidcSession.thy ===== *)
theory OidcSession
  imports OidcCookie KvStore
begin

text \<open>
  \<^verbatim>\<open>packages/bb-auth-oidc/src/engines/session-manager.ts\<close>: sessions in a store that all containers
  share.  Every store access of a call is a step of its own, every clock may show anything, and the answer of
  the identity provider comes from outside.  \<open>signOutSession\<close> deletes without a condition, so its read is
  taken with the delete.  Console output is not modelled.
\<close>

section \<open>Rows and users\<close>

datatype row_state = Ready | Refreshing | Expired

record SessionRow =
  sr_userId :: string
  sr_refreshToken :: string
  sr_expiresAt :: int
  sr_claims :: jsval
  sr_state :: row_state
  refreshingSince :: "int option"

record OIDCUser =
  ou_userId :: string
  ou_username :: string
  ou_provider :: string
  ou_sub :: string
  ou_iss :: string
  ou_email :: "string option"
  ou_name :: "string option"
  ou_claims :: jsval

fun row_state_text :: "row_state \<Rightarrow> string" where
  "row_state_text Ready = ''ready''"
| "row_state_text Refreshing = ''refreshing''"
| "row_state_text Expired = ''expired''"

definition row_state_of :: "string \<Rightarrow> row_state option" where
  "row_state_of s =
     (if s = ''ready'' then Some Ready else if s = ''refreshing'' then Some Refreshing
      else if s = ''expired'' then Some Expired else None)"

definition row_js :: "SessionRow \<Rightarrow> jsval" where
  "row_js r = Obj ([(''userId'', Str (sr_userId r)), (''refreshToken'', Str (sr_refreshToken r)),
     (''expiresAt'', Num (sr_expiresAt r)), (''claims'', sr_claims r), (''state'', Str (row_state_text (sr_state r)))]
     @ (case refreshingSince r of None \<Rightarrow> [] | Some t \<Rightarrow> [(''refreshingSince'', Num t)]))"

text \<open>Reading a stored object at its declared type.\<close>

definition row_of_js :: "jsval \<Rightarrow> SessionRow option" where
  "row_of_js v =
     (case (get_prop v ''userId'', get_prop v ''refreshToken'', get_prop v ''expiresAt'', get_prop v ''state'') of
        (Str u, Str t, Num e, Str s) \<Rightarrow>
          map_option (\<lambda>st. \<lparr>sr_userId = u, sr_refreshToken = t, sr_expiresAt = e, sr_claims = get_prop v ''claims'',
              sr_state = st, refreshingSince = (case get_prop v ''refreshingSince'' of Num n \<Rightarrow> Some n | _ \<Rightarrow> None)\<rparr>)
            (row_state_of s)
      | _ \<Rightarrow> None)"

definition statefulRowToUser :: "SessionRow \<Rightarrow> string \<Rightarrow> OIDCUser" where
  "statefulRowToUser row providerName =
     (let claims = sr_claims row;
          sub = opt_or (str_prop claims ''sub'') (last (split_on CHR '':'' (sr_userId row)));
          iss = opt_or (str_prop claims ''iss'') (hd (split_on CHR '':'' (sr_userId row)));
          email = str_prop claims ''email'';
          name = str_prop claims ''name'' in
      \<lparr>ou_userId = sr_userId row, ou_username = opt_or name (opt_or email sub), ou_provider = providerName, ou_sub = sub,
       ou_iss = iss, ou_email = email, ou_name = name, ou_claims = claims\<rparr>)"

section \<open>Cookies of a session\<close>

record SessionOptions =
  so_hmac :: "string \<Rightarrow> string \<Rightarrow> string"
  so_cookieSecret :: string
  so_prefix :: string
  so_attributes :: CookieAttributes
  staleLockTimeoutMs :: "int option"

definition sessionCookieName :: "string \<Rightarrow> string" where "sessionCookieName pre = pre @ ''_session''"
definition pendingCookieName :: "string \<Rightarrow> string" where "pendingCookieName pre = pre @ ''_pending''"

definition stale_timeout :: "SessionOptions \<Rightarrow> int" where
  "stale_timeout opts = (case staleLockTimeoutMs opts of None \<Rightarrow> 30000 | Some t \<Rightarrow> t)"

definition read_signed :: "SessionOptions \<Rightarrow> string \<Rightarrow> string option \<Rightarrow> jsval option" where
  "read_signed opts name header =
     (case readCookie header name of
        None \<Rightarrow> None
      | Some raw \<Rightarrow>
          if raw = [] then None
          else
            (case decodeSignedCookie (so_hmac opts) raw (so_cookieSecret opts) of
               None \<Rightarrow> None
             | Some payload \<Rightarrow> if truthy payload then Some payload else None))"

text \<open>The session a request names.  \<open>forceRefresh\<close> and \<open>signOutSession\<close> do not look at the expiry; a
  payload without a session id finds no row.\<close>

definition cookie_session :: "SessionOptions \<Rightarrow> bool \<Rightarrow> int \<Rightarrow> string option \<Rightarrow> (string \<times> string) option" where
  "cookie_session opts expiry now header =
     (case read_signed opts (sessionCookieName (so_prefix opts)) header of
        None \<Rightarrow> None
      | Some payload \<Rightarrow>
          if expiry \<and> cookie_expired payload (now div 1000) then None
          else
            (case (get_prop payload ''sessionId'', get_prop payload ''provider'') of
               (Str sid, Str provider) \<Rightarrow> Some (sid, provider)
             | _ \<Rightarrow> None))"

definition readPendingAuth :: "SessionOptions \<Rightarrow> int \<Rightarrow> string option \<Rightarrow> jsval option" where
  "readPendingAuth opts now header =
     (case read_signed opts (pendingCookieName (so_prefix opts)) header of
        None \<Rightarrow> None
      | Some payload \<Rightarrow> if cookie_expired payload (now div 1000) then None else Some payload)"

definition buildPendingAuthCookie :: "SessionOptions \<Rightarrow> jsval \<Rightarrow> string" where
  "buildPendingAuthCookie opts pending =
     buildSetCookie (pendingCookieName (so_prefix opts)) (encodeSignedCookie (so_hmac opts) pending (so_cookieSecret opts))
       PENDING_AUTH_TTL_SECONDS (so_attributes opts)"

definition clearPendingAuthCookie :: "SessionOptions \<Rightarrow> string" where
  "clearPendingAuthCookie opts = buildClearCookie (pendingCookieName (so_prefix opts)) (so_attributes opts)"

definition clearSessionCookie :: "SessionOptions \<Rightarrow> string" where
  "clearSessionCookie opts = buildClearCookie (sessionCookieName (so_prefix opts)) (so_attributes opts)"

definition session_cookie_payload :: "string \<Rightarrow> string \<Rightarrow> int \<Rightarrow> jsval" where
  "session_cookie_payload provider sid cookieExp =
     Obj [(''mode'', Str ''stateful''), (''provider'', Str provider), (''sessionId'', Str sid), (''exp'', Num cookieExp)]"

definition session_value :: "SessionOptions \<Rightarrow> string \<Rightarrow> string \<Rightarrow> int \<Rightarrow> string" where
  "session_value opts provider sid now =
     encodeSignedCookie (so_hmac opts) (session_cookie_payload provider sid (now div 1000 + 30 * 24 * 3600)) (so_cookieSecret opts)"

definition setSessionCookie :: "SessionOptions \<Rightarrow> string \<Rightarrow> string \<Rightarrow> int \<Rightarrow> string" where
  "setSessionCookie opts provider sid now =
     buildSetCookie (sessionCookieName (so_prefix opts)) (session_value opts provider sid now)
       (max 0 ((now div 1000 + 30 * 24 * 3600) - now div 1000)) (so_attributes opts)"

text \<open>The row \<open>writeStatefulSession\<close> puts under a fresh id.\<close>

definition new_session_row :: "OIDCUser \<Rightarrow> string option \<Rightarrow> int \<Rightarrow> SessionRow" where
  "new_session_row user refreshToken now =
     \<lparr>sr_userId = ou_userId user, sr_refreshToken = opt_or refreshToken [],
      sr_expiresAt = (case get_prop (ou_claims user) ''exp'' of Num e \<Rightarrow> e | _ \<Rightarrow> now div 1000 + 3600),
      sr_claims = ou_claims user, sr_state = Ready, refreshingSince = None\<rparr>"

section \<open>Calls, one store access at a time\<close>

datatype row_cond = IfNotExists | IfValueEquals SessionRow

text \<open>
  Where a call stands: about to read the row, holding the row it read, waiting for the refresh of another
  call of its container, about to take the lease, holding it while the provider is asked, about to write the
  outcome, about to read what won, waiting for the holder until a deadline, about to poll, or returned.
\<close>

datatype session_pc =
    Reading
  | Got SessionRow
  | Joined nat
  | Locking SessionRow SessionRow
  | Holding SessionRow SessionRow
  | Expiring SessionRow
  | Storing SessionRow SessionRow
  | ReReading
  | Waiting int
  | Polling int
  | Answered "OIDCUser option"
  | Threw thrown

record session_call =
  sc_container :: nat
  sc_force :: bool
  sc_sid :: string
  sc_provider :: string
  sc_pc :: session_pc

text \<open>What happens at the store and the identity provider, with the call that does it.\<close>

datatype session_event =
    Created string SessionRow
  | Leased nat string int SessionRow
  | Asked nat string string
  | Renewed nat string SessionRow
  | Spoiled nat string
  | Deleted string

text \<open>What the refresh at the provider gives: a token, an expiry and claims; \<open>None\<close> when it throws.\<close>

type_synonym refresh_answer = "(string \<times> int \<times> jsval) option"

definition locked_row :: "SessionRow \<Rightarrow> int \<Rightarrow> SessionRow" where
  "locked_row row now = row\<lparr>sr_state := Refreshing, refreshingSince := Some now\<rparr>"

definition doRefresh_start :: "SessionOptions \<Rightarrow> int \<Rightarrow> SessionRow \<Rightarrow> session_pc" where
  "doRefresh_start opts now row =
     (let age = now - opt_or (refreshingSince row) 0 in
      if sr_state row = Refreshing \<and> age < stale_timeout opts then Waiting (now + (stale_timeout opts - age))
      else Locking row (locked_row row now))"

definition renewed_row :: "SessionRow \<Rightarrow> string \<times> int \<times> jsval \<Rightarrow> SessionRow" where
  "renewed_row row result =
     (case result of (token, ex, claims) \<Rightarrow>
        \<lparr>sr_userId = sr_userId row, sr_refreshToken = token, sr_expiresAt = ex, sr_claims = claims, sr_state = Ready,
         refreshingSince = None\<rparr>)"

definition expired_row :: "SessionRow \<Rightarrow> SessionRow" where
  "expired_row locked = locked\<lparr>sr_state := Expired, refreshingSince := None\<rparr>"

definition read_outcome :: "string \<Rightarrow> SessionRow option \<Rightarrow> session_pc" where
  "read_outcome provider refreshed =
     (case refreshed of
        None \<Rightarrow> Answered None
      | Some r \<Rightarrow> if sr_state r \<noteq> Ready then Answered None else Answered (Some (statefulRowToUser r provider)))"

definition poll_outcome :: "string \<Rightarrow> int \<Rightarrow> SessionRow option \<Rightarrow> session_pc" where
  "poll_outcome provider deadline refreshed =
     (case refreshed of
        None \<Rightarrow> Answered None
      | Some r \<Rightarrow>
          if sr_state r = Ready then Answered (Some (statefulRowToUser r provider))
          else if sr_state r = Expired then Answered None
          else Waiting deadline)"

type_synonym 's row_getter = "string \<Rightarrow> 's \<Rightarrow> 's \<times> (thrown, SessionRow option) res"
type_synonym 's row_putter = "string \<Rightarrow> SessionRow \<Rightarrow> row_cond option \<Rightarrow> 's \<Rightarrow> 's \<times> (thrown, unit) res"
type_synonym 's row_deleter = "string \<Rightarrow> 's \<Rightarrow> 's \<times> (thrown, unit) res"

definition read_then :: "'s row_getter \<Rightarrow> string \<Rightarrow> (SessionRow option \<Rightarrow> session_pc) \<Rightarrow> 's \<Rightarrow> 's \<times> session_pc \<times> session_event list" where
  "read_then get sid k s =
     (case get sid s of
        (s', Inl e) \<Rightarrow> (s', Threw e, [])
      | (s', Inr r) \<Rightarrow> (s', k r, []))"

fun own_step :: "'s row_getter \<Rightarrow> 's row_putter \<Rightarrow> int \<Rightarrow> refresh_answer \<Rightarrow> nat \<Rightarrow> string \<Rightarrow> string \<Rightarrow> 's \<Rightarrow> session_pc
    \<Rightarrow> 's \<times> session_pc \<times> session_event list" where
  "own_step get put now answer i sid provider s Reading =
     read_then get sid (\<lambda>r. case r of None \<Rightarrow> Answered None | Some row \<Rightarrow> Got row) s"
| "own_step get put now answer i sid provider s (Locking row locked) =
     (case put sid locked (Some (IfValueEquals row)) s of
        (s', Inl _) \<Rightarrow> (s', ReReading, [])
      | (s', Inr _) \<Rightarrow> (s', Holding row locked, [Leased i sid (the (refreshingSince locked)) row]))"
| "own_step get put now answer i sid provider s (Holding row locked) =
     (s, case answer of None \<Rightarrow> Expiring locked | Some result \<Rightarrow> Storing locked (renewed_row row result),
      [Asked i sid (sr_refreshToken row)])"
| "own_step get put now answer i sid provider s (Expiring locked) =
     (case put sid (expired_row locked) (Some (IfValueEquals locked)) s of
        (s', Inl _) \<Rightarrow> (s', Answered None, [])
      | (s', Inr _) \<Rightarrow> (s', Answered None, [Spoiled i sid]))"
| "own_step get put now answer i sid provider s (Storing locked row) =
     (case put sid row (Some (IfValueEquals locked)) s of
        (s', Inl _) \<Rightarrow> (s', ReReading, [])
      | (s', Inr _) \<Rightarrow> (s', Answered (Some (statefulRowToUser row provider)), [Renewed i sid row]))"
| "own_step get put now answer i sid provider s ReReading = read_then get sid (read_outcome provider) s"
| "own_step get put now answer i sid provider s (Waiting deadline) =
     (s, if now < deadline then Polling deadline else Answered None, [])"
| "own_step get put now answer i sid provider s (Polling deadline) = read_then get sid (poll_outcome provider deadline) s"
| "own_step get put now answer i sid provider s pc = (s, pc, [])"

text \<open>The attempt a container registers in \<open>refreshInFlight\<close>; \<open>finally\<close> removes it when it returns.\<close>

definition attempting :: "session_pc \<Rightarrow> bool" where
  "attempting pc =
     (case pc of
        Locking _ _ \<Rightarrow> True | Holding _ _ \<Rightarrow> True | Expiring _ \<Rightarrow> True | Storing _ _ \<Rightarrow> True | ReReading \<Rightarrow> True
      | Waiting _ \<Rightarrow> True | Polling _ \<Rightarrow> True | _ \<Rightarrow> False)"

record 's session_sys =
  ss_store :: 's
  refreshInFlight :: "nat \<times> string \<Rightarrow> nat option"
  ss_calls :: "session_call list"

definition set_pc :: "nat \<Rightarrow> session_pc \<Rightarrow> session_call list \<Rightarrow> session_call list" where
  "set_pc i pc cs = cs[i := (cs ! i)\<lparr>sc_pc := pc\<rparr>]"

text \<open>The code between the read of the row and the next wait.\<close>

definition got_row :: "SessionOptions \<Rightarrow> int \<Rightarrow> nat \<Rightarrow> session_call \<Rightarrow> SessionRow \<Rightarrow> 's session_sys \<Rightarrow> 's session_sys" where
  "got_row opts now i c row sys =
     (if \<not> sc_force c \<and> sr_state row = Expired then sys\<lparr>ss_calls := set_pc i (Answered None) (ss_calls sys)\<rparr>
      else if \<not> sc_force c \<and> sr_expiresAt row > now div 1000
      then sys\<lparr>ss_calls := set_pc i (Answered (Some (statefulRowToUser row (sc_provider c)))) (ss_calls sys)\<rparr>
      else
        (case refreshInFlight sys (sc_container c, sc_sid c) of
           Some k \<Rightarrow> sys\<lparr>ss_calls := set_pc i (Joined k) (ss_calls sys)\<rparr>
         | None \<Rightarrow>
             sys\<lparr>refreshInFlight := (refreshInFlight sys)((sc_container c, sc_sid c) \<mapsto> i),
                 ss_calls := set_pc i (doRefresh_start opts now row) (ss_calls sys)\<rparr>))"

definition advance :: "'s row_getter \<Rightarrow> 's row_putter \<Rightarrow> SessionOptions \<Rightarrow> int \<Rightarrow> refresh_answer \<Rightarrow> nat \<Rightarrow> 's session_sys
    \<Rightarrow> 's session_sys \<times> session_event list" where
  "advance get put opts now answer i sys =
     (if length (ss_calls sys) \<le> i then (sys, [])
      else
        (let c = ss_calls sys ! i in
         case sc_pc c of
           Got row \<Rightarrow> (got_row opts now i c row sys, [])
         | Joined k \<Rightarrow>
             (sys\<lparr>ss_calls := set_pc i (case sc_pc (ss_calls sys ! k) of
                Answered r \<Rightarrow> Answered r | Threw e \<Rightarrow> Threw e | _ \<Rightarrow> Joined k) (ss_calls sys)\<rparr>, [])
         | pc \<Rightarrow>
             (case own_step get put now answer i (sc_sid c) (sc_provider c) (ss_store sys) pc of
                (s', pc', evs) \<Rightarrow>
                  (sys\<lparr>ss_store := s',
                       refreshInFlight := (if attempting pc \<and> \<not> attempting pc'
                         then (refreshInFlight sys)((sc_container c, sc_sid c) := None) else refreshInFlight sys),
                       ss_calls := set_pc i pc' (ss_calls sys)\<rparr>, evs))))"

text \<open>The runs: sign-ins, requests and sign-outs arrive and calls take their steps, in any order.\<close>

datatype session_act =
    SignIn string OIDCUser "string option" int
  | Request nat bool int "string option"
  | SignOut "string option"
  | Run nat int refresh_answer

fun session_do :: "'s row_getter \<Rightarrow> 's row_putter \<Rightarrow> 's row_deleter \<Rightarrow> SessionOptions \<Rightarrow> 's session_sys \<Rightarrow> session_act
    \<Rightarrow> 's session_sys \<times> session_event list" where
  "session_do get put del opts sys (SignIn sid user token now) =
     (case put sid (new_session_row user token now) (Some IfNotExists) (ss_store sys) of
        (s', Inl _) \<Rightarrow> (sys\<lparr>ss_store := s'\<rparr>, [])
      | (s', Inr _) \<Rightarrow> (sys\<lparr>ss_store := s'\<rparr>, [Created sid (new_session_row user token now)]))"
| "session_do get put del opts sys (Request container force now header) =
     (case cookie_session opts (\<not> force) now header of
        None \<Rightarrow> (sys, [])
      | Some (sid, provider) \<Rightarrow>
          (sys\<lparr>ss_calls := ss_calls sys @
             [\<lparr>sc_container = container, sc_force = force, sc_sid = sid, sc_provider = provider, sc_pc = Reading\<rparr>]\<rparr>, []))"
| "session_do get put del opts sys (SignOut header) =
     (case cookie_session opts False 0 header of
        None \<Rightarrow> (sys, [])
      | Some (sid, _) \<Rightarrow>
          (case get sid (ss_store sys) of
             (s1, Inl _) \<Rightarrow> (sys\<lparr>ss_store := s1\<rparr>, [])
           | (s1, Inr _) \<Rightarrow>
               (case del sid s1 of
                  (s2, Inl _) \<Rightarrow> (sys\<lparr>ss_store := s2\<rparr>, [])
                | (s2, Inr _) \<Rightarrow> (sys\<lparr>ss_store := s2\<rparr>, [Deleted sid]))))"
| "session_do get put del opts sys (Run i now answer) = advance get put opts now answer i sys"

fun session_run :: "'s row_getter \<Rightarrow> 's row_putter \<Rightarrow> 's row_deleter \<Rightarrow> SessionOptions \<Rightarrow> 's session_sys \<Rightarrow> session_act list
    \<Rightarrow> 's session_sys \<times> session_event list" where
  "session_run get put del opts sys [] = (sys, [])"
| "session_run get put del opts sys (a # acts) =
     (case session_do get put del opts sys a of
        (sys', evs) \<Rightarrow> (case session_run get put del opts sys' acts of (sys'', evs') \<Rightarrow> (sys'', evs @ evs')))"

definition sessions_start :: "'s \<Rightarrow> 's session_sys" where
  "sessions_start s = \<lparr>ss_store = s, refreshInFlight = (\<lambda>_. None), ss_calls = []\<rparr>"

text \<open>Claims are parsed JSON.\<close>

fun act_ok :: "session_act \<Rightarrow> bool" where
  "act_ok (SignIn sid user token now) = plain (ou_claims user)"
| "act_ok (Run i now (Some (token, ex, claims))) = plain claims"
| "act_ok _ = True"

section \<open>The log of a session\<close>

text \<open>What an event makes of the rows, and when it may happen.\<close>

fun apply_event :: "(string \<Rightarrow> SessionRow option) \<Rightarrow> session_event \<Rightarrow> string \<Rightarrow> SessionRow option" where
  "apply_event f (Created sid r) = f(sid \<mapsto> r)"
| "apply_event f (Leased i sid t row) = f(sid \<mapsto> locked_row row t)"
| "apply_event f (Asked i sid token) = f"
| "apply_event f (Renewed i sid r) = f(sid \<mapsto> r)"
| "apply_event f (Spoiled i sid) = f(sid := map_option expired_row (f sid))"
| "apply_event f (Deleted sid) = f(sid := None)"

definition leasable :: "SessionOptions \<Rightarrow> SessionRow \<Rightarrow> int \<Rightarrow> bool" where
  "leasable opts row t = (sr_state row = Refreshing \<longrightarrow> t - opt_or (refreshingSince row) 0 \<ge> stale_timeout opts)"

definition is_refreshing :: "SessionRow option \<Rightarrow> bool" where
  "is_refreshing r = (case r of None \<Rightarrow> False | Some row \<Rightarrow> sr_state row = Refreshing)"

fun allowed :: "SessionOptions \<Rightarrow> (string \<Rightarrow> SessionRow option) \<Rightarrow> session_event \<Rightarrow> bool" where
  "allowed opts f (Created sid r) = (f sid = None \<and> sr_state r = Ready)"
| "allowed opts f (Leased i sid t row) = (f sid = Some row \<and> leasable opts row t)"
| "allowed opts f (Asked i sid token) = True"
| "allowed opts f (Renewed i sid r) = (is_refreshing (f sid) \<and> sr_state r = Ready)"
| "allowed opts f (Spoiled i sid) = is_refreshing (f sid)"
| "allowed opts f (Deleted sid) = True"

definition replay :: "session_event list \<Rightarrow> string \<Rightarrow> SessionRow option" where
  "replay evs = foldl apply_event (\<lambda>_. None) evs"

fun legal :: "SessionOptions \<Rightarrow> (string \<Rightarrow> SessionRow option) \<Rightarrow> session_event list \<Rightarrow> bool" where
  "legal opts f [] = True"
| "legal opts f (ev # evs) = (allowed opts f ev \<and> legal opts (apply_event f ev) evs)"

lemma replay_append: "replay (xs @ ys) = foldl apply_event (replay xs) ys"
  by (simp add: replay_def)

lemma legal_append: "legal opts f (xs @ ys) \<longleftrightarrow> legal opts f xs \<and> legal opts (foldl apply_event f xs) ys"
  by (induction xs arbitrary: f) simp_all

fun event_sid :: "session_event \<Rightarrow> string" where
  "event_sid (Created sid r) = sid"
| "event_sid (Leased i sid t row) = sid"
| "event_sid (Asked i sid token) = sid"
| "event_sid (Renewed i sid r) = sid"
| "event_sid (Spoiled i sid) = sid"
| "event_sid (Deleted sid) = sid"

fun event_call :: "session_event \<Rightarrow> nat option" where
  "event_call (Leased i sid t row) = Some i"
| "event_call (Asked i sid token) = Some i"
| "event_call (Renewed i sid r) = Some i"
| "event_call (Spoiled i sid) = Some i"
| "event_call _ = None"

text \<open>An event that ends a lease.\<close>

fun ends_lease :: "string \<Rightarrow> session_event \<Rightarrow> bool" where
  "ends_lease sid (Created s r) = (s = sid)"
| "ends_lease sid (Renewed i s r) = (s = sid)"
| "ends_lease sid (Spoiled i s) = (s = sid)"
| "ends_lease sid (Deleted s) = (s = sid)"
| "ends_lease sid _ = False"

text \<open>While none of these happens after a lease, the row stays leased, by it or by a later one.\<close>

lemma lease_stays:
  assumes "legal opts f evs" "f sid = Some row" "sr_state row = Refreshing" "refreshingSince row = Some t"
    and "0 \<le> stale_timeout opts" "\<forall>ev \<in> set evs. \<not> ends_lease sid ev"
  shows "\<exists>row' t'. foldl apply_event f evs sid = Some row' \<and> sr_state row' = Refreshing \<and> refreshingSince row' = Some t' \<and> t \<le> t'"
  using assms
proof (induction evs arbitrary: f row t)
  case (Cons ev evs)
  have "\<exists>row' t'. apply_event f ev sid = Some row' \<and> sr_state row' = Refreshing \<and> refreshingSince row' = Some t' \<and> t \<le> t'"
    using Cons.prems by (cases ev) (auto simp: locked_row_def leasable_def)
  then obtain row' t' where r: "apply_event f ev sid = Some row'" "sr_state row' = Refreshing" "refreshingSince row' = Some t'" "t \<le> t'"
    by blast
  have "legal opts (apply_event f ev) evs" "\<forall>ev \<in> set evs. \<not> ends_lease sid ev" using Cons.prems(1,6) by simp_all
  from Cons.IH [where f = "apply_event f ev", OF this(1) r(1-3) Cons.prems(5) this(2)] r(4) show ?case by fastforce
qed simp

lemma leases_apart:
  assumes "legal opts f (xs @ Leased i sid t row # ys @ Leased j sid t' row' # zs)"
    and "0 \<le> stale_timeout opts" "\<forall>ev \<in> set ys. \<not> ends_lease sid ev"
  shows "stale_timeout opts \<le> t' - t"
proof -
  define g where "g = apply_event (foldl apply_event f xs) (Leased i sid t row)"
  have l: "legal opts g ys" "allowed opts (foldl apply_event g ys) (Leased j sid t' row')"
    using assms(1) by (simp_all add: legal_append g_def)
  have "g sid = Some (locked_row row t)" "sr_state (locked_row row t) = Refreshing" "refreshingSince (locked_row row t) = Some t"
    by (simp_all add: locked_row_def g_def)
  from lease_stays [OF l(1) this assms(2,3)] obtain row' t0 where
    "foldl apply_event g ys sid = Some row'" "sr_state row' = Refreshing" "refreshingSince row' = Some t0" "t \<le> t0" by blast
  then show ?thesis using l(2) by (auto simp: leasable_def)
qed

section \<open>Moves\<close>

definition row_ok :: "SessionRow \<Rightarrow> bool" where
  "row_ok r = plain (sr_claims r)"

type_synonym sessions = "(string \<Rightarrow> SessionRow option) session_sys"

definition answers :: "string \<Rightarrow> SessionRow \<Rightarrow> session_pc" where
  "answers provider row = Answered (Some (statefulRowToUser row provider))"

text \<open>The moves of a call \<open>i\<close> of the session \<open>sid\<close>, over the rows and the other calls.\<close>

inductive pc_move :: "SessionOptions \<Rightarrow> sessions \<Rightarrow> nat \<Rightarrow> session_call \<Rightarrow> session_pc \<Rightarrow> session_pc \<Rightarrow> session_event list \<Rightarrow> bool"
  for opts sys i c where
  stay: "pc_move opts sys i c pc pc []"
| gone: "pc_move opts sys i c Reading (Answered None) []"
| got: "ss_store sys (sc_sid c) = Some row \<Longrightarrow> pc_move opts sys i c Reading (Got row) []"
| ended: "pc_move opts sys i c (Got row) (Answered None) []"
| current: "pc_move opts sys i c (Got row) (answers (sc_provider c) row) []"
| follow: "refreshInFlight sys (sc_container c, sc_sid c) = Some k \<Longrightarrow> pc_move opts sys i c (Got row) (Joined k) []"
| wait: "refreshInFlight sys (sc_container c, sc_sid c) = None \<Longrightarrow> pc_move opts sys i c (Got row) (Waiting d) []"
| lock: "refreshInFlight sys (sc_container c, sc_sid c) = None \<Longrightarrow> leasable opts row t
    \<Longrightarrow> pc_move opts sys i c (Got row) (Locking row (locked_row row t)) []"
| joined: "sc_pc (ss_calls sys ! k) = Answered r \<Longrightarrow> pc_move opts sys i c (Joined k) (Answered r) []"
| lock_lost: "pc_move opts sys i c (Locking row l) ReReading []"
| leased: "ss_store sys (sc_sid c) = Some row
    \<Longrightarrow> pc_move opts sys i c (Locking row l) (Holding row l) [Leased i (sc_sid c) (the (refreshingSince l)) row]"
| refused: "pc_move opts sys i c (Holding row l) (Expiring l) [Asked i (sc_sid c) (sr_refreshToken row)]"
| granted: "row_ok (renewed_row row result)
    \<Longrightarrow> pc_move opts sys i c (Holding row l) (Storing l (renewed_row row result)) [Asked i (sc_sid c) (sr_refreshToken row)]"
| spoil_lost: "pc_move opts sys i c (Expiring l) (Answered None) []"
| spoiled: "ss_store sys (sc_sid c) = Some l \<Longrightarrow> pc_move opts sys i c (Expiring l) (Answered None) [Spoiled i (sc_sid c)]"
| store_lost: "pc_move opts sys i c (Storing l row) ReReading []"
| renewed: "ss_store sys (sc_sid c) = Some l
    \<Longrightarrow> pc_move opts sys i c (Storing l row) (answers (sc_provider c) row) [Renewed i (sc_sid c) row]"
| lost: "pc_move opts sys i c ReReading (Answered None) []"
| won: "ss_store sys (sc_sid c) = Some row \<Longrightarrow> pc_move opts sys i c ReReading (answers (sc_provider c) row) []"
| timeout: "pc_move opts sys i c (Waiting d) (Answered None) []"
| again: "pc_move opts sys i c (Waiting d) (Polling d) []"
| unfinished: "pc_move opts sys i c (Polling d) (Waiting d) []"
| poll_lost: "pc_move opts sys i c (Polling d) (Answered None) []"
| poll_won: "ss_store sys (sc_sid c) = Some row \<Longrightarrow> pc_move opts sys i c (Polling d) (answers (sc_provider c) row) []"

definition in_flight_after :: "sessions \<Rightarrow> nat \<Rightarrow> session_call \<Rightarrow> session_pc \<Rightarrow> session_pc \<Rightarrow> nat \<times> string \<Rightarrow> nat option" where
  "in_flight_after sys i c pc pc' =
     (if attempting pc \<and> \<not> attempting pc' then (refreshInFlight sys)((sc_container c, sc_sid c) := None)
      else if \<not> attempting pc \<and> attempting pc' then (refreshInFlight sys)((sc_container c, sc_sid c) \<mapsto> i)
      else refreshInFlight sys)"

inductive session_move :: "SessionOptions \<Rightarrow> sessions \<Rightarrow> session_act \<Rightarrow> session_event list \<Rightarrow> sessions \<Rightarrow> bool" for opts sys where
  nothing: "session_move opts sys a [] sys"
| created: "ss_store sys sid = None \<Longrightarrow> row_ok (new_session_row user token now)
    \<Longrightarrow> session_move opts sys (SignIn sid user token now) [Created sid (new_session_row user token now)]
          (sys\<lparr>ss_store := (ss_store sys)(sid \<mapsto> new_session_row user token now)\<rparr>)"
| request: "cookie_session opts (\<not> force) now header = Some (sid, provider)
    \<Longrightarrow> session_move opts sys (Request container force now header) []
          (sys\<lparr>ss_calls := ss_calls sys
             @ [\<lparr>sc_container = container, sc_force = force, sc_sid = sid, sc_provider = provider, sc_pc = Reading\<rparr>]\<rparr>)"
| deleted: "cookie_session opts False 0 header = Some (sid, provider)
    \<Longrightarrow> session_move opts sys (SignOut header) [Deleted sid] (sys\<lparr>ss_store := (ss_store sys)(sid := None)\<rparr>)"
| own: "i < length (ss_calls sys) \<Longrightarrow> pc_move opts sys i (ss_calls sys ! i) (sc_pc (ss_calls sys ! i)) pc evs
    \<Longrightarrow> session_move opts sys (Run i now answer) evs
          (sys\<lparr>ss_store := foldl apply_event (ss_store sys) evs,
               refreshInFlight := in_flight_after sys i (ss_calls sys ! i) (sc_pc (ss_calls sys ! i)) pc,
               ss_calls := set_pc i pc (ss_calls sys)\<rparr>)"

section \<open>The invariant\<close>

inductive session_runs :: "SessionOptions \<Rightarrow> session_act list \<Rightarrow> session_event list \<Rightarrow> sessions \<Rightarrow> bool" for opts where
  runs_start: "session_runs opts [] [] (sessions_start (\<lambda>_. None))"
| runs_step: "session_runs opts acts evs sys \<Longrightarrow> session_move opts sys a es sys' \<Longrightarrow> session_runs opts (acts @ [a]) (evs @ es) sys'"

text \<open>The log is legal and tells the rows; every renewal keeps the user of a sign-in.\<close>

definition signed_in :: "session_event list \<Rightarrow> string \<Rightarrow> string \<Rightarrow> bool" where
  "signed_in evs sid user = (\<exists>r. Created sid r \<in> set evs \<and> sr_userId r = user)"

definition ready_write :: "session_event list \<Rightarrow> string \<Rightarrow> SessionRow \<Rightarrow> bool" where
  "ready_write evs sid r = (Created sid r \<in> set evs \<or> (\<exists>j. Renewed j sid r \<in> set evs))"

definition vouched :: "session_event list \<Rightarrow> string \<Rightarrow> SessionRow \<Rightarrow> bool" where
  "vouched evs sid row =
     (row_ok row \<and> signed_in evs sid (sr_userId row)
      \<and> (\<exists>r. ready_write evs sid r \<and> sr_userId r = sr_userId row \<and> sr_claims r = sr_claims row))"

definition own_events :: "nat \<Rightarrow> session_event list \<Rightarrow> session_event list" where
  "own_events i evs = filter (\<lambda>ev. event_call ev = Some i) evs"

definition asked :: "nat \<Rightarrow> string \<Rightarrow> session_event list \<Rightarrow> bool" where
  "asked i sid es = (\<exists>t row. es = [Leased i sid t row, Asked i sid (sr_refreshToken row)])"

definition settled :: "nat \<Rightarrow> string \<Rightarrow> session_event list \<Rightarrow> bool" where
  "settled i sid es =
     (\<exists>t row ev. es = [Leased i sid t row, Asked i sid (sr_refreshToken row), ev] \<and> (ev = Spoiled i sid \<or> (\<exists>r. ev = Renewed i sid r)))"

definition call_shape :: "nat \<Rightarrow> string \<Rightarrow> session_pc \<Rightarrow> session_event list \<Rightarrow> bool" where
  "call_shape i sid pc es =
     (case pc of
        Holding row l \<Rightarrow> (\<exists>t. es = [Leased i sid t row])
      | Expiring l \<Rightarrow> asked i sid es
      | Storing l r \<Rightarrow> asked i sid es
      | ReReading \<Rightarrow> es = [] \<or> asked i sid es
      | Answered u \<Rightarrow> es = [] \<or> asked i sid es \<or> settled i sid es
      | _ \<Rightarrow> es = [])"

definition call_rows :: "SessionOptions \<Rightarrow> session_event list \<Rightarrow> sessions \<Rightarrow> session_call \<Rightarrow> bool" where
  "call_rows opts evs sys c =
     (case sc_pc c of
        Got row \<Rightarrow> vouched evs (sc_sid c) row
      | Joined k \<Rightarrow> k < length (ss_calls sys) \<and> sc_sid (ss_calls sys ! k) = sc_sid c
      | Locking row l \<Rightarrow> vouched evs (sc_sid c) row \<and> (\<exists>t. l = locked_row row t \<and> leasable opts row t)
      | Holding row l \<Rightarrow> vouched evs (sc_sid c) row \<and> (\<exists>t. l = locked_row row t)
      | Expiring l \<Rightarrow> vouched evs (sc_sid c) l \<and> sr_state l = Refreshing
      | Storing l r \<Rightarrow> row_ok l \<and> sr_state l = Refreshing \<and> row_ok r \<and> sr_state r = Ready \<and> signed_in evs (sc_sid c) (sr_userId r)
      | Answered (Some u) \<Rightarrow>
          (\<exists>row provider. u = statefulRowToUser row provider \<and> signed_in evs (sc_sid c) (sr_userId row) \<and> ready_write evs (sc_sid c) row)
      | Threw e \<Rightarrow> False
      | _ \<Rightarrow> True)"

definition log_ok :: "SessionOptions \<Rightarrow> session_event list \<Rightarrow> sessions \<Rightarrow> bool" where
  "log_ok opts evs sys =
     (legal opts (\<lambda>_. None) evs \<and> ss_store sys = replay evs
      \<and> (\<forall>sid row. ss_store sys sid = Some row \<longrightarrow> vouched evs sid row)
      \<and> (\<forall>ev \<in> set evs. \<forall>i. event_call ev = Some i \<longrightarrow> i < length (ss_calls sys)))"

definition calls_ok :: "SessionOptions \<Rightarrow> session_event list \<Rightarrow> sessions \<Rightarrow> bool" where
  "calls_ok opts evs sys =
     (\<forall>i < length (ss_calls sys). call_rows opts evs sys (ss_calls sys ! i)
        \<and> call_shape i (sc_sid (ss_calls sys ! i)) (sc_pc (ss_calls sys ! i)) (own_events i evs))"

definition flights_ok :: "sessions \<Rightarrow> bool" where
  "flights_ok sys =
     ((\<forall>i < length (ss_calls sys). attempting (sc_pc (ss_calls sys ! i))
         \<longrightarrow> refreshInFlight sys (sc_container (ss_calls sys ! i), sc_sid (ss_calls sys ! i)) = Some i)
      \<and> (\<forall>m sid k. refreshInFlight sys (m, sid) = Some k
         \<longrightarrow> k < length (ss_calls sys) \<and> sc_container (ss_calls sys ! k) = m \<and> sc_sid (ss_calls sys ! k) = sid))"

lemma log_grows:
  "signed_in evs sid u \<Longrightarrow> signed_in (evs @ es) sid u"
  "ready_write evs sid r \<Longrightarrow> ready_write (evs @ es) sid r"
  "vouched evs sid r \<Longrightarrow> vouched (evs @ es) sid r"
  by (auto simp: signed_in_def ready_write_def vouched_def)

lemma call_rows_grows:
  assumes "call_rows opts evs sys c" "length (ss_calls sys) \<le> length (ss_calls sys')"
    and "\<And>k. k < length (ss_calls sys) \<Longrightarrow> sc_sid (ss_calls sys' ! k) = sc_sid (ss_calls sys ! k)"
  shows "call_rows opts (evs @ es) sys' c"
  using assms by (cases "sc_pc c") (auto simp: call_rows_def split: option.splits intro: log_grows less_le_trans)

lemma same_user: "sr_userId r = sr_userId r' \<Longrightarrow> sr_claims r = sr_claims r' \<Longrightarrow> statefulRowToUser r p = statefulRowToUser r' p"
  by (simp add: statefulRowToUser_def)

lemma vouched_simps [simp]:
  "vouched evs sid (locked_row row t) = vouched evs sid row"
  "vouched evs sid (expired_row row) = vouched evs sid row"
  by (simp_all add: vouched_def locked_row_def expired_row_def row_ok_def)

lemma vouched_answer:
  assumes "vouched evs sid row"
  shows "\<exists>r provider. statefulRowToUser row p = statefulRowToUser r provider \<and> signed_in evs sid (sr_userId r) \<and> ready_write evs sid r"
  using assms same_user unfolding vouched_def by metis

lemma set_pc_simps [simp]:
  "length (set_pc i pc cs) = length cs"
  "k < length cs \<Longrightarrow> set_pc i pc cs ! k = (if k = i then (cs ! i)\<lparr>sc_pc := pc\<rparr> else cs ! k)"
  by (auto simp: set_pc_def)

lemma attempting_simps [simp]:
  "attempting (Locking r l)" "attempting (Holding r l)" "attempting (Expiring l)" "attempting (Storing l r)"
  "attempting ReReading" "attempting (Waiting d)" "attempting (Polling d)" "\<not> attempting Reading" "\<not> attempting (Got r)"
  "\<not> attempting (Joined k)" "\<not> attempting (Answered u)" "\<not> attempting (Threw e)" "\<not> attempting (answers p r)"
  by (simp_all add: attempting_def answers_def)

lemma vouched_leasable: "vouched evs sid row \<Longrightarrow> row_ok row" "vouched evs sid row \<Longrightarrow> signed_in evs sid (sr_userId row)"
  by (simp_all add: vouched_def)

lemma locked_sel [simp]: "sr_state (locked_row row t) = Refreshing" "refreshingSince (locked_row row t) = Some t"
  by (simp_all add: locked_row_def)

lemma renewed_sel [simp]: "sr_state (renewed_row row x) = Ready" "sr_userId (renewed_row row x) = sr_userId row"
  by (cases x, simp add: renewed_row_def)+

lemma own_events_append [simp]: "own_events i (xs @ ys) = own_events i xs @ own_events i ys"
  by (simp add: own_events_def)

lemma pc_move_events: "pc_move opts sys i c pc pc' es \<Longrightarrow> \<forall>ev \<in> set es. event_call ev = Some i \<and> event_sid ev = sc_sid c"
  by (induction rule: pc_move.cases) auto

lemma pc_move_shape:
  assumes "pc_move opts sys i c pc pc' es" "call_shape i (sc_sid c) pc xs"
    and "\<And>k u. pc = Joined k \<Longrightarrow> pc' = Answered u \<Longrightarrow> xs = []"
  shows "call_shape i (sc_sid c) pc' (xs @ own_events i es)"
  using assms by cases (auto simp: call_shape_def own_events_def asked_def settled_def answers_def)

lemma pc_move_rows:
  assumes move: "pc_move opts sys i c (sc_pc c) pc' es" and rows: "call_rows opts evs sys c"
    and store: "\<And>sid row. ss_store sys sid = Some row \<Longrightarrow> vouched evs sid row"
    and others: "\<And>k. k < length (ss_calls sys) \<Longrightarrow> call_rows opts evs sys (ss_calls sys ! k)"
    and flights: "flights_ok sys"
  shows "call_rows opts (evs @ es) sys (c\<lparr>sc_pc := pc'\<rparr>)"
  using move
proof cases
  case stay
  then show ?thesis using rows call_rows_grows [OF rows, of sys es] by simp
next
  case (got row)
  then show ?thesis using store by (simp add: call_rows_def)
next
  case (current row)
  then have "vouched evs (sc_sid c) row" using rows by (simp add: call_rows_def)
  from vouched_answer [OF this] show ?thesis using current by (simp add: call_rows_def answers_def)
next
  case (follow k row)
  then show ?thesis using flights by (auto simp: call_rows_def flights_ok_def)
next
  case (joined k r)
  then have "k < length (ss_calls sys)" "sc_sid (ss_calls sys ! k) = sc_sid c" using rows by (simp_all add: call_rows_def)
  then show ?thesis using others [of k] joined by (auto simp: call_rows_def split: option.splits)
next
  case (leased row l)
  then show ?thesis using rows log_grows(3) by (auto simp: call_rows_def)
next
  case (refused row l)
  then show ?thesis using rows log_grows(3) by (auto simp: call_rows_def)
next
  case (granted row result l)
  then show ?thesis using rows log_grows(2) vouched_leasable log_grows(1) by (auto simp: call_rows_def vouched_def locked_row_def row_ok_def)
next
  case (renewed l row)
  have "signed_in (evs @ es) (sc_sid c) (sr_userId row)" using rows renewed log_grows(1) by (simp add: call_rows_def)
  moreover have "ready_write (evs @ es) (sc_sid c) row" using renewed by (auto simp: ready_write_def)
  ultimately show ?thesis using renewed by (auto simp: call_rows_def answers_def)
next
  case (won row)
  from vouched_answer [OF store [OF won(4)]] show ?thesis using won by (simp add: call_rows_def answers_def)
next
  case (poll_won row)
  from vouched_answer [OF store [OF poll_won(4)]] show ?thesis using poll_won by (simp add: call_rows_def answers_def)
qed (use rows in \<open>auto simp: call_rows_def\<close>)

lemma pc_move_log:
  assumes move: "pc_move opts sys i c (sc_pc c) pc' es" and rows: "call_rows opts evs sys c"
    and store: "\<And>sid row. ss_store sys sid = Some row \<Longrightarrow> vouched evs sid row"
  shows "legal opts (ss_store sys) es"
    and "foldl apply_event (ss_store sys) es sid = Some row \<Longrightarrow> vouched (evs @ es) sid row"
proof -
  show "legal opts (ss_store sys) es" using move rows
    by cases (auto simp: call_rows_def is_refreshing_def)
  show "vouched (evs @ es) sid row" if "foldl apply_event (ss_store sys) es sid = Some row"
    using move
  proof cases
    case (leased row' l)
    then show ?thesis using that store log_grows(3) rows by (auto simp: call_rows_def split: if_splits)
  next
    case (spoiled l)
    then show ?thesis using that store log_grows(3) rows by (auto simp: call_rows_def split: if_splits)
  next
    case (renewed l row')
    show ?thesis
    proof (cases "sid = sc_sid c")
      case True
      then have r: "row = row'" using that renewed by simp
      have "ready_write (evs @ es) sid row" using renewed True r by (auto simp: ready_write_def)
      then show ?thesis using rows renewed True r log_grows(1) unfolding vouched_def by (auto simp: call_rows_def)
    next
      case False
      then show ?thesis using that renewed store log_grows(3) by simp
    qed
  qed (use that store log_grows(3) in auto)
qed

lemma pc_move_registers:
  "pc_move opts sys i c pc pc' es \<Longrightarrow> \<not> attempting pc \<Longrightarrow> attempting pc' \<Longrightarrow> refreshInFlight sys (sc_container c, sc_sid c) = None"
  by (induction rule: pc_move.cases) auto

lemma own_flights:
  assumes "flights_ok sys" "i < length (ss_calls sys)" "pc_move opts sys i (ss_calls sys ! i) (sc_pc (ss_calls sys ! i)) pc es"
  shows "flights_ok (sys\<lparr>ss_store := f, refreshInFlight := in_flight_after sys i (ss_calls sys ! i) (sc_pc (ss_calls sys ! i)) pc,
    ss_calls := set_pc i pc (ss_calls sys)\<rparr>)"
proof -
  let ?c = "ss_calls sys ! i"
  have free: "\<not> attempting (sc_pc ?c) \<Longrightarrow> attempting pc \<Longrightarrow> refreshInFlight sys (sc_container ?c, sc_sid ?c) = None"
    using pc_move_registers [OF assms(3)] .
  have a: "attempting (sc_pc (ss_calls sys ! k)) \<Longrightarrow> refreshInFlight sys (sc_container (ss_calls sys ! k), sc_sid (ss_calls sys ! k)) = Some k"
    if "k < length (ss_calls sys)" for k
    using assms(1) that by (simp add: flights_ok_def)
  have b: "refreshInFlight sys (m, sid) = Some k \<Longrightarrow> k < length (ss_calls sys) \<and> sc_container (ss_calls sys ! k) = m \<and> sc_sid (ss_calls sys ! k) = sid"
    for m sid k using assms(1) by (simp add: flights_ok_def)
  have "in_flight_after sys i ?c (sc_pc ?c) pc (sc_container (ss_calls sys ! k), sc_sid (ss_calls sys ! k)) = Some k"
    if k: "k < length (ss_calls sys)" "attempting (sc_pc (set_pc i pc (ss_calls sys) ! k))" for k
    using a [OF k(1)] a [OF assms(2)] free k by (auto simp: in_flight_after_def split: if_splits)
  moreover have "k < length (ss_calls sys) \<and> sc_container (ss_calls sys ! k) = m \<and> sc_sid (ss_calls sys ! k) = sid"
    if "in_flight_after sys i ?c (sc_pc ?c) pc (m, sid) = Some k" for m sid k
    using that b [of m sid k] assms(2) by (auto simp: in_flight_after_def split: if_splits)
  ultimately show ?thesis unfolding flights_ok_def by (fastforce split: if_splits)
qed

lemma joined_no_events: "call_shape i sid (Joined k) xs \<Longrightarrow> xs = []"
  by (simp add: call_shape_def)

lemma no_events_yet: "log_ok opts evs sys \<Longrightarrow> own_events (length (ss_calls sys)) evs = []"
  by (auto simp: log_ok_def own_events_def filter_empty_conv)

lemma other_events: "\<forall>ev \<in> set es. event_call ev = Some i \<Longrightarrow> k \<noteq> i \<Longrightarrow> own_events k es = []"
  by (auto simp: own_events_def filter_empty_conv)

definition sessions_ok :: "SessionOptions \<Rightarrow> session_event list \<Rightarrow> sessions \<Rightarrow> bool" where
  "sessions_ok opts evs sys = (log_ok opts evs sys \<and> calls_ok opts evs sys \<and> flights_ok sys)"

lemma own_ok:
  assumes ok: "sessions_ok opts evs sys" and i: "i < length (ss_calls sys)"
    and move: "pc_move opts sys i (ss_calls sys ! i) (sc_pc (ss_calls sys ! i)) pc es"
  shows "sessions_ok opts (evs @ es) (sys\<lparr>ss_store := foldl apply_event (ss_store sys) es,
    refreshInFlight := in_flight_after sys i (ss_calls sys ! i) (sc_pc (ss_calls sys ! i)) pc, ss_calls := set_pc i pc (ss_calls sys)\<rparr>)"
    (is "sessions_ok opts _ ?sys'")
proof -
  let ?c = "ss_calls sys ! i"
  have log: "log_ok opts evs sys" and calls: "calls_ok opts evs sys" and fl: "flights_ok sys" using ok by (simp_all add: sessions_ok_def)
  have store: "\<And>sid row. ss_store sys sid = Some row \<Longrightarrow> vouched evs sid row" and rep: "ss_store sys = replay evs"
    using log by (simp_all add: log_ok_def)
  have rows: "\<And>k. k < length (ss_calls sys) \<Longrightarrow> call_rows opts evs sys (ss_calls sys ! k)"
    and shapes: "\<And>k. k < length (ss_calls sys) \<Longrightarrow> call_shape k (sc_sid (ss_calls sys ! k)) (sc_pc (ss_calls sys ! k)) (own_events k evs)"
    using calls by (simp_all add: calls_ok_def)
  note evs = pc_move_events [OF move]
  have "log_ok opts (evs @ es) ?sys'"
    using log pc_move_log [OF move rows [OF i] store] evs i rep [symmetric] unfolding log_ok_def
    by (auto simp: legal_append replay_append) (simp add: replay_def)
  moreover have "call_rows opts (evs @ es) ?sys' (set_pc i pc (ss_calls sys) ! k)
      \<and> call_shape k (sc_sid (set_pc i pc (ss_calls sys) ! k)) (sc_pc (set_pc i pc (ss_calls sys) ! k)) (own_events k (evs @ es))"
    if k: "k < length (ss_calls sys)" for k
  proof (cases "k = i")
    case True
    have r: "call_rows opts (evs @ es) sys (?c\<lparr>sc_pc := pc\<rparr>)" using pc_move_rows [OF move rows [OF i] store rows fl] .
    have "call_rows opts ((evs @ es) @ []) ?sys' (?c\<lparr>sc_pc := pc\<rparr>)"
      by (rule call_rows_grows [OF r]) simp_all
    moreover have "call_shape i (sc_sid ?c) pc (own_events i evs @ own_events i es)"
      by (rule pc_move_shape [OF move shapes [OF i]]) (use shapes [OF i] joined_no_events in auto)
    ultimately show ?thesis using True k by simp
  next
    case False
    have "own_events k es = []" using other_events [of es i k] evs False by auto
    moreover have "call_rows opts (evs @ es) ?sys' (ss_calls sys ! k)"
      by (rule call_rows_grows [OF rows [OF k]]) simp_all
    ultimately show ?thesis using False k shapes [OF k] by simp
  qed
  then have "calls_ok opts (evs @ es) ?sys'" unfolding calls_ok_def by simp
  ultimately show ?thesis using own_flights [OF fl i move] by (simp add: sessions_ok_def)
qed

lemma calls_kept:
  assumes "calls_ok opts evs sys" "ss_calls sys' = ss_calls sys" "\<forall>ev \<in> set es. event_call ev = None"
  shows "calls_ok opts (evs @ es) sys'"
proof -
  have "own_events k es = []" for k using assms(3) by (auto simp: own_events_def filter_empty_conv)
  moreover have "call_rows opts (evs @ es) sys' (ss_calls sys ! i)" if "i < length (ss_calls sys)" for i
    using assms that by (intro call_rows_grows [where sys = sys]) (simp_all add: calls_ok_def)
  ultimately show ?thesis using assms by (simp add: calls_ok_def)
qed

lemma request_ok:
  assumes "sessions_ok opts evs sys" "sc_pc c = Reading"
  shows "sessions_ok opts evs (sys\<lparr>ss_calls := ss_calls sys @ [c]\<rparr>)"
proof -
  have log: "log_ok opts evs sys" and calls: "calls_ok opts evs sys" and fl: "flights_ok sys" using assms(1) by (simp_all add: sessions_ok_def)
  let ?sys = "sys\<lparr>ss_calls := ss_calls sys @ [c]\<rparr>"
  have "log_ok opts evs ?sys" using log by (auto simp: log_ok_def intro: less_SucI)
  moreover have "call_rows opts evs ?sys (ss_calls ?sys ! i) \<and> call_shape i (sc_sid (ss_calls ?sys ! i)) (sc_pc (ss_calls ?sys ! i)) (own_events i evs)"
    if "i < length (ss_calls ?sys)" for i
  proof (cases "i < length (ss_calls sys)")
    case True
    then have "call_rows opts (evs @ []) ?sys (ss_calls sys ! i)" using calls
      by (intro call_rows_grows [where sys = sys]) (simp_all add: calls_ok_def nth_append)
    then show ?thesis using True calls by (simp add: calls_ok_def nth_append)
  next
    case False
    then have "i = length (ss_calls sys)" using that by simp
    then show ?thesis using assms(2) no_events_yet [OF log] by (simp add: call_rows_def call_shape_def)
  qed
  then have "calls_ok opts evs ?sys" unfolding calls_ok_def by blast
  moreover have "flights_ok ?sys" using fl assms(2) by (auto simp: flights_ok_def nth_append less_Suc_eq)
  ultimately show ?thesis by (simp add: sessions_ok_def)
qed

lemma move_ok:
  assumes "sessions_ok opts evs sys" "session_move opts sys a es sys'"
  shows "sessions_ok opts (evs @ es) sys'"
  using assms(2)
proof cases
  case nothing
  then show ?thesis using assms(1) by simp
next
  case (created sid user token now)
  have new: "vouched (evs @ es) sid (new_session_row user token now)"
    using created by (auto simp: vouched_def signed_in_def ready_write_def)
  have "log_ok opts (evs @ es) sys'" using assms(1) created new log_grows(3)
    by (auto simp: sessions_ok_def log_ok_def legal_append replay_append new_session_row_def replay_def [symmetric])
  moreover have "calls_ok opts (evs @ es) sys'" using assms(1) created by (intro calls_kept [where sys = sys]) (simp_all add: sessions_ok_def)
  moreover have "flights_ok sys'" using assms(1) created by (simp add: sessions_ok_def flights_ok_def)
  ultimately show ?thesis by (simp add: sessions_ok_def)
next
  case (request force now header sid provider container)
  then show ?thesis using request_ok [OF assms(1)] by simp
next
  case (deleted header sid provider)
  have "log_ok opts (evs @ es) sys'" using assms(1) deleted log_grows(3)
    by (auto simp: sessions_ok_def log_ok_def legal_append replay_append replay_def [symmetric])
  moreover have "calls_ok opts (evs @ es) sys'" using assms(1) deleted by (intro calls_kept [where sys = sys]) (simp_all add: sessions_ok_def)
  moreover have "flights_ok sys'" using assms(1) deleted by (simp add: sessions_ok_def flights_ok_def)
  ultimately show ?thesis by (simp add: sessions_ok_def)
next
  case (own i pc now answer)
  then show ?thesis using own_ok [OF assms(1) own(3,4)] by simp
qed

lemma runs_ok: "session_runs opts acts evs sys \<Longrightarrow> sessions_ok opts evs sys"
proof (induction rule: session_runs.induct)
  case runs_start
  show ?case by (simp add: sessions_ok_def log_ok_def calls_ok_def flights_ok_def sessions_start_def replay_def)
qed (rule move_ok)

end
