(* ===== verification/OidcRefresh.thy ===== *)
theory OidcRefresh
  imports OidcSession
begin

text \<open>
  The store contract the session manager relies on, the key-value store as its provider, and what the
  sessions of \<^verbatim>\<open>session-manager.ts\<close> promise: the refresh of a session is leased, its sign-out is
  final, and a request is answered with the user who signed in to the session its cookie names.
\<close>

section \<open>The contract of the store\<close>

definition cond_holds :: "row_cond option \<Rightarrow> SessionRow option \<Rightarrow> bool" where
  "cond_holds c current =
     (case c of None \<Rightarrow> True | Some IfNotExists \<Rightarrow> current = None | Some (IfValueEquals r) \<Rightarrow> current = Some r)"

definition view :: "('s \<Rightarrow> string \<Rightarrow> SessionRow option) \<Rightarrow> 's session_sys \<Rightarrow> sessions" where
  "view content sys = \<lparr>ss_store = content (ss_store sys), refreshInFlight = refreshInFlight sys, ss_calls = ss_calls sys\<rparr>"

lemma view_sel [simp]:
  "ss_store (view content sys) = content (ss_store sys)" "refreshInFlight (view content sys) = refreshInFlight sys"
  "ss_calls (view content sys) = ss_calls sys"
  by (simp_all add: view_def)

lemma runs_snoc:
  "session_run get put del opts sys (as @ [a]) =
     (case session_run get put del opts sys as of
        (sys', evs) \<Rightarrow> (case session_do get put del opts sys' a of (sys'', es) \<Rightarrow> (sys'', evs @ es)))"
  by (induction as arbitrary: sys) (auto split: prod.split)

locale row_store =
  fixes get :: "'s row_getter" and put :: "'s row_putter" and del :: "'s row_deleter"
    and content :: "'s \<Rightarrow> string \<Rightarrow> SessionRow option" and inv :: "'s \<Rightarrow> bool"
  assumes get_row: "inv s \<Longrightarrow> get k s = (s, Inr (content s k))"
    and put_row: "inv s \<Longrightarrow> row_ok r \<Longrightarrow> (\<And>r'. c = Some (IfValueEquals r') \<Longrightarrow> row_ok r') \<Longrightarrow> put k r c s = (s', x) \<Longrightarrow>
      (x = Inr () \<and> inv s' \<and> content s' = (content s)(k \<mapsto> r) \<and> cond_holds c (content s k)) \<or> (s' = s \<and> (\<exists>e. x = Inl e))"
    and del_row: "inv s \<Longrightarrow> \<exists>s'. del k s = (s', Inr ()) \<and> inv s' \<and> content s' = (content s)(k := None)"
begin

lemma put_cases:
  assumes "inv s" "row_ok r" "\<And>r'. c = Some (IfValueEquals r') \<Longrightarrow> row_ok r'"
  obtains s' where "put k r c s = (s', Inr ())" "inv s'" "content s' = (content s)(k \<mapsto> r)" "cond_holds c (content s k)"
  | e where "put k r c s = (s, Inl e)"
proof -
  obtain s' x where p: "put k r c s = (s', x)" by fastforce
  from put_row [OF assms(1,2) _ p] assms(3) p that show thesis by blast
qed

text \<open>The steps over the store are the moves over its rows.\<close>

lemma own_step_moves:
  assumes inv: "inv s" and c: "call_rows opts evs (view content sys) c" and s: "s = ss_store sys"
    and pc: "sc_pc c = pc" "\<And>row. pc \<noteq> Got row" "\<And>k. pc \<noteq> Joined k"
    and answer: "\<And>token ex claims. answer = Some (token, ex, claims) \<Longrightarrow> plain claims"
    and step: "own_step get put now answer i (sc_sid c) (sc_provider c) s pc = (s', pc', es)"
  shows "inv s' \<and> content s' = foldl apply_event (content s) es \<and> pc_move opts (view content sys) i c pc pc' es"
proof (cases pc)
  case Reading
  then show ?thesis using step inv s
    by (auto simp: read_then_def get_row split: option.splits intro: pc_move.intros)
next
  case (Locking row l)
  then obtain t where r: "row_ok row" and l: "l = locked_row row t" using c pc(1) by (auto simp: call_rows_def vouched_def)
  then have "row_ok l" by (simp add: row_ok_def locked_row_def)
  from put_cases [OF inv this, of "Some (IfValueEquals row)" "sc_sid c"] r show ?thesis
    by (cases; use Locking step inv s l pc_move.leased [of "view content sys" c row opts i l] in
      \<open>auto simp: cond_holds_def intro: pc_move.intros\<close>)
next
  case (Holding row l)
  show ?thesis
  proof (cases answer)
    case None
    then show ?thesis using Holding step inv by (auto intro: pc_move.intros)
  next
    case (Some x)
    have "row_ok (renewed_row row x)" using answer Some by (cases x) (simp add: row_ok_def renewed_row_def)
    then show ?thesis using Holding step inv Some by (auto intro: pc_move.intros)
  qed
next
  case (Expiring l)
  then have r: "row_ok l" using c pc(1) by (auto simp: call_rows_def vouched_def)
  then have "row_ok (expired_row l)" by (simp add: row_ok_def expired_row_def)
  from put_cases [OF inv this, of "Some (IfValueEquals l)" "sc_sid c"] r show ?thesis
    by (cases; use Expiring step inv s in \<open>auto simp: cond_holds_def intro: pc_move.intros\<close>)
next
  case (Storing l row)
  then have r: "row_ok l" "row_ok row" using c pc(1) by (auto simp: call_rows_def)
  from put_cases [OF inv r(2), of "Some (IfValueEquals l)" "sc_sid c"] r(1) show ?thesis
    by (cases; use Storing step inv s pc_move.renewed [of "view content sys" c l opts i row] in
      \<open>auto simp: cond_holds_def answers_def intro: pc_move.intros\<close>)
next
  case ReReading
  then show ?thesis using step inv s pc_move.won [of "view content sys" c _ opts i]
    by (auto simp: read_then_def get_row read_outcome_def answers_def split: option.splits intro: pc_move.intros)
next
  case (Polling d)
  then show ?thesis using step inv s pc_move.poll_won [of "view content sys" c _ opts i d]
    by (auto simp: read_then_def get_row poll_outcome_def answers_def split: option.splits if_splits intro: pc_move.intros)
qed (use step inv pc in \<open>auto intro: pc_move.intros\<close>)

lemma got_row_moves:
  assumes "i < length (ss_calls sys)" "ss_calls sys ! i = c" "sc_pc c = Got row"
  shows "\<exists>pc. pc_move opts (view content sys) i c (Got row) pc []
    \<and> view content (got_row opts now i c row sys) = (view content sys)\<lparr>refreshInFlight := in_flight_after (view content sys) i c (Got row) pc,
         ss_calls := set_pc i pc (ss_calls sys)\<rparr> \<and> ss_store (got_row opts now i c row sys) = ss_store sys"
proof -
  let ?v = "view content sys"
  consider "\<not> sc_force c" "sr_state row = Expired" | "\<not> (\<not> sc_force c \<and> sr_state row = Expired)" "\<not> sc_force c \<and> sr_expiresAt row > now div 1000"
    | k where "\<not> (\<not> sc_force c \<and> sr_state row = Expired)" "\<not> (\<not> sc_force c \<and> sr_expiresAt row > now div 1000)" "refreshInFlight sys (sc_container c, sc_sid c) = Some k"
    | "\<not> (\<not> sc_force c \<and> sr_state row = Expired)" "\<not> (\<not> sc_force c \<and> sr_expiresAt row > now div 1000)" "refreshInFlight sys (sc_container c, sc_sid c) = None"
    by (cases "refreshInFlight sys (sc_container c, sc_sid c)") blast+
  then show ?thesis
  proof cases
    case 1
    then show ?thesis by (intro exI [of _ "Answered None"]) (auto simp: got_row_def view_def in_flight_after_def intro: pc_move.intros)
  next
    case 2
    then have "got_row opts now i c row sys = sys\<lparr>ss_calls := set_pc i (answers (sc_provider c) row) (ss_calls sys)\<rparr>"
      by (auto simp: got_row_def answers_def)
    then show ?thesis by (intro exI [of _ "answers (sc_provider c) row"]) (auto simp: view_def in_flight_after_def intro: pc_move.intros)
  next
    case (3 k)
    then have "got_row opts now i c row sys = sys\<lparr>ss_calls := set_pc i (Joined k) (ss_calls sys)\<rparr>"
      by (auto simp: got_row_def)
    then show ?thesis using 3 by (intro exI [of _ "Joined k"]) (auto simp: view_def in_flight_after_def intro: pc_move.intros)
  next
    case 4
    let ?pc = "doRefresh_start opts now row"
    have g: "got_row opts now i c row sys = sys\<lparr>refreshInFlight := (refreshInFlight sys)((sc_container c, sc_sid c) \<mapsto> i), ss_calls := set_pc i ?pc (ss_calls sys)\<rparr>"
      using 4 by (auto simp: got_row_def)
    have a: "attempting ?pc" by (simp add: doRefresh_start_def Let_def)
    have "pc_move opts ?v i c (Got row) ?pc []" using 4(3)
      by (auto simp: doRefresh_start_def Let_def leasable_def intro: pc_move.intros)
    then show ?thesis using g a by (intro exI [of _ ?pc]) (simp add: view_def in_flight_after_def)
  qed
qed

lemma own_act:
  assumes "i < length (ss_calls sys)" "pc_move opts (view content sys) i (ss_calls sys ! i) (sc_pc (ss_calls sys ! i)) pc es"
    and "view content sys' = (view content sys)\<lparr>ss_store := foldl apply_event (content (ss_store sys)) es,
        refreshInFlight := in_flight_after (view content sys) i (ss_calls sys ! i) (sc_pc (ss_calls sys ! i)) pc,
        ss_calls := set_pc i pc (ss_calls sys)\<rparr>"
  shows "session_move opts (view content sys) (Run i now answer) es (view content sys')"
  using session_move.own [of i "view content sys" opts pc es now answer] assms by simp

lemma advance_moves:
  assumes inv: "inv (ss_store sys)" and ok: "sessions_ok opts evs (view content sys)" and a: "act_ok (Run i now answer)"
    and step: "advance get put opts now answer i sys = (sys', es)"
  shows "inv (ss_store sys') \<and> session_move opts (view content sys) (Run i now answer) es (view content sys')"
proof (cases "i < length (ss_calls sys)")
  case False
  then show ?thesis using step inv by (auto simp: advance_def intro: session_move.nothing)
next
  case i: True
  let ?c = "ss_calls sys ! i"
  have rows: "call_rows opts evs (view content sys) ?c" using ok i by (simp add: sessions_ok_def calls_ok_def)
  show ?thesis
  proof (cases "\<exists>row. sc_pc ?c = Got row")
    case True
    then obtain row where row: "sc_pc ?c = Got row" by blast
    from got_row_moves [OF i refl row, of opts now] obtain pc where pc: "pc_move opts (view content sys) i ?c (Got row) pc []"
      "view content (got_row opts now i ?c row sys) = (view content sys)\<lparr>refreshInFlight := in_flight_after (view content sys) i ?c (Got row) pc,
         ss_calls := set_pc i pc (ss_calls sys)\<rparr>" "ss_store (got_row opts now i ?c row sys) = ss_store sys" by blast
    have "sys' = got_row opts now i ?c row sys" "es = []" using step i row by (simp_all add: advance_def)
    then show ?thesis using inv pc row by (intro conjI own_act [OF i, of opts pc]) (simp_all add: view_def)
  next
    case notgot: False
    show ?thesis
    proof (cases "\<exists>k. sc_pc ?c = Joined k")
      case True
      then obtain k where k: "sc_pc ?c = Joined k" by blast
      then have kl: "k < length (ss_calls sys)" using rows by (simp add: call_rows_def)
      then have "call_rows opts evs (view content sys) (ss_calls sys ! k)" using ok by (simp add: sessions_ok_def calls_ok_def)
      then have nt: "\<And>e. sc_pc (ss_calls sys ! k) \<noteq> Threw e" by (auto simp: call_rows_def)
      let ?pc = "case sc_pc (ss_calls sys ! k) of Answered r \<Rightarrow> Answered r | Threw e \<Rightarrow> Threw e | _ \<Rightarrow> Joined k"
      have m: "pc_move opts (view content sys) i ?c (Joined k) ?pc []"
        using nt by (cases "sc_pc (ss_calls sys ! k)") (auto intro: pc_move.intros)
      have na: "\<not> attempting ?pc" using nt by (cases "sc_pc (ss_calls sys ! k)") simp_all
      have "sys' = sys\<lparr>ss_calls := set_pc i ?pc (ss_calls sys)\<rparr>" "es = []" using step i k by (simp_all add: advance_def)
      then show ?thesis using inv m k na by (intro conjI own_act [OF i, of opts ?pc]) (simp_all add: view_def in_flight_after_def)
    next
      case notjoined: False
      obtain s2 pc2 es2 where o: "own_step get put now answer i (sc_sid ?c) (sc_provider ?c) (ss_store sys) (sc_pc ?c) = (s2, pc2, es2)"
        by (cases "own_step get put now answer i (sc_sid ?c) (sc_provider ?c) (ss_store sys) (sc_pc ?c)") auto
      have adv: "sys' = sys\<lparr>ss_store := s2,
             refreshInFlight := (if attempting (sc_pc ?c) \<and> \<not> attempting pc2
               then (refreshInFlight sys)((sc_container ?c, sc_sid ?c) := None) else refreshInFlight sys),
             ss_calls := set_pc i pc2 (ss_calls sys)\<rparr>" "es = es2"
        using step i notgot notjoined o by (cases "sc_pc ?c"; fastforce simp: advance_def Let_def)+
      have plain: "\<And>token ex claims. answer = Some (token, ex, claims) \<Longrightarrow> plain claims" using a by auto
      have mv: "inv s2 \<and> content s2 = foldl apply_event (content (ss_store sys)) es2
          \<and> pc_move opts (view content sys) i ?c (sc_pc ?c) pc2 es2"
        by (rule own_step_moves [OF inv rows refl refl _ _ plain o]) (use notgot notjoined in auto)
      have "\<not> attempting (sc_pc ?c) \<Longrightarrow> \<not> attempting pc2"
        using mv notgot notjoined by (cases rule: pc_move.cases [OF conjunct2 [OF conjunct2 [OF mv]]]) auto
      then show ?thesis using mv adv by (intro conjI own_act [OF i, of opts pc2]) (auto simp: view_def in_flight_after_def)
    qed
  qed
qed

lemma do_moves:
  assumes inv: "inv (ss_store sys)" and ok: "sessions_ok opts evs (view content sys)" and a: "act_ok a"
    and step: "session_do get put del opts sys a = (sys', es)"
  shows "inv (ss_store sys') \<and> session_move opts (view content sys) a es (view content sys')"
proof (cases a)
  case (SignIn sid user token now)
  have r: "row_ok (new_session_row user token now)" using a SignIn by (simp add: row_ok_def new_session_row_def)
  from put_cases [OF inv r, of "Some IfNotExists" sid] show ?thesis
  proof cases
    case (2 s')
    then have n: "content (ss_store sys) sid = None" by (simp add: cond_holds_def)
    from step SignIn 2 have s: "sys' = sys\<lparr>ss_store := s'\<rparr>" "es = [Created sid (new_session_row user token now)]" by auto
    have "view content sys' = (view content sys)\<lparr>ss_store := (content (ss_store sys))(sid \<mapsto> new_session_row user token now)\<rparr>"
      using s 2 by (simp add: view_def)
    then show ?thesis using session_move.created [of "view content sys" sid user token now opts] n r 2 s SignIn by simp
  next
    case (3 e)
    then show ?thesis using step inv SignIn by (auto intro: session_move.nothing)
  qed simp
next
  case (Request container force now header)
  show ?thesis
  proof (cases "cookie_session opts (\<not> force) now header")
    case None
    then show ?thesis using step inv Request by (auto intro: session_move.nothing)
  next
    case (Some x)
    obtain sid provider where x: "x = (sid, provider)" by fastforce
    then show ?thesis using Some step inv Request session_move.request [of opts force now header sid provider "view content sys" container]
      by (auto simp: view_def)
  qed
next
  case (SignOut header)
  show ?thesis
  proof (cases "cookie_session opts False 0 header")
    case None
    then show ?thesis using step inv SignOut by (auto intro: session_move.nothing)
  next
    case (Some x)
    obtain sid provider where x: "x = (sid, provider)" by fastforce
    obtain s' where s': "del sid (ss_store sys) = (s', Inr ())" "inv s'" "content s' = (content (ss_store sys))(sid := None)"
      using del_row [OF inv] by blast
    then show ?thesis using Some x step inv SignOut session_move.deleted [of opts header sid provider "view content sys"]
      by (auto simp: view_def get_row)
  qed
next
  case (Run i now answer)
  then show ?thesis using advance_moves [OF inv ok] a step by simp
qed

theorem run_moves:
  assumes "inv s" "content s = (\<lambda>_. None)" "\<forall>a \<in> set acts. act_ok a"
    and "session_run get put del opts (sessions_start s) acts = (sys, evs)"
  shows "inv (ss_store sys) \<and> session_runs opts acts evs (view content sys)"
  using assms(3,4)
proof (induction acts arbitrary: sys evs rule: rev_induct)
  case Nil
  then show ?case using assms(1,2) session_runs.runs_start [of opts] by (auto simp: view_def sessions_start_def)
next
  case (snoc a acts)
  obtain sys1 evs1 where r: "session_run get put del opts (sessions_start s) acts = (sys1, evs1)" by fastforce
  obtain sys2 es where d: "session_do get put del opts sys1 a = (sys2, es)" by fastforce
  have eq: "sys = sys2" "evs = evs1 @ es" using snoc.prems(2) by (simp_all add: runs_snoc r d)
  have i: "inv (ss_store sys1)" "session_runs opts acts evs1 (view content sys1)" using snoc.IH [OF _ r] snoc.prems(1) by simp_all
  from do_moves [OF i(1) runs_ok [OF i(2)] _ d] snoc.prems(1)
  show ?case using session_runs.runs_step [OF i(2)] eq by simp
qed

end

section \<open>The key-value store keeps the contract\<close>

text \<open>\<open>new KVStore<SessionRow>(self, 'sessions')\<close>: no schema, and no row has a time to live, so what the
  store's clock shows does not matter.\<close>

definition session_env :: "int \<Rightarrow> (string \<Rightarrow> string) \<Rightarrow> kv_env" where
  "session_env now syn = \<lparr>nowEpochSeconds = now, kv_schema = None, syntax_message = syn\<rparr>"

definition row_opts :: "row_cond option \<Rightarrow> PutOptions" where
  "row_opts c =
     (case c of
        None \<Rightarrow> no_put_options
      | Some IfNotExists \<Rightarrow> no_put_options\<lparr>ifNotExists := Bool True\<rparr>
      | Some (IfValueEquals r) \<Rightarrow> no_put_options\<lparr>ifValueEquals := row_js r\<rparr>)"

definition row_get :: "int \<Rightarrow> (string \<Rightarrow> string) \<Rightarrow> kv_store row_getter" where
  "row_get now syn k s =
     (case kv_get (session_env now syn) k s of
        (s', Inl e) \<Rightarrow> (s', Inl e)
      | (s', Inr v) \<Rightarrow> (s', Inr (row_of_js v)))"

definition row_put :: "int \<Rightarrow> (string \<Rightarrow> string) \<Rightarrow> kv_store row_putter" where
  "row_put now syn k r c s = kv_put (session_env now syn) k (row_js r) (row_opts c) s"

definition row_del :: "kv_store row_deleter" where
  "row_del k s = kv_delete k no_delete_options s"

definition row_content :: "kv_store \<Rightarrow> string \<Rightarrow> SessionRow option" where
  "row_content s k =
     (case obj_get (kv_data s) k of
        None \<Rightarrow> None
      | Some e \<Rightarrow> (case json_parse (me_value e) of None \<Rightarrow> None | Some v \<Rightarrow> row_of_js v))"

definition row_entry :: "MockEntry \<Rightarrow> bool" where
  "row_entry e = (me_ttl e = None \<and> (\<exists>r. row_ok r \<and> me_value e = print_json (row_js r)))"

definition row_inv :: "kv_store \<Rightarrow> bool" where
  "row_inv s = (obj_wf (kv_data s) \<and> (\<forall>(k, e) \<in> set (kv_data s). row_entry e))"

lemma row_state_of [simp]: "row_state_of (row_state_text st) = Some st"
  by (cases st) (simp_all add: row_state_of_def)

lemma row_of_js [simp]: "row_of_js (row_js r) = Some r"
  by (simp add: row_of_js_def row_js_def split: option.split)

lemma row_js_plain: "row_ok r \<Longrightarrow> plain (row_js r)"
  by (auto simp: row_js_def row_ok_def split: option.split)

lemma row_js_def_neq [simp]: "row_js r \<noteq> Undef" "row_js r \<noteq> Null"
  by (simp_all add: row_js_def)

lemma row_text: "row_ok r \<Longrightarrow> stringify (row_js r) = Some (print_json (row_js r))"
  using norm_plain [OF row_js_plain] by (simp add: stringify_def)

lemma row_parse: "row_ok r \<Longrightarrow> json_parse (print_json (row_js r)) = Some (row_js r)"
  by (rule json_parse_print [OF row_js_plain])

lemma row_text_inj: "row_ok r \<Longrightarrow> row_ok r' \<Longrightarrow> print_json (row_js r) = print_json (row_js r') \<longleftrightarrow> r = r'"
  by (metis option.inject row_of_js row_parse)

lemma row_stored:
  assumes "row_inv s" "obj_get (kv_data s) k = Some e"
  obtains r where "row_ok r" "e = \<lparr>me_value = print_json (row_js r), me_ttl = None\<rparr>" "row_content s k = Some r"
proof -
  have "row_entry e" using assms obj_get_in_set [OF assms(2)] by (auto simp: row_inv_def)
  then show thesis using that assms(2) row_parse by (cases e) (auto simp: row_entry_def row_content_def)
qed

lemma row_inv_set:
  fixes k :: string
  assumes "row_inv s" "row_ok r"
  defines "s' \<equiv> flushToDisk (s\<lparr>kv_data := obj_set k \<lparr>me_value = print_json (row_js r), me_ttl = None\<rparr> (kv_data s)\<rparr>)"
  shows "row_inv s'" "row_content s' = (row_content s)(k \<mapsto> r)"
proof -
  have "\<forall>(k, e) \<in> set (kv_data s'). row_entry e"
  proof -
    let ?e = "\<lparr>me_value = print_json (row_js r), me_ttl = None\<rparr>"
    have "row_entry ?e" using assms(2) by (auto simp: row_entry_def)
    then show ?thesis using assms(1) obj_set_all [of "kv_data s" row_entry ?e k] by (simp add: s'_def row_inv_def)
  qed
  then show "row_inv s'" using assms(1) by (simp add: row_inv_def s'_def obj_wf_set)
  show "row_content s' = (row_content s)(k \<mapsto> r)"
    using row_parse [OF assms(2)] by (simp add: row_content_def s'_def fun_eq_iff)
qed

interpretation session_rows: row_store "row_get now syn" "row_put now syn" row_del row_content row_inv
proof
  fix s k assume inv: "row_inv s"
  show "row_get now syn k s = (s, Inr (row_content s k))"
  proof (cases "obj_get (kv_data s) k")
    case None
    then show ?thesis by (simp add: row_get_def kv_get_def row_content_def row_of_js_def)
  next
    case (Some e)
    from row_stored [OF inv this] obtain r where "row_ok r" "e = \<lparr>me_value = print_json (row_js r), me_ttl = None\<rparr>" "row_content s k = Some r" .
    then show ?thesis using Some row_parse by (simp add: row_get_def kv_get_def isExpired_def parse_entry_def)
  qed
next
  fix s r c k s' x
  assume inv: "row_inv s" and r: "row_ok r" and c: "\<And>r'. c = Some (IfValueEquals r') \<Longrightarrow> row_ok r'"
    and p: "row_put now syn k r c s = (s', x)"
  have "resolveTtlEpochSeconds n (row_opts c) = Inr None" for n
    by (auto simp: resolveTtlEpochSeconds_def row_opts_def no_put_options_def split: option.split row_cond.split)
  then consider "s' = s" "x \<noteq> Inr ()" | "x = Inr ()" "put_conflict k (row_opts c) s = None"
    "s' = flushToDisk (s\<lparr>kv_data := obj_set k \<lparr>me_value = print_json (row_js r), me_ttl = None\<rparr> (kv_data s)\<rparr>)"
    using kv_put_cases [OF p [unfolded row_put_def]] row_text [OF r] by auto
  then show "(x = Inr () \<and> row_inv s' \<and> row_content s' = (row_content s)(k \<mapsto> r) \<and> cond_holds c (row_content s k))
      \<or> (s' = s \<and> (\<exists>e. x = Inl e))"
  proof cases
    case 1
    then show ?thesis by (cases x) auto
  next
    case 2
    have cur: "map_option me_value (obj_get (kv_data s) k) = map_option (\<lambda>r. print_json (row_js r)) (row_content s k)
        \<and> (\<forall>r. row_content s k = Some r \<longrightarrow> row_ok r)"
    proof (cases "obj_get (kv_data s) k")
      case (Some e)
      from row_stored [OF inv this] obtain r0 where "row_ok r0" "e = \<lparr>me_value = print_json (row_js r0), me_ttl = None\<rparr>"
        "row_content s k = Some r0" .
      then show ?thesis using Some by simp
    qed (simp add: row_content_def)
    have "cond_holds c (row_content s k)"
    proof (cases c)
      case (Some co)
      then show ?thesis
      proof (cases co)
        case IfNotExists
        then show ?thesis using 2(2) Some cur
          by (cases "row_content s k") (auto simp: put_conflict_iff row_opts_def no_put_options_def cond_holds_def)
      next
        case (IfValueEquals r')
        then have "row_ok r'" using c Some by simp
        then show ?thesis using 2(2) Some IfValueEquals cur row_text_inj row_text
          by (cases "row_content s k") (auto simp: put_conflict_iff row_opts_def no_put_options_def cond_holds_def split: if_splits)
      qed
    qed (simp add: cond_holds_def)
    then show ?thesis using 2(1,3) row_inv_set [OF inv r, of k] by simp
  qed
next
  fix s k assume inv: "row_inv s"
  have "\<forall>(k', e) \<in> set (obj_del k (kv_data s)). row_entry e"
  proof -
    have "set (obj_del k (kv_data s)) \<subseteq> set (kv_data s)" by (auto simp: obj_del_def)
    then show ?thesis using inv by (auto simp: row_inv_def)
  qed
  then show "\<exists>s'. row_del k s = (s', Inr ()) \<and> row_inv s' \<and> row_content s' = (row_content s)(k := None)"
    using inv by (auto simp: row_del_def kv_delete_def no_delete_options_def row_inv_def row_content_def fun_eq_iff obj_wf_del)
qed

lemma rows_start: "row_inv (kv_open None)" "row_content (kv_open None) = (\<lambda>_. None)"
  by (simp_all add: row_inv_def kv_open_def loadFromDisk_def row_content_def fun_eq_iff)

section \<open>The cookie of a session\<close>

lemma trim_no_space:
  assumes "\<forall>c \<in> set s. \<not> is_space c"
  shows "trim s = s"
proof -
  have "set t = set s \<Longrightarrow> dropWhile is_space t = t" for t using assms by (metis dropWhile_eq_self_iff hd_in_set)
  then show ?thesis by (simp add: trim_def)
qed

definition cookie_chars :: "string \<Rightarrow> bool" where
  "cookie_chars s = (\<forall>c \<in> set s. \<not> is_space c \<and> c \<noteq> CHR '';'' \<and> c \<noteq> CHR ''='')"

lemma safe_cookie_char: "b64_safe c \<Longrightarrow> \<not> is_space c \<and> c \<noteq> CHR '';'' \<and> c \<noteq> CHR ''=''"
  by (auto simp: b64_safe_def is_space_def is_digit_def char_code_def)

lemma signed_value_chars: "cookie_chars (encodeSignedCookie hmac p secret)" "encodeSignedCookie hmac p secret \<noteq> []"
  using safe_cookie_char [OF base64url_safe]
  by (auto simp: cookie_chars_def encodeSignedCookie_def hmacSign_def ENVELOPE_VERSION_def Let_def is_space_def char_code_def)

lemma readCookie_back:
  assumes "cookie_chars name" "cookie_chars v"
  shows "readCookie (Some (name @ ''='' @ v)) name = Some v"
proof -
  have n: "CHR ''='' \<notin> set name" "CHR '';'' \<notin> set (name @ ''='' @ v)" using assms by (auto simp: cookie_chars_def)
  then have "split_on CHR '';'' (name @ ''='' @ v) = [name @ ''='' @ v]" by (intro split_on_no_sep)
  moreover have "index_of CHR ''='' (name @ ''='' @ v) = Some (length name)" using n(1) by (induction name) auto
  ultimately show ?thesis using assms trim_no_space by (auto simp: readCookie_def cookie_chars_def)
qed

text \<open>The session cookie that a sign-in sets is read back as its session until thirty days are over.\<close>

lemma session_cookie_opens:
  assumes "cookie_chars (so_prefix opts)" "now' div 1000 < now div 1000 + 2592000"
  shows "cookie_session opts expiry now' (Some (sessionCookieName (so_prefix opts) @ ''='' @ session_value opts provider sid now))
    = Some (sid, provider)"
proof -
  let ?p = "session_cookie_payload provider sid (now div 1000 + 30 * 24 * 3600)"
  have pl: "plain ?p" by (simp add: session_cookie_payload_def)
  have n: "cookie_chars (sessionCookieName (so_prefix opts))" using assms(1) by (auto simp: cookie_chars_def sessionCookieName_def is_space_def char_code_def)
  have r: "read_signed opts (sessionCookieName (so_prefix opts)) (Some (sessionCookieName (so_prefix opts) @ ''='' @ session_value opts provider sid now)) = Some ?p"
    using readCookie_back [OF n signed_value_chars(1)] signed_value_chars(2) signed_cookie_decodes [OF pl]
    by (simp add: read_signed_def session_value_def) (simp add: session_cookie_payload_def)
  show ?thesis using assms(2) unfolding cookie_session_def r by (simp add: session_cookie_payload_def cookie_expired_def)
qed

section \<open>Sign-out is final\<close>

definition signed_out :: "nat \<Rightarrow> string \<Rightarrow> sessions \<Rightarrow> bool" where
  "signed_out n sid sys =
     (n \<le> length (ss_calls sys) \<and> ss_store sys sid = None
      \<and> (\<forall>i < length (ss_calls sys). n \<le> i \<longrightarrow> sc_sid (ss_calls sys ! i) = sid \<longrightarrow> sc_pc (ss_calls sys ! i) \<in> {Reading, Answered None}))"

lemma apply_other: "event_sid ev \<noteq> sid \<Longrightarrow> apply_event f ev sid = f sid"
  by (cases ev) simp_all

lemma apply_others: "\<forall>ev \<in> set es. event_sid ev \<noteq> sid \<Longrightarrow> foldl apply_event f es sid = f sid"
  by (induction es arbitrary: f) (simp_all add: apply_other)

lemma pc_move_signed_out:
  assumes "pc_move opts sys i c pc pc' es" "ss_store sys (sc_sid c) = None"
  shows "foldl apply_event (ss_store sys) es (sc_sid c) = None"
    and "pc \<in> {Reading, Answered None} \<Longrightarrow> pc' \<in> {Reading, Answered None}"
  using assms by (cases; simp)+

lemma signed_out_move:
  assumes "session_move opts sys a es sys'" "signed_out n sid sys" "\<And>user token now. a \<noteq> SignIn sid user token now"
  shows "signed_out n sid sys'"
  using assms(1)
proof cases
  case (request force now header sid' provider container)
  then show ?thesis using assms(2) by (auto simp: signed_out_def nth_append less_Suc_eq)
next
  case (own i pc now answer)
  let ?c = "ss_calls sys ! i"
  have out: "ss_store sys sid = None" using assms(2) by (simp add: signed_out_def)
  have "foldl apply_event (ss_store sys) es sid = None"
  proof (cases "sc_sid ?c = sid")
    case True
    then show ?thesis using pc_move_signed_out(1) [OF own(4)] out by simp
  next
    case False
    then show ?thesis using apply_others [of es sid] pc_move_events [OF own(4)] out by auto
  qed
  moreover have "sc_pc (set_pc i pc (ss_calls sys) ! k) \<in> {Reading, Answered None}"
    if "k < length (ss_calls sys)" "n \<le> k" "sc_sid (set_pc i pc (ss_calls sys) ! k) = sid" for k
    using that assms(2) pc_move_signed_out(2) [OF own(4)] out by (auto simp: signed_out_def split: if_splits)
  ultimately show ?thesis using own assms(2) by (auto simp: signed_out_def)
qed (use assms(2,3) in \<open>auto simp: signed_out_def\<close>)

context row_store
begin

lemma session_run_append:
  "session_run get put del opts sys (xs @ ys) =
     (case session_run get put del opts sys xs of
        (sys', evs) \<Rightarrow> (case session_run get put del opts sys' ys of (sys'', es) \<Rightarrow> (sys'', evs @ es)))"
  by (induction xs arbitrary: sys) (auto split: prod.split)

lemma run_from:
  assumes "session_run get put del opts sys0 acts = (sys, es)" "\<forall>a \<in> set acts. act_ok a"
    and "inv (ss_store sys0)" "sessions_ok opts evs (view content sys0)"
    and "P (view content sys0)" "\<And>a v v' es. a \<in> set acts \<Longrightarrow> P v \<Longrightarrow> session_move opts v a es v' \<Longrightarrow> P v'"
  shows "P (view content sys)"
  using assms
proof (induction acts arbitrary: sys0 es evs)
  case (Cons a acts)
  obtain sys1 es1 where d: "session_do get put del opts sys0 a = (sys1, es1)" by fastforce
  obtain es2 where r: "session_run get put del opts sys1 acts = (sys, es2)" using Cons.prems(1) d by (auto split: prod.splits)
  have a: "act_ok a" "\<forall>b \<in> set acts. act_ok b" using Cons.prems(2) by simp_all
  note m = do_moves [OF Cons.prems(3,4) a(1) d]
  show ?case
    by (rule Cons.IH [OF r a(2) conjunct1 [OF m] move_ok [OF Cons.prems(4) conjunct2 [OF m]]])
      (use Cons.prems(5,6) m in auto)
qed simp

lemma final_after_sign_out:
  assumes s: "inv s" "content s = (\<lambda>_. None)"
    and ok: "\<forall>a \<in> set (before @ SignOut header # later). act_ok a"
    and c: "cookie_session opts False 0 header = Some (sid, provider)"
    and fresh: "\<forall>user token now. SignIn sid user token now \<notin> set later"
    and r1: "session_run get put del opts (sessions_start s) before = (sys1, evs1)"
    and r2: "session_run get put del opts (sessions_start s) (before @ SignOut header # later) = (sys2, evs2)"
  shows "signed_out (length (ss_calls sys1)) sid (view content sys2)"
proof -
  have m1: "inv (ss_store sys1)" "session_runs opts before evs1 (view content sys1)"
    using run_moves [OF s _ r1] ok by simp_all
  obtain s' where s': "del sid (ss_store sys1) = (s', Inr ())" "inv s'" "content s' = (content (ss_store sys1))(sid := None)"
    using del_row [OF m1(1)] by blast
  have d: "session_do get put del opts sys1 (SignOut header) = (sys1\<lparr>ss_store := s'\<rparr>, [Deleted sid])"
    using c s'(1) get_row [OF m1(1)] by simp
  obtain es where r: "session_run get put del opts (sys1\<lparr>ss_store := s'\<rparr>) later = (sys2, es)"
    using r2 r1 d by (auto simp: session_run_append split: prod.splits)
  have a: "act_ok (SignOut header)" "\<forall>b \<in> set later. act_ok b" using ok by simp_all
  note m = do_moves [OF m1(1) runs_ok [OF m1(2)] a(1) d]
  have out: "signed_out (length (ss_calls sys1)) sid (view content (sys1\<lparr>ss_store := s'\<rparr>))"
    using s'(3) by (simp add: signed_out_def)
  show ?thesis
    by (rule run_from [where P = "signed_out (length (ss_calls sys1)) sid",
          OF r a(2) conjunct1 [OF m] move_ok [OF runs_ok [OF m1(2)] conjunct2 [OF m]] out])
      (use fresh signed_out_move in blast)
qed

end

text \<open>C15: Sign-out invalidates a session for good.  Whatever refreshes of the session are in flight in any
  container, with whatever clocks and answers of the provider: once a sign-out has gone through, its row never
  comes back unless the same id is signed in again, and every request that names the session afterwards finds
  no user.\<close>

theorem oidc_sign_out_final:
  assumes "\<forall>a \<in> set (before @ SignOut header # later). act_ok a"
    and "cookie_session opts False 0 header = Some (sid, provider)"
    and "\<forall>user token n. SignIn sid user token n \<notin> set later"
    and "session_run (row_get now syn) (row_put now syn) row_del opts (sessions_start (kv_open None)) before = (sys1, evs1)"
    and "session_run (row_get now syn) (row_put now syn) row_del opts (sessions_start (kv_open None)) (before @ SignOut header # later)
      = (sys2, evs2)"
  shows "snd (row_get now syn sid (ss_store sys2)) = Inr None
    \<and> (\<forall>i u. length (ss_calls sys1) \<le> i \<longrightarrow> i < length (ss_calls sys2) \<longrightarrow> sc_sid (ss_calls sys2 ! i) = sid
         \<longrightarrow> sc_pc (ss_calls sys2 ! i) \<noteq> Answered (Some u))"
proof -
  have out: "signed_out (length (ss_calls sys1)) sid (view row_content sys2)"
    by (rule session_rows.final_after_sign_out [OF rows_start assms])
  have "row_inv (ss_store sys2)" using session_rows.run_moves [OF rows_start assms(1,5)] by blast
  then show ?thesis using out by (auto simp: session_rows.get_row signed_out_def)
qed

section \<open>One refresh at a time\<close>

lemma flight_of:
  "flights_ok sys \<Longrightarrow> i < length (ss_calls sys) \<Longrightarrow> attempting (sc_pc (ss_calls sys ! i))
    \<Longrightarrow> refreshInFlight sys (sc_container (ss_calls sys ! i), sc_sid (ss_calls sys ! i)) = Some i"
  unfolding flights_ok_def by blast

lemma shape_one_refresh:
  assumes "call_shape i sid pc es"
  shows "\<exists>t row fin. es = take (length es) [Leased i sid t row, Asked i sid (sr_refreshToken row), fin]
    \<and> (fin = Spoiled i sid \<or> (\<exists>r. fin = Renewed i sid r))"
proof -
  have "es = [] \<or> (\<exists>t row. es = [Leased i sid t row]) \<or> asked i sid es \<or> settled i sid es"
    using assms by (auto simp: call_shape_def split: session_pc.splits)
  then show ?thesis by (fastforce simp: asked_def settled_def)
qed

text \<open>C10: The refresh of a session is leased.  In every run, a call takes the lease at most once, asks the
  provider at most once and only with the refresh token of the row it leased, and then writes its outcome at
  most once.  While a lease is not ended by an outcome, a sign-out or a sign-in, the session is leased again only
  when the lock timeout has passed since.  In a container at most one call for a session is refreshing.\<close>

theorem oidc_refresh_leased:
  assumes "\<forall>a \<in> set acts. act_ok a" and "0 \<le> stale_timeout opts"
    and "session_run (row_get now syn) (row_put now syn) row_del opts (sessions_start (kv_open None)) acts = (sys, evs)"
  shows "(\<forall>i < length (ss_calls sys). \<exists>t row fin.
        own_events i evs = take (length (own_events i evs))
          [Leased i (sc_sid (ss_calls sys ! i)) t row, Asked i (sc_sid (ss_calls sys ! i)) (sr_refreshToken row), fin]
        \<and> (fin = Spoiled i (sc_sid (ss_calls sys ! i)) \<or> (\<exists>r. fin = Renewed i (sc_sid (ss_calls sys ! i)) r)))
    \<and> (\<forall>xs ys zs i j sid t t' row row'. evs = xs @ Leased i sid t row # ys @ Leased j sid t' row' # zs
        \<longrightarrow> (\<exists>ev \<in> set ys. ends_lease sid ev) \<or> stale_timeout opts \<le> t' - t)
    \<and> (\<forall>i < length (ss_calls sys). \<forall>j < length (ss_calls sys).
        attempting (sc_pc (ss_calls sys ! i)) \<longrightarrow> attempting (sc_pc (ss_calls sys ! j))
        \<longrightarrow> sc_container (ss_calls sys ! i) = sc_container (ss_calls sys ! j)
        \<longrightarrow> sc_sid (ss_calls sys ! i) = sc_sid (ss_calls sys ! j) \<longrightarrow> i = j)"
proof -
  have "sessions_ok opts evs (view row_content sys)"
    using session_rows.run_moves [OF rows_start assms(1,3)] runs_ok by blast
  then have log: "legal opts (\<lambda>_. None) evs" and calls: "calls_ok opts evs (view row_content sys)" and fl: "flights_ok (view row_content sys)"
    by (simp_all add: sessions_ok_def log_ok_def)
  have one: "i = j" if "i < length (ss_calls sys)" "j < length (ss_calls sys)" "attempting (sc_pc (ss_calls sys ! i))"
      "attempting (sc_pc (ss_calls sys ! j))" "sc_container (ss_calls sys ! i) = sc_container (ss_calls sys ! j)"
      "sc_sid (ss_calls sys ! i) = sc_sid (ss_calls sys ! j)" for i j
    using flight_of [OF fl, of i] flight_of [OF fl, of j] that unfolding view_sel by (metis option.inject)
  have shape: "call_shape i (sc_sid (ss_calls sys ! i)) (sc_pc (ss_calls sys ! i)) (own_events i evs)"
    if "i < length (ss_calls sys)" for i
    using calls that unfolding calls_ok_def view_sel by blast
  show ?thesis
    apply (intro conjI allI impI)
      apply (erule shape_one_refresh [OF shape])
    subgoal for xs ys zs i j sid t t' row row' using leases_apart [of opts "\<lambda>_. None" xs i sid t row ys j t' row' zs] log assms(2) by blast
    apply (erule (5) one)
    done
qed

section \<open>Who is answered\<close>

lemma calls_requested:
  assumes "session_runs opts acts evs sys" "i < length (ss_calls sys)"
  shows "\<exists>container force t header. Request container force t header \<in> set acts
    \<and> cookie_session opts (\<not> force) t header = Some (sc_sid (ss_calls sys ! i), sc_provider (ss_calls sys ! i))"
  using assms
proof (induction arbitrary: i rule: session_runs.induct)
  case (runs_step acts evs sys a es sys')
  from runs_step(2) show ?case
  proof cases
    case (request force now header sid provider container)
    then show ?thesis using runs_step.IH [of i] runs_step.prems
      by (cases "i < length (ss_calls sys)") (auto simp: nth_append less_Suc_eq)
  next
    case (own k pc now answer)
    then show ?thesis using runs_step.IH [of i] runs_step.prems by (cases "i = k") auto
  qed (use runs_step.IH [of i] runs_step.prems in auto)
qed (simp add: sessions_start_def)

lemma cookie_session_signed:
  assumes "cookie_session opts expiry now header = Some (sid, provider)"
  shows "\<exists>body p. readCookie header (so_prefix opts @ ''_session'')
        = Some (''v1.'' @ body @ ''.'' @ base64url (so_hmac opts (so_cookieSecret opts) (''v1.'' @ body)))
      \<and> json_parse (from_base64url body) = Some p \<and> get_prop p ''sessionId'' = Str sid \<and> get_prop p ''provider'' = Str provider"
proof -
  obtain p where p: "read_signed opts (sessionCookieName (so_prefix opts)) header = Some p"
    "get_prop p ''sessionId'' = Str sid" "get_prop p ''provider'' = Str provider"
    using assms by (auto simp: cookie_session_def split: option.splits if_splits jsval.splits)
  then obtain raw where "readCookie header (sessionCookieName (so_prefix opts)) = Some raw"
    "decodeSignedCookie (so_hmac opts) raw (so_cookieSecret opts) = Some p"
    by (auto simp: read_signed_def split: option.splits if_splits)
  with p decoded_cookie_signed [OF this(2)] show ?thesis
    by (metis ENVELOPE_VERSION_def append.assoc append_Cons append_Nil hmacSign_def sessionCookieName_def)
qed


text \<open>A forced refresh takes the lease of a row that is marked expired, where a verification refuses it.\<close>

lemma force_leases_expired:
  assumes "sr_state row = Expired" "refreshInFlight sys (sc_container c, sc_sid c) = None" "i < length (ss_calls sys)"
  shows "sc_force c \<Longrightarrow> sc_pc (ss_calls (got_row opts now i c row sys) ! i) = Locking row (locked_row row now)"
    and "\<not> sc_force c \<Longrightarrow> sc_pc (ss_calls (got_row opts now i c row sys) ! i) = Answered None"
  using assms by (simp_all add: got_row_def doRefresh_start_def)

section \<open>A run\<close>

text \<open>A sign-in at second 0 with claims that are current until second 100, a request, and a sign-out; the
  lock timeout is the default.\<close>

definition demo_sessions :: SessionOptions where
  "demo_sessions = \<lparr>so_hmac = (\<lambda>secret m. ''mac''), so_cookieSecret = ''secret'', so_prefix = ''auth'',
     so_attributes = \<lparr>ca_path = ''/'', ca_sameSite = ''Lax'', ca_secure = True, ca_partitioned = False\<rparr>, staleLockTimeoutMs = None\<rparr>"

definition demo_user :: OIDCUser where
  "demo_user = \<lparr>ou_userId = ''iss:ann'', ou_username = ''ann'', ou_provider = ''corp'', ou_sub = ''ann'', ou_iss = ''iss'',
     ou_email = None, ou_name = None, ou_claims = Obj [(''exp'', Num 100)]\<rparr>"

definition demo_header :: "string option" where
  "demo_header = Some (sessionCookieName ''auth'' @ ''='' @ session_value demo_sessions ''corp'' ''s1'' 0)"

definition demo_acts :: "session_act list" where
  "demo_acts = [SignIn ''s1'' demo_user (Some ''token'') 0, Request 0 False 5000 demo_header, Run 0 5000 None, Run 0 5000 None]"

lemma demo_cookie: "t div 1000 < 2592000 \<Longrightarrow> cookie_session demo_sessions expiry t demo_header = Some (''s1'', ''corp'')"
  using session_cookie_opens [of demo_sessions t 0 expiry "''corp''" "''s1''"]
  by (simp add: demo_header_def demo_sessions_def cookie_chars_def is_space_def char_code_def)

lemma demo_acts_ok: "\<forall>a \<in> set demo_acts. act_ok a"
  by (simp add: demo_acts_def demo_user_def)

lemma oidc_sign_out_final_witness:
  defines "before \<equiv> demo_acts" and "later \<equiv> [Request 1 False 6000 demo_header, Run 1 6000 None]"
  defines "final \<equiv> session_run (row_get 0 id) (row_put 0 id) row_del demo_sessions (sessions_start (kv_open None))
    (before @ SignOut demo_header # later)"
  shows "snd (row_get 0 id ''s1'' (ss_store (fst final))) = Inr None"
proof -
  have ok: "\<forall>a \<in> set (before @ SignOut demo_header # later). act_ok a" using demo_acts_ok by (simp add: before_def later_def)
  have c: "cookie_session demo_sessions False 0 demo_header = Some (''s1'', ''corp'')" by (rule demo_cookie) simp
  have f: "\<forall>user token n. SignIn ''s1'' user token n \<notin> set later" by (simp add: later_def)
  from oidc_sign_out_final [OF ok c f prod.collapse [symmetric] prod.collapse [symmetric]]
  show ?thesis unfolding final_def by blast
qed

abbreviation demo_row :: SessionRow where
  "demo_row \<equiv> new_session_row demo_user (Some ''token'') 0"

lemma demo_row_ok: "row_ok demo_row"
  by (simp add: row_ok_def new_session_row_def demo_user_def)

lemma demo_row_fits: "length (print_json (row_js demo_row)) \<le> MAX_ITEM_BYTES"
proof -
  have "length (print_json (row_js demo_row)) \<le> 200" by code_simp
  then show ?thesis by (simp add: MAX_ITEM_BYTES_def)
qed

definition demo_store :: kv_store where
  "demo_store = fst (row_put 0 id ''s1'' demo_row (Some IfNotExists) (kv_open None))"

lemma demo_row_put: "row_put 0 id ''s1'' demo_row (Some IfNotExists) (kv_open None) = (demo_store, Inr ())"
proof -
  have "snd (row_put 0 id ''s1'' demo_row (Some IfNotExists) (kv_open None)) = Inr ()"
    unfolding row_put_def
    by (subst put_valid [OF _ row_text [OF demo_row_ok] demo_row_fits, of _ _ None])
       (simp_all add: session_env_def validateSchema_def resolveTtlEpochSeconds_def row_opts_def no_put_options_def
          put_conflict_def kv_open_def loadFromDisk_def)
  then show ?thesis unfolding demo_store_def by (metis prod.collapse)
qed

lemma demo_row_get: "row_get 0 id ''s1'' demo_store = (demo_store, Inr (Some demo_row))"
  using session_rows.put_row [OF rows_start(1) demo_row_ok _ demo_row_put] session_rows.get_row [of demo_store 0 id "''s1''"] by auto

definition demo_run :: "kv_store session_sys \<times> session_event list" where
  "demo_run = session_run (row_get 0 id) (row_put 0 id) row_del demo_sessions (sessions_start (kv_open None)) demo_acts"

lemma demo_answer:
  "length (ss_calls (fst demo_run)) = 1" "sc_sid (ss_calls (fst demo_run) ! 0) = ''s1''"
  "sc_pc (ss_calls (fst demo_run) ! 0) = Answered (Some (statefulRowToUser demo_row ''corp''))"
  by (simp_all add: demo_run_def demo_acts_def sessions_start_def demo_row_put demo_cookie advance_def read_then_def demo_row_get
      set_pc_def got_row_def)
     (simp_all add: new_session_row_def demo_user_def)

lemma oidc_refresh_leased_witness:
  "\<exists>t row fin. own_events 0 (snd demo_run) = take (length (own_events 0 (snd demo_run)))
       [Leased 0 ''s1'' t row, Asked 0 ''s1'' (sr_refreshToken row), fin]
     \<and> (fin = Spoiled 0 ''s1'' \<or> (\<exists>r. fin = Renewed 0 ''s1'' r))"
proof -
  have s: "0 \<le> stale_timeout demo_sessions" by (simp add: stale_timeout_def demo_sessions_def)
  have r: "session_run (row_get 0 id) (row_put 0 id) row_del demo_sessions (sessions_start (kv_open None)) demo_acts
      = (fst demo_run, snd demo_run)" by (simp add: demo_run_def)
  have l: "0 < length (ss_calls (fst demo_run))" using demo_answer(1) by simp
  from conjunct1 [OF oidc_refresh_leased [OF demo_acts_ok s r]] l show ?thesis unfolding demo_answer(2) [symmetric] by blast
qed


end
