(* ===== verification/OidcFlow.thy ===== *)
theory OidcFlow
  imports OidcRefresh Uri
begin

text \<open>
  The relay flow of \<^verbatim>\<open>packages/bb-auth-oidc/src\<close>: the authorize-params route and the callback route of
  \<^verbatim>\<open>routes.ts\<close>, with \<open>handleCallbackDispatch\<close>, the paths and the signed-out state of
  \<^verbatim>\<open>auth-oidc.ts\<close> and the state that \<^verbatim>\<open>engines/oidc-client-engine.ts\<close> signs.  The provider's endpoints,
  the exchange of the code and \<open>URL\<close> are parameters; a redirect is its target with the query parameters set on it.
\<close>

section \<open>Paths\<close>

definition BLOCKS_AUTH_PREFIX :: string where "BLOCKS_AUTH_PREFIX = ''/aws-blocks/auth''"
definition DEFAULT_CALLBACK_PATH :: string where "DEFAULT_CALLBACK_PATH = BLOCKS_AUTH_PREFIX @ ''/callback''"
definition DEFAULT_SIGNOUT_PATH :: string where "DEFAULT_SIGNOUT_PATH = BLOCKS_AUTH_PREFIX @ ''/signout''"
definition DEFAULT_POST_SIGNIN_PATH :: string where "DEFAULT_POST_SIGNIN_PATH = ''/''"
definition CSRF_MIN_LENGTH :: nat where "CSRF_MIN_LENGTH = 32"

record OidcOptions =
  oo_session :: SessionOptions
  oo_providers :: "string list"
  allowedRelayOrigins :: "string list option"
  oo_callbackPath :: "string option"
  oo_signOutPath :: "string option"
  oo_postSignInPath :: "string option"

definition callbackPath :: "OidcOptions \<Rightarrow> string" where "callbackPath opts = opt_or (oo_callbackPath opts) DEFAULT_CALLBACK_PATH"
definition signOutPath :: "OidcOptions \<Rightarrow> string" where "signOutPath opts = opt_or (oo_signOutPath opts) DEFAULT_SIGNOUT_PATH"
definition postSignInPath :: "OidcOptions \<Rightarrow> string" where "postSignInPath opts = opt_or (oo_postSignInPath opts) DEFAULT_POST_SIGNIN_PATH"
definition allow_list :: "OidcOptions \<Rightarrow> string list" where "allow_list opts = opt_or (allowedRelayOrigins opts) []"

text \<open>\<open>slice(0, lastIndexOf('/'))\<close>; without a slash the index is -1 and the last character goes.\<close>

definition parent_path :: "string \<Rightarrow> string" where
  "parent_path p =
     (case index_of CHR ''/'' (rev p) of
        None \<Rightarrow> butlast p
      | Some n \<Rightarrow> take (length p - 1 - n) p)"

definition signInBasePathFor :: "string \<Rightarrow> string" where
  "signInBasePathFor path = parent_path path @ ''/signin''"

definition signInRoutePathFor :: "string \<Rightarrow> string \<Rightarrow> string" where
  "signInRoutePathFor path providerName = signInBasePathFor path @ ''/'' @ encode_uri providerName"

definition invalidConfig :: "string \<Rightarrow> thrown" where
  "invalidConfig message = brandBlocksError (set_err_name ''AuthOIDCConfigError'' (new_Error (''AuthOIDC config error: '' @ message)))"

text \<open>The part of \<open>validateAuthOIDCOptions\<close> about paths, whose types TypeScript checks.\<close>

definition check_auth_path :: "string \<Rightarrow> string option \<Rightarrow> (thrown, unit) res" where
  "check_auth_path k v =
     (case v of
        None \<Rightarrow> Inr ()
      | Some p \<Rightarrow>
          if \<not> starts_with p (BLOCKS_AUTH_PREFIX @ ''/'')
          then Inl (invalidConfig (k @ '' must be a path under '' @ [CHR 0x27] @ BLOCKS_AUTH_PREFIX @ ''/'' @ [CHR 0x27] @ '' (e.g. ''
                 @ [CHR 0x27] @ BLOCKS_AUTH_PREFIX @ ''/callback'' @ [CHR 0x27] @ ''), got: '' @ print_json (Str p)
                 @ ''. Auth routes live under the reserved namespace so deployed CloudFront apps proxy the whole flow.''))
          else Inr ())"

definition check_paths :: "OidcOptions \<Rightarrow> (thrown, unit) res" where
  "check_paths opts =
     (case oo_postSignInPath opts of
        Some p \<Rightarrow>
          if \<not> starts_with p ''/''
          then Inl (invalidConfig (''postSignInPath must be an absolute path starting with '' @ [CHR 0x27] @ ''/'' @ [CHR 0x27]
                 @ '', got: '' @ print_json (Str p)))
          else (case check_auth_path ''callbackPath'' (oo_callbackPath opts) of
                  Inl e \<Rightarrow> Inl e | Inr _ \<Rightarrow> check_auth_path ''signOutPath'' (oo_signOutPath opts))
      | None \<Rightarrow>
          (case check_auth_path ''callbackPath'' (oo_callbackPath opts) of
             Inl e \<Rightarrow> Inl e | Inr _ \<Rightarrow> check_auth_path ''signOutPath'' (oo_signOutPath opts)))"

text \<open>\<open>search(/\/aws-blocks\b/)\<close>: where the namespace starts in the path, if it does.\<close>

definition word_char :: "char \<Rightarrow> bool" where
  "word_char c = (is_digit c \<or> c = CHR ''_'' \<or> (65 \<le> char_code c \<and> char_code c \<le> 90) \<or> (97 \<le> char_code c \<and> char_code c \<le> 122))"

definition namespace_here :: "string \<Rightarrow> bool" where
  "namespace_here s =
     (starts_with s ''/aws-blocks'' \<and> (case drop (length ''/aws-blocks'') s of [] \<Rightarrow> True | c # _ \<Rightarrow> \<not> word_char c))"

fun search_namespace :: "nat \<Rightarrow> string \<Rightarrow> nat option" where
  "search_namespace n [] = None"
| "search_namespace n (c # s) = (if namespace_here (c # s) then Some n else search_namespace (Suc n) s)"

definition computeCallbackUrl :: "OidcOptions \<Rightarrow> string option \<Rightarrow> string \<Rightarrow> string \<Rightarrow> string \<Rightarrow> string" where
  "computeCallbackUrl opts publicOrigin protocol host pathname =
     (if publicOrigin \<noteq> None \<and> publicOrigin \<noteq> Some [] then the publicOrigin @ callbackPath opts
      else
        (let stagePrefix = (case search_namespace 0 pathname of Some n \<Rightarrow> if n > 0 then take n pathname else [] | None \<Rightarrow> []) in
         protocol @ ''//'' @ host @ stagePrefix @ callbackPath opts))"

definition formatProviderLabel :: "string \<Rightarrow> string" where
  "formatProviderLabel name = (if name = ''google'' then ''Google'' else if name = ''github'' then ''GitHub'' else name)"

text \<open>The actions of the signed-out state: name, label and URL, with no fields, by GET.\<close>

definition oidc_signedOutState :: "OidcOptions \<Rightarrow> (string \<times> string \<times> string) list" where
  "oidc_signedOutState opts =
     map (\<lambda>p. (p, ''Sign in with '' @ formatProviderLabel p, signInRoutePathFor (callbackPath opts) p)) (oo_providers opts)"

section \<open>The request for parameters\<close>

record AuthorizeParamsRequest =
  ap_csrf :: string
  ap_relayTo :: "string option"
  ap_appState :: "string option"

definition validateAuthorizeParamsBody :: "jsval \<Rightarrow> (string, AuthorizeParamsRequest) res" where
  "validateAuthorizeParamsBody raw =
     (if \<not> truthy raw \<or> \<not> is_object raw then Inl ''Body must be a JSON object''
      else
        (case get_prop raw ''csrf'' of
           Str csrf \<Rightarrow>
             if length csrf < CSRF_MIN_LENGTH
             then Inl (''csrf is required and must be at least '' @ show_nat CSRF_MIN_LENGTH @ '' chars'')
             else if get_prop raw ''relayTo'' \<noteq> Undef \<and> (str_prop raw ''relayTo'' = None \<or> str_prop raw ''relayTo'' = Some [])
             then Inl ''relayTo must be a non-empty string when provided''
             else if get_prop raw ''appState'' \<noteq> Undef \<and> str_prop raw ''appState'' = None
             then Inl ''appState must be a string when provided''
             else Inr \<lparr>ap_csrf = csrf, ap_relayTo = str_prop raw ''relayTo'', ap_appState = str_prop raw ''appState''\<rparr>
         | _ \<Rightarrow> Inl (''csrf is required and must be at least '' @ show_nat CSRF_MIN_LENGTH @ '' chars'')))"

text \<open>The state that \<open>getAuthorizeParams\<close> signs for a relay request made at \<open>requestUrl\<close>.\<close>

definition signed_state :: "url_parser \<Rightarrow> OidcOptions \<Rightarrow> string \<Rightarrow> AuthorizeParamsRequest \<Rightarrow> (relay_reason, string) res" where
  "signed_state parse opts requestUrl request =
     (let state = encodeState (so_hmac (oo_session opts))
            \<lparr>st_csrf = ap_csrf request, st_relay = ap_relayTo request, st_app = ap_appState request\<rparr> (so_cookieSecret (oo_session opts)) in
      case ap_relayTo request of
        None \<Rightarrow> Inr state
      | Some relayTo \<Rightarrow>
          (case validateRelay parse relayTo (allow_list opts) (Some requestUrl) of
             Inl reason \<Rightarrow> Inl reason
           | Inr _ \<Rightarrow> Inr state))"

datatype params_reply = BadBody string | InvalidRelay relay_reason "string list" | Params string

text \<open>The POST route, where the provider's endpoints have been found.\<close>

definition authorize_params_post :: "url_parser \<Rightarrow> OidcOptions \<Rightarrow> string \<Rightarrow> jsval \<Rightarrow> params_reply" where
  "authorize_params_post parse opts requestUrl raw =
     (case validateAuthorizeParamsBody raw of
        Inl e \<Rightarrow> BadBody e
      | Inr request \<Rightarrow>
          (case signed_state parse opts requestUrl request of
             Inl reason \<Rightarrow> InvalidRelay reason (allow_list opts)
           | Inr state \<Rightarrow> Params state))"

section \<open>The callback\<close>

record callback_request =
  oq_url :: string
  oq_params :: "(string \<times> string) list"
  oq_cookie :: "string option"

definition search_param :: "callback_request \<Rightarrow> string \<Rightarrow> string option" where
  "search_param q k = map_of (oq_params q) k"

text \<open>A search parameter that is there and not empty.\<close>

definition given_param :: "callback_request \<Rightarrow> string \<Rightarrow> string option" where
  "given_param q k = (case search_param q k of Some v \<Rightarrow> if v = [] then None else Some v | None \<Rightarrow> None)"

definition hasPendingAuthCookie :: "OidcOptions \<Rightarrow> callback_request \<Rightarrow> bool" where
  "hasPendingAuthCookie opts q =
     (case readCookie (oq_cookie q) (pendingCookieName (so_prefix (oo_session opts))) of Some v \<Rightarrow> v \<noteq> [] | None \<Rightarrow> False)"

datatype CallbackResult =
    ServerExchange
  | Relay string "(string \<times> string) list"
  | RelayError string "(string \<times> string) list"
  | CallbackError string string

definition buildRelayRedirect :: "string \<Rightarrow> (string \<times> string) list \<Rightarrow> string \<times> (string \<times> string) list" where
  "buildRelayRedirect relay params = (relay, filter (\<lambda>(k, v). v \<noteq> []) params)"

definition relay_reason_text :: "relay_reason \<Rightarrow> string" where
  "relay_reason_text r =
     (case r of MalformedUri \<Rightarrow> ''malformed'' | UnknownOrigin \<Rightarrow> ''unknown-origin'' | PlaintextNonLoopback \<Rightarrow> ''plaintext-non-loopback'')"

definition relay_dispatch :: "url_parser \<Rightarrow> OidcOptions \<Rightarrow> callback_request \<Rightarrow> string \<Rightarrow> string \<Rightarrow> CallbackResult" where
  "relay_dispatch parse opts q stateParam relay =
     (case validateRelay parse relay (allow_list opts) (Some (oq_url q)) of
        Inl reason \<Rightarrow> CallbackError ''invalid_relay'' (''relay target no longer allowed: '' @ relay_reason_text reason)
      | Inr _ \<Rightarrow>
          (case given_param q ''error'' of
             Some idpError \<Rightarrow>
               (case buildRelayRedirect relay [(''error'', idpError), (''error_description'', opt_or (search_param q ''error_description'') []),
                       (''state'', stateParam)] of (target, params) \<Rightarrow> RelayError target params)
           | None \<Rightarrow>
               (case given_param q ''code'' of
                  None \<Rightarrow> CallbackError ''invalid_callback'' ''missing code parameter''
                | Some code \<Rightarrow>
                    (case buildRelayRedirect relay ([(''code'', code), (''state'', stateParam)]
                            @ (case given_param q ''iss'' of None \<Rightarrow> [] | Some iss \<Rightarrow> [(''iss'', iss)])) of
                       (target, params) \<Rightarrow> Relay target params))))"

definition handleCallbackDispatch :: "url_parser \<Rightarrow> OidcOptions \<Rightarrow> callback_request \<Rightarrow> CallbackResult" where
  "handleCallbackDispatch parse opts q =
     (if hasPendingAuthCookie opts q then ServerExchange
      else
        (case given_param q ''state'' of
           None \<Rightarrow> CallbackError ''invalid_state'' ''missing state parameter''
         | Some stateParam \<Rightarrow>
             (case decodeState (so_hmac (oo_session opts)) stateParam (so_cookieSecret (oo_session opts)) of
                Inl BadVersion \<Rightarrow> CallbackError ''sdk_outdated'' (''state envelope version not recognized '' @ em_dash @ '' update your SDK'')
              | Inl Malformed \<Rightarrow>
                  CallbackError ''invalid_state'' (''state verification failed: not a relay envelope and no pending-auth cookie ''
                    @ ''(server-initiated callback missing its cookie '' @ em_dash @ '' likely a host/origin mismatch '' @ em_dash
                    @ '' or a malformed relay state)'')
              | Inl BadSignature \<Rightarrow> CallbackError ''invalid_state'' ''state verification failed: signature mismatch''
              | Inr payload \<Rightarrow>
                  (case st_relay payload of
                     None \<Rightarrow> ServerExchange
                   | Some relay \<Rightarrow> if relay = [] then ServerExchange else relay_dispatch parse opts q stateParam relay))))"

datatype location = NoLocation | PathLocation string | RelayLocation string "(string \<times> string) list"

record callback_reply =
  cr_status :: jsval
  cr_location :: location
  cr_body :: jsval

definition callback_error_name :: "string \<Rightarrow> string" where
  "callback_error_name code =
     (if code = ''invalid_state'' then ''InvalidStateException''
      else if code = ''sdk_outdated'' then ''SdkOutdatedException''
      else if code = ''invalid_relay'' then ''InvalidRelayException'' else ''InvalidCallbackException'')"

text \<open>The callback route; \<open>exchange\<close> is what \<open>auth.handleCallback\<close> gives.\<close>

definition callback_route :: "url_parser \<Rightarrow> OidcOptions \<Rightarrow> (callback_request \<Rightarrow> (thrown, unit) res) \<Rightarrow> callback_request \<Rightarrow> callback_reply" where
  "callback_route parse opts exchange q =
     (case handleCallbackDispatch parse opts q of
        Relay target params \<Rightarrow> \<lparr>cr_status = Num 302, cr_location = RelayLocation target params, cr_body = Str []\<rparr>
      | RelayError target params \<Rightarrow> \<lparr>cr_status = Num 302, cr_location = RelayLocation target params, cr_body = Str []\<rparr>
      | CallbackError code message \<Rightarrow>
          \<lparr>cr_status = Num 400, cr_location = NoLocation,
           cr_body = Obj [(''error'', Str code), (''message'', Str message), (''name'', Str (callback_error_name code))]\<rparr>
      | ServerExchange \<Rightarrow>
          (case exchange q of
             Inl e \<Rightarrow>
               (case e of
                  JsError name message api brand status retriable cause \<Rightarrow>
                    \<lparr>cr_status = (if api then status else Num 400), cr_location = NoLocation,
                     cr_body = Obj [(''error'', Str message), (''name'', Str name)]\<rparr>
                | JsThrow v \<Rightarrow>
                    \<lparr>cr_status = Num 400, cr_location = NoLocation,
                     cr_body = Obj [(''error'', get_prop v ''message''), (''name'', get_prop v ''name'')]\<rparr>)
           | Inr _ \<Rightarrow> \<lparr>cr_status = Num 302, cr_location = PathLocation (postSignInPath opts), cr_body = Str []\<rparr>))"

section \<open>Where a callback may redirect\<close>

lemma relay_dispatch_redirects:
  assumes "relay_dispatch parse opts q s relay \<in> {Relay target params, RelayError target params}"
  shows "target = relay \<and> relay_safe parse (allow_list opts) (oq_url q) target
    \<and> fst ` set params \<subseteq> {''code'', ''state'', ''iss'', ''error'', ''error_description''} \<and> (\<forall>v. (''state'', v) \<in> set params \<longrightarrow> v = s)"
proof -
  obtain u where "validateRelay parse relay (allow_list opts) (Some (oq_url q)) = Inr u"
    using assms by (auto simp: relay_dispatch_def split: sum.splits)
  from validated_relay_safe [OF this] show ?thesis using assms
    by (auto simp: relay_dispatch_def buildRelayRedirect_def split: sum.splits option.splits if_splits)
qed

lemma given_param_search: "given_param q k = Some v \<Longrightarrow> search_param q k = Some v \<and> v \<noteq> []"
  by (auto simp: given_param_def split: option.splits if_splits)

text \<open>C17: The callback route is no open redirector.  When it redirects away from the application, the request
  came without a pending sign-in, its \<open>state\<close> is signed with the server's secret and names that very target,
  the target is on the client's own machine, on the host of the request or in the allow list, and only the
  parameters of the protocol are added, with the \<open>state\<close> as it came; otherwise the only redirect is to the
  configured landing path.\<close>

theorem oidc_relay_safe:
  "(cr_location (callback_route parse opts exchange q) = RelayLocation target params \<longrightarrow>
     \<not> hasPendingAuthCookie opts q \<and> relay_safe parse (allow_list opts) (oq_url q) target
     \<and> (\<exists>body payload.
          search_param q ''state'' = Some (body @ ''.'' @ base64url (so_hmac (oo_session opts) (so_cookieSecret (oo_session opts)) body))
        \<and> validateV1 (the (json_parse (from_base64url body))) = Some payload \<and> st_relay payload = Some target
        \<and> (\<forall>v. (''state'', v) \<in> set params \<longrightarrow> search_param q ''state'' = Some v))
     \<and> fst ` set params \<subseteq> {''code'', ''state'', ''iss'', ''error'', ''error_description''})
   \<and> (cr_location (callback_route parse opts exchange q) = PathLocation p \<longrightarrow> p = postSignInPath opts)"
proof (intro conjI impI)
  assume "cr_location (callback_route parse opts exchange q) = RelayLocation target params"
  then have d: "handleCallbackDispatch parse opts q \<in> {Relay target params, RelayError target params}"
    by (auto simp: callback_route_def split: CallbackResult.splits sum.splits thrown.splits)
  then obtain s payload relay where s: "\<not> hasPendingAuthCookie opts q" "given_param q ''state'' = Some s"
    "decodeState (so_hmac (oo_session opts)) s (so_cookieSecret (oo_session opts)) = Inr payload" "st_relay payload = Some relay"
    "relay_dispatch parse opts q s relay \<in> {Relay target params, RelayError target params}"
    by (auto simp: handleCallbackDispatch_def split: if_splits option.splits sum.splits state_failure.splits)
  obtain body where "s = body @ ''.'' @ base64url (so_hmac (oo_session opts) (so_cookieSecret (oo_session opts)) body)"
    "validateV1 (the (json_parse (from_base64url body))) = Some payload" using decoded_state_signed [OF s(3)] .
  note b = this
  have f: "target = relay" "relay_safe parse (allow_list opts) (oq_url q) target"
    "fst ` set params \<subseteq> {''code'', ''state'', ''iss'', ''error'', ''error_description''}" "\<forall>v. (''state'', v) \<in> set params \<longrightarrow> v = s"
    using relay_dispatch_redirects [OF s(5)] by blast+
  have p: "search_param q ''state'' = Some s" using given_param_search [OF s(2)] by simp
  show "\<not> hasPendingAuthCookie opts q" "relay_safe parse (allow_list opts) (oq_url q) target"
    "fst ` set params \<subseteq> {''code'', ''state'', ''iss'', ''error'', ''error_description''}" by (fact s(1) f(2) f(3))+
  show "\<exists>body payload. search_param q ''state'' = Some (body @ ''.'' @ base64url (so_hmac (oo_session opts) (so_cookieSecret (oo_session opts)) body))
        \<and> validateV1 (the (json_parse (from_base64url body))) = Some payload \<and> st_relay payload = Some target
        \<and> (\<forall>v. (''state'', v) \<in> set params \<longrightarrow> search_param q ''state'' = Some v)"
    using b s(4) f(1,4) p by (intro exI [of _ body] exI [of _ payload]) auto
next
  assume "cr_location (callback_route parse opts exchange q) = PathLocation p"
  then show "p = postSignInPath opts"
    by (auto simp: callback_route_def split: CallbackResult.splits sum.splits thrown.splits)
qed

section \<open>The way of a relay request\<close>

lemma post_state:
  assumes "authorize_params_post parse opts url raw = Params state"
  obtains request where "validateAuthorizeParamsBody raw = Inr request"
    "state = encodeState (so_hmac (oo_session opts))
       \<lparr>st_csrf = ap_csrf request, st_relay = ap_relayTo request, st_app = ap_appState request\<rparr> (so_cookieSecret (oo_session opts))"
    "\<And>r. ap_relayTo request = Some r \<Longrightarrow> validateRelay parse r (allow_list opts) (Some url) = Inr ()"
  using assms by (auto simp: authorize_params_post_def signed_state_def Let_def split: sum.splits option.splits)

lemma body_fields:
  assumes "validateAuthorizeParamsBody raw = Inr r"
  shows "get_prop raw ''csrf'' = Str (ap_csrf r)" "ap_relayTo r = str_prop raw ''relayTo''" "ap_appState r = str_prop raw ''appState''"
    "32 \<le> length (ap_csrf r)" "ap_relayTo r \<noteq> Some []"
proof -
  show "get_prop raw ''csrf'' = Str (ap_csrf r)" "ap_relayTo r = str_prop raw ''relayTo''" "ap_appState r = str_prop raw ''appState''"
    "32 \<le> length (ap_csrf r)"
    using assms by (auto simp: validateAuthorizeParamsBody_def CSRF_MIN_LENGTH_def split: if_splits jsval.splits)
  show "ap_relayTo r \<noteq> Some []"
  proof
    assume "ap_relayTo r = Some []"
    then have "str_prop raw ''relayTo'' = Some []" using assms
      by (auto simp: validateAuthorizeParamsBody_def split: if_splits jsval.splits)
    moreover from this have "get_prop raw ''relayTo'' \<noteq> Undef" by (auto simp: str_prop_def)
    ultimately show False using assms by (auto simp: validateAuthorizeParamsBody_def split: if_splits jsval.splits)
  qed
qed

lemma validateRelay_same_origin:
  "parseOrigin parse u = parseOrigin parse v \<Longrightarrow> validateRelay parse r allowList (Some u) = validateRelay parse r allowList (Some v)"
  by (cases "parseOrigin parse r") (simp_all add: validateRelay_def)

text \<open>C27: What the authorize-params route signs, the callback honours.  If the POST route answers a body with a
  state, a callback at the same origin that brings this state and a code, without a pending sign-in, is redirected
  to exactly the \<open>relayTo\<close> of the body with the code, the state and the issuer if there is one; and the state
  decodes to the body's \<open>csrf\<close>, \<open>relayTo\<close> and \<open>appState\<close>.\<close>

theorem oidc_relay_roundtrip:
  assumes "\<And>m. so_hmac (oo_session opts) (so_cookieSecret (oo_session opts)) m \<noteq> []"
    and "authorize_params_post parse opts url raw = Params state"
    and "\<not> hasPendingAuthCookie opts q" and "search_param q ''state'' = Some state"
    and "search_param q ''code'' = Some code" and "code \<noteq> []" and "search_param q ''error'' = None"
    and "parseOrigin parse (oq_url q) = parseOrigin parse url"
  shows "(\<exists>csrf. get_prop raw ''csrf'' = Str csrf \<and> 32 \<le> length csrf
        \<and> decodeState (so_hmac (oo_session opts)) state (so_cookieSecret (oo_session opts))
          = Inr \<lparr>st_csrf = csrf, st_relay = str_prop raw ''relayTo'', st_app = str_prop raw ''appState''\<rparr>)
    \<and> handleCallbackDispatch parse opts q =
        (case str_prop raw ''relayTo'' of
           None \<Rightarrow> ServerExchange
         | Some r \<Rightarrow> Relay r ([(''code'', code), (''state'', state)]
              @ (case given_param q ''iss'' of None \<Rightarrow> [] | Some iss \<Rightarrow> [(''iss'', iss)])))"
proof -
  obtain request where r: "validateAuthorizeParamsBody raw = Inr request"
    "state = encodeState (so_hmac (oo_session opts))
       \<lparr>st_csrf = ap_csrf request, st_relay = ap_relayTo request, st_app = ap_appState request\<rparr> (so_cookieSecret (oo_session opts))"
    and valid: "\<And>t. ap_relayTo request = Some t \<Longrightarrow> validateRelay parse t (allow_list opts) (Some url) = Inr ()"
    using post_state [OF assms(2)] by blast
  note f = body_fields [OF r(1)]
  let ?p = "\<lparr>st_csrf = ap_csrf request, st_relay = ap_relayTo request, st_app = ap_appState request\<rparr>"
  have "st_csrf ?p \<noteq> []" using f(4) by auto
  from state_decodes [where hmac = "so_hmac (oo_session opts)" and secret = "so_cookieSecret (oo_session opts)", OF this assms(1)] r(2)
  have d: "decodeState (so_hmac (oo_session opts)) state (so_cookieSecret (oo_session opts)) = Inr ?p" by simp
  have ne: "state \<noteq> []" using r(2) by (simp add: encodeState_def Let_def)
  have g: "given_param q ''state'' = Some state" "given_param q ''error'' = None" "given_param q ''code'' = Some code"
    using assms(4-7) ne by (simp_all add: given_param_def)
  have "handleCallbackDispatch parse opts q =
        (case ap_relayTo request of
           None \<Rightarrow> ServerExchange
         | Some t \<Rightarrow> Relay t ([(''code'', code), (''state'', state)]
              @ (case given_param q ''iss'' of None \<Rightarrow> [] | Some iss \<Rightarrow> [(''iss'', iss)])))"
  proof (cases "ap_relayTo request")
    case None
    then show ?thesis using assms(3) g d by (simp add: handleCallbackDispatch_def)
  next
    case (Some t)
    have "validateRelay parse t (allow_list opts) (Some (oq_url q)) = Inr ()"
      using valid [OF Some] validateRelay_same_origin [OF assms(8)] by simp
    moreover have "t \<noteq> []" using f(5) Some by auto
    ultimately show ?thesis using assms(3,6) g d Some ne given_param_search [of q "''iss''"]
      by (auto simp: handleCallbackDispatch_def relay_dispatch_def buildRelayRedirect_def split: option.split)
  qed
  then show ?thesis using d f by auto
qed

section \<open>A relay request on the client's machine\<close>

definition demo_options :: OidcOptions where
  "demo_options = \<lparr>oo_session = demo_sessions, oo_providers = [''google''], allowedRelayOrigins = None, oo_callbackPath = None,
     oo_signOutPath = None, oo_postSignInPath = None\<rparr>"

definition demo_parser :: url_parser where
  "demo_parser u = Some \<lparr>up_protocol = ''http:'', up_username = [], up_password = [], up_hostname = ''127.0.0.1'', up_port = [],
     up_pathname = ''/done'', up_search = [], up_hash = []\<rparr>"

definition demo_body :: jsval where
  "demo_body = Obj [(''csrf'', Str (replicate 32 CHR ''c'')), (''relayTo'', Str ''http://127.0.0.1/done'')]"

definition demo_state :: string where
  "demo_state = encodeState (so_hmac demo_sessions)
     \<lparr>st_csrf = replicate 32 CHR ''c'', st_relay = Some ''http://127.0.0.1/done'', st_app = None\<rparr> (so_cookieSecret demo_sessions)"

definition demo_callback :: callback_request where
  "demo_callback = \<lparr>oq_url = ''http://127.0.0.1:3000/aws-blocks/auth/callback'', oq_params = [(''state'', demo_state), (''code'', ''c1'')],
     oq_cookie = None\<rparr>"

lemma demo_relay_valid: "validateRelay demo_parser u l (Some v) = Inr ()" if "u \<noteq> []"
proof -
  have "parseOrigin demo_parser u = Some \<lparr>po_scheme = ''http'', po_host = ''127.0.0.1'', po_port = None\<rparr>"
  proof -
    have "to_lower ''http'' = ''http''" "to_lower ''127.0.0.1'' = ''127.0.0.1''" by code_simp+
    then show ?thesis using that by (simp add: parseOrigin_def demo_parser_def)
  qed
  then show ?thesis by (simp add: validateRelay_def RELAY_LOOPBACK_HOSTS_def)
qed

lemma demo_post: "authorize_params_post demo_parser demo_options url demo_body = Params demo_state"
  by (simp add: authorize_params_post_def validateAuthorizeParamsBody_def demo_body_def str_prop_def is_object_def CSRF_MIN_LENGTH_def
      signed_state_def demo_relay_valid demo_state_def demo_options_def)

lemma demo_decodes:
  "decodeState (so_hmac demo_sessions) demo_state (so_cookieSecret demo_sessions)
   = Inr \<lparr>st_csrf = replicate 32 CHR ''c'', st_relay = Some ''http://127.0.0.1/done'', st_app = None\<rparr>"
  unfolding demo_state_def by (rule state_decodes) (simp_all add: demo_sessions_def)

lemma demo_dispatch:
  "callback_route demo_parser demo_options (\<lambda>q. Inr ()) demo_callback
   = \<lparr>cr_status = Num 302, cr_location = RelayLocation ''http://127.0.0.1/done'' [(''code'', ''c1''), (''state'', demo_state)],
      cr_body = Str []\<rparr>"
proof -
  have "demo_state \<noteq> []" by (simp add: demo_state_def encodeState_def Let_def)
  then show ?thesis
    using demo_decodes demo_relay_valid
    by (simp add: callback_route_def handleCallbackDispatch_def hasPendingAuthCookie_def readCookie_def demo_callback_def given_param_def
        search_param_def relay_dispatch_def buildRelayRedirect_def demo_options_def)
qed

lemma oidc_relay_safe_witness:
  "relay_safe demo_parser [] ''http://127.0.0.1:3000/aws-blocks/auth/callback'' ''http://127.0.0.1/done''"
proof -
  have l: "cr_location (callback_route demo_parser demo_options (\<lambda>q. Inr ()) demo_callback)
      = RelayLocation ''http://127.0.0.1/done'' [(''code'', ''c1''), (''state'', demo_state)]"
    by (simp add: demo_dispatch)
  have "relay_safe demo_parser (allow_list demo_options) (oq_url demo_callback) ''http://127.0.0.1/done''"
    using l oidc_relay_safe [of demo_parser demo_options "\<lambda>q. Inr ()" demo_callback] by blast
  then show ?thesis by (simp add: allow_list_def demo_options_def demo_callback_def)
qed

lemma oidc_relay_roundtrip_witness:
  "handleCallbackDispatch demo_parser demo_options demo_callback
   = Relay ''http://127.0.0.1/done'' [(''code'', ''c1''), (''state'', demo_state)]"
proof -
  have h: "\<And>m. so_hmac (oo_session demo_options) (so_cookieSecret (oo_session demo_options)) m \<noteq> []"
    by (simp add: demo_options_def demo_sessions_def)
  have q: "\<not> hasPendingAuthCookie demo_options demo_callback" "search_param demo_callback ''state'' = Some demo_state"
    "search_param demo_callback ''code'' = Some ''c1''" "''c1'' \<noteq> []" "search_param demo_callback ''error'' = None"
    "given_param demo_callback ''iss'' = None"
    by (simp_all add: hasPendingAuthCookie_def readCookie_def demo_callback_def search_param_def given_param_def)
  from conjunct2 [OF oidc_relay_roundtrip [OF h demo_post [of "oq_url demo_callback"] q(1-5) refl]] q(6)
  show ?thesis by (simp add: demo_body_def str_prop_def)
qed

end
