(* ===== verification/Spec2Isabelle.thy ===== *)
theory Spec2Isabelle
  imports Dispatch Redact AsyncJob AuthApi KvRefine Crud CronJob FileProps FileServer Realtime
    ServerSubscribe Migrations JobQueue OidcFlow
begin

text \<open>
  AWS Blocks: a verification development of the core of the TypeScript packages.

  An application imports building blocks (\<^verbatim>\<open>packages/bb-*\<close>: a key-value store, tables, jobs, sign-in,
  a SQL database) and exports API namespaces.  \<^verbatim>\<open>packages/core\<close> carries a typed client call as
  JSON-RPC over HTTP to the method it names and back.  Each block has a local runtime, which is
  modelled here, and an AWS runtime with the same contract, which is not: it consists of calls of the
  AWS SDK.

  \<^bold>\<open>Conventions.\<close>  Strings are lists of bytes (UTF-8).  JavaScript values are the datatype \<open>jsval\<close>:
  numbers are integers, objects are lists of properties in enumeration order.  A function that may
  throw returns \<open>Inl\<close> of what is thrown (\<open>thrown\<close>, in \<open>Errors\<close>) or \<open>Inr\<close> of its result; a function
  with effects takes and returns a state.  Every theory opens with the files it models and keeps their
  function names; a name that clashes carries a suffix.

  \<^bold>\<open>The RPC path\<close> (\<^verbatim>\<open>packages/core/src\<close>).
  \<open>Prelude\<close> has results, strings and ordered property lists; \<open>Json\<close> has \<open>JSON.stringify\<close> and
  \<open>JSON.parse\<close> with their inverse theorem; \<open>Uri\<close> has path constants and percent-coding.
  \<open>Rpc\<close> (\<^verbatim>\<open>rpc.ts\<close>) encodes and parses requests and responses and decides what of an error may
  cross the wire.  \<open>RpcDispatch\<close> (\<^verbatim>\<open>rpc-dispatch.ts\<close>) decides which export and member a request
  may reach.  \<open>Cors\<close> with \<open>Regex\<close> (\<^verbatim>\<open>cors.ts\<close>), \<open>RawRoute\<close> (\<^verbatim>\<open>raw-route.ts\<close>), \<open>SetCookie\<close>
  (\<^verbatim>\<open>set-cookie.ts\<close>, with the ECMAScript calendar) and \<open>ClientUserAgent\<close> are what the dispatcher
  consults; \<open>Redact\<close> (\<^verbatim>\<open>redact.ts\<close>) is the copy of a value that may be logged.  \<open>Dispatch\<close>
  (\<^verbatim>\<open>dispatch.ts\<close>) composes them and proves the calls end to end: a call reaches its method with
  its arguments and the client decodes the result, and of an error exactly the wire-safe part.

  \<^bold>\<open>Stores and jobs.\<close>
  \<open>KvStore\<close> (\<^verbatim>\<open>bb-kv-store\<close>) has conditional writes, expiry and the store file, written by
  \<open>JsonPretty\<close>; \<open>KvRefine\<close> shows that it refines an abstract map with expiry across restarts.
  \<open>DistributedTable\<close> (\<^verbatim>\<open>bb-distributed-table\<close>) has items with keys and indexes, conditions,
  queries and the table file.  \<open>AsyncJob\<close> (\<^verbatim>\<open>bb-async-job\<close>) is the status tracking of jobs as a
  transition system of interleaved callers over a table with compare-and-swap; \<open>JobQueue\<close>
  (\<^verbatim>\<open>index.mock.ts\<close>) is the local queue as runs of interleaved jobs with their delays, retries and
  failures: what a job calls, and in which order, is a function of how its attempts end.

  \<^bold>\<open>Sign-in\<close> (\<^verbatim>\<open>bb-auth-basic\<close>, \<^verbatim>\<open>auth-common\<close>, \<^verbatim>\<open>core/src/common\<close>).
  \<open>RuntimeConfig\<close> has the config cache, its single load in flight and the deployment type;
  \<open>AuthCookies\<close> the cookie attributes.  \<open>AuthStore\<close> states what the sign-in code relies on of a
  store in three locales (\<open>cas_store\<close>, \<open>consistent_store\<close>, \<open>reliable_store\<close>) and interprets each on the
  local key-value store.  \<open>AuthWorld\<close> has the effects of a call (the two stores, events such as a
  code sent or a password compared) and their combinators.  \<open>AuthCodes\<close> has single-use codes as steps
  of interleaved callers, \<open>AuthLockout\<close> the failure rows, \<open>AuthSession\<close> tokens, revocation and
  session epochs, \<open>AuthBasic\<close> the operations and the state machine they form.  \<open>AuthSignIn\<close>,
  \<open>AuthThrottle\<close>, \<open>AuthReset\<close> and \<open>AuthApi\<close> hold the theorems: codes cannot be guessed more than five
  times, a locked account compares no password, a reset or sign-out ends sessions, every state
  answered is well formed.

  \<^bold>\<open>Sign-in with identity providers\<close> (\<^verbatim>\<open>bb-auth-oidc\<close>).
  \<open>OidcCookie\<close> (\<^verbatim>\<open>session-cookie.ts\<close>, \<^verbatim>\<open>state.ts\<close>, \<^verbatim>\<open>relay.ts\<close>) has the signed cookies, the signed \<open>state\<close>
  and the check of relay targets.  \<open>OidcSession\<close> (\<^verbatim>\<open>engines/session-manager.ts\<close>) has the sessions: requests,
  refreshes, sign-ins and sign-outs of many containers, interleaved at every access of the store they share,
  with arbitrary clocks; what they do there is a log of events, which is shown to be legal and to tell the
  rows.  \<open>OidcRefresh\<close> states the store as the locale \<open>row_store\<close>, interprets it on the key-value store and
  has the theorems: a refresh is leased, a sign-out is final, a request is answered with the user of the session its
  signed cookie names.  \<open>OidcFlow\<close> (\<^verbatim>\<open>auth-oidc.ts\<close>, \<^verbatim>\<open>routes.ts\<close>, the state signed in
  \<^verbatim>\<open>engines/oidc-client-engine.ts\<close>) has the relay flow: the callback is no open redirector, and what the
  authorize-params route signs the callback honours.  The exchange of codes and tokens with the provider is left to
  the engines and their libraries and is a parameter.

  \<^bold>\<open>The SQL database\<close> (\<^verbatim>\<open>bb-data\<close>).
  \<open>SqlBuilder\<close> (\<^verbatim>\<open>crud/sql-builder.ts\<close>) builds statements from values a client sends; a token reader of
  SQL is its specification: what is built consists of keywords, names of the table and placeholders
  numbered as the parameters.  \<open>Database\<close> (\<^verbatim>\<open>database.ts\<close>, \<^verbatim>\<open>rls.ts\<close>, \<^verbatim>\<open>errors.ts\<close>) runs them in
  transactions scoped to a user; every engine call is logged and \<open>rls_step\<close> is the automaton the log must
  follow.  \<open>Crud\<close> (\<^verbatim>\<open>crud/index.ts\<close>) has the generated handlers and shows that each call is one such
  transaction, committed exactly when it returns.  \<open>Migrations\<close> (\<^verbatim>\<open>data-common/src/migrations.ts\<close>)
  splits SQL files into statements, exactly as a grammar of their lexical parts says, and applies each
  file as a whole or not at all.

  \<^bold>\<open>Schedules\<close> (\<^verbatim>\<open>bb-cron-job\<close>).
  \<open>CronSchedule\<close> (\<^verbatim>\<open>schedule.ts\<close>) reads \<open>rate\<close> and \<open>cron\<close> expressions; \<open>CronJob\<close>
  (\<^verbatim>\<open>index.mock.ts\<close>) finds the next minute and sets timers; a job fires in exactly the minutes that
  match, each once.

  \<^bold>\<open>Files\<close> (\<^verbatim>\<open>bb-file-bucket\<close>).
  \<open>FileSys\<close> is the part of \<^verbatim>\<open>node:fs\<close> and \<^verbatim>\<open>node:path\<close> the local bucket uses, over an explicit disk, with
  a small calculus of what a run may touch; \<open>FileBucket\<close> (\<^verbatim>\<open>index.mock.ts\<close>, \<^verbatim>\<open>paths.ts\<close>) has the
  operations and \<open>BucketOptions\<close> the constructor with its checks of names and options.  \<open>FileLayout\<close>
  shows which files belong to a key and that operations keep to them; \<open>FileHistory\<close> and
  \<open>FileCurrent\<close> hold the invariant of versions, and \<open>FileProps\<close> the theorems: what is written is read
  back, the current file is the newest version, stored versions are kept, a scan is exact.
  \<open>FileTokens\<close> (\<^verbatim>\<open>tokens.ts\<close>) signs URLs and \<open>FileServer\<close> (\<^verbatim>\<open>file-server.ts\<close>,
  \<^verbatim>\<open>mock-middleware.ts\<close>) mints and answers them: a signed URL reads or writes what the bucket itself
  would, and nothing is served or stored without such a URL.  \<open>TokenCodec\<close> has the base64url
  coding of tokens, shared with the next part.

  \<^bold>\<open>Channels\<close> (\<^verbatim>\<open>bb-realtime\<close>).
  \<open>Realtime\<close> (\<^verbatim>\<open>utils.ts\<close>, \<^verbatim>\<open>index.ts\<close>, \<^verbatim>\<open>ws-server.ts\<close>, \<^verbatim>\<open>core/src/common/loopback.ts\<close>) has the
  signed channel tokens, the local publish and subscribe and the development WebSocket server as runs
  of events: a handle returned to a client brings it the messages of its channel, and nobody is sent a
  message without a token that was good for its channel.  \<open>ServerSubscribe\<close>
  (\<^verbatim>\<open>server-subscribe.ts\<close>) is the state machine of a subscription inside a server: which of its two
  paths delivers.

  \<^bold>\<open>Interfaces.\<close>  Where one part relies on another, what it relies on is a locale, interpreted on the
  definitions of the part that provides it; the properties rest on the interpreted facts.  The generated
  handlers of \<open>Crud\<close>, for instance, see the database as \<open>scoped_database\<close>: a raw call with an
  accepted statement leaves no transaction open and commits exactly when it returns.

  \<^bold>\<open>Parameters.\<close>  Code outside the repository is an argument: bcrypt, jsonwebtoken, HMAC and
  SHA-256, the parser of URLs, the clock and random values, the S3 fetch of the config file, \<open>new RegExp\<close> on a user's pattern, free-form
  \<open>Date.parse\<close>, the validator and the handlers of the application, \<open>Intl\<close>, and the database engine.
  What a theorem needs of one is a hypothesis, and its witness gives a concrete function.

  \<^bold>\<open>Bounds and fuel.\<close>  A code check takes at most four steps of its own (\<open>run_code\<close>); an epoch bump is
  tried three times and a job transition \<open>MAX_CAS_ATTEMPTS\<close> times, as in the code; the search for the next
  minute covers a year, and longer gaps are crossed by timers of at most \<open>2 ^ 31 - 1\<close> milliseconds.
  All other recursion terminates by structure or by a measure.

  \<^bold>\<open>Not modelled\<close>: fractions and exponents in JSON, which the parser here rejects; white space and case
  beyond ASCII; one reading of the clock stands for those of one call; the rows of a sign-in store are
  those the block writes; the text of a \<open>TypeError\<close> and of other messages the engine composes; prototypes,
  except where a guard looks at them; symbolic links, permissions
  and limits of the file system; the HTTP server, Lambda and container adapters around the
  dispatcher; CDK layers; AWS runtimes; the browser clients of channels with their reconnection; database
  drivers; the engines that talk to identity providers, the stub provider and the browser client of OpenID sign-in;
  Cognito, agent and the remaining blocks.
\<close>

end
